(* ===== verification/Iris_Prelude.thy ===== *)
theory Iris_Prelude
  imports Main "HOL-Library.Word"
begin

text \<open>
  Shared vocabulary of the development: the names of the C types the runtime uses, the status
  codes of \<^verbatim>\<open>iris_errno.h\<close>, C's truncating integer division, and the generic facts on lists,
  options and arrays that several components need. The collections \<open>iris_simps\<close> (equations that
  unfold an operation) and \<open>iris_inv\<close> (preservation of an invariant) are filled by the components.
\<close>

unbundle bit_operations_syntax

named_theorems iris_simps \<open>unfolding equations of the operations\<close>
named_theorems iris_inv \<open>preservation of invariants\<close>

section \<open>C types\<close>

text \<open>
  \<open>size_t\<close>, \<open>unsigned long\<close> and pointers are 64-bit words. A C \<open>int\<close> is an \<open>int\<close> here: no
  arithmetic of the modelled code on an \<open>int\<close> leaves 32 bits for the sizes it is used with, and
  where a value is converted the range check is written out.
\<close>

type_synonym size_t = "64 word"
type_synonym uid = nat
type_synonym devno = nat

definition IRIS_SUCCESS :: int where "IRIS_SUCCESS = 0"
definition IRIS_ERROR :: int where "IRIS_ERROR = -1"

definition int32_ok :: "int \<Rightarrow> bool" where
  "int32_ok i \<longleftrightarrow> - (2 ^ 31) \<le> i \<and> i < 2 ^ 31"

section \<open>Lists as arrays\<close>

text \<open>A read of an array cell that does not exist has no value.\<close>

definition cell :: "'a list \<Rightarrow> nat \<Rightarrow> 'a option" where
  "cell xs i = (if i < length xs then Some (xs ! i) else None)"

lemma cell_Some [simp]: "cell xs i = Some x \<longleftrightarrow> i < length xs \<and> xs ! i = x"
  by (auto simp: cell_def)

lemma cell_None [simp]: "cell xs i = None \<longleftrightarrow> length xs \<le> i"
  by (auto simp: cell_def)

text \<open>A write to a cell that does not exist is an error of the program (undefined behaviour).\<close>

definition store :: "'a list \<Rightarrow> nat \<Rightarrow> 'a \<Rightarrow> 'a list option" where
  "store xs i v = (if i < length xs then Some (xs[i := v]) else None)"

lemma store_Some [simp]: "store xs i v = Some ys \<longleftrightarrow> i < length xs \<and> ys = xs[i := v]"
  by (auto simp: store_def)

lemma store_None [simp]: "store xs i v = None \<longleftrightarrow> length xs \<le> i"
  by (auto simp: store_def)

text \<open>The first index of a list whose element satisfies a predicate, the shape of many loops with
  \<open>break\<close>.\<close>

fun find_index :: "('a \<Rightarrow> bool) \<Rightarrow> 'a list \<Rightarrow> nat option" where
  "find_index P [] = None"
| "find_index P (x # xs) = (if P x then Some 0 else map_option Suc (find_index P xs))"

lemma find_index_Some:
  "find_index P xs = Some i \<longleftrightarrow> i < length xs \<and> P (xs ! i) \<and> (\<forall>j < i. \<not> P (xs ! j))"
proof (induction xs arbitrary: i)
  case (Cons x xs)
  then show ?case
    by (cases i) (auto simp: All_less_Suc2)
qed simp

lemma find_index_None: "find_index P xs = None \<longleftrightarrow> (\<forall>x \<in> set xs. \<not> P x)"
  by (induction xs) auto

section \<open>Insertion at the end without duplicates\<close>

text \<open>The runtime's \<open>for (...) if (uid == uids[i]) return; ... uids[n++] = uid\<close>.\<close>

definition push_unique :: "'a \<Rightarrow> 'a list \<Rightarrow> 'a list" where
  "push_unique x xs = (if x \<in> set xs then xs else xs @ [x])"

lemma set_push_unique [simp]: "set (push_unique x xs) = insert x (set xs)"
  by (auto simp: push_unique_def)

lemma distinct_push_unique [simp, intro]: "distinct xs \<Longrightarrow> distinct (push_unique x xs)"
  by (auto simp: push_unique_def)

lemma push_unique_absorb [simp]: "x \<in> set xs \<Longrightarrow> push_unique x xs = xs"
  by (simp add: push_unique_def)

section \<open>Sequences of steps and their simulation\<close>

fun opt_fold :: "('op \<Rightarrow> 's \<Rightarrow> 's option) \<Rightarrow> 'op list \<Rightarrow> 's \<Rightarrow> 's option" where
  "opt_fold f [] s = Some s"
| "opt_fold f (x # xs) s = Option.bind (f x s) (opt_fold f xs)"

lemma opt_fold_append: "opt_fold f (xs @ ys) s = Option.bind (opt_fold f xs s) (opt_fold f ys)"
  by (induction xs arbitrary: s) (auto split: bind_split)

text \<open>A detailed step relation follows an abstract one: where the specification has a step, the program has one, and
  related states stay related. \<open>ok\<close> are the operations the specification speaks about.\<close>

locale simulation =
  fixes rel :: "'a \<Rightarrow> 'c \<Rightarrow> bool" and astep :: "'op \<Rightarrow> 'a \<Rightarrow> 'a option" and cstep :: "'op \<Rightarrow> 'c \<Rightarrow> 'c option"
    and ok :: "'op \<Rightarrow> bool"
  assumes sim: "rel a c \<Longrightarrow> ok op \<Longrightarrow> astep op a = Some a' \<Longrightarrow> \<exists>c'. cstep op c = Some c' \<and> rel a' c'"
begin

lemma sim_fold:
  assumes "rel a c" "list_all ok ops" "opt_fold astep ops a = Some a'"
  shows "\<exists>c'. opt_fold cstep ops c = Some c' \<and> rel a' c'"
  using assms
proof (induction ops arbitrary: a c)
  case (Cons op ops)
  from Cons.prems(3) obtain a1 where a1: "astep op a = Some a1" "opt_fold astep ops a1 = Some a'"
    by (auto split: bind_splits)
  from sim [OF Cons.prems(1) _ a1(1)] Cons.prems(2) obtain c1 where "cstep op c = Some c1" "rel a1 c1" by auto
  with Cons.IH [of a1 c1] Cons.prems(2) a1(2) show ?case by auto
qed simp

end

end
