(* ===== verification/Iris_Defs.thy ===== *)
theory Iris_Defs
  imports Iris_Prelude
begin

text \<open>
  The constants of the public header \<^verbatim>\<open>iris_runtime.h\<close> that the modelled code uses: limits, the
  scheduling policies and device classes (bits of one \<open>int\<close>), the access modes of a kernel argument,
  the element types of a memory object and the kinds of reset.
\<close>

section \<open>Limits\<close>

definition DMEM_MAX_DIM :: nat where "DMEM_MAX_DIM = 6"
definition IRIS_MAX_NDEVS :: int where "IRIS_MAX_NDEVS = 2 ^ 8 - 1"

section \<open>Policies and device classes\<close>

definition iris_default :: int where "iris_default = 2 ^ 5"
definition iris_cpu :: int where "iris_cpu = 2 ^ 6"
definition iris_nvidia :: int where "iris_nvidia = 2 ^ 7"
definition iris_amd :: int where "iris_amd = 2 ^ 8"
definition iris_gpu_intel :: int where "iris_gpu_intel = 2 ^ 9"
definition iris_gpu :: int where "iris_gpu = (iris_nvidia OR iris_amd OR iris_gpu_intel)"
definition iris_phi :: int where "iris_phi = 2 ^ 10"
definition iris_fpga :: int where "iris_fpga = 2 ^ 11"
definition iris_hexagon :: int where "iris_hexagon = 2 ^ 12"
definition iris_dsp :: int where "iris_dsp = iris_hexagon"
definition iris_roundrobin :: int where "iris_roundrobin = 2 ^ 18"
definition iris_depend :: int where "iris_depend = 2 ^ 19"
definition iris_data :: int where "iris_data = 2 ^ 20"
definition iris_profile :: int where "iris_profile = 2 ^ 21"
definition iris_random :: int where "iris_random = 2 ^ 22"
definition iris_pending :: int where "iris_pending = 2 ^ 23"
definition iris_sdq :: int where "iris_sdq = 2 ^ 24"
definition iris_ftf :: int where "iris_ftf = 2 ^ 25"
definition iris_block_cycle :: int where "iris_block_cycle = 2 ^ 27"
definition iris_custom :: int where "iris_custom = 2 ^ 28"
definition iris_julia_policy :: int where "iris_julia_policy = 2 ^ 29"

lemmas iris_policy_defs =
  IRIS_MAX_NDEVS_def iris_default_def iris_cpu_def iris_nvidia_def iris_amd_def iris_gpu_intel_def iris_gpu_def
  iris_phi_def iris_fpga_def iris_hexagon_def iris_dsp_def iris_roundrobin_def iris_depend_def
  iris_data_def iris_profile_def iris_random_def iris_pending_def iris_sdq_def iris_ftf_def
  iris_block_cycle_def iris_custom_def iris_julia_policy_def

section \<open>Access modes, element types, resets\<close>

definition iris_r :: int where "iris_r = -1"
definition iris_w :: int where "iris_w = -2"
definition iris_rw :: int where "iris_rw = -3"

definition iris_unknown :: int where "iris_unknown = 0 * 2 ^ 16"
definition iris_int :: int where "iris_int = 1 * 2 ^ 16"
definition iris_float :: int where "iris_float = 3 * 2 ^ 16"
definition iris_double :: int where "iris_double = 4 * 2 ^ 16"
definition iris_int8 :: int where "iris_int8 = 6 * 2 ^ 16"
definition iris_uint8 :: int where "iris_uint8 = 7 * 2 ^ 16"
definition iris_int16 :: int where "iris_int16 = 8 * 2 ^ 16"
definition iris_uint16 :: int where "iris_uint16 = 9 * 2 ^ 16"
definition iris_int32 :: int where "iris_int32 = 10 * 2 ^ 16"
definition iris_uint32 :: int where "iris_uint32 = 11 * 2 ^ 16"
definition iris_int64 :: int where "iris_int64 = 12 * 2 ^ 16"
definition iris_uint64 :: int where "iris_uint64 = 13 * 2 ^ 16"
definition iris_long :: int where "iris_long = 14 * 2 ^ 16"
definition iris_bool :: int where "iris_bool = 16 * 2 ^ 16"

lemmas iris_type_defs =
  iris_unknown_def iris_int_def iris_float_def iris_double_def iris_int8_def iris_uint8_def
  iris_int16_def iris_uint16_def iris_int32_def iris_uint32_def iris_int64_def iris_uint64_def
  iris_long_def iris_bool_def

definition iris_reset_memset :: int where "iris_reset_memset = 0"
definition iris_reset_assign :: int where "iris_reset_assign = 1"
definition iris_reset_arith_seq :: int where "iris_reset_arith_seq = 2"
definition iris_reset_geom_seq :: int where "iris_reset_geom_seq = 3"

definition iris_normal :: int where "iris_normal = 2 ^ 10"

end
