(* ===== verification/Iris_Object.thy ===== *)
theory Iris_Object
  imports Iris_Defs
begin

text \<open>
  Reference-counted objects and their registry: \<^verbatim>\<open>Retainable.h\<close>, \<^verbatim>\<open>Retainable.cpp\<close> and
  \<^verbatim>\<open>ObjectTrack.h\<close>. Every task, kernel, memory object and graph is a \<open>Retainable\<close>; its class
  extends the record \<open>Retainable\<close> below. The registry maps a unique id to a pointer, which is
  NULL after the object was deleted, so that a stale id is detected. An object is alive exactly as
  long as the registry holds it (the only \<open>delete this\<close> is in \<open>ForceRelease\<close>, after the entry was set
  to NULL), so the model keeps the object itself in the registry and a call through a pointer to an
  object that is gone has no result (\<open>None\<close>).
\<close>

section \<open>Unique ids\<close>

text \<open>The static counter of \<open>iris_create_new_uid\<close> starts at 1; the function returns the id and leaves
  the counter at it.\<close>

definition iris_uid_init :: uid where "iris_uid_init = 1"

definition iris_create_new_uid :: "uid \<Rightarrow> uid \<times> uid" where
  "iris_create_new_uid ctr = (let new_uid = ctr + 1 in (new_uid, new_uid))"

section \<open>The registry\<close>

text \<open>\<open>std::map<unsigned long, void*>\<close>: no entry, an entry that is NULL, or a pointer.\<close>

type_synonym 'o ObjectTrack = "uid \<Rightarrow> 'o option option"

definition ObjectTrack_new :: "'o ObjectTrack" where
  "ObjectTrack_new = (\<lambda>_. None)"

definition IsObjectExists :: "'o ObjectTrack \<Rightarrow> uid \<Rightarrow> bool" where
  "IsObjectExists t u = (case t u of None \<Rightarrow> False | Some obj \<Rightarrow> obj \<noteq> None)"

definition GetObject :: "'o ObjectTrack \<Rightarrow> uid \<Rightarrow> 'o option" where
  "GetObject t u = (case t u of None \<Rightarrow> None | Some obj \<Rightarrow> obj)"

definition TrackObject :: "'o ObjectTrack \<Rightarrow> 'o \<Rightarrow> uid \<Rightarrow> 'o ObjectTrack" where
  "TrackObject t p u = t(u := Some (Some p))"

definition UntrackObject :: "'o ObjectTrack \<Rightarrow> uid \<Rightarrow> 'o ObjectTrack" where
  "UntrackObject t u = t(u := Some None)"

text \<open>A callback sees the object and may change the registry (it runs under the registry's lock).\<close>

definition CallBackIfObjectExists ::
  "'o ObjectTrack \<Rightarrow> uid \<Rightarrow> ('o \<Rightarrow> 'o ObjectTrack \<Rightarrow> 'o ObjectTrack) \<Rightarrow> 'o ObjectTrack \<times> bool" where
  "CallBackIfObjectExists t u callbackfn =
     (case GetObject t u of
        Some p \<Rightarrow> (callbackfn p t, True)
      | None \<Rightarrow> (t, False))"

definition ObjectTrack_Clear :: "'o ObjectTrack \<Rightarrow> 'o ObjectTrack" where
  "ObjectTrack_Clear t = (\<lambda>u. if t u = Some None then None else t u)"

subsection \<open>The contract of a registry\<close>

locale registry =
  fixes lookup :: "'t \<Rightarrow> uid \<Rightarrow> 'o option"
    and track :: "'t \<Rightarrow> 'o \<Rightarrow> uid \<Rightarrow> 't"
    and untrack :: "'t \<Rightarrow> uid \<Rightarrow> 't"
  assumes lookup_track: "lookup (track t p u) v = (if v = u then Some p else lookup t v)"
    and lookup_untrack: "lookup (untrack t u) v = (if v = u then None else lookup t v)"
begin

definition update :: "uid \<Rightarrow> ('o \<Rightarrow> 'o) \<Rightarrow> 't \<Rightarrow> 't option" where
  "update u f t = map_option (\<lambda>p. track t (f p) u) (lookup t u)"

lemma update_Some:
  "update u f t = Some t' \<longleftrightarrow> (\<exists>p. lookup t u = Some p \<and> t' = track t (f p) u)"
  by (auto simp: update_def)

lemma update_None: "update u f t = None \<longleftrightarrow> lookup t u = None"
  by (simp add: update_def)

lemma lookup_update:
  "update u f t = Some t' \<Longrightarrow> lookup t' v = (if v = u then map_option f (lookup t v) else lookup t v)"
  by (auto simp: update_Some lookup_track)

lemma update_alive: "update u f t = Some t' \<Longrightarrow> lookup t' v = None \<longleftrightarrow> lookup t v = None"
  by (auto simp: lookup_update split: if_splits)

lemma untrack_dead: "lookup t v = None \<Longrightarrow> lookup (untrack t u) v = None"
  by (simp add: lookup_untrack)

end

interpretation ot: registry GetObject TrackObject UntrackObject
  by unfold_locales (auto simp: GetObject_def TrackObject_def UntrackObject_def)

lemmas registry_simps [iris_simps] = ot.lookup_track ot.lookup_untrack

lemma IsObjectExists_iff: "IsObjectExists t u \<longleftrightarrow> GetObject t u \<noteq> None"
  by (auto simp: IsObjectExists_def GetObject_def split: option.splits)

lemma GetObject_new [simp]: "GetObject ObjectTrack_new u = None"
  by (simp add: GetObject_def ObjectTrack_new_def)

lemma GetObject_Clear [simp]: "GetObject (ObjectTrack_Clear t) u = GetObject t u"
  by (auto simp: GetObject_def ObjectTrack_Clear_def split: option.splits)

text \<open>A method call through a pointer: the object is changed in place.\<close>

definition at_object :: "uid \<Rightarrow> ('o \<Rightarrow> 'o) \<Rightarrow> 'o ObjectTrack \<Rightarrow> 'o ObjectTrack option" where
  "at_object u f t = (case GetObject t u of None \<Rightarrow> None | Some p \<Rightarrow> Some (TrackObject t (f p) u))"

lemma at_object_update: "at_object u f t = ot.update u f t"
  by (simp add: at_object_def ot.update_def split: option.splits)

lemma at_object_Some [iris_simps]:
  "at_object u f t = Some t' \<longleftrightarrow> (\<exists>p. GetObject t u = Some p \<and> t' = TrackObject t (f p) u)"
  by (simp add: at_object_update ot.update_Some)

lemma at_object_None [iris_simps]: "at_object u f t = None \<longleftrightarrow> GetObject t u = None"
  by (simp add: at_object_update ot.update_None)

section \<open>Reference counting\<close>

datatype RetainMode = CREATE_MODE | PROCESS_MODE

record Retainable =
  obj_uid :: uid
  ref_cnt :: int
  retain_mode :: RetainMode
  is_release :: bool
  track_set :: bool

text \<open>The constructor's fields; \<open>track_\<close> is NULL until \<open>set_object_track\<close>.\<close>

definition Retainable_init :: "uid \<Rightarrow> Retainable" where
  "Retainable_init u = \<lparr>obj_uid = u, ref_cnt = 1, retain_mode = CREATE_MODE, is_release = True, track_set = False\<rparr>"

definition ChangeToProcessMode :: "'a Retainable_scheme \<Rightarrow> 'a Retainable_scheme" where
  "ChangeToProcessMode r = r\<lparr>retain_mode := PROCESS_MODE\<rparr>"

definition DisableRelease :: "'a Retainable_scheme \<Rightarrow> 'a Retainable_scheme" where
  "DisableRelease r = r\<lparr>is_release := False\<rparr>"

definition EnableRelease :: "'a Retainable_scheme \<Rightarrow> 'a Retainable_scheme" where
  "EnableRelease r = r\<lparr>is_release := True\<rparr>"

definition set_object_track :: "'a Retainable_scheme \<Rightarrow> 'a Retainable_scheme" where
  "set_object_track r = r\<lparr>track_set := True\<rparr>"

definition Retain :: "'a Retainable_scheme \<Rightarrow> 'a Retainable_scheme" where
  "Retain r = r\<lparr>ref_cnt := ref_cnt r + 1\<rparr>"

definition ref_cnt_bound_check :: "'a Retainable_scheme \<Rightarrow> int \<Rightarrow> bool" where
  "ref_cnt_bound_check r n = (if retain_mode r = CREATE_MODE then n = 0 else n = 1)"

text \<open>\<open>ForceRelease\<close> of the object with id \<open>u\<close>; \<open>None\<close> is the call through a NULL \<open>track_\<close>.\<close>

definition ForceRelease :: "uid \<Rightarrow> bool \<Rightarrow> 'a Retainable_scheme ObjectTrack \<Rightarrow> 'a Retainable_scheme ObjectTrack option" where
  "ForceRelease u check t =
     (case GetObject t u of
        None \<Rightarrow> None
      | Some r \<Rightarrow>
          if track_set r \<and> \<not> IsObjectExists t u then Some t
          else if \<not> check \<or> ref_cnt_bound_check r (ref_cnt r) \<and> is_release r then
            (if track_set r then Some (UntrackObject t u) else None)
          else Some t)"

text \<open>\<open>StaticForceRelease\<close>, the callback \<open>Release\<close> passes to the registry.\<close>

definition StaticForceRelease :: "uid \<Rightarrow> 'a Retainable_scheme ObjectTrack \<Rightarrow> 'a Retainable_scheme ObjectTrack option" where
  "StaticForceRelease u t = (if GetObject t u = None then Some t else ForceRelease u True t)"

definition Release :: "uid \<Rightarrow> 'a Retainable_scheme ObjectTrack \<Rightarrow> ('a Retainable_scheme ObjectTrack \<times> int) option" where
  "Release u t =
     (case GetObject t u of
        None \<Rightarrow> None
      | Some r \<Rightarrow>
          let n = ref_cnt r - 1;
              r' = r\<lparr>ref_cnt := n\<rparr>;
              t' = TrackObject t r' u
          in if ref_cnt_bound_check r' n \<and> is_release r' then
               (if track_set r' then map_option (\<lambda>t. (t, n)) (StaticForceRelease u t') else None)
             else Some (t', n))"

text \<open>When \<open>Release\<close> deletes the object: the count has reached the bound of the object's mode and
  the object is not held by \<open>DisableRelease\<close>.\<close>

definition last_ref :: "'a Retainable_scheme \<Rightarrow> bool" where
  "last_ref r \<longleftrightarrow> is_release r \<and> ref_cnt r = (if retain_mode r = CREATE_MODE then 1 else 2)"

lemma Release_eq:
  "Release u t =
     (case GetObject t u of
        None \<Rightarrow> None
      | Some r \<Rightarrow>
          let t' = TrackObject t (r\<lparr>ref_cnt := ref_cnt r - 1\<rparr>) u in
          if last_ref r then
            (if track_set r then Some (UntrackObject t' u, ref_cnt r - 1) else None)
          else Some (t', ref_cnt r - 1))"
  by (auto simp: Release_def StaticForceRelease_def ForceRelease_def Let_def last_ref_def
      ref_cnt_bound_check_def IsObjectExists_iff iris_simps split: option.splits)

text \<open>A reference that is not the last one only counts down; the last one removes the object, and
  only this object.\<close>

lemma Release_keeps:
  assumes "GetObject t u = Some r" "\<not> last_ref r"
  shows "Release u t = Some (TrackObject t (r\<lparr>ref_cnt := ref_cnt r - 1\<rparr>) u, ref_cnt r - 1)"
  using assms by (simp add: Release_eq)

lemma Release_lookup:
  assumes "Release u t = Some (t', n)"
  shows "GetObject t' v =
    (if v = u then
       (case GetObject t u of
          None \<Rightarrow> None
        | Some r \<Rightarrow> if last_ref r then None else Some (r\<lparr>ref_cnt := ref_cnt r - 1\<rparr>))
     else GetObject t v)"
  using assms by (auto simp: Release_eq iris_simps Let_def split: option.splits if_splits)

lemma Release_defined:
  "GetObject t u = Some r \<Longrightarrow> track_set r \<Longrightarrow> \<exists>t'. Release u t = Some (t', ref_cnt r - 1)"
  by (simp add: Release_eq Let_def)

lemma Retain_simps [simp]:
  "ref_cnt (Retain r) = ref_cnt r + 1" "obj_uid (Retain r) = obj_uid r" "retain_mode (Retain r) = retain_mode r"
  "is_release (Retain r) = is_release r" "track_set (Retain r) = track_set r"
  by (simp_all add: Retain_def)

text \<open>A reference taken with \<open>Retain\<close> protects the object: whatever the count and the mode, a
  \<open>Retain\<close> of a live object whose count has not yet fallen to the deletion bound, followed by a
  \<open>Release\<close>, leaves the object alive with the same count, and no other object of the registry
  changes.\<close>

theorem retain_release_keeps:
  assumes "GetObject t u = Some r" "ref_cnt r \<noteq> (if retain_mode r = CREATE_MODE then 0 else 1) \<or> \<not> is_release r"
    and "at_object u Retain t = Some t1" "Release u t1 = Some (t2, n)"
  shows "GetObject t2 u = Some r \<and> n = ref_cnt r \<and> (\<forall>v. v \<noteq> u \<longrightarrow> GetObject t2 v = GetObject t v)"
proof -
  have t1: "t1 = TrackObject t (Retain r) u" using assms(1,3) by (auto simp: iris_simps)
  then have g: "GetObject t1 u = Some (Retain r)" by (simp add: iris_simps)
  have "\<not> last_ref (Retain r)" using assms(2) by (auto simp: last_ref_def)
  with Release_keeps [OF g] assms(4) show ?thesis
    by (auto simp: iris_simps t1 Retain_def)
qed

theorem retain_release_keeps_witness:
  "GetObject (fst (the (Release 5 (the (at_object 5 Retain
     (TrackObject ObjectTrack_new (set_object_track (Retainable_init 5)) 5)))))) 5 =
   Some (set_object_track (Retainable_init 5))"
proof -
  let ?r = "set_object_track (Retainable_init 5)"
  let ?t = "TrackObject ObjectTrack_new ?r 5"
  let ?t1 = "TrackObject ?t (Retain ?r) 5"
  have r: "ref_cnt ?r = 1" "retain_mode ?r = CREATE_MODE" "?r\<lparr>ref_cnt := 1\<rparr> = ?r"
    by (simp_all add: set_object_track_def Retainable_init_def)
  have g: "GetObject ?t 5 = Some ?r" by (simp add: iris_simps)
  have a: "at_object 5 Retain ?t = Some ?t1" by (simp add: iris_simps)
  have b: "Release 5 ?t1 = Some (TrackObject ?t1 ?r 5, 1)"
    by (simp add: Release_eq iris_simps Let_def last_ref_def r) (simp add: Retain_def r)
  from retain_release_keeps [OF g _ a b] show ?thesis
    by (simp only: a b option.sel fst_conv) (simp add: r)
qed

end
