(* ===== verification/Iris_Kernel.thy ===== *)
theory Iris_Kernel
  imports Iris_Object
begin

text \<open>
  Kernels and their arguments, \<^verbatim>\<open>Kernel.h\<close> and \<^verbatim>\<open>Kernel.cpp\<close>. A kernel records its arguments by
  position and, for each memory object it is given, whether it is read, written or both. Memory
  objects are named by their ids; the kind and the size of an object (\<open>GetMemHandlerType\<close>,
  \<open>size\<close>) are passed along with the id. The lemmas show that the read and write sets are exactly the
  objects passed with a mode that reads or writes, and when the fixed-size buffers are respected.
\<close>

section \<open>Arguments\<close>

definition KERNEL_ARG_VALUE_SIZE :: nat where "KERNEL_ARG_VALUE_SIZE = 1024"

datatype MemHandlerType = IRIS_MEM | IRIS_DMEM | IRIS_DMEM_REGION

text \<open>A memory object as the kernel sees it.\<close>

record BaseMemRef =
  mem_uid :: uid
  mem_handler :: MemHandlerType
  mem_bytes :: size_t

record KernelArg =
  arg_size :: size_t
  arg_value :: "8 word list"
  arg_mem :: "BaseMemRef option"
  arg_mem_off :: size_t
  arg_mem_size :: size_t
  arg_off :: size_t
  arg_mode :: int
  arg_data_type :: size_t
  arg_mem_index :: nat
  arg_proactive :: bool

definition KernelArg_default :: KernelArg where
  "KernelArg_default = \<lparr>arg_size = 0, arg_value = [], arg_mem = None, arg_mem_off = 0, arg_mem_size = 0,
     arg_off = 0, arg_mode = 0, arg_data_type = 0, arg_mem_index = 0, arg_proactive = False\<rparr>"

section \<open>Kernels\<close>

record Kernel = Retainable +
  kname :: string
  ktask_name :: string
  ktask :: "uid option"
  kn_mems :: nat
  kargs :: "nat \<rightharpoonup> KernelArg"
  kargs_count :: nat
  archs :: "devno \<Rightarrow> bool"
  data_mems_in_order :: "nat list"
  all_data_mems_in :: "uid list"
  in_mem_track :: "uid \<rightharpoonup> nat"
  out_mem_track :: "uid \<rightharpoonup> nat"
  mem_track :: "uid \<rightharpoonup> nat"
  data_mems_in :: "nat \<rightharpoonup> uid"
  data_mem_regions_in :: "nat \<rightharpoonup> uid"
  data_mems_out :: "nat \<rightharpoonup> uid"
  data_mem_regions_out :: "nat \<rightharpoonup> uid"

definition Kernel_new :: "uid \<Rightarrow> string \<Rightarrow> Kernel" where
  "Kernel_new u name =
     Retain (set_object_track (Retainable.extend (Retainable_init u)
       (Kernel.fields name name None 0 (\<lambda>_. None) 0 (\<lambda>_. False) [] []
          (\<lambda>_. None) (\<lambda>_. None) (\<lambda>_. None) (\<lambda>_. None) (\<lambda>_. None) (\<lambda>_. None) (\<lambda>_. None))))"

text \<open>\<open>std::map::insert\<close> keeps the entry that is there.\<close>

definition map_insert :: "'k \<Rightarrow> 'v \<Rightarrow> ('k \<rightharpoonup> 'v) \<Rightarrow> ('k \<rightharpoonup> 'v)" where
  "map_insert k v m = (if m k = None then m(k \<mapsto> v) else m)"

definition reads :: "int \<Rightarrow> bool" where "reads mode \<longleftrightarrow> mode = iris_r \<or> mode = iris_rw"
definition writes :: "int \<Rightarrow> bool" where "writes mode \<longleftrightarrow> mode = iris_w \<or> mode = iris_rw"

definition add_mem :: "uid \<Rightarrow> nat \<Rightarrow> int \<Rightarrow> Kernel \<Rightarrow> Kernel" where
  "add_mem mem idx md k =
     (let k = (if md = iris_r then k\<lparr>in_mem_track := map_insert mem idx (in_mem_track k)\<rparr>
               else if md = iris_w then k\<lparr>out_mem_track := map_insert mem idx (out_mem_track k)\<rparr>
               else if md = iris_rw then
                 k\<lparr>in_mem_track := map_insert mem idx (in_mem_track k),
                   out_mem_track := map_insert mem idx (out_mem_track k)\<rparr>
               else k)
      in k\<lparr>mem_track := map_insert mem idx (mem_track k)\<rparr>)"

definition add_dmem :: "uid \<Rightarrow> nat \<Rightarrow> int \<Rightarrow> Kernel \<Rightarrow> Kernel" where
  "add_dmem mem idx md k =
     (let k = (if md = iris_r then
                 k\<lparr>data_mems_in := map_insert idx mem (data_mems_in k),
                   all_data_mems_in := all_data_mems_in k @ [mem],
                   in_mem_track := map_insert mem idx (in_mem_track k)\<rparr>
               else if md = iris_w then
                 k\<lparr>data_mems_out := map_insert idx mem (data_mems_out k),
                   out_mem_track := map_insert mem idx (out_mem_track k)\<rparr>
               else if md = iris_rw then
                 k\<lparr>data_mems_in := map_insert idx mem (data_mems_in k),
                   data_mems_out := map_insert idx mem (data_mems_out k),
                   all_data_mems_in := all_data_mems_in k @ [mem],
                   in_mem_track := map_insert mem idx (in_mem_track k),
                   out_mem_track := map_insert mem idx (out_mem_track k)\<rparr>
               else k)
      in k\<lparr>mem_track := map_insert mem idx (mem_track k)\<rparr>)"

definition add_dmem_region :: "uid \<Rightarrow> nat \<Rightarrow> int \<Rightarrow> Kernel \<Rightarrow> Kernel" where
  "add_dmem_region mem idx md k =
     (let k = (if md = iris_r then
                 k\<lparr>data_mem_regions_in := map_insert idx mem (data_mem_regions_in k),
                   all_data_mems_in := all_data_mems_in k @ [mem],
                   in_mem_track := map_insert mem idx (in_mem_track k)\<rparr>
               else if md = iris_w then
                 k\<lparr>data_mem_regions_out := map_insert idx mem (data_mem_regions_out k),
                   out_mem_track := map_insert mem idx (out_mem_track k)\<rparr>
               else if md = iris_rw then
                 k\<lparr>data_mem_regions_in := map_insert idx mem (data_mem_regions_in k),
                   data_mem_regions_out := map_insert idx mem (data_mem_regions_out k),
                   all_data_mems_in := all_data_mems_in k @ [mem],
                   in_mem_track := map_insert mem idx (in_mem_track k),
                   out_mem_track := map_insert mem idx (out_mem_track k)\<rparr>
               else k)
      in k\<lparr>mem_track := map_insert mem idx (mem_track k)\<rparr>)"

definition add_any_mem :: "BaseMemRef \<Rightarrow> nat \<Rightarrow> int \<Rightarrow> Kernel \<Rightarrow> Kernel" where
  "add_any_mem m idx md k =
     (case mem_handler m of
        IRIS_MEM \<Rightarrow> add_mem (mem_uid m) idx md k
      | IRIS_DMEM \<Rightarrow> add_dmem (mem_uid m) idx md k
      | IRIS_DMEM_REGION \<Rightarrow> add_dmem_region (mem_uid m) idx md k)"

definition set_karg :: "nat \<Rightarrow> KernelArg \<Rightarrow> Kernel \<Rightarrow> Kernel" where
  "set_karg idx arg k = k\<lparr>kargs := (kargs k)(idx \<mapsto> arg),
     kargs_count := (if kargs k idx = None then Suc (kargs_count k) else kargs_count k)\<rparr>"

text \<open>\<open>SetArg\<close> copies \<open>size\<close> bytes, type bits included, into the 1024-byte value: a larger \<open>size\<close>
  overruns the buffer (\<open>None\<close>). \<open>value\<close> is the memory the pointer refers to, \<open>None\<close> for NULL.\<close>

definition SetArg :: "nat \<Rightarrow> size_t \<Rightarrow> 8 word list option \<Rightarrow> Kernel \<Rightarrow> Kernel option" where
  "SetArg idx sz value k =
     (let arg = KernelArg_default\<lparr>arg_size := sz AND 0xFFFF, arg_data_type := sz AND 0xFFFF0000\<rparr>
      in case value of
           None \<Rightarrow> Some (set_karg idx arg k)
         | Some bytes \<Rightarrow>
             if KERNEL_ARG_VALUE_SIZE < unat sz \<or> length bytes < unat sz then None
             else Some (set_karg idx (arg\<lparr>arg_value := take (unat sz) bytes\<rparr>) k))"

text \<open>\<open>SetMem\<close>: the result carries the status and whether the platform's error count goes up.\<close>

definition SetMem :: "nat \<Rightarrow> BaseMemRef option \<Rightarrow> size_t \<Rightarrow> int \<Rightarrow> Kernel \<Rightarrow> Kernel \<times> int" where
  "SetMem idx mem off md k =
     (case mem of
        None \<Rightarrow> (k, IRIS_ERROR)
      | Some m \<Rightarrow>
          let k = add_any_mem m idx md k;
              arg = KernelArg_default\<lparr>arg_mem := Some m, arg_off := off, arg_mode := md,
                arg_mem_index := kn_mems k, arg_mem_off := 0, arg_mem_size := mem_bytes m\<rparr>;
              k = k\<lparr>kn_mems := Suc (kn_mems k)\<rparr>
          in (set_karg idx arg k, IRIS_SUCCESS))"

text \<open>\<open>set_order\<close> appends one entry per read memory; the caller's array must have that many.\<close>

definition set_order :: "nat \<Rightarrow> nat list \<Rightarrow> Kernel \<Rightarrow> Kernel option" where
  "set_order n_in order k =
     (if length order < n_in then None
      else Some (k\<lparr>data_mems_in_order := data_mems_in_order k @ take n_in order\<rparr>))"

text \<open>\<open>ExportArgs\<close> allocates as many cells as there are arguments and stores each argument at its own
  position: a position beyond the count is outside the allocation.\<close>

definition export_arg :: "KernelArg \<Rightarrow> KernelArg" where
  "export_arg a =
     (case arg_mem a of
        Some m \<Rightarrow> KernelArg_default\<lparr>arg_mem := Some m, arg_off := arg_off a, arg_mode := arg_mode a,
          arg_mem_off := arg_mem_off a, arg_mem_size := arg_mem_size a, arg_mem_index := arg_mem_index a\<rparr>
      | None \<Rightarrow> KernelArg_default\<lparr>arg_size := arg_size a,
          arg_value := take (unat (arg_size a)) (arg_value a)\<rparr>)"

definition ExportArgs :: "nat list \<Rightarrow> Kernel \<Rightarrow> KernelArg list option" where
  "ExportArgs idxs k =
     (if list_all (\<lambda>i. i < kargs_count k) idxs then
        Some (fold (\<lambda>i new_args. new_args[i := export_arg (the (kargs k i))]) idxs
          (replicate (kargs_count k) KernelArg_default))
      else None)"

text \<open>\<open>isSupported\<close>: \<open>kernel_get\<close> is the device's \<open>KernelGet\<close>, which looks the name up in the
  kernel library of the device and reports its status; a status of success fills \<open>archs_\<close>.\<close>

definition isSupported :: "(devno \<Rightarrow> string \<Rightarrow> int) \<Rightarrow> devno \<Rightarrow> Kernel \<Rightarrow> Kernel \<times> bool" where
  "isSupported kernel_get d k =
     (if archs k d then (k, True)
      else let result = kernel_get d (kname k)
           in (if result = IRIS_SUCCESS then k\<lparr>archs := (archs k)(d := True)\<rparr> else k, result = IRIS_SUCCESS))"

section \<open>What a kernel records\<close>

lemma map_insert_dom [simp]: "dom (map_insert k v m) = insert k (dom m)"
  by (auto simp: map_insert_def dom_def)

lemma map_insert_same: "map_insert k v m k = Some (case m k of None \<Rightarrow> v | Some w \<Rightarrow> w)"
  by (auto simp: map_insert_def split: option.splits)

lemmas mode_defs = iris_r_def iris_w_def iris_rw_def reads_def writes_def

lemma add_any_mem_tracks:
  "dom (in_mem_track (add_any_mem m idx md k)) =
     (if reads md then insert (mem_uid m) (dom (in_mem_track k)) else dom (in_mem_track k))"
  "dom (out_mem_track (add_any_mem m idx md k)) =
     (if writes md then insert (mem_uid m) (dom (out_mem_track k)) else dom (out_mem_track k))"
  "dom (mem_track (add_any_mem m idx md k)) = insert (mem_uid m) (dom (mem_track k))"
  by (auto simp: add_any_mem_def add_mem_def add_dmem_def add_dmem_region_def mode_defs Let_def
      split: MemHandlerType.splits)

lemma set_karg_tracks [simp]:
  "in_mem_track (set_karg i a k) = in_mem_track k" "out_mem_track (set_karg i a k) = out_mem_track k"
  "mem_track (set_karg i a k) = mem_track k"
  by (simp_all add: set_karg_def)

text \<open>The arguments of a kernel set one after the other.\<close>

definition SetMems :: "(nat \<times> BaseMemRef \<times> size_t \<times> int) list \<Rightarrow> Kernel \<Rightarrow> Kernel" where
  "SetMems ps k = fold (\<lambda>(i, m, off, md) k. fst (SetMem i (Some m) off md k)) ps k"

lemma SetMem_tracks:
  "dom (in_mem_track (fst (SetMem i (Some m) off md k))) =
     dom (in_mem_track k) \<union> (if reads md then {mem_uid m} else {})"
  "dom (out_mem_track (fst (SetMem i (Some m) off md k))) =
     dom (out_mem_track k) \<union> (if writes md then {mem_uid m} else {})"
  by (simp_all add: SetMem_def Let_def add_any_mem_tracks)

text \<open>The read and write sets of a kernel are exactly the memory objects it was given with a mode
  that reads, respectively writes, whatever the order of the arguments, the kind of the objects and
  the number of times one is passed. The data movement before and after a launch walks these sets.\<close>

theorem kernel_access_sets:
  "dom (in_mem_track (SetMems ps k)) =
     dom (in_mem_track k) \<union> {mem_uid m | i m off md. (i, m, off, md) \<in> set ps \<and> reads md} \<and>
   dom (out_mem_track (SetMems ps k)) =
     dom (out_mem_track k) \<union> {mem_uid m | i m off md. (i, m, off, md) \<in> set ps \<and> writes md}"
proof (induction ps arbitrary: k)
  case (Cons p ps)
  obtain i m off md where p: "p = (i, m, off, md)" by (cases p) auto
  have s: "SetMems (p # ps) k = SetMems ps (fst (SetMem i (Some m) off md k))"
    by (simp add: SetMems_def p)
  show ?case unfolding s Cons.IH [THEN conjunct1] Cons.IH [THEN conjunct2] SetMem_tracks
    by (auto simp: p)
qed (simp add: SetMems_def)

text \<open>A scalar argument arrives at the device as it was set, provided its size is the number of its
  bytes: no type bits and at most the size of the buffer.\<close>

lemma SetArg_export:
  assumes "length bytes = unat sz" "unat sz \<le> KERNEL_ARG_VALUE_SIZE" "SetArg idx sz (Some bytes) k = Some k'"
  shows "\<exists>a. kargs k' idx = Some a \<and> arg_value (export_arg a) = bytes \<and> arg_size (export_arg a) = sz"
proof -
  have "unat (take_bit 16 sz) = unat sz"
    using assms(2) by (simp add: unsigned_take_bit_eq KERNEL_ARG_VALUE_SIZE_def take_bit_nat_eq_self)
  then have "take_bit 16 sz = sz" by (rule unsigned_word_eqI)
  then have m: "sz AND 0xFFFF = sz" by (simp add: take_bit_eq_mask mask_eq_exp_minus_1)
  show ?thesis using assms m
    by (auto simp: SetArg_def set_karg_def export_arg_def KernelArg_default_def split: if_splits)
qed

lemma isSupported_stable:
  "isSupported kg d k = (k', b) \<Longrightarrow> b = (archs k d \<or> kg d (kname k) = IRIS_SUCCESS) \<and> (b \<longrightarrow> archs k' d)"
  by (auto simp: isSupported_def Let_def split: if_splits)

end
