(* ===== verification/Iris_Command.thy ===== *)
theory Iris_Command
  imports Iris_Kernel
begin

text \<open>
  Commands, the units of work of a task: \<^verbatim>\<open>Command.h\<close> and \<^verbatim>\<open>Command.cpp\<close>. A command is built by one
  of the \<open>Create\<close> functions; all start from \<open>Clear\<close> and \<open>Set\<close>. Fields the constructor leaves
  uninitialised are \<open>None\<close> until something writes them. The build without \<open>AUTO_PAR\<close> is modelled.
  The lemmas show the shape every kernel command has and the size a strided transfer announces.
\<close>

section \<open>Types of commands\<close>

definition IRIS_CMD_NOP :: int where "IRIS_CMD_NOP = 0x1000"
definition IRIS_CMD_INIT :: int where "IRIS_CMD_INIT = 0x1001"
definition IRIS_CMD_KERNEL :: int where "IRIS_CMD_KERNEL = 0x1002"
definition IRIS_CMD_MALLOC :: int where "IRIS_CMD_MALLOC = 0x1003"
definition IRIS_CMD_H2D :: int where "IRIS_CMD_H2D = 0x1004"
definition IRIS_CMD_H2DNP :: int where "IRIS_CMD_H2DNP = 0x1005"
definition IRIS_CMD_D2H :: int where "IRIS_CMD_D2H = 0x1006"
definition IRIS_CMD_MAP :: int where "IRIS_CMD_MAP = 0x1007"
definition IRIS_CMD_MAP_TO :: int where "IRIS_CMD_MAP_TO = 0x1008"
definition IRIS_CMD_MAP_FROM :: int where "IRIS_CMD_MAP_FROM = 0x1009"
definition IRIS_CMD_RELEASE_MEM :: int where "IRIS_CMD_RELEASE_MEM = 0x100a"
definition IRIS_CMD_HOST :: int where "IRIS_CMD_HOST = 0x100b"
definition IRIS_CMD_MEM_FLUSH :: int where "IRIS_CMD_MEM_FLUSH = 0x100c"
definition IRIS_CMD_CUSTOM :: int where "IRIS_CMD_CUSTOM = 0x100d"
definition IRIS_CMD_RESET_INPUT :: int where "IRIS_CMD_RESET_INPUT = 0x100e"
definition IRIS_CMD_H2BROADCAST :: int where "IRIS_CMD_H2BROADCAST = 0x100f"
definition IRIS_CMD_D2D :: int where "IRIS_CMD_D2D = 0x1010"
definition IRIS_CMD_DMEM2DMEM_COPY :: int where "IRIS_CMD_DMEM2DMEM_COPY = 0x1011"
definition IRIS_CMD_KERNEL_NARGS_MAX :: nat where "IRIS_CMD_KERNEL_NARGS_MAX = 16"

lemmas iris_cmd_defs =
  IRIS_CMD_NOP_def IRIS_CMD_INIT_def IRIS_CMD_KERNEL_def IRIS_CMD_MALLOC_def IRIS_CMD_H2D_def
  IRIS_CMD_H2DNP_def IRIS_CMD_D2H_def IRIS_CMD_MAP_def IRIS_CMD_MAP_TO_def IRIS_CMD_MAP_FROM_def
  IRIS_CMD_RELEASE_MEM_def IRIS_CMD_HOST_def IRIS_CMD_MEM_FLUSH_def IRIS_CMD_CUSTOM_def
  IRIS_CMD_RESET_INPUT_def IRIS_CMD_H2BROADCAST_def IRIS_CMD_D2D_def IRIS_CMD_DMEM2DMEM_COPY_def

section \<open>Commands\<close>

record ResetData =
  reset_type :: int
  reset_u8 :: "8 word"

record Command =
  cmd_type :: "int option"
  cmd_devno :: "int option"
  cmd_src_dev :: "int option"
  cmd_size :: "size_t option"
  cmd_host :: "size_t option"
  cmd_params_map :: "int list option"
  cmd_dim :: nat
  cmd_off :: "size_t list"
  cmd_gws :: "size_t list"
  cmd_lws :: "size_t list"
  cmd_elem_size :: size_t
  cmd_kernel :: "uid option"
  cmd_mem :: "uid option"
  cmd_dst_mem :: "uid option"
  cmd_task :: "uid option"
  cmd_last :: bool
  cmd_exclusive :: "bool option"
  cmd_kernel_args :: "KernelArg list"
  cmd_kernel_nargs :: nat
  cmd_n_mems :: nat
  cmd_npolymems :: nat
  cmd_tag :: "int option"
  cmd_func_params :: "size_t option"
  cmd_params :: "8 word list option"
  cmd_type_name :: string
  cmd_name :: string
  cmd_given_name :: bool
  cmd_internal_memory_transfer :: bool
  cmd_reset_data :: "ResetData option"

text \<open>\<open>kernel_nargs_max_\<close> is the length of \<open>cmd_kernel_args\<close>. The constructor is \<open>Clear(true)\<close>.\<close>

definition Command_Clear :: Command where
  "Command_Clear = \<lparr>cmd_type = None, cmd_devno = None, cmd_src_dev = None, cmd_size = None,
     cmd_host = None, cmd_params_map = None, cmd_dim = 1, cmd_off = [0, 0, 0], cmd_gws = [0, 1, 1],
     cmd_lws = [0, 1, 1], cmd_elem_size = 0, cmd_kernel = None, cmd_mem = None, cmd_dst_mem = None,
     cmd_task = None, cmd_last = False, cmd_exclusive = None,
     cmd_kernel_args = replicate IRIS_CMD_KERNEL_NARGS_MAX KernelArg_default, cmd_kernel_nargs = 0,
     cmd_n_mems = 0, cmd_npolymems = 0, cmd_tag = None, cmd_func_params = None, cmd_params = None,
     cmd_type_name = [], cmd_name = [], cmd_given_name = False, cmd_internal_memory_transfer = False,
     cmd_reset_data = None\<rparr>"

definition cmd_type_string :: "int \<Rightarrow> string option" where
  "cmd_type_string ty =
     (if ty = IRIS_CMD_INIT then Some ''Init''
      else if ty = IRIS_CMD_KERNEL then Some ''Kernel''
      else if ty = IRIS_CMD_MALLOC then Some ''Malloc''
      else if ty = IRIS_CMD_H2D then Some ''H2D''
      else if ty = IRIS_CMD_D2D then Some ''D2D''
      else if ty = IRIS_CMD_H2BROADCAST then Some ''H2Broadcast''
      else if ty = IRIS_CMD_H2DNP then Some ''H2DNP''
      else if ty = IRIS_CMD_D2H then Some ''D2H''
      else if ty = IRIS_CMD_MEM_FLUSH then Some ''MemFlush''
      else if ty = IRIS_CMD_DMEM2DMEM_COPY then Some ''DMem2DMemCopy''
      else if ty = IRIS_CMD_MAP then Some ''Map''
      else if ty = IRIS_CMD_RELEASE_MEM then Some ''Release''
      else if ty = IRIS_CMD_HOST then Some ''Host''
      else if ty = IRIS_CMD_CUSTOM then Some ''Custom''
      else if ty = IRIS_CMD_RESET_INPUT then Some ''ResetMem''
      else None)"

text \<open>\<open>Set\<close> takes from the task its id, its number of commands and its name. An unknown type is only
  logged.\<close>

record TaskRef =
  tr_uid :: uid
  tr_ncmds :: nat
  tr_name :: string

definition Command_Set :: "TaskRef \<Rightarrow> int \<Rightarrow> Command \<Rightarrow> Command" where
  "Command_Set task ty c =
     (let c = c\<lparr>cmd_task := Some (tr_uid task), cmd_type := Some ty\<rparr>;
          c = (case cmd_type_string ty of None \<Rightarrow> c | Some s \<Rightarrow> c\<lparr>cmd_type_name := s\<rparr>)
      in if tr_ncmds task = 0 then c\<lparr>cmd_name := tr_name task\<rparr> else c)"

definition Command_Create :: "TaskRef \<Rightarrow> int \<Rightarrow> Command" where
  "Command_Create task ty = Command_Set task ty Command_Clear"

definition CreateInit :: "TaskRef \<Rightarrow> Command" where
  "CreateInit task = Command_Create task IRIS_CMD_INIT"

text \<open>The three index arrays of a kernel command of dimension \<open>dim\<close>: the given entries, then the
  neutral ones. A dimension above three, or an array that is too short, is outside the arrays.\<close>

definition kernel_ndrange ::
  "nat \<Rightarrow> size_t list option \<Rightarrow> size_t list \<Rightarrow> size_t list option \<Rightarrow> Command \<Rightarrow> Command option" where
  "kernel_ndrange dim off gws lws c =
     (let off' = (case off of None \<Rightarrow> replicate dim 0 | Some a \<Rightarrow> a);
          lws' = (case lws of None \<Rightarrow> replicate dim 0 | Some a \<Rightarrow> a)
      in if 3 < dim \<or> length off' < dim \<or> length gws < dim \<or> length lws' < dim then None
         else Some (c\<lparr>cmd_dim := dim,
                cmd_off := take dim off' @ replicate (3 - dim) 0,
                cmd_gws := take dim gws @ replicate (3 - dim) 1,
                cmd_lws := take dim lws' @ replicate (3 - dim) 1\<rparr>))"

text \<open>The kernel command of a kernel whose arguments were set beforehand.\<close>

definition CreateKernel_args ::
  "TaskRef \<Rightarrow> Kernel \<Rightarrow> nat list \<Rightarrow> nat \<Rightarrow> size_t list option \<Rightarrow> size_t list \<Rightarrow> size_t list option
    \<Rightarrow> (Command \<times> Kernel) option" where
  "CreateKernel_args task krn idxs dim off gws lws =
     (let cmd = (Command_Create task IRIS_CMD_KERNEL)\<lparr>cmd_kernel := Some (obj_uid krn)\<rparr>
      in case ExportArgs idxs krn of
           None \<Rightarrow> None
         | Some args \<Rightarrow>
             map_option (\<lambda>c. (c, krn\<lparr>ktask := Some (tr_uid task)\<rparr>))
               (kernel_ndrange dim off gws lws
                 (cmd\<lparr>cmd_kernel_args := args, cmd_kernel_nargs := length args\<rparr>)))"

text \<open>One parameter of a launch: what its pointer refers to, the memory object whose handle it is and
  the memory object whose host range contains it (with the offset), when there is one.\<close>

record KernelParam =
  param_bytes :: "8 word list option"
  param_mem :: "BaseMemRef option"
  param_host :: "(BaseMemRef \<times> size_t) option"
  param_info :: int
  param_off :: "size_t option"
  param_range :: "(size_t \<times> size_t) option"

text \<open>The loop body of \<open>CreateKernel\<close> for parameter \<open>i\<close>. A scalar larger than the value buffer overruns
  it; a parameter that is no memory object is skipped with an error message.\<close>

definition CreateKernel_param :: "nat \<Rightarrow> KernelParam \<Rightarrow> Command \<times> Kernel \<Rightarrow> (Command \<times> Kernel) option" where
  "CreateKernel_param i p ck =
     (let (cmd, krn) = ck;
          arg = cmd_kernel_args cmd ! i;
          set = (\<lambda>a. cmd\<lparr>cmd_kernel_args := (cmd_kernel_args cmd)[i := a]\<rparr>)
      in if 0 < param_info p then
           let sz = (word_of_int (param_info p) :: size_t) AND 0xFFFF;
               arg = arg\<lparr>arg_mem := None, arg_off := 0, arg_size := sz,
                 arg_data_type := word_of_int (param_info p) AND 0xFFFF0000\<rparr>
           in (case param_bytes p of
                 None \<Rightarrow> Some (set arg, krn)
               | Some bytes \<Rightarrow>
                   if KERNEL_ARG_VALUE_SIZE < unat sz \<or> length bytes < unat sz then None
                   else Some (set (arg\<lparr>arg_value := take (unat sz) bytes\<rparr>), krn))
         else
           (case (case param_mem p of Some m \<Rightarrow> Some (m, 0) | None \<Rightarrow> param_host p) of
              None \<Rightarrow> Some (cmd, krn)
            | Some (m, mem_off) \<Rightarrow>
                Some
                 ((set (arg\<lparr>arg_mem := Some m, arg_mem_index := cmd_n_mems cmd,
                      arg_off := (case param_off p of None \<Rightarrow> mem_off | Some off \<Rightarrow> off),
                      arg_mode := param_info p,
                      arg_mem_off := (case param_range p of None \<Rightarrow> 0 | Some (o', _) \<Rightarrow> o'),
                      arg_mem_size := (case param_range p of None \<Rightarrow> mem_bytes m | Some (_, s) \<Rightarrow> s)\<rparr>))
                    \<lparr>cmd_n_mems := Suc (cmd_n_mems cmd)\<rparr>,
                  add_any_mem m i (param_info p) krn)))"

fun CreateKernel_params :: "nat \<Rightarrow> KernelParam list \<Rightarrow> Command \<times> Kernel \<Rightarrow> (Command \<times> Kernel) option" where
  "CreateKernel_params i [] ck = Some ck"
| "CreateKernel_params i (p # ps) ck =
     (case CreateKernel_param i p ck of None \<Rightarrow> None | Some ck \<Rightarrow> CreateKernel_params (Suc i) ps ck)"

definition CreateKernel ::
  "TaskRef \<Rightarrow> Kernel \<Rightarrow> nat \<Rightarrow> size_t list option \<Rightarrow> size_t list \<Rightarrow> size_t list option \<Rightarrow> KernelParam list
    \<Rightarrow> (Command \<times> Kernel) option" where
  "CreateKernel task krn dim off gws lws params =
     (let cmd = (Command_Create task IRIS_CMD_KERNEL)\<lparr>cmd_kernel := Some (obj_uid krn), cmd_name := kname krn\<rparr>;
          krn = krn\<lparr>ktask := Some (tr_uid task)\<rparr>
      in case kernel_ndrange dim off gws lws cmd of
           None \<Rightarrow> None
         | Some cmd \<Rightarrow>
             let n = length params;
                 cmd = (if length (cmd_kernel_args cmd) < n
                        then cmd\<lparr>cmd_kernel_args := replicate n KernelArg_default\<rparr> else cmd)
             in CreateKernel_params 0 params (cmd\<lparr>cmd_kernel_nargs := n\<rparr>, krn))"

section \<open>Transfers and the other commands\<close>

definition CreateMalloc :: "TaskRef \<Rightarrow> uid \<Rightarrow> Command" where
  "CreateMalloc task mem = (Command_Create task IRIS_CMD_MALLOC)\<lparr>cmd_mem := Some mem\<rparr>"

definition CreateMemFlushOut :: "TaskRef \<Rightarrow> uid \<Rightarrow> Command" where
  "CreateMemFlushOut task mem = (Command_Create task IRIS_CMD_MEM_FLUSH)\<lparr>cmd_mem := Some mem\<rparr>"

definition CreateMemResetInput :: "TaskRef \<Rightarrow> uid \<Rightarrow> 8 word \<Rightarrow> Command" where
  "CreateMemResetInput task mem reset_value =
     (Command_Create task IRIS_CMD_RESET_INPUT)\<lparr>cmd_mem := Some mem,
       cmd_reset_data := Some \<lparr>reset_type = iris_reset_memset, reset_u8 = reset_value\<rparr>\<rparr>"

definition CreateMemResetInput_data :: "TaskRef \<Rightarrow> uid \<Rightarrow> ResetData \<Rightarrow> Command" where
  "CreateMemResetInput_data task mem data =
     (Command_Create task IRIS_CMD_RESET_INPUT)\<lparr>cmd_mem := Some mem, cmd_reset_data := Some data\<rparr>"

definition CreateDMEM2DMEM :: "TaskRef \<Rightarrow> uid \<Rightarrow> uid \<Rightarrow> Command" where
  "CreateDMEM2DMEM task src_mem dst_mem =
     (Command_Create task IRIS_CMD_DMEM2DMEM_COPY)\<lparr>cmd_mem := Some src_mem, cmd_dst_mem := Some dst_mem\<rparr>"

text \<open>A transfer of a block of an array: the arrays hold three entries, and the announced size is the
  element size times the extent on the device in every dimension, modulo \<open>2 ^ 64\<close>.\<close>

definition strided :: "uid \<Rightarrow> (size_t \<times> size_t \<times> size_t) list \<Rightarrow> size_t \<Rightarrow> size_t \<Rightarrow> Command \<Rightarrow> Command option" where
  "strided mem dims elem_size host c =
     (if 3 < length dims then None
      else
        let n = length dims in
        Some (c\<lparr>cmd_mem := Some mem, cmd_dim := n,
          cmd_off := map fst dims @ drop n (cmd_off c),
          cmd_gws := map (fst \<circ> snd) dims @ drop n (cmd_gws c),
          cmd_lws := map (snd \<circ> snd) dims @ drop n (cmd_lws c),
          cmd_elem_size := elem_size,
          cmd_size := Some (fold (\<lambda>d s. s * snd (snd d)) dims elem_size),
          cmd_host := Some host\<rparr>))"

definition linear :: "uid \<Rightarrow> size_t \<Rightarrow> size_t \<Rightarrow> size_t \<Rightarrow> Command \<Rightarrow> Command" where
  "linear mem off sz host c =
     c\<lparr>cmd_mem := Some mem, cmd_dim := 1, cmd_off := (cmd_off c)[0 := off], cmd_size := Some sz, cmd_host := Some host\<rparr>"

definition exclusive :: "bool \<Rightarrow> Command \<Rightarrow> Command" where
  "exclusive b c = c\<lparr>cmd_exclusive := Some b\<rparr>"

definition CreateH2Broadcast_nd :: "TaskRef \<Rightarrow> uid \<Rightarrow> (size_t \<times> size_t \<times> size_t) list \<Rightarrow> size_t \<Rightarrow> size_t \<Rightarrow> Command option" where
  "CreateH2Broadcast_nd task mem dims elem_size host =
     map_option (exclusive True) (strided mem dims elem_size host (Command_Create task IRIS_CMD_H2BROADCAST))"

definition CreateH2D_nd :: "TaskRef \<Rightarrow> uid \<Rightarrow> (size_t \<times> size_t \<times> size_t) list \<Rightarrow> size_t \<Rightarrow> size_t \<Rightarrow> Command option" where
  "CreateH2D_nd task mem dims elem_size host =
     map_option (exclusive True) (strided mem dims elem_size host (Command_Create task IRIS_CMD_H2D))"

definition CreateD2H_nd :: "TaskRef \<Rightarrow> uid \<Rightarrow> (size_t \<times> size_t \<times> size_t) list \<Rightarrow> size_t \<Rightarrow> size_t \<Rightarrow> Command option" where
  "CreateD2H_nd task mem dims elem_size host =
     strided mem dims elem_size host (Command_Create task IRIS_CMD_D2H)"

definition CreateH2Broadcast :: "TaskRef \<Rightarrow> uid \<Rightarrow> size_t \<Rightarrow> size_t \<Rightarrow> size_t \<Rightarrow> Command" where
  "CreateH2Broadcast task mem off sz host =
     exclusive True (linear mem off sz host (Command_Create task IRIS_CMD_H2BROADCAST))"

definition CreateD2D :: "TaskRef \<Rightarrow> uid \<Rightarrow> size_t \<Rightarrow> size_t \<Rightarrow> size_t \<Rightarrow> int \<Rightarrow> Command" where
  "CreateD2D task mem off sz host src_dev =
     exclusive True (linear mem off sz host ((Command_Create task IRIS_CMD_D2D)\<lparr>cmd_src_dev := Some src_dev\<rparr>))"

definition CreateH2D :: "TaskRef \<Rightarrow> uid \<Rightarrow> size_t \<Rightarrow> size_t \<Rightarrow> size_t \<Rightarrow> Command" where
  "CreateH2D task mem off sz host =
     exclusive True (linear mem off sz host (Command_Create task IRIS_CMD_H2D))"

definition CreateH2DNP :: "TaskRef \<Rightarrow> uid \<Rightarrow> size_t \<Rightarrow> size_t \<Rightarrow> size_t \<Rightarrow> Command" where
  "CreateH2DNP task mem off sz host =
     exclusive False (linear mem off sz host (Command_Create task IRIS_CMD_H2DNP))"

definition CreateD2H :: "TaskRef \<Rightarrow> uid \<Rightarrow> size_t \<Rightarrow> size_t \<Rightarrow> size_t \<Rightarrow> Command" where
  "CreateD2H task mem off sz host = linear mem off sz host (Command_Create task IRIS_CMD_D2H)"

definition CreateMap :: "TaskRef \<Rightarrow> size_t \<Rightarrow> size_t \<Rightarrow> Command" where
  "CreateMap task host sz = (Command_Create task IRIS_CMD_MAP)\<lparr>cmd_host := Some host, cmd_size := Some sz\<rparr>"

definition CreateMapTo :: "TaskRef \<Rightarrow> size_t \<Rightarrow> Command" where
  "CreateMapTo task host = (Command_Create task IRIS_CMD_MAP_TO)\<lparr>cmd_host := Some host\<rparr>"

definition CreateMapFrom :: "TaskRef \<Rightarrow> size_t \<Rightarrow> Command" where
  "CreateMapFrom task host = (Command_Create task IRIS_CMD_MAP_FROM)\<lparr>cmd_host := Some host\<rparr>"

definition CreateReleaseMem :: "TaskRef \<Rightarrow> uid \<Rightarrow> Command" where
  "CreateReleaseMem task mem = (Command_Create task IRIS_CMD_RELEASE_MEM)\<lparr>cmd_mem := Some mem\<rparr>"

definition CreateHost :: "TaskRef \<Rightarrow> size_t \<Rightarrow> Command" where
  "CreateHost task params = (Command_Create task IRIS_CMD_HOST)\<lparr>cmd_func_params := Some params\<rparr>"

definition CreateCustom :: "TaskRef \<Rightarrow> int \<Rightarrow> 8 word list \<Rightarrow> Command" where
  "CreateCustom task tag params =
     (Command_Create task IRIS_CMD_CUSTOM)\<lparr>cmd_tag := Some tag, cmd_params := Some params\<rparr>"

section \<open>Shape of the commands\<close>

text \<open>Every index array has three entries.\<close>

definition cmd_wf :: "Command \<Rightarrow> bool" where
  "cmd_wf c \<longleftrightarrow> length (cmd_off c) = 3 \<and> length (cmd_gws c) = 3 \<and> length (cmd_lws c) = 3 \<and>
     cmd_dim c \<le> 3 \<and> cmd_kernel_nargs c \<le> length (cmd_kernel_args c)"

lemma cmd_wf_Create [iris_inv, simp]: "cmd_wf (Command_Create task ty)"
  by (auto simp: cmd_wf_def Command_Create_def Command_Set_def Command_Clear_def Let_def split: option.splits)

lemma cmd_wf_linear [iris_inv, simp]: "cmd_wf c \<Longrightarrow> cmd_wf (linear mem off sz host c)"
  by (simp add: cmd_wf_def linear_def)

lemma cmd_wf_strided [iris_inv]: "cmd_wf c \<Longrightarrow> strided mem dims es host c = Some c' \<Longrightarrow> cmd_wf c'"
  by (auto simp: cmd_wf_def strided_def Let_def split: if_splits)

lemma cmd_wf_ndrange [iris_inv]: "cmd_wf c \<Longrightarrow> kernel_ndrange dim off gws lws c = Some c' \<Longrightarrow> cmd_wf c'"
  by (auto simp: cmd_wf_def kernel_ndrange_def Let_def split: if_splits option.splits)

lemma cmd_type_Create [simp]: "cmd_type (Command_Create task ty) = Some ty"
  by (simp add: Command_Create_def Command_Set_def Let_def split: option.splits)

lemma add_any_mem_uid [simp]: "obj_uid (add_any_mem m i md k) = obj_uid k"
  by (simp add: add_any_mem_def add_mem_def add_dmem_def add_dmem_region_def Let_def split: MemHandlerType.splits)

lemma CreateKernel_param_keeps:
  assumes "CreateKernel_param i p (c, k) = Some (c', k')"
  shows "length (cmd_kernel_args c') = length (cmd_kernel_args c)" "cmd_kernel_nargs c' = cmd_kernel_nargs c"
    "cmd_type c' = cmd_type c" "cmd_off c' = cmd_off c" "cmd_gws c' = cmd_gws c" "cmd_lws c' = cmd_lws c"
    "cmd_dim c' = cmd_dim c" "obj_uid k' = obj_uid k" "cmd_kernel c' = cmd_kernel c"
  using assms
  by (auto simp: CreateKernel_param_def Let_def split: if_splits option.splits)

lemma CreateKernel_params_keeps:
  assumes "CreateKernel_params i ps (c, k) = Some (c', k')"
  shows "length (cmd_kernel_args c') = length (cmd_kernel_args c) \<and> cmd_kernel_nargs c' = cmd_kernel_nargs c \<and>
    cmd_type c' = cmd_type c \<and> cmd_off c' = cmd_off c \<and> cmd_gws c' = cmd_gws c \<and> cmd_lws c' = cmd_lws c \<and>
    cmd_dim c' = cmd_dim c \<and> obj_uid k' = obj_uid k \<and> cmd_kernel c' = cmd_kernel c"
  using assms
proof (induction i ps "(c, k)" arbitrary: c k rule: CreateKernel_params.induct)
  case (2 i p ps)
  then obtain c1 k1 where s: "CreateKernel_param i p (c, k) = Some (c1, k1)"
    and r: "CreateKernel_params (Suc i) ps (c1, k1) = Some (c', k')" by (auto split: option.splits)
  from 2(1) [OF s r] CreateKernel_param_keeps [OF s] show ?case by simp
qed simp

text \<open>A kernel command is well formed for every dimension up to three: three entries in each index
  array, with zero offset and extent one beyond the dimension, and an argument cell for every
  parameter, also when there are more than the sixteen cells a command starts with. A dimension above
  three is never accepted.\<close>

theorem CreateKernel_wf:
  assumes "CreateKernel task krn dim off gws lws params = Some (c, k)"
  shows "cmd_wf c \<and> dim \<le> 3 \<and> cmd_type c = Some IRIS_CMD_KERNEL \<and> cmd_kernel c = Some (obj_uid k) \<and>
    cmd_kernel_nargs c = length params \<and>
    take dim (cmd_gws c) = take dim gws \<and> drop dim (cmd_gws c) = replicate (3 - dim) 1 \<and>
    drop dim (cmd_off c) = replicate (3 - dim) 0"
proof -
  let ?c0 = "(Command_Create task IRIS_CMD_KERNEL)\<lparr>cmd_kernel := Some (obj_uid krn), cmd_name := kname krn\<rparr>"
  obtain c1 where n: "kernel_ndrange dim off gws lws ?c0 = Some c1"
    using assms by (auto simp: CreateKernel_def Let_def split: option.splits)
  then have wf1: "cmd_wf c1"
    using cmd_wf_Create [of task IRIS_CMD_KERNEL] by (intro cmd_wf_ndrange [OF _ n]) (simp add: cmd_wf_def)
  from n have shape: "dim \<le> 3" "take dim (cmd_gws c1) = take dim gws"
    "drop dim (cmd_gws c1) = replicate (3 - dim) 1" "drop dim (cmd_off c1) = replicate (3 - dim) 0"
    "cmd_type c1 = Some IRIS_CMD_KERNEL" "cmd_kernel c1 = Some (obj_uid krn)"
    by (auto simp: kernel_ndrange_def Let_def split: if_splits option.splits)
  define c2 where "c2 = (if length (cmd_kernel_args c1) < length params
    then c1\<lparr>cmd_kernel_args := replicate (length params) KernelArg_default\<rparr> else c1)"
  have "CreateKernel_params 0 params (c2\<lparr>cmd_kernel_nargs := length params\<rparr>, krn\<lparr>ktask := Some (tr_uid task)\<rparr>) = Some (c, k)"
    using assms n by (simp add: CreateKernel_def Let_def c2_def)
  from CreateKernel_params_keeps [OF this] wf1 shape show ?thesis
    by (auto simp: c2_def cmd_wf_def split: if_splits)
qed

text \<open>The launch of the application: one dimension of extent one, no parameters.\<close>

theorem CreateKernel_wf_witness:
  "\<exists>c k. CreateKernel \<lparr>tr_uid = 7, tr_ncmds = 0, tr_name = ''qkv''\<rparr> (Kernel_new 3 ''hetero_noop'') 1 None [1] None [] = Some (c, k) \<and>
     cmd_wf c \<and> drop 1 (cmd_gws c) = [1, 1]"
proof -
  obtain c k where e: "CreateKernel \<lparr>tr_uid = 7, tr_ncmds = 0, tr_name = ''qkv''\<rparr> (Kernel_new 3 ''hetero_noop'') 1 None [1] None [] = Some (c, k)"
    by (simp add: CreateKernel_def kernel_ndrange_def Let_def)
  with CreateKernel_wf [OF e] show ?thesis by (auto simp: numeral_2_eq_2)
qed

text \<open>The size a strided transfer announces is the exact number of bytes as long as the product
  stays below \<open>2 ^ 64\<close>.\<close>

lemma strided_size:
  assumes "strided mem dims es host c = Some c'"
    and "unat es * prod_list (map (\<lambda>d. unat (snd (snd d))) dims) < 2 ^ 64"
    and "\<forall>d \<in> set dims. snd (snd d) \<noteq> 0"
  shows "map_option unat (cmd_size c') = Some (unat es * prod_list (map (\<lambda>d. unat (snd (snd d))) dims))"
proof -
  have "unat (fold (\<lambda>d s. s * snd (snd d)) dims es) = unat es * prod_list (map (\<lambda>d. unat (snd (snd d))) dims)"
    using assms(2,3)
  proof (induction dims arbitrary: es)
    case (Cons d dims)
    let ?p = "prod_list (map (\<lambda>d. unat (snd (snd d))) dims)"
    have "0 < ?p" using Cons.prems(2) by (induction dims) (auto simp: unat_gt_0)
    then have "unat es * unat (snd (snd d)) \<le> unat es * unat (snd (snd d)) * ?p" by simp
    also have "\<dots> < 2 ^ 64" using Cons.prems(1) by (simp add: mult.assoc)
    finally have m: "unat (es * snd (snd d)) = unat es * unat (snd (snd d))"
      by (simp add: unat_word_ariths)
    with Cons.IH [of "es * snd (snd d)"] Cons.prems show ?case by (simp add: mult.assoc)
  qed simp
  with assms(1) show ?thesis by (auto simp: strided_def Let_def split: if_splits)
qed

end
