(* ===== verification/Iris_Task.thy ===== *)
theory Iris_Task
  imports Iris_Command "HOL-Library.Monad_Syntax"
begin

text \<open>
  Tasks, \<^verbatim>\<open>Task.h\<close> and \<^verbatim>\<open>Task.cpp\<close>: commands, metadata, dependencies, status and completion. The live
  tasks are the registry of \<^verbatim>\<open>Iris_Object\<close> (the platform's \<open>task_track\<close>); an operation on a task is a
  function on the registry that has no result when it goes through a pointer to a task that was
  deleted. The build without \<open>AUTO_PAR\<close> is modelled; clocks and profiling are left out.
\<close>

section \<open>Data\<close>

definition IRIS_COMPLETE :: nat where "IRIS_COMPLETE = 0"
definition IRIS_RUNNING :: nat where "IRIS_RUNNING = 1"
definition IRIS_SUBMITTED :: nat where "IRIS_SUBMITTED = 2"
definition IRIS_QUEUED :: nat where "IRIS_QUEUED = 3"
definition IRIS_NONE :: nat where "IRIS_NONE = 4"
definition IRIS_PENDING :: nat where "IRIS_PENDING = 5"

definition IRIS_TASK :: nat where "IRIS_TASK = 0"
definition IRIS_TASK_PERM :: nat where "IRIS_TASK_PERM = 1"
definition IRIS_MARKER :: nat where "IRIS_MARKER = 2"

lemmas iris_status_defs = IRIS_COMPLETE_def IRIS_RUNNING_def IRIS_SUBMITTED_def IRIS_QUEUED_def
  IRIS_NONE_def IRIS_PENDING_def

text \<open>
  The members \<open>int meta_data_[8]; int n_meta_data_; int devno_;\<close> are neighbours in the object; the
  model keeps them as one block of ten \<open>int\<close> cells, so that an index beyond the array reaches the
  cells behind it, as it does in memory. \<open>cmd_kernel_\<close> and \<open>cmd_last_\<close> point into the commands: they
  are positions. \<open>depends_uids_\<close> and \<open>childs_uids_\<close> are NULL until the first entry; their
  capacities are \<open>depends_max_\<close> and \<open>childs_max_\<close>.
\<close>

record Task = Retainable +
  t_name :: string
  t_given_name :: bool
  t_parent :: uid
  t_parent_exist :: bool
  t_cmds :: "Command list"
  t_cmd_kernel :: "nat option"
  t_cmd_last :: "nat option"
  t_dev :: "devno option"
  t_meta_block :: "int list"
  t_subtasks :: "uid list"
  t_df_scheduling :: bool
  t_subtasks_complete :: nat
  t_depends :: "uid list option"
  t_depends_max :: nat
  t_childs :: "uid list option"
  t_childs_max :: nat
  t_recommended_dev :: int
  t_brs_policy :: int
  t_opt :: string
  t_type :: nat
  t_status :: nat
  t_sync :: bool
  t_user :: bool
  t_system :: bool
  t_internal_memory_transfer :: bool
  t_async :: bool
  t_hidden_dmem_in :: "uid list"
  t_hidden_dmem_out :: "uid list"

type_synonym tasks = "Task ObjectTrack"

definition META_CELLS :: nat where "META_CELLS = 10"
definition META_N :: nat where "META_N = 8"
definition META_DEVNO :: nat where "META_DEVNO = 9"

lemmas meta_defs = META_CELLS_def META_N_def META_DEVNO_def

text \<open>The settings of the platform a task consults.\<close>

record PlatformFlags =
  release_task_flag :: bool
  platform_async :: bool
  enable_proactive :: bool

text \<open>The constructor. \<open>junk\<close> is what the memory of the object held before: six of the ten cells of the
  metadata block are not initialised.\<close>

definition Task_new :: "PlatformFlags \<Rightarrow> uid \<Rightarrow> nat \<Rightarrow> string option \<Rightarrow> int list \<Rightarrow> Task" where
  "Task_new pf u type name junk =
     Retainable.extend (set_object_track (Retainable_init u))
       (Task.fields (case name of None \<Rightarrow> [] | Some n \<Rightarrow> n) (name \<noteq> None) 0 False [] None None None
          ([-1, -1, -1, -1] @ junk) [] False 0 None 1024 None 1024 (-1) iris_default [] type IRIS_NONE
          False False False False (platform_async pf) [] [])"

lemma Task_new_simps [simp]:
  "t_status (Task_new pf u ty n junk) = IRIS_NONE" "t_depends (Task_new pf u ty n junk) = None"
  "t_type (Task_new pf u ty n junk) = ty" "t_cmds (Task_new pf u ty n junk) = []"
  "t_subtasks (Task_new pf u ty n junk) = []" "t_parent_exist (Task_new pf u ty n junk) = False"
  "ref_cnt (Task_new pf u ty n junk) = 1" "retain_mode (Task_new pf u ty n junk) = CREATE_MODE"
  "is_release (Task_new pf u ty n junk)" "track_set (Task_new pf u ty n junk)"
  "obj_uid (Task_new pf u ty n junk) = u" "t_depends_max (Task_new pf u ty n junk) = 1024"
  "t_meta_block (Task_new pf u ty n junk) = [-1, -1, -1, -1] @ junk"
  "t_df_scheduling (Task_new pf u ty n junk) = False" "t_async (Task_new pf u ty n junk) = platform_async pf"
  "t_subtasks_complete (Task_new pf u ty n junk) = 0" "t_user (Task_new pf u ty n junk) = False"
  "t_internal_memory_transfer (Task_new pf u ty n junk) = False" "t_dev (Task_new pf u ty n junk) = None"
  "t_brs_policy (Task_new pf u ty n junk) = iris_default"
  by (simp_all add: Task_new_def Retainable.extend_def Task.fields_def set_object_track_def Retainable_init_def)

definition t_ncmds :: "Task \<Rightarrow> nat" where "t_ncmds t = length (t_cmds t)"
definition t_ndepends :: "Task \<Rightarrow> nat" where
  "t_ndepends t = (case t_depends t of None \<Rightarrow> 0 | Some ds \<Rightarrow> length ds)"
definition depend_uids :: "Task \<Rightarrow> uid list" where
  "depend_uids t = (case t_depends t of None \<Rightarrow> [] | Some ds \<Rightarrow> ds)"
definition marker :: "Task \<Rightarrow> bool" where "marker t \<longleftrightarrow> t_type t = IRIS_MARKER"
definition task_ref :: "Task \<Rightarrow> TaskRef" where
  "task_ref t = \<lparr>tr_uid = obj_uid t, tr_ncmds = t_ncmds t, tr_name = t_name t\<rparr>"

section \<open>Metadata\<close>

definition n_metadata :: "Task \<Rightarrow> int" where "n_metadata t = t_meta_block t ! META_N"
definition devno :: "Task \<Rightarrow> int" where "devno t = t_meta_block t ! META_DEVNO"
definition set_devno :: "int \<Rightarrow> Task \<Rightarrow> Task" where
  "set_devno d t = t\<lparr>t_meta_block := (t_meta_block t)[META_DEVNO := d]\<rparr>"

text \<open>Reading and writing \<open>meta_data_[index]\<close>: beyond the block nothing is known of the memory.\<close>

definition metadata :: "Task \<Rightarrow> nat \<Rightarrow> int option" where
  "metadata t index = cell (t_meta_block t) index"

definition set_metadata :: "nat \<Rightarrow> int \<Rightarrow> Task \<Rightarrow> Task option" where
  "set_metadata index data t =
     do { b \<leftarrow> store (t_meta_block t) index data;
          Some (t\<lparr>t_meta_block := b[META_N := (if b ! META_N \<le> int index then int index + 1 else b ! META_N)]\<rparr>) }"

fun write_cells :: "nat \<Rightarrow> int list \<Rightarrow> int list \<Rightarrow> int list option" where
  "write_cells i [] b = Some b"
| "write_cells i (d # ds) b = do { b \<leftarrow> store b i d; write_cells (Suc i) ds b }"

text \<open>\<open>set_metadata(int* mdata, int n)\<close> copies \<open>n\<close> entries of \<open>mdata\<close>.\<close>

definition set_metadata_all :: "int list \<Rightarrow> nat \<Rightarrow> Task \<Rightarrow> Task option" where
  "set_metadata_all mdata n t =
     (if length mdata < n then None
      else do { b \<leftarrow> write_cells 0 (take n mdata) (t_meta_block t);
                Some (t\<lparr>t_meta_block := b[META_N := int n]\<rparr>) })"

section \<open>Commands\<close>

definition is_task_with_single_flush :: "Task \<Rightarrow> bool" where
  "is_task_with_single_flush t \<longleftrightarrow> t_ncmds t = 1 \<and> cmd_type (t_cmds t ! 0) = Some IRIS_CMD_MEM_FLUSH"

text \<open>\<open>dev_affinity\<close> is the affinity of the flushed memory object.\<close>

definition get_device_affinity :: "(uid \<Rightarrow> int) \<Rightarrow> Task \<Rightarrow> int" where
  "get_device_affinity dev_affinity t =
     (if is_task_with_single_flush t then
        (case cmd_mem (t_cmds t ! 0) of None \<Rightarrow> -1 | Some m \<Rightarrow> dev_affinity m)
      else -1)"

text \<open>\<open>kernel_name\<close> is the name of the kernel of a kernel command.\<close>

definition AddCommand :: "Command \<Rightarrow> string \<Rightarrow> Task \<Rightarrow> Task" where
  "AddCommand cmd kernel_name t =
     (let n = t_ncmds t;
          t = t\<lparr>t_cmds := t_cmds t @ [cmd]\<rparr>;
          ty = the (cmd_type cmd);
          t = (if ty = IRIS_CMD_KERNEL then
                 let t = (if \<not> t_given_name t then t\<lparr>t_name := kernel_name, t_given_name := True\<rparr> else t)
                 in (if t_cmd_kernel t = None then t\<lparr>t_cmd_kernel := Some n\<rparr> else t)
               else t)
      in if \<not> t_system t \<and> ty \<in> {IRIS_CMD_KERNEL, IRIS_CMD_H2D, IRIS_CMD_H2DNP, IRIS_CMD_D2H, IRIS_CMD_MEM_FLUSH}
         then t\<lparr>t_cmd_last := Some n\<rparr> else t)"

definition ClearCommands :: "Task \<Rightarrow> Task" where
  "ClearCommands t = t\<lparr>t_cmds := []\<rparr>"

definition ncmds_kernel :: "Task \<Rightarrow> nat" where
  "ncmds_kernel t = length (filter (\<lambda>c. cmd_type c = Some IRIS_CMD_KERNEL) (t_cmds t))"

definition ncmds_memcpy :: "Task \<Rightarrow> nat" where
  "ncmds_memcpy t = length (filter (\<lambda>c. cmd_type c \<in>
     {Some IRIS_CMD_H2D, Some IRIS_CMD_H2BROADCAST, Some IRIS_CMD_H2DNP, Some IRIS_CMD_D2H}) (t_cmds t))"

definition insert_hidden_dmem :: "uid \<Rightarrow> int \<Rightarrow> Task \<Rightarrow> Task" where
  "insert_hidden_dmem dmem md t =
     (if md = iris_r then t\<lparr>t_hidden_dmem_in := t_hidden_dmem_in t @ [dmem]\<rparr>
      else if md = iris_w then t\<lparr>t_hidden_dmem_out := t_hidden_dmem_out t @ [dmem]\<rparr>
      else if md = iris_rw then
        t\<lparr>t_hidden_dmem_in := t_hidden_dmem_in t @ [dmem], t_hidden_dmem_out := t_hidden_dmem_out t @ [dmem]\<rparr>
      else t)"

definition set_name :: "string \<Rightarrow> Task \<Rightarrow> Task" where
  "set_name n t = t\<lparr>t_name := n, t_given_name := True\<rparr>"

definition set_opt :: "string option \<Rightarrow> Task \<Rightarrow> Task" where
  "set_opt opt t = (case opt of None \<Rightarrow> t | Some s \<Rightarrow> t\<lparr>t_opt := s\<rparr>)"

section \<open>Dependencies\<close>

text \<open>A growing array of ids: the buffer is doubled when one free cell is left; a write outside the
  buffer has no result.\<close>

definition push_uid :: "uid \<Rightarrow> uid list option \<times> nat \<Rightarrow> (uid list option \<times> nat) option" where
  "push_uid u a =
     (let (arr, cap) = a;
          ds = (case arr of None \<Rightarrow> [] | Some ds \<Rightarrow> ds)
      in if u \<in> set ds then Some (Some ds, cap)
         else let cap = (if int (length ds) = int cap - 1 then cap * 2 else cap)
              in if length ds < cap then Some (Some (ds @ [u]), cap) else None)"

definition AddChild :: "uid \<Rightarrow> Task \<Rightarrow> Task option" where
  "AddChild u t = do { (arr, cap) \<leftarrow> push_uid u (t_childs t, t_childs_max t);
                       Some (t\<lparr>t_childs := arr, t_childs_max := cap\<rparr>) }"

fun contains :: "string \<Rightarrow> string \<Rightarrow> bool" where
  "contains pat [] \<longleftrightarrow> pat = []"
| "contains pat (c # cs) \<longleftrightarrow> take (length pat) (c # cs) = pat \<or> contains pat cs"

text \<open>\<open>AddDepend\<close> of the task \<open>u\<close> on the task with id \<open>dep\<close>. With proactive transfers enabled, the
  dependency, when it still exists, learns of its new child.\<close>

definition AddDepend :: "PlatformFlags \<Rightarrow> uid \<Rightarrow> uid \<Rightarrow> tasks \<Rightarrow> tasks option" where
  "AddDepend pf u dep h =
     do { t \<leftarrow> GetObject h u;
          (arr, cap) \<leftarrow> push_uid dep (t_depends t, t_depends_max t);
          let h' = TrackObject h (t\<lparr>t_depends := arr, t_depends_max := cap\<rparr>) u;
          if dep \<in> set (depend_uids t) then Some h'
          else if enable_proactive pf \<and> \<not> contains ''Graph'' (t_name t) \<and> \<not> contains ''flush-out'' (t_name t)
          then (case GetObject h' dep of
                  None \<Rightarrow> Some h'
                | Some p \<Rightarrow> do { p \<leftarrow> AddChild (obj_uid t) p; Some (TrackObject h' p dep) })
          else Some h' }"

fun AddDepends :: "PlatformFlags \<Rightarrow> uid \<Rightarrow> uid list \<Rightarrow> tasks \<Rightarrow> tasks option" where
  "AddDepends pf u [] h = Some h"
| "AddDepends pf u (d # ds) h = do { h \<leftarrow> AddDepend pf u d h; AddDepends pf u ds h }"

section \<open>Status\<close>

definition set_status :: "nat \<Rightarrow> Task \<Rightarrow> Task" where "set_status s t = t\<lparr>t_status := s\<rparr>"

lemma set_status_simps [simp]:
  "t_status (set_status s t) = s" "t_depends (set_status s t) = t_depends t" "t_cmds (set_status s t) = t_cmds t"
  "t_type (set_status s t) = t_type t" "ref_cnt (set_status s t) = ref_cnt t" "retain_mode (set_status s t) = retain_mode t"
  "is_release (set_status s t) = is_release t" "track_set (set_status s t) = track_set t"
  "obj_uid (set_status s t) = obj_uid t" "t_async (set_status s t) = t_async t" "t_user (set_status s t) = t_user t"
  "t_subtasks (set_status s t) = t_subtasks t" "t_parent_exist (set_status s t) = t_parent_exist t"
  "t_dev (set_status s t) = t_dev t" "t_df_scheduling (set_status s t) = t_df_scheduling t"
  "t_subtasks_complete (set_status s t) = t_subtasks_complete t"
  "t_internal_memory_transfer (set_status s t) = t_internal_memory_transfer t"
  by (simp_all add: set_status_def)

text \<open>One dependency does not hold the task back: it is gone, complete, or an asynchronous task that is
  already submitted to its device (when the waiting task has commands).\<close>

definition dep_satisfied :: "bool \<Rightarrow> Task option \<Rightarrow> bool" where
  "dep_satisfied has_cmds dep =
     (case dep of
        None \<Rightarrow> True
      | Some d \<Rightarrow>
          if t_async d \<and> has_cmds \<and> \<not> (t_status d = IRIS_COMPLETE \<or> t_status d = IRIS_SUBMITTED) then False
          else if t_async d \<and> \<not> has_cmds \<and> t_status d \<noteq> IRIS_COMPLETE then False
          else if \<not> t_async d \<and> t_status d \<noteq> IRIS_COMPLETE then False
          else True)"

definition Dispatchable :: "tasks \<Rightarrow> Task \<Rightarrow> bool" where
  "Dispatchable h t =
     (if t_status t = IRIS_PENDING then False
      else case t_depends t of
             None \<Rightarrow> True
           | Some ds \<Rightarrow> list_all (\<lambda>d. dep_satisfied (0 < t_ncmds t) (GetObject h d)) ds)"

definition wake_pending :: "tasks \<Rightarrow> uid \<Rightarrow> tasks" where
  "wake_pending h u =
     (case GetObject h u of
        None \<Rightarrow> h
      | Some d \<Rightarrow> if t_status d = IRIS_PENDING then TrackObject h (set_status IRIS_NONE d) u else h)"

definition DispatchDependencies :: "uid \<Rightarrow> tasks \<Rightarrow> tasks option" where
  "DispatchDependencies u h =
     do { t \<leftarrow> GetObject h u;
          Some (foldl wake_pending (wake_pending h u) (depend_uids t)) }"

definition Executable :: "Task \<Rightarrow> Task \<times> bool" where
  "Executable t =
     (if t_status t = IRIS_NONE \<and> t_subtasks_complete t = length (t_subtasks t)
      then (set_status IRIS_RUNNING t, True) else (t, False))"

definition set_pending :: "Task \<Rightarrow> Task" where
  "set_pending t = (if t_brs_policy t = iris_pending then set_status IRIS_PENDING t else t)"

section \<open>Policy and subtasks\<close>

text \<open>\<open>set_brs_policy\<close> on one task; it goes on to the subtasks unless the task is scheduled by its
  data flow.\<close>

definition set_brs_policy1 :: "int \<Rightarrow> Task \<Rightarrow> Task" where
  "set_brs_policy1 p t =
     (let t = t\<lparr>t_brs_policy := p\<rparr>
      in if t_ncmds t \<le> 1 then
           if p = iris_pending then set_status IRIS_PENDING t
           else if t_status t = IRIS_PENDING then set_status IRIS_NONE t else t
         else t)"

text \<open>The recursion over the subtasks, in the order of the code: a stack of tasks still to visit.\<close>

partial_function (option) set_brs_policies :: "int \<Rightarrow> uid list \<Rightarrow> tasks \<Rightarrow> tasks option" where
  "set_brs_policies p us h =
     (case us of
        [] \<Rightarrow> Some h
      | u # us \<Rightarrow>
          (case GetObject h u of
             None \<Rightarrow> None
           | Some t \<Rightarrow>
               if t_df_scheduling t then set_brs_policies p us h
               else set_brs_policies p (t_subtasks t @ us) (TrackObject h (set_brs_policy1 p t) u)))"

definition set_brs_policy :: "int \<Rightarrow> uid \<Rightarrow> tasks \<Rightarrow> tasks option" where
  "set_brs_policy p u h = set_brs_policies p [u] h"

definition HasSubtasks :: "Task \<Rightarrow> bool" where "HasSubtasks t \<longleftrightarrow> t_subtasks t \<noteq> []"

definition AddSubtask :: "uid \<Rightarrow> uid \<Rightarrow> tasks \<Rightarrow> tasks option" where
  "AddSubtask u sub h =
     do { h \<leftarrow> at_object sub (\<lambda>s. s\<lparr>t_parent_exist := True, t_parent := u\<rparr>) h;
          t \<leftarrow> GetObject h u;
          h \<leftarrow> set_brs_policy (t_brs_policy t) sub h;
          at_object u (\<lambda>t. t\<lparr>t_subtasks := t_subtasks t @ [sub]\<rparr>) h }"

section \<open>Submission and completion\<close>

definition cmd_last_type :: "Task \<Rightarrow> int option" where
  "cmd_last_type t = (case t_cmd_last t of None \<Rightarrow> None | Some i \<Rightarrow> cmd_type (t_cmds t ! i))"

definition retain_if_exists :: "tasks \<Rightarrow> uid \<Rightarrow> tasks" where
  "retain_if_exists h u = (case GetObject h u of None \<Rightarrow> h | Some t \<Rightarrow> TrackObject h (Retain t) u)"

definition set_last_cmd :: "Task \<Rightarrow> Task" where
  "set_last_cmd t =
     (case t_cmd_last t of
        None \<Rightarrow> t
      | Some i \<Rightarrow> t\<lparr>t_cmds := (t_cmds t)[i := (t_cmds t ! i)\<lparr>cmd_last := True\<rparr>]\<rparr>)"

definition Task_Submit :: "int \<Rightarrow> string option \<Rightarrow> bool \<Rightarrow> uid \<Rightarrow> tasks \<Rightarrow> tasks option" where
  "Task_Submit brs_policy opt sync u h =
     do { h \<leftarrow> at_object u (set_status IRIS_NONE) h;
          h \<leftarrow> set_brs_policy brs_policy u h;
          t \<leftarrow> GetObject h u;
          h \<leftarrow> (if brs_policy = iris_pending \<and>
                  (t_cmd_last t = None \<or> cmd_last_type t \<in> {Some IRIS_CMD_D2H, Some IRIS_CMD_MEM_FLUSH})
                then set_brs_policy iris_data u h else Some h);
          h \<leftarrow> (if brs_policy \<noteq> iris_pending then DispatchDependencies u h else Some h);
          h \<leftarrow> at_object u (\<lambda>t. (set_last_cmd (set_opt opt t))\<lparr>t_sync := sync, t_user := True\<rparr>) h;
          t \<leftarrow> GetObject h u;
          Some (foldl retain_if_exists h (depend_uids t)) }"

text \<open>The threads a completion wakes.\<close>

datatype thread_id = SchedulerThread | WorkerThread devno

fun release_deps :: "uid list \<Rightarrow> tasks \<Rightarrow> tasks option" where
  "release_deps [] h = Some h"
| "release_deps (d # ds) h =
     (case GetObject h d of
        None \<Rightarrow> release_deps ds h
      | Some t \<Rightarrow> if t_user t then do { (h, _) \<leftarrow> Release d h; release_deps ds h } else release_deps ds h)"

text \<open>The part of \<open>Complete\<close> that marks the task, and the part that drops the references.\<close>

definition complete_mark :: "Task \<Rightarrow> Task" where
  "complete_mark t =
     (let t = (case t_dev t of
                 None \<Rightarrow> t
               | Some d \<Rightarrow> if t_type t \<noteq> IRIS_MARKER then set_devno (int d) t else t)
      in set_status IRIS_COMPLETE t)"

definition complete_release :: "PlatformFlags \<Rightarrow> uid \<Rightarrow> tasks \<Rightarrow> tasks option" where
  "complete_release pf u h =
     (if release_task_flag pf then
        do { t \<leftarrow> GetObject h u;
             h \<leftarrow> release_deps (depend_uids t) h;
             (h, _) \<leftarrow> Release u h;
             Some h }
      else Some h)"

definition complete_wakes :: "Task \<Rightarrow> thread_id list" where
  "complete_wakes t =
     (case t_dev t of Some d \<Rightarrow> [SchedulerThread, WorkerThread d] | None \<Rightarrow> [SchedulerThread])"

text \<open>\<open>Complete\<close>, with \<open>CompleteSub\<close> of the parent unfolded in it: the parent is retained, counts its
  finished subtasks, completes with the last one, and is released.\<close>

partial_function (option) Complete :: "PlatformFlags \<Rightarrow> uid \<Rightarrow> tasks \<Rightarrow> (tasks \<times> thread_id list) option" where
  "Complete pf u h =
     do { t \<leftarrow> GetObject h u;
          h \<leftarrow> Some (TrackObject h (complete_mark t) u);
          (h, wakes) \<leftarrow>
            (if t_parent_exist t then
               do { p \<leftarrow> GetObject h (t_parent t);
                    h \<leftarrow> Some (TrackObject h ((Retain p)\<lparr>t_subtasks_complete := t_subtasks_complete p + 1\<rparr>) (t_parent t));
                    (h, wakes) \<leftarrow>
                      (if t_subtasks_complete p + 1 = length (t_subtasks p) then Complete pf (t_parent t) h
                       else Some (h, []));
                    (h, _) \<leftarrow> Release (t_parent t) h;
                    Some (h, wakes) }
             else Some (h, complete_wakes t));
          h \<leftarrow> complete_release pf u h;
          Some (h, wakes) }"

declare set_brs_policies.simps [code] Complete.simps [code]

definition TryReleaseTask :: "uid \<Rightarrow> tasks \<Rightarrow> tasks option" where
  "TryReleaseTask u h =
     do { t \<leftarrow> GetObject h u;
          h \<leftarrow> release_deps (depend_uids t) h;
          if t_user t then do { (h, _) \<leftarrow> Release u h; Some h } else Some h }"

text \<open>\<open>IsKernelSupported\<close>: a task without a kernel runs anywhere.\<close>

definition task_IsKernelSupported :: "(devno \<Rightarrow> uid \<Rightarrow> bool) \<Rightarrow> devno \<Rightarrow> Task \<Rightarrow> bool" where
  "task_IsKernelSupported supported d t =
     (case t_cmd_kernel t of
        None \<Rightarrow> True
      | Some i \<Rightarrow> (case cmd_kernel (t_cmds t ! i) of None \<Rightarrow> True | Some k \<Rightarrow> supported d k))"

section \<open>Metadata: what is read back\<close>

definition meta_wf :: "Task \<Rightarrow> bool" where
  "meta_wf t \<longleftrightarrow> length (t_meta_block t) = META_CELLS"

lemma write_cells_eq:
  "i + length ds \<le> length b \<Longrightarrow> write_cells i ds b = Some (take i b @ ds @ drop (i + length ds) b)"
proof (induction ds arbitrary: i b)
  case (Cons d ds)
  then have "write_cells (Suc i) ds (b[i := d]) =
      Some (take (Suc i) (b[i := d]) @ ds @ drop (Suc i + length ds) (b[i := d]))"
    by (intro Cons.IH) simp
  with Cons.prems show ?case by (simp add: take_Suc_conv_app_nth store_def)
qed simp

lemma write_cells_self: "length ds = n \<Longrightarrow> n \<le> length b \<Longrightarrow> write_cells 0 ds b = Some (ds @ drop n b)"
  using write_cells_eq [of 0 ds b] by simp

text \<open>C39. Metadata written in one call is read back unchanged as long as it fits the eight cells of the
  array: \<open>metadata\<close> returns every entry and \<open>n_metadata\<close> their number, and the device number behind
  the array keeps its value. A ninth entry, which is what the ViT application writes, is lost: the
  cell it lands in is the counter, so reading entry 8 back gives 9 whatever was stored.\<close>

theorem metadata_roundtrip:
  assumes "meta_wf t" "length mdata = n" "n \<le> 9"
  shows "\<exists>t'. set_metadata_all mdata n t = Some t' \<and> meta_wf t' \<and> n_metadata t' = int n \<and> devno t' = devno t \<and>
    (\<forall>i < min n 8. metadata t' i = Some (mdata ! i)) \<and> (n = 9 \<longrightarrow> metadata t' 8 = Some 9)"
proof -
  let ?b = "mdata @ drop n (t_meta_block t)"
  have "write_cells 0 mdata (t_meta_block t) = Some ?b"
    using assms by (intro write_cells_self) (auto simp: meta_wf_def meta_defs)
  then have s: "set_metadata_all mdata n t = Some (t\<lparr>t_meta_block := ?b[META_N := int n]\<rparr>)"
    using assms by (simp add: set_metadata_all_def)
  show ?thesis unfolding s using assms
    by (auto simp: meta_wf_def n_metadata_def devno_def metadata_def cell_def meta_defs nth_list_update nth_append)
qed

theorem metadata_roundtrip_witness:
  "\<exists>t'. set_metadata_all [121, 38, 302592, 302592, 1, 0, 1, 1, 2] 9
        (Task_new \<lparr>release_task_flag = True, platform_async = False, enable_proactive = False\<rparr> 2 IRIS_TASK None [0, 0, 0, 0, 0, 0]) = Some t' \<and>
     metadata t' 4 = Some 1 \<and> metadata t' 8 = Some 9"
proof -
  let ?t = "Task_new \<lparr>release_task_flag = True, platform_async = False, enable_proactive = False\<rparr> 2 IRIS_TASK None [0, 0, 0, 0, 0, 0]"
  let ?m = "[121, 38, 302592, 302592, 1, 0, 1, 1, 2]"
  have "meta_wf ?t" by (simp add: meta_wf_def meta_defs)
  from metadata_roundtrip [OF this, of ?m 9] show ?thesis by force
qed

lemma set_metadata_one:
  assumes "meta_wf t" "i < 8" "n_metadata t = int n" "n \<le> 9"
  shows "\<exists>t'. set_metadata i v t = Some t' \<and> meta_wf t' \<and> n_metadata t' = int (max n (Suc i)) \<and> devno t' = devno t \<and>
    (\<forall>j < 8. metadata t' j = (if j = i then Some v else metadata t j))"
  using assms
  by (auto simp: set_metadata_def meta_wf_def n_metadata_def devno_def metadata_def cell_def store_def meta_defs
      nth_list_update max_def)

section \<open>The dependency array\<close>

definition uid_array_ok :: "uid list option \<times> nat \<Rightarrow> bool" where
  "uid_array_ok a = (case a of (arr, cap) \<Rightarrow>
     (case arr of None \<Rightarrow> 0 < cap | Some ds \<Rightarrow> distinct ds \<and> length ds < cap))"

lemma push_uid_ok:
  assumes "uid_array_ok (arr, cap)"
  shows "\<exists>arr' cap'. push_uid u (arr, cap) = Some (Some arr', cap') \<and> uid_array_ok (Some arr', cap') \<and>
    arr' = push_unique u (case arr of None \<Rightarrow> [] | Some ds \<Rightarrow> ds)"
  using assms by (auto simp: push_uid_def uid_array_ok_def push_unique_def Let_def split: option.splits)

lemma depend_uids_eq: "depend_uids t = (case t_depends t of None \<Rightarrow> [] | Some ds \<Rightarrow> ds)"
  by (simp add: depend_uids_def)

text \<open>\<open>AddDepend\<close> without proactive transfers: only the dependent task changes.\<close>

lemma AddDepend_eq:
  assumes "GetObject h u = Some t" "uid_array_ok (t_depends t, t_depends_max t)" "\<not> enable_proactive pf"
  shows "\<exists>cap. uid_array_ok (Some (push_unique d (depend_uids t)), cap) \<and> AddDepend pf u d h =
    Some (TrackObject h (t\<lparr>t_depends := Some (push_unique d (depend_uids t)), t_depends_max := cap\<rparr>) u)"
  using push_uid_ok [OF assms(2), of d] assms(1,3)
  by (auto simp: AddDepend_def depend_uids_def Let_def)

lemma TrackObject_twice [simp]: "TrackObject (TrackObject h a u) b u = TrackObject h b u"
  by (simp add: TrackObject_def)

lemma TrackObject_same [simp]: "GetObject h u = Some t \<Longrightarrow> TrackObject h t u = h"
  by (auto simp: TrackObject_def GetObject_def fun_upd_def split: option.splits)

lemma AddDepends_eq:
  assumes "GetObject h u = Some t" "uid_array_ok (t_depends t, t_depends_max t)" "\<not> enable_proactive pf" "ds \<noteq> []"
  shows "\<exists>cap. uid_array_ok (Some (foldl (\<lambda>xs d. push_unique d xs) (depend_uids t) ds), cap) \<and> AddDepends pf u ds h =
    Some (TrackObject h (t\<lparr>t_depends := Some (foldl (\<lambda>xs d. push_unique d xs) (depend_uids t) ds), t_depends_max := cap\<rparr>) u)"
  using assms
proof (induction ds arbitrary: h t)
  case (Cons d ds)
  from AddDepend_eq [OF Cons.prems(1-3), of d]
  obtain cap where c: "uid_array_ok (Some (push_unique d (depend_uids t)), cap)" and
    a: "AddDepend pf u d h = Some (TrackObject h (t\<lparr>t_depends := Some (push_unique d (depend_uids t)), t_depends_max := cap\<rparr>) u)"
    by blast
  show ?case
  proof (cases "ds = []")
    case True with a c show ?thesis by auto
  next
    case False
    let ?t = "t\<lparr>t_depends := Some (push_unique d (depend_uids t)), t_depends_max := cap\<rparr>"
    from Cons.IH [of "TrackObject h ?t u" ?t] False c Cons.prems(3) a show ?thesis
      by (auto simp: iris_simps depend_uids_def)
  qed
qed simp

section \<open>Status changes\<close>

lemma Dispatchable_iff:
  "Dispatchable h t \<longleftrightarrow> t_status t \<noteq> IRIS_PENDING \<and> (\<forall>d \<in> set (depend_uids t). dep_satisfied (0 < t_ncmds t) (GetObject h d))"
  by (auto simp: Dispatchable_def depend_uids_def list_all_iff split: option.splits)

lemma dep_satisfied_sync:
  "\<not> t_async d \<Longrightarrow> dep_satisfied b (Some d) \<longleftrightarrow> t_status d = IRIS_COMPLETE"
  by (simp add: dep_satisfied_def)

lemma dep_satisfied_iff:
  "dep_satisfied b (Some d) \<longleftrightarrow> t_status d = IRIS_COMPLETE \<or> t_async d \<and> b \<and> t_status d = IRIS_SUBMITTED"
  by (auto simp: dep_satisfied_def)

text \<open>A task starts at most once for each submission: the second of two attempts to execute it fails.\<close>

lemma Executable_once: "Executable t = (t', b) \<Longrightarrow> b \<Longrightarrow> Executable t' = (t', False)"
  by (auto simp: Executable_def set_status_def iris_status_defs split: if_splits)

lemma Executable_iff:
  "Executable t = (t', True) \<longleftrightarrow> t_status t = IRIS_NONE \<and> t_subtasks_complete t = length (t_subtasks t) \<and>
     t' = set_status IRIS_RUNNING t"
  by (auto simp: Executable_def)

lemma Executable_False: "Executable t = (t', False) \<Longrightarrow> t' = t"
  by (auto simp: Executable_def split: if_splits)

lemma set_brs_policy_flat:
  assumes "GetObject h u = Some t" "t_subtasks t = []"
  shows "set_brs_policy p u h = Some (if t_df_scheduling t then h else TrackObject h (set_brs_policy1 p t) u)"
  using assms by (simp add: set_brs_policy_def set_brs_policies.simps)

text \<open>Completion of a task that is nobody's subtask.\<close>

lemma Complete_flat:
  assumes "GetObject h u = Some t" "\<not> t_parent_exist t"
  shows "Complete pf u h =
    map_option (\<lambda>h. (h, complete_wakes t)) (complete_release pf u (TrackObject h (complete_mark t) u))"
  using assms by (subst Complete.simps)
    (auto simp: map_option_case Option.bind_def split: option.splits)

end
