(* ===== verification/Iris_Float.thy ===== *)
theory Iris_Float
  imports Complex_Main "HOL-Library.Log_Nat" Iris_Prelude
begin

text \<open>
  IEEE-754 binary floating point, as far as the cost model (\<open>double\<close>) and the tiling macros
  (\<open>float\<close>) of the repository use it: round to nearest, ties to even, with gradual underflow,
  overflow to an infinity and NaN. A finite value is a rational number; the sign of a zero is not
  represented. The last section shows that rounding is monotone and exact on representable numbers.
\<close>

section \<open>Rounding a rational number\<close>

definition round_half_even :: "rat \<Rightarrow> int" where
  "round_half_even x =
     (let f = \<lfloor>x\<rfloor>; d = x - of_int f in
      if d < 1 / 2 then f
      else if 1 / 2 < d then f + 1
      else if even f then f else f + 1)"

text \<open>The exponent of the binade of a positive rational: \<open>2 ^ k \<le> x < 2 ^ (k + 1)\<close>.\<close>

definition ilog2 :: "rat \<Rightarrow> int" where
  "ilog2 x =
     (let (a, b) = quotient_of x; k = bitlen a - bitlen b in
      if 2 powi k \<le> x then k else k - 1)"

text \<open>A format: its precision, the exponent of its smallest positive number, and its overflow
  threshold.\<close>

record fmt =
  prec :: nat
  emin :: int
  emax :: int

definition binary32 :: fmt where
  "binary32 = \<lparr>prec = 24, emin = -149, emax = 128\<rparr>"

definition binary64 :: fmt where
  "binary64 = \<lparr>prec = 53, emin = -1074, emax = 1024\<rparr>"

definition ulp_exp :: "fmt \<Rightarrow> rat \<Rightarrow> int" where
  "ulp_exp f x = max (ilog2 \<bar>x\<bar> - int (prec f) + 1) (emin f)"

definition rnd :: "fmt \<Rightarrow> rat \<Rightarrow> rat" where
  "rnd f x =
     (if x = 0 then 0
      else let e = ulp_exp f x in of_int (round_half_even (x / 2 powi e)) * 2 powi e)"

section \<open>Floating-point values and operations\<close>

datatype fp = Fin rat | PInf | NInf | NaN

definition of_rat_fp :: "fmt \<Rightarrow> rat \<Rightarrow> fp" where
  "of_rat_fp f x =
     (let r = rnd f x in
      if r \<noteq> 0 \<and> emax f \<le> ilog2 \<bar>r\<bar> then if 0 < r then PInf else NInf else Fin r)"

definition of_int_fp :: "fmt \<Rightarrow> int \<Rightarrow> fp" where
  "of_int_fp f i = of_rat_fp f (of_int i)"

fun fp_uminus :: "fp \<Rightarrow> fp" where
  "fp_uminus (Fin a) = Fin (- a)"
| "fp_uminus PInf = NInf"
| "fp_uminus NInf = PInf"
| "fp_uminus NaN = NaN"

fun fp_add :: "fmt \<Rightarrow> fp \<Rightarrow> fp \<Rightarrow> fp" where
  "fp_add f (Fin a) (Fin b) = of_rat_fp f (a + b)"
| "fp_add f NaN b = NaN"
| "fp_add f a NaN = NaN"
| "fp_add f PInf NInf = NaN"
| "fp_add f NInf PInf = NaN"
| "fp_add f PInf b = PInf"
| "fp_add f NInf b = NInf"
| "fp_add f (Fin a) b = b"

text \<open>An infinity times a finite factor takes the sign of the product; times zero it is NaN.\<close>

definition inf_times :: "rat \<Rightarrow> fp" where
  "inf_times a = (if a = 0 then NaN else if 0 < a then PInf else NInf)"

fun fp_mul :: "fmt \<Rightarrow> fp \<Rightarrow> fp \<Rightarrow> fp" where
  "fp_mul f (Fin a) (Fin b) = of_rat_fp f (a * b)"
| "fp_mul f NaN b = NaN"
| "fp_mul f a NaN = NaN"
| "fp_mul f (Fin a) PInf = inf_times a"
| "fp_mul f (Fin a) NInf = fp_uminus (inf_times a)"
| "fp_mul f PInf (Fin b) = inf_times b"
| "fp_mul f NInf (Fin b) = fp_uminus (inf_times b)"
| "fp_mul f PInf b = b"
| "fp_mul f NInf b = fp_uminus b"

text \<open>Division by zero gives the infinity of the dividend's sign (zeros are taken as positive).\<close>

fun fp_div :: "fmt \<Rightarrow> fp \<Rightarrow> fp \<Rightarrow> fp" where
  "fp_div f (Fin a) (Fin b) = (if b = 0 then inf_times a else of_rat_fp f (a / b))"
| "fp_div f NaN b = NaN"
| "fp_div f a NaN = NaN"
| "fp_div f (Fin a) b = Fin 0"
| "fp_div f PInf (Fin b) = (if b < 0 then NInf else PInf)"
| "fp_div f NInf (Fin b) = (if b < 0 then PInf else NInf)"
| "fp_div f a b = NaN"

fun fp_less :: "fp \<Rightarrow> fp \<Rightarrow> bool" where
  "fp_less (Fin a) (Fin b) = (a < b)"
| "fp_less NaN b = False"
| "fp_less a NaN = False"
| "fp_less NInf b = (b \<noteq> NInf)"
| "fp_less (Fin a) b = (b = PInf)"
| "fp_less PInf b = False"

text \<open>C's \<open>(int) x\<close>: truncation towards zero; a value outside the range of \<open>int\<close> has no defined
  result.\<close>

definition trunc_rat :: "rat \<Rightarrow> int" where
  "trunc_rat x = (if 0 \<le> x then \<lfloor>x\<rfloor> else \<lceil>x\<rceil>)"

fun fp_to_int32 :: "fp \<Rightarrow> int option" where
  "fp_to_int32 (Fin a) = (if int32_ok (trunc_rat a) then Some (trunc_rat a) else None)"
| "fp_to_int32 x = None"

section \<open>Laws of rounding\<close>

lemma round_half_even_of_int [simp]: "round_half_even (of_int i) = i"
  by (simp add: round_half_even_def)

lemma round_half_even_floor:
  "round_half_even x = \<lfloor>x\<rfloor> \<or> round_half_even x = \<lfloor>x\<rfloor> + 1"
  by (auto simp: round_half_even_def Let_def)

lemma round_half_even_mono:
  assumes "x \<le> y" shows "round_half_even x \<le> round_half_even y"
proof (cases "\<lfloor>x\<rfloor> = \<lfloor>y\<rfloor>")
  case True
  with assms show ?thesis by (auto simp: round_half_even_def Let_def)
next
  case False
  with floor_mono [OF assms] have "\<lfloor>x\<rfloor> + 1 \<le> \<lfloor>y\<rfloor>" by linarith
  then show ?thesis using round_half_even_floor [of x] round_half_even_floor [of y] by linarith
qed

lemma round_half_even_minus: "round_half_even (- x) = - round_half_even x"
proof (cases "x = of_int \<lfloor>x\<rfloor>")
  case True
  then show ?thesis
    by (metis of_int_minus round_half_even_of_int)
next
  case False
  then have "\<lceil>x\<rceil> = \<lfloor>x\<rfloor> + 1"
    by (metis ceiling_altdef)
  then have "\<lfloor>- x\<rfloor> = - \<lfloor>x\<rfloor> - 1" by (simp add: ceiling_def)
  then show ?thesis by (auto simp: round_half_even_def Let_def)
qed


lemma of_int_pow2: "0 \<le> k \<Longrightarrow> rat_of_int (2 ^ nat k) = 2 powi k"
  by (simp add: power_int_def)

lemma bitlen_pow_bounds:
  assumes "0 < a"
  shows "(2::rat) powi (bitlen a - 1) \<le> of_int a" and "of_int a < (2::rat) powi (bitlen a)"
proof -
  have n: "0 \<le> bitlen a - 1" "0 \<le> bitlen a"
    using assms by (auto simp: bitlen_alt_def)
  have "2 ^ nat (bitlen a - 1) \<le> a" "a < 2 ^ nat (bitlen a)" using bitlen_bounds [OF assms] by auto
  then have "rat_of_int (2 ^ nat (bitlen a - 1)) \<le> of_int a" "rat_of_int a < of_int (2 ^ nat (bitlen a))"
    by (simp_all only: of_int_le_iff of_int_less_iff)
  then show "(2::rat) powi (bitlen a - 1) \<le> of_int a" "of_int a < (2::rat) powi (bitlen a)"
    by (simp_all only: of_int_pow2 [OF n(1)] of_int_pow2 [OF n(2)])
qed

lemma ilog2_bounds:
  assumes "0 < x"
  shows "2 powi (ilog2 x) \<le> x" and "x < 2 powi (ilog2 x + 1)"
proof -
  obtain a b where ab: "quotient_of x = (a, b)" by (cases "quotient_of x")
  have b: "0 < b" using quotient_of_denom_pos [OF ab] .
  have x: "x = of_int a / of_int b" using quotient_of_div [OF ab] .
  with assms b have a: "0 < a" by (simp add: zero_less_divide_iff)
  let ?k = "bitlen a - bitlen b"
  note ra = bitlen_pow_bounds [OF a] and rb = bitlen_pow_bounds [OF b]
  have lo: "(2::rat) powi (?k - 1) < x"
  proof -
    have "(2::rat) powi (?k - 1) * of_int b < 2 powi (?k - 1) * 2 powi (bitlen b)"
      using rb(2) by simp
    also have "\<dots> = 2 powi (bitlen a - 1)" by (simp flip: power_int_add)
    also have "\<dots> \<le> of_int a" by (rule ra(1))
    finally show ?thesis using b by (simp add: x pos_less_divide_eq)
  qed
  have hi: "x < (2::rat) powi (?k + 1)"
  proof -
    have "rat_of_int a < 2 powi (bitlen a)" by (rule ra(2))
    also have "\<dots> = 2 powi (?k + 1) * 2 powi (bitlen b - 1)" by (simp flip: power_int_add)
    also have "\<dots> \<le> 2 powi (?k + 1) * of_int b" using rb(1) by simp
    finally show ?thesis using b by (simp add: x pos_divide_less_eq)
  qed
  show "2 powi (ilog2 x) \<le> x" "x < 2 powi (ilog2 x + 1)"
    using lo hi by (auto simp: ilog2_def ab Let_def)
qed

lemma powi2_le_iff [simp]: "(2::rat) powi m \<le> 2 powi n \<longleftrightarrow> m \<le> n"
  by (metis linorder_not_le one_less_numeral_iff power_int_increasing power_int_strict_increasing
      semiring_norm(76) one_le_numeral)

lemma powi2_less_iff [simp]: "(2::rat) powi m < 2 powi n \<longleftrightarrow> m < n"
  by (simp add: linorder_not_le [symmetric])

lemma ilog2_less:
  assumes "0 < x" "x < 2 powi k" shows "ilog2 x < k"
proof -
  have "2 powi (ilog2 x) < (2::rat) powi k"
    using ilog2_bounds(1) [OF assms(1)] assms(2) by (rule le_less_trans)
  then show ?thesis by simp
qed

lemma ilog2_mono:
  assumes "0 < x" "x \<le> y" shows "ilog2 x \<le> ilog2 y"
proof -
  have "x < 2 powi (ilog2 y + 1)"
    using assms ilog2_bounds(2) [of y] by linarith
  from ilog2_less [OF assms(1) this] show ?thesis by simp
qed

lemma rnd_0 [simp]: "rnd f 0 = 0"
  by (simp add: rnd_def)

lemma rnd_minus: "rnd f (- x) = - rnd f x"
  by (simp add: rnd_def ulp_exp_def round_half_even_minus Let_def)

text \<open>A number with at most \<open>prec\<close> significant bits above the underflow exponent is its own rounding.\<close>

theorem rnd_exact:
  assumes m: "\<bar>m\<bar> < 2 ^ prec f" and j: "emin f \<le> j"
  shows "rnd f (of_int m * 2 powi j) = of_int m * 2 powi j"
proof (cases "m = 0")
  case False
  let ?x = "rat_of_int m * 2 powi j" let ?e = "ulp_exp f ?x"
  have abs: "\<bar>?x\<bar> = of_int \<bar>m\<bar> * 2 powi j" by (simp add: abs_mult)
  have "rat_of_int \<bar>m\<bar> < 2 powi int (prec f)"
    using m by (simp add: power_int_def flip: of_int_less_iff [where 'a = rat])
  then have "\<bar>?x\<bar> < 2 powi int (prec f) * 2 powi j" by (simp add: abs)
  then have lt: "\<bar>?x\<bar> < 2 powi (int (prec f) + j)" by (simp add: power_int_add)
  have "0 < \<bar>?x\<bar>" using False by simp
  from ilog2_less [OF this lt] j have e: "?e \<le> j" by (simp add: ulp_exp_def)
  have "?x / 2 powi ?e = of_int m * 2 powi (j - ?e)" by (simp add: power_int_diff)
  also have "\<dots> = of_int (m * 2 ^ nat (j - ?e))" using e by (simp add: power_int_def)
  finally have "of_int (round_half_even (?x / 2 powi ?e)) = ?x / 2 powi ?e"
    by (metis round_half_even_of_int)
  then show ?thesis using False by (simp add: rnd_def Let_def)
qed simp

lemma rnd_of_int: "\<bar>m\<bar> < 2 ^ prec f \<Longrightarrow> emin f \<le> 0 \<Longrightarrow> rnd f (of_int m) = of_int m"
  using rnd_exact [of m f 0] by simp

text \<open>Rounding is monotone, across binades and through the underflow range.\<close>

lemma rnd_ge_binade:
  assumes x: "0 < x" and p: "0 < prec f" and e: "ulp_exp f x \<noteq> emin f"
  shows "2 powi (ilog2 x) \<le> rnd f x"
proof -
  let ?k = "ilog2 x" let ?e = "ulp_exp f x" let ?n = "?k - ?e"
  have n: "0 \<le> ?n" using e x p by (auto simp: ulp_exp_def max_def)
  have "rat_of_int (2 ^ nat ?n) = 2 powi ?k / 2 powi ?e"
    using n by (simp only: of_int_pow2) (simp add: power_int_diff)
  also have "\<dots> \<le> x / 2 powi ?e"
    using ilog2_bounds(1) [OF x] by (simp add: divide_right_mono)
  finally have "2 ^ nat ?n \<le> round_half_even (x / 2 powi ?e)"
    by (metis round_half_even_mono round_half_even_of_int)
  then have "rat_of_int (2 ^ nat ?n) \<le> of_int (round_half_even (x / 2 powi ?e))"
    by (simp only: of_int_le_iff)
  then have "rat_of_int (2 ^ nat ?n) * 2 powi ?e \<le> rnd f x"
    using x by (simp add: rnd_def Let_def)
  moreover have "rat_of_int (2 ^ nat ?n) * 2 powi ?e = 2 powi ?k"
    using n by (simp only: of_int_pow2) (simp flip: power_int_add)
  ultimately show ?thesis by simp
qed

lemma rnd_le_pow2:
  assumes x: "0 < x" and k: "x \<le> 2 powi k" and e: "ulp_exp f x \<le> k"
  shows "rnd f x \<le> 2 powi k"
proof -
  let ?e = "ulp_exp f x" let ?n = "k - ?e"
  have n: "0 \<le> ?n" using e by simp
  have "x / 2 powi ?e \<le> 2 powi k / 2 powi ?e" using k by (simp add: divide_right_mono)
  also have "\<dots> = rat_of_int (2 ^ nat ?n)"
    using n by (simp only: of_int_pow2) (simp add: power_int_diff)
  finally have "round_half_even (x / 2 powi ?e) \<le> 2 ^ nat ?n"
    by (metis round_half_even_mono round_half_even_of_int)
  then have "of_int (round_half_even (x / 2 powi ?e)) \<le> rat_of_int (2 ^ nat ?n)"
    by (simp only: of_int_le_iff)
  then have "rnd f x \<le> rat_of_int (2 ^ nat ?n) * 2 powi ?e"
    using x by (simp add: rnd_def Let_def)
  also have "\<dots> = 2 powi k"
    using n by (simp only: of_int_pow2) (simp flip: power_int_add)
  finally show ?thesis .
qed

lemma rnd_nonneg:
  assumes "0 \<le> x" shows "0 \<le> rnd f x"
proof -
  have "0 \<le> round_half_even (x / 2 powi ulp_exp f x)"
    using round_half_even_mono [of 0 "x / 2 powi ulp_exp f x"] assms
      round_half_even_of_int [of 0] by simp
  then show ?thesis by (simp add: rnd_def Let_def)
qed

lemma rnd_mono_pos:
  assumes p: "0 < prec f" and x: "0 < x" and xy: "x \<le> y"
  shows "rnd f x \<le> rnd f y"
proof (cases "ulp_exp f x = ulp_exp f y")
  case True
  have "round_half_even (x / 2 powi ulp_exp f y) \<le> round_half_even (y / 2 powi ulp_exp f y)"
    using xy by (intro round_half_even_mono) (simp add: divide_right_mono)
  with True x xy show ?thesis by (simp add: rnd_def Let_def)
next
  case False
  have y: "0 < y" using x xy by simp
  have k: "ilog2 x \<le> ilog2 y" using x xy by (rule ilog2_mono)
  then have lt: "ulp_exp f x < ulp_exp f y" using False x y by (auto simp: ulp_exp_def)
  then have ey: "ulp_exp f y \<noteq> emin f" by (auto simp: ulp_exp_def)
  then have "ulp_exp f y = ilog2 y - int (prec f) + 1" using y by (auto simp: ulp_exp_def)
  with lt p have e: "ulp_exp f x \<le> ilog2 y" by linarith
  have "ilog2 x < ilog2 y" using lt x y by (auto simp: ulp_exp_def)
  then have "(2::rat) powi (ilog2 x + 1) \<le> 2 powi (ilog2 y)" by simp
  then have "x \<le> 2 powi (ilog2 y)" using ilog2_bounds(2) [OF x] by linarith
  from rnd_le_pow2 [OF x this e] rnd_ge_binade [OF y p ey] show ?thesis by simp
qed

theorem rnd_mono:
  assumes p: "0 < prec f" and xy: "x \<le> y"
  shows "rnd f x \<le> rnd f y"
proof -
  consider "0 < x" | "x \<le> 0" "0 \<le> y" | "y < 0" by linarith
  then show ?thesis
  proof cases
    case 1
    with p xy show ?thesis by (simp add: rnd_mono_pos)
  next
    case 2
    then have "0 \<le> rnd f (- x)" "0 \<le> rnd f y" by (simp_all add: rnd_nonneg)
    then show ?thesis by (simp add: rnd_minus)
  next
    case 3
    with p xy have "rnd f (- y) \<le> rnd f (- x)" by (simp add: rnd_mono_pos)
    then show ?thesis by (simp add: rnd_minus)
  qed
qed

lemma round_half_even_le_of_int: "x \<le> of_int i \<Longrightarrow> round_half_even x \<le> i"
  by (metis round_half_even_mono round_half_even_of_int)

text \<open>The numbers of a format; every rounding is one of them, so rounding twice changes nothing.\<close>

definition representable :: "fmt \<Rightarrow> rat \<Rightarrow> bool" where
  "representable f r \<longleftrightarrow> (\<exists>m j. \<bar>m\<bar> < 2 ^ prec f \<and> emin f \<le> j \<and> r = of_int m * 2 powi j)"

lemma rnd_representable_id: "representable f r \<Longrightarrow> rnd f r = r"
  by (auto simp: representable_def rnd_exact)

lemma representable_uminus: "representable f r \<Longrightarrow> representable f (- r)"
  unfolding representable_def
  by (elim exE conjE) (rule_tac x = "- m" in exI, auto)

lemma rnd_representable_pos:
  assumes x: "0 < x" and p: "0 < prec f"
  shows "representable f (rnd f x)"
proof -
  let ?e = "ulp_exp f x" let ?m = "round_half_even (x / 2 powi ?e)"
  have r: "rnd f x = of_int ?m * 2 powi ?e" using x by (simp add: rnd_def Let_def)
  have e: "emin f \<le> ?e" by (simp add: ulp_exp_def)
  have m0: "0 \<le> ?m"
    using round_half_even_mono [of 0 "x / 2 powi ?e"] round_half_even_of_int [of 0] x by simp
  have "x < 2 powi (ilog2 x + 1)" using x by (rule ilog2_bounds)
  also have "\<dots> \<le> 2 powi (int (prec f) + ?e)" using x by (simp add: ulp_exp_def)
  finally have "x / 2 powi ?e < 2 powi int (prec f)"
    by (simp add: power_int_add pos_divide_less_eq)
  then have "x / 2 powi ?e \<le> of_int (2 ^ prec f)" by (simp add: power_int_def)
  then have le: "?m \<le> 2 ^ prec f" by (rule round_half_even_le_of_int)
  show ?thesis
  proof (cases "?m = 2 ^ prec f")
    case True
    then have "rnd f x = of_int 1 * 2 powi (int (prec f) + ?e)"
      by (simp add: r power_int_add)
    moreover have "\<bar>1::int\<bar> < 2 ^ prec f" using p by (simp add: one_less_power)
    ultimately show ?thesis using e unfolding representable_def
      by (intro exI [of _ 1] exI [of _ "int (prec f) + ?e"]) auto
  next
    case False
    with le m0 e r show ?thesis unfolding representable_def by (intro exI [of _ ?m] exI [of _ ?e]) auto
  qed
qed

lemma rnd_representable: "0 < prec f \<Longrightarrow> representable f (rnd f x)"
proof -
  assume p: "0 < prec f"
  consider "0 < x" | "x = 0" | "0 < - x" by linarith
  then show ?thesis
  proof cases
    case 2
    then show ?thesis
      by (auto simp: representable_def intro!: exI [of _ 0] exI [of _ "emin f"])
  next
    case 3
    from representable_uminus [OF rnd_representable_pos [OF this p]] show ?thesis
      by (simp add: rnd_minus)
  qed (use p rnd_representable_pos in simp)
qed

lemma rnd_idem: "0 < prec f \<Longrightarrow> rnd f (rnd f x) = rnd f x"
  by (simp add: rnd_representable rnd_representable_id)

section \<open>Order and the operations on non-negative values\<close>

fun fp_le :: "fp \<Rightarrow> fp \<Rightarrow> bool" where
  "fp_le (Fin a) (Fin b) = (a \<le> b)"
| "fp_le NaN b = False"
| "fp_le a NaN = False"
| "fp_le NInf b = True"
| "fp_le a PInf = True"
| "fp_le a b = False"

abbreviation fp_nonneg :: "fp \<Rightarrow> bool" where "fp_nonneg \<equiv> fp_le (Fin 0)"

lemma fp_le_trans: "fp_le a b \<Longrightarrow> fp_le b c \<Longrightarrow> fp_le a c"
  by (cases a; cases b; cases c) auto

lemma fp_le_refl_nonneg: "fp_nonneg a \<Longrightarrow> fp_le a a"
  by (cases a) auto

lemma fp_less_le_trans: "fp_less a b \<Longrightarrow> fp_le b c \<Longrightarrow> fp_less a c"
  by (cases a; cases b; cases c) auto

lemma fp_le_not_less: "fp_le a b \<Longrightarrow> \<not> fp_less b a"
  by (cases a; cases b) auto

lemma fp_nonneg_cases:
  assumes "fp_nonneg x" obtains a where "x = Fin a" "0 \<le> a" | "x = PInf"
  using assms by (cases x) auto

lemma of_rat_fp_mono:
  assumes p: "0 < prec f" and xy: "x \<le> y"
  shows "fp_le (of_rat_fp f x) (of_rat_fp f y)"
proof -
  let ?a = "rnd f x" let ?b = "rnd f y"
  have ab: "?a \<le> ?b" using p xy by (rule rnd_mono)
  have up: "0 < ?a \<Longrightarrow> ilog2 \<bar>?a\<bar> \<le> ilog2 \<bar>?b\<bar>" using ab by (intro ilog2_mono) auto
  have dn: "?b < 0 \<Longrightarrow> ilog2 \<bar>?b\<bar> \<le> ilog2 \<bar>?a\<bar>" using ab by (intro ilog2_mono) auto
  show ?thesis using ab up dn by (auto simp: of_rat_fp_def Let_def)
qed

lemma of_rat_fp_nonneg: "0 \<le> x \<Longrightarrow> fp_nonneg (of_rat_fp f x)"
  using rnd_nonneg [of x f] by (auto simp: of_rat_fp_def Let_def)

lemma of_rat_fp_of_int:
  assumes "\<bar>m\<bar> < 2 ^ prec f" "emin f \<le> 0" "int (prec f) \<le> emax f"
  shows "of_rat_fp f (of_int m) = Fin (of_int m)"
proof (cases "m = 0")
  case False
  have "rat_of_int \<bar>m\<bar> < of_int (2 ^ prec f)" using assms(1) by (simp only: of_int_less_iff)
  then have "\<bar>rat_of_int m\<bar> < 2 powi int (prec f)" by (simp add: power_int_def)
  with False have "ilog2 \<bar>rat_of_int m\<bar> < int (prec f)" by (intro ilog2_less) auto
  with assms show ?thesis by (simp add: of_rat_fp_def rnd_of_int)
qed (simp add: of_rat_fp_def)

lemma fp_add_nonneg: "fp_nonneg a \<Longrightarrow> fp_nonneg b \<Longrightarrow> fp_nonneg (fp_add f a b)"
  by (elim fp_nonneg_cases) (auto intro: of_rat_fp_nonneg)

lemma fp_add_mono:
  assumes "0 < prec f" "fp_nonneg a" "fp_nonneg b" "fp_le a a'" "fp_le b b'"
  shows "fp_le (fp_add f a b) (fp_add f a' b')"
proof -
  have le: "0 \<le> x \<Longrightarrow> fp_le (of_rat_fp f x) PInf" for x
    using of_rat_fp_nonneg [of x f] by (cases "of_rat_fp f x") auto
  show ?thesis using assms
    by (cases a; cases a'; cases b; cases b') (auto intro: of_rat_fp_mono le)
qed

lemma fp_mul_nonneg: "0 < c \<Longrightarrow> fp_nonneg b \<Longrightarrow> fp_nonneg (fp_mul f (Fin c) b)"
  by (elim fp_nonneg_cases) (auto intro: of_rat_fp_nonneg simp: inf_times_def)

lemma fp_mul_mono:
  assumes "0 < prec f" "0 < c" "fp_nonneg b" "fp_le b b'"
  shows "fp_le (fp_mul f (Fin c) b) (fp_mul f (Fin c) b')"
proof -
  have le: "0 \<le> x \<Longrightarrow> fp_le (of_rat_fp f x) PInf" for x
    using of_rat_fp_nonneg [of x f] by (cases "of_rat_fp f x") auto
  show ?thesis using assms
    by (cases b; cases b') (auto intro: of_rat_fp_mono le simp: inf_times_def)
qed

lemma fp_mul_Fin_mono:
  "0 < prec f \<Longrightarrow> 0 \<le> w \<Longrightarrow> x \<le> y \<Longrightarrow> fp_le (fp_mul f (Fin w) (Fin x)) (fp_mul f (Fin w) (Fin y))"
  by (simp add: of_rat_fp_mono mult_left_mono)

section \<open>Evaluation\<close>

text \<open>
  The same functions on numerator and denominator, so that a concrete operation is evaluated by
  the kernel without a chain of rational normalisations.
\<close>

fun num_bits :: "num \<Rightarrow> int" where
  "num_bits num.One = 1"
| "num_bits (num.Bit0 n) = num_bits n + 1"
| "num_bits (num.Bit1 n) = num_bits n + 1"

lemma bitlen_numeral: "bitlen (numeral n) = num_bits n"
proof (induction n)
  case One
  then show ?case by (simp add: compute_bitlen [of 1] compute_bitlen [of 0])
next
  case (Bit0 n)
  have "bitlen (numeral (num.Bit0 n)) = bitlen (numeral (num.Bit0 n) div 2) + 1"
    by (subst compute_bitlen) simp
  with Bit0 show ?case by simp
next
  case (Bit1 n)
  have "bitlen (numeral (num.Bit1 n)) = bitlen (numeral (num.Bit1 n) div 2) + 1"
    by (subst compute_bitlen) simp
  with Bit1 show ?case by simp
qed

lemma bitlen_code [code]:
  "bitlen 0 = 0" "bitlen (Int.Pos n) = num_bits n" "bitlen (Int.Neg n) = 0"
proof -
  show "bitlen 0 = 0" by simp
  show "bitlen (Int.Pos n) = num_bits n" by (simp add: bitlen_numeral)
  show "bitlen (Int.Neg n) = 0" by (simp add: bitlen_alt_def)
qed

lemma ilog2_code [code]:
  "ilog2 x =
     (let (a, b) = quotient_of x; k = bitlen a - bitlen b in
      if (if 0 \<le> k then b * 2 ^ nat k \<le> a else b \<le> a * 2 ^ nat (- k)) then k else k - 1)"
proof -
  obtain a b where ab: "quotient_of x = (a, b)" by (cases "quotient_of x")
  have b: "0 < b" using quotient_of_denom_pos [OF ab] .
  have x: "x = of_int a / of_int b" using quotient_of_div [OF ab] .
  let ?k = "bitlen a - bitlen b"
  have "2 powi ?k \<le> x \<longleftrightarrow> (if 0 \<le> ?k then b * 2 ^ nat ?k \<le> a else b \<le> a * 2 ^ nat (- ?k))"
  proof (cases "0 \<le> ?k")
    case True
    have "2 powi ?k \<le> x \<longleftrightarrow> rat_of_int (b * 2 ^ nat ?k) \<le> of_int a"
      using b True by (simp add: x pos_le_divide_eq power_int_def mult.commute)
    with True show ?thesis by (simp only: of_int_le_iff if_True)
  next
    case False
    have "2 powi ?k \<le> x \<longleftrightarrow> rat_of_int b \<le> of_int (a * 2 ^ nat (- ?k))"
      using b False by (simp add: x power_int_def field_simps)
    with False show ?thesis by (simp only: of_int_le_iff if_False)
  qed
  then show ?thesis by (simp add: ilog2_def ab Let_def)
qed

definition round_div :: "int \<Rightarrow> int \<Rightarrow> int" where
  "round_div n d =
     (let q = n div d; r = n mod d in
      if 2 * r < d then q else if d < 2 * r then q + 1 else if even q then q else q + 1)"

lemma round_div: "0 < d \<Longrightarrow> round_half_even (of_int n / of_int d) = round_div n d"
proof -
  assume d: "0 < d"
  have f: "\<lfloor>rat_of_int n / of_int d\<rfloor> = n div d" by (rule floor_divide_of_int_eq)
  have "rat_of_int n = of_int (n div d * d + n mod d)" by simp
  also have "\<dots> = of_int (n div d) * of_int d + of_int (n mod d)" by (simp only: of_int_add of_int_mult)
  finally have r: "rat_of_int n / of_int d - of_int (n div d) = of_int (n mod d) / of_int d"
    using d by (simp add: field_simps)
  have lt: "rat_of_int (n mod d) / of_int d < 1 / 2 \<longleftrightarrow> 2 * (n mod d) < d"
  proof -
    have "rat_of_int (n mod d) / of_int d < 1 / 2 \<longleftrightarrow> rat_of_int (2 * (n mod d)) < of_int d"
      using d by (simp add: pos_divide_less_eq field_simps)
    then show ?thesis by (simp only: of_int_less_iff)
  qed
  have gt: "1 / 2 < rat_of_int (n mod d) / of_int d \<longleftrightarrow> d < 2 * (n mod d)"
  proof -
    have "1 / 2 < rat_of_int (n mod d) / of_int d \<longleftrightarrow> rat_of_int d < of_int (2 * (n mod d))"
      using d by (simp add: pos_less_divide_eq field_simps)
    then show ?thesis by (simp only: of_int_less_iff)
  qed
  show ?thesis unfolding round_half_even_def round_div_def Let_def f r lt gt ..
qed

lemma rnd_code [code]:
  "rnd f x =
     (let (a, b) = quotient_of x in
      if a = 0 then 0
      else let e = ulp_exp f x in
        if 0 \<le> e then of_int (round_div a (b * 2 ^ nat e) * 2 ^ nat e)
        else Fract (round_div (a * 2 ^ nat (- e)) b) (2 ^ nat (- e)))"
proof -
  obtain a b where ab: "quotient_of x = (a, b)" by (cases "quotient_of x")
  have b: "0 < b" using quotient_of_denom_pos [OF ab] .
  have x: "x = of_int a / of_int b" using quotient_of_div [OF ab] .
  have x0: "x = 0 \<longleftrightarrow> a = 0" using b by (simp add: x)
  define e where "e = ulp_exp f x"
  show ?thesis
  proof (cases "0 \<le> e")
    case True
    have "x / 2 powi e = of_int a / of_int (b * 2 ^ nat e)"
      using True by (simp add: x power_int_def)
    then have "round_half_even (x / 2 powi e) = round_div a (b * 2 ^ nat e)"
      using round_div [of "b * 2 ^ nat e" a] b by simp
    then show ?thesis using True x0
      by (simp add: rnd_def ab Let_def e_def [symmetric]) (simp add: power_int_def)
  next
    case False
    have "x / 2 powi e = of_int (a * 2 ^ nat (- e)) / of_int b"
      using False by (simp add: x power_int_def field_simps)
    then have "rnd f x = (if a = 0 then 0 else of_int (round_div (a * 2 ^ nat (- e)) b) * 2 powi e)"
      using b x0 by (simp add: rnd_def Let_def e_def [symmetric] round_div del: of_int_mult)
    then show ?thesis using False
      by (simp add: ab Let_def e_def [symmetric] Fract_of_int_quotient power_int_def field_simps)
  qed
qed

end
