(* ===== verification/Iris_History.thy ===== *)
theory Iris_History
  imports Iris_Prelude Iris_Float
begin

text \<open>
  The record of execution times of a kernel, \<^verbatim>\<open>History.h\<close> and \<^verbatim>\<open>History.cpp\<close>, which the profile policy
  consults. For each kind of event the class keeps four arrays indexed by device: the total time, the
  average time, the number of events and (for transfers) the bytes. Times are \<open>double\<close>.
\<close>

datatype history_kind = H_kernel | H_h2d | H_d2h | H_d2d | H_d2h_h2d | H_d2o | H_o2d

record history_stat =
  h_t :: "fp list"
  h_ta :: "fp list"
  h_c :: "size_t list"
  h_size :: "size_t list"

record History =
  h_ndevs :: nat
  h_stat :: "history_kind \<Rightarrow> history_stat"

definition History_new :: "nat \<Rightarrow> History" where
  "History_new n = \<lparr>h_ndevs = n, h_stat = (\<lambda>_. \<lparr>h_t = replicate n (Fin 0), h_ta = replicate n (Fin 0),
     h_c = replicate n 0, h_size = replicate n 0\<rparr>)\<rparr>"

text \<open>A \<open>size_t\<close> as a \<open>double\<close>.\<close>

definition dbl_size :: "size_t \<Rightarrow> fp" where
  "dbl_size w = of_int_fp binary64 (uint w)"

definition new_average :: "fp \<Rightarrow> size_t \<Rightarrow> fp \<Rightarrow> fp" where
  "new_average ta cnt time =
     fp_div binary64 (fp_add binary64 (fp_mul binary64 ta (dbl_size cnt)) time) (dbl_size (cnt + 1))"

definition stat_add :: "nat \<Rightarrow> fp \<Rightarrow> history_stat \<Rightarrow> history_stat" where
  "stat_add d time st =
     (let cnt = h_c st ! d in
      st\<lparr>h_t := (h_t st)[d := fp_add binary64 (h_t st ! d) time],
        h_c := (h_c st)[d := cnt + 1],
        h_ta := (h_ta st)[d := new_average (h_ta st ! d) cnt time]\<rparr>)"

definition stat_add_size :: "nat \<Rightarrow> fp \<Rightarrow> size_t \<Rightarrow> bool \<Rightarrow> history_stat \<Rightarrow> history_stat" where
  "stat_add_size d time s count_incr st =
     (let cnt = h_c st ! d in
      st\<lparr>h_t := (h_t st)[d := fp_add binary64 (h_t st ! d) time],
        h_c := (if count_incr then (h_c st)[d := cnt + 1] else h_c st),
        h_size := (h_size st)[d := h_size st ! d + s],
        h_ta := (h_ta st)[d := new_average (h_ta st ! d) cnt time]\<rparr>)"

definition History_AddKernel :: "nat \<Rightarrow> fp \<Rightarrow> History \<Rightarrow> History" where
  "History_AddKernel d time hist =
     hist\<lparr>h_stat := (h_stat hist)(H_kernel := stat_add d time (h_stat hist H_kernel))\<rparr>"

text \<open>\<open>AddH2D\<close>, \<open>AddD2D\<close>, \<open>AddO2D\<close>, \<open>AddD2O\<close>, \<open>AddD2H\<close> count every call; \<open>AddD2H_H2D\<close> lets the caller
  decide.\<close>

definition History_AddTransfer :: "history_kind \<Rightarrow> nat \<Rightarrow> fp \<Rightarrow> size_t \<Rightarrow> bool \<Rightarrow> History \<Rightarrow> History" where
  "History_AddTransfer k d time s count_incr hist =
     hist\<lparr>h_stat := (h_stat hist)(k := stat_add_size d time s count_incr (h_stat hist k))\<rparr>"

definition total_time :: "history_kind \<Rightarrow> History \<Rightarrow> fp" where
  "total_time k hist = foldl (fp_add binary64) (Fin 0) (take (h_ndevs hist) (h_t (h_stat hist k)))"

definition total_count :: "history_kind \<Rightarrow> History \<Rightarrow> size_t" where
  "total_count k hist = foldl (+) 0 (take (h_ndevs hist) (h_c (h_stat hist k)))"

definition total_size :: "history_kind \<Rightarrow> History \<Rightarrow> size_t" where
  "total_size k hist = foldl (+) 0 (take (h_ndevs hist) (h_size (h_stat hist k)))"

section \<open>The device with the best record\<close>

fun min_scan :: "nat \<Rightarrow> fp list \<Rightarrow> fp \<times> nat \<Rightarrow> fp \<times> nat" where
  "min_scan i [] m = m"
| "min_scan i (x # xs) m = min_scan (Suc i) xs (if fp_less x (fst m) then (x, i) else m)"

text \<open>\<open>OptimalDevice\<close>; without a device there is nothing to return.\<close>

definition OptimalDevice :: "History \<Rightarrow> nat option" where
  "OptimalDevice hist =
     (let st = h_stat hist H_kernel; n = h_ndevs hist in
      case find_index (\<lambda>c. c = 0) (take n (h_c st)) of
        Some i \<Rightarrow> Some i
      | None \<Rightarrow> if n = 0 then None
          else Some (snd (min_scan 0 (take n (h_ta st)) (h_ta st ! 0, 0))))"

definition history_wf :: "History \<Rightarrow> bool" where
  "history_wf hist \<longleftrightarrow> (\<forall>k. length (h_t (h_stat hist k)) = h_ndevs hist \<and> length (h_ta (h_stat hist k)) = h_ndevs hist \<and>
     length (h_c (h_stat hist k)) = h_ndevs hist \<and> length (h_size (h_stat hist k)) = h_ndevs hist)"

lemma history_wf_new [iris_inv, simp]: "history_wf (History_new n)"
  by (simp add: history_wf_def History_new_def)

lemma history_wf_AddKernel [iris_inv, simp]: "history_wf hist \<Longrightarrow> history_wf (History_AddKernel d time hist)"
  by (auto simp: history_wf_def History_AddKernel_def stat_add_def Let_def)

lemma history_wf_AddTransfer [iris_inv, simp]: "history_wf hist \<Longrightarrow> history_wf (History_AddTransfer k d time s b hist)"
  by (auto simp: history_wf_def History_AddTransfer_def stat_add_size_def Let_def)

lemma fp_not_less_trans:
  "\<not> fp_less a b \<Longrightarrow> fp_less c b \<Longrightarrow> a \<noteq> NaN \<Longrightarrow> \<not> fp_less a c"
  by (cases a; cases b; cases c) auto

lemma fp_less_irrefl [simp]: "\<not> fp_less a a"
  by (cases a) auto

lemma min_scan_least:
  assumes "min_scan i xs (m, j) = (m', j')" "\<forall>x \<in> set xs. x \<noteq> NaN" "j < i" "m \<noteq> NaN"
  shows "(m' = m \<and> j' = j \<or> i \<le> j' \<and> j' < i + length xs \<and> m' = xs ! (j' - i)) \<and>
    (\<forall>x \<in> insert m (set xs). \<not> fp_less x m')"
  using assms
proof (induction i xs "(m, j)" arbitrary: m j rule: min_scan.induct)
  case (2 i x xs)
  define c where "c = (if fp_less x m then (x, i) else (m, j))"
  obtain cm cj where cc: "c = (cm, cj)" by fastforce
  have r: "min_scan (Suc i) xs (cm, cj) = (m', j')" using 2(2) by (simp add: c_def [symmetric] cc [symmetric])
  have p: "cj < Suc i" "cm \<noteq> NaN" using 2(3-5) cc by (auto simp: c_def split: if_splits)
  have nl: "\<not> fp_less x cm" "\<not> fp_less m cm"
    using cc 2(3,5) fp_not_less_trans by (auto simp: c_def split: if_splits) (cases x; cases m; auto)
  from 2(1) [of cm cj] r p 2(3) cc
  have ih: "(m' = cm \<and> j' = cj \<or> Suc i \<le> j' \<and> j' < Suc i + length xs \<and> m' = xs ! (j' - Suc i)) \<and>
    (\<forall>y \<in> insert cm (set xs). \<not> fp_less y m')" by (simp add: c_def)
  have t: "\<not> fp_less y m'" if "\<not> fp_less y cm" "y \<noteq> NaN" for y
    using ih that p(2) by (cases y; cases cm; cases m') auto
  show ?case using ih cc nl t 2(3,5) by (auto simp: c_def split: if_splits)
qed simp

text \<open>The profile policy's choice: while some device has never run the kernel it returns the first
  such device; afterwards it returns a device whose average time no other device undercuts.\<close>

theorem OptimalDevice_best:
  assumes "history_wf hist" "0 < h_ndevs hist" "\<forall>x \<in> set (h_ta (h_stat hist H_kernel)). x \<noteq> NaN"
  shows "\<exists>d < h_ndevs hist. OptimalDevice hist = Some d \<and>
    (if \<exists>i < h_ndevs hist. h_c (h_stat hist H_kernel) ! i = 0
     then h_c (h_stat hist H_kernel) ! d = 0 \<and> (\<forall>j < d. h_c (h_stat hist H_kernel) ! j \<noteq> 0)
     else \<forall>i < h_ndevs hist. \<not> fp_less (h_ta (h_stat hist H_kernel) ! i) (h_ta (h_stat hist H_kernel) ! d))"
proof -
  let ?st = "h_stat hist H_kernel" and ?n = "h_ndevs hist"
  have l: "length (h_c ?st) = ?n" "length (h_ta ?st) = ?n" using assms(1) by (auto simp: history_wf_def)
  show ?thesis
  proof (cases "find_index (\<lambda>c. c = 0) (h_c ?st)")
    case (Some i)
    then have "OptimalDevice hist = Some i" using l by (simp add: OptimalDevice_def Let_def)
    moreover have "i < ?n" "h_c ?st ! i = 0" "\<forall>j < i. h_c ?st ! j \<noteq> 0" using Some l by (auto simp: find_index_Some)
    moreover from this have "\<exists>i < ?n. h_c ?st ! i = 0" by blast
    ultimately show ?thesis by (simp only: if_True) blast
  next
    case None
    then have nz: "\<forall>i < ?n. h_c ?st ! i \<noteq> 0" using l(1) by (auto simp: find_index_None dest: bspec [OF _ nth_mem])
    define xs where "xs = h_ta ?st"
    then have x: "h_ta ?st = xs" and xs: "length xs = ?n" using l by auto
    obtain x0 ys where y: "xs = x0 # ys" using assms(2) xs by (cases xs) auto
    obtain m d where md: "min_scan 0 xs (x0, 0) = (m, d)" by fastforce
    then have "min_scan (Suc 0) ys (x0, 0) = (m, d)" by (simp add: y)
    from min_scan_least [OF this] assms(3) x y
    have e: "m = x0 \<and> d = 0 \<or> 1 \<le> d \<and> d < Suc (length ys) \<and> m = ys ! (d - 1)"
      and least: "\<forall>z \<in> set xs. \<not> fp_less z m" by simp_all
    from e xs y have "d < ?n" "m = xs ! d" by (auto simp: nth_Cons')
    moreover have "OptimalDevice hist = Some d"
      using None l md assms(2) x y by (simp add: OptimalDevice_def Let_def)
    ultimately have "\<forall>i < ?n. \<not> fp_less (h_ta ?st ! i) (h_ta ?st ! d)" using least x xs by simp
    moreover from nz have "(\<exists>i < ?n. h_c ?st ! i = 0) = False" by blast
    ultimately show ?thesis using \<open>d < ?n\<close> \<open>OptimalDevice hist = Some d\<close> by (simp only: if_False) blast
  qed
qed

text \<open>Two devices that have both run the kernel, the second one faster.\<close>

theorem OptimalDevice_best_witness:
  "OptimalDevice \<lparr>h_ndevs = 2, h_stat = (\<lambda>_. \<lparr>h_t = [Fin 9, Fin 4], h_ta = [Fin 9, Fin 4], h_c = [1, 1], h_size = [0, 0]\<rparr>)\<rparr> = Some 1"
proof -
  let ?h = "\<lparr>h_ndevs = 2, h_stat = (\<lambda>_. \<lparr>h_t = [Fin 9, Fin 4], h_ta = [Fin 9, Fin 4], h_c = [1, 1], h_size = [0, 0]\<rparr>)\<rparr>"
  have "history_wf ?h" by (simp add: history_wf_def)
  moreover have "0 < h_ndevs ?h" "\<forall>x \<in> set (h_ta (h_stat ?h H_kernel)). x \<noteq> NaN" by simp_all
  ultimately obtain d where d: "d < 2" "OptimalDevice ?h = Some d"
    and b: "if \<exists>i < 2. [1, 1 :: size_t] ! i = 0 then [1, 1 :: size_t] ! d = 0 \<and> (\<forall>j < d. [1, 1 :: size_t] ! j \<noteq> 0)
      else \<forall>i < 2. \<not> fp_less ([Fin 9, Fin 4] ! i) ([Fin 9, Fin 4] ! d)"
    using OptimalDevice_best [of ?h] by (simp only: History.simps history_stat.simps) blast
  have "\<not> (\<exists>i < 2. [1, 1 :: size_t] ! i = 0)"
    by (auto simp: less_2_cases_iff nth_Cons' split: if_splits)
  with b have "\<forall>i < 2. \<not> fp_less ([Fin 9, Fin 4] ! i) ([Fin 9, Fin 4] ! d)" by (simp only: if_False)
  then have "\<not> fp_less ([Fin 9, Fin 4] ! 1) ([Fin 9, Fin 4] ! d)" by (rule allE [of _ 1]) simp
  with d show ?thesis by (auto simp: less_2_cases_iff)
qed

end
