(* ===== verification/Iris_Policy.thy ===== *)
theory Iris_Policy
  imports Iris_Task Iris_History
begin

text \<open>
  The scheduling policies: \<^verbatim>\<open>Policies.cpp\<close> and one \<^verbatim>\<open>Policy*.cpp\<close> for each policy. A policy answers with
  the devices a task may go to, as positions in the scheduler's device array. What a policy asks of
  its surroundings are arguments: the number of devices, their types, whether a device supports the
  task's kernel, queue lengths. \<open>GetPolicy\<close> chooses the policy from the bits of the task's \<open>brs_policy\<close>.
  The contract the scheduler relies on is the locale \<open>device_policy\<close>; the policies that keep it are
  its interpretations.
\<close>

section \<open>Choosing a policy\<close>

datatype policy = P_block_cycle | P_ftf | P_data | P_default | P_depend | P_device | P_sdq | P_profile
  | P_random | P_roundrobin | P_julia | P_custom string

abbreviation has_bits :: "int \<Rightarrow> int \<Rightarrow> bool" where "has_bits p b \<equiv> (p AND b) \<noteq> 0"

definition GetPolicy :: "(string \<Rightarrow> bool) \<Rightarrow> int \<Rightarrow> string \<Rightarrow> policy" where
  "GetPolicy customs p opt =
     (if has_bits p iris_roundrobin then P_roundrobin
      else if has_bits p iris_julia_policy then P_julia
      else if has_bits p iris_cpu \<or> has_bits p iris_nvidia \<or> has_bits p iris_amd \<or> has_bits p iris_gpu \<or>
        has_bits p iris_phi \<or> has_bits p iris_hexagon \<or> has_bits p iris_dsp \<or> has_bits p iris_fpga then P_device
      else if p = iris_block_cycle then P_block_cycle
      else if p = iris_ftf then P_ftf
      else if p = iris_data then P_data
      else if p = iris_depend then P_depend
      else if p = iris_default then P_default
      else if p = iris_sdq then P_sdq
      else if p = iris_profile then P_profile
      else if p = iris_random then P_random
      else if p = iris_pending then P_data
      else if p = iris_custom \<and> customs opt then P_custom opt
      else P_sdq)"

text \<open>\<open>Register\<close>: a name can be registered once; \<open>load\<close> is whether the policy's library loads. The
  result is the new set of names, the status and the number of errors reported.\<close>

definition Policies_Register :: "(string \<Rightarrow> bool) \<Rightarrow> (string \<Rightarrow> bool) \<Rightarrow> string \<Rightarrow> (string \<Rightarrow> bool) \<times> int \<times> nat" where
  "Policies_Register load customs name =
     (if customs name then (customs, IRIS_ERROR, 1)
      else if \<not> load name then (customs, IRIS_ERROR, 1)
      else (customs(name := True), IRIS_SUCCESS, 0))"

section \<open>The contract\<close>

text \<open>Of \<open>n\<close> devices a policy chooses some, each once, and none that lacks the kernel while another has
  it. The scheduler's array holds \<open>IRIS_MAX_NDEVS\<close> devices.\<close>

locale device_policy =
  fixes n :: nat and pick :: "(devno \<Rightarrow> bool) \<Rightarrow> devno list"
  assumes pick_range: "0 < n \<Longrightarrow> d \<in> set (pick supp) \<Longrightarrow> d < n"
    and pick_distinct: "0 < n \<Longrightarrow> distinct (pick supp)"
    and pick_supported: "e < n \<Longrightarrow> supp e \<Longrightarrow> d \<in> set (pick supp) \<Longrightarrow> supp d"
begin

lemma pick_length: "0 < n \<Longrightarrow> length (pick supp) \<le> n"
proof -
  assume n: "0 < n"
  have "card (set (pick supp)) \<le> card {..<n}"
    using pick_range [OF n] by (intro card_mono) auto
  then show ?thesis using distinct_card [OF pick_distinct [OF n]] by simp
qed

text \<open>The devices the task is enqueued on: the chosen ones, or the default device when there is none.\<close>

lemma targets_supported:
  assumes "d0 < n" "e < n" "supp e" "pick supp \<noteq> [] \<or> supp d0"
    and "d \<in> set (if pick supp = [] then [d0] else pick supp)"
  shows "d < n \<and> supp d"
  using assms pick_range pick_supported by (auto split: if_splits)

end

section \<open>Stateless policies\<close>

text \<open>The loop \<open>for (selected...) if (IsKernelSupported) break;\<close> with position 0 as the fallback.\<close>

definition first_supported :: "nat \<Rightarrow> (devno \<Rightarrow> bool) \<Rightarrow> devno" where
  "first_supported n supp = (case find_index supp [0..<n] of None \<Rightarrow> 0 | Some i \<Rightarrow> i)"

definition PolicyDefault_GetDevices :: "nat \<Rightarrow> (devno \<Rightarrow> bool) \<Rightarrow> devno list" where
  "PolicyDefault_GetDevices n supp = [first_supported n supp]"

definition PolicyDevice_GetDevices :: "int list \<Rightarrow> int \<Rightarrow> (devno \<Rightarrow> bool) \<Rightarrow> devno list" where
  "PolicyDevice_GetDevices types brs_policy supp =
     filter (\<lambda>i. (types ! i AND brs_policy) = types ! i \<and> supp i) [0..<length types]"

definition PolicyFirstToFinish_GetDevices :: "nat \<Rightarrow> (devno \<Rightarrow> bool) \<Rightarrow> devno list" where
  "PolicyFirstToFinish_GetDevices n supp = filter supp [0..<n]"

text \<open>\<open>r\<close> is the value of \<open>rand()\<close>.\<close>

definition PolicyRandom_GetDevices :: "nat \<Rightarrow> nat \<Rightarrow> (devno \<Rightarrow> bool) \<Rightarrow> devno list" where
  "PolicyRandom_GetDevices n r supp =
     (let supported = filter supp [0..<n] in
      if supported \<noteq> [] then [supported ! (r mod length supported)] else [0])"

text \<open>Shortest queue: \<open>load\<close> is the number of tasks on a device, with the device's active tasks added
  when the platform is asynchronous. The search stops at the first idle device.\<close>

fun sdq_scan :: "(devno \<Rightarrow> bool) \<Rightarrow> (devno \<Rightarrow> nat) \<Rightarrow> nat \<Rightarrow> devno \<Rightarrow> devno list \<Rightarrow> devno" where
  "sdq_scan supp load lo min_dev [] = min_dev"
| "sdq_scan supp load lo min_dev (i # is) =
     (if \<not> supp i then sdq_scan supp load lo min_dev is
      else if load i = 0 then i
      else if load i < lo then sdq_scan supp load (load i) i is
      else sdq_scan supp load lo min_dev is)"

definition ULONG_MAX :: nat where "ULONG_MAX = 2 ^ 64 - 1"

definition PolicyShortestDeviceQueue_GetDevices :: "nat \<Rightarrow> (devno \<Rightarrow> nat) \<Rightarrow> (devno \<Rightarrow> bool) \<Rightarrow> devno list" where
  "PolicyShortestDeviceQueue_GetDevices n load supp = [sdq_scan supp load ULONG_MAX 0 [0..<n]]"

text \<open>\<open>PolicyDepend\<close>: \<open>deps\<close> lists, for each dependency, \<open>None\<close> when its task is gone and the device it
  ran on otherwise; a task that never had a device has a NULL device, which \<open>IsKernelSupported\<close>
  follows. The count of devices starts at the caller's 0.\<close>

fun depend_scan :: "(devno \<Rightarrow> bool) \<Rightarrow> devno option option list \<Rightarrow> devno list \<Rightarrow> devno list option" where
  "depend_scan supp [] devs = Some devs"
| "depend_scan supp (None # ds) devs = depend_scan supp ds devs"
| "depend_scan supp (Some None # ds) devs = None"
| "depend_scan supp (Some (Some d) # ds) devs =
     depend_scan supp ds (if d \<notin> set devs \<and> supp d then devs @ [d] else devs)"

definition PolicyDepend_GetDevices :: "nat \<Rightarrow> devno option option list \<Rightarrow> (devno \<Rightarrow> bool) \<Rightarrow> devno list option" where
  "PolicyDepend_GetDevices n deps supp =
     (if list_all (\<lambda>d. d = None) deps then Some [first_supported n supp] else depend_scan supp deps [])"

text \<open>\<open>PolicyProfile\<close>: a task without a kernel goes by the default policy.\<close>

definition PolicyProfile_GetDevices :: "nat \<Rightarrow> History option \<Rightarrow> (devno \<Rightarrow> bool) \<Rightarrow> devno list option" where
  "PolicyProfile_GetDevices n hist supp =
     (case hist of
        None \<Rightarrow> Some (PolicyDefault_GetDevices n supp)
      | Some h \<Rightarrow> map_option (\<lambda>d. [d]) (OptimalDevice h))"

subsection \<open>Data locality\<close>

text \<open>The memory objects of a task's commands; a kernel argument that is no memory object is a NULL
  pointer whose method is called. \<open>mem_of\<close> finds the object of an id.\<close>

fun cmds_mems :: "(uid \<Rightarrow> BaseMemRef) \<Rightarrow> Command list \<Rightarrow> BaseMemRef list option" where
  "cmds_mems mem_of [] = Some []"
| "cmds_mems mem_of (c # cs) =
     do { ms \<leftarrow> (if cmd_type c = Some IRIS_CMD_KERNEL then
                   (let args = take (cmd_kernel_nargs c) (cmd_kernel_args c)
                    in if list_all (\<lambda>a. arg_mem a \<noteq> None) args then Some (map (the \<circ> arg_mem) args) else None)
                 else if cmd_type c \<in> {Some IRIS_CMD_H2D, Some IRIS_CMD_D2H} then
                   map_option (\<lambda>m. [mem_of m]) (cmd_mem c)
                 else Some []);
          rest \<leftarrow> cmds_mems mem_of cs;
          Some (ms @ rest) }"

definition data_totals :: "nat \<Rightarrow> (uid \<Rightarrow> devno option) \<Rightarrow> BaseMemRef list \<Rightarrow> size_t list" where
  "data_totals n owner ms =
     fold (\<lambda>m tot. if mem_handler m = IRIS_MEM then
                      (case owner (mem_uid m) of None \<Rightarrow> tot | Some d \<Rightarrow> tot[d := tot ! d + mem_bytes m])
                    else tot) ms (replicate n 0)"

fun max_scan :: "nat \<Rightarrow> size_t list \<Rightarrow> size_t \<Rightarrow> nat \<Rightarrow> nat" where
  "max_scan i [] max_size target = target"
| "max_scan i (x # xs) max_size target =
     (if max_size < x then max_scan (Suc i) xs x i else max_scan (Suc i) xs max_size target)"

definition PolicyData_GetDevices ::
  "nat \<Rightarrow> (uid \<Rightarrow> BaseMemRef) \<Rightarrow> (uid \<Rightarrow> devno option) \<Rightarrow> Command list \<Rightarrow> devno list option" where
  "PolicyData_GetDevices n mem_of owner cmds =
     map_option (\<lambda>ms. [max_scan 0 (data_totals n owner ms) 0 0]) (cmds_mems mem_of cmds)"

section \<open>Round robin\<close>

definition rr_next :: "nat \<Rightarrow> nat \<Rightarrow> nat" where
  "rr_next n index = (if Suc index = n then 0 else Suc index)"

fun rr_loop :: "nat \<Rightarrow> (devno \<Rightarrow> bool) \<Rightarrow> nat \<Rightarrow> nat \<Rightarrow> devno list \<Rightarrow> devno list \<times> nat" where
  "rr_loop n supp 0 index devs = (devs, index)"
| "rr_loop n supp (Suc k) index devs =
     (if supp index then ([index], rr_next n index) else rr_loop n supp k (rr_next n index) [index])"

definition PolicyRoundRobin_GetDevice :: "nat \<Rightarrow> nat \<Rightarrow> (devno \<Rightarrow> bool) \<Rightarrow> devno list \<times> nat" where
  "PolicyRoundRobin_GetDevice n index supp = rr_loop n supp n index []"

fun rr_type_loop :: "nat \<Rightarrow> (devno \<Rightarrow> bool) \<Rightarrow> nat \<Rightarrow> nat \<Rightarrow> devno list \<times> nat" where
  "rr_type_loop n ok 0 index = ([], index)"
| "rr_type_loop n ok (Suc k) index =
     (if ok index then ([index], rr_next n index) else rr_type_loop n ok k (rr_next n index))"

definition PolicyRoundRobin_GetDeviceType :: "int list \<Rightarrow> int \<Rightarrow> nat \<Rightarrow> (devno \<Rightarrow> bool) \<Rightarrow> devno list \<times> nat" where
  "PolicyRoundRobin_GetDeviceType types p index supp =
     rr_type_loop (length types) (\<lambda>i. has_bits (types ! i) p \<and> supp i) (length types) index"

definition PolicyRoundRobin_GetDevices :: "int list \<Rightarrow> int \<Rightarrow> nat \<Rightarrow> (devno \<Rightarrow> bool) \<Rightarrow> devno list \<times> nat" where
  "PolicyRoundRobin_GetDevices types p index supp =
     (if p = iris_roundrobin then PolicyRoundRobin_GetDevice (length types) index supp
      else PolicyRoundRobin_GetDeviceType types p index supp)"

section \<open>Block cyclic\<close>

text \<open>\<open>DeviceMap\<close>: a 16 by 16 table and the extents of its pattern.\<close>

record DeviceMap =
  dev_map :: "nat \<Rightarrow> nat \<Rightarrow> nat"
  nrows :: nat
  ncols :: nat

definition dev_map_base :: "nat \<Rightarrow> nat \<Rightarrow> nat \<Rightarrow> nat" where
  "dev_map_base n i j = (if i \<le> j then j * j + i else i * (i + 2) - j) mod n"

text \<open>The row offset of the odd case after \<open>i\<close> rounds of its loop.\<close>

primrec i_pos :: "nat \<Rightarrow> nat \<Rightarrow> nat" where
  "i_pos n 0 = 0"
| "i_pos n (Suc i) = (i_pos n i + (n + 1) div 2) mod n"

definition dev_map_odd :: "nat \<Rightarrow> nat \<Rightarrow> nat \<Rightarrow> nat" where
  "dev_map_odd n i j = ((n - i_pos n i) mod n + j) mod n"

text \<open>The first rows and columns of the patterns for six and eight devices, two columns wide.\<close>

definition two_columns :: "nat \<Rightarrow> (nat \<Rightarrow> nat \<Rightarrow> nat) \<Rightarrow> nat \<Rightarrow> nat \<Rightarrow> nat" where
  "two_columns rows m i j = (if i < rows \<and> j < 2 then 2 * i + j else m i j)"

text \<open>The constructor divides by the number of devices, and with an odd number above sixteen writes
  beyond the table: neither has a result.\<close>

definition DeviceMap_new :: "nat \<Rightarrow> DeviceMap option" where
  "DeviceMap_new n =
     (if n = 0 then None
      else
        let m = dev_map_base n in
        if n = 1 then Some \<lparr>dev_map = m, nrows = 1, ncols = 1\<rparr>
        else if n = 9 then Some \<lparr>dev_map = m, nrows = 3, ncols = 3\<rparr>
        else if n = 4 then Some \<lparr>dev_map = m, nrows = 2, ncols = 2\<rparr>
        else if n = 6 then Some \<lparr>dev_map = two_columns 3 m, nrows = 3, ncols = 2\<rparr>
        else if n = 8 then Some \<lparr>dev_map = two_columns 4 m, nrows = 4, ncols = 2\<rparr>
        else if odd n then
          (if 16 < n then None
           else Some \<lparr>dev_map = (\<lambda>i j. if i < n \<and> j < n then dev_map_odd n i j else m i j), nrows = n, ncols = n\<rparr>)
        else Some \<lparr>dev_map = m, nrows = n, ncols = n\<rparr>)"

definition DeviceMap_GetDevice :: "DeviceMap \<Rightarrow> int \<Rightarrow> int \<Rightarrow> int option" where
  "DeviceMap_GetDevice dm r c =
     (if 0 \<le> r \<and> 0 \<le> c then
        (let i = nat r mod nrows dm; j = nat c mod ncols dm
         in if i < 16 \<and> j < 16 then Some (int (dev_map dm i j)) else None)
      else Some (-1))"

definition PolicyBlockCycle_GetDevices :: "nat \<Rightarrow> int \<Rightarrow> int \<Rightarrow> (devno \<Rightarrow> bool) \<Rightarrow> devno list option" where
  "PolicyBlockCycle_GetDevices n r c supp =
     do { dm \<leftarrow> DeviceMap_new n;
          id \<leftarrow> DeviceMap_GetDevice dm r c;
          Some (if 0 \<le> id then [nat id] else filter supp [0..<n]) }"

section \<open>The policies keep the contract\<close>

lemma first_supported_range: "0 < n \<Longrightarrow> first_supported n supp < n"
  by (auto simp: first_supported_def find_index_Some split: option.splits)

lemma first_supported_sup: "e < n \<Longrightarrow> supp e \<Longrightarrow> supp (first_supported n supp)"
  by (auto simp: first_supported_def find_index_Some find_index_None split: option.splits)

interpretation dflt: device_policy n "PolicyDefault_GetDevices n" for n
  by unfold_locales (auto simp: PolicyDefault_GetDevices_def first_supported_range first_supported_sup)

interpretation dev: device_policy "length types" "PolicyDevice_GetDevices types p" for types p
  by unfold_locales (auto simp: PolicyDevice_GetDevices_def)

interpretation ftf: device_policy n "PolicyFirstToFinish_GetDevices n" for n
  by unfold_locales (auto simp: PolicyFirstToFinish_GetDevices_def)

lemma PolicyRandom_in:
  assumes "filter supp [0..<n] \<noteq> []"
  shows "\<exists>d. PolicyRandom_GetDevices n r supp = [d] \<and> d < n \<and> supp d"
proof -
  let ?s = "filter supp [0..<n]"
  have "?s ! (r mod length ?s) \<in> set ?s" using assms by (intro nth_mem) simp
  with assms show ?thesis by (auto simp: PolicyRandom_GetDevices_def Let_def)
qed

interpretation rnd: device_policy n "PolicyRandom_GetDevices n r" for n r
proof
  fix d e and supp :: "devno \<Rightarrow> bool"
  show "0 < n \<Longrightarrow> d \<in> set (PolicyRandom_GetDevices n r supp) \<Longrightarrow> d < n"
    using PolicyRandom_in [of supp n r] by (cases "filter supp [0..<n] = []") (auto simp: PolicyRandom_GetDevices_def)
  show "distinct (PolicyRandom_GetDevices n r supp)" by (simp add: PolicyRandom_GetDevices_def Let_def)
  assume "e < n" "supp e"
  then have "filter supp [0..<n] \<noteq> []" by (auto simp: filter_empty_conv)
  with PolicyRandom_in [of supp n r] show "d \<in> set (PolicyRandom_GetDevices n r supp) \<Longrightarrow> supp d" by auto
qed

subsection \<open>Shortest queue\<close>

lemma sdq_scan_from:
  assumes "load min_dev = lo"
  shows "(sdq_scan supp load lo min_dev is = min_dev \<or>
      sdq_scan supp load lo min_dev is \<in> set is \<and> supp (sdq_scan supp load lo min_dev is)) \<and>
    (\<forall>e \<in> set is. supp e \<longrightarrow> load (sdq_scan supp load lo min_dev is) \<le> load e) \<and>
    load (sdq_scan supp load lo min_dev is) \<le> lo"
  using assms
proof (induction "is" arbitrary: lo min_dev)
  case (Cons i "is")
  show ?case
  proof (cases "supp i \<and> 0 < load i \<and> load i < lo")
    case True
    with Cons.IH [of i "load i"] show ?thesis by auto
  next
    case False
    with Cons.IH [OF Cons.prems] Cons.prems show ?thesis by fastforce
  qed
qed simp

lemma sdq_scan_least:
  assumes "e \<in> set is" "supp e" "\<forall>x \<in> set is. supp x \<longrightarrow> load x < lo"
  shows "sdq_scan supp load lo min_dev is \<in> set is \<and> supp (sdq_scan supp load lo min_dev is) \<and>
    (\<forall>x \<in> set is. supp x \<longrightarrow> load (sdq_scan supp load lo min_dev is) \<le> load x)"
  using assms
proof (induction "is")
  case (Cons i "is")
  show ?case
  proof (cases "supp i")
    case True
    with Cons.prems(3) sdq_scan_from [of load i "load i" supp "is"] show ?thesis by auto
  next
    case False
    with Cons show ?thesis by auto
  qed
qed simp

text \<open>Queue lengths fit an \<open>unsigned long\<close>, and no queue is that long.\<close>

lemma sdq_none: "\<forall>x \<in> set is. \<not> supp x \<Longrightarrow> sdq_scan supp load lo min_dev is = min_dev"
  by (induction "is") auto

lemma PolicyShortestDeviceQueue_least:
  assumes "e < n" "supp e" "\<forall>x < n. load x < ULONG_MAX"
  shows "\<exists>d. PolicyShortestDeviceQueue_GetDevices n load supp = [d] \<and> d < n \<and> supp d \<and>
    (\<forall>x < n. supp x \<longrightarrow> load d \<le> load x)"
  using sdq_scan_least [of e "[0..<n]" supp load ULONG_MAX 0] assms
  by (auto simp: PolicyShortestDeviceQueue_GetDevices_def)

interpretation sdq: device_policy n "PolicyShortestDeviceQueue_GetDevices n (\<lambda>d. load d mod ULONG_MAX)" for n load
proof
  fix d e and supp :: "devno \<Rightarrow> bool"
  let ?l = "\<lambda>d. load d mod ULONG_MAX"
  have l: "\<forall>x < n. ?l x < ULONG_MAX" by (simp add: ULONG_MAX_def)
  show "0 < n \<Longrightarrow> d \<in> set (PolicyShortestDeviceQueue_GetDevices n ?l supp) \<Longrightarrow> d < n"
    using PolicyShortestDeviceQueue_least [of _ n supp ?l] l sdq_none [of "[0..<n]" supp]
    by (cases "\<exists>x < n. supp x") (auto simp: PolicyShortestDeviceQueue_GetDevices_def)
  show "distinct (PolicyShortestDeviceQueue_GetDevices n ?l supp)"
    by (simp add: PolicyShortestDeviceQueue_GetDevices_def)
  assume "e < n" "supp e"
  from PolicyShortestDeviceQueue_least [of e n supp ?l] this l
  show "d \<in> set (PolicyShortestDeviceQueue_GetDevices n ?l supp) \<Longrightarrow> supp d" by auto
qed

subsection \<open>Round robin\<close>

lemma rr_next_less: "index < n \<Longrightarrow> rr_next n index < n"
  by (auto simp: rr_next_def)

lemma rr_next_mod: "index < n \<Longrightarrow> rr_next n index = Suc index mod n"
  by (auto simp: rr_next_def)

text \<open>The loop of \<open>k\<close> rounds stops at the first supported device from \<open>index\<close> on, going around.\<close>

lemma rr_loop_hit:
  assumes "j < k" "supp ((index + j) mod n)" "\<forall>i < j. \<not> supp ((index + i) mod n)" "index < n"
  shows "rr_loop n supp k index devs = ([(index + j) mod n], (index + Suc j) mod n)"
  using assms
proof (induction j arbitrary: k index devs)
  case 0
  then show ?case by (cases k) (auto simp: rr_next_mod)
next
  case (Suc j)
  obtain k' where k: "k = Suc k'" using Suc.prems(1) by (cases k) auto
  have ns: "\<not> supp index" using Suc.prems(3,4) by (auto dest: spec [of _ 0])
  have m: "(rr_next n index + i) mod n = (index + Suc i) mod n" for i
    using Suc.prems(4) by (simp add: rr_next_mod mod_simps)
  have "rr_loop n supp k' (rr_next n index) [index] =
      ([(rr_next n index + j) mod n], (rr_next n index + Suc j) mod n)"
    using Suc.prems k rr_next_less [OF Suc.prems(4)] by (intro Suc.IH) (auto simp: m)
  with ns k show ?case by (simp only: rr_loop.simps if_False m)
qed

lemma rr_loop_range:
  "index < n \<Longrightarrow> set devs \<subseteq> {..<n} \<Longrightarrow> length devs \<le> 1 \<Longrightarrow>
   set (fst (rr_loop n supp k index devs)) \<subseteq> {..<n} \<and> length (fst (rr_loop n supp k index devs)) \<le> 1 \<and>
   snd (rr_loop n supp k index devs) < n"
  by (induction k arbitrary: index devs) (auto simp: rr_next_less)

text \<open>A supported device is met within one round.\<close>

lemma rr_first:
  fixes n :: nat
  assumes "e < n" "supp e" "index < n"
  obtains j where "j < n" "supp ((index + j) mod n)" "\<forall>i < j. \<not> supp ((index + i) mod n)"
proof -
  let ?j = "(e + n - index) mod n"
  have "(index + ?j) mod n = (index + (e + n - index)) mod n" by (simp add: mod_simps)
  also have "\<dots> = e" using assms by simp
  finally have "?j < n \<and> supp ((index + ?j) mod n)" using assms by simp
  then have ex: "\<exists>j. j < n \<and> supp ((index + j) mod n)" by blast
  define j where "j = (LEAST j. j < n \<and> supp ((index + j) mod n))"
  have "j < n \<and> supp ((index + j) mod n)" unfolding j_def using ex by (rule LeastI_ex)
  moreover have "\<not> supp ((index + i) mod n)" if "i < j" for i
    using not_less_Least [OF that [unfolded j_def]] that calculation by auto
  ultimately show ?thesis using that by blast
qed

interpretation rr: device_policy n "\<lambda>supp. fst (PolicyRoundRobin_GetDevice n (i mod n) supp)" for n i
proof
  fix d e and supp :: "devno \<Rightarrow> bool"
  show "0 < n \<Longrightarrow> d \<in> set (fst (PolicyRoundRobin_GetDevice n (i mod n) supp)) \<Longrightarrow> d < n"
    using rr_loop_range [of "i mod n" n "[]" supp n] by (auto simp: PolicyRoundRobin_GetDevice_def)
  show "0 < n \<Longrightarrow> distinct (fst (PolicyRoundRobin_GetDevice n (i mod n) supp))"
    using rr_loop_range [of "i mod n" n "[]" supp n]
    by (auto simp: PolicyRoundRobin_GetDevice_def le_Suc_eq length_Suc_conv)
  assume e: "e < n" "supp e"
  have i: "i mod n < n" using e(1) by simp
  obtain j where j: "j < n" "supp ((i mod n + j) mod n)" "\<forall>k < j. \<not> supp ((i mod n + k) mod n)"
    by (rule rr_first [of e n supp "i mod n"]) (use e i in auto)
  from rr_loop_hit [of j n supp "i mod n" n "[]"] j i
  show "d \<in> set (fst (PolicyRoundRobin_GetDevice n (i mod n) supp)) \<Longrightarrow> supp d"
    by (simp add: PolicyRoundRobin_GetDevice_def)
qed

section \<open>What the policies achieve\<close>

text \<open>The shortest-queue policy sends the task to one device that supports it, and no device that
  supports it has fewer tasks; a device that runs nothing is therefore never passed over for a busy
  one.\<close>

theorem sdq_shortest:
  assumes "e < n" "supp e" "\<forall>x < n. load x < ULONG_MAX"
  shows "\<exists>d. PolicyShortestDeviceQueue_GetDevices n load supp = [d] \<and> d < n \<and> supp d \<and>
    (\<forall>x < n. supp x \<longrightarrow> load d \<le> load x)"
  using PolicyShortestDeviceQueue_least [of e n supp load] assms by blast

theorem sdq_shortest_witness:
  "PolicyShortestDeviceQueue_GetDevices 3 (\<lambda>d. 4 - d) (\<lambda>d. d \<noteq> 2) = [1]"
proof -
  have "\<forall>x < 3. 4 - x < ULONG_MAX" by (auto simp: ULONG_MAX_def)
  then obtain d where d: "PolicyShortestDeviceQueue_GetDevices 3 (\<lambda>d. 4 - d) (\<lambda>d. d \<noteq> 2) = [d]" "d < 3" "d \<noteq> 2"
    "\<forall>x < 3. x \<noteq> 2 \<longrightarrow> 4 - d \<le> 4 - x"
    using sdq_shortest [of 1 3 "\<lambda>d. d \<noteq> 2" "\<lambda>d. 4 - d"] by auto
  then have "4 - d \<le> 3" by (auto dest: spec [of _ 1])
  with d show ?thesis by simp
qed

text \<open>The devices of \<open>k\<close> calls of the round-robin policy in a row.\<close>

fun rr_run :: "nat \<Rightarrow> (devno \<Rightarrow> bool) \<Rightarrow> nat \<Rightarrow> nat \<Rightarrow> devno list" where
  "rr_run n supp 0 index = []"
| "rr_run n supp (Suc k) index =
     (let (devs, index) = PolicyRoundRobin_GetDevice n index supp in devs @ rr_run n supp k index)"

lemma rr_run_all:
  assumes "\<forall>d < n. supp d" "index < n"
  shows "rr_run n supp k index = map (\<lambda>j. (index + j) mod n) [0..<k]"
  using assms(2)
proof (induction k arbitrary: index)
  case (Suc k)
  have "PolicyRoundRobin_GetDevice n index supp = ([index], Suc index mod n)"
    using rr_loop_hit [of 0 n supp index n "[]"] assms(1) Suc.prems by (simp add: PolicyRoundRobin_GetDevice_def)
  moreover have "map (\<lambda>j. (index + j) mod n) [0..<Suc k] =
      index # map (\<lambda>j. (Suc index mod n + j) mod n) [0..<k]"
    using Suc.prems by (simp add: upt_conv_Cons map_Suc_upt [symmetric] mod_simps del: upt_Suc)
  ultimately show ?case using Suc by simp
qed simp

lemma map_mod_rotate:
  assumes "index < (n :: nat)"
  shows "set (map (\<lambda>j. (index + j) mod n) [0..<n]) = {..<n}"
proof -
  have "d \<in> (\<lambda>j. (index + j) mod n) ` {0..<n}" if "d < n" for d
  proof
    show "d = (index + (d + n - index) mod n) mod n" using that assms by (simp add: mod_simps)
  qed (use that in simp)
  then show ?thesis using assms by auto
qed

text \<open>Round robin is fair: when all devices support the kernel, any \<open>n\<close> consecutive tasks are spread
  over the \<open>n\<close> devices, each getting exactly one.\<close>

theorem roundrobin_fair:
  assumes "\<forall>d < n. supp d" "index < n"
  shows "set (rr_run n supp n index) = {..<n} \<and> distinct (rr_run n supp n index)"
proof -
  have s: "set (rr_run n supp n index) = {..<n}"
    unfolding rr_run_all [OF assms] by (rule map_mod_rotate [OF assms(2)])
  moreover have "length (rr_run n supp n index) = card {..<n}" by (simp add: rr_run_all [OF assms])
  ultimately show ?thesis by (metis card_distinct)
qed

theorem roundrobin_fair_witness: "set (rr_run 3 (\<lambda>_. True) 3 2) = {..<3}"
  using roundrobin_fair [of 3 "\<lambda>_. True" 2] by simp

subsection \<open>The block-cyclic map\<close>

lemma i_pos_eq: "0 < n \<Longrightarrow> i_pos n i = (i * ((n + 1) div 2)) mod n"
  by (induction i) (auto simp: mod_simps algebra_simps)

lemma mod_eq_nat_iff_dvd: "(a :: nat) mod n = b mod n \<longleftrightarrow> int n dvd int a - int b"
  by (metis mod_eq_dvd_iff of_nat_eq_iff zmod_int)

lemma dvd_small: "int n dvd int a - int b \<Longrightarrow> a < n \<Longrightarrow> b < n \<Longrightarrow> a = b"
  using mod_eq_nat_iff_dvd [of a n b] by simp

lemma dev_map_odd_row:
  assumes "dev_map_odd n i j = dev_map_odd n i j'" "j < n" "j' < n"
  shows "j = j'"
proof (rule dvd_small [OF _ assms(2,3)])
  from assms(1) have "int n dvd int ((n - i_pos n i) mod n + j) - int ((n - i_pos n i) mod n + j')"
    unfolding dev_map_odd_def mod_eq_nat_iff_dvd .
  then show "int n dvd int j - int j'" by simp
qed

lemma dev_map_odd_column:
  assumes "dev_map_odd n i j = dev_map_odd n i' j" "odd n" "i < n" "i' < n"
  shows "i = i'"
proof (rule dvd_small [OF _ assms(3,4)])
  let ?p = "i_pos n i" and ?p' = "i_pos n i'" and ?h = "(n + 1) div 2"
  have n: "0 < n" using assms(2) odd_pos by blast
  have le: "?p \<le> n" "?p' \<le> n" using n by (simp_all add: i_pos_eq less_imp_le)
  have "int n dvd int ((n - ?p) mod n) - int ((n - ?p') mod n)"
    using assms(1) unfolding dev_map_odd_def mod_eq_nat_iff_dvd by simp
  then have "(n - ?p) mod n = (n - ?p') mod n" by (simp add: mod_eq_nat_iff_dvd [symmetric])
  then have "int n dvd int (n - ?p) - int (n - ?p')" by (simp only: mod_eq_nat_iff_dvd)
  then have "int n dvd int ?p' - int ?p" using le by (simp add: of_nat_diff)
  then have "?p' mod n = ?p mod n" by (simp only: mod_eq_nat_iff_dvd)
  then have "(i' * ?h) mod n = (i * ?h) mod n" by (simp add: i_pos_eq [OF n])
  then have "int n dvd int (i' * ?h) - int (i * ?h)" by (simp only: mod_eq_nat_iff_dvd)
  then have "int n dvd 2 * (int (i' * ?h) - int (i * ?h))" by (rule dvd_mult)
  moreover have h: "2 * ?h = n + 1" using assms(2) by (auto elim!: oddE)
  have "2 * (int (i' * ?h) - int (i * ?h)) = (int i' - int i) * int (2 * ?h)" by (simp add: algebra_simps)
  moreover have "\<dots> = (int i' - int i) * int n + (int i' - int i)" unfolding h by (simp add: algebra_simps)
  ultimately have "int n dvd (int i' - int i) * int n + (int i' - int i)" by simp
  then have "int n dvd int i' - int i" by (simp add: dvd_add_right_iff)
  then show "int n dvd int i - int i'" by (simp add: dvd_diff_commute)
qed

text \<open>The block-cyclic policy on an odd number of devices (up to fifteen, nine apart) deals the blocks
  out like a Latin square: \<open>n\<close> neighbours in a row go to \<open>n\<close> different devices, and so do \<open>n\<close>
  neighbours in a column.\<close>

theorem block_cycle_latin:
  assumes "odd n" "1 < n" "n \<le> 16" "n \<noteq> 9" "0 \<le> r" "0 \<le> c"
  shows "\<exists>dm. DeviceMap_new n = Some dm \<and>
    (\<exists>d < n. DeviceMap_GetDevice dm r c = Some (int d)) \<and>
    inj_on (DeviceMap_GetDevice dm r) {0..<int n} \<and> inj_on (\<lambda>r. DeviceMap_GetDevice dm r c) {0..<int n}"
proof -
  let ?dm = "\<lparr>dev_map = (\<lambda>i j. if i < n \<and> j < n then dev_map_odd n i j else dev_map_base n i j), nrows = n, ncols = n\<rparr>"
  have m: "DeviceMap_new n = Some ?dm" using assms by (auto simp: DeviceMap_new_def Let_def)
  have n16: "n < 16" using assms(1,3) by (cases "n = 16") auto
  have g: "DeviceMap_GetDevice ?dm a b = Some (int (dev_map_odd n (nat a mod n) (nat b mod n)))"
    if "0 \<le> a" "0 \<le> b" for a b
    using that assms(2) n16 less_trans [OF mod_less_divisor n16, of "nat a"] less_trans [OF mod_less_divisor n16, of "nat b"]
    by (simp add: DeviceMap_GetDevice_def Let_def)
  have "inj_on (DeviceMap_GetDevice ?dm r) {0..<int n}"
  proof (rule inj_onI)
    fix a b assume ab: "a \<in> {0..<int n}" "b \<in> {0..<int n}" "DeviceMap_GetDevice ?dm r a = DeviceMap_GetDevice ?dm r b"
    then have "dev_map_odd n (nat r mod n) (nat a) = dev_map_odd n (nat r mod n) (nat b)"
      using g assms(5) by (simp add: nat_less_iff)
    from dev_map_odd_row [OF this] ab show "a = b" by (auto simp: nat_less_iff)
  qed
  moreover have "inj_on (\<lambda>r. DeviceMap_GetDevice ?dm r c) {0..<int n}"
  proof (rule inj_onI)
    fix a b assume ab: "a \<in> {0..<int n}" "b \<in> {0..<int n}" "DeviceMap_GetDevice ?dm a c = DeviceMap_GetDevice ?dm b c"
    then have "dev_map_odd n (nat a) (nat c mod n) = dev_map_odd n (nat b) (nat c mod n)"
      using g assms(6) by (simp add: nat_less_iff)
    from dev_map_odd_column [OF this assms(1)] ab show "a = b" by (auto simp: nat_less_iff)
  qed
  moreover have "dev_map_odd n (nat r mod n) (nat c mod n) < n" using assms(2) by (simp add: dev_map_odd_def)
  ultimately show ?thesis using m g [OF assms(5,6)] by blast
qed

theorem block_cycle_latin_witness:
  "\<exists>dm. DeviceMap_new 5 = Some dm \<and> inj_on (DeviceMap_GetDevice dm 7) {0..<5}"
  using block_cycle_latin [of 5 7 0] by auto

end
