(* ===== verification/Iris_Queue.thy ===== *)
theory Iris_Queue
  imports Iris_Task "HOL-Library.Multiset"
begin

text \<open>
  The two queues of tasks: \<^verbatim>\<open>QueueTask.cpp\<close>, the platform's queue that the scheduler drains, and
  \<^verbatim>\<open>QueueReady.cpp\<close>, the queue of a worker. Queues hold pointers to tasks, here their ids. Each operation
  runs under the queue's mutex and is one step. The interface both offer is the locale
  \<open>task_queue\<close>: nothing is lost and nothing is invented; what sets them apart is the order in which
  tasks come out.
\<close>

section \<open>The contract\<close>

text \<open>A queue with its content; \<open>deq\<close> has no result when it follows a dangling pointer, returns
  \<open>None\<close> when it finds no task, and a task otherwise.\<close>

locale task_queue =
  fixes content :: "'q \<Rightarrow> uid multiset"
    and enq :: "uid \<Rightarrow> 'q \<Rightarrow> 'q"
    and deq :: "'q \<Rightarrow> (uid option \<times> 'q) option"
  assumes content_enq: "content (enq u q) = add_mset u (content q)"
    and content_deq: "deq q = Some (Some u, q') \<Longrightarrow> content q = add_mset u (content q')"
    and deq_none: "deq q = Some (None, q') \<Longrightarrow> q' = q"
begin

lemma deq_subset: "deq q = Some (r, q') \<Longrightarrow> content q' \<subseteq># content q"
  by (cases r) (auto dest: content_deq deq_none)

text \<open>Draining: dequeue until nothing comes, at most \<open>n\<close> times.\<close>

primrec drain :: "nat \<Rightarrow> 'q \<Rightarrow> (uid list \<times> 'q) option" where
  "drain 0 q = Some ([], q)"
| "drain (Suc n) q =
     (case deq q of
        None \<Rightarrow> None
      | Some (None, q') \<Rightarrow> Some ([], q')
      | Some (Some u, q') \<Rightarrow> map_option (\<lambda>(us, q). (u # us, q)) (drain n q'))"

lemma drain_content: "drain n q = Some (us, q') \<Longrightarrow> content q = mset us + content q'"
proof (induction n arbitrary: q us)
  case (Suc n)
  then show ?case
    by (auto split: option.splits prod.splits dest: content_deq deq_none)
qed simp

text \<open>As many rounds as the queue has tasks are enough.\<close>

lemma drain_enough:
  assumes "drain (size (content q)) q = Some (us, q')" "deq q' = Some (Some u, q'')"
  shows "False"
proof -
  have "drain n q = Some (us, q') \<Longrightarrow> deq q' = Some (Some u, q'') \<Longrightarrow> length us = n" for n
  proof (induction n arbitrary: q us)
    case (Suc n)
    then show ?case
      by (auto split: option.splits prod.splits) (use deq_none in fastforce)+
  qed simp
  from this [OF assms] drain_content [OF assms(1)] content_deq [OF assms(2)]
  show False by (metis add_eq_self_zero empty_not_add_mset size_eq_0_iff_empty size_mset size_union)
qed

end

section \<open>The scheduler's queue\<close>

type_synonym QueueTask = "uid list"

definition QueueTask_Enqueue :: "uid \<Rightarrow> QueueTask \<Rightarrow> QueueTask" where
  "QueueTask_Enqueue u q = q @ [u]"

text \<open>The loop of \<open>Dequeue\<close>: \<open>passed\<close> are the tasks already passed.\<close>

fun QueueTask_scan :: "tasks \<Rightarrow> uid list \<Rightarrow> uid list \<Rightarrow> (uid option \<times> QueueTask) option" where
  "QueueTask_scan h passed [] = Some (None, passed)"
| "QueueTask_scan h passed (u # us) =
     (case GetObject h u of
        None \<Rightarrow> None
      | Some t \<Rightarrow>
          if \<not> Dispatchable h t then QueueTask_scan h (passed @ [u]) us
          else if marker t \<and> passed \<noteq> [] then QueueTask_scan h (passed @ [u]) us
          else Some (Some u, passed @ us))"

definition QueueTask_Dequeue :: "tasks \<Rightarrow> QueueTask \<Rightarrow> (uid option \<times> QueueTask) option" where
  "QueueTask_Dequeue h q = QueueTask_scan h [] q"

text \<open>The loop of \<open>Peek\<close>: \<open>continue\<close> skips the increment of the position.\<close>

fun QueueTask_peek_scan :: "tasks \<Rightarrow> nat \<Rightarrow> nat \<Rightarrow> bool \<Rightarrow> uid list \<Rightarrow> uid option option" where
  "QueueTask_peek_scan h i target first [] = Some None"
| "QueueTask_peek_scan h i target first (u # us) =
     (if i = target then
        (case GetObject h u of
           None \<Rightarrow> None
         | Some t \<Rightarrow>
             if \<not> Dispatchable h t then QueueTask_peek_scan h i target False us
             else if marker t \<and> \<not> first then QueueTask_peek_scan h i target False us
             else Some (Some u))
      else QueueTask_peek_scan h (Suc i) target False us)"

definition QueueTask_Peek :: "tasks \<Rightarrow> nat \<Rightarrow> QueueTask \<Rightarrow> uid option option" where
  "QueueTask_Peek h target q = QueueTask_peek_scan h 0 target True q"

definition QueueTask_Size :: "QueueTask \<Rightarrow> nat" where "QueueTask_Size q = length q"
definition QueueTask_Empty :: "QueueTask \<Rightarrow> bool" where "QueueTask_Empty q \<longleftrightarrow> q = []"

lemma QueueTask_scan_content:
  "QueueTask_scan h passed us = Some (r, q') \<Longrightarrow>
     (case r of None \<Rightarrow> q' = passed @ us | Some u \<Rightarrow> mset (passed @ us) = add_mset u (mset q'))"
  by (induction h passed us rule: QueueTask_scan.induct) (auto split: option.splits if_splits)

interpretation qt: task_queue mset QueueTask_Enqueue "QueueTask_Dequeue h" for h
proof
  show "mset (QueueTask_Enqueue u q) = add_mset u (mset q)" for u q
    by (simp add: QueueTask_Enqueue_def)
  show "QueueTask_Dequeue h q = Some (Some u, q') \<Longrightarrow> mset q = add_mset u (mset q')" for q u q'
    using QueueTask_scan_content [of h "[]" q "Some u" q'] by (simp add: QueueTask_Dequeue_def)
  show "QueueTask_Dequeue h q = Some (None, q') \<Longrightarrow> q' = q" for q q'
    using QueueTask_scan_content [of h "[]" q None q'] by (simp add: QueueTask_Dequeue_def)
qed

text \<open>A task the scheduler may take now: dispatchable, and not a marker unless it is at the head.\<close>

definition takeable :: "tasks \<Rightarrow> bool \<Rightarrow> uid \<Rightarrow> bool" where
  "takeable h head u = (case GetObject h u of None \<Rightarrow> False | Some t \<Rightarrow> Dispatchable h t \<and> (marker t \<longrightarrow> head))"

lemma QueueTask_scan_first:
  assumes "\<forall>u \<in> set us. GetObject h u \<noteq> None"
  shows "QueueTask_scan h passed us =
    (case find_index (\<lambda>i. takeable h (passed = [] \<and> i = 0) (us ! i)) [0..<length us] of
       None \<Rightarrow> Some (None, passed @ us)
     | Some i \<Rightarrow> Some (Some (us ! i), passed @ take i us @ drop (Suc i) us))"
  using assms
proof (induction us arbitrary: passed)
  case (Cons u us)
  obtain t where t: "GetObject h u = Some t" using Cons.prems by auto
  have shift: "find_index P [1..<length (u # us)] = find_index (\<lambda>i. P (Suc i)) [0..<length us]" for P
  proof -
    have "[1..<length (u # us)] = map Suc [0..<length us]" by (simp add: map_Suc_upt)
    moreover have "find_index P (map Suc xs) = find_index (\<lambda>i. P (Suc i)) xs" for xs by (induction xs) auto
    ultimately show ?thesis by metis
  qed
  have up: "[0..<length (u # us)] = 0 # [1..<length (u # us)]" by (simp add: upt_rec)
  have take0: "takeable h (passed = []) u \<longleftrightarrow> Dispatchable h t \<and> \<not> (marker t \<and> passed \<noteq> [])"
    by (auto simp: takeable_def t)
  show ?case
  proof (cases "takeable h (passed = []) u")
    case True
    with take0 have "QueueTask_scan h passed (u # us) = Some (Some u, passed @ us)" by (auto simp: t)
    with True show ?thesis by (subst up) simp
  next
    case False
    then have "QueueTask_scan h passed (u # us) = QueueTask_scan h (passed @ [u]) us"
      using take0 by (simp add: t)
    also note Cons.IH [of "passed @ [u]"]
    finally show ?thesis using Cons.prems False
      by (subst up) (simp add: shift [simplified] split: option.splits)
  qed
qed simp

lemma QueueTask_Dequeue_first:
  assumes "\<forall>u \<in> set q. GetObject h u \<noteq> None"
  shows "QueueTask_Dequeue h q =
    (case find_index (\<lambda>i. takeable h (i = 0) (q ! i)) [0..<length q] of
       None \<Rightarrow> Some (None, q)
     | Some i \<Rightarrow> Some (Some (q ! i), take i q @ drop (Suc i) q))"
  unfolding QueueTask_Dequeue_def QueueTask_scan_first [OF assms, of "[]"]
  by (simp split: option.splits)

text \<open>C40. The scheduler's queue hands out, of the tasks it holds, the first one whose dependencies are
  satisfied (a marker only at the head of the queue), keeps the others in their order, and hands out
  nothing exactly when no task can go. The queue never holds back a task that can run.\<close>

theorem QueueTask_Dequeue_spec:
  assumes "\<forall>u \<in> set q. GetObject h u \<noteq> None"
  shows "(\<exists>i < length q. takeable h (i = 0) (q ! i) \<and> (\<forall>j < i. \<not> takeable h (j = 0) (q ! j)) \<and>
       QueueTask_Dequeue h q = Some (Some (q ! i), take i q @ drop (Suc i) q)) \<or>
    (\<forall>i < length q. \<not> takeable h (i = 0) (q ! i)) \<and> QueueTask_Dequeue h q = Some (None, q)"
proof (cases "find_index (\<lambda>i. takeable h (i = 0) (q ! i)) [0..<length q]")
  case None
  with QueueTask_Dequeue_first [OF assms] have "QueueTask_Dequeue h q = Some (None, q)" by simp
  with None show ?thesis by (auto simp: find_index_None)
next
  case (Some i)
  then have "i < length q" "takeable h (i = 0) (q ! i)" "\<forall>j < i. \<not> takeable h (j = 0) (q ! j)"
    by (auto simp: find_index_Some)
  with Some QueueTask_Dequeue_first [OF assms] show ?thesis by auto
qed

text \<open>A queue with a pending task in front of one that can go.\<close>

theorem QueueTask_Dequeue_spec_witness:
  "let pf = \<lparr>release_task_flag = True, platform_async = False, enable_proactive = False\<rparr>;
       a = set_status IRIS_PENDING (Task_new pf 2 IRIS_TASK None []);
       h = TrackObject (TrackObject ObjectTrack_new a 2) (Task_new pf 3 IRIS_TASK None []) 3
   in QueueTask_Dequeue h [2, 3] = Some (Some 3, [2])"
proof -
  let ?pf = "\<lparr>release_task_flag = True, platform_async = False, enable_proactive = False\<rparr>"
  let ?a = "set_status IRIS_PENDING (Task_new ?pf 2 IRIS_TASK None [])"
  let ?h = "TrackObject (TrackObject ObjectTrack_new ?a 2) (Task_new ?pf 3 IRIS_TASK None []) 3"
  have g: "GetObject ?h 2 = Some ?a" "GetObject ?h 3 = Some (Task_new ?pf 3 IRIS_TASK None [])"
    by (simp_all add: iris_simps)
  have s: "\<not> takeable ?h b 2" "takeable ?h b 3" for b
    by (simp_all add: takeable_def g Dispatchable_def marker_def)
      (simp_all add: IRIS_TASK_def IRIS_MARKER_def IRIS_NONE_def IRIS_PENDING_def)
  have alive: "\<forall>u \<in> set [2, 3]. GetObject ?h u \<noteq> None" using g by simp
  from QueueTask_Dequeue_spec [OF alive] s
  show ?thesis unfolding Let_def by (auto simp: less_Suc_eq numeral_2_eq_2)
qed

section \<open>The queue of a worker\<close>

record QueueReady =
  pqueue :: "uid list"
  queue :: "uid list"
  mqueue :: "uid list"

definition QueueReady_new :: QueueReady where "QueueReady_new = \<lparr>pqueue = [], queue = [], mqueue = []\<rparr>"

text \<open>\<open>Enqueue\<close> looks at the task: markers go to \<open>mqueue\<close>, pure transfers to \<open>pqueue\<close>.\<close>

definition QueueReady_Enqueue :: "Task \<Rightarrow> uid \<Rightarrow> QueueReady \<Rightarrow> QueueReady" where
  "QueueReady_Enqueue t u q =
     (if marker t then q\<lparr>mqueue := mqueue q @ [u]\<rparr>
      else if ncmds_memcpy t = t_ncmds t then q\<lparr>pqueue := pqueue q @ [u]\<rparr>
      else q\<lparr>queue := queue q @ [u]\<rparr>)"

text \<open>\<open>Dequeue(task, device)\<close>: a marker only goes out when the device has no active task.\<close>

definition QueueReady_Dequeue :: "bool \<Rightarrow> QueueReady \<Rightarrow> uid option \<times> QueueReady" where
  "QueueReady_Dequeue is_free q =
     (case pqueue q of
        u # us \<Rightarrow> (Some u, q\<lparr>pqueue := us\<rparr>)
      | [] \<Rightarrow>
          (case queue q of
             u # us \<Rightarrow> (Some u, q\<lparr>queue := us\<rparr>)
           | [] \<Rightarrow>
               (case mqueue q of
                  u # us \<Rightarrow> if is_free then (Some u, q\<lparr>mqueue := us\<rparr>) else (None, q)
                | [] \<Rightarrow> (None, q))))"

text \<open>\<open>Peek\<close> compares with \<open><=\<close>: the position one behind the priority queue is read from it.\<close>

definition QueueReady_Peek :: "nat \<Rightarrow> QueueReady \<Rightarrow> uid option" where
  "QueueReady_Peek target q =
     (if target \<le> length (pqueue q) then cell (pqueue q) target
      else cell (queue q) (target - length (pqueue q)))"

definition QueueReady_Size :: "QueueReady \<Rightarrow> nat" where
  "QueueReady_Size q = length (pqueue q) + length (queue q)"

definition QueueReady_Empty :: "QueueReady \<Rightarrow> bool" where
  "QueueReady_Empty q \<longleftrightarrow> pqueue q = [] \<and> queue q = []"

definition QueueReady_content :: "QueueReady \<Rightarrow> uid multiset" where
  "QueueReady_content q = mset (pqueue q) + mset (queue q) + mset (mqueue q)"

interpretation qr: task_queue QueueReady_content "\<lambda>u. QueueReady_Enqueue (f u) u" "\<lambda>q. Some (QueueReady_Dequeue b q)" for f b
  by unfold_locales
    (auto simp: QueueReady_content_def QueueReady_Enqueue_def QueueReady_Dequeue_def
      split: list.splits if_splits)

text \<open>A worker serves transfers before kernels and kernels before markers, each kind in the order
  of arrival; a marker goes out only when no other task waits and the device is free, so everything
  that was enqueued before it has been started. The queue is stuck only when it holds nothing but
  markers and the device is busy.\<close>

theorem QueueReady_order:
  "QueueReady_Dequeue free q =
     (if pqueue q \<noteq> [] then (Some (hd (pqueue q)), q\<lparr>pqueue := tl (pqueue q)\<rparr>)
      else if queue q \<noteq> [] then (Some (hd (queue q)), q\<lparr>queue := tl (queue q)\<rparr>)
      else if mqueue q \<noteq> [] \<and> free then (Some (hd (mqueue q)), q\<lparr>mqueue := tl (mqueue q)\<rparr>)
      else (None, q)) \<and>
   (fst (QueueReady_Dequeue free q) = None \<longleftrightarrow> QueueReady_Empty q \<and> \<not> (free \<and> QueueReady_content q \<noteq> {#}))"
  by (auto simp: QueueReady_Dequeue_def QueueReady_Empty_def QueueReady_content_def
      split: list.splits if_splits)

end
