(* ===== verification/Iris_Scheduler.thy ===== *)
theory Iris_Scheduler
  imports Iris_Policy Iris_Queue
begin

text \<open>
  The scheduler and the workers: \<^verbatim>\<open>Scheduler.cpp\<close>, \<^verbatim>\<open>Worker.cpp\<close>, \<^verbatim>\<open>Thread.cpp\<close>, the entry points of
  \<^verbatim>\<open>Platform.cpp\<close> that create, link, submit and await tasks, and the frame of \<open>Device::Execute\<close>
  around the commands of a task. A thread sleeps on its semaphore; \<open>Invoke\<close> posts it. The platform
  runs without a hub (\<open>hub_available_\<close> is false), the build's default. The effect of the commands on
  memory is not part of this theory.
\<close>

section \<open>State\<close>

record rt =
  r_flags :: PlatformFlags
  r_uid :: uid
  r_tasks :: tasks
  r_queue :: QueueTask
  r_types :: "int list"
  r_ready :: "devno \<Rightarrow> QueueReady"
  r_busy :: "devno \<Rightarrow> uid option"
  r_active :: "devno \<Rightarrow> int"
  r_sem_sched :: nat
  r_sem_worker :: "devno \<Rightarrow> nat"
  r_nfailures :: nat
  r_device_default :: nat
  r_rr_index :: nat
  r_customs :: "string \<Rightarrow> bool"

definition ndevs :: "'a rt_scheme \<Rightarrow> nat" where "ndevs r = length (r_types r)"

text \<open>What the scheduler consults outside the tasks and the queues: whether a device supports a
  kernel, the value of \<open>rand()\<close>, the history of a kernel, memory objects and their owners, the
  affinity of a memory object, whether a device works asynchronously, and the custom policies, which see
  the types of the devices, their support for the task, the task and the queue lengths.\<close>

record sched_env =
  e_supported :: "devno \<Rightarrow> uid \<Rightarrow> bool"
  e_rand :: nat
  e_history :: "uid \<Rightarrow> History"
  e_mem_of :: "uid \<Rightarrow> BaseMemRef"
  e_owner :: "uid \<Rightarrow> devno option"
  e_affinity :: "uid \<Rightarrow> int"
  e_dev_async :: "devno \<Rightarrow> bool"
  e_julia :: "Task \<Rightarrow> devno list option"
  e_custom :: "string \<Rightarrow> int list \<Rightarrow> (devno \<Rightarrow> bool) \<Rightarrow> Task \<Rightarrow> (devno \<Rightarrow> nat) \<Rightarrow> devno list option"

section \<open>Threads\<close>

definition Invoke :: "thread_id \<Rightarrow> 'a rt_scheme \<Rightarrow> 'a rt_scheme" where
  "Invoke th r =
     (case th of
        SchedulerThread \<Rightarrow> r\<lparr>r_sem_sched := r_sem_sched r + 1\<rparr>
      | WorkerThread d \<Rightarrow> r\<lparr>r_sem_worker := (r_sem_worker r)(d := r_sem_worker r d + 1)\<rparr>)"

definition Invokes :: "thread_id list \<Rightarrow> 'a rt_scheme \<Rightarrow> 'a rt_scheme" where
  "Invokes ths r = fold Invoke ths r"

text \<open>\<open>Sleep\<close> returns when the semaphore is positive and takes one post.\<close>

definition Sleep_returns :: "thread_id \<Rightarrow> 'a rt_scheme \<Rightarrow> 'a rt_scheme option" where
  "Sleep_returns th r =
     (case th of
        SchedulerThread \<Rightarrow>
          if 0 < r_sem_sched r then Some (r\<lparr>r_sem_sched := r_sem_sched r - 1\<rparr>) else None
      | WorkerThread d \<Rightarrow>
          if 0 < r_sem_worker r d
          then Some (r\<lparr>r_sem_worker := (r_sem_worker r)(d := r_sem_worker r d - 1)\<rparr>) else None)"

section \<open>Workers\<close>

definition Worker_ntasks :: "'a rt_scheme \<Rightarrow> devno \<Rightarrow> nat" where
  "Worker_ntasks r d = QueueReady_Size (r_ready r d) + (if r_busy r d \<noteq> None then 1 else 0)"

definition IsFree :: "'a rt_scheme \<Rightarrow> devno \<Rightarrow> bool" where "IsFree r d \<longleftrightarrow> r_active r d = 0"

text \<open>\<open>Complete\<close> with the wake-ups it causes.\<close>

definition rt_Complete :: "uid \<Rightarrow> 'a rt_scheme \<Rightarrow> 'a rt_scheme option" where
  "rt_Complete u r =
     do { (h, wakes) \<leftarrow> Complete (r_flags r) u (r_tasks r);
          Some (Invokes wakes (r\<lparr>r_tasks := h\<rparr>)) }"

definition rt_at :: "uid \<Rightarrow> (Task \<Rightarrow> Task) \<Rightarrow> 'a rt_scheme \<Rightarrow> 'a rt_scheme option" where
  "rt_at u f r = map_option (\<lambda>h. r\<lparr>r_tasks := h\<rparr>) (at_object u f (r_tasks r))"

definition rt_try :: "uid \<Rightarrow> (Task \<Rightarrow> Task option) \<Rightarrow> 'a rt_scheme \<Rightarrow> 'a rt_scheme option" where
  "rt_try u f r =
     do { t \<leftarrow> GetObject (r_tasks r) u; t \<leftarrow> f t; Some (r\<lparr>r_tasks := TrackObject (r_tasks r) t u\<rparr>) }"

definition rt_Release :: "uid \<Rightarrow> 'a rt_scheme \<Rightarrow> 'a rt_scheme option" where
  "rt_Release u r = map_option (\<lambda>(h, _). r\<lparr>r_tasks := h\<rparr>) (Release u (r_tasks r))"

text \<open>\<open>Worker::Execute\<close> up to the commands: the flag says whether the device is now executing the
  task. A task that is not executable any more is dropped; a marker completes at once.\<close>

definition Worker_Execute_begin :: "devno \<Rightarrow> uid \<Rightarrow> 'a rt_scheme \<Rightarrow> ('a rt_scheme \<times> bool) option" where
  "Worker_Execute_begin d u r =
     do { t \<leftarrow> GetObject (r_tasks r) u;
          if \<not> snd (Executable t) then do { r \<leftarrow> rt_Release u r; Some (r, False) }
          else
            do { r \<leftarrow> rt_at u (\<lambda>t. ChangeToProcessMode (fst (Executable t))) r;
                 r \<leftarrow> rt_Release u r;
                 r \<leftarrow> rt_at u (\<lambda>t. t\<lparr>t_dev := Some d\<rparr>) r;
                 if marker t then do { r \<leftarrow> rt_Complete u r; Some (r, False) }
                 else
                   do { r \<leftarrow> rt_at u (\<lambda>t. set_devno (int d) (Retain t)) r;
                        Some (r\<lparr>r_busy := (r_busy r)(d := Some u), r_active := (r_active r)(d := r_active r d + 1)\<rparr>, True) } } }"

text \<open>The end of \<open>Device::Execute\<close> and of \<open>Worker::Execute\<close>: an asynchronous user task completes later,
  in the callback of its stream.\<close>

definition Worker_Execute_end :: "sched_env \<Rightarrow> devno \<Rightarrow> uid \<Rightarrow> 'a rt_scheme \<Rightarrow> 'a rt_scheme option" where
  "Worker_Execute_end e d u r =
     do { r \<leftarrow> rt_at u (set_status IRIS_SUBMITTED) r;
          t \<leftarrow> GetObject (r_tasks r) u;
          r \<leftarrow> (if e_dev_async e d \<and> t_async t \<and> t_user t then Some r
                else rt_Complete u (r\<lparr>r_active := (r_active r)(d := r_active r d - 1)\<rparr>));
          r \<leftarrow> rt_Release u r;
          Some (r\<lparr>r_busy := (r_busy r)(d := None)\<rparr>) }"

text \<open>The callback of an asynchronous task, \<open>Device::Callback\<close>.\<close>

definition Device_Callback :: "uid \<Rightarrow> 'a rt_scheme \<Rightarrow> 'a rt_scheme option" where
  "Device_Callback u r =
     do { t \<leftarrow> GetObject (r_tasks r) u;
          d \<leftarrow> t_dev t;
          rt_Complete u (r\<lparr>r_active := (r_active r)(d := r_active r d - 1)\<rparr>) }"

text \<open>\<open>Worker::Enqueue\<close>; an internal transfer is executed at once, on the caller's thread.\<close>

definition Worker_Enqueue :: "sched_env \<Rightarrow> devno \<Rightarrow> uid \<Rightarrow> 'a rt_scheme \<Rightarrow> 'a rt_scheme option" where
  "Worker_Enqueue e d u r =
     do { t \<leftarrow> GetObject (r_tasks r) u;
          if t_internal_memory_transfer t then
            do { (r, started) \<leftarrow> Worker_Execute_begin d u r;
                 if started then Worker_Execute_end e d u r else Some r }
          else Some (Invoke (WorkerThread d)
                 (r\<lparr>r_ready := (r_ready r)(d := QueueReady_Enqueue t u (r_ready r d))\<rparr>)) }"

section \<open>The scheduler\<close>

definition task_supported :: "sched_env \<Rightarrow> Task \<Rightarrow> devno \<Rightarrow> bool" where
  "task_supported e t d = task_IsKernelSupported (e_supported e) d t"

definition task_kernel :: "Task \<Rightarrow> uid option" where
  "task_kernel t = (case t_cmd_kernel t of None \<Rightarrow> None | Some i \<Rightarrow> cmd_kernel (t_cmds t ! i))"

text \<open>\<open>RefreshNTasksOnDevs\<close> and \<open>NTasksOnDev\<close> without a hub.\<close>

definition NTasksOnDev :: "'a rt_scheme \<Rightarrow> devno \<Rightarrow> nat" where "NTasksOnDev r d = Worker_ntasks r d"

definition sdq_load :: "'a rt_scheme \<Rightarrow> devno \<Rightarrow> nat" where
  "sdq_load r d = NTasksOnDev r d + (if platform_async (r_flags r) then nat (r_active r d) else 0)"

text \<open>The call \<open>policy->GetDevices(task, devs, &ndevs)\<close>: the chosen devices and the round-robin index.\<close>

definition Policy_GetDevices :: "sched_env \<Rightarrow> 'a rt_scheme \<Rightarrow> policy \<Rightarrow> Task \<Rightarrow> (devno list \<times> nat) option" where
  "Policy_GetDevices e r p t =
     (let n = ndevs r; supp = task_supported e t; keep = map_option (\<lambda>ds. (ds, r_rr_index r)) in
      case p of
        P_roundrobin \<Rightarrow> Some (PolicyRoundRobin_GetDevices (r_types r) (t_brs_policy t) (r_rr_index r) supp)
      | P_julia \<Rightarrow> keep (e_julia e t)
      | P_device \<Rightarrow> keep (Some (PolicyDevice_GetDevices (r_types r) (t_brs_policy t) supp))
      | P_block_cycle \<Rightarrow>
          keep (PolicyBlockCycle_GetDevices n (t_meta_block t ! 0) (t_meta_block t ! 1) supp)
      | P_ftf \<Rightarrow> keep (Some (PolicyFirstToFinish_GetDevices n supp))
      | P_data \<Rightarrow> keep (PolicyData_GetDevices n (e_mem_of e) (e_owner e) (t_cmds t))
      | P_depend \<Rightarrow>
          keep (PolicyDepend_GetDevices n (map (\<lambda>d. map_option t_dev (GetObject (r_tasks r) d)) (depend_uids t)) supp)
      | P_default \<Rightarrow> keep (Some (PolicyDefault_GetDevices n supp))
      | P_sdq \<Rightarrow> keep (Some (PolicyShortestDeviceQueue_GetDevices n (sdq_load r) supp))
      | P_profile \<Rightarrow> keep (PolicyProfile_GetDevices n (map_option (e_history e) (task_kernel t)) supp)
      | P_random \<Rightarrow> keep (Some (PolicyRandom_GetDevices n (e_rand e) supp))
      | P_custom name \<Rightarrow> keep (e_custom e name (r_types r) supp t (NTasksOnDev r)))"

text \<open>The choice of devices in \<open>SubmitTask\<close>: the affinity of a flush, a policy below
  \<open>IRIS_MAX_NDEVS\<close> taken as a device number, or the policy's answer.\<close>

definition SubmitTask_devs :: "sched_env \<Rightarrow> 'a rt_scheme \<Rightarrow> Task \<Rightarrow> (devno list \<times> nat) option" where
  "SubmitTask_devs e r t =
     (let p = t_brs_policy t; aff = get_device_affinity (e_affinity e) t; n = int (ndevs r) in
      if aff < 0 then
        (if p < IRIS_MAX_NDEVS then
           (if n \<le> p then Some ([], r_rr_index r)
            else if p < 0 then None
            else Some ([nat p], r_rr_index r))
         else Policy_GetDevices e r (GetPolicy (r_customs r) p (t_opt t)) t)
      else if aff < n then Some ([nat aff], r_rr_index r) else None)"

definition SubmitTaskDirect :: "sched_env \<Rightarrow> uid \<Rightarrow> devno \<Rightarrow> 'a rt_scheme \<Rightarrow> 'a rt_scheme option" where
  "SubmitTaskDirect e u d r = do { r \<leftarrow> rt_at u Retain r; Worker_Enqueue e d u r }"

fun Enqueue_all :: "sched_env \<Rightarrow> uid \<Rightarrow> devno list \<Rightarrow> 'a rt_scheme \<Rightarrow> 'a rt_scheme option" where
  "Enqueue_all e u [] r = Some r"
| "Enqueue_all e u (d # ds) r = do { r \<leftarrow> Worker_Enqueue e d u r; Enqueue_all e u ds r }"

definition SubmitTask :: "sched_env \<Rightarrow> uid \<Rightarrow> 'a rt_scheme \<Rightarrow> 'a rt_scheme option" where
  "SubmitTask e u r =
     do { t \<leftarrow> GetObject (r_tasks r) u;
          (devs, rr) \<leftarrow> SubmitTask_devs e r t;
          r \<leftarrow> Some (r\<lparr>r_rr_index := rr\<rparr>);
          r \<leftarrow> (if length devs = 1 then rt_at u (\<lambda>t. t\<lparr>t_recommended_dev := int (devs ! 0)\<rparr>) r else Some r);
          devs \<leftarrow> Some (if devs = [] then [r_device_default r] else devs);
          r \<leftarrow> (if Dispatchable (r_tasks r) t then Some r
                else map_option (\<lambda>h. r\<lparr>r_tasks := h\<rparr>) (DispatchDependencies u (r_tasks r)));
          r \<leftarrow> rt_at u (\<lambda>t. (Retain ^^ length devs) t) r;
          Enqueue_all e u devs r }"

fun SubmitTasks :: "sched_env \<Rightarrow> uid list \<Rightarrow> 'a rt_scheme \<Rightarrow> 'a rt_scheme option" where
  "SubmitTasks e [] r = Some r"
| "SubmitTasks e (u # us) r = do { r \<leftarrow> SubmitTask e u r; SubmitTasks e us r }"

text \<open>The subtasks of a marker go to the workers of their devices.\<close>

fun Enqueue_markers :: "sched_env \<Rightarrow> uid list \<Rightarrow> 'a rt_scheme \<Rightarrow> 'a rt_scheme option" where
  "Enqueue_markers e [] r = Some r"
| "Enqueue_markers e (u # us) r =
     do { t \<leftarrow> GetObject (r_tasks r) u;
          r \<leftarrow> rt_at u Retain r;
          if 0 \<le> devno t \<and> devno t < int (ndevs r) then
            do { r \<leftarrow> Worker_Enqueue e (nat (devno t)) u r; Enqueue_markers e us r }
          else None }"

definition Scheduler_Submit :: "sched_env \<Rightarrow> uid \<Rightarrow> 'a rt_scheme \<Rightarrow> 'a rt_scheme option" where
  "Scheduler_Submit e u r =
     do { t \<leftarrow> GetObject (r_tasks r) u;
          if ndevs r = 0 then
            rt_Complete u (if marker t then r else r\<lparr>r_nfailures := r_nfailures r + 1\<rparr>)
          else if marker t then Enqueue_markers e (t_subtasks t) r
          else if \<not> HasSubtasks t then SubmitTask e u r
          else SubmitTasks e (t_subtasks t) r }"

definition Scheduler_Enqueue :: "uid \<Rightarrow> 'a rt_scheme \<Rightarrow> 'a rt_scheme" where
  "Scheduler_Enqueue u r = Invoke SchedulerThread (r\<lparr>r_queue := QueueTask_Enqueue u (r_queue r)\<rparr>)"

text \<open>One round of the loop of \<open>Scheduler::Run\<close>: dequeue and submit. The flag says whether there was a
  task.\<close>

definition Scheduler_Run_step :: "sched_env \<Rightarrow> 'a rt_scheme \<Rightarrow> ('a rt_scheme \<times> bool) option" where
  "Scheduler_Run_step e r =
     do { (task, q) \<leftarrow> QueueTask_Dequeue (r_tasks r) (r_queue r);
          case task of
            None \<Rightarrow> Some (r, False)
          | Some u \<Rightarrow> map_option (\<lambda>r. (r, True)) (Scheduler_Submit e u (r\<lparr>r_queue := q\<rparr>)) }"

text \<open>One round of the loop of \<open>Worker::Run\<close>.\<close>

definition Worker_Run_step :: "devno \<Rightarrow> 'a rt_scheme \<Rightarrow> ('a rt_scheme \<times> bool) option" where
  "Worker_Run_step d r =
     (let (task, q) = QueueReady_Dequeue (IsFree r d) (r_ready r d) in
      case task of
        None \<Rightarrow> Some (r, False)
      | Some u \<Rightarrow>
          do { (r, _) \<leftarrow> Worker_Execute_begin d u (r\<lparr>r_ready := (r_ready r)(d := q)\<rparr>);
               Some (r, True) })"

section \<open>The platform's task interface\<close>

text \<open>\<open>Task::Create\<close>; \<open>junk\<close> is the memory the new object is built in.\<close>

definition Task_Create :: "nat \<Rightarrow> string option \<Rightarrow> int list \<Rightarrow> 'a rt_scheme \<Rightarrow> 'a rt_scheme \<times> uid" where
  "Task_Create type name junk r =
     (let (u, ctr) = iris_create_new_uid (r_uid r)
      in (r\<lparr>r_uid := ctr, r_tasks := TrackObject (r_tasks r) (Task_new (r_flags r) u type name junk) u\<rparr>, u))"

definition TaskCreate :: "string option \<Rightarrow> bool \<Rightarrow> int list \<Rightarrow> 'a rt_scheme \<Rightarrow> ('a rt_scheme \<times> uid) option" where
  "TaskCreate name perm junk r =
     (let (r, u) = Task_Create (if perm then IRIS_TASK_PERM else IRIS_TASK) name junk r
      in if perm then map_option (\<lambda>r. (r, u)) (rt_at u DisableRelease r) else Some (r, u))"

definition TaskDepend :: "uid \<Rightarrow> uid list \<Rightarrow> 'a rt_scheme \<Rightarrow> 'a rt_scheme option" where
  "TaskDepend u ds r =
     do { t \<leftarrow> GetObject (r_tasks r) u;
          map_option (\<lambda>h. r\<lparr>r_tasks := h\<rparr>) (AddDepends (r_flags r) u ds (r_tasks r)) }"

text \<open>\<open>TaskSubmit\<close> with a scheduler, without recording and without a polyhedral filter; a synchronous
  submission goes on to \<open>TaskWait\<close>.\<close>

definition TaskSubmit :: "uid \<Rightarrow> int \<Rightarrow> string option \<Rightarrow> bool \<Rightarrow> 'a rt_scheme \<Rightarrow> ('a rt_scheme \<times> int) option" where
  "TaskSubmit u brs_policy opt sync r =
     (if ndevs r = 0 then Some (r\<lparr>r_nfailures := r_nfailures r + 1\<rparr>, IRIS_ERROR)
      else
        do { t \<leftarrow> GetObject (r_tasks r) u;
             r \<leftarrow> rt_at u Retain r;
             h \<leftarrow> Task_Submit brs_policy opt sync u (r_tasks r);
             r \<leftarrow> Some (Scheduler_Enqueue u (r\<lparr>r_tasks := h\<rparr>));
             Some (r, int (r_nfailures r)) })"

text \<open>\<open>GraphTask\<close> fixes a task's policy and options before the submission; \<open>GraphSubmit\<close> submits each task of a graph with
  its own policy, or the graph's when it has none.\<close>

definition set_task_policy :: "uid \<Rightarrow> int \<Rightarrow> string option \<Rightarrow> 'a rt_scheme \<Rightarrow> 'a rt_scheme option" where
  "set_task_policy u brs_policy opt r =
     do { h \<leftarrow> set_brs_policy brs_policy u (r_tasks r);
          h \<leftarrow> at_object u (set_opt opt) h;
          Some (r\<lparr>r_tasks := h\<rparr>) }"

definition graph_submit_task :: "int \<Rightarrow> bool \<Rightarrow> uid \<Rightarrow> 'a rt_scheme \<Rightarrow> 'a rt_scheme option" where
  "graph_submit_task brs_policy sync u r =
     do { t \<leftarrow> GetObject (r_tasks r) u;
          h \<leftarrow> (if t_brs_policy t = iris_default then set_brs_policy brs_policy u (r_tasks r) else Some (r_tasks r));
          h \<leftarrow> at_object u Retain h;
          t \<leftarrow> GetObject h u;
          h \<leftarrow> Task_Submit (t_brs_policy t) (Some (t_opt t)) sync u h;
          Some (Scheduler_Enqueue u (r\<lparr>r_tasks := h\<rparr>)) }"

text \<open>\<open>TaskWait\<close> retains the task when it still exists; it returns once the task is complete.\<close>

definition TaskWait_begin :: "uid \<Rightarrow> 'a rt_scheme \<Rightarrow> 'a rt_scheme" where
  "TaskWait_begin u r = r\<lparr>r_tasks := retain_if_exists (r_tasks r) u\<rparr>"

definition TaskWait_end :: "uid \<Rightarrow> 'a rt_scheme \<Rightarrow> 'a rt_scheme option" where
  "TaskWait_end u r =
     do { t \<leftarrow> GetObject (r_tasks r) u;
          if t_status t = IRIS_COMPLETE then rt_Release u r else None }"

definition TaskRelease :: "uid \<Rightarrow> 'a rt_scheme \<Rightarrow> 'a rt_scheme option" where
  "TaskRelease u r =
     (case GetObject (r_tasks r) u of
        None \<Rightarrow> Some r
      | Some t \<Rightarrow>
          if is_release t then Some r
          else do { r \<leftarrow> rt_at u EnableRelease r; rt_Release u r })"

definition set_release_task_flag :: "bool \<Rightarrow> uid \<Rightarrow> 'a rt_scheme \<Rightarrow> 'a rt_scheme option" where
  "set_release_task_flag flag u r =
     do { t \<leftarrow> GetObject (r_tasks r) u;
          if \<not> flag \<and> is_release t then rt_at u (\<lambda>t. DisableRelease (Retain t)) r
          else if flag \<and> \<not> is_release t then do { r \<leftarrow> rt_at u EnableRelease r; rt_Release u r }
          else Some r }"

end
