(* ===== verification/Iris_Accounting.thy ===== *)
theory Iris_Accounting
  imports Iris_Scheduler
begin

text \<open>
  Reference accounting. The count of a live task is one (for its creation) plus the number of
  references that are held on it; a task in process mode whose last held reference goes is deleted.
  \<open>accounted h R\<close> says that \<open>R\<close> is the number of held references of every task of the registry. The
  lemmas follow \<open>R\<close> through \<open>Retain\<close>, \<open>Release\<close>, \<open>Task::Submit\<close> and \<open>Task::Complete\<close>, so that a proof about the
  runtime only has to say who holds what.
\<close>

definition accounted :: "tasks \<Rightarrow> (uid \<Rightarrow> int) \<Rightarrow> bool" where
  "accounted h R \<longleftrightarrow>
     (\<forall>u t. GetObject h u = Some t \<longrightarrow> ref_cnt t = 1 + R u \<and> track_set t \<and> is_release t \<and>
        (retain_mode t = PROCESS_MODE \<longrightarrow> 0 < R u)) \<and>
     (\<forall>u. GetObject h u = None \<longrightarrow> R u = 0) \<and> (\<forall>u. 0 \<le> R u)"

lemma accounted_alive: "accounted h R \<Longrightarrow> 0 < R u \<Longrightarrow> \<exists>t. GetObject h u = Some t"
  by (auto simp: accounted_def)

lemma accounted_cong: "accounted h R \<Longrightarrow> (\<And>u. R u = R' u) \<Longrightarrow> accounted h R'"
  by (simp add: accounted_def)

text \<open>A change of a task that leaves its counters alone.\<close>

definition same_refs :: "Task \<Rightarrow> Task \<Rightarrow> bool" where
  "same_refs t t' \<longleftrightarrow> ref_cnt t' = ref_cnt t \<and> track_set t' = track_set t \<and> is_release t' = is_release t"

lemma accounted_update:
  "accounted h R \<Longrightarrow> GetObject h u = Some t \<Longrightarrow> same_refs t t' \<Longrightarrow>
   (retain_mode t' = PROCESS_MODE \<Longrightarrow> retain_mode t = PROCESS_MODE \<or> 0 < R u) \<Longrightarrow> accounted (TrackObject h t' u) R"
  by (auto simp: accounted_def same_refs_def iris_simps)

lemma accounted_retain:
  "accounted h R \<Longrightarrow> GetObject h u = Some t \<Longrightarrow> accounted (TrackObject h (Retain t) u) (R(u := R u + 1))"
  by (auto simp: accounted_def iris_simps)

lemma Retain_funpow: "ref_cnt ((Retain ^^ k) t) = ref_cnt t + int k"
  "track_set ((Retain ^^ k) t) = track_set t" "is_release ((Retain ^^ k) t) = is_release t"
  "retain_mode ((Retain ^^ k) t) = retain_mode t"
  by (induction k) simp_all

lemma Retain_funpow_more: "\<exists>c. (Retain ^^ k) t = t\<lparr>ref_cnt := c\<rparr>"
proof (induction k)
  case 0
  show ?case by (auto intro: exI [of _ "ref_cnt t"])
next
  case (Suc k)
  then obtain c where "(Retain ^^ k) t = t\<lparr>ref_cnt := c\<rparr>" by blast
  then have "(Retain ^^ Suc k) t = Retain (t\<lparr>ref_cnt := c\<rparr>)" by simp
  also have "\<dots> = t\<lparr>ref_cnt := c + 1\<rparr>" by (simp add: Retain_def)
  finally show ?case by blast
qed

lemma accounted_retain_funpow:
  "accounted h R \<Longrightarrow> GetObject h u = Some t \<Longrightarrow> accounted (TrackObject h ((Retain ^^ k) t) u) (R(u := R u + int k))"
  by (auto simp: accounted_def iris_simps Retain_funpow intro: add_pos_nonneg)

text \<open>Giving a held reference back.\<close>

lemma accounted_release:
  assumes "accounted h R" "GetObject h u = Some t" "0 < R u"
  shows "\<exists>h' c. Release u h = Some (h', c) \<and> accounted h' (R(u := R u - 1)) \<and>
    (\<forall>v. v \<noteq> u \<longrightarrow> GetObject h' v = GetObject h v) \<and>
    GetObject h' u = (if retain_mode t = PROCESS_MODE \<and> R u = 1 then None else Some (t\<lparr>ref_cnt := ref_cnt t - 1\<rparr>))"
proof -
  have t: "ref_cnt t = 1 + R u" "track_set t" "is_release t" using assms by (auto simp: accounted_def)
  have l: "last_ref t \<longleftrightarrow> retain_mode t = PROCESS_MODE \<and> R u = 1"
    using t assms(3) by (cases "retain_mode t") (auto simp: last_ref_def)
  obtain h' where r: "Release u h = Some (h', ref_cnt t - 1)"
    using Release_defined [OF assms(2) t(2)] by blast
  note lk = Release_lookup [OF r]
  have "accounted h' (R(u := R u - 1))"
    unfolding accounted_def using assms t l by (auto simp: lk accounted_def split: if_splits)
  then show ?thesis using r l assms(2) by (auto simp: lk)
qed

section \<open>References on dependencies\<close>

lemma retain_if_exists_lookup:
  "GetObject (retain_if_exists h u) v = (if v = u then map_option Retain (GetObject h v) else GetObject h v)"
  by (auto simp: retain_if_exists_def iris_simps split: option.splits)

lemma retain_deps_lookup:
  "distinct ds \<Longrightarrow> GetObject (foldl retain_if_exists h ds) v =
     (if v \<in> set ds then map_option Retain (GetObject h v) else GetObject h v)"
  by (induction ds arbitrary: h) (auto simp: retain_if_exists_lookup)

definition alive :: "tasks \<Rightarrow> uid \<Rightarrow> bool" where "alive h u \<longleftrightarrow> GetObject h u \<noteq> None"

lemma aliveE: "alive h u \<Longrightarrow> (\<And>t. GetObject h u = Some t \<Longrightarrow> P) \<Longrightarrow> P"
  by (auto simp: alive_def)

lemma accounted_retain_deps:
  assumes "accounted h R" "distinct ds"
  shows "accounted (foldl retain_if_exists h ds) (\<lambda>u. R u + (if u \<in> set ds \<and> alive h u then 1 else 0))"
  using assms by (auto simp: accounted_def retain_deps_lookup alive_def)

lemma accounted_release_deps:
  assumes "accounted h R" "distinct ds" "\<forall>d \<in> set ds. \<forall>t. GetObject h d = Some t \<longrightarrow> 0 < R d \<and> t_user t"
  shows "\<exists>h'. release_deps ds h = Some h' \<and>
    accounted h' (\<lambda>u. R u - (if u \<in> set ds \<and> alive h u then 1 else 0)) \<and>
    (\<forall>u. GetObject h' u =
       (case GetObject h u of
          None \<Rightarrow> None
        | Some t \<Rightarrow> if u \<notin> set ds then Some t
            else if retain_mode t = PROCESS_MODE \<and> R u = 1 then None else Some (t\<lparr>ref_cnt := ref_cnt t - 1\<rparr>)))"
  using assms
proof (induction ds arbitrary: h R)
  case Nil
  then show ?case by (auto split: option.splits intro: accounted_cong)
next
  case (Cons d ds)
  show ?case
  proof (cases "GetObject h d")
    case None
    have "accounted h R" "distinct ds" "\<forall>d \<in> set ds. \<forall>t. GetObject h d = Some t \<longrightarrow> 0 < R d \<and> t_user t"
      using Cons.prems by auto
    from Cons.IH [OF this] obtain h' where h': "release_deps ds h = Some h'"
      "accounted h' (\<lambda>u. R u - (if u \<in> set ds \<and> alive h u then 1 else 0))"
      "\<forall>u. GetObject h' u = (case GetObject h u of None \<Rightarrow> None | Some t \<Rightarrow> if u \<notin> set ds then Some t
         else if retain_mode t = PROCESS_MODE \<and> R u = 1 then None else Some (t\<lparr>ref_cnt := ref_cnt t - 1\<rparr>))" by blast
    have "accounted h' (\<lambda>u. R u - (if u \<in> set (d # ds) \<and> alive h u then 1 else 0))"
      by (rule accounted_cong [OF h'(2)]) (auto simp: alive_def None)
    with h' None show ?thesis by (auto split: option.splits)
  next
    case (Some t)
    then have t: "0 < R d" "t_user t" using Cons.prems(3) by auto
    from accounted_release [OF Cons.prems(1) Some t(1)] obtain h1 c where h1:
      "Release d h = Some (h1, c)" "accounted h1 (R(d := R d - 1))" "\<forall>v. v \<noteq> d \<longrightarrow> GetObject h1 v = GetObject h v"
      "GetObject h1 d = (if retain_mode t = PROCESS_MODE \<and> R d = 1 then None else Some (t\<lparr>ref_cnt := ref_cnt t - 1\<rparr>))"
      by blast
    have d: "d \<notin> set ds" "distinct ds" using Cons.prems(2) by auto
    have p: "\<forall>v \<in> set ds. \<forall>t. GetObject h1 v = Some t \<longrightarrow> 0 < (R(d := R d - 1)) v \<and> t_user t"
      using Cons.prems(3) d h1(3) by (metis fun_upd_other list.set_intros(2))
    from Cons.IH [OF h1(2) d(2) p] obtain h' where h': "release_deps ds h1 = Some h'"
      "accounted h' (\<lambda>u. (R(d := R d - 1)) u - (if u \<in> set ds \<and> alive h1 u then 1 else 0))"
      "\<forall>u. GetObject h' u = (case GetObject h1 u of None \<Rightarrow> None | Some t \<Rightarrow> if u \<notin> set ds then Some t
         else if retain_mode t = PROCESS_MODE \<and> (R(d := R d - 1)) u = 1 then None else Some (t\<lparr>ref_cnt := ref_cnt t - 1\<rparr>))" by blast
    have "accounted h' (\<lambda>u. R u - (if u \<in> set (d # ds) \<and> alive h u then 1 else 0))"
    proof (rule accounted_cong [OF h'(2)])
      fix u
      show "(R(d := R d - 1)) u - (if u \<in> set ds \<and> alive h1 u then 1 else 0) =
          R u - (if u \<in> set (d # ds) \<and> alive h u then 1 else 0)"
        using d h1(3) Some by (cases "u = d") (auto simp: alive_def)
    qed
    moreover have "GetObject h' u = (case GetObject h u of None \<Rightarrow> None | Some t \<Rightarrow> if u \<notin> set (d # ds) then Some t
         else if retain_mode t = PROCESS_MODE \<and> R u = 1 then None else Some (t\<lparr>ref_cnt := ref_cnt t - 1\<rparr>))" for u
      using h'(3) h1(3,4) d Some by (cases "u = d") (auto split: option.splits)
    ultimately show ?thesis using Some t h1(1) h'(1) by auto
  qed
qed

section \<open>Plain tasks\<close>

text \<open>The tasks of an application: created by \<open>TaskCreate\<close>, with no subtasks, no parent, not a marker and
  not an internal transfer, executed synchronously.\<close>

definition plain :: "Task \<Rightarrow> bool" where
  "plain t \<longleftrightarrow> t_subtasks t = [] \<and> t_subtasks_complete t = 0 \<and> \<not> t_parent_exist t \<and> (t_type t = IRIS_TASK \<or> t_type t = IRIS_TASK_PERM) \<and>
     \<not> t_internal_memory_transfer t \<and> \<not> t_df_scheduling t \<and> \<not> t_async t \<and> meta_wf t \<and>
     uid_array_ok (t_depends t, t_depends_max t)"

lemma plain_not_marker: "plain t \<Longrightarrow> \<not> marker t"
  by (auto simp: plain_def marker_def IRIS_TASK_def IRIS_TASK_PERM_def IRIS_MARKER_def)

lemma plain_depends_distinct: "plain t \<Longrightarrow> distinct (depend_uids t)"
  by (auto simp: plain_def uid_array_ok_def depend_uids_def split: option.splits)

text \<open>What the runtime does to a task may change its status, its device and its bookkeeping, not these:\<close>

definition same_shape :: "Task \<Rightarrow> Task \<Rightarrow> bool" where
  "same_shape t t' \<longleftrightarrow> plain t' = plain t \<and> depend_uids t' = depend_uids t \<and> obj_uid t' = obj_uid t"

lemma same_shape_refl [simp]: "same_shape t t" by (simp add: same_shape_def)

lemma same_shape_trans: "same_shape a b \<Longrightarrow> same_shape b c \<Longrightarrow> same_shape a c"
  by (simp add: same_shape_def)

lemma same_shape_updates [simp]:
  "same_shape t (set_status s t)" "same_shape t (t\<lparr>ref_cnt := c\<rparr>)" "same_shape t (t\<lparr>t_dev := d\<rparr>)"
  "same_shape t (ChangeToProcessMode t)" "same_shape t (Retain t)" "same_shape t (set_devno d' t)"
  "same_shape t (t\<lparr>t_recommended_dev := x\<rparr>)" "same_shape t (t\<lparr>t_brs_policy := p\<rparr>)"
  "same_shape t (set_opt opt t)" "same_shape t (t\<lparr>t_sync := b, t_user := b'\<rparr>)" "same_shape t (complete_mark t)"
  by (simp_all add: same_shape_def plain_def depend_uids_def set_status_def ChangeToProcessMode_def Retain_def
      set_devno_def set_opt_def complete_mark_def meta_wf_def Let_def split: option.splits)

lemma same_shape_set_last [simp]: "same_shape t (set_last_cmd t)"
  by (simp add: same_shape_def plain_def depend_uids_def set_last_cmd_def meta_wf_def split: option.splits)

lemma same_shape_policy [simp]: "same_shape t (set_brs_policy1 p t)"
  by (simp add: set_brs_policy1_def Let_def same_shape_def plain_def depend_uids_def set_status_def meta_wf_def)

lemma same_refs_updates [simp]:
  "same_refs t t" "same_refs t (set_status s t)" "same_refs t (t\<lparr>t_dev := d\<rparr>)"
  "same_refs t (ChangeToProcessMode t)" "same_refs t (set_devno d' t)" "same_refs t (t\<lparr>t_recommended_dev := x\<rparr>)"
  "same_refs t (complete_mark t)" "same_refs t (set_last_cmd t)" "same_refs t (set_brs_policy1 p t)"
  "same_refs t (set_opt opt t)" "same_refs t (t\<lparr>t_sync := b, t_user := b'\<rparr>)"
  by (simp_all add: same_refs_def set_status_def ChangeToProcessMode_def set_devno_def complete_mark_def
      set_last_cmd_def set_brs_policy1_def set_opt_def Let_def split: option.splits)

lemma same_refs_trans: "same_refs a b \<Longrightarrow> same_refs b c \<Longrightarrow> same_refs a c"
  by (simp add: same_refs_def)

definition no_pending :: "tasks \<Rightarrow> bool" where
  "no_pending h \<longleftrightarrow> (\<forall>u t. GetObject h u = Some t \<longrightarrow> t_status t \<noteq> IRIS_PENDING)"

lemma wake_pending_id: "no_pending h \<Longrightarrow> wake_pending h u = h"
  by (auto simp: wake_pending_def no_pending_def split: option.splits)

lemma DispatchDependencies_id:
  assumes "no_pending h" "GetObject h u = Some t"
  shows "DispatchDependencies u h = Some h"
proof -
  have "foldl wake_pending h ds = h" for ds using assms(1) by (induction ds) (simp_all add: wake_pending_id)
  with assms show ?thesis by (simp add: DispatchDependencies_def wake_pending_id)
qed

text \<open>Submission of a plain task under a policy other than \<open>iris_pending\<close>.\<close>

lemma Task_Submit_plain:
  assumes "GetObject h u = Some t" "plain t" "p \<noteq> iris_pending" "no_pending h"
  shows "\<exists>t'. Task_Submit p opt sync u h = Some (foldl retain_if_exists (TrackObject h t' u) (depend_uids t)) \<and>
    same_refs t t' \<and> same_shape t t' \<and> retain_mode t' = retain_mode t \<and> t_status t' = IRIS_NONE \<and>
    t_brs_policy t' = p \<and> t_user t'"
proof -
  let ?t1 = "set_brs_policy1 p (set_status IRIS_NONE t)"
  let ?h1 = "TrackObject h (set_status IRIS_NONE t) u" and ?h2 = "TrackObject h ?t1 u"
  let ?t2 = "(set_last_cmd (set_opt opt ?t1))\<lparr>t_sync := sync, t_user := True\<rparr>"
  have sub: "t_subtasks t = []" "\<not> t_df_scheduling t" using assms(2) by (auto simp: plain_def)
  have s1: "set_brs_policy p u ?h1 = Some ?h2"
    using set_brs_policy_flat [of ?h1 u "set_status IRIS_NONE t" p] sub by (simp add: iris_simps)
  have st1: "t_status ?t1 = IRIS_NONE"
    using assms(3) by (simp add: set_brs_policy1_def Let_def)
  have np: "no_pending ?h2"
    using assms(4) st1 by (auto simp: no_pending_def iris_simps iris_status_defs)
  have d2: "DispatchDependencies u ?h2 = Some ?h2"
    by (rule DispatchDependencies_id [OF np]) (simp add: iris_simps)
  have shape: "same_shape t ?t2"
    using same_shape_trans [OF same_shape_updates(1) [of t IRIS_NONE]
        same_shape_trans [OF same_shape_policy same_shape_trans [OF same_shape_updates(9)
            same_shape_trans [OF same_shape_set_last same_shape_updates(10)]]]] .
  have refs: "same_refs t ?t2"
    using same_refs_trans [OF same_refs_updates(2) [of t IRIS_NONE]
        same_refs_trans [OF same_refs_updates(9) same_refs_trans [OF same_refs_updates(10)
            same_refs_trans [OF same_refs_updates(8) same_refs_updates(11)]]]] .
  have f: "retain_mode ?t2 = retain_mode t" "t_status ?t2 = IRIS_NONE" "t_brs_policy ?t2 = p" "t_user ?t2"
    using st1 by (auto simp: set_last_cmd_def set_opt_def set_brs_policy1_def set_status_def Let_def split: option.splits)
  have "Task_Submit p opt sync u h = Some (foldl retain_if_exists (TrackObject h ?t2 u) (depend_uids ?t2))"
    using assms(1,3) s1 d2 by (simp add: Task_Submit_def at_object_def iris_simps)
  moreover have "depend_uids ?t2 = depend_uids t" using shape by (simp add: same_shape_def)
  ultimately show ?thesis using shape refs f by (intro exI [of _ ?t2]) auto
qed

end
