(* ===== verification/Iris_Runtime.thy ===== *)
theory Iris_Runtime
  imports Iris_Accounting
begin

text \<open>
  The runtime as a transition system. The threads are the host, which creates, links, submits and
  awaits tasks, the scheduler and one worker for each device; their steps are the operations of
  \<^verbatim>\<open>Iris_Scheduler\<close>. One step is what the code does between two points where another thread may come in: a
  call of the platform's interface, one round of the scheduler's loop, the start and the end of an
  execution on a worker. A log and three maps record what happened (\<open>m_deps\<close> the
  dependencies the host declared); no operation reads them. The
  tasks are plain tasks that are submitted once; devices execute synchronously. The theorems state
  that no step follows a pointer to a deleted task, that dependencies are respected, that a task is
  executed once, that no wake-up is lost and that the runtime does not deadlock.
\<close>

section \<open>The machine\<close>

datatype event = EStart uid | EComplete uid

record machine = rt +
  m_sched_awake :: bool
  m_worker_awake :: "devno \<Rightarrow> bool"
  m_waiting :: "uid multiset"
  m_created :: "uid set"
  m_submitted :: "uid set"
  m_held :: "uid \<Rightarrow> uid set"
  m_deps :: "uid \<Rightarrow> uid set"
  m_log :: "event list"

definition flags_default :: PlatformFlags where
  "flags_default = \<lparr>release_task_flag = True, platform_async = False, enable_proactive = False\<rparr>"

text \<open>The platform after its initialisation: devices, empty queues; the scheduler begins asleep, a worker
  looks at its queue before it sleeps.\<close>

definition machine_init :: "int list \<Rightarrow> nat \<Rightarrow> (string \<Rightarrow> bool) \<Rightarrow> machine" where
  "machine_init types dflt customs =
     \<lparr>r_flags = flags_default, r_uid = iris_uid_init, r_tasks = ObjectTrack_new, r_queue = [], r_types = types,
      r_ready = (\<lambda>_. QueueReady_new), r_busy = (\<lambda>_. None), r_active = (\<lambda>_. 0), r_sem_sched = 0,
      r_sem_worker = (\<lambda>_. 0), r_nfailures = 0, r_device_default = dflt, r_rr_index = 0, r_customs = customs,
      m_sched_awake = False, m_worker_awake = (\<lambda>_. True), m_waiting = {#}, m_created = {}, m_submitted = {},
      m_held = (\<lambda>_. {}), m_deps = (\<lambda>_. {}), m_log = []\<rparr>"

text \<open>The flag of \<open>ACreate\<close> tells the end task of a graph, which \<open>Graph::Graph\<close> makes with \<open>Task::Create\<close>, from a task of
  the application.\<close>

datatype action =
    ACreate "string option" bool "int list"
  | ANewObject
  | ASetName uid string
  | ASetMetadata uid nat int
  | ASetMetadataAll uid "int list"
  | AAddCommand uid Command string
  | ADepend uid "uid list"
  | ASetPolicy uid int "string option"
  | ASubmit uid int "string option"
  | AGraphSubmit uid int
  | AWaitBegin uid
  | AWaitEnd uid
  | AWake thread_id
  | ASchedStep
  | AWorkerStep devno
  | AWorkerEnd devno

definition completed :: "machine \<Rightarrow> uid set" where
  "completed m = {u. EComplete u \<in> set (m_log m)}"

definition inflight :: "machine \<Rightarrow> uid set" where
  "inflight m = m_submitted m - completed m"

abbreviation created :: "machine \<Rightarrow> uid set" where "created \<equiv> m_created"

text \<open>When an action may happen. The host submits a task once, builds it before and names existing
  tasks as dependencies; \<open>allowed\<close> are the policies it uses. A thread steps when it is awake, and wakes
  when its semaphore allows.\<close>

fun enabled :: "(int \<Rightarrow> bool) \<Rightarrow> action \<Rightarrow> machine \<Rightarrow> bool" where
  "enabled allowed (ACreate name graph_end junk) m \<longleftrightarrow> length junk = 6"
| "enabled allowed ANewObject m \<longleftrightarrow> True"
| "enabled allowed (ASetName u n) m \<longleftrightarrow> u \<in> created m - m_submitted m"
| "enabled allowed (ASetMetadata u i v) m \<longleftrightarrow> u \<in> created m - m_submitted m \<and> i \<le> 8"
| "enabled allowed (ASetMetadataAll u mdata) m \<longleftrightarrow> u \<in> created m - m_submitted m \<and> length mdata \<le> 9"
| "enabled allowed (AAddCommand u c k) m \<longleftrightarrow> u \<in> created m - m_submitted m \<and> cmd_type c \<noteq> None"
| "enabled allowed (ADepend u ds) m \<longleftrightarrow> u \<in> created m - m_submitted m \<and> set ds \<subseteq> created m"
| "enabled allowed (ASetPolicy u p opt) m \<longleftrightarrow>
     u \<in> created m - m_submitted m \<and> (p = iris_default \<or> allowed p) \<and> p \<noteq> iris_pending"
| "enabled allowed (ASubmit u p opt) m \<longleftrightarrow> u \<in> created m - m_submitted m \<and> allowed p \<and> p \<noteq> iris_pending"
| "enabled allowed (AGraphSubmit u p) m \<longleftrightarrow> u \<in> created m - m_submitted m \<and> allowed p \<and> p \<noteq> iris_pending"
| "enabled allowed (AWaitBegin u) m \<longleftrightarrow> u \<in> m_submitted m"
| "enabled allowed (AWaitEnd u) m \<longleftrightarrow> u \<in># m_waiting m \<and> map_option t_status (GetObject (r_tasks m) u) = Some IRIS_COMPLETE"
| "enabled allowed (AWake th) m \<longleftrightarrow>
     Sleep_returns th m \<noteq> None \<and>
     (case th of SchedulerThread \<Rightarrow> \<not> m_sched_awake m | WorkerThread d \<Rightarrow> d < ndevs m \<and> \<not> m_worker_awake m d)"
| "enabled allowed ASchedStep m \<longleftrightarrow> m_sched_awake m"
| "enabled allowed (AWorkerStep d) m \<longleftrightarrow> d < ndevs m \<and> m_worker_awake m d \<and> r_busy m d = None"
| "enabled allowed (AWorkerEnd d) m \<longleftrightarrow> d < ndevs m \<and> r_busy m d \<noteq> None"

definition log_start :: "devno \<Rightarrow> machine \<Rightarrow> machine" where
  "log_start d m = (case r_busy m d of None \<Rightarrow> m | Some u \<Rightarrow> m\<lparr>m_log := m_log m @ [EStart u]\<rparr>)"

text \<open>What a submission records: the dependencies that were alive are now held.\<close>

definition record_submit :: "uid \<Rightarrow> machine \<Rightarrow> machine \<Rightarrow> machine" where
  "record_submit u m m' =
     m'\<lparr>m_submitted := insert u (m_submitted m),
        m_held := (m_held m)(u := (case GetObject (r_tasks m) u of
                                     None \<Rightarrow> {} | Some t \<Rightarrow> {d \<in> set (depend_uids t). alive (r_tasks m) d}))\<rparr>"

definition host_submit :: "uid \<Rightarrow> int \<Rightarrow> string option \<Rightarrow> machine \<Rightarrow> machine option" where
  "host_submit u p opt m = map_option (\<lambda>(m', _). record_submit u m m') (TaskSubmit u p opt False m)"

text \<open>The effect of an action; \<open>None\<close> is a crash of the runtime.\<close>

fun exec :: "sched_env \<Rightarrow> action \<Rightarrow> machine \<Rightarrow> machine option" where
  "exec e (ACreate name graph_end junk) m =
     do { (m, u) \<leftarrow> (if graph_end then Some (Task_Create IRIS_TASK_PERM name junk m) else TaskCreate name False junk m);
          Some (m\<lparr>m_created := insert u (m_created m)\<rparr>) }"
| "exec e ANewObject m = Some (m\<lparr>r_uid := snd (iris_create_new_uid (r_uid m))\<rparr>)"
| "exec e (ASetName u n) m = rt_at u (set_name n) m"
| "exec e (ASetMetadata u i v) m = rt_try u (set_metadata i v) m"
| "exec e (ASetMetadataAll u mdata) m = rt_try u (set_metadata_all mdata (length mdata)) m"
| "exec e (AAddCommand u c k) m = rt_at u (AddCommand c k) m"
| "exec e (ADepend u ds) m =
     map_option (\<lambda>m. m\<lparr>m_deps := (m_deps m)(u := m_deps m u \<union> set ds)\<rparr>) (TaskDepend u ds m)"
| "exec e (ASetPolicy u p opt) m = set_task_policy u p opt m"
| "exec e (ASubmit u p opt) m = host_submit u p opt m"
| "exec e (AGraphSubmit u p) m = map_option (record_submit u m) (graph_submit_task p False u m)"
| "exec e (AWaitBegin u) m =
     Some ((TaskWait_begin u m)\<lparr>m_waiting := (if alive (r_tasks m) u then add_mset u (m_waiting m) else m_waiting m)\<rparr>)"
| "exec e (AWaitEnd u) m =
     map_option (\<lambda>m. m\<lparr>m_waiting := m_waiting m - {#u#}\<rparr>) (TaskWait_end u m)"
| "exec e (AWake th) m =
     map_option (\<lambda>m. case th of
         SchedulerThread \<Rightarrow> m\<lparr>m_sched_awake := True\<rparr>
       | WorkerThread d \<Rightarrow> m\<lparr>m_worker_awake := (m_worker_awake m)(d := True)\<rparr>) (Sleep_returns th m)"
| "exec e ASchedStep m =
     do { (m, more) \<leftarrow> Scheduler_Run_step e m;
          Some (if more then m else m\<lparr>m_sched_awake := False\<rparr>) }"
| "exec e (AWorkerStep d) m =
     do { (m, more) \<leftarrow> Worker_Run_step d m;
          Some (if more then log_start d m else m\<lparr>m_worker_awake := (m_worker_awake m)(d := False)\<rparr>) }"
| "exec e (AWorkerEnd d) m =
     do { u \<leftarrow> r_busy m d;
          m \<leftarrow> Worker_Execute_end e d u m;
          Some (m\<lparr>m_log := m_log m @ [EComplete u]\<rparr>) }"

inductive step :: "sched_env \<Rightarrow> (int \<Rightarrow> bool) \<Rightarrow> machine \<Rightarrow> action \<Rightarrow> machine \<Rightarrow> bool" for e allowed where
  step: "enabled allowed a m \<Longrightarrow> exec e a m = Some m' \<Longrightarrow> step e allowed m a m'"

inductive_cases stepE: "step e allowed m a m'"

text \<open>The states the runtime reaches on \<open>types\<close> devices.\<close>

inductive reachable :: "sched_env \<Rightarrow> (int \<Rightarrow> bool) \<Rightarrow> machine \<Rightarrow> bool" for e allowed where
  init: "types \<noteq> [] \<Longrightarrow> dflt < length types \<Longrightarrow> reachable e allowed (machine_init types dflt customs)"
| more: "reachable e allowed m \<Longrightarrow> step e allowed m a m' \<Longrightarrow> reachable e allowed m'"

section \<open>The invariant\<close>

text \<open>Who holds references on a task: the submission until it completes, each place in a worker's
  queue, the worker that executes it, each waiting host thread, and each submitted task that depends on
  it and is not complete.\<close>

definition ready_refs :: "machine \<Rightarrow> uid \<Rightarrow> int" where
  "ready_refs m u = (\<Sum>d < ndevs m. int (count (QueueReady_content (r_ready m d)) u))"

definition busy_refs :: "machine \<Rightarrow> uid \<Rightarrow> int" where
  "busy_refs m u = (\<Sum>d < ndevs m. of_bool (r_busy m d = Some u))"

definition refs :: "machine \<Rightarrow> uid \<Rightarrow> int" where
  "refs m u = of_bool (u \<in> inflight m) + ready_refs m u + busy_refs m u + int (count (m_waiting m) u) +
     int (card {c \<in> inflight m. u \<in> m_held m c})"

definition in_ready :: "machine \<Rightarrow> uid \<Rightarrow> bool" where
  "in_ready m u \<longleftrightarrow> (\<exists>d < ndevs m. u \<in># QueueReady_content (r_ready m d))"

definition running :: "machine \<Rightarrow> uid \<Rightarrow> bool" where
  "running m u \<longleftrightarrow> (\<exists>d < ndevs m. r_busy m d = Some u)"

definition inv_static :: "machine \<Rightarrow> bool" where
  "inv_static m \<longleftrightarrow> (\<forall>u \<in> created m. u \<le> r_uid m) \<and> 0 < ndevs m \<and> r_device_default m < ndevs m \<and> r_rr_index m < ndevs m \<and> r_flags m = flags_default \<and>
     (\<forall>d. r_active m d = of_bool (r_busy m d \<noteq> None))"

text \<open>A task before its submission, and after it.\<close>

definition task_fresh :: "(int \<Rightarrow> bool) \<Rightarrow> Task \<Rightarrow> bool" where
  "task_fresh allowed t \<longleftrightarrow> t_status t = IRIS_NONE \<and> retain_mode t = CREATE_MODE \<and>
     (t_brs_policy t = iris_default \<or> allowed (t_brs_policy t)) \<and> t_brs_policy t \<noteq> iris_pending"

definition task_submitted :: "(int \<Rightarrow> bool) \<Rightarrow> machine \<Rightarrow> uid \<Rightarrow> Task \<Rightarrow> bool" where
  "task_submitted allowed m u t \<longleftrightarrow> t_user t \<and> allowed (t_brs_policy t) \<and>
     (if u \<in> completed m then t_status t = IRIS_COMPLETE \<and> retain_mode t = PROCESS_MODE
      else if running m u then t_status t = IRIS_RUNNING \<and> retain_mode t = PROCESS_MODE
      else t_status t = IRIS_NONE \<and> retain_mode t = CREATE_MODE \<and> (u \<in> set (r_queue m) \<or> in_ready m u))"

definition inv_tasks :: "(int \<Rightarrow> bool) \<Rightarrow> machine \<Rightarrow> bool" where
  "inv_tasks allowed m \<longleftrightarrow> (\<forall>u t. GetObject (r_tasks m) u = Some t \<longrightarrow>
     plain t \<and> obj_uid t = u \<and> u \<in> created m \<and> set (depend_uids t) \<subseteq> created m \<and> m_deps m u = set (depend_uids t) \<and>
     (if u \<in> m_submitted m then task_submitted allowed m u t else task_fresh allowed t))"

definition inv_alive :: "machine \<Rightarrow> bool" where
  "inv_alive m \<longleftrightarrow> (\<forall>u \<in> created m. alive (r_tasks m) u \<or> u \<in> completed m) \<and>
     completed m \<subseteq> m_submitted m \<and> m_submitted m \<subseteq> created m \<and> (\<forall>u. u \<notin> created m \<longrightarrow> m_deps m u = {})"

definition inv_places :: "machine \<Rightarrow> bool" where
  "inv_places m \<longleftrightarrow> distinct (r_queue m) \<and>
     (\<forall>u \<in> set (r_queue m). u \<in> inflight m \<and> \<not> in_ready m u \<and> \<not> running m u) \<and>
     (\<forall>u. in_ready m u \<longrightarrow> u \<in> m_submitted m \<and> m_deps m u \<subseteq> completed m) \<and>
     (\<forall>d u. r_busy m d = Some u \<longrightarrow> d < ndevs m \<and> u \<in> inflight m \<and> m_deps m u \<subseteq> completed m \<and>
        (\<forall>d'. r_busy m d' = Some u \<longrightarrow> d' = d) \<and> (\<forall>t. GetObject (r_tasks m) u = Some t \<longrightarrow> t_dev t = Some d)) \<and>
     (\<forall>d. ndevs m \<le> d \<longrightarrow> QueueReady_content (r_ready m d) = {#})"

definition inv_refs :: "machine \<Rightarrow> bool" where
  "inv_refs m \<longleftrightarrow> accounted (r_tasks m) (refs m)"

definition inv_held :: "machine \<Rightarrow> bool" where
  "inv_held m \<longleftrightarrow> (\<forall>c \<in> inflight m. m_held m c \<subseteq> m_deps m c \<and>
     (\<forall>d \<in> m_deps m c. alive (r_tasks m) d \<longrightarrow> d \<in> m_held m c))"

text \<open>The log: a start comes after the completion of every dependency, a completion after its start,
  and neither happens twice.\<close>

definition log_ok :: "(uid \<Rightarrow> uid set) \<Rightarrow> event list \<Rightarrow> bool" where
  "log_ok deps l \<longleftrightarrow> distinct l \<and>
     (\<forall>i < length l. case l ! i of
        EStart u \<Rightarrow> \<forall>d \<in> deps u. EComplete d \<in> set (take i l)
      | EComplete u \<Rightarrow> EStart u \<in> set (take i l))"

definition inv_log :: "machine \<Rightarrow> bool" where
  "inv_log m \<longleftrightarrow> log_ok (m_deps m) (m_log m) \<and>
     (\<forall>u. EStart u \<in> set (m_log m) \<longleftrightarrow> u \<in> completed m \<or> running m u)"

text \<open>A sleeping thread whose semaphore is zero has nothing to do.\<close>

definition inv_wake :: "machine \<Rightarrow> bool" where
  "inv_wake m \<longleftrightarrow>
     (\<not> m_sched_awake m \<and> r_sem_sched m = 0 \<longrightarrow> (\<forall>u \<in> set (r_queue m). \<not> m_deps m u \<subseteq> completed m)) \<and>
     (\<forall>d < ndevs m. \<not> m_worker_awake m d \<and> r_sem_worker m d = 0 \<longrightarrow> QueueReady_content (r_ready m d) = {#}) \<and>
     (\<forall>d. r_busy m d \<noteq> None \<longrightarrow> m_worker_awake m d)"

definition inv :: "(int \<Rightarrow> bool) \<Rightarrow> machine \<Rightarrow> bool" where
  "inv allowed m \<longleftrightarrow> inv_static m \<and> inv_tasks allowed m \<and> inv_alive m \<and> inv_places m \<and> inv_refs m \<and>
     inv_held m \<and> inv_log m \<and> inv_wake m"

lemmas inv_defs = inv_def inv_static_def inv_tasks_def inv_alive_def inv_places_def inv_refs_def
  inv_held_def inv_log_def inv_wake_def

end
