(* ===== verification/Iris_Runtime_Inv.thy ===== *)
theory Iris_Runtime_Inv
  imports Iris_Runtime
begin

text \<open>
  The invariant of the runtime under the host's actions: creating a task, adding commands and
  dependencies, submitting, waiting. The first part says which functions of the state an update leaves
  alone and how sums over devices change. A step that gives a reference back is \<open>inv_release\<close>, shared by
  the host and the workers.
\<close>

section \<open>What an update does not touch\<close>

lemma completed_updates [simp]:
  "completed (m\<lparr>r_tasks := x0\<rparr>) = completed m"
  "completed (m\<lparr>r_rr_index := x1\<rparr>) = completed m"
  "completed (m\<lparr>r_sem_sched := x2\<rparr>) = completed m"
  "completed (m\<lparr>r_sem_worker := x3\<rparr>) = completed m"
  "completed (m\<lparr>r_active := x4\<rparr>) = completed m"
  "completed (m\<lparr>m_sched_awake := x5\<rparr>) = completed m"
  "completed (m\<lparr>m_worker_awake := x6\<rparr>) = completed m"
  "completed (m\<lparr>r_queue := x7\<rparr>) = completed m"
  "completed (m\<lparr>r_ready := x8\<rparr>) = completed m"
  "completed (m\<lparr>r_busy := x9\<rparr>) = completed m"
  "completed (m\<lparr>m_waiting := x10\<rparr>) = completed m"
  "completed (m\<lparr>m_submitted := x11\<rparr>) = completed m"
  "completed (m\<lparr>m_held := x12\<rparr>) = completed m"
  "completed (m\<lparr>m_deps := x13\<rparr>) = completed m"
  "completed (m\<lparr>r_uid := x14\<rparr>) = completed m"
  "completed (m\<lparr>m_created := y\<rparr>) = completed m"
  by (simp_all add: fun_eq_iff completed_def inflight_def ndevs_def in_ready_def running_def ready_refs_def busy_refs_def refs_def)

lemma inflight_updates [simp]:
  "inflight (m\<lparr>r_tasks := x0\<rparr>) = inflight m"
  "inflight (m\<lparr>r_rr_index := x1\<rparr>) = inflight m"
  "inflight (m\<lparr>r_sem_sched := x2\<rparr>) = inflight m"
  "inflight (m\<lparr>r_sem_worker := x3\<rparr>) = inflight m"
  "inflight (m\<lparr>r_active := x4\<rparr>) = inflight m"
  "inflight (m\<lparr>m_sched_awake := x5\<rparr>) = inflight m"
  "inflight (m\<lparr>m_worker_awake := x6\<rparr>) = inflight m"
  "inflight (m\<lparr>r_queue := x7\<rparr>) = inflight m"
  "inflight (m\<lparr>r_ready := x8\<rparr>) = inflight m"
  "inflight (m\<lparr>r_busy := x9\<rparr>) = inflight m"
  "inflight (m\<lparr>m_waiting := x10\<rparr>) = inflight m"
  "inflight (m\<lparr>r_uid := x11\<rparr>) = inflight m"
  "inflight (m\<lparr>m_held := x12\<rparr>) = inflight m"
  "inflight (m\<lparr>m_deps := x13\<rparr>) = inflight m"
  "inflight (m\<lparr>m_created := y\<rparr>) = inflight m"
  by (simp_all add: fun_eq_iff completed_def inflight_def ndevs_def in_ready_def running_def ready_refs_def busy_refs_def refs_def)

lemma ndevs_updates [simp]:
  "ndevs (m\<lparr>r_tasks := x0\<rparr>) = ndevs m"
  "ndevs (m\<lparr>r_rr_index := x1\<rparr>) = ndevs m"
  "ndevs (m\<lparr>r_sem_sched := x2\<rparr>) = ndevs m"
  "ndevs (m\<lparr>r_sem_worker := x3\<rparr>) = ndevs m"
  "ndevs (m\<lparr>r_active := x4\<rparr>) = ndevs m"
  "ndevs (m\<lparr>m_sched_awake := x5\<rparr>) = ndevs m"
  "ndevs (m\<lparr>m_worker_awake := x6\<rparr>) = ndevs m"
  "ndevs (m\<lparr>r_queue := x7\<rparr>) = ndevs m"
  "ndevs (m\<lparr>r_ready := x8\<rparr>) = ndevs m"
  "ndevs (m\<lparr>r_busy := x9\<rparr>) = ndevs m"
  "ndevs (m\<lparr>m_waiting := x10\<rparr>) = ndevs m"
  "ndevs (m\<lparr>m_submitted := x11\<rparr>) = ndevs m"
  "ndevs (m\<lparr>m_held := x12\<rparr>) = ndevs m"
  "ndevs (m\<lparr>m_deps := x13\<rparr>) = ndevs m"
  "ndevs (m\<lparr>r_uid := x14\<rparr>) = ndevs m"
  "ndevs (m\<lparr>m_log := x15\<rparr>) = ndevs m"
  "ndevs (m\<lparr>m_created := y\<rparr>) = ndevs m"
  by (simp_all add: fun_eq_iff completed_def inflight_def ndevs_def in_ready_def running_def ready_refs_def busy_refs_def refs_def)

lemma in_ready_updates [simp]:
  "in_ready (m\<lparr>r_tasks := x0\<rparr>) = in_ready m"
  "in_ready (m\<lparr>r_rr_index := x1\<rparr>) = in_ready m"
  "in_ready (m\<lparr>r_sem_sched := x2\<rparr>) = in_ready m"
  "in_ready (m\<lparr>r_sem_worker := x3\<rparr>) = in_ready m"
  "in_ready (m\<lparr>r_active := x4\<rparr>) = in_ready m"
  "in_ready (m\<lparr>m_sched_awake := x5\<rparr>) = in_ready m"
  "in_ready (m\<lparr>m_worker_awake := x6\<rparr>) = in_ready m"
  "in_ready (m\<lparr>r_queue := x7\<rparr>) = in_ready m"
  "in_ready (m\<lparr>m_submitted := x8\<rparr>) = in_ready m"
  "in_ready (m\<lparr>m_held := x9\<rparr>) = in_ready m"
  "in_ready (m\<lparr>m_deps := x10\<rparr>) = in_ready m"
  "in_ready (m\<lparr>r_busy := x11\<rparr>) = in_ready m"
  "in_ready (m\<lparr>m_waiting := x12\<rparr>) = in_ready m"
  "in_ready (m\<lparr>m_log := x13\<rparr>) = in_ready m"
  "in_ready (m\<lparr>r_uid := x14\<rparr>) = in_ready m"
  "in_ready (m\<lparr>m_created := y\<rparr>) = in_ready m"
  by (simp_all add: fun_eq_iff completed_def inflight_def ndevs_def in_ready_def running_def ready_refs_def busy_refs_def refs_def)

lemma running_updates [simp]:
  "running (m\<lparr>r_tasks := x0\<rparr>) = running m"
  "running (m\<lparr>r_rr_index := x1\<rparr>) = running m"
  "running (m\<lparr>r_sem_sched := x2\<rparr>) = running m"
  "running (m\<lparr>r_sem_worker := x3\<rparr>) = running m"
  "running (m\<lparr>r_active := x4\<rparr>) = running m"
  "running (m\<lparr>m_sched_awake := x5\<rparr>) = running m"
  "running (m\<lparr>m_worker_awake := x6\<rparr>) = running m"
  "running (m\<lparr>r_queue := x7\<rparr>) = running m"
  "running (m\<lparr>m_submitted := x8\<rparr>) = running m"
  "running (m\<lparr>m_held := x9\<rparr>) = running m"
  "running (m\<lparr>m_deps := x10\<rparr>) = running m"
  "running (m\<lparr>r_ready := x11\<rparr>) = running m"
  "running (m\<lparr>m_waiting := x12\<rparr>) = running m"
  "running (m\<lparr>m_log := x13\<rparr>) = running m"
  "running (m\<lparr>r_uid := x14\<rparr>) = running m"
  "running (m\<lparr>m_created := y\<rparr>) = running m"
  by (simp_all add: fun_eq_iff completed_def inflight_def ndevs_def in_ready_def running_def ready_refs_def busy_refs_def refs_def)

lemma ready_refs_updates [simp]:
  "ready_refs (m\<lparr>r_tasks := x0\<rparr>) = ready_refs m"
  "ready_refs (m\<lparr>r_rr_index := x1\<rparr>) = ready_refs m"
  "ready_refs (m\<lparr>r_sem_sched := x2\<rparr>) = ready_refs m"
  "ready_refs (m\<lparr>r_sem_worker := x3\<rparr>) = ready_refs m"
  "ready_refs (m\<lparr>r_active := x4\<rparr>) = ready_refs m"
  "ready_refs (m\<lparr>m_sched_awake := x5\<rparr>) = ready_refs m"
  "ready_refs (m\<lparr>m_worker_awake := x6\<rparr>) = ready_refs m"
  "ready_refs (m\<lparr>r_queue := x7\<rparr>) = ready_refs m"
  "ready_refs (m\<lparr>m_submitted := x8\<rparr>) = ready_refs m"
  "ready_refs (m\<lparr>m_held := x9\<rparr>) = ready_refs m"
  "ready_refs (m\<lparr>m_deps := x10\<rparr>) = ready_refs m"
  "ready_refs (m\<lparr>r_busy := x11\<rparr>) = ready_refs m"
  "ready_refs (m\<lparr>m_waiting := x12\<rparr>) = ready_refs m"
  "ready_refs (m\<lparr>m_log := x13\<rparr>) = ready_refs m"
  "ready_refs (m\<lparr>r_uid := x14\<rparr>) = ready_refs m"
  "ready_refs (m\<lparr>m_created := y\<rparr>) = ready_refs m"
  by (simp_all add: fun_eq_iff completed_def inflight_def ndevs_def in_ready_def running_def ready_refs_def busy_refs_def refs_def)

lemma busy_refs_updates [simp]:
  "busy_refs (m\<lparr>r_tasks := x0\<rparr>) = busy_refs m"
  "busy_refs (m\<lparr>r_rr_index := x1\<rparr>) = busy_refs m"
  "busy_refs (m\<lparr>r_sem_sched := x2\<rparr>) = busy_refs m"
  "busy_refs (m\<lparr>r_sem_worker := x3\<rparr>) = busy_refs m"
  "busy_refs (m\<lparr>r_active := x4\<rparr>) = busy_refs m"
  "busy_refs (m\<lparr>m_sched_awake := x5\<rparr>) = busy_refs m"
  "busy_refs (m\<lparr>m_worker_awake := x6\<rparr>) = busy_refs m"
  "busy_refs (m\<lparr>r_queue := x7\<rparr>) = busy_refs m"
  "busy_refs (m\<lparr>m_submitted := x8\<rparr>) = busy_refs m"
  "busy_refs (m\<lparr>m_held := x9\<rparr>) = busy_refs m"
  "busy_refs (m\<lparr>m_deps := x10\<rparr>) = busy_refs m"
  "busy_refs (m\<lparr>r_ready := x11\<rparr>) = busy_refs m"
  "busy_refs (m\<lparr>m_waiting := x12\<rparr>) = busy_refs m"
  "busy_refs (m\<lparr>m_log := x13\<rparr>) = busy_refs m"
  "busy_refs (m\<lparr>r_uid := x14\<rparr>) = busy_refs m"
  "busy_refs (m\<lparr>m_created := y\<rparr>) = busy_refs m"
  by (simp_all add: fun_eq_iff completed_def inflight_def ndevs_def in_ready_def running_def ready_refs_def busy_refs_def refs_def)

lemma refs_updates [simp]:
  "refs (m\<lparr>r_tasks := x0\<rparr>) = refs m"
  "refs (m\<lparr>r_rr_index := x1\<rparr>) = refs m"
  "refs (m\<lparr>r_sem_sched := x2\<rparr>) = refs m"
  "refs (m\<lparr>r_sem_worker := x3\<rparr>) = refs m"
  "refs (m\<lparr>r_active := x4\<rparr>) = refs m"
  "refs (m\<lparr>m_sched_awake := x5\<rparr>) = refs m"
  "refs (m\<lparr>m_worker_awake := x6\<rparr>) = refs m"
  "refs (m\<lparr>r_queue := x7\<rparr>) = refs m"
  "refs (m\<lparr>r_uid := x8\<rparr>) = refs m"
  "refs (m\<lparr>m_deps := x9\<rparr>) = refs m"
  "refs (m\<lparr>m_created := y\<rparr>) = refs m"
  by (simp_all add: fun_eq_iff completed_def inflight_def ndevs_def in_ready_def running_def ready_refs_def busy_refs_def refs_def)

section \<open>Sums over the devices\<close>

lemma sum_fun_upd:
  fixes g :: "'a \<Rightarrow> int" and n :: nat
  assumes "d < n"
  shows "(\<Sum>x < n. g ((f(d := v)) x)) = (\<Sum>x < n. g (f x)) + (g v - g (f d))"
proof -
  have "(\<Sum>x < n. g ((f(d := v)) x)) = g v + (\<Sum>x \<in> {..<n} - {d}. g (f x))"
    using assms sum.remove [of "{..<n}" d "\<lambda>x. g ((f(d := v)) x)"] by (auto intro!: sum.cong)
  moreover have "(\<Sum>x < n. g (f x)) = g (f d) + (\<Sum>x \<in> {..<n} - {d}. g (f x))"
    using assms sum.remove [of "{..<n}" d "\<lambda>x. g (f x)"] by simp
  ultimately show ?thesis by simp
qed

lemma ready_refs_nonneg: "0 \<le> ready_refs m u" by (auto simp: ready_refs_def intro: sum_nonneg)
lemma busy_refs_nonneg: "0 \<le> busy_refs m u" by (auto simp: busy_refs_def intro: sum_nonneg)


lemma sum_int_pos:
  fixes f :: "nat \<Rightarrow> int"
  assumes "\<And>d. 0 \<le> f d"
  shows "0 < (\<Sum>d < n. f d) \<longleftrightarrow> (\<exists>d < n. 0 < f d)"
proof (induction n)
  case (Suc n)
  have "0 \<le> (\<Sum>d < n. f d)" using assms by (simp add: sum_nonneg)
  with Suc assms [of n] show ?case by (auto simp: less_Suc_eq)
qed simp

lemma ready_refs_pos: "0 < ready_refs m u \<longleftrightarrow> in_ready m u"
  unfolding ready_refs_def in_ready_def by (subst sum_int_pos) (auto simp: count_greater_zero_iff)

lemma busy_refs_pos: "0 < busy_refs m u \<longleftrightarrow> running m u"
  unfolding busy_refs_def running_def by (subst sum_int_pos) auto

lemma refs_ge:
  "0 \<le> refs m u" "u \<in> inflight m \<Longrightarrow> ready_refs m u + busy_refs m u + 1 \<le> refs m u"
  "ready_refs m u + busy_refs m u \<le> refs m u" "int (count (m_waiting m) u) \<le> refs m u"
  using ready_refs_nonneg [of m u] busy_refs_nonneg [of m u] by (auto simp: refs_def)

lemma in_ready_alive: "inv_refs m \<Longrightarrow> in_ready m u \<Longrightarrow> alive (r_tasks m) u"
  using ready_refs_pos [of m u] refs_ge(3) [of m u] busy_refs_nonneg [of m u] accounted_alive [of "r_tasks m" "refs m" u]
  by (auto simp: inv_refs_def alive_def)

lemma inflight_alive: "inv_refs m \<Longrightarrow> u \<in> inflight m \<Longrightarrow> alive (r_tasks m) u"
  using refs_ge(2) [of u m] ready_refs_nonneg [of m u] busy_refs_nonneg [of m u] accounted_alive [of "r_tasks m" "refs m" u]
  by (auto simp: inv_refs_def alive_def)

lemma waiting_alive: "inv_refs m \<Longrightarrow> u \<in># m_waiting m \<Longrightarrow> alive (r_tasks m) u"
  using refs_ge(4) [of m u] accounted_alive [of "r_tasks m" "refs m" u]
  by (auto simp: inv_refs_def alive_def simp flip: count_greater_zero_iff)

lemma held_alive:
  assumes "inv_refs m" "c \<in> inflight m" "u \<in> m_held m c" "finite (inflight m)"
  shows "0 < refs m u" "alive (r_tasks m) u"
proof -
  have "0 < card {c \<in> inflight m. u \<in> m_held m c}" using assms by (subst card_gt_0_iff) auto
  then show p: "0 < refs m u" using ready_refs_nonneg [of m u] busy_refs_nonneg [of m u] by (simp add: refs_def)
  show "alive (r_tasks m) u" using accounted_alive [of "r_tasks m" "refs m" u] p assms(1) by (auto simp: inv_refs_def alive_def)
qed

lemma inv_finite: "inv allowed m \<Longrightarrow> finite (inflight m)"
proof (rule finite_subset [of _ "{..r_uid m}"])
  assume "inv allowed m"
  then have "inv_static m" "inv_alive m" by (simp_all add: inv_def)
  then show "inflight m \<subseteq> {..r_uid m}" by (auto simp: inv_static_def inv_alive_def inflight_def)
qed simp

lemma inv_task:
  assumes "inv allowed m" "GetObject (r_tasks m) u = Some t"
  shows "plain t" "obj_uid t = u" "u \<in> created m" "set (depend_uids t) \<subseteq> created m"
    "u \<in> m_submitted m \<Longrightarrow> task_submitted allowed m u t" "u \<notin> m_submitted m \<Longrightarrow> task_fresh allowed t"
    "m_deps m u = set (depend_uids t)"
  using assms by (auto simp: inv_def inv_tasks_def split: if_splits)

lemma inv_status:
  assumes "inv allowed m" "GetObject (r_tasks m) u = Some t"
  shows "t_status t \<in> {IRIS_NONE, IRIS_RUNNING, IRIS_COMPLETE}"
  using inv_task(5,6) [OF assms] by (cases "u \<in> m_submitted m") (auto simp: task_submitted_def task_fresh_def split: if_splits)

lemma inv_no_pending: "inv allowed m \<Longrightarrow> no_pending (r_tasks m)"
  using inv_status by (fastforce simp: no_pending_def iris_status_defs)

lemma invD:
  assumes "inv allowed m"
  shows "inv_static m" "inv_tasks allowed m" "inv_alive m" "inv_places m" "inv_refs m" "inv_held m" "inv_log m" "inv_wake m"
  using assms by (simp_all add: inv_def)

lemma log_ok_cong:
  assumes "log_ok deps l" "\<And>u. EStart u \<in> set l \<Longrightarrow> deps' u = deps u"
  shows "log_ok deps' l"
proof -
  have "deps' u = deps u" if "i < length l" "l ! i = EStart u" for i u using assms(2) that by (metis nth_mem)
  then show ?thesis using assms(1) unfolding log_ok_def by (auto split: event.splits)
qed

lemma log_ok_start:
  assumes "log_ok deps l" "EStart u \<notin> set l" "\<forall>d \<in> deps u. EComplete d \<in> set l"
  shows "log_ok deps (l @ [EStart u])"
  using assms by (auto simp: log_ok_def nth_append less_Suc_eq split: event.splits)

lemma log_ok_complete:
  assumes "log_ok deps l" "EComplete u \<notin> set l" "EStart u \<in> set l"
  shows "log_ok deps (l @ [EComplete u])"
  using assms by (auto simp: log_ok_def nth_append less_Suc_eq split: event.splits)

section \<open>The host builds tasks\<close>

lemma host_task:
  assumes "inv allowed m" "u \<in> created m" "u \<notin> m_submitted m"
  obtains t where "GetObject (r_tasks m) u = Some t" "plain t" "obj_uid t = u" "task_fresh allowed t" "set (depend_uids t) \<subseteq> created m"
proof -
  have "u \<notin> completed m" using invD(3) [OF assms(1)] assms(3) by (auto simp: inv_alive_def)
  with invD(3) [OF assms(1)] assms(2) obtain t where "GetObject (r_tasks m) u = Some t"
    by (auto simp: inv_alive_def alive_def)
  with inv_task [OF assms(1) this] assms(3) that show thesis by blast
qed

text \<open>A change of the registry at a task that is not submitted yet.\<close>

lemma inv_host_update:
  assumes i: "inv allowed m" and u: "u \<in> created m" "u \<notin> m_submitted m" and t: "GetObject (r_tasks m) u = Some t"
    and t': "same_refs t t'" "plain t'" "obj_uid t' = u" "task_fresh allowed t'" "set (depend_uids t') \<subseteq> created m"
  shows "inv allowed (m\<lparr>r_tasks := TrackObject (r_tasks m) t' u, m_deps := (m_deps m)(u := set (depend_uids t'))\<rparr>)" (is "inv allowed ?m")
proof -
  have a: "alive (TrackObject (r_tasks m) t' u) v = alive (r_tasks m) v" for v using t by (auto simp: alive_def iris_simps)
  have nu: "r_busy m d \<noteq> Some u" "\<not> in_ready m u" "\<not> running m u" "u \<notin> set (r_queue m)" "u \<notin> inflight m" for d
    using invD(4) [OF i] u(2) by (auto simp: inv_places_def inflight_def running_def)
  have acc: "accounted (r_tasks ?m) (refs m)"
    using accounted_update [OF _ t t'(1)] invD(5) [OF i] t'(4) by (simp add: inv_refs_def task_fresh_def)
  have ts: "task_submitted allowed ?m = task_submitted allowed m" by (intro ext) (simp add: task_submitted_def)
  have "inv_tasks allowed ?m" unfolding inv_tasks_def
  proof (intro allI impI)
    fix v tv assume "GetObject (r_tasks ?m) v = Some tv"
    then show "plain tv \<and> obj_uid tv = v \<and> v \<in> created ?m \<and> set (depend_uids tv) \<subseteq> created ?m \<and> m_deps ?m v = set (depend_uids tv) \<and>
        (if v \<in> m_submitted ?m then task_submitted allowed ?m v tv else task_fresh allowed tv)"
      using inv_task [OF i, of v tv] u t' by (cases "v = u") (auto simp: ts iris_simps)
  qed
  moreover have "inv_places ?m" using invD(4) [OF i] nu unfolding inv_places_def by (auto simp: iris_simps)
  moreover have "inv_log ?m"
  proof -
    have "u \<notin> completed m" using invD(3) [OF i] u by (auto simp: inv_alive_def)
    then have nl: "EStart u \<notin> set (m_log m)" using invD(7) [OF i] nu(3) by (simp add: inv_log_def)
    have "log_ok (m_deps m) (m_log m)" using invD(7) [OF i] by (simp add: inv_log_def)
    then have "log_ok (m_deps ?m) (m_log m)" by (rule log_ok_cong) (use nl in auto)
    with invD(7) [OF i] show ?thesis by (simp add: inv_log_def)
  qed
  moreover have "inv_held ?m" using invD(6) [OF i] nu(5) by (auto simp: inv_held_def a)
  moreover have "inv_wake ?m" using invD(8) [OF i] nu(4) by (auto simp: inv_wake_def)
  moreover have "inv_alive ?m" using invD(3) [OF i] u(1) by (simp add: inv_alive_def a)
  ultimately show ?thesis using invD(1) [OF i] acc by (simp add: inv_def inv_static_def inv_refs_def)
qed

text \<open>A change that leaves the dependencies alone.\<close>

lemma inv_host_same:
  assumes i: "inv allowed m" and u: "u \<in> created m - m_submitted m"
    and f: "\<And>t. GetObject (r_tasks m) u = Some t \<Longrightarrow> plain t \<Longrightarrow> \<exists>t'. f t = Some t' \<and> same_refs t t' \<and> same_shape t t' \<and> (task_fresh allowed t \<longrightarrow> task_fresh allowed t')"
  shows "\<exists>m'. rt_try u f m = Some m' \<and> inv allowed m'"
proof -
  obtain t where t: "GetObject (r_tasks m) u = Some t" "plain t" "obj_uid t = u" "task_fresh allowed t" "set (depend_uids t) \<subseteq> created m"
    by (rule host_task [OF i]) (use u in auto)
  from f [OF t(1,2)] obtain t' where t': "f t = Some t'" "same_refs t t'" "same_shape t t'" "task_fresh allowed t'" using t(4) by blast
  have d: "(m_deps m)(u := set (depend_uids t')) = m_deps m" 
    using inv_task(7) [OF i t(1)] t'(3) by (simp add: same_shape_def fun_upd_idem)
  let ?m = "m\<lparr>r_tasks := TrackObject (r_tasks m) t' u\<rparr>"
  have "inv allowed (?m\<lparr>m_deps := (m_deps m)(u := set (depend_uids t'))\<rparr>)"
    using inv_host_update [OF i _ _ t(1) t'(2)] u t t'(3,4) by (auto simp: same_shape_def)
  moreover have "?m\<lparr>m_deps := (m_deps m)(u := set (depend_uids t'))\<rparr> = ?m" unfolding d by simp
  ultimately have "inv allowed ?m" by simp
  then show ?thesis using t(1) t'(1) by (simp add: rt_try_def)
qed

lemma inv_create:
  assumes i: "inv allowed m" and j: "length junk = 6"
  shows "\<exists>m'. exec e (ACreate name graph_end junk) m = Some m' \<and> inv allowed m'"
proof -
  let ?u = "Suc (r_uid m)" and ?t = "Task_new (r_flags m) (Suc (r_uid m)) (if graph_end then IRIS_TASK_PERM else IRIS_TASK) name junk"
  let ?m = "m\<lparr>r_uid := ?u, r_tasks := TrackObject (r_tasks m) ?t ?u, m_created := insert ?u (created m)\<rparr>"
  have e: "exec e (ACreate name graph_end junk) m = Some ?m"
    by (cases graph_end) (simp_all add: TaskCreate_def Task_Create_def iris_create_new_uid_def Let_def)
  have c: "?u \<notin> created m" using invD(1) [OF i] by (auto simp: inv_static_def)
  have n: "GetObject (r_tasks m) ?u = None" using inv_task(3) [OF i] c by (cases "GetObject (r_tasks m) ?u") auto
  have ns: "?u \<notin> m_submitted m" using invD(3) [OF i] c by (auto simp: inv_alive_def)
  have a: "alive (TrackObject (r_tasks m) ?t ?u) v = (v = ?u \<or> alive (r_tasks m) v)" for v
    by (auto simp: alive_def iris_simps)
  have dc: "m_deps m v \<subseteq> created m" if "v \<in> inflight m" for v
    using inflight_alive [OF invD(5) [OF i] that] inv_task(4,7) [OF i, of v] by (auto simp: alive_def)
  have nd: "m_deps m ?u = {}" using invD(3) [OF i] c by (auto simp: inv_alive_def)
  have b: "r_busy m d \<noteq> Some ?u" for d using invD(4) [OF i] ns by (auto simp: inv_places_def inflight_def)
  have ts: "task_submitted allowed ?m = task_submitted allowed m" by (intro ext) (simp add: task_submitted_def)
  have pl: "plain ?t" "task_fresh allowed ?t" "obj_uid ?t = ?u" "depend_uids ?t = []"
    using invD(1) [OF i] j
    by (simp_all add: plain_def meta_wf_def meta_defs task_fresh_def inv_static_def flags_default_def uid_array_ok_def depend_uids_def iris_default_def iris_pending_def)
  have "inv_tasks allowed ?m" unfolding inv_tasks_def
  proof (intro allI impI)
    fix v tv assume "GetObject (r_tasks ?m) v = Some tv"
    then show "plain tv \<and> obj_uid tv = v \<and> v \<in> created ?m \<and> set (depend_uids tv) \<subseteq> created ?m \<and> m_deps ?m v = set (depend_uids tv) \<and>
        (if v \<in> m_submitted ?m then task_submitted allowed ?m v tv else task_fresh allowed tv)"
      using inv_task [OF i, of v tv] ns pl nd by (cases "v = ?u") (auto simp: ts iris_simps)
  qed
  moreover have "inv_places ?m" using invD(4) [OF i] b by (simp add: inv_places_def iris_simps)
  moreover have "refs m ?u = 0" using invD(5) [OF i] n by (simp add: inv_refs_def accounted_def)
  with invD(5) [OF i] have "inv_refs ?m"
    using pl(2) by (auto simp: inv_refs_def accounted_def iris_simps task_fresh_def)
  moreover have "inv_held ?m" using invD(6) [OF i] dc c by (simp add: inv_held_def a) blast
  moreover have "inv_alive ?m" using invD(3) [OF i] by (auto simp: inv_alive_def a)
  moreover have "inv_static ?m" using invD(1) [OF i] by (auto simp: inv_static_def)
  ultimately show ?thesis using e invD [OF i] by (simp add: inv_def inv_log_def inv_wake_def)
qed

text \<open>Any other object of the runtime (a kernel, a memory object) only takes a uid.\<close>

lemma inv_new_object:
  assumes i: "inv allowed m"
  shows "inv allowed (m\<lparr>r_uid := Suc (r_uid m)\<rparr>)"
proof -
  let ?m = "m\<lparr>r_uid := Suc (r_uid m)\<rparr>"
  have "task_submitted allowed ?m = task_submitted allowed m" by (intro ext) (simp add: task_submitted_def)
  moreover have "inv_static ?m" using invD(1) [OF i] by (auto simp: inv_static_def)
  ultimately show ?thesis using invD [OF i]
    by (simp add: inv_def inv_tasks_def inv_alive_def inv_places_def inv_refs_def inv_held_def inv_log_def inv_wake_def)
qed

text \<open>Commands and dependencies of a task that is not submitted.\<close>

lemma AddCommand_keeps:
  "same_refs t (AddCommand c k t)" "same_shape t (AddCommand c k t)" "task_fresh allowed t \<Longrightarrow> task_fresh allowed (AddCommand c k t)"
  by (simp_all add: AddCommand_def Let_def same_refs_def same_shape_def plain_def meta_wf_def depend_uids_def task_fresh_def)

lemma rt_at_try: "rt_at u f m = rt_try u (\<lambda>t. Some (f t)) m"
  by (simp add: rt_at_def rt_try_def at_object_def split: option.splits)

lemma inv_add_command:
  assumes "inv allowed m" "u \<in> created m - m_submitted m"
  shows "\<exists>m'. rt_at u (AddCommand c k) m = Some m' \<and> inv allowed m'"
  unfolding rt_at_try by (rule inv_host_same [OF assms]) (use AddCommand_keeps in blast)

lemma inv_set_name:
  assumes "inv allowed m" "u \<in> created m - m_submitted m"
  shows "\<exists>m'. rt_at u (set_name n) m = Some m' \<and> inv allowed m'"
  unfolding rt_at_try
  by (rule inv_host_same [OF assms])
    (simp add: set_name_def same_refs_def same_shape_def plain_def meta_wf_def depend_uids_def task_fresh_def)

lemma inv_set_policy:
  assumes i: "inv allowed m" and u: "u \<in> created m - m_submitted m" and p: "p = iris_default \<or> allowed p" "p \<noteq> iris_pending"
  shows "\<exists>m'. set_task_policy u p opt m = Some m' \<and> inv allowed m'"
proof -
  obtain t where t: "GetObject (r_tasks m) u = Some t" "plain t" "task_fresh allowed t" by (rule host_task [OF i]) (use u in auto)
  then have "set_task_policy u p opt m = rt_try u (\<lambda>t. Some (set_opt opt (set_brs_policy1 p t))) m"
    by (simp add: set_task_policy_def set_brs_policy_flat plain_def rt_try_def at_object_def iris_simps)
  moreover have "same_refs t (set_opt opt (set_brs_policy1 p t)) \<and> same_shape t (set_opt opt (set_brs_policy1 p t))" for t
    using same_refs_trans [OF same_refs_updates(9,10)] same_shape_trans [OF same_shape_policy same_shape_updates(9)] by blast
  moreover have "task_fresh allowed (set_opt opt (set_brs_policy1 p t))" if "task_fresh allowed t" for t
    using that p by (auto simp: task_fresh_def set_opt_def set_brs_policy1_def set_status_def Let_def split: option.splits)
  ultimately show ?thesis using inv_host_same [OF i u] by simp
qed

lemma block_update_keeps:
  assumes "length b = length (t_meta_block t)"
  shows "same_refs t (t\<lparr>t_meta_block := b\<rparr>)" "same_shape t (t\<lparr>t_meta_block := b\<rparr>)" "task_fresh allowed t \<longrightarrow> task_fresh allowed (t\<lparr>t_meta_block := b\<rparr>)"
  using assms by (simp_all add: same_refs_def same_shape_def plain_def meta_wf_def depend_uids_def task_fresh_def)

lemma inv_set_metadata:
  assumes "inv allowed m" "u \<in> created m - m_submitted m" "i \<le> 8"
  shows "\<exists>m'. rt_try u (set_metadata i v) m = Some m' \<and> inv allowed m'"
proof (rule inv_host_same [OF assms(1,2)])
  fix t assume "plain t"
  then have "i < length (t_meta_block t)" using assms(3) by (simp add: plain_def meta_wf_def meta_defs)
  then show "\<exists>t'. set_metadata i v t = Some t' \<and> same_refs t t' \<and> same_shape t t' \<and> (task_fresh allowed t \<longrightarrow> task_fresh allowed t')"
    using block_update_keeps by (auto simp: set_metadata_def store_def)
qed

lemma inv_set_metadata_all:
  assumes "inv allowed m" "u \<in> created m - m_submitted m" "length mdata \<le> 9"
  shows "\<exists>m'. rt_try u (set_metadata_all mdata (length mdata)) m = Some m' \<and> inv allowed m'"
proof (rule inv_host_same [OF assms(1,2)])
  fix t assume "plain t"
  then have "write_cells 0 mdata (t_meta_block t) = Some (mdata @ drop (length mdata) (t_meta_block t))"
    using assms(3) by (intro write_cells_self) (simp_all add: plain_def meta_wf_def meta_defs)
  then show "\<exists>t'. set_metadata_all mdata (length mdata) t = Some t' \<and> same_refs t t' \<and> same_shape t t' \<and> (task_fresh allowed t \<longrightarrow> task_fresh allowed t')"
    using block_update_keeps assms(3) \<open>plain t\<close>
    by (simp add: set_metadata_all_def plain_def meta_wf_def meta_defs)
qed

lemma set_fold_push_unique: "set (foldl (\<lambda>xs d. push_unique d xs) xs ds) = set xs \<union> set ds"
  by (induction ds arbitrary: xs) auto

lemma inv_depend:
  assumes i: "inv allowed m" and u: "u \<in> created m - m_submitted m" and ds: "set ds \<subseteq> created m"
  shows "\<exists>m'. exec e (ADepend u ds) m = Some m' \<and> inv allowed m'"
proof (cases "ds = []")
  case True
  obtain t where "GetObject (r_tasks m) u = Some t" by (rule host_task [OF i]) (use u in auto)
  with True i show ?thesis by (simp add: TaskDepend_def)
next
  case False
  obtain t where t: "GetObject (r_tasks m) u = Some t" "plain t" "obj_uid t = u" "task_fresh allowed t" "set (depend_uids t) \<subseteq> created m"
    by (rule host_task [OF i]) (use u in auto)
  have "uid_array_ok (t_depends t, t_depends_max t)" "\<not> enable_proactive (r_flags m)"
    using t(2) invD(1) [OF i] by (auto simp: plain_def inv_static_def flags_default_def)
  from AddDepends_eq [OF t(1) this False] obtain cap where
    cap: "uid_array_ok (Some (foldl (\<lambda>xs d. push_unique d xs) (depend_uids t) ds), cap)" and
    a: "AddDepends (r_flags m) u ds (r_tasks m) = Some (TrackObject (r_tasks m)
      (t\<lparr>t_depends := Some (foldl (\<lambda>xs d. push_unique d xs) (depend_uids t) ds), t_depends_max := cap\<rparr>) u)"
    by blast
  let ?t = "t\<lparr>t_depends := Some (foldl (\<lambda>xs d. push_unique d xs) (depend_uids t) ds), t_depends_max := cap\<rparr>"
  have du: "set (depend_uids ?t) = m_deps m u \<union> set ds"
    using inv_task(7) [OF i t(1)] by (simp add: depend_uids_def [of ?t] set_fold_push_unique)
  have "inv allowed (m\<lparr>r_tasks := TrackObject (r_tasks m) ?t u, m_deps := (m_deps m)(u := set (depend_uids ?t))\<rparr>)"
  proof (rule inv_host_update [OF i _ _ t(1)])
    show "set (depend_uids ?t) \<subseteq> created m" using t(5) ds inv_task(7) [OF i t(1)] unfolding du by simp
    show "plain ?t" "task_fresh allowed ?t" using t(2,4) cap by (simp_all add: plain_def meta_wf_def task_fresh_def)
  qed (use u t in \<open>auto simp: same_refs_def\<close>)
  with a t(1) show ?thesis unfolding du by (simp add: TaskDepend_def)
qed

section \<open>Submission\<close>

text \<open>What the invariant reads of a task.\<close>

definition core :: "Task \<Rightarrow> bool \<times> uid \<times> uid list \<times> nat \<times> RetainMode \<times> bool \<times> int \<times> devno option" where
  "core t = (plain t, obj_uid t, depend_uids t, t_status t, retain_mode t, t_user t, t_brs_policy t, t_dev t)"

lemma core_ref_cnt [simp]: "core (t\<lparr>ref_cnt := c\<rparr>) = core t"
  by (simp add: core_def plain_def meta_wf_def depend_uids_def)

lemma core_Retain [simp]: "core (Retain t) = core t"
  by (simp add: Retain_def)

lemma core_Retain_funpow [simp]: "core ((Retain ^^ k) t) = core t"
  by (induction k) simp_all

lemma core_recommended [simp]: "core (t\<lparr>t_recommended_dev := x\<rparr>) = core t"
  by (simp add: core_def plain_def meta_wf_def depend_uids_def)

lemma task_submitted_core: "core t = core t' \<Longrightarrow> task_submitted allowed m u t = task_submitted allowed m u t'"
  by (simp add: core_def task_submitted_def)

lemma task_fresh_core: "core t = core t' \<Longrightarrow> task_fresh allowed t = task_fresh allowed t'"
  by (simp add: core_def task_fresh_def)

text \<open>Every task of \<open>h'\<close> was a task of \<open>h\<close> with the same core.\<close>

definition below :: "tasks \<Rightarrow> tasks \<Rightarrow> bool" where
  "below h' h \<longleftrightarrow> (\<forall>u t'. GetObject h' u = Some t' \<longrightarrow> (\<exists>t. GetObject h u = Some t \<and> core t' = core t))"

lemma belowD: "below h' h \<Longrightarrow> GetObject h' u = Some t' \<Longrightarrow> \<exists>t. GetObject h u = Some t \<and> core t' = core t"
  by (simp add: below_def)

lemma below_alive: "below h' h \<Longrightarrow> alive h' u \<Longrightarrow> alive h u"
  by (auto simp: below_def alive_def)

lemma task_inv_core:
  assumes "inv allowed m" "GetObject (r_tasks m) u = Some t" "core t' = core t"
  shows "plain t'" "obj_uid t' = u" "u \<in> created m" "set (depend_uids t') \<subseteq> created m"
    "u \<in> m_submitted m \<Longrightarrow> task_submitted allowed m u t'" "u \<notin> m_submitted m \<Longrightarrow> task_fresh allowed t'"
    "m_deps m u = set (depend_uids t')"
  using inv_task [OF assms(1,2)] task_submitted_core [OF assms(3)] task_fresh_core [OF assms(3)] assms(3)
  by (auto simp: core_def)

text \<open>A task's own policy or the graph's, for a submission as part of a graph.\<close>

definition graph_policy :: "int \<Rightarrow> Task \<Rightarrow> int" where
  "graph_policy p t = (if t_brs_policy t = iris_default then p else t_brs_policy t)"

lemma graph_submit_host:
  assumes "GetObject (r_tasks m) u = Some t" "plain t" "t_status t = IRIS_NONE" "p \<noteq> iris_pending" "0 < ndevs m"
  shows "exec e (AGraphSubmit u p) m = host_submit u (graph_policy p t) (Some (t_opt t)) m"
proof -
  have flat: "t_subtasks t = []" "\<not> t_df_scheduling t" using assms(2) by (auto simp: plain_def)
  let ?t = "t\<lparr>t_brs_policy := p\<rparr>"
  have p1: "set_brs_policy1 p t = ?t" using assms(3,4) by (simp add: set_brs_policy1_def Let_def iris_status_defs)
  have same: "Task_Submit p opt sync u (TrackObject h (Retain ?t) u) = Task_Submit p opt sync u (TrackObject h (Retain t) u)" for h opt sync
  proof -
    have "set_brs_policy p u (TrackObject (TrackObject h x u) (set_status IRIS_NONE x) u) =
        Some (TrackObject h (set_brs_policy1 p (set_status IRIS_NONE x)) u)"
      if "t_subtasks x = []" "\<not> t_df_scheduling x" for x
      using set_brs_policy_flat [of "TrackObject (TrackObject h x u) (set_status IRIS_NONE x) u" u "set_status IRIS_NONE x" p] that
      by (simp add: iris_simps)
    from this [of "Retain ?t"] this [of "Retain t"] flat
    have e: "set_brs_policy p u (TrackObject (TrackObject h (Retain x) u) (set_status IRIS_NONE (Retain x)) u) =
        Some (TrackObject h (set_brs_policy1 p (set_status IRIS_NONE (Retain t))) u)" if "x = ?t \<or> x = t" for x
      using that by (auto simp: set_brs_policy1_def set_status_def Retain_def Let_def)
    show ?thesis using e by (simp add: Task_Submit_def at_object_def iris_simps)
  qed
  show ?thesis
  proof (cases "t_brs_policy t = iris_default")
    case True
    have "graph_submit_task p False u m = map_option (\<lambda>h. Scheduler_Enqueue u (m\<lparr>r_tasks := h\<rparr>))
        (Task_Submit p (Some (t_opt t)) False u (TrackObject (r_tasks m) (Retain ?t) u))"
      using True assms(1) flat p1 by (simp add: graph_submit_task_def set_brs_policy_flat at_object_def iris_simps)
        (simp add: TrackObject_def Retain_def map_conv_bind_option comp_def)
    moreover have "TaskSubmit u p (Some (t_opt t)) False m = map_option (\<lambda>h. let m = Scheduler_Enqueue u (m\<lparr>r_tasks := h\<rparr>) in (m, int (r_nfailures m)))
        (Task_Submit p (Some (t_opt t)) False u (TrackObject (r_tasks m) (Retain t) u))"
      using assms(1,5) by (simp add: TaskSubmit_def rt_at_def at_object_def map_conv_bind_option Let_def comp_def)
    ultimately show ?thesis using True by (simp add: host_submit_def same graph_policy_def option.map_comp comp_def Let_def)
  next
    case False
    then show ?thesis using assms(1,5)
      by (simp add: host_submit_def graph_policy_def graph_submit_task_def TaskSubmit_def rt_at_def at_object_def iris_simps
          map_conv_bind_option) (simp add: Retain_def)
  qed
qed

lemma inv_submit:
  assumes i: "inv allowed m" and u: "u \<in> created m - m_submitted m" and p: "allowed p" "p \<noteq> iris_pending"
  shows "\<exists>m'. host_submit u p opt m = Some m' \<and> inv allowed m'"
proof -
  let ?h = "r_tasks m"
  obtain t where t: "GetObject ?h u = Some t" "plain t" "obj_uid t = u" "task_fresh allowed t" "set (depend_uids t) \<subseteq> created m"
    by (rule host_task [OF i]) (use u in auto)
  let ?D = "depend_uids t"
  let ?H = "{d \<in> set ?D. alive ?h d}"
  let ?h1 = "TrackObject ?h (Retain t) u"
  have n: "0 < ndevs m" "r_tasks m = ?h" using invD(1) [OF i] by (auto simp: inv_static_def)
  have "no_pending ?h1" using inv_no_pending [OF i] t(1,4)
    by (auto simp: no_pending_def iris_simps task_fresh_def Retain_def)
  moreover have "GetObject ?h1 u = Some (Retain t)" "plain (Retain t)" "depend_uids (Retain t) = ?D"
    using t(2) by (simp_all add: iris_simps plain_def meta_wf_def Retain_def depend_uids_def)
  ultimately obtain t' where s: "Task_Submit p opt False u ?h1 = Some (foldl retain_if_exists (TrackObject ?h t' u) ?D)"
    and t': "same_refs (Retain t) t'" "same_shape (Retain t) t'" "retain_mode t' = CREATE_MODE" "t_status t' = IRIS_NONE"
      "t_brs_policy t' = p" "t_user t'"
    using Task_Submit_plain [of ?h1 u "Retain t" p opt False] p(2) t(4) by (auto simp: task_fresh_def)
  let ?h' = "foldl retain_if_exists (TrackObject ?h t' u) ?D"
  define m' where "m' = (Scheduler_Enqueue u (m\<lparr>r_tasks := ?h'\<rparr>))
    \<lparr>m_submitted := insert u (m_submitted m), m_held := (m_held m)(u := ?H)\<rparr>"
  have ex: "host_submit u p opt m = Some m'"
    using t(1) n s by (simp add: host_submit_def record_submit_def TaskSubmit_def rt_at_def at_object_def m'_def)
  have f: "r_tasks m' = ?h'" "r_queue m' = r_queue m @ [u]" "m_submitted m' = insert u (m_submitted m)"
    "m_deps m' = m_deps m" "m_held m' = (m_held m)(u := ?H)" "r_sem_sched m' = Suc (r_sem_sched m)"
    "r_busy m' = r_busy m" "r_ready m' = r_ready m" "m_log m' = m_log m" "m_waiting m' = m_waiting m" "ndevs m' = ndevs m"
    "created m' = created m" "completed m' = completed m" "in_ready m' = in_ready m" "running m' = running m"
    "ready_refs m' = ready_refs m" "busy_refs m' = busy_refs m"
    "m_worker_awake m' = m_worker_awake m" "r_sem_worker m' = r_sem_worker m"
    by (simp_all add: m'_def Scheduler_Enqueue_def Invoke_def QueueTask_Enqueue_def)
  have uc: "u \<notin> completed m" "u \<notin> inflight m" using invD(3) [OF i] u by (auto simp: inv_alive_def inflight_def)
  have infl: "inflight m' = insert u (inflight m)" using uc by (auto simp: inflight_def f)
  have dist: "distinct ?D" by (rule plain_depends_distinct [OF t(2)])
  have nr: "\<not> running m u" "\<not> in_ready m u" "r_busy m d \<noteq> Some u" for d
    using invD(4) [OF i] u by (auto simp: inv_places_def inflight_def running_def)
  have shape: "plain t'" "obj_uid t' = u" "depend_uids t' = ?D"
    using t'(2) t(2,3) by (auto simp: same_shape_def plain_def meta_wf_def Retain_def depend_uids_def)
  have lk: "GetObject ?h' v = (if v \<in> set ?D then map_option Retain (if v = u then Some t' else GetObject ?h v)
      else if v = u then Some t' else GetObject ?h v)" for v
    unfolding retain_deps_lookup [OF dist] by (simp add: iris_simps)
  have al: "alive ?h' v = alive ?h v" for v using t(1) by (auto simp: alive_def lk)
  have task: "if v = u then core tv = core t' else \<exists>t. GetObject ?h v = Some t \<and> core tv = core t"
    if "GetObject ?h' v = Some tv" for v tv
    using that by (auto simp: lk split: if_splits)
  have "inv_tasks allowed m'" unfolding inv_tasks_def
  proof (intro allI impI)
    fix v tv assume "GetObject (r_tasks m') v = Some tv"
    from task [OF this [unfolded f]]
    show "plain tv \<and> obj_uid tv = v \<and> v \<in> created m' \<and> set (depend_uids tv) \<subseteq> created m' \<and> m_deps m' v = set (depend_uids tv) \<and>
        (if v \<in> m_submitted m' then task_submitted allowed m' v tv else task_fresh allowed tv)"
    proof (cases "v = u")
      case True
      with \<open>GetObject (r_tasks m') v = Some tv\<close> task f have c: "core tv = core t'" by (metis (full_types))
      then have "task_submitted allowed m' u tv"
        using t' p shape uc nr by (auto simp: task_submitted_def core_def f)
      with c True shape t(5) u inv_task(7) [OF i t(1)] show ?thesis by (auto simp: core_def f)
    next
      case False
      with \<open>GetObject (r_tasks m') v = Some tv\<close> task f obtain t0 where
        c: "GetObject ?h v = Some t0" "core tv = core t0" by (metis (full_types))
      have "task_submitted allowed m' v tv" if "task_submitted allowed m v tv"
        using that False by (auto simp: task_submitted_def f split: if_splits)
      with task_inv_core [OF i c] False show ?thesis by (auto simp: f)
    qed
  qed
  moreover have "inv_places m'"
  proof -
    have dv: "t_dev tv = Some d" if "r_busy m d = Some v" "GetObject ?h' v = Some tv" for d v tv
      using that task [OF that(2)] nr(3) invD(4) [OF i] by (auto simp: inv_places_def core_def split: if_splits)
    have "u \<notin> set (r_queue m)" using invD(4) [OF i] uc by (auto simp: inv_places_def)
    with invD(4) [OF i] nr dv show ?thesis by (auto simp: inv_places_def f infl)
  qed
  moreover have "inv_refs m'"
  proof -
    have "accounted ?h1 ((refs m)(u := refs m u + 1))" using accounted_retain [OF _ t(1)] invD(5) [OF i] by (simp add: inv_refs_def)
    then have "accounted (TrackObject ?h1 t' u) ((refs m)(u := refs m u + 1))"
      by (rule accounted_update [OF _ _ t'(1)]) (simp_all add: iris_simps t'(3))
    then have "accounted (TrackObject ?h t' u) ((refs m)(u := refs m u + 1))" by (simp only: TrackObject_twice)
    then have "accounted ?h' (\<lambda>v. ((refs m)(u := refs m u + 1)) v + (if v \<in> set ?D \<and> alive (TrackObject ?h t' u) v then 1 else 0))"
      by (rule accounted_retain_deps [OF _ dist])
    note acc = this
    have eq: "refs m' v = ((refs m)(u := refs m u + 1)) v + (if v \<in> set ?D \<and> alive (TrackObject ?h t' u) v then 1 else 0)" for v
    proof -
      have "{c \<in> inflight m'. v \<in> m_held m' c} =
          (if v \<in> ?H then insert u {c \<in> inflight m. v \<in> m_held m c} else {c \<in> inflight m. v \<in> m_held m c})"
        using uc(2) by (auto simp: infl f)
      then have "int (card {c \<in> inflight m'. v \<in> m_held m' c}) = int (card {c \<in> inflight m. v \<in> m_held m c}) + (if v \<in> ?H then 1 else 0)"
        using uc(2) inv_finite [OF i] by (simp add: card_insert_if)
      moreover have "alive (TrackObject ?h t' u) v = alive ?h v" using t(1) by (auto simp: alive_def iris_simps)
      ultimately show ?thesis using uc(2) by (auto simp: refs_def f infl)
    qed
    show ?thesis unfolding inv_refs_def f by (rule accounted_cong [OF acc eq [symmetric]])
  qed
  moreover have "inv_held m'" using invD(6) [OF i] uc(2) inv_task(7) [OF i t(1)] by (auto simp: inv_held_def f infl al)
  moreover have "inv_log m'" using invD(7) [OF i] by (simp add: inv_log_def f)
  moreover have "inv_wake m'" using invD(8) [OF i] by (simp add: inv_wake_def f)
  moreover have "inv_alive m'" using invD(3) [OF i] u al by (auto simp: inv_alive_def f)
  moreover have "inv_static m'" using invD(1) [OF i]
    by (simp add: inv_static_def f) (simp add: m'_def Scheduler_Enqueue_def Invoke_def)
  ultimately show ?thesis using ex by (auto simp: inv_def)
qed


section \<open>Waiting and waking\<close>

text \<open>A step that only gives tasks up or changes their counts keeps what the invariant says of tasks.\<close>

lemma inv_tasks_below:
  assumes i: "inv allowed m" and b: "below (r_tasks m') (r_tasks m)"
    and "created m' = created m" "m_submitted m' = m_submitted m" "m_deps m' = m_deps m" "completed m' = completed m"
      "running m' = running m" "r_queue m' = r_queue m" "in_ready m' = in_ready m"
  shows "inv_tasks allowed m'"
  unfolding inv_tasks_def
proof (intro allI impI)
  fix v tv assume "GetObject (r_tasks m') v = Some tv"
  from belowD [OF b this] obtain t where "GetObject (r_tasks m) v = Some t" "core tv = core t" by blast
  from task_inv_core [OF i this] assms(3-)
  show "plain tv \<and> obj_uid tv = v \<and> v \<in> created m' \<and> set (depend_uids tv) \<subseteq> created m' \<and> m_deps m' v = set (depend_uids tv) \<and>
      (if v \<in> m_submitted m' then task_submitted allowed m' v tv else task_fresh allowed tv)"
    by (auto simp: task_submitted_def)
qed

lemma inv_places_below:
  assumes "inv_places m" and b: "below (r_tasks m') (r_tasks m)"
    and "m_submitted m' = m_submitted m" "m_deps m' = m_deps m" "completed m' = completed m" "inflight m' = inflight m"
      "running m' = running m" "r_queue m' = r_queue m" "in_ready m' = in_ready m" "r_busy m' = r_busy m"
      "r_ready m' = r_ready m" "ndevs m' = ndevs m"
  shows "inv_places m'"
proof -
  have "t_dev tv = Some d" if "r_busy m d = Some v" "GetObject (r_tasks m') v = Some tv" for d v tv
    using belowD [OF b that(2)] that(1) assms(1) by (auto simp: inv_places_def core_def)
  with assms(1,3-) show ?thesis by (simp add: inv_places_def)
qed

lemma inv_wait_begin:
  assumes i: "inv allowed m"
  shows "\<exists>m'. exec e (AWaitBegin u) m = Some m' \<and> inv allowed m'"
proof (cases "GetObject (r_tasks m) u")
  case None
  then show ?thesis using i by (auto simp: TaskWait_begin_def retain_if_exists_def alive_def)
next
  case (Some t)
  let ?h = "TrackObject (r_tasks m) (Retain t) u"
  define m' where "m' = m\<lparr>r_tasks := ?h, m_waiting := add_mset u (m_waiting m)\<rparr>"
  have ex: "exec e (AWaitBegin u) m = Some m'"
    using Some by (simp add: TaskWait_begin_def retain_if_exists_def alive_def m'_def)
  have b: "below (r_tasks m') (r_tasks m)" using Some by (auto simp: below_def m'_def iris_simps)
  have al: "alive ?h v = alive (r_tasks m) v" for v using Some by (auto simp: alive_def iris_simps)
  have "accounted ?h (refs m')"
  proof (rule accounted_cong [OF accounted_retain [OF _ Some]])
    show "accounted (r_tasks m) (refs m)" using invD(5) [OF i] by (simp add: inv_refs_def)
    show "((refs m)(u := refs m u + 1)) v = refs m' v" for v by (simp add: refs_def m'_def)
  qed
  moreover have "inv_tasks allowed m'" by (rule inv_tasks_below [OF i b]) (simp_all add: m'_def)
  moreover have "inv_places m'" by (rule inv_places_below [OF invD(4) [OF i] b]) (simp_all add: m'_def)
  ultimately have "inv allowed m'" using invD [OF i]
    by (simp add: inv_def inv_static_def inv_alive_def inv_refs_def inv_held_def inv_log_def inv_wake_def m'_def al)
  with ex show ?thesis by blast
qed

text \<open>Giving one held reference back: a task that goes is complete and nobody's dependency any more.\<close>

lemma inv_release:
  assumes i: "inv allowed m" and t: "GetObject (r_tasks m) u = Some t" and u: "u \<in> completed m \<or> running m u"
    and R: "\<And>v. refs m v = refs m' v + (if v = u then 1 else 0)"
    and m': "created m' = created m" "m_submitted m' = m_submitted m" "m_deps m' = m_deps m" "m_log m' = m_log m"
      "r_queue m' = r_queue m" "r_busy m' = r_busy m" "ndevs m' = ndevs m" "m_held m' = m_held m"
    and rd: "\<And>v. v \<noteq> u \<Longrightarrow> in_ready m' v = in_ready m v" "in_ready m' u \<Longrightarrow> in_ready m u"
      "\<And>d. ndevs m \<le> d \<Longrightarrow> QueueReady_content (r_ready m' d) = {#}"
    and st: "inv_static m'" "inv_wake m'"
  shows "\<exists>h c. Release u (r_tasks m) = Some (h, c) \<and> inv allowed (m'\<lparr>r_tasks := h\<rparr>)"
proof -
  have cm: "completed m' = completed m" "inflight m' = inflight m" "running m' = running m" "busy_refs m' = busy_refs m"
    using m' by (auto simp: completed_def inflight_def running_def fun_eq_iff busy_refs_def)
  have acc: "accounted (r_tasks m) (refs m)" using invD(5) [OF i] by (simp add: inv_refs_def)
  have pos: "0 < refs m u" using R [of u] refs_ge(1) [of m' u] by simp
  obtain h c where h: "Release u (r_tasks m) = Some (h, c)" "accounted h ((refs m)(u := refs m u - 1))"
    "\<forall>v. v \<noteq> u \<longrightarrow> GetObject h v = GetObject (r_tasks m) v"
    "GetObject h u = (if retain_mode t = PROCESS_MODE \<and> refs m u = 1 then None else Some (t\<lparr>ref_cnt := ref_cnt t - 1\<rparr>))"
    using accounted_release [OF acc t pos] by blast
  let ?m = "m'\<lparr>r_tasks := h\<rparr>"
  have b: "below h (r_tasks m)" unfolding below_def using h(3,4) t by (metis core_ref_cnt option.distinct(1) option.inject)
  have gone: "alive h v \<or> v \<in> completed m" if "alive (r_tasks m) v" for v
  proof (cases "v = u")
    case True
    have "u \<in> completed m" if "GetObject h u = None"
    proof (rule ccontr)
      assume "u \<notin> completed m"
      then have "running m' u" using u cm by simp
      then have "0 < busy_refs m' u" by (simp add: busy_refs_pos)
      then have "0 < refs m' u" using refs_ge(3) [of m' u] ready_refs_nonneg [of m' u] by simp
      with R [of u] that h(4) show False by (auto split: if_splits)
    qed
    with True show ?thesis by (auto simp: alive_def)
  next
    case False
    with h(3) that show ?thesis by (simp add: alive_def)
  qed
  have "inv_tasks allowed ?m" unfolding inv_tasks_def
  proof (intro allI impI)
    fix v tv assume "GetObject (r_tasks ?m) v = Some tv"
    then obtain t0 where t0: "GetObject (r_tasks m) v = Some t0" "core tv = core t0" using belowD [OF b] by auto
    have "task_submitted allowed ?m v tv" if "task_submitted allowed m v tv"
      using that u rd(1) by (cases "v = u") (auto simp: task_submitted_def cm m' split: if_splits)
    with task_inv_core [OF i t0]
    show "plain tv \<and> obj_uid tv = v \<and> v \<in> created ?m \<and> set (depend_uids tv) \<subseteq> created ?m \<and> m_deps ?m v = set (depend_uids tv) \<and>
        (if v \<in> m_submitted ?m then task_submitted allowed ?m v tv else task_fresh allowed tv)" by (auto simp: m')
  qed
  moreover have "inv_places ?m"
  proof -
    have dv: "t_dev tv = Some d" if "r_busy m d = Some v" "GetObject h v = Some tv" for d v tv
      using belowD [OF b that(2)] that(1) invD(4) [OF i] by (auto simp: inv_places_def core_def)
    have r: "in_ready m v" if "in_ready m' v" for v using that rd by (cases "v = u") auto
    show ?thesis using invD(4) [OF i] dv r rd(3) unfolding inv_places_def by (simp add: m' cm) blast
  qed
  moreover have "inv_refs ?m" unfolding inv_refs_def
    by (rule accounted_cong [of _ "(refs m)(u := refs m u - 1)"]) (use h(2) R in auto)
  moreover have "inv_held ?m" using invD(6) [OF i] below_alive [OF b] by (auto simp: inv_held_def m' cm)
  moreover have "inv_alive ?m" using invD(3) [OF i] gone by (auto simp: inv_alive_def m' cm)
  moreover have "inv_log ?m" using invD(7) [OF i] by (simp add: inv_log_def m' cm)
  moreover have "inv_static ?m" "inv_wake ?m" using st by (simp_all add: inv_static_def inv_wake_def)
  ultimately show ?thesis using h(1) by (auto simp: inv_def)
qed

lemma inv_wait_end:
  assumes i: "inv allowed m" and g: "enabled allowed (AWaitEnd u) m"
  shows "\<exists>m'. exec e (AWaitEnd u) m = Some m' \<and> inv allowed m'"
proof -
  obtain t where t: "GetObject (r_tasks m) u = Some t" "t_status t = IRIS_COMPLETE" and w: "u \<in># m_waiting m" using g by auto
  have s: "u \<in> m_submitted m"
    using inv_task(6) [OF i t(1)] t(2) by (auto simp: task_fresh_def iris_status_defs)
  then have c: "u \<in> completed m"
    using inv_task(5) [OF i t(1)] t(2) by (auto simp: task_submitted_def iris_status_defs split: if_splits)
  define m' where "m' = m\<lparr>m_waiting := m_waiting m - {#u#}\<rparr>"
  have R: "refs m v = refs m' v + (if v = u then 1 else 0)" for v
    using w by (auto simp: refs_def m'_def simp flip: count_greater_zero_iff)
  have "\<exists>h c. Release u (r_tasks m) = Some (h, c) \<and> inv allowed (m'\<lparr>r_tasks := h\<rparr>)"
    using i by (intro inv_release [OF i t(1) _ R]) (simp_all add: c m'_def inv_def inv_static_def inv_wake_def inv_places_def)
  then obtain h k where h: "Release u (r_tasks m) = Some (h, k)" "inv allowed (m'\<lparr>r_tasks := h\<rparr>)" by blast
  have "exec e (AWaitEnd u) m = Some (m'\<lparr>r_tasks := h\<rparr>)"
    using t h(1) by (simp add: TaskWait_end_def rt_Release_def m'_def)
  with h(2) show ?thesis by blast
qed

text \<open>What a step of the scheduler or a worker brings nearer to the end: it empties the scheduler's queue,
  or it lowers a weight of the work and the wake-ups that are left.\<close>

definition dev_weight :: "machine \<Rightarrow> devno \<Rightarrow> nat" where
  "dev_weight m d = 2 * r_sem_worker m d + of_bool (m_worker_awake m d) + 8 * size (QueueReady_content (r_ready m d)) +
     6 * of_bool (r_busy m d \<noteq> None)"

definition sched_weight :: "machine \<Rightarrow> nat" where
  "sched_weight m = 2 * r_sem_sched m + of_bool (m_sched_awake m)"

definition weight :: "machine \<Rightarrow> nat" where
  "weight m = sched_weight m + (\<Sum>d < ndevs m. dev_weight m d)"

definition progress :: "machine \<Rightarrow> machine \<Rightarrow> bool" where
  "progress m m' \<longleftrightarrow> r_uid m' = r_uid m \<and> created m' = created m \<and> m_deps m' = m_deps m \<and> m_submitted m' = m_submitted m \<and> m_waiting m' = m_waiting m \<and> completed m \<subseteq> completed m' \<and>
     (length (r_queue m') < length (r_queue m) \<or> r_queue m' = r_queue m \<and> weight m' < weight m)"

lemma weight_less:
  assumes "ndevs m' = ndevs m" "d < ndevs m" "\<And>x. x \<noteq> d \<Longrightarrow> dev_weight m' x = dev_weight m x"
    "sched_weight m' + dev_weight m' d < sched_weight m + dev_weight m d"
  shows "weight m' < weight m"
proof -
  have "(\<Sum>x < ndevs m. dev_weight m'' x) = dev_weight m'' d + (\<Sum>x \<in> {..<ndevs m} - {d}. dev_weight m'' x)" for m''
    using assms(2) by (subst sum.remove [of _ d]) auto
  moreover have "(\<Sum>x \<in> {..<ndevs m} - {d}. dev_weight m' x) = (\<Sum>x \<in> {..<ndevs m} - {d}. dev_weight m x)"
    using assms(3) by (intro sum.cong) auto
  ultimately show ?thesis using assms(1,4) by (simp add: weight_def)
qed

lemma weight_less_sched:
  assumes "ndevs m' = ndevs m" "dev_weight m' = dev_weight m" "sched_weight m' < sched_weight m"
  shows "weight m' < weight m"
  using assms by (simp add: weight_def)

lemma inv_wake_step:
  assumes i: "inv allowed m" and g: "enabled allowed (AWake th) m"
  shows "\<exists>m'. exec e (AWake th) m = Some m' \<and> inv allowed m' \<and> progress m m'"
proof (cases th)
  case SchedulerThread
  let ?m = "m\<lparr>r_sem_sched := r_sem_sched m - 1, m_sched_awake := True\<rparr>"
  have "weight ?m < weight m" using g SchedulerThread
    by (intro weight_less_sched) (auto simp: Sleep_returns_def fun_eq_iff dev_weight_def sched_weight_def split: if_splits)
  then have "progress m ?m" by (simp add: progress_def)
  moreover have "exec e (AWake th) m = Some ?m" using g SchedulerThread by (auto simp: Sleep_returns_def split: if_splits)
  moreover have "inv_tasks allowed ?m" by (rule inv_tasks_below [OF i]) (auto simp: below_def)
  then have "inv allowed ?m" using invD [OF i]
    by (simp add: inv_def inv_static_def inv_alive_def inv_places_def inv_refs_def inv_held_def inv_log_def inv_wake_def)
  ultimately show ?thesis by blast
next
  case (WorkerThread d)
  let ?m = "m\<lparr>r_sem_worker := (r_sem_worker m)(d := r_sem_worker m d - 1), m_worker_awake := (m_worker_awake m)(d := True)\<rparr>"
  have "weight ?m < weight m" using g WorkerThread
    by (intro weight_less [of _ _ d]) (auto simp: Sleep_returns_def dev_weight_def sched_weight_def split: if_splits)
  then have "progress m ?m" by (simp add: progress_def)
  moreover have "exec e (AWake th) m = Some ?m" using g WorkerThread by (auto simp: Sleep_returns_def split: if_splits)
  moreover have "inv_tasks allowed ?m" by (rule inv_tasks_below [OF i]) (auto simp: below_def)
  then have "inv allowed ?m" using invD [OF i]
    by (simp add: inv_def inv_static_def inv_alive_def inv_places_def inv_refs_def inv_held_def inv_log_def inv_wake_def)
  ultimately show ?thesis by blast
qed

end
