(* ===== verification/Iris_Runtime_Steps.thy ===== *)
theory Iris_Runtime_Steps
  imports Iris_Runtime_Inv
begin

text \<open>
  The invariant under the steps of the scheduler and the workers, and the progress each of them makes.
  \<open>placement\<close> is the interface between the runtime and the choice of devices: the scheduler's step is
  proved once for every environment and set of policies that keeps it.
\<close>

section \<open>The scheduler's step\<close>

lemma dispatchable_deps:
  assumes i: "inv allowed m" and t: "GetObject (r_tasks m) u = Some t" and u: "u \<in> m_submitted m"
  shows "Dispatchable (r_tasks m) t \<longleftrightarrow> m_deps m u \<subseteq> completed m"
proof -
  have deps: "m_deps m u = set (depend_uids t)" "set (depend_uids t) \<subseteq> created m"
    using inv_task(4,7) [OF i t] by simp_all
  have np: "t_status t \<noteq> IRIS_PENDING" using inv_no_pending [OF i] t by (auto simp: no_pending_def)
  have "dep_satisfied b (GetObject (r_tasks m) d) \<longleftrightarrow> d \<in> completed m" if "d \<in> created m" for b d
  proof (cases "GetObject (r_tasks m) d")
    case None
    with invD(3) [OF i] that show ?thesis by (auto simp: inv_alive_def alive_def dep_satisfied_def)
  next
    case (Some td)
    note it = inv_task [OF i Some]
    have "\<not> t_async td" using it(1) by (simp add: plain_def)
    moreover have "t_status td = IRIS_COMPLETE \<longleftrightarrow> d \<in> completed m"
      using it(5,6) invD(3) [OF i]
      by (cases "d \<in> m_submitted m")
        (auto simp: task_submitted_def task_fresh_def iris_status_defs inv_alive_def split: if_splits)
    ultimately show ?thesis by (simp add: Some dep_satisfied_sync)
  qed
  then have "(\<forall>d \<in> set (depend_uids t). dep_satisfied b (GetObject (r_tasks m) d)) \<longleftrightarrow> set (depend_uids t) \<subseteq> completed m" for b
    using deps(2) by (metis subset_eq)
  then show ?thesis using deps(1) np by (simp add: Dispatchable_iff)
qed

lemma takeable_deps:
  assumes i: "inv allowed m" and u: "u \<in> set (r_queue m)"
  shows "takeable (r_tasks m) b u \<longleftrightarrow> m_deps m u \<subseteq> completed m" "GetObject (r_tasks m) u \<noteq> None" "u \<in> inflight m"
proof -
  show infl: "u \<in> inflight m" using invD(4) [OF i] u by (auto simp: inv_places_def)
  then show al: "GetObject (r_tasks m) u \<noteq> None" using inflight_alive [OF invD(5) [OF i]] by (simp add: alive_def)
  then obtain t where t: "GetObject (r_tasks m) u = Some t" by blast
  have "u \<in> m_submitted m" using infl by (simp add: inflight_def)
  then show "takeable (r_tasks m) b u \<longleftrightarrow> m_deps m u \<subseteq> completed m"
    using dispatchable_deps [OF i t] plain_not_marker [OF inv_task(1) [OF i t]] by (simp add: takeable_def t)
qed

lemma content_enqueue_funpow:
  "QueueReady_content ((QueueReady_Enqueue t u ^^ k) q) = QueueReady_content q + replicate_mset k u"
  by (induction k) (simp_all add: qr.content_enq [of "\<lambda>_. t"])

lemma Enqueue_all_plain:
  assumes "GetObject (r_tasks r) u = Some t" "\<not> t_internal_memory_transfer t"
  shows "Enqueue_all e u ds r = Some (r\<lparr>r_ready := \<lambda>d. (QueueReady_Enqueue t u ^^ count_list ds d) (r_ready r d),
    r_sem_worker := \<lambda>d. r_sem_worker r d + count_list ds d\<rparr>)"
  using assms
proof (induction ds arbitrary: r)
  case (Cons d ds)
  let ?r = "Invoke (WorkerThread d) (r\<lparr>r_ready := (r_ready r)(d := QueueReady_Enqueue t u (r_ready r d))\<rparr>)"
  have "GetObject (r_tasks ?r) u = Some t" using Cons.prems by (simp add: Invoke_def)
  note IH = Cons.IH [OF this Cons.prems(2)]
  have "Enqueue_all e u (d # ds) r = Enqueue_all e u ds ?r" using Cons.prems by (simp add: Worker_Enqueue_def)
  also note IH
  finally show ?case by (simp add: Invoke_def fun_upd_def funpow_swap1 cong: if_cong)
    (rule rt.equality; auto simp: fun_eq_iff funpow_swap1)
qed simp

definition targets :: "nat \<Rightarrow> devno list \<Rightarrow> devno list" where
  "targets dflt ds = (if ds = [] then [dflt] else ds)"

lemma targets_length [simp]: "0 < length (targets dflt ds)" by (simp add: targets_def)

lemma SubmitTask_plain:
  assumes "GetObject (r_tasks r) u = Some t" "plain t" "no_pending (r_tasks r)" "SubmitTask_devs e r t = Some (ds, rr)"
  shows "\<exists>t1 t2. same_refs t t1 \<and> core t1 = core t \<and>
    SubmitTask e u r = Some (r\<lparr>r_rr_index := rr,
      r_tasks := TrackObject (r_tasks r) ((Retain ^^ length (targets (r_device_default r) ds)) t1) u,
      r_ready := \<lambda>d. (QueueReady_Enqueue t2 u ^^ count_list (targets (r_device_default r) ds) d) (r_ready r d),
      r_sem_worker := \<lambda>d. r_sem_worker r d + count_list (targets (r_device_default r) ds) d\<rparr>)"
proof -
  let ?t1 = "if length ds = 1 then t\<lparr>t_recommended_dev := int (ds ! 0)\<rparr> else t"
  let ?ds = "targets (r_device_default r) ds"
  let ?t2 = "(Retain ^^ length ?ds) ?t1"
  let ?r1 = "r\<lparr>r_rr_index := rr, r_tasks := TrackObject (r_tasks r) ?t1 u\<rparr>"
  let ?r2 = "r\<lparr>r_rr_index := rr, r_tasks := TrackObject (r_tasks r) ?t2 u\<rparr>"
  have np: "no_pending (TrackObject (r_tasks r) ?t1 u)" using assms(1,3) by (auto simp: no_pending_def iris_simps)
  have dd: "DispatchDependencies u (TrackObject (r_tasks r) ?t1 u) = Some (TrackObject (r_tasks r) ?t1 u)"
    by (rule DispatchDependencies_id [OF np]) (simp add: iris_simps)
  have "core ?t2 = core t" by simp
  then have "\<not> t_internal_memory_transfer ?t2" using assms(2) by (simp add: core_def plain_def)
  have g: "GetObject (r_tasks ?r2) u = Some ?t2" by (simp add: iris_simps)
  have "SubmitTask e u r = Enqueue_all e u ?ds ?r2"
  proof -
    have a: "(if length ds = 1 then rt_at u (\<lambda>t. t\<lparr>t_recommended_dev := int (ds ! 0)\<rparr>) (r\<lparr>r_rr_index := rr\<rparr>)
        else Some (r\<lparr>r_rr_index := rr\<rparr>)) = Some ?r1"
      using assms(1) by (auto simp: rt_at_def at_object_def)
    have b: "(if Dispatchable (r_tasks ?r1) t then Some ?r1
        else map_option (\<lambda>h. ?r1\<lparr>r_tasks := h\<rparr>) (DispatchDependencies u (r_tasks ?r1))) = Some ?r1"
      using dd by simp
    have c: "rt_at u (Retain ^^ length ?ds) ?r1 = Some ?r2" by (simp add: rt_at_def at_object_def iris_simps)
    have d: "(if ds = [] then [r_device_default r] else ds) = ?ds" "r_device_default ?r1 = r_device_default r"
      by (simp_all add: targets_def)
    show ?thesis unfolding SubmitTask_def
      by (simp only: assms(1,4) a b c d bind.bind_lunit Option.bind.simps prod.case)
  qed
  also note Enqueue_all_plain [OF g \<open>\<not> t_internal_memory_transfer ?t2\<close>]
  finally show ?thesis by (intro exI [of _ ?t1] exI [of _ ?t2]) simp
qed

text \<open>A task leaves the scheduler's queue for the queues of workers, with one reference for each.\<close>

lemma inv_dispatch:
  assumes i: "inv allowed m" and q: "mset (r_queue m) = add_mset u (mset q)" and dc: "m_deps m u \<subseteq> completed m"
    and t: "GetObject (r_tasks m) u = Some t" "same_refs t t1" "core t1 = core t"
    and ds: "ds \<noteq> []" "set ds \<subseteq> {..<ndevs m}" "rr < ndevs m"
  shows "inv allowed (m\<lparr>r_queue := q, r_rr_index := rr, r_tasks := TrackObject (r_tasks m) ((Retain ^^ length ds) t1) u,
    r_ready := \<lambda>d. (QueueReady_Enqueue t2 u ^^ count_list ds d) (r_ready m d),
    r_sem_worker := \<lambda>d. r_sem_worker m d + count_list ds d\<rparr>)" (is "inv allowed ?m")
proof -
  have uq: "u \<in> set (r_queue m)" "set q = set (r_queue m) - {u}" "distinct q"
  proof -
    have d: "distinct (r_queue m)" using invD(4) [OF i] by (simp add: inv_places_def)
    have "distinct (u # q)" using d q by (metis mset.simps(2) distinct_count_atmost_1 set_mset_mset)
    moreover have "set (r_queue m) = set (u # q)" using q by (metis mset.simps(2) set_mset_mset)
    ultimately show "u \<in> set (r_queue m)" "set q = set (r_queue m) - {u}" "distinct q" by auto
  qed
  have infl: "u \<in> inflight m" and nr: "\<not> in_ready m u" "\<not> running m u" using invD(4) [OF i] uq(1) by (auto simp: inv_places_def)
  obtain d0 where d0: "d0 \<in> set ds" using ds(1) by (cases ds) auto
  have cont: "QueueReady_content (r_ready ?m d) = QueueReady_content (r_ready m d) + replicate_mset (count_list ds d) u" for d
    by (simp add: content_enqueue_funpow)
  have ir: "in_ready ?m v \<longleftrightarrow> v = u \<or> in_ready m v" for v
  proof -
    have "0 < count_list ds d0" "d0 < ndevs m" using d0 ds(2) count_list_0_iff [of ds d0] by auto
    then show ?thesis unfolding in_ready_def cont by (auto simp: in_replicate_mset simp del: replicate_mset_eq_empty_iff)
  qed
  have rr: "ready_refs ?m v = ready_refs m v + (if v = u then int (length ds) else 0)" for v
  proof -
    have "(\<Sum>d < ndevs m. int (count_list ds d)) = int (length ds)"
      using sum_count_set [OF ds(2)] by (simp flip: of_nat_sum)
    then show ?thesis unfolding ready_refs_def cont by (simp add: sum.distrib)
  qed
  have f: "completed ?m = completed m" "inflight ?m = inflight m" "created ?m = created m" "ndevs ?m = ndevs m" "running ?m = running m"
    "busy_refs ?m = busy_refs m" by simp_all
  have al: "alive (TrackObject (r_tasks m) x u) v = alive (r_tasks m) v" for x v using t(1) by (auto simp: alive_def iris_simps)
  have R: "refs ?m v = ((refs m)(u := refs m u + int (length ds))) v" for v unfolding refs_def rr by simp
  have acc: "accounted (r_tasks ?m) (refs ?m)"
  proof (rule accounted_cong [OF _ R [symmetric]])
    have "accounted (TrackObject (r_tasks m) t1 u) (refs m)"
      using accounted_update [OF _ t(1,2)] invD(5) [OF i] t(3) by (simp add: inv_refs_def core_def)
    from accounted_retain_funpow [OF this, of u t1 "length ds"]
    show "accounted (r_tasks ?m) ((refs m)(u := refs m u + int (length ds)))" by (simp add: iris_simps)
  qed
  have b: "below (r_tasks ?m) (r_tasks m)" using t by (auto simp: below_def iris_simps)
  have "inv_tasks allowed ?m" unfolding inv_tasks_def
  proof (intro allI impI)
    fix v tv assume "GetObject (r_tasks ?m) v = Some tv"
    from belowD [OF b this] obtain t0 where t0: "GetObject (r_tasks m) v = Some t0" "core tv = core t0" by blast
    have "task_submitted allowed ?m v tv" if "task_submitted allowed m v tv"
      using that uq(2) ir by (auto simp: task_submitted_def f split: if_splits)
    with task_inv_core [OF i t0]
    show "plain tv \<and> obj_uid tv = v \<and> v \<in> created ?m \<and> set (depend_uids tv) \<subseteq> created ?m \<and> m_deps ?m v = set (depend_uids tv) \<and>
        (if v \<in> m_submitted ?m then task_submitted allowed ?m v tv else task_fresh allowed tv)" by (auto simp: f)
  qed
  moreover have "inv_places ?m"
  proof -
    have dv: "t_dev tv = Some d" if "r_busy m d = Some v" "GetObject (r_tasks ?m) v = Some tv" for d v tv
      using belowD [OF b that(2)] that(1) invD(4) [OF i] by (auto simp: inv_places_def core_def)
    have "QueueReady_content (r_ready ?m d) = {#}" if "ndevs m \<le> d" for d
      using that ds(2) invD(4) [OF i] cont [of d] count_list_0_iff [of ds d] by (auto simp: inv_places_def)
    with invD(4) [OF i] dv show ?thesis
      unfolding inv_places_def f ir using uq infl dc by (auto simp: inflight_def)
  qed
  moreover have "inv_wake ?m" using invD(8) [OF i] uq(2) cont by (auto simp: inv_wake_def count_list_0_iff)
  moreover have "inv_held ?m" using invD(6) [OF i] by (simp add: inv_held_def al)
  moreover have "inv_alive ?m" using invD(3) [OF i] by (simp add: inv_alive_def al)
  moreover have "inv_log ?m" using invD(7) [OF i] by (simp add: inv_log_def)
  moreover have "inv_static ?m" using invD(1) [OF i] ds(3) by (simp add: inv_static_def)
  ultimately show ?thesis using acc by (simp add: inv_def inv_refs_def)
qed

text \<open>The scheduler dequeues a task whose dependencies are complete, or there is none.\<close>

lemma scheduler_dequeue:
  assumes i: "inv allowed m"
  shows "(\<forall>u \<in> set (r_queue m). \<not> m_deps m u \<subseteq> completed m) \<and> QueueTask_Dequeue (r_tasks m) (r_queue m) = Some (None, r_queue m) \<or>
    (\<exists>u q. u \<in> set (r_queue m) \<and> m_deps m u \<subseteq> completed m \<and> mset (r_queue m) = add_mset u (mset q) \<and>
       QueueTask_Dequeue (r_tasks m) (r_queue m) = Some (Some u, q))"
proof -
  let ?q = "r_queue m"
  have al: "\<forall>u \<in> set ?q. GetObject (r_tasks m) u \<noteq> None" using takeable_deps(2) [OF i] by blast
  have tk: "takeable (r_tasks m) b (?q ! j) \<longleftrightarrow> m_deps m (?q ! j) \<subseteq> completed m" if "j < length ?q" for b j
    using takeable_deps(1) [OF i] that by simp
  show ?thesis
  proof (cases "find_index (\<lambda>i. takeable (r_tasks m) (i = 0) (?q ! i)) [0..<length ?q]")
    case None
    then have "QueueTask_Dequeue (r_tasks m) ?q = Some (None, ?q)" using QueueTask_Dequeue_first [OF al] by simp
    moreover have "\<not> m_deps m u \<subseteq> completed m" if "u \<in> set ?q" for u
      using None tk that by (auto simp: find_index_None in_set_conv_nth)
    ultimately show ?thesis by blast
  next
    case (Some j)
    then have j: "j < length ?q" "m_deps m (?q ! j) \<subseteq> completed m" using tk by (auto simp: find_index_Some)
    have d: "QueueTask_Dequeue (r_tasks m) ?q = Some (Some (?q ! j), take j ?q @ drop (Suc j) ?q)"
      using Some QueueTask_Dequeue_first [OF al] by simp
    from qt.content_deq [OF d] d j show ?thesis by (metis nth_mem)
  qed
qed

text \<open>What the runtime asks of the choice of devices: for a plain task under a policy in use it
  comes to a result, and the devices are devices of the platform.\<close>

locale placement =
  fixes e :: sched_env and allowed :: "int \<Rightarrow> bool"
  assumes place: "inv_static m \<Longrightarrow> plain t \<Longrightarrow> allowed (t_brs_policy t) \<Longrightarrow>
    \<exists>ds rr. SubmitTask_devs e (m :: machine) t = Some (ds, rr) \<and> set ds \<subseteq> {..<ndevs m} \<and> rr < ndevs m"
begin

lemma inv_sched_step:
  assumes i: "inv allowed m" and a: "m_sched_awake m"
  shows "\<exists>m'. exec e ASchedStep m = Some m' \<and> inv allowed m' \<and> progress m m'"
  using scheduler_dequeue [OF i]
proof (elim disjE exE conjE)
  assume q: "\<forall>u \<in> set (r_queue m). \<not> m_deps m u \<subseteq> completed m"
    and d: "QueueTask_Dequeue (r_tasks m) (r_queue m) = Some (None, r_queue m)"
  let ?m = "m\<lparr>m_sched_awake := False\<rparr>"
  have "inv_tasks allowed ?m" by (rule inv_tasks_below [OF i]) (auto simp: below_def)
  then have "inv allowed ?m" using invD [OF i] q
    by (simp add: inv_def inv_static_def inv_alive_def inv_places_def inv_refs_def inv_held_def inv_log_def inv_wake_def)
  moreover have "weight ?m < weight m" using a
    by (intro weight_less_sched) (auto simp: fun_eq_iff dev_weight_def sched_weight_def)
  ultimately show ?thesis using d by (simp add: Scheduler_Run_step_def progress_def)
next
  fix u q assume u: "u \<in> set (r_queue m)" and dc: "m_deps m u \<subseteq> completed m" and q: "mset (r_queue m) = add_mset u (mset q)"
    and d: "QueueTask_Dequeue (r_tasks m) (r_queue m) = Some (Some u, q)"
  obtain t where t: "GetObject (r_tasks m) u = Some t" using takeable_deps(2) [OF i u] by blast
  let ?m = "m\<lparr>r_queue := q\<rparr>"
  have st: "inv_static ?m" "0 < ndevs m" "r_device_default m < ndevs m" using invD(1) [OF i] by (auto simp: inv_static_def)
  have pt: "plain t" "allowed (t_brs_policy t)" using inv_task [OF i t] takeable_deps(3) [OF i u]
    by (auto simp: inflight_def task_submitted_def)
  obtain ds rr where ds: "SubmitTask_devs e ?m t = Some (ds, rr)" "set ds \<subseteq> {..<ndevs m}" "rr < ndevs m"
    using place [OF st(1) pt] by auto
  have g: "GetObject (r_tasks ?m) u = Some t" "no_pending (r_tasks ?m)" using t inv_no_pending [OF i] by simp_all
  let ?ds = "targets (r_device_default m) ds"
  obtain t1 t2 where s: "same_refs t t1" "core t1 = core t" "SubmitTask e u ?m = Some (?m\<lparr>r_rr_index := rr,
      r_tasks := TrackObject (r_tasks m) ((Retain ^^ length ?ds) t1) u,
      r_ready := \<lambda>d. (QueueReady_Enqueue t2 u ^^ count_list ?ds d) (r_ready m d),
      r_sem_worker := \<lambda>d. r_sem_worker m d + count_list ?ds d\<rparr>)" (is "_ = Some ?m'")
    using SubmitTask_plain [OF g(1) pt(1) g(2) ds(1)] by auto
  have tg: "?ds \<noteq> []" "set ?ds \<subseteq> {..<ndevs m}" using ds(2) st(3) by (auto simp: targets_def)
  have "inv allowed ?m'" by (rule inv_dispatch [OF i q dc t s(1,2) tg ds(3)])
  moreover have "length q < length (r_queue m)" using q by (metis size_add_mset lessI size_mset)
  then have "progress m ?m'" by (simp add: progress_def)
  moreover have "exec e ASchedStep m = Some ?m'"
  proof -
    have "Scheduler_Submit e u ?m = SubmitTask e u ?m"
      using g(1) st(2) plain_not_marker [OF pt(1)] pt(1) by (simp add: Scheduler_Submit_def HasSubtasks_def plain_def)
    with d s(3) show ?thesis by (simp add: Scheduler_Run_step_def)
  qed
  ultimately show ?thesis by blast
qed

end

section \<open>A worker starts or drops a task\<close>

lemma Release_keep:
  "GetObject h u = Some t \<Longrightarrow> \<not> last_ref t \<Longrightarrow> Release u h = Some (TrackObject h (t\<lparr>ref_cnt := ref_cnt t - 1\<rparr>) u, ref_cnt t - 1)"
  by (simp add: Release_eq Let_def)

lemma Worker_Execute_begin_plain:
  assumes "GetObject (r_tasks r) u = Some t" "plain t" "t_status t = IRIS_NONE" "2 < ref_cnt t"
  shows "\<exists>t'. same_refs t t' \<and> same_shape t t' \<and> t_status t' = IRIS_RUNNING \<and> retain_mode t' = PROCESS_MODE \<and>
    t_dev t' = Some d \<and> t_user t' = t_user t \<and> t_brs_policy t' = t_brs_policy t \<and>
    Worker_Execute_begin d u r = Some (r\<lparr>r_tasks := TrackObject (r_tasks r) t' u,
      r_busy := (r_busy r)(d := Some u), r_active := (r_active r)(d := r_active r d + 1)\<rparr>, True)"
proof -
  let ?t1 = "ChangeToProcessMode (set_status IRIS_RUNNING t)"
  let ?t2 = "?t1\<lparr>ref_cnt := ref_cnt t - 1\<rparr>"
  let ?t3 = "set_devno (int d) (Retain (?t2\<lparr>t_dev := Some d\<rparr>))"
  let ?r1 = "r\<lparr>r_tasks := TrackObject (r_tasks r) ?t1 u\<rparr>"
  let ?r2 = "r\<lparr>r_tasks := TrackObject (r_tasks r) (?t2\<lparr>t_dev := Some d\<rparr>) u\<rparr>"
  have ex: "Executable t = (set_status IRIS_RUNNING t, True)" using assms(2,3) by (simp add: Executable_def plain_def)
  have a: "rt_at u (\<lambda>t. ChangeToProcessMode (fst (Executable t))) r = Some ?r1"
    using assms(1) ex by (simp add: rt_at_def at_object_def)
  have "\<not> last_ref ?t1" using assms(4) by (simp add: last_ref_def ChangeToProcessMode_def set_status_def)
  then have b: "rt_Release u ?r1 = Some (r\<lparr>r_tasks := TrackObject (r_tasks r) ?t2 u\<rparr>)"
    by (simp add: rt_Release_def Release_keep iris_simps) (simp add: ChangeToProcessMode_def set_status_def)
  have c: "rt_at u (\<lambda>t. t\<lparr>t_dev := Some d\<rparr>) (r\<lparr>r_tasks := TrackObject (r_tasks r) ?t2 u\<rparr>) = Some ?r2"
    by (simp add: rt_at_def at_object_def iris_simps)
  have e: "rt_at u (\<lambda>t. set_devno (int d) (Retain t)) ?r2 = Some (r\<lparr>r_tasks := TrackObject (r_tasks r) ?t3 u\<rparr>)"
    by (simp add: rt_at_def at_object_def iris_simps)
  have "Worker_Execute_begin d u r = Some (r\<lparr>r_tasks := TrackObject (r_tasks r) ?t3 u,
      r_busy := (r_busy r)(d := Some u), r_active := (r_active r)(d := r_active r d + 1)\<rparr>, True)"
    using assms(1) plain_not_marker [OF assms(2)] ex
    by (simp add: Worker_Execute_begin_def a b c e)
  moreover have "same_refs t ?t3" "same_shape t ?t3" "t_status ?t3 = IRIS_RUNNING" "retain_mode ?t3 = PROCESS_MODE"
    "t_dev ?t3 = Some d" "t_user ?t3 = t_user t" "t_brs_policy ?t3 = t_brs_policy t"
    by (simp_all add: same_refs_def same_shape_def plain_def meta_wf_def depend_uids_def set_devno_def Retain_def
        ChangeToProcessMode_def set_status_def split: option.splits)
  ultimately show ?thesis by blast
qed

lemma ready_refs_pop:
  assumes "d < ndevs m" "QueueReady_content (r_ready m d) = add_mset u (QueueReady_content q)"
  shows "ready_refs m v = ready_refs (m\<lparr>r_ready := (r_ready m)(d := q)\<rparr>) v + (if v = u then 1 else 0)"
  using sum_fun_upd [OF assms(1), of "\<lambda>q. int (count (QueueReady_content q) v)" "r_ready m" q] assms(2)
  by (simp add: ready_refs_def ndevs_def)

lemma busy_refs_push:
  assumes "d < ndevs m" "r_busy m d = None"
  shows "busy_refs (m\<lparr>r_busy := (r_busy m)(d := Some u)\<rparr>) v = busy_refs m v + (if v = u then 1 else 0)"
  using sum_fun_upd [OF assms(1), of "\<lambda>b. of_bool (b = Some v)" "r_busy m" "Some u"] assms(2)
  by (simp add: busy_refs_def ndevs_def)

lemma in_ready_pop:
  assumes "d < ndevs m" "QueueReady_content (r_ready m d) = add_mset u (QueueReady_content q)"
  shows "v \<noteq> u \<Longrightarrow> in_ready (m\<lparr>r_ready := (r_ready m)(d := q)\<rparr>) v = in_ready m v"
    "in_ready (m\<lparr>r_ready := (r_ready m)(d := q)\<rparr>) v \<Longrightarrow> in_ready m v" "in_ready m u"
  using ready_refs_pop [OF assms, of v] ready_refs_nonneg [of "m\<lparr>r_ready := (r_ready m)(d := q)\<rparr>" v] assms
  by (auto simp flip: ready_refs_pos) (auto simp: ready_refs_pos in_ready_def)

lemma inv_start:
  assumes i: "inv allowed m" and d: "d < ndevs m" "r_busy m d = None" "m_worker_awake m d"
    and q: "QueueReady_content (r_ready m d) = add_mset u (QueueReady_content q)"
    and t: "GetObject (r_tasks m) u = Some t" "t_status t = IRIS_NONE"
    and t': "same_refs t t'" "same_shape t t'" "t_status t' = IRIS_RUNNING" "retain_mode t' = PROCESS_MODE"
      "t_dev t' = Some d" "t_user t' = t_user t" "t_brs_policy t' = t_brs_policy t"
  shows "inv allowed (m\<lparr>r_ready := (r_ready m)(d := q), r_tasks := TrackObject (r_tasks m) t' u,
    r_busy := (r_busy m)(d := Some u), r_active := (r_active m)(d := r_active m d + 1), m_log := m_log m @ [EStart u]\<rparr>)"
    (is "inv allowed ?m")
proof -
  define m' where "m' = ?m"
  have "in_ready m u" by (rule in_ready_pop(3) [OF d(1) q])
  then have us: "u \<in> m_submitted m" "m_deps m u \<subseteq> completed m" using invD(4) [OF i] by (auto simp: inv_places_def)
  have un: "u \<notin> completed m" "\<not> running m u" and tu: "t_user t" "allowed (t_brs_policy t)" "m_deps m u = set (depend_uids t)"
    using inv_task(5) [OF i t(1) us(1)] inv_task(7) [OF i t(1)] t(2)
    by (simp_all add: task_submitted_def iris_status_defs split: if_splits)
  have infl: "u \<in> inflight m" using us un by (simp add: inflight_def)
  have uq: "u \<notin> set (r_queue m)" using invD(4) [OF i] \<open>in_ready m u\<close> by (auto simp: inv_places_def)
  have f: "r_tasks m' = TrackObject (r_tasks m) t' u" "r_queue m' = r_queue m" "m_submitted m' = m_submitted m"
    "m_deps m' = m_deps m" "m_held m' = m_held m" "m_waiting m' = m_waiting m" "m_log m' = m_log m @ [EStart u]"
    "r_ready m' = (r_ready m)(d := q)" "r_busy m' = (r_busy m)(d := Some u)" "ndevs m' = ndevs m" "created m' = created m"
    "m_worker_awake m' = m_worker_awake m" "r_sem_worker m' = r_sem_worker m" "m_sched_awake m' = m_sched_awake m"
    "r_sem_sched m' = r_sem_sched m"
    by (simp_all add: m'_def)
  have cm: "completed m' = completed m" "inflight m' = inflight m" by (auto simp: completed_def inflight_def f)
  have rn: "running m' v \<longleftrightarrow> v = u \<or> running m v" for v 
    using d(1,2) un(2) unfolding running_def f by (auto simp: fun_upd_apply) (metis option.distinct(1))
  have ir: "v \<noteq> u \<Longrightarrow> in_ready m' v = in_ready m v" "in_ready m' v \<Longrightarrow> in_ready m v" for v
    using in_ready_pop(1,2) [OF d(1) q, of v] by (simp_all add: m'_def)
  have rf: "refs m' v = refs m v" for v
    using ready_refs_pop [OF d(1) q, of v] d(1,2)
      busy_refs_push [of d "m\<lparr>r_ready := (r_ready m)(d := q), r_tasks := TrackObject (r_tasks m) t' u\<rparr>" u v]
    unfolding refs_def cm f by (simp add: m'_def refs_def)
  have al: "alive (r_tasks m') v = alive (r_tasks m) v" for v using t(1) by (auto simp: alive_def iris_simps f)
  have "inv_tasks allowed m'" unfolding inv_tasks_def
  proof (intro allI impI)
    fix v tv assume g: "GetObject (r_tasks m') v = Some tv"
    show "plain tv \<and> obj_uid tv = v \<and> v \<in> created m' \<and> set (depend_uids tv) \<subseteq> created m' \<and> m_deps m' v = set (depend_uids tv) \<and>
        (if v \<in> m_submitted m' then task_submitted allowed m' v tv else task_fresh allowed tv)"
    proof (cases "v = u")
      case True
      with g have tv: "tv = t'" by (simp add: f iris_simps)
      have "task_submitted allowed m' u t'"
        using t' tu un by (simp add: task_submitted_def cm rn f same_shape_def)
      with inv_task(1-4,7) [OF i t(1)] us t'(2) True tv show ?thesis by (simp add: f same_shape_def)
    next
      case False
      with g have g': "GetObject (r_tasks m) v = Some tv" by (simp add: f iris_simps)
      have "task_submitted allowed m' v tv" if "task_submitted allowed m v tv"
        using that False by (simp add: task_submitted_def cm rn f ir)
      with inv_task [OF i g'] show ?thesis by (simp add: f)
    qed
  qed
  moreover have "inv_places m'"
  proof -
    have nb: "r_busy m d' \<noteq> Some u" for d' using un(2) invD(4) [OF i] unfolding running_def inv_places_def by blast
    have "QueueReady_content (r_ready m' d') = {#}" if "ndevs m \<le> d'" for d'
      using that d(1) invD(4) [OF i] by (auto simp: inv_places_def f)
    with invD(4) [OF i] uq nb infl us t'(5) d ir show ?thesis
      unfolding inv_places_def cm rn f by (auto simp: iris_simps)
  qed
  moreover have "inv_refs m'" unfolding inv_refs_def f
    by (rule accounted_cong [OF accounted_update [OF _ t(1) t'(1)] rf [symmetric]]) 
      (use invD(5) [OF i] refs_ge(2) [OF infl] ready_refs_nonneg [of m u] busy_refs_nonneg [of m u] in \<open>simp_all add: inv_refs_def\<close>)
  moreover have "inv_log m'"
  proof -
    have l: "log_ok (m_deps m) (m_log m)" "EStart u \<notin> set (m_log m)" using invD(7) [OF i] un by (auto simp: inv_log_def)
    have "log_ok (m_deps m) (m_log m @ [EStart u])"
      by (rule log_ok_start [OF l]) (use us(2) in \<open>auto simp: completed_def\<close>)
    with invD(7) [OF i] show ?thesis by (auto simp: inv_log_def f cm rn)
  qed
  moreover have "inv_wake m'" using invD(8) [OF i] q d by (auto simp: inv_wake_def f cm)
  moreover have "inv_held m'" using invD(6) [OF i] al by (simp add: inv_held_def f cm)
  moreover have "inv_alive m'" using invD(3) [OF i] al by (simp add: inv_alive_def f cm)
  moreover have "inv_static m'" using invD(1) [OF i] d(2) by (simp add: inv_static_def f) (simp add: m'_def)
  ultimately have "inv allowed m'" by (simp add: inv_def)
  then show ?thesis by (simp only: m'_def)
qed

lemma QueueReady_Dequeue_idle: "QueueReady_Dequeue True q = (None, q') \<Longrightarrow> QueueReady_content q = {#}"
  by (auto simp: QueueReady_Dequeue_def QueueReady_content_def split: list.splits)

lemma inv_worker_step:
  assumes i: "inv allowed m" and d: "d < ndevs m" "m_worker_awake m d" "r_busy m d = None"
  shows "\<exists>m'. exec e (AWorkerStep d) m = Some m' \<and> inv allowed m' \<and> progress m m'"
proof -
  have fr: "IsFree m d" using invD(1) [OF i] d(3) by (simp add: inv_static_def IsFree_def)
  obtain x q where x: "QueueReady_Dequeue True (r_ready m d) = (x, q)" by fastforce
  show ?thesis
  proof (cases x)
    case None
    let ?m = "m\<lparr>m_worker_awake := (m_worker_awake m)(d := False)\<rparr>"
    have "inv_tasks allowed ?m" by (rule inv_tasks_below [OF i]) (auto simp: below_def)
    then have "inv allowed ?m" using invD [OF i] QueueReady_Dequeue_idle [of "r_ready m d" q] x None d(3)
      by (simp add: inv_def inv_static_def inv_alive_def inv_places_def inv_refs_def inv_held_def inv_log_def inv_wake_def)
    moreover have "weight ?m < weight m" using d
      by (intro weight_less [of _ _ d]) (auto simp: dev_weight_def sched_weight_def)
    ultimately show ?thesis using x None fr by (simp add: Worker_Run_step_def progress_def)
  next
    case (Some u)
    have q: "QueueReady_content (r_ready m d) = add_mset u (QueueReady_content q)"
      using qr.content_deq [of True "r_ready m d" u q] x Some by simp
    have rdy: "in_ready m u" by (rule in_ready_pop(3) [OF d(1) q])
    then obtain t where t: "GetObject (r_tasks m) u = Some t" using in_ready_alive [OF invD(5) [OF i]] by (auto simp: alive_def)
    have us: "u \<in> m_submitted m" using rdy invD(4) [OF i] by (auto simp: inv_places_def)
    note it = inv_task [OF i t]
    let ?m = "m\<lparr>r_ready := (r_ready m)(d := q)\<rparr>"
    show ?thesis
    proof (cases "t_status t = IRIS_NONE")
      case True
      have "u \<in> inflight m" using it(5) us True by (auto simp: task_submitted_def inflight_def iris_status_defs split: if_splits)
      then have "2 \<le> refs m u" using refs_ge(2) [of u m] ready_refs_pos [of m u] rdy busy_refs_nonneg [of m u] by linarith
      moreover have "ref_cnt t = 1 + refs m u" using invD(5) [OF i] t by (simp add: inv_refs_def accounted_def)
      ultimately have "2 < ref_cnt t" by simp
      from Worker_Execute_begin_plain [of ?m u t d] t it(1) True this obtain t' where
        t': "same_refs t t'" "same_shape t t'" "t_status t' = IRIS_RUNNING" "retain_mode t' = PROCESS_MODE"
          "t_dev t' = Some d" "t_user t' = t_user t" "t_brs_policy t' = t_brs_policy t" and
        b: "Worker_Execute_begin d u ?m = Some (?m\<lparr>r_tasks := TrackObject (r_tasks m) t' u,
          r_busy := (r_busy m)(d := Some u), r_active := (r_active m)(d := r_active m d + 1)\<rparr>, True)" by auto
      let ?m' = "?m\<lparr>r_tasks := TrackObject (r_tasks m) t' u, r_busy := (r_busy m)(d := Some u),
          r_active := (r_active m)(d := r_active m d + 1), m_log := m_log m @ [EStart u]\<rparr>"
      have "weight ?m' < weight m" using d q
        by (intro weight_less [of _ _ d]) (auto simp: dev_weight_def sched_weight_def)
      then have "progress m ?m'" by (auto simp: progress_def completed_def)
      with inv_start [OF i d(1,3,2) q t True t'] x Some fr b show ?thesis
        by (simp add: Worker_Run_step_def log_start_def)
    next
      case False
      have cr: "u \<in> completed m \<or> running m u" using it(5) us False by (auto simp: task_submitted_def split: if_splits)
      have R: "refs m v = refs ?m v + (if v = u then 1 else 0)" for v
        using ready_refs_pop [OF d(1) q, of v] by (simp add: refs_def)
      have st: "inv_static ?m" "inv_wake ?m" using invD(1,8) [OF i] q d by (auto simp: inv_static_def inv_wake_def)
      have em: "QueueReady_content (r_ready ?m d') = {#}" if "ndevs m \<le> d'" for d'
        using that d(1) invD(4) [OF i] by (auto simp: inv_places_def)
      obtain h c where h: "Release u (r_tasks m) = Some (h, c)" "inv allowed (?m\<lparr>r_tasks := h\<rparr>)"
        using inv_release [OF i t cr R _ _ _ _ _ _ _ _ in_ready_pop(1) [OF d(1) q] in_ready_pop(2) [OF d(1) q] em st] by auto
      have "\<not> snd (Executable t)" using False by (simp add: Executable_def)
      with t h(1) have "Worker_Execute_begin d u ?m = Some (?m\<lparr>r_tasks := h\<rparr>, False)"
        by (simp add: Worker_Execute_begin_def rt_Release_def)
      moreover have "weight (?m\<lparr>r_tasks := h\<rparr>) < weight m" using d q
        by (intro weight_less [of _ _ d]) (auto simp: dev_weight_def sched_weight_def)
      then have "progress m (?m\<lparr>r_tasks := h\<rparr>)" by (simp add: progress_def)
      ultimately show ?thesis using x Some fr h(2) d(3) by (simp add: Worker_Run_step_def log_start_def)
    qed
  qed
qed

section \<open>A worker completes a task\<close>

lemma core_complete [simp]: "core (complete_mark (set_status s t)) =
    (plain t, obj_uid t, depend_uids t, IRIS_COMPLETE, retain_mode t, t_user t, t_brs_policy t, t_dev t)"
  by (simp add: core_def complete_mark_def set_status_def set_devno_def plain_def meta_wf_def depend_uids_def Let_def split: option.splits)

lemma same_refs_complete: "same_refs t (complete_mark (set_status s t))"
  using same_refs_trans [OF same_refs_updates(2) same_refs_updates(7)] .

lemma Worker_Execute_end_plain:
  assumes "GetObject (r_tasks m) u = Some t" "plain t" "release_task_flag (r_flags m)" "t_dev t = Some d"
    and "release_deps (depend_uids t) (TrackObject (r_tasks m) (complete_mark (set_status IRIS_SUBMITTED t)) u) = Some h1"
    and "Release u h1 = Some (h2, c2)" "Release u h2 = Some (h3, c3)"
  shows "Worker_Execute_end e d u m = Some (m\<lparr>r_tasks := h3, r_active := (r_active m)(d := r_active m d - 1),
    r_sem_sched := Suc (r_sem_sched m), r_sem_worker := (r_sem_worker m)(d := Suc (r_sem_worker m d)),
    r_busy := (r_busy m)(d := None)\<rparr>)"
proof -
  let ?t1 = "set_status IRIS_SUBMITTED t" and ?t2 = "complete_mark (set_status IRIS_SUBMITTED t)"
  let ?h0 = "TrackObject (r_tasks m) ?t1 u"
  have p: "\<not> t_async ?t1" "\<not> t_parent_exist ?t1" "t_dev ?t1 = Some d" "depend_uids ?t2 = depend_uids t"
    using assms(2,4) core_complete [of IRIS_SUBMITTED t, unfolded core_def] by (simp_all add: plain_def set_status_def)
  have g: "GetObject ?h0 u = Some ?t1" by (simp add: iris_simps)
  have w: "complete_wakes ?t1 = [SchedulerThread, WorkerThread d]" using p(3) by (simp add: complete_wakes_def)
  have "complete_release (r_flags m) u (TrackObject ?h0 ?t2 u) = Some h2"
    using assms(3,5,6) p(4) by (simp add: complete_release_def iris_simps)
  then have c: "Complete (r_flags m) u ?h0 = Some (h2, [SchedulerThread, WorkerThread d])"
    using Complete_flat [OF g p(2)] w by simp
  show ?thesis using assms(1,7) g p(1) c
    by (simp add: Worker_Execute_end_def rt_at_def at_object_def rt_Complete_def rt_Release_def Invokes_def Invoke_def)
qed

text \<open>The registry when a task completes: references on dependencies go, and two on the task itself.\<close>

lemma busy_task:
  assumes i: "inv allowed m" and b: "r_busy m d = Some u"
  obtains t where "GetObject (r_tasks m) u = Some t" "plain t" "t_dev t = Some d" "t_user t" "retain_mode t = PROCESS_MODE"
    "allowed (t_brs_policy t)" "m_deps m u = set (depend_uids t)" "u \<in> inflight m" "running m u" "m_deps m u \<subseteq> completed m" "d < ndevs m"
proof -
  have p: "d < ndevs m" "u \<in> inflight m" "m_deps m u \<subseteq> completed m" "\<forall>t. GetObject (r_tasks m) u = Some t \<longrightarrow> t_dev t = Some d"
    using invD(4) [OF i] b by (auto simp: inv_places_def)
  from inflight_alive [OF invD(5) [OF i] p(2)] obtain t where t: "GetObject (r_tasks m) u = Some t" by (rule aliveE)
  have r: "running m u" using p(1) b by (auto simp: running_def)
  from inv_task [OF i t] p r t show thesis by (intro that [of t]) (auto simp: task_submitted_def inflight_def split: if_splits)
qed

lemma completion_registry:
  assumes i: "inv allowed m" and b: "r_busy m d = Some u" and t: "GetObject (r_tasks m) u = Some t"
  defines "t2 \<equiv> complete_mark (set_status IRIS_SUBMITTED t)"
  shows "\<exists>h1 h2 h3 c2 c3. release_deps (depend_uids t) (TrackObject (r_tasks m) t2 u) = Some h1 \<and>
    Release u h1 = Some (h2, c2) \<and> Release u h2 = Some (h3, c3) \<and>
    accounted h3 (\<lambda>v. refs m v - (if v \<in> m_held m u then 1 else 0) - (if v = u then 2 else 0)) \<and>
    (\<forall>v. alive (r_tasks m) v \<longrightarrow> alive h3 v \<or> v = u \<or> v \<in> completed m) \<and>
    (\<forall>v tv. GetObject h3 v = Some tv \<longrightarrow>
       (if v = u then core tv = core t2 else \<exists>t0. GetObject (r_tasks m) v = Some t0 \<and> core tv = core t0))"
proof -
  obtain t' where "GetObject (r_tasks m) u = Some t'" and pt': "plain t'" "t_dev t' = Some d" "t_user t'" "retain_mode t' = PROCESS_MODE"
    "m_deps m u = set (depend_uids t')" "u \<in> inflight m" "running m u" "m_deps m u \<subseteq> completed m" by (rule busy_task [OF i b])
  with t have pt: "plain t" "retain_mode t = PROCESS_MODE" "m_deps m u = set (depend_uids t)" "u \<in> inflight m" "running m u"
    "m_deps m u \<subseteq> completed m" by simp_all
  let ?h = "TrackObject (r_tasks m) t2 u" and ?D = "depend_uids t"
  have un: "u \<notin> set ?D" using pt(3,4,6) by (auto simp: inflight_def)
  have al: "alive ?h v = alive (r_tasks m) v" for v using t by (auto simp: alive_def iris_simps)
  have acc: "accounted ?h (refs m)"
    using accounted_update [OF _ t same_refs_complete] invD(5) [OF i] pt(2) by (simp add: inv_refs_def t2_def)
  have hold: "v \<in> m_held m u \<longleftrightarrow> v \<in> set ?D \<and> alive (r_tasks m) v" for v
    using invD(6) [OF i] held_alive(2) [OF invD(5) [OF i] pt(4) _ inv_finite [OF i], of v] pt(3,4)
    unfolding inv_held_def by blast
  have deps: "\<forall>v \<in> set ?D. \<forall>tv. GetObject ?h v = Some tv \<longrightarrow> 0 < refs m v \<and> t_user tv"
  proof (intro ballI allI impI)
    fix v tv assume v: "v \<in> set ?D" and g: "GetObject ?h v = Some tv"
    with un have g': "GetObject (r_tasks m) v = Some tv" by (auto simp: iris_simps split: if_splits)
    have "v \<in> m_held m u" using hold v g' by (simp add: alive_def)
    moreover have "v \<in> m_submitted m" using v pt(3,6) invD(3) [OF i] by (auto simp: inv_alive_def)
    ultimately show "0 < refs m v \<and> t_user tv"
      using held_alive(1) [OF invD(5) [OF i] pt(4) _ inv_finite [OF i]] inv_task(5) [OF i g'] by (simp add: task_submitted_def)
  qed
  let ?R1 = "\<lambda>v. refs m v - (if v \<in> set ?D \<and> alive ?h v then 1 else 0)"
  obtain h1 where h1: "release_deps ?D ?h = Some h1" "accounted h1 ?R1"
    "\<And>v. GetObject h1 v = (case GetObject ?h v of None \<Rightarrow> None | Some t \<Rightarrow> if v \<notin> set ?D then Some t
         else if retain_mode t = PROCESS_MODE \<and> refs m v = 1 then None else Some (t\<lparr>ref_cnt := ref_cnt t - 1\<rparr>))"
    using accounted_release_deps [OF acc plain_depends_distinct [OF pt(1)] deps] by blast
  have g1: "GetObject h1 u = Some t2" using un by (simp add: h1(3) iris_simps)
  have "0 < busy_refs m u" using pt(5) by (simp add: busy_refs_pos)
  then have two: "2 \<le> refs m u" using refs_ge(2) [OF pt(4)] ready_refs_nonneg [of m u] by simp
  then have R1u: "0 < ?R1 u" "?R1 u = refs m u" using un by simp_all
  define R2 where "R2 = ?R1(u := ?R1 u - 1)"
  obtain h2 c2 where h2: "Release u h1 = Some (h2, c2)" "accounted h2 R2"
    "\<forall>v. v \<noteq> u \<longrightarrow> GetObject h2 v = GetObject h1 v" "GetObject h2 u = Some (t2\<lparr>ref_cnt := ref_cnt t2 - 1\<rparr>)"
    using accounted_release [OF h1(2) g1 R1u(1)] R1u(2) two unfolding R2_def by auto
  have R2u: "0 < R2 u" "R2 u = refs m u - 1" using R1u(2) two by (simp_all add: R2_def)
  obtain h3 c3 where h3: "Release u h2 = Some (h3, c3)" "accounted h3 (R2(u := R2 u - 1))"
    "\<forall>v. v \<noteq> u \<longrightarrow> GetObject h3 v = GetObject h2 v"
    and h3u: "GetObject h3 u = (if retain_mode (t2\<lparr>ref_cnt := ref_cnt t2 - 1\<rparr>) = PROCESS_MODE \<and> R2 u = 1 then None
      else Some (t2\<lparr>ref_cnt := ref_cnt t2 - 1, ref_cnt := ref_cnt (t2\<lparr>ref_cnt := ref_cnt t2 - 1\<rparr>) - 1\<rparr>))"
    using accounted_release [OF h2(2,4) R2u(1)] by blast
  have h3c: "core tv = core t2" if "GetObject h3 u = Some tv" for tv using that h3u by (auto split: if_splits)
  have "accounted h3 (\<lambda>v. refs m v - (if v \<in> m_held m u then 1 else 0) - (if v = u then 2 else 0))"
    by (rule accounted_cong [OF h3(2)]) (use un in \<open>auto simp: hold al R2_def\<close>)
  moreover have lk: "GetObject h3 v = (case GetObject (r_tasks m) v of None \<Rightarrow> None | Some t \<Rightarrow> if v \<notin> set ?D then Some t
         else if retain_mode t = PROCESS_MODE \<and> refs m v = 1 then None else Some (t\<lparr>ref_cnt := ref_cnt t - 1\<rparr>))" if "v \<noteq> u" for v
    using that h3(3) h2(3) by (simp add: h1(3) iris_simps)
  moreover have "alive h3 v \<or> v = u \<or> v \<in> completed m" if "alive (r_tasks m) v" for v
    using that lk [of v] pt(3,6) by (cases "v = u") (auto simp: alive_def split: if_splits)
  moreover have "if v = u then core tv = core t2 else \<exists>t0. GetObject (r_tasks m) v = Some t0 \<and> core tv = core t0"
    if "GetObject h3 v = Some tv" for v tv
    using that h3c lk [of v] by (auto split: if_splits option.splits)
  ultimately show ?thesis using h1(1) h2(1) h3(1) by blast
qed

lemma busy_refs_pop:
  assumes "d < ndevs m" "r_busy m d = Some u"
  shows "busy_refs m v = busy_refs (m\<lparr>r_busy := (r_busy m)(d := None)\<rparr>) v + (if v = u then 1 else 0)"
  using sum_fun_upd [OF assms(1), of "\<lambda>b. of_bool (b = Some v)" "r_busy m" None] assms(2)
  by (simp add: busy_refs_def ndevs_def)

lemma inv_worker_end:
  assumes i: "inv allowed m" and b: "r_busy m d = Some u"
  shows "\<exists>m'. exec e (AWorkerEnd d) m = Some m' \<and> inv allowed m' \<and> progress m m'"
proof -
  obtain t where t: "GetObject (r_tasks m) u = Some t" and pt: "plain t" "t_dev t = Some d" "t_user t" "retain_mode t = PROCESS_MODE"
    "allowed (t_brs_policy t)" "m_deps m u = set (depend_uids t)" "u \<in> inflight m" "running m u" "m_deps m u \<subseteq> completed m" "d < ndevs m"
    by (rule busy_task [OF i b])
  let ?t2 = "complete_mark (set_status IRIS_SUBMITTED t)"
  obtain h1 h2 h c2 c3 where h: "release_deps (depend_uids t) (TrackObject (r_tasks m) ?t2 u) = Some h1"
    "Release u h1 = Some (h2, c2)" "Release u h2 = Some (h, c3)"
    and acc: "accounted h (\<lambda>v. refs m v - (if v \<in> m_held m u then 1 else 0) - (if v = u then 2 else 0))"
    and gone: "\<And>v. alive (r_tasks m) v \<Longrightarrow> alive h v \<or> v = u \<or> v \<in> completed m"
    and lk: "\<And>v tv. GetObject h v = Some tv \<Longrightarrow>
      (if v = u then core tv = core ?t2 else \<exists>t0. GetObject (r_tasks m) v = Some t0 \<and> core tv = core t0)"
    using completion_registry [OF i b t] by blast
  have rel: "release_task_flag (r_flags m)" using invD(1) [OF i] by (simp add: inv_static_def flags_default_def)
  define m' where "m' = m\<lparr>r_tasks := h, r_active := (r_active m)(d := r_active m d - 1),
    r_sem_sched := Suc (r_sem_sched m), r_sem_worker := (r_sem_worker m)(d := Suc (r_sem_worker m d)),
    r_busy := (r_busy m)(d := None), m_log := m_log m @ [EComplete u]\<rparr>"
  have ex: "exec e (AWorkerEnd d) m = Some m'"
    using Worker_Execute_end_plain [OF t pt(1) rel pt(2) h] b by (simp add: m'_def)
  have f: "r_tasks m' = h" "r_queue m' = r_queue m" "m_submitted m' = m_submitted m" "m_deps m' = m_deps m" "m_held m' = m_held m"
    "m_waiting m' = m_waiting m" "m_log m' = m_log m @ [EComplete u]" "r_ready m' = r_ready m" "ready_refs m' = ready_refs m"
    "r_busy m' = (r_busy m)(d := None)" "ndevs m' = ndevs m" "created m' = created m" "in_ready m' = in_ready m"
    "m_worker_awake m' = m_worker_awake m" "r_sem_worker m' = (r_sem_worker m)(d := Suc (r_sem_worker m d))"
    "r_sem_sched m' = Suc (r_sem_sched m)" "r_uid m' = r_uid m"
    by (simp_all add: m'_def)
  have cm: "completed m' = insert u (completed m)" by (auto simp: completed_def f)
  have im: "inflight m' = inflight m - {u}" by (auto simp: inflight_def cm f)
  have uniq: "r_busy m d' = Some u \<longleftrightarrow> d' = d" for d' using b invD(4) [OF i] by (auto simp: inv_places_def)
  have rn: "running m' v \<longleftrightarrow> running m v \<and> v \<noteq> u" for v
    using uniq b pt(10) unfolding running_def f by (auto simp: fun_upd_apply split: if_splits) (metis option.inject)
  have uc: "u \<notin> completed m" using pt(7) by (simp add: inflight_def)
  have uq: "u \<notin> set (r_queue m)" using invD(4) [OF i] pt(8) by (auto simp: inv_places_def)
  have rf: "refs m' v = refs m v - (if v \<in> m_held m u then 1 else 0) - (if v = u then 2 else 0)" for v
  proof -
    have "busy_refs m v = busy_refs m' v + (if v = u then 1 else 0)"
      using busy_refs_pop [of d "m\<lparr>r_tasks := h, r_active := (r_active m)(d := r_active m d - 1),
        r_sem_sched := Suc (r_sem_sched m), r_sem_worker := (r_sem_worker m)(d := Suc (r_sem_worker m d))\<rparr>" u v] b pt(10)
      by (simp add: m'_def)
    moreover have "int (card {c \<in> inflight m. v \<in> m_held m c}) = int (card {c \<in> inflight m'. v \<in> m_held m' c}) + (if v \<in> m_held m u then 1 else 0)"
    proof -
      let ?S = "{c \<in> inflight m. v \<in> m_held m c}"
      have S: "{c \<in> inflight m'. v \<in> m_held m' c} = ?S - {u}" by (auto simp: im f)
      have fin: "finite ?S" using inv_finite [OF i] by simp
      show ?thesis
      proof (cases "v \<in> m_held m u")
        case True
        then have "u \<in> ?S" using pt(7) by simp
        then have "card ?S = Suc (card (?S - {u}))" using fin by (rule card.remove [rotated])
        then show ?thesis using True unfolding S by simp
      next
        case False
        then have "?S - {u} = ?S" by blast
        then show ?thesis using False unfolding S by simp
      qed
    qed
    ultimately show ?thesis using pt(7) unfolding refs_def by (simp add: f im)
  qed
  have "inv_tasks allowed m'" unfolding inv_tasks_def
  proof (intro allI impI)
    fix v tv assume g: "GetObject (r_tasks m') v = Some tv"
    show "plain tv \<and> obj_uid tv = v \<and> v \<in> created m' \<and> set (depend_uids tv) \<subseteq> created m' \<and> m_deps m' v = set (depend_uids tv) \<and>
        (if v \<in> m_submitted m' then task_submitted allowed m' v tv else task_fresh allowed tv)"
    proof (cases "v = u")
      case True
      with lk [of v tv] g have c: "core tv = core ?t2" by (simp add: f)
      then have "task_submitted allowed m' u tv" using pt by (simp add: task_submitted_def cm f core_def [of tv])
      with inv_task(1-4,7) [OF i t] c True pt(7) show ?thesis by (simp add: f core_def [of tv] inflight_def)
    next
      case False
      with lk [of v tv] g obtain t0 where c: "GetObject (r_tasks m) v = Some t0" "core tv = core t0" by (auto simp: f)
      have "task_submitted allowed m' v tv" if "task_submitted allowed m v tv"
        using that False by (simp add: task_submitted_def cm rn f)
      with task_inv_core [OF i c] False show ?thesis by (auto simp: f)
    qed
  qed
  moreover have "inv_places m'"
  proof -
    have dv: "t_dev tv = Some d'" if "r_busy m d' = Some v" "GetObject h v = Some tv" "v \<noteq> u" for d' v tv
      using lk [OF that(2)] that(1,3) invD(4) [OF i] by (auto simp: inv_places_def core_def)
    have nu: "r_busy m d' = Some v \<Longrightarrow> d' \<noteq> d \<Longrightarrow> v \<noteq> u" for d' v using uniq by auto
    show ?thesis using invD(4) [OF i] dv nu uq unfolding inv_places_def im cm rn f
      by (simp add: fun_upd_apply split: if_splits) blast
  qed
  moreover have "inv_refs m'" unfolding inv_refs_def f by (rule accounted_cong [OF acc rf [symmetric]])
  moreover have "inv_held m'"
  proof -
    have "alive (r_tasks m) v" if "alive h v" for v using that lk [of v] t by (cases "v = u") (auto simp: alive_def)
    then show ?thesis using invD(6) [OF i] by (auto simp: inv_held_def im f)
  qed
  moreover have "inv_alive m'" using invD(3) [OF i] gone pt(7) by (auto simp: inv_alive_def cm f inflight_def)
  moreover have "inv_log m'"
  proof -
    have "EStart u \<in> set (m_log m)" using invD(7) [OF i] pt(8) by (simp add: inv_log_def)
    then have "log_ok (m_deps m) (m_log m @ [EComplete u])"
      using invD(7) [OF i] uc by (intro log_ok_complete) (auto simp: inv_log_def completed_def)
    moreover have "EStart v \<in> set (m_log m') \<longleftrightarrow> v \<in> completed m' \<or> running m' v" for v
      using invD(7) [OF i] pt(8) by (auto simp: inv_log_def f cm rn)
    ultimately show ?thesis by (simp add: inv_log_def f)
  qed
  moreover have "inv_wake m'" using invD(8) [OF i] by (auto simp: inv_wake_def f)
  moreover have "inv_static m'" using invD(1) [OF i] b by (simp add: inv_static_def f) (simp add: m'_def)
  ultimately have "inv allowed m'" by (simp add: inv_def)
  moreover have "weight m' < weight m" using b pt(10)
    by (intro weight_less [of _ _ d]) (auto simp: dev_weight_def sched_weight_def m'_def)
  then have "progress m m'" by (auto simp: progress_def f cm)
  ultimately show ?thesis using ex by blast
qed

end
