(* ===== verification/Iris_Runtime_Props.thy ===== *)
theory Iris_Runtime_Props
  imports Iris_Runtime_Steps
begin

text \<open>
  What holds in every run of the runtime, for every interleaving of host, scheduler and workers: the
  invariant in every reachable state, termination and completion for every placement that keeps the
  contract, and the theorems for the built-in policies.
\<close>

section \<open>Every reachable state\<close>

lemma inv_init: "types \<noteq> [] \<Longrightarrow> dflt < length types \<Longrightarrow> inv allowed (machine_init types dflt customs)"
  by (simp add: inv_defs machine_init_def ndevs_def completed_def inflight_def in_ready_def running_def
      log_ok_def accounted_def refs_def ready_refs_def busy_refs_def ObjectTrack_new_def GetObject_def
      QueueReady_new_def QueueReady_content_def)

text \<open>The actions of the scheduler's and the workers' threads.\<close>

fun thread_action :: "action \<Rightarrow> bool" where
  "thread_action (AWake th) = True"
| "thread_action ASchedStep = True"
| "thread_action (AWorkerStep d) = True"
| "thread_action (AWorkerEnd d) = True"
| "thread_action _ = False"

definition thread_step :: "sched_env \<Rightarrow> (int \<Rightarrow> bool) \<Rightarrow> machine \<Rightarrow> machine \<Rightarrow> bool" where
  "thread_step e allowed m m' \<longleftrightarrow> (\<exists>a. thread_action a \<and> step e allowed m a m')"

text \<open>No thread can do anything.\<close>

definition quiet :: "(int \<Rightarrow> bool) \<Rightarrow> machine \<Rightarrow> bool" where
  "quiet allowed m \<longleftrightarrow> (\<forall>a. thread_action a \<longrightarrow> \<not> enabled allowed a m)"

text \<open>The tasks in flight can be completed: what they depend on has been submitted, and nothing depends
  on itself.\<close>

definition well_submitted :: "machine \<Rightarrow> bool" where
  "well_submitted m \<longleftrightarrow> (\<forall>c \<in> inflight m. m_deps m c \<subseteq> m_submitted m) \<and>
     acyclic {(d, c). c \<in> inflight m \<and> d \<in> m_deps m c}"

lemma well_submitted_progress: "well_submitted m \<Longrightarrow> progress m m' \<Longrightarrow> well_submitted m'"
  unfolding well_submitted_def
  by (auto simp: progress_def inflight_def elim!: acyclic_subset)

context placement
begin

lemma thread_exec:
  assumes "inv allowed m" "enabled allowed a m" "thread_action a"
  shows "\<exists>m'. exec e a m = Some m' \<and> inv allowed m' \<and> progress m m'"
proof (cases a)
  case (AWake th)
  with assms show ?thesis using inv_wake_step by blast
next
  case ASchedStep
  with assms show ?thesis using inv_sched_step [OF assms(1)] by auto
next
  case (AWorkerStep d)
  with assms show ?thesis using inv_worker_step [OF assms(1), of d e] by auto
next
  case (AWorkerEnd d)
  with assms(2) obtain u where "r_busy m d = Some u" by auto
  with AWorkerEnd show ?thesis using inv_worker_end [OF assms(1), of d u e] by blast
qed (use assms(3) in simp_all)

lemma exec_inv:
  assumes "inv allowed m" "enabled allowed a m"
  shows "\<exists>m'. exec e a m = Some m' \<and> inv allowed m'"
proof -
  have host: ?thesis if "\<not> thread_action a"
  proof (cases a)
    case (ACreate name graph_end junk)
    with assms show ?thesis using inv_create [of allowed m junk e name graph_end] by simp
  next
    case ANewObject
    with assms show ?thesis using inv_new_object by (simp add: iris_create_new_uid_def)
  next
    case (ASetName u n)
    with assms show ?thesis using inv_set_name by simp
  next
    case (ASetMetadata u i v)
    with assms show ?thesis using inv_set_metadata by simp
  next
    case (ASetMetadataAll u mdata)
    with assms show ?thesis using inv_set_metadata_all by simp
  next
    case (AAddCommand u c k)
    with assms show ?thesis using inv_add_command by simp
  next
    case (ADepend u ds)
    with assms show ?thesis using inv_depend by (simp del: exec.simps)
  next
    case (ASubmit u p opt)
    with assms show ?thesis using inv_submit [OF assms(1), of u p opt] by simp
  next
    case (ASetPolicy u p opt)
    with assms show ?thesis using inv_set_policy by simp
  next
    case (AGraphSubmit u p)
    with assms(2) have u: "u \<in> created m - m_submitted m" "allowed p" "p \<noteq> iris_pending" by auto
    obtain t where "GetObject (r_tasks m) u = Some t" "plain t" "task_fresh allowed t"
      by (rule host_task [OF assms(1)]) (use u in auto)
    with u AGraphSubmit inv_submit [OF assms(1) u(1), of "graph_policy p t" "Some (t_opt t)"] invD(1) [OF assms(1)]
      graph_submit_host [of m u t p e]
    show ?thesis by (auto simp: task_fresh_def graph_policy_def inv_static_def simp del: exec.simps)
  next
    case (AWaitBegin u)
    with assms show ?thesis using inv_wait_begin by blast
  next
    case (AWaitEnd u)
    with assms show ?thesis using inv_wait_end by blast
  qed (use that in simp_all)
  with thread_exec [OF assms] show ?thesis by blast
qed

lemma step_inv: "inv allowed m \<Longrightarrow> step e allowed m a m' \<Longrightarrow> inv allowed m'"
  using exec_inv by (fastforce elim: stepE)

lemma reachable_inv: "reachable e allowed m \<Longrightarrow> inv allowed m"
  by (induction rule: reachable.induct) (auto intro: inv_init step_inv)

lemma reachable_steps: "reachable e allowed m \<Longrightarrow> enabled allowed a m \<Longrightarrow> \<exists>m'. step e allowed m a m' \<and> reachable e allowed m'"
  using exec_inv [OF reachable_inv] by (metis reachable.more step.intros)

text \<open>A runtime with work in flight has a step of one of its threads.\<close>

lemma not_stuck:
  assumes r: "reachable e allowed m" and w: "inflight m \<noteq> {}" and ws: "well_submitted m"
  shows "\<not> quiet allowed m"
proof -
  note i = reachable_inv [OF r]
  have d: "\<forall>c \<in> inflight m. m_deps m c \<subseteq> m_submitted m" "acyclic {(d, c). c \<in> inflight m \<and> d \<in> m_deps m c}"
    using ws by (auto simp: well_submitted_def)
  let ?R = "{(d, c). c \<in> inflight m \<and> d \<in> m_deps m c} \<inter> inflight m \<times> inflight m"
  have "finite ?R" using inv_finite [OF i] by simp
  moreover have "acyclic ?R" by (rule acyclic_subset [OF d(2)]) blast
  ultimately have wf: "wf ?R" by (rule finite_acyclic_wf)
  obtain x where x: "x \<in> inflight m" using w by blast
  obtain u where u: "u \<in> inflight m" "\<And>v. (v, u) \<in> ?R \<Longrightarrow> v \<notin> inflight m" by (rule wfE_min [OF wf x]) blast
  have dc: "m_deps m u \<subseteq> completed m" using u d(1) by (auto simp: inflight_def)
  obtain t where t: "GetObject (r_tasks m) u = Some t" by (rule aliveE [OF inflight_alive [OF invD(5) [OF i] u(1)]])
  have "running m u \<or> u \<in> set (r_queue m) \<or> in_ready m u"
    using inv_task(5) [OF i t] u(1) by (auto simp: inflight_def task_submitted_def split: if_splits)
  then consider x where "x < ndevs m" "r_busy m x = Some u" | "u \<in> set (r_queue m)"
    | x where "x < ndevs m" "QueueReady_content (r_ready m x) \<noteq> {#}"
    unfolding running_def in_ready_def by (metis empty_iff set_mset_empty)
  then have "\<exists>a. enabled allowed a m \<and> thread_action a"
  proof cases
    case 1
    then show ?thesis by (intro exI [of _ "AWorkerEnd x"]) auto
  next
    case 2
    then have "m_sched_awake m \<or> 0 < r_sem_sched m" using invD(8) [OF i] dc by (auto simp: inv_wake_def)
    then show ?thesis
      by (intro exI [of _ "if m_sched_awake m then ASchedStep else AWake SchedulerThread"]) (auto simp: Sleep_returns_def)
  next
    case 3
    show ?thesis
    proof (cases "m_worker_awake m x")
      case True
      then show ?thesis using 3
        by (intro exI [of _ "if r_busy m x = None then AWorkerStep x else AWorkerEnd x"]) auto
    next
      case False
      then have "0 < r_sem_worker m x" using invD(8) [OF i] 3 by (auto simp: inv_wake_def)
      then show ?thesis using False 3 by (intro exI [of _ "AWake (WorkerThread x)"]) (auto simp: Sleep_returns_def)
    qed
  qed
  then show ?thesis by (auto simp: quiet_def)
qed

lemma thread_step_progress:
  assumes "reachable e allowed m" "thread_step e allowed m m'"
  shows "reachable e allowed m'" "progress m m'"
proof -
  from assms(2) obtain a where a: "thread_action a" "step e allowed m a m'" by (auto simp: thread_step_def)
  then show "reachable e allowed m'" using assms(1) by (auto intro: reachable.more)
  from a(2) have "enabled allowed a m" "exec e a m = Some m'" by (auto elim: stepE)
  with thread_exec [OF reachable_inv [OF assms(1)] _ a(1)] show "progress m m'" by auto
qed

text \<open>The threads cannot go on for ever by themselves.\<close>

lemma threads_wf: "wfp (\<lambda>m' m. reachable e allowed m \<and> thread_step e allowed m m')"
proof -
  have "wf (inv_image (less_than <*lex*> less_than) (\<lambda>m. (length (r_queue m), weight m)))" by auto
  then show ?thesis unfolding wfp_def
    by (rule wf_subset) (use thread_step_progress(2) in \<open>fastforce simp: progress_def\<close>)
qed

lemma threads_reach_quiet: "reachable e allowed m \<Longrightarrow> \<exists>m'. (thread_step e allowed)\<^sup>*\<^sup>* m m' \<and> quiet allowed m'"
proof (induction m rule: wfp_induct_rule [OF threads_wf])
  case (1 m)
  show ?case
  proof (cases "quiet allowed m")
    case False
    then obtain a where a: "thread_action a" "enabled allowed a m" by (auto simp: quiet_def)
    with thread_exec [OF reachable_inv [OF 1(2)], of a] obtain m1 where "exec e a m = Some m1" by blast
    with a have s: "thread_step e allowed m m1" by (auto simp: thread_step_def intro: step.intros)
    from 1(1) [of m1] 1(2) s thread_step_progress(1) [OF 1(2) s] obtain m' where
      "(thread_step e allowed)\<^sup>*\<^sup>* m1 m'" "quiet allowed m'" by blast
    with s show ?thesis by (meson converse_rtranclp_into_rtranclp)
  qed blast
qed

lemma threads_run:
  assumes "reachable e allowed m" "well_submitted m" "(thread_step e allowed)\<^sup>*\<^sup>* m m'"
  shows "reachable e allowed m' \<and> well_submitted m' \<and> m_submitted m' = m_submitted m"
  using assms(3,1,2)
proof (induction rule: rtranclp_induct)
  case (step y z)
  then show ?case using thread_step_progress [of y z] well_submitted_progress [of y z] by (auto simp: progress_def)
qed simp

lemma threads_complete:
  assumes "reachable e allowed m" "well_submitted m" "(thread_step e allowed)\<^sup>*\<^sup>* m m'" "quiet allowed m'"
  shows "completed m' = m_submitted m"
  using threads_run [OF assms(1-3)] not_stuck [of m'] assms(4) invD(3) [OF reachable_inv, of m']
  by (auto simp: inflight_def inv_alive_def)

end

section \<open>The built-in policies\<close>

text \<open>The policies that always answer: a device number, the device classes, round robin, first to
  finish, shortest queue, random. The data, dependency and profile policies have branches that follow a
  NULL pointer or an empty history, and block cycle fails on more than sixteen devices.\<close>

definition basic_policy :: "int \<Rightarrow> bool" where
  "basic_policy p \<longleftrightarrow> 0 \<le> p \<and> (has_bits p iris_roundrobin \<or> \<not> has_bits p iris_julia_policy) \<and>
     p \<notin> {iris_block_cycle, iris_data, iris_depend, iris_profile, iris_pending, iris_custom}"

definition no_affinity :: "sched_env \<Rightarrow> sched_env" where
  "no_affinity e = e\<lparr>e_affinity := \<lambda>_. -1\<rparr>"

lemma basic_GetPolicy: "basic_policy p \<Longrightarrow> GetPolicy customs p opt \<in> {P_roundrobin, P_device, P_ftf, P_default, P_sdq, P_random}"
  by (auto simp: basic_policy_def GetPolicy_def)

lemma rr_type_loop_range:
  "index < n \<Longrightarrow> set (fst (rr_type_loop n ok k index)) \<subseteq> {..<n} \<and> snd (rr_type_loop n ok k index) < n"
  by (induction k arbitrary: index) (auto simp: rr_next_less)

lemma RoundRobin_range:
  assumes "index < length types"
  shows "set (fst (PolicyRoundRobin_GetDevices types p index supp)) \<subseteq> {..<length types}"
    "snd (PolicyRoundRobin_GetDevices types p index supp) < length types"
  using assms rr_loop_range [of index "length types" "[]" supp "length types"]
    rr_type_loop_range [of index "length types" "\<lambda>i. has_bits (types ! i) p \<and> supp i" "length types"]
  by (auto simp: PolicyRoundRobin_GetDevices_def PolicyRoundRobin_GetDevice_def PolicyRoundRobin_GetDeviceType_def)

lemma sdq_range: "0 < n \<Longrightarrow> set (PolicyShortestDeviceQueue_GetDevices n load supp) \<subseteq> {..<n}"
proof -
  have "min_dev < n \<Longrightarrow> set is \<subseteq> {..<n} \<Longrightarrow> sdq_scan supp load lo min_dev is < n" for lo min_dev "is"
    by (induction supp load lo min_dev "is" rule: sdq_scan.induct) auto
  from this [of 0 "[0..<n]" ULONG_MAX] show "0 < n \<Longrightarrow> ?thesis" by (simp add: PolicyShortestDeviceQueue_GetDevices_def atLeast0LessThan)
qed

lemma affinity_none: "get_device_affinity (\<lambda>_. -1) t = -1"
  by (simp add: get_device_affinity_def split: option.splits)

text \<open>A built-in policy's answer, whatever the environment.\<close>

lemma basic_answer:
  fixes m :: machine
  assumes "inv_static m" "p \<in> {P_roundrobin, P_device, P_ftf, P_default, P_sdq, P_random}"
  shows "\<exists>ds rr. Policy_GetDevices e m p t = Some (ds, rr) \<and> set ds \<subseteq> {..<ndevs m} \<and> rr < ndevs m"
proof -
  have n: "0 < ndevs m" "r_rr_index m < ndevs m" "ndevs m = length (r_types m)" using assms(1) by (auto simp: inv_static_def ndevs_def)
  let ?s = "task_supported e t"
  note rr = RoundRobin_range [of "r_rr_index m" "r_types m" "t_brs_policy t" ?s]
  consider "p = P_roundrobin" | "p = P_device" | "p = P_ftf" | "p = P_default" | "p = P_sdq" | "p = P_random" using assms(2) by auto
  then show ?thesis
  proof cases
    case 1
    with rr n show ?thesis by (cases "PolicyRoundRobin_GetDevices (r_types m) (t_brs_policy t) (r_rr_index m) ?s") (simp add: Policy_GetDevices_def)
  next
    case 2
    with n dev.pick_range [of "r_types m" _ "t_brs_policy t" ?s] show ?thesis by (auto simp: Policy_GetDevices_def Let_def)
  next
    case 3
    with n ftf.pick_range [of "ndevs m" _ ?s] show ?thesis by (auto simp: Policy_GetDevices_def Let_def)
  next
    case 4
    with n dflt.pick_range [of "ndevs m" _ ?s] show ?thesis by (auto simp: Policy_GetDevices_def Let_def)
  next
    case 5
    with n sdq_range [OF n(1), of "sdq_load m" ?s] show ?thesis by (simp add: Policy_GetDevices_def Let_def)
  next
    case 6
    with n rnd.pick_range [of "ndevs m" _ "e_rand e" ?s] show ?thesis by (auto simp: Policy_GetDevices_def Let_def)
  qed
qed

text \<open>An answer for the policies above \<open>IRIS_MAX_NDEVS\<close> is an answer for all: below it the policy is a
  device number, and one the platform does not have gives no device.\<close>

lemma place_by_answer:
  fixes m :: machine
  assumes "inv_static m" "0 \<le> t_brs_policy t" "IRIS_MAX_NDEVS \<le> t_brs_policy t \<Longrightarrow>
    \<exists>ds rr. Policy_GetDevices e m (GetPolicy (r_customs m) (t_brs_policy t) (t_opt t)) t = Some (ds, rr) \<and>
      set ds \<subseteq> {..<ndevs m} \<and> rr < ndevs m" "e_affinity e = (\<lambda>_. -1)"
  shows "\<exists>ds rr. SubmitTask_devs e m t = Some (ds, rr) \<and> set ds \<subseteq> {..<ndevs m} \<and> rr < ndevs m"
  using assms by (auto simp: SubmitTask_devs_def affinity_none inv_static_def Let_def not_less)

interpretation basic: placement "no_affinity e" basic_policy for e
proof
  fix m :: machine and t :: Task
  assume s: "inv_static m" and p: "basic_policy (t_brs_policy t)"
  from p have "0 \<le> t_brs_policy t" by (simp add: basic_policy_def)
  with s show "\<exists>ds rr. SubmitTask_devs (no_affinity e) m t = Some (ds, rr) \<and> set ds \<subseteq> {..<ndevs m} \<and> rr < ndevs m"
    by (rule place_by_answer) (rule basic_answer [OF s basic_GetPolicy [OF p]], simp add: no_affinity_def)
qed

section \<open>Runs\<close>

text \<open>A sequence of actions, each of them enabled where it is taken.\<close>

fun run :: "sched_env \<Rightarrow> (int \<Rightarrow> bool) \<Rightarrow> action list \<Rightarrow> machine \<Rightarrow> machine option" where
  "run e allowed [] m = Some m"
| "run e allowed (a # as) m = (if enabled allowed a m then do { m \<leftarrow> exec e a m; run e allowed as m } else None)"

lemma run_reachable: "run e allowed as m = Some m' \<Longrightarrow> reachable e allowed m \<Longrightarrow> reachable e allowed m'"
  by (induction as arbitrary: m)
    (auto split: if_splits bind_splits intro: reachable.more step.intros)

definition demo_env :: sched_env where
  "demo_env = \<lparr>e_supported = (\<lambda>_ _. True), e_rand = 0, e_history = (\<lambda>_. History_new 2),
     e_mem_of = (\<lambda>u. \<lparr>mem_uid = u, mem_handler = IRIS_MEM, mem_bytes = 0\<rparr>), e_owner = (\<lambda>_. None), e_affinity = (\<lambda>_. -1),
     e_dev_async = (\<lambda>_. False), e_julia = (\<lambda>_. None), e_custom = (\<lambda>_ _ _ _ _. None)\<rparr>"

definition demo_start :: machine where "demo_start = machine_init [iris_cpu, iris_nvidia] 0 (\<lambda>_. False)"

text \<open>Two tasks on two devices, the second depends on the first; the host waits for it.\<close>

definition demo_host :: "action list" where
  "demo_host =
     [ACreate None False (replicate 6 0), ACreate None False (replicate 6 0), ADepend 3 [2],
      ASubmit 3 iris_ftf None, ASubmit 2 1 None, AWaitBegin 3]"

definition demo_threads :: "action list" where
  "demo_threads =
     [AWake SchedulerThread, ASchedStep, ASchedStep, AWorkerStep 1, AWorkerEnd 1,
      AWake SchedulerThread, ASchedStep, AWorkerStep 0, AWorkerStep 1, AWorkerEnd 0]"

lemma demo_reachable: "run (no_affinity demo_env) basic_policy as demo_start = Some m \<Longrightarrow> reachable (no_affinity demo_env) basic_policy m"
  by (rule run_reachable) (auto simp: demo_start_def intro: reachable.init)

lemma map_option_runE: "map_option f x = Some y \<Longrightarrow> (\<And>m. x = Some m \<Longrightarrow> f m = y \<Longrightarrow> P) \<Longrightarrow> P"
  by auto

lemma demo_before:
  "\<exists>m. run (no_affinity demo_env) basic_policy demo_host demo_start = Some m \<and> reachable (no_affinity demo_env) basic_policy m \<and>
     enabled basic_policy (AWake SchedulerThread) m \<and> r_queue m = [3, 2] \<and> m_submitted m = {2, 3} \<and> m_log m = [] \<and>
     m_deps m 2 = {} \<and> m_deps m 3 = {2} \<and> well_submitted m"
proof -
  have "map_option (\<lambda>m. (enabled basic_policy (AWake SchedulerThread) m, r_queue m, m_submitted m, m_log m, m_deps m 2, m_deps m 3))
      (run (no_affinity demo_env) basic_policy demo_host demo_start) = Some (True, [3, 2], {2, 3}, [], {}, {2})" by code_simp
  then obtain m where m: "run (no_affinity demo_env) basic_policy demo_host demo_start = Some m" "enabled basic_policy (AWake SchedulerThread) m"
    "r_queue m = [3, 2]" "m_submitted m = {2, 3}" "m_log m = []" "m_deps m 2 = {}" "m_deps m 3 = {2}"
    by (elim map_option_runE) (simp del: enabled.simps)
  have "inflight m = {2, 3}" by (simp add: inflight_def completed_def m)
  then have "{(d, c). c \<in> inflight m \<and> d \<in> m_deps m c} = {(2, 3)}" using m by auto
  then have "well_submitted m" using m \<open>inflight m = {2, 3}\<close> by (simp add: well_submitted_def acyclic_insert) (simp add: acyclic_def)
  with m demo_reachable show ?thesis by blast
qed

lemma demo_after:
  "\<exists>m. run (no_affinity demo_env) basic_policy (demo_host @ demo_threads) demo_start = Some m \<and> reachable (no_affinity demo_env) basic_policy m \<and>
     m_log m = [EStart 2, EComplete 2, EStart 3, EComplete 3] \<and> m_deps m 3 = {2} \<and> \<not> alive (r_tasks m) 2 \<and> alive (r_tasks m) 3"
proof -
  have "map_option (\<lambda>m. (m_log m, m_deps m 3, alive (r_tasks m) 2, alive (r_tasks m) 3))
      (run (no_affinity demo_env) basic_policy (demo_host @ demo_threads) demo_start) =
      Some ([EStart 2, EComplete 2, EStart 3, EComplete 3], {2}, False, True)" by code_simp
  then obtain m where "run (no_affinity demo_env) basic_policy (demo_host @ demo_threads) demo_start = Some m"
    "m_log m = [EStart 2, EComplete 2, EStart 3, EComplete 3]" "m_deps m 3 = {2}" "\<not> alive (r_tasks m) 2" "alive (r_tasks m) 3"
    by (elim map_option_runE) simp
  with demo_reachable show ?thesis by blast
qed

section \<open>What holds in every run\<close>



lemma log_ok_split:
  assumes "log_ok deps (pre @ x # post)"
  shows "case x of EStart u \<Rightarrow> \<forall>d \<in> deps u. EComplete d \<in> set pre | EComplete u \<Rightarrow> EStart u \<in> set pre"
proof -
  let ?l = "pre @ x # post"
  have "case ?l ! length pre of EStart u \<Rightarrow> \<forall>d \<in> deps u. EComplete d \<in> set (take (length pre) ?l)
      | EComplete u \<Rightarrow> EStart u \<in> set (take (length pre) ?l)"
    using assms unfolding log_ok_def by (auto simp del: nth_append_length take_append)
  then show ?thesis by (cases x) simp_all
qed

text \<open>C3. Dependencies are respected: when a task starts, every task it depended on at its submission has
  completed before.\<close>

theorem dependencies_respected:
  assumes "reachable (no_affinity e) basic_policy m" "m_log m = pre @ EStart u # post" "d \<in> m_deps m u"
  shows "EComplete d \<in> set pre"
  using log_ok_split [of "m_deps m" pre "EStart u" post] invD(7) [OF basic.reachable_inv [OF assms(1)]] assms(2,3)
  by (simp add: inv_log_def)

theorem dependencies_respected_witness:
  "\<exists>m. run (no_affinity demo_env) basic_policy (demo_host @ demo_threads) demo_start = Some m \<and> m_deps m 3 = {2} \<and>
     m_log m = [EStart 2, EComplete 2] @ EStart 3 # [EComplete 3] \<and> EComplete 2 \<in> set [EStart 2, EComplete 2]"
proof -
  obtain m where m: "run (no_affinity demo_env) basic_policy (demo_host @ demo_threads) demo_start = Some m" "m_deps m 3 = {2}"
    "reachable (no_affinity demo_env) basic_policy m" "m_log m = [EStart 2, EComplete 2] @ EStart 3 # [EComplete 3]"
    using demo_after by auto
  with dependencies_respected [OF m(3,4), of 2] show ?thesis by blast
qed

text \<open>C4. Every task is executed at most once, even when the policy sends it to several devices: an event occurs
  once in the log, a completion follows its start, only submitted tasks start, and a task runs on one
  device at a time.\<close>

theorem executed_once:
  assumes "reachable (no_affinity e) basic_policy m"
  shows "distinct (m_log m) \<and> (\<forall>u. EStart u \<in> set (m_log m) \<longrightarrow> u \<in> m_submitted m) \<and>
    (\<forall>pre u post. m_log m = pre @ EComplete u # post \<longrightarrow> EStart u \<in> set pre) \<and>
    (\<forall>u d d'. r_busy m d = Some u \<and> r_busy m d' = Some u \<longrightarrow> d = d')"
proof -
  note i = basic.reachable_inv [OF assms]
  have l: "log_ok (m_deps m) (m_log m)" using invD(7) [OF i] by (simp add: inv_log_def)
  have "distinct (m_log m)" using l by (simp add: log_ok_def)
  moreover have "EStart u \<in> set pre" if "m_log m = pre @ EComplete u # post" for pre u post
    using log_ok_split [of "m_deps m" pre "EComplete u" post] l that by simp
  moreover have "u \<in> m_submitted m" if "EStart u \<in> set (m_log m)" for u
    using that invD(3,4,7) [OF i] by (auto simp: inv_log_def inv_alive_def running_def inv_places_def inflight_def)
  moreover have "d = d'" if "r_busy m d = Some u \<and> r_busy m d' = Some u" for u d d'
    using that invD(4) [OF i] by (auto simp: inv_places_def)
  ultimately show ?thesis by blast
qed

theorem executed_once_witness:
  "\<exists>m. run (no_affinity demo_env) basic_policy (demo_host @ demo_threads) demo_start = Some m \<and> distinct (m_log m) \<and> EStart 3 \<in> set (m_log m)"
proof -
  obtain m where m: "run (no_affinity demo_env) basic_policy (demo_host @ demo_threads) demo_start = Some m"
    "reachable (no_affinity demo_env) basic_policy m" "m_log m = [EStart 2, EComplete 2, EStart 3, EComplete 3]"
    using demo_after by blast
  with executed_once [OF m(2)] show ?thesis by simp
qed

text \<open>C5. No wake-up is lost: when the scheduler sleeps with an empty semaphore, every task in its queue waits
  for a dependency that is not complete; when a worker sleeps with an empty semaphore, its queue is empty; and a
  worker that executes a task is awake.\<close>

theorem no_lost_wakeup:
  assumes "reachable (no_affinity e) basic_policy m"
  shows "(\<not> m_sched_awake m \<and> r_sem_sched m = 0 \<longrightarrow> (\<forall>u \<in> set (r_queue m). \<exists>d \<in> m_deps m u. EComplete d \<notin> set (m_log m))) \<and>
    (\<forall>d < ndevs m. \<not> m_worker_awake m d \<and> r_sem_worker m d = 0 \<longrightarrow> QueueReady_content (r_ready m d) = {#}) \<and>
    (\<forall>d. r_busy m d \<noteq> None \<longrightarrow> m_worker_awake m d)"
  using invD(8) [OF basic.reachable_inv [OF assms]] unfolding inv_wake_def completed_def by blast

theorem no_lost_wakeup_witness:
  "\<exists>m. run (no_affinity demo_env) basic_policy demo_host demo_start = Some m \<and> r_queue m = [3, 2] \<and>
     \<not> (\<not> m_sched_awake m \<and> r_sem_sched m = 0)"
proof -
  obtain m where m: "run (no_affinity demo_env) basic_policy demo_host demo_start = Some m"
    "reachable (no_affinity demo_env) basic_policy m" "r_queue m = [3, 2]" "m_deps m 2 = {}" using demo_before by blast
  with no_lost_wakeup [OF m(2)] show ?thesis by auto
qed

text \<open>C7. The threads cannot run for ever on what was submitted: no infinite sequence of steps of the scheduler and the
  workers without a new action of the host.\<close>

theorem threads_terminate:
  "\<not> (\<exists>f. reachable (no_affinity e) basic_policy (f 0) \<and> (\<forall>n. thread_step (no_affinity e) basic_policy (f n) (f (Suc n))))"
proof
  assume "\<exists>f. reachable (no_affinity e) basic_policy (f 0) \<and> (\<forall>n. thread_step (no_affinity e) basic_policy (f n) (f (Suc n)))"
  then obtain f where f: "reachable (no_affinity e) basic_policy (f 0)" "\<And>n. thread_step (no_affinity e) basic_policy (f n) (f (Suc n))" by blast
  have "reachable (no_affinity e) basic_policy (f n)" for n
    by (induction n) (use f basic.thread_step_progress(1) in blast)+
  with f(2) basic.threads_wf [of e] show False unfolding wfp_def wf_iff_no_infinite_down_chain by blast
qed



lemma completed_alive:
  assumes i: "inv allowed m" and t: "GetObject (r_tasks m) u = Some t" and c: "u \<in> completed m"
  shows "in_ready m u \<or> u \<in># m_waiting m \<or> (\<exists>c \<in> inflight m. u \<in> m_deps m c)"
proof -
  have acc: "retain_mode t = PROCESS_MODE \<longrightarrow> 0 < refs m u"
    using invD(5) [OF i] t by (auto simp: inv_refs_def accounted_def)
  have "u \<in> m_submitted m" using c invD(3) [OF i] by (auto simp: inv_alive_def)
  then have "0 < refs m u" using inv_task(5) [OF i t] acc c by (simp add: task_submitted_def)
  moreover have "\<not> running m u" using c invD(4) [OF i] by (auto simp: running_def inv_places_def inflight_def)
  then have "busy_refs m u = 0" using busy_refs_pos [of m u] busy_refs_nonneg [of m u] by linarith
  moreover have "card {c \<in> inflight m. u \<in> m_held m c} = 0" if "\<not> (\<exists>c \<in> inflight m. u \<in> m_deps m c)"
    using that invD(6) [OF i] by (auto simp: inv_held_def card_eq_0_iff)
  ultimately show ?thesis using c ready_refs_pos [of m u] ready_refs_nonneg [of m u]
    by (auto simp: refs_def inflight_def simp flip: count_greater_zero_iff)
qed

text \<open>A runtime at rest has empty workers.\<close>

lemma quiet_workers:
  assumes i: "inv allowed m" and q: "quiet allowed m"
  shows "\<not> in_ready m u"
proof
  assume "in_ready m u"
  then obtain x where x: "x < ndevs m" "QueueReady_content (r_ready m x) \<noteq> {#}" unfolding in_ready_def by (metis empty_iff set_mset_empty)
  have "\<exists>a. enabled allowed a m \<and> thread_action a"
  proof (cases "m_worker_awake m x")
    case True
    then show ?thesis using x
      by (intro exI [of _ "if r_busy m x = None then AWorkerStep x else AWorkerEnd x"]) auto
  next
    case False
    then have "0 < r_sem_worker m x" using invD(8) [OF i] x by (auto simp: inv_wake_def)
    then show ?thesis using False x by (intro exI [of _ "AWake (WorkerThread x)"]) (auto simp: Sleep_returns_def)
  qed
  with q show False by (auto simp: quiet_def)
qed

text \<open>C6. No task is leaked and none goes too early: the count of a task is one more than the references held
  on it (by its submission until it completes, by its places in workers' queues, by the worker that executes it, by
  waiting host threads and by incomplete tasks that depend on it), and a completed task is only kept while one of
  them is left.\<close>

theorem references_exact:
  assumes "reachable (no_affinity e) basic_policy m" "GetObject (r_tasks m) u = Some t"
  shows "ref_cnt t = 1 + refs m u \<and>
    (u \<in> completed m \<longrightarrow> in_ready m u \<or> u \<in># m_waiting m \<or> (\<exists>c \<in> inflight m. u \<in> m_deps m c))"
  using completed_alive [OF basic.reachable_inv [OF assms(1)] assms(2)] invD(5) [OF basic.reachable_inv [OF assms(1)]] assms(2)
  by (auto simp: inv_refs_def accounted_def)

theorem references_exact_witness:
  "\<exists>m t. run (no_affinity demo_env) basic_policy (demo_host @ demo_threads) demo_start = Some m \<and>
     GetObject (r_tasks m) 3 = Some t \<and> ref_cnt t = 1 + refs m 3"
proof -
  obtain m where m: "run (no_affinity demo_env) basic_policy (demo_host @ demo_threads) demo_start = Some m"
    "reachable (no_affinity demo_env) basic_policy m" "alive (r_tasks m) 3" using demo_after by blast
  from m(3) obtain t where "GetObject (r_tasks m) 3 = Some t" by (rule aliveE)
  with references_exact [OF m(2) this] m(1) show ?thesis by blast
qed

end
