(* ===== verification/Iris_Program.thy ===== *)
theory Iris_Program
  imports Iris_Runtime_Props
begin

text \<open>
  Host programs. A program is the sequence of calls one host thread makes; between any two of them the
  scheduler and the workers may take any number of steps. What decides whether a call is legal (which
  tasks exist, which are submitted, what they depend on) is the host's view, and no step of the
  runtime's threads changes it; so a program is judged by running it on the view alone.
\<close>

section \<open>The host's view\<close>

record host_view =
  hv_uid :: uid
  hv_created :: "uid set"
  hv_submitted :: "uid set"
  hv_deps :: "uid \<Rightarrow> uid set"

definition view :: "machine \<Rightarrow> host_view" where
  "view m = \<lparr>hv_uid = r_uid m, hv_created = m_created m, hv_submitted = m_submitted m, hv_deps = m_deps m\<rparr>"

fun view_step :: "action \<Rightarrow> host_view \<Rightarrow> host_view" where
  "view_step (ACreate name graph_end junk) v = v\<lparr>hv_uid := Suc (hv_uid v), hv_created := insert (Suc (hv_uid v)) (hv_created v)\<rparr>"
| "view_step ANewObject v = v\<lparr>hv_uid := Suc (hv_uid v)\<rparr>"
| "view_step (ADepend u ds) v = v\<lparr>hv_deps := (hv_deps v)(u := hv_deps v u \<union> set ds)\<rparr>"
| "view_step (ASubmit u p opt) v = v\<lparr>hv_submitted := insert u (hv_submitted v)\<rparr>"
| "view_step (AGraphSubmit u p) v = v\<lparr>hv_submitted := insert u (hv_submitted v)\<rparr>"
| "view_step _ v = v"

text \<open>The calls that return at once; waiting for a task is not among them.\<close>

fun view_enabled :: "(int \<Rightarrow> bool) \<Rightarrow> action \<Rightarrow> host_view \<Rightarrow> bool" where
  "view_enabled allowed (ACreate name graph_end junk) v \<longleftrightarrow> length junk = 6"
| "view_enabled allowed ANewObject v \<longleftrightarrow> True"
| "view_enabled allowed (ASetName u n) v \<longleftrightarrow> u \<in> hv_created v - hv_submitted v"
| "view_enabled allowed (ASetMetadata u i x) v \<longleftrightarrow> u \<in> hv_created v - hv_submitted v \<and> i \<le> 8"
| "view_enabled allowed (ASetMetadataAll u md) v \<longleftrightarrow> u \<in> hv_created v - hv_submitted v \<and> length md \<le> 9"
| "view_enabled allowed (AAddCommand u c k) v \<longleftrightarrow> u \<in> hv_created v - hv_submitted v \<and> cmd_type c \<noteq> None"
| "view_enabled allowed (ADepend u ds) v \<longleftrightarrow> u \<in> hv_created v - hv_submitted v \<and> set ds \<subseteq> hv_created v"
| "view_enabled allowed (ASetPolicy u p opt) v \<longleftrightarrow>
     u \<in> hv_created v - hv_submitted v \<and> (p = iris_default \<or> allowed p) \<and> p \<noteq> iris_pending"
| "view_enabled allowed (AGraphSubmit u p) v \<longleftrightarrow> u \<in> hv_created v - hv_submitted v \<and> allowed p \<and> p \<noteq> iris_pending"
| "view_enabled allowed (ASubmit u p opt) v \<longleftrightarrow> u \<in> hv_created v - hv_submitted v \<and> allowed p \<and> p \<noteq> iris_pending"
| "view_enabled allowed (AWaitBegin u) v \<longleftrightarrow> u \<in> hv_submitted v"
| "view_enabled allowed _ v \<longleftrightarrow> False"

lemma view_enabled: "view_enabled allowed a (view m) \<Longrightarrow> enabled allowed a m \<and> \<not> thread_action a"
  by (cases a) (simp_all add: view_def)

lemma rt_frames [simp]:
  "rt_at u f m = Some m' \<Longrightarrow> view m' = view m" "rt_try u g m = Some m' \<Longrightarrow> view m' = view m"
  "TaskDepend u ds m = Some m' \<Longrightarrow> view m' = view m" "rt_Release u m = Some m' \<Longrightarrow> view m' = view m"
  by (auto simp: rt_at_def rt_try_def TaskDepend_def rt_Release_def view_def split: bind_splits)

lemma view_fields: "view m' = view m \<longleftrightarrow> r_uid m' = r_uid m \<and> m_created m' = m_created m \<and> m_submitted m' = m_submitted m \<and> m_deps m' = m_deps m"
  by (simp add: view_def)

lemma host_submit_view:
  "host_submit u p opt m = Some m' \<Longrightarrow> view m' = (view m)\<lparr>hv_submitted := insert u (hv_submitted (view m))\<rparr>"
  by (auto simp: host_submit_def record_submit_def TaskSubmit_def rt_at_def Scheduler_Enqueue_def Invoke_def view_def split: bind_splits if_splits)

lemma exec_view: "exec e a m = Some m' \<Longrightarrow> \<not> thread_action a \<Longrightarrow> view m' = view_step a (view m)"
proof (cases a)
  case (ACreate name graph_end junk)
  then show "exec e a m = Some m' \<Longrightarrow> ?thesis"
    by (cases graph_end) (auto simp: TaskCreate_def Task_Create_def iris_create_new_uid_def Let_def view_def)
next
  case ANewObject
  then show "exec e a m = Some m' \<Longrightarrow> ?thesis" by (auto simp: iris_create_new_uid_def view_def)
next
  case (ADepend u ds)
  then show "exec e a m = Some m' \<Longrightarrow> ?thesis"
    using rt_frames(3) [of u ds m] by (auto simp: view_def)
next
  case (ASubmit u p opt)
  then show "exec e a m = Some m' \<Longrightarrow> ?thesis" using host_submit_view by simp
next
  case (AGraphSubmit u p)
  then show "exec e a m = Some m' \<Longrightarrow> ?thesis"
    by (auto simp: graph_submit_task_def record_submit_def Scheduler_Enqueue_def Invoke_def view_def split: bind_splits if_splits)
next
  case (ASetPolicy u p opt)
  then show "exec e a m = Some m' \<Longrightarrow> ?thesis" by (auto simp: set_task_policy_def view_def split: bind_splits)
next
  case (AWaitBegin u)
  then show "exec e a m = Some m' \<Longrightarrow> ?thesis" by (auto simp: TaskWait_begin_def view_def)
next
  case (AWaitEnd u)
  then show "exec e a m = Some m' \<Longrightarrow> ?thesis"
    by (auto simp: TaskWait_end_def rt_Release_def view_def split: bind_splits if_splits)
qed (auto dest: rt_frames)

lemma exec_completed: "exec e a m = Some m' \<Longrightarrow> \<not> thread_action a \<Longrightarrow> completed m' = completed m"
  by (cases a)
    (auto simp: completed_def TaskCreate_def Task_Create_def iris_create_new_uid_def Let_def rt_at_def rt_try_def TaskDepend_def
      set_task_policy_def host_submit_def TaskSubmit_def graph_submit_task_def record_submit_def Scheduler_Enqueue_def Invoke_def
      TaskWait_begin_def TaskWait_end_def rt_Release_def split: bind_splits if_splits)

lemma progress_view: "progress m m' \<Longrightarrow> view m' = view m"
  by (simp add: progress_def view_def)

section \<open>Programs and their interleavings\<close>

text \<open>The calls \<open>as\<close> made from state \<open>m\<close> on, with steps of the threads anywhere between them.\<close>

inductive host_run :: "sched_env \<Rightarrow> (int \<Rightarrow> bool) \<Rightarrow> machine \<Rightarrow> action list \<Rightarrow> machine \<Rightarrow> bool" for e allowed m where
  start: "host_run e allowed m [] m"
| host: "host_run e allowed m as m' \<Longrightarrow> \<not> thread_action a \<Longrightarrow> step e allowed m' a m'' \<Longrightarrow> host_run e allowed m (as @ [a]) m''"
| threads: "host_run e allowed m as m' \<Longrightarrow> thread_step e allowed m' m'' \<Longrightarrow> host_run e allowed m as m''"

text \<open>A program all of whose calls are legal, judged on the view.\<close>

fun program_ok :: "(int \<Rightarrow> bool) \<Rightarrow> action list \<Rightarrow> host_view \<Rightarrow> bool" where
  "program_ok allowed [] v \<longleftrightarrow> True"
| "program_ok allowed (a # as) v \<longleftrightarrow> view_enabled allowed a v \<and> program_ok allowed as (view_step a v)"

lemma program_ok_append:
  "program_ok allowed (as @ bs) v \<longleftrightarrow> program_ok allowed as v \<and> program_ok allowed bs (fold view_step as v)"
  by (induction as arbitrary: v) auto

context placement
begin

lemma host_run_view:
  assumes "host_run e allowed m as m'" "reachable e allowed m"
  shows "reachable e allowed m' \<and> view m' = fold view_step as (view m)"
  using assms
proof induction
  case (host as m' a m'')
  then have r: "reachable e allowed m'" and v: "view m' = fold view_step as (view m)" by auto
  from host.hyps(3) have "exec e a m' = Some m''" by (auto elim: stepE)
  from exec_view [OF this host.hyps(2)] v reachable.more [OF r host.hyps(3)] show ?case by simp
next
  case (threads as m' m'')
  then show ?case using thread_step_progress [of m' m''] progress_view [of m' m''] by auto
qed simp

text \<open>A legal program never blocks and never crashes, whatever the threads do meanwhile.\<close>

lemma program_next:
  assumes "reachable e allowed m" "program_ok allowed (as @ a # bs) (view m)" "host_run e allowed m as m'"
  shows "\<exists>m''. exec e a m' = Some m'' \<and> host_run e allowed m (as @ [a]) m''"
proof -
  have r: "reachable e allowed m'" and v: "view m' = fold view_step as (view m)" using host_run_view [OF assms(3,1)] by auto
  have "view_enabled allowed a (view m')" using assms(2) v by (simp add: program_ok_append)
  from view_enabled [OF this] have en: "enabled allowed a m'" and ht: "\<not> thread_action a" by auto
  from exec_inv [OF reachable_inv [OF r] en] obtain m'' where "exec e a m' = Some m''" by blast
  with en ht host_run.host [OF assms(3) ht] show ?thesis by (auto intro: step.intros)
qed

end

text \<open>A view whose submitted tasks depend on submitted tasks that were created before them.\<close>

definition forward_deps :: "host_view \<Rightarrow> bool" where
  "forward_deps v \<longleftrightarrow> (\<forall>c \<in> hv_submitted v. \<forall>d \<in> hv_deps v c. d \<in> hv_submitted v \<and> d < c)"

lemma forward_well_submitted:
  assumes "forward_deps (view m)"
  shows "well_submitted m"
proof -
  have "{(d, c). c \<in> inflight m \<and> d \<in> m_deps m c} \<subseteq> {(d, c). d < c}"
    using assms by (auto simp: forward_deps_def view_def inflight_def)
  moreover have "acyclic {(d :: nat, c). d < c}" using wf_less by (rule wf_acyclic)
  ultimately have "acyclic {(d, c). c \<in> inflight m \<and> d \<in> m_deps m c}" by (rule acyclic_subset [rotated])
  with assms show ?thesis by (auto simp: well_submitted_def forward_deps_def view_def inflight_def)
qed

context placement
begin

text \<open>When a legal program has made its calls and the threads have come to rest, every task it submitted
  is complete, and each was started after its dependencies had completed.\<close>

lemma program_completes:
  assumes "reachable e allowed m" "host_run e allowed m as m1" "forward_deps (fold view_step as (view m))"
    "(thread_step e allowed)\<^sup>*\<^sup>* m1 m2" "quiet allowed m2"
  shows "completed m2 = hv_submitted (fold view_step as (view m))"
proof -
  have r: "reachable e allowed m1" and v: "view m1 = fold view_step as (view m)" using host_run_view [OF assms(2,1)] by auto
  have "well_submitted m1" using assms(3) v by (intro forward_well_submitted) simp
  from threads_complete [OF r this assms(4,5)] v show ?thesis by (metis host_view.select_convs(3) view_def)
qed

lemma host_run_completed: "host_run e allowed m as m' \<Longrightarrow> reachable e allowed m \<Longrightarrow> completed m \<subseteq> completed m'"
proof (induction rule: host_run.induct)
  case (host as m' a m'')
  from host.hyps(3) have "exec e a m' = Some m''" by (auto elim: stepE)
  from exec_completed [OF this host.hyps(2)] host show ?case by auto
next
  case (threads as m' m'')
  then show ?case using host_run_view [of m as m'] thread_step_progress [of m' m''] by (auto simp: progress_def)
qed simp

lemma host_threads_view:
  assumes "reachable e allowed m" "host_run e allowed m as m1" "(thread_step e allowed)\<^sup>*\<^sup>* m1 m2"
  shows "reachable e allowed m2 \<and> view m2 = fold view_step as (view m)"
  using assms(3)
proof (induction rule: rtranclp_induct)
  case base
  then show ?case using host_run_view [OF assms(2,1)] by simp
next
  case (step y z)
  then show ?case using thread_step_progress [of y z] progress_view [of y z] by simp
qed

lemma program_order:
  assumes "reachable e allowed m" "host_run e allowed m as m1" "(thread_step e allowed)\<^sup>*\<^sup>* m1 m2"
    "m_log m2 = pre @ EStart c # post" "d \<in> hv_deps (fold view_step as (view m)) c"
  shows "EComplete d \<in> set pre"
proof -
  have r2: "reachable e allowed m2" and d: "d \<in> m_deps m2 c"
    using host_threads_view [OF assms(1-3)] assms(5) by (metis host_view.select_convs(4) view_def)+
  from log_ok_split [of "m_deps m2" pre "EStart c" post] invD(7) [OF reachable_inv [OF r2]] assms(4) d
  show ?thesis by (simp add: inv_log_def)
qed

lemma completed_deps:
  assumes "reachable e allowed m" "c \<in> completed m" "d \<in> m_deps m c"
  shows "d \<in> completed m"
proof -
  have l: "log_ok (m_deps m) (m_log m)" "EStart c \<in> set (m_log m)"
    using invD(7) [OF reachable_inv [OF assms(1)]] assms(2) by (auto simp: inv_log_def)
  then obtain pre post where "m_log m = pre @ EStart c # post" by (meson split_list)
  with log_ok_split [of "m_deps m" pre "EStart c" post] l(1) assms(3) show ?thesis by (simp add: completed_def)
qed

text \<open>A legal program can be run to its end.\<close>

lemma program_runs:
  assumes "reachable e allowed m" "program_ok allowed as (view m)"
  shows "\<exists>m'. host_run e allowed m as m'"
  using assms(2)
proof (induction as rule: rev_induct)
  case (snoc a as)
  then obtain m' where "host_run e allowed m as m'" by (auto simp: program_ok_append)
  with program_next [OF assms(1) _ this, of a "[]"] snoc.prems show ?case by auto
qed (blast intro: host_run.start)

end

end
