(* ===== verification/Hetero_Cost.thy ===== *)
theory Hetero_Cost
  imports Iris_Float
begin

text \<open>
  The cost model of the heterogeneous ViT policy, \<^verbatim>\<open>hetero_cost_model.h\<close>: the indices of a task's
  metadata, the configuration of the link between host and FPGA, and the three functions that
  estimate a transfer, a GPU finish time and an FPGA finish time. All arithmetic is \<open>double\<close>
  (binary64). The lemmas show that every estimate is monotone in the queue depth and in the number
  of bytes, and how the throughput weight and the return transfer enter.
\<close>

section \<open>Metadata layout and configuration\<close>

definition HETERO_META_GPU_US :: nat where "HETERO_META_GPU_US = 0"
definition HETERO_META_FPGA_US :: nat where "HETERO_META_FPGA_US = 1"
definition HETERO_META_INPUT_BYTES :: nat where "HETERO_META_INPUT_BYTES = 2"
definition HETERO_META_OUTPUT_BYTES :: nat where "HETERO_META_OUTPUT_BYTES = 3"
definition HETERO_META_FPGA_ELIGIBLE :: nat where "HETERO_META_FPGA_ELIGIBLE = 4"
definition HETERO_META_OBJECTIVE :: nat where "HETERO_META_OBJECTIVE = 5"
definition HETERO_META_RETURN_REQUIRED :: nat where "HETERO_META_RETURN_REQUIRED = 6"
definition HETERO_META_LINEAR_EQUIVALENTS :: nat where "HETERO_META_LINEAR_EQUIVALENTS = 7"
definition HETERO_META_PLANNED_DEVICE :: nat where "HETERO_META_PLANNED_DEVICE = 8"
definition HETERO_META_COUNT :: nat where "HETERO_META_COUNT = 9"

lemmas hetero_meta_defs =
  HETERO_META_GPU_US_def HETERO_META_FPGA_US_def HETERO_META_INPUT_BYTES_def
  HETERO_META_OUTPUT_BYTES_def HETERO_META_FPGA_ELIGIBLE_def HETERO_META_OBJECTIVE_def
  HETERO_META_RETURN_REQUIRED_def HETERO_META_LINEAR_EQUIVALENTS_def
  HETERO_META_PLANNED_DEVICE_def HETERO_META_COUNT_def

definition HETERO_PLACEMENT_AUTO :: int where "HETERO_PLACEMENT_AUTO = 0"
definition HETERO_PLACEMENT_GPU :: int where "HETERO_PLACEMENT_GPU = 1"
definition HETERO_PLACEMENT_FPGA :: int where "HETERO_PLACEMENT_FPGA = 2"

definition HETERO_OBJECTIVE_LATENCY :: int where "HETERO_OBJECTIVE_LATENCY = 0"
definition HETERO_OBJECTIVE_THROUGHPUT :: int where "HETERO_OBJECTIVE_THROUGHPUT = 1"

lemmas hetero_enum_defs =
  HETERO_PLACEMENT_AUTO_def HETERO_PLACEMENT_GPU_def HETERO_PLACEMENT_FPGA_def
  HETERO_OBJECTIVE_LATENCY_def HETERO_OBJECTIVE_THROUGHPUT_def

record HeteroPolicyConfig =
  link_bandwidth_bytes_per_us :: fp
  one_way_fixed_latency_us :: fp
  codec_bandwidth_bytes_per_us :: fp
  codec_fixed_latency_us :: fp
  compression_ratio :: fp
  throughput_communication_weight :: fp
  queue_weight :: fp
  copies_per_direction :: int

section \<open>The estimates\<close>

abbreviation dbl :: "int \<Rightarrow> fp" where "dbl \<equiv> of_int_fp binary64"
abbreviation dadd :: "fp \<Rightarrow> fp \<Rightarrow> fp" where "dadd \<equiv> fp_add binary64"
abbreviation dmul :: "fp \<Rightarrow> fp \<Rightarrow> fp" where "dmul \<equiv> fp_mul binary64"
abbreviation ddiv :: "fp \<Rightarrow> fp \<Rightarrow> fp" where "ddiv \<equiv> fp_div binary64"

definition hetero_one_way_transfer_us :: "HeteroPolicyConfig \<Rightarrow> int \<Rightarrow> fp" where
  "hetero_one_way_transfer_us config encoded_bytes =
     (if encoded_bytes \<le> 0 then Fin 0
      else
        let transfer = dmul (dbl (copies_per_direction config))
              (dadd (one_way_fixed_latency_us config)
                (ddiv (dbl encoded_bytes) (link_bandwidth_bytes_per_us config)));
            codec = codec_fixed_latency_us config;
            codec =
              (if fp_less (Fin 0) (codec_bandwidth_bytes_per_us config) \<and>
                  fp_less (Fin 0) (compression_ratio config)
               then dadd codec
                 (ddiv (ddiv (dbl encoded_bytes) (compression_ratio config))
                   (codec_bandwidth_bytes_per_us config))
               else codec)
        in dadd transfer (dmul (Fin 2) codec))"

definition hetero_gpu_finish_us :: "HeteroPolicyConfig \<Rightarrow> int \<Rightarrow> int \<Rightarrow> fp" where
  "hetero_gpu_finish_us config gpu_compute_us gpu_queue_depth =
     dmul (dbl gpu_compute_us) (dadd (Fin 1) (dmul (queue_weight config) (dbl gpu_queue_depth)))"

definition hetero_fpga_finish_us ::
  "HeteroPolicyConfig \<Rightarrow> int \<Rightarrow> int \<Rightarrow> int \<Rightarrow> int \<Rightarrow> int \<Rightarrow> int \<Rightarrow> fp" where
  "hetero_fpga_finish_us config fpga_compute_us input_bytes output_bytes return_required
     fpga_queue_depth objective =
     (let communication = hetero_one_way_transfer_us config input_bytes;
          communication =
            (if return_required \<noteq> 0
             then dadd communication (hetero_one_way_transfer_us config output_bytes)
             else communication);
          communication =
            (if objective = HETERO_OBJECTIVE_THROUGHPUT
             then dmul communication (throughput_communication_weight config)
             else communication)
      in dadd
           (dmul (dbl fpga_compute_us)
             (dadd (Fin 1) (dmul (queue_weight config) (dbl fpga_queue_depth))))
           communication)"

section \<open>Properties of the estimates\<close>

text \<open>A configuration as the application builds it: finite parameters, a positive link bandwidth and
  number of copies, non-negative latencies and weights.\<close>

fun fin_ge0 :: "fp \<Rightarrow> bool" where
  "fin_ge0 (Fin a) = (0 \<le> a)"
| "fin_ge0 x = False"

fun fin_gt0 :: "fp \<Rightarrow> bool" where
  "fin_gt0 (Fin a) = (0 < a)"
| "fin_gt0 x = False"

definition config_ok :: "HeteroPolicyConfig \<Rightarrow> bool" where
  "config_ok c \<longleftrightarrow>
     fin_gt0 (link_bandwidth_bytes_per_us c) \<and> fin_ge0 (one_way_fixed_latency_us c) \<and>
     fin_ge0 (codec_bandwidth_bytes_per_us c) \<and> fin_ge0 (codec_fixed_latency_us c) \<and>
     fin_ge0 (compression_ratio c) \<and> fin_gt0 (throughput_communication_weight c) \<and>
     fin_ge0 (queue_weight c) \<and> 0 < copies_per_direction c \<and> int32_ok (copies_per_direction c)"

lemma fin_ge0E: "fin_ge0 x \<Longrightarrow> (\<And>a. x = Fin a \<Longrightarrow> 0 \<le> a \<Longrightarrow> P) \<Longrightarrow> P"
  by (cases x) auto

lemma fin_gt0E: "fin_gt0 x \<Longrightarrow> (\<And>a. x = Fin a \<Longrightarrow> 0 < a \<Longrightarrow> P) \<Longrightarrow> P"
  by (cases x) auto

lemma prec_binary64 [simp]: "0 < prec binary64" "prec binary64 = 53"
  by (simp_all add: binary64_def)

text \<open>A C \<open>int\<close> converts to \<open>double\<close> without rounding.\<close>

lemma dbl_int32: "int32_ok i \<Longrightarrow> dbl i = Fin (of_int i)"
  unfolding of_int_fp_def by (rule of_rat_fp_of_int) (auto simp: int32_ok_def binary64_def)

lemma int32_ok_mono: "0 \<le> i \<Longrightarrow> i \<le> j \<Longrightarrow> int32_ok j \<Longrightarrow> int32_ok i"
  by (simp add: int32_ok_def)

lemma ddiv_mono:
  "0 < b \<Longrightarrow> x \<le> y \<Longrightarrow> fp_le (ddiv (Fin x) (Fin b)) (ddiv (Fin y) (Fin b))"
  by (simp add: of_rat_fp_mono divide_right_mono)

lemma ddiv_nonneg: "0 < b \<Longrightarrow> fp_nonneg a \<Longrightarrow> fp_nonneg (ddiv a (Fin b))"
  by (elim fp_nonneg_cases) (auto intro: of_rat_fp_nonneg)

lemma ddiv_fp_mono:
  assumes "0 < b" "fp_nonneg x" "fp_le x y"
  shows "fp_le (ddiv x (Fin b)) (ddiv y (Fin b))"
proof -
  have le: "0 \<le> z \<Longrightarrow> fp_le (of_rat_fp binary64 z) PInf" for z
    using of_rat_fp_nonneg [of z binary64] by (cases "of_rat_fp binary64 z") auto
  show ?thesis using assms
    by (cases x; cases y) (auto intro!: of_rat_fp_mono le simp: divide_right_mono)
qed

text \<open>The compute term of both estimates, with the queue as a multiplier.\<close>

lemma compute_term_mono:
  assumes "fin_ge0 w" "0 < us" "int32_ok us" "0 \<le> d" "d \<le> d'" "int32_ok d'"
  shows "fp_le (dmul (dbl us) (dadd (Fin 1) (dmul w (dbl d))))
               (dmul (dbl us) (dadd (Fin 1) (dmul w (dbl d'))))"
proof -
  have d: "dbl d = Fin (of_int d)" "dbl d' = Fin (of_int d')" "dbl us = Fin (of_int us)"
    using assms by (auto intro: dbl_int32 int32_ok_mono)
  obtain a where w: "w = Fin a" "0 \<le> a" using assms(1) by (rule fin_ge0E)
  have m: "fp_le (dmul w (dbl d)) (dmul w (dbl d'))"
    unfolding d w(1) using w(2) assms(5) by (intro fp_mul_Fin_mono) auto
  have n: "fp_nonneg (dmul w (dbl d))"
    unfolding d w(1) using w(2) assms(4) by (simp add: of_rat_fp_nonneg)
  have "fp_le (dadd (Fin 1) (dmul w (dbl d))) (dadd (Fin 1) (dmul w (dbl d')))"
    by (rule fp_add_mono) (use m n in auto)
  then show ?thesis unfolding d(3) using assms(2) n
    by (intro fp_mul_mono) (auto intro: fp_add_nonneg)
qed

lemma compute_term_nonneg:
  assumes "fin_ge0 w" "0 < us" "int32_ok us" "0 \<le> d" "int32_ok d"
  shows "fp_nonneg (dmul (dbl us) (dadd (Fin 1) (dmul w (dbl d))))"
proof -
  have d: "dbl d = Fin (of_int d)" "dbl us = Fin (of_int us)"
    using assms by (auto intro: dbl_int32)
  obtain a where w: "w = Fin a" "0 \<le> a" using assms(1) by (rule fin_ge0E)
  have "fp_nonneg (dmul w (dbl d))"
    unfolding d w(1) using w(2) assms(4) by (simp add: of_rat_fp_nonneg)
  then show ?thesis unfolding d(2) using assms(2)
    by (intro fp_mul_nonneg fp_add_nonneg) auto
qed

definition codec_us :: "HeteroPolicyConfig \<Rightarrow> int \<Rightarrow> fp" where
  "codec_us c n =
     (if fp_less (Fin 0) (codec_bandwidth_bytes_per_us c) \<and> fp_less (Fin 0) (compression_ratio c)
      then dadd (codec_fixed_latency_us c)
        (ddiv (ddiv (dbl n) (compression_ratio c)) (codec_bandwidth_bytes_per_us c))
      else codec_fixed_latency_us c)"

lemma codec_us_mono:
  assumes c: "config_ok c" and n: "0 \<le> m" "m \<le> n" "int32_ok n"
  shows "fp_le (codec_us c m) (codec_us c n) \<and> fp_nonneg (codec_us c m)"
proof -
  obtain f where f: "codec_fixed_latency_us c = Fin f" "0 \<le> f" using c by (auto simp: config_ok_def elim: fin_ge0E)
  obtain b where b: "codec_bandwidth_bytes_per_us c = Fin b" "0 \<le> b" using c by (auto simp: config_ok_def elim: fin_ge0E)
  obtain r where r: "compression_ratio c = Fin r" "0 \<le> r" using c by (auto simp: config_ok_def elim: fin_ge0E)
  have d: "dbl m = Fin (of_int m)" "dbl n = Fin (of_int n)"
    using n by (auto intro: dbl_int32 int32_ok_mono)
  show ?thesis
  proof (cases "0 < b \<and> 0 < r")
    case True
    have m1: "fp_le (ddiv (dbl m) (Fin r)) (ddiv (dbl n) (Fin r))"
      unfolding d using True n by (intro ddiv_mono) auto
    have n1: "fp_nonneg (ddiv (dbl m) (Fin r))"
      unfolding d using True n by (intro ddiv_nonneg) auto
    have m2: "fp_le (ddiv (ddiv (dbl m) (Fin r)) (Fin b)) (ddiv (ddiv (dbl n) (Fin r)) (Fin b))"
      using True by (intro ddiv_fp_mono [OF _ n1 m1]) auto
    have n2: "fp_nonneg (ddiv (ddiv (dbl m) (Fin r)) (Fin b))"
      using True by (intro ddiv_nonneg [OF _ n1]) auto
    show ?thesis unfolding codec_us_def f(1) b(1) r(1) using True f(2) m2 n2
      by (auto intro!: fp_add_mono fp_add_nonneg simp del: fp_add.simps fp_div.simps)
  next
    case False
    then show ?thesis using f b r by (auto simp: codec_us_def)
  qed
qed

lemma hetero_one_way_transfer_us_mono:
  assumes c: "config_ok c" and n: "m \<le> n" "int32_ok n" and "int32_ok m"
  shows "fp_le (hetero_one_way_transfer_us c m) (hetero_one_way_transfer_us c n)"
    and "fp_nonneg (hetero_one_way_transfer_us c m)"
proof -
  obtain l where l: "link_bandwidth_bytes_per_us c = Fin l" "0 < l" using c by (auto simp: config_ok_def elim: fin_gt0E)
  obtain f where f: "one_way_fixed_latency_us c = Fin f" "0 \<le> f" using c by (auto simp: config_ok_def elim: fin_ge0E)
  have k: "dbl (copies_per_direction c) = Fin (of_int (copies_per_direction c))"
    "0 < copies_per_direction c" using c by (auto simp: config_ok_def dbl_int32)
  define tr where "tr i = dmul (dbl (copies_per_direction c))
      (dadd (one_way_fixed_latency_us c) (ddiv (dbl i) (link_bandwidth_bytes_per_us c)))" for i
  have eq: "hetero_one_way_transfer_us c i = (if i \<le> 0 then Fin 0 else dadd (tr i) (dmul (Fin 2) (codec_us c i)))" for i
    by (simp add: hetero_one_way_transfer_us_def codec_us_def tr_def Let_def)
  have tr: "fp_le (tr i) (tr j) \<and> fp_nonneg (tr i)" if "0 \<le> i" "i \<le> j" "int32_ok j" for i j
  proof -
    have d: "dbl i = Fin (of_int i)" "dbl j = Fin (of_int j)"
      using that by (auto intro: dbl_int32 int32_ok_mono)
    have 1: "fp_le (ddiv (dbl i) (Fin l)) (ddiv (dbl j) (Fin l))"
      unfolding d using l that by (intro ddiv_mono) auto
    have 2: "fp_nonneg (ddiv (dbl i) (Fin l))" unfolding d using l that by (intro ddiv_nonneg) auto
    have 3: "fp_le (dadd (Fin f) (ddiv (dbl i) (Fin l))) (dadd (Fin f) (ddiv (dbl j) (Fin l)))"
      using 1 2 f by (intro fp_add_mono) auto
    show ?thesis unfolding tr_def k(1) l(1) f(1) using k(2) 2 3 f(2)
      by (auto intro!: fp_mul_mono fp_mul_nonneg fp_add_nonneg simp del: fp_add.simps fp_div.simps fp_mul.simps)
  qed
  have pos: "fp_le (dadd (tr i) (dmul (Fin 2) (codec_us c i))) (dadd (tr j) (dmul (Fin 2) (codec_us c j))) \<and>
      fp_nonneg (dadd (tr i) (dmul (Fin 2) (codec_us c i)))" if "0 \<le> i" "i \<le> j" "int32_ok j" for i j
    using tr [OF that] codec_us_mono [OF c that]
    by (auto intro!: fp_add_mono fp_mul_mono fp_mul_nonneg fp_add_nonneg simp del: fp_add.simps fp_mul.simps)
  show "fp_nonneg (hetero_one_way_transfer_us c m)"
    unfolding eq using pos [of m m] assms by auto
  show "fp_le (hetero_one_way_transfer_us c m) (hetero_one_way_transfer_us c n)"
    unfolding eq using pos [of m n] pos [of n n] assms by auto
qed

definition communication_us :: "HeteroPolicyConfig \<Rightarrow> int \<Rightarrow> int \<Rightarrow> int \<Rightarrow> fp" where
  "communication_us c i out ret =
     (if ret \<noteq> 0 then dadd (hetero_one_way_transfer_us c i) (hetero_one_way_transfer_us c out)
      else hetero_one_way_transfer_us c i)"

lemma hetero_fpga_finish_us_eq:
  "hetero_fpga_finish_us c us i out ret d obj =
     dadd (dmul (dbl us) (dadd (Fin 1) (dmul (queue_weight c) (dbl d))))
       (if obj = HETERO_OBJECTIVE_THROUGHPUT
        then dmul (communication_us c i out ret) (throughput_communication_weight c)
        else communication_us c i out ret)"
  by (simp add: hetero_fpga_finish_us_def communication_us_def Let_def)

lemma communication_us_nonneg:
  "config_ok c \<Longrightarrow> int32_ok i \<Longrightarrow> int32_ok out \<Longrightarrow> fp_nonneg (communication_us c i out ret)"
  unfolding communication_us_def
  by (auto intro!: fp_add_nonneg hetero_one_way_transfer_us_mono(2) simp del: fp_add.simps)

text \<open>The result of an addition is a \<open>double\<close>: rounding it again changes nothing.\<close>

lemma dadd_fixed: "dadd a b = Fin r \<Longrightarrow> of_rat_fp binary64 r = Fin r"
  by (cases a; cases b)
    (auto simp: of_rat_fp_def Let_def rnd_idem split: if_splits)

lemma transfer_fixed:
  "hetero_one_way_transfer_us c n = Fin r \<Longrightarrow> of_rat_fp binary64 r = Fin r"
  by (auto simp: hetero_one_way_transfer_us_def Let_def of_rat_fp_def [of _ 0]
      simp del: fp_add.simps intro: dadd_fixed split: if_splits)

lemma communication_us_fixed:
  "communication_us c i out ret = Fin r \<Longrightarrow> of_rat_fp binary64 r = Fin r"
  by (auto simp: communication_us_def simp del: fp_add.simps
      intro: dadd_fixed transfer_fixed split: if_splits)

text \<open>Weighting a non-negative cost by at most one does not increase it, rounding included.\<close>

lemma weighted_le:
  assumes "fp_nonneg x" "\<And>r. x = Fin r \<Longrightarrow> of_rat_fp binary64 r = Fin r" "0 < w" "w \<le> 1"
  shows "fp_le (dmul x (Fin w)) x" and "fp_nonneg (dmul x (Fin w))"
proof -
  show "fp_le (dmul x (Fin w)) x"
    using assms(1)
  proof (cases rule: fp_nonneg_cases)
    case (1 r)
    have "fp_le (of_rat_fp binary64 (r * w)) (of_rat_fp binary64 r)"
      using 1 assms by (intro of_rat_fp_mono) (auto simp: mult_left_le)
    with 1 assms(2) show ?thesis by simp
  next
    case 2
    with assms show ?thesis by (simp add: inf_times_def)
  qed
  show "fp_nonneg (dmul x (Fin w))"
    using assms by (elim fp_nonneg_cases) (auto intro: of_rat_fp_nonneg simp: inf_times_def)
qed

section \<open>The three guarantees of the cost model\<close>

text \<open>The configuration the application registers: a 4 GB/s link, one copy in each direction.\<close>

definition skeleton_config :: HeteroPolicyConfig where
  "skeleton_config = \<lparr>link_bandwidth_bytes_per_us = Fin 4000, one_way_fixed_latency_us = Fin 20,
     codec_bandwidth_bytes_per_us = Fin 50000, codec_fixed_latency_us = Fin 2, compression_ratio = Fin (1/2),
     throughput_communication_weight = Fin (1/4), queue_weight = Fin 1, copies_per_direction = 1\<rparr>"

lemma skeleton_config_ok [simp]: "config_ok skeleton_config"
  by (simp add: config_ok_def skeleton_config_def int32_ok_def)

lemma skeleton_weight_le [simp]: "fp_le (throughput_communication_weight skeleton_config) (Fin 1)"
  by (simp add: skeleton_config_def)

text \<open>A longer queue never makes an estimate smaller: both finish times are monotone in the
  queue depth, with the rounding and the overflow of \<open>double\<close> taken into account.\<close>

theorem finish_mono_queue:
  assumes "config_ok c" "0 < us" "int32_ok us" "0 \<le> d" "d \<le> d'" "int32_ok d'"
    and "int32_ok i" "int32_ok out"
    and "fp_le (throughput_communication_weight c) (Fin 1)"
  shows "fp_le (hetero_gpu_finish_us c us d) (hetero_gpu_finish_us c us d') \<and>
    fp_le (hetero_fpga_finish_us c us i out ret d obj) (hetero_fpga_finish_us c us i out ret d' obj)"
proof -
  have q: "fin_ge0 (queue_weight c)" using assms(1) by (simp add: config_ok_def)
  obtain w where w: "throughput_communication_weight c = Fin w" "0 < w" "w \<le> 1"
    using assms(1,9) by (auto simp: config_ok_def elim: fin_gt0E)
  note com = communication_us_nonneg [OF assms(1,7,8), of ret]
  note com' = weighted_le [OF com communication_us_fixed w(2,3)]
  let ?t = "\<lambda>d. dmul (dbl us) (dadd (Fin 1) (dmul (queue_weight c) (dbl d)))"
  have m: "fp_le (?t d) (?t d')" using compute_term_mono [OF q assms(2-6)] .
  have n: "fp_nonneg (?t d)"
    using compute_term_nonneg [OF q assms(2,3,4)] assms int32_ok_mono by blast
  have "fp_le (hetero_fpga_finish_us c us i out ret d obj) (hetero_fpga_finish_us c us i out ret d' obj)"
    unfolding hetero_fpga_finish_us_eq w(1) using m n com com'
    by (intro fp_add_mono) (auto intro: fp_le_refl_nonneg simp del: fp_add.simps fp_mul.simps)
  with m show ?thesis by (simp add: hetero_gpu_finish_us_def)
qed

theorem finish_mono_queue_witness:
  "fp_le (hetero_gpu_finish_us skeleton_config 354 0) (hetero_gpu_finish_us skeleton_config 354 3) \<and>
   fp_le (hetero_fpga_finish_us skeleton_config 354 302592 907776 1 0 HETERO_OBJECTIVE_LATENCY)
     (hetero_fpga_finish_us skeleton_config 354 302592 907776 1 3 HETERO_OBJECTIVE_LATENCY)"
  by (rule finish_mono_queue) (simp_all add: int32_ok_def)

text \<open>More bytes never make the FPGA look faster, and a task whose result stays on the FPGA
  (\<open>return_required = 0\<close>) is never estimated above the same task with its result sent back.\<close>

theorem fpga_finish_mono_bytes:
  assumes "config_ok c" "0 < us" "int32_ok us" "0 \<le> d" "int32_ok d"
    and "i \<le> i'" "int32_ok i" "int32_ok i'" "out \<le> out'" "int32_ok out" "int32_ok out'"
    and "ret = 0 \<or> ret' \<noteq> 0"
  shows "fp_le (hetero_fpga_finish_us c us i out ret d HETERO_OBJECTIVE_LATENCY)
    (hetero_fpga_finish_us c us i' out' ret' d HETERO_OBJECTIVE_LATENCY)"
proof -
  have q: "fin_ge0 (queue_weight c)" using assms(1) by (simp add: config_ok_def)
  note t = hetero_one_way_transfer_us_mono [OF assms(1)]
  have i: "fp_le (hetero_one_way_transfer_us c i) (hetero_one_way_transfer_us c i')"
    "fp_nonneg (hetero_one_way_transfer_us c i)" using t assms by auto
  have o: "fp_le (hetero_one_way_transfer_us c out) (hetero_one_way_transfer_us c out')"
    "fp_nonneg (hetero_one_way_transfer_us c out)" "fp_nonneg (hetero_one_way_transfer_us c out')"
    using t assms by auto
  have i': "fp_nonneg (hetero_one_way_transfer_us c i')" using t assms by auto
  have up: "fp_le (hetero_one_way_transfer_us c i) (dadd (hetero_one_way_transfer_us c i') (hetero_one_way_transfer_us c out'))"
  proof -
    have "fp_le (dadd (hetero_one_way_transfer_us c i) (Fin 0))
       (dadd (hetero_one_way_transfer_us c i') (hetero_one_way_transfer_us c out'))"
      using i o(3) by (intro fp_add_mono) auto
    moreover have "dadd (hetero_one_way_transfer_us c i) (Fin 0) = hetero_one_way_transfer_us c i"
      using i(2) transfer_fixed [of c i] by (elim fp_nonneg_cases) auto
    ultimately show ?thesis by simp
  qed
  have "fp_le (communication_us c i out ret) (communication_us c i' out' ret')"
    using assms(12) i o up unfolding communication_us_def
    by (auto intro: fp_add_mono simp del: fp_add.simps)
  then show ?thesis unfolding hetero_fpga_finish_us_eq
    using compute_term_nonneg [OF q assms(2-5)] communication_us_nonneg [OF assms(1,7,10), of ret]
    by (auto intro!: fp_add_mono fp_le_refl_nonneg
        simp: HETERO_OBJECTIVE_LATENCY_def HETERO_OBJECTIVE_THROUGHPUT_def simp del: fp_add.simps fp_mul.simps)
qed

theorem fpga_finish_mono_bytes_witness:
  "fp_le (hetero_fpga_finish_us skeleton_config 96 302592 907776 0 1 HETERO_OBJECTIVE_LATENCY)
     (hetero_fpga_finish_us skeleton_config 96 605184 907776 1 1 HETERO_OBJECTIVE_LATENCY)"
  by (rule fpga_finish_mono_bytes) (simp_all add: int32_ok_def)

text \<open>The throughput objective discounts communication: with a weight in \<open>(0, 1]\<close> its FPGA
  estimate never exceeds the latency estimate of the same task.\<close>

theorem throughput_le_latency:
  assumes "config_ok c" "fp_le (throughput_communication_weight c) (Fin 1)"
    and "0 < us" "int32_ok us" "0 \<le> d" "int32_ok d" "int32_ok i" "int32_ok out"
  shows "fp_le (hetero_fpga_finish_us c us i out ret d HETERO_OBJECTIVE_THROUGHPUT)
    (hetero_fpga_finish_us c us i out ret d HETERO_OBJECTIVE_LATENCY)"
proof -
  have q: "fin_ge0 (queue_weight c)" using assms(1) by (simp add: config_ok_def)
  obtain w where w: "throughput_communication_weight c = Fin w" "0 < w" "w \<le> 1"
    using assms(1,2) by (auto simp: config_ok_def elim: fin_gt0E)
  note com = communication_us_nonneg [OF assms(1,7,8), of ret]
  note com' = weighted_le [OF com communication_us_fixed w(2,3)]
  show ?thesis unfolding hetero_fpga_finish_us_eq w(1)
    using compute_term_nonneg [OF q assms(3-6)] com'
    by (auto intro!: fp_add_mono fp_le_refl_nonneg
        simp: HETERO_OBJECTIVE_LATENCY_def HETERO_OBJECTIVE_THROUGHPUT_def simp del: fp_add.simps fp_mul.simps)
qed

theorem throughput_le_latency_witness:
  "fp_le (hetero_fpga_finish_us skeleton_config 96 302592 907776 1 1 HETERO_OBJECTIVE_THROUGHPUT)
     (hetero_fpga_finish_us skeleton_config 96 302592 907776 1 1 HETERO_OBJECTIVE_LATENCY)"
  by (rule throughput_le_latency) (simp_all add: int32_ok_def)

end
