(* ===== verification/Hetero_Policy.thy ===== *)
theory Hetero_Policy
  imports Hetero_Cost Iris_Policy
begin

text \<open>
  The custom policy of the application, \<^verbatim>\<open>PolicyHeteroEFT.cpp\<close>: it looks for the first GPU, the first
  FPGA and the first device at all that support the task, follows a placement that the plan fixed, and
  otherwise compares the two estimated finish times. The queue lengths it asks the scheduler for are the
  argument \<open>load\<close>. A forced placement is never remapped to another class of device by the policy, and
  the automatic choice is the device whose estimate is least.
\<close>

section \<open>The policy\<close>

text \<open>The loop over the devices with its three variables.\<close>

fun eft_scan :: "int list \<Rightarrow> (devno \<Rightarrow> bool) \<Rightarrow> devno list \<Rightarrow>
    devno option \<times> devno option \<times> devno option \<Rightarrow> devno option \<times> devno option \<times> devno option" where
  "eft_scan types supp [] acc = acc"
| "eft_scan types supp (i # is) (gpu, fpga, fallback) =
     (if \<not> supp i then eft_scan types supp is (gpu, fpga, fallback)
      else eft_scan types supp is
        (if gpu = None \<and> has_bits (types ! i) iris_nvidia then Some i else gpu,
         if fpga = None \<and> has_bits (types ! i) iris_fpga then Some i else fpga,
         if fallback = None then Some i else fallback))"

text \<open>\<open>static_cast<int>\<close> of a \<open>size_t\<close>.\<close>

definition int_cast :: "nat \<Rightarrow> int" where "int_cast n = sint (word_of_nat n :: 32 word)"

definition eft_gpu_finish :: "HeteroPolicyConfig \<Rightarrow> int list \<Rightarrow> nat \<Rightarrow> fp" where
  "eft_gpu_finish config md queue =
     hetero_gpu_finish_us config (md ! HETERO_META_GPU_US) (int_cast queue)"

definition eft_fpga_finish :: "HeteroPolicyConfig \<Rightarrow> int list \<Rightarrow> nat \<Rightarrow> fp" where
  "eft_fpga_finish config md queue =
     hetero_fpga_finish_us config (md ! HETERO_META_FPGA_US)
       (md ! HETERO_META_INPUT_BYTES) (md ! HETERO_META_OUTPUT_BYTES)
       (md ! HETERO_META_RETURN_REQUIRED) (int_cast queue) (md ! HETERO_META_OBJECTIVE)"

text \<open>The body of \<open>GetDevices\<close> on the number of entries and the memory \<open>task->metadata()\<close> points to.\<close>

definition eft_choose ::
  "HeteroPolicyConfig option \<Rightarrow> int list \<Rightarrow> (devno \<Rightarrow> bool) \<Rightarrow> int \<Rightarrow> int list \<Rightarrow> (devno \<Rightarrow> nat) \<Rightarrow> devno list" where
  "eft_choose config types supp n_meta md load =
     (let (gpu, fpga, fallback) = eft_scan types supp [0..<length types] (None, None, None) in
      case fallback of
        None \<Rightarrow> []
      | Some fb \<Rightarrow>
          let gpu_or_fallback = (case gpu of Some g \<Rightarrow> g | None \<Rightarrow> fb) in
          (case config of
             None \<Rightarrow> [gpu_or_fallback]
           | Some config \<Rightarrow>
               if n_meta < int HETERO_META_COUNT then [gpu_or_fallback]
               else
                 let fpga_eligible = md ! HETERO_META_FPGA_ELIGIBLE \<noteq> 0;
                     planned_device = md ! HETERO_META_PLANNED_DEVICE
                 in if planned_device = HETERO_PLACEMENT_GPU then (case gpu of None \<Rightarrow> [] | Some g \<Rightarrow> [g])
                    else if planned_device = HETERO_PLACEMENT_FPGA then
                      (case fpga of None \<Rightarrow> [] | Some f \<Rightarrow> if \<not> fpga_eligible then [] else [f])
                    else if planned_device \<noteq> HETERO_PLACEMENT_AUTO then []
                    else
                      (case (gpu, fpga) of
                         (Some g, Some f) \<Rightarrow>
                           if \<not> fpga_eligible then [gpu_or_fallback]
                           else if fp_less (eft_fpga_finish config md (load f)) (eft_gpu_finish config md (load g))
                           then [f] else [g]
                       | _ \<Rightarrow> [gpu_or_fallback])))"

text \<open>The array a task's metadata lies in has eight cells; what follows it in memory is the counter.\<close>

definition PolicyHeteroEFT_GetDevices ::
  "HeteroPolicyConfig option \<Rightarrow> int list \<Rightarrow> (devno \<Rightarrow> bool) \<Rightarrow> Task \<Rightarrow> (devno \<Rightarrow> nat) \<Rightarrow> devno list" where
  "PolicyHeteroEFT_GetDevices config types supp t load =
     eft_choose config types supp (n_metadata t) (t_meta_block t) load"

section \<open>What the loop finds\<close>

definition first_of :: "int list \<Rightarrow> (devno \<Rightarrow> bool) \<Rightarrow> int \<Rightarrow> devno option" where
  "first_of types supp class = find (\<lambda>i. supp i \<and> has_bits (types ! i) class) [0..<length types]"

lemma eft_scan_eq:
  "eft_scan types supp is (g, f, b) =
     (if g = None then find (\<lambda>i. supp i \<and> has_bits (types ! i) iris_nvidia) is else g,
      if f = None then find (\<lambda>i. supp i \<and> has_bits (types ! i) iris_fpga) is else f,
      if b = None then find supp is else b)"
  by (induction "is" arbitrary: g f b) (auto simp: find.simps)

lemma eft_scan_first:
  "eft_scan types supp [0..<length types] (None, None, None) =
     (first_of types supp iris_nvidia, first_of types supp iris_fpga, find supp [0..<length types])"
  by (simp add: eft_scan_eq first_of_def)

lemma first_of_Some:
  assumes "first_of types supp c = Some d"
  shows "d < length types" "supp d" "has_bits (types ! d) c" "\<forall>i < d. \<not> (supp i \<and> has_bits (types ! i) c)"
proof -
  from assms obtain k where "k < length types" "d = [0..<length types] ! k" "supp d" "has_bits (types ! d) c"
    "\<forall>i < k. \<not> (supp ([0..<length types] ! i) \<and> has_bits (types ! ([0..<length types] ! i)) c)"
    by (auto simp: first_of_def find_Some_iff)
  then show "d < length types" "supp d" "has_bits (types ! d) c" "\<forall>i < d. \<not> (supp i \<and> has_bits (types ! i) c)" by auto
qed

lemma find_upt_Some: "find supp [0..<n] = Some d \<Longrightarrow> d < n \<and> supp d"
  by (auto simp: find_Some_iff)

lemma first_of_fallback: "first_of types supp c = Some d \<Longrightarrow> \<exists>b. find supp [0..<length types] = Some b"
  using first_of_Some(1,2) [of types supp c d] by (cases "find supp [0..<length types]") (auto simp: find_None_iff)

text \<open>The policy answers with at most one device, a supported one.\<close>

lemma eft_choose_answer:
  "eft_choose config types supp n md load = [] \<or>
   (\<exists>d. eft_choose config types supp n md load = [d] \<and> d < length types \<and> supp d)"
proof -
  let ?g = "first_of types supp iris_nvidia" and ?f = "first_of types supp iris_fpga" and ?b = "find supp [0..<length types]"
  have "\<And>d. ?g = Some d \<Longrightarrow> d < length types \<and> supp d" "\<And>d. ?f = Some d \<Longrightarrow> d < length types \<and> supp d"
    "\<And>d. ?b = Some d \<Longrightarrow> d < length types \<and> supp d"
    using first_of_Some find_upt_Some by blast+
  then show ?thesis
    unfolding eft_choose_def eft_scan_first Let_def prod.case
    by (cases ?g; cases ?f; cases ?b; cases config) simp_all
qed

lemma eft_answer:
  "PolicyHeteroEFT_GetDevices config types supp t load = [] \<or>
   (\<exists>d. PolicyHeteroEFT_GetDevices config types supp t load = [d] \<and> d < length types \<and> supp d)"
  unfolding PolicyHeteroEFT_GetDevices_def by (rule eft_choose_answer)

interpretation eft: device_policy "length types" "\<lambda>supp. PolicyHeteroEFT_GetDevices config types supp t load"
  for types config t load
proof
  show "d < length types" if "d \<in> set (PolicyHeteroEFT_GetDevices config types supp t load)" for d supp
    using eft_answer [of config types supp t load] that by auto
  show "distinct (PolicyHeteroEFT_GetDevices config types supp t load)" for supp
    using eft_answer [of config types supp t load] by auto
  show "supp d" if "d \<in> set (PolicyHeteroEFT_GetDevices config types supp t load)" for d supp
    using eft_answer [of config types supp t load] that by auto
qed

section \<open>What the policy is meant to do\<close>



lemma fp_not_less_le: "fp_nonneg a \<Longrightarrow> fp_nonneg b \<Longrightarrow> \<not> fp_less a b \<Longrightarrow> fp_le b a"
  by (cases a; cases b) auto

lemma fp_less_le: "fp_less a b \<Longrightarrow> fp_le a b"
  by (cases a; cases b) auto

lemma int_cast_small: "n < 2 ^ 31 \<Longrightarrow> int_cast n = int n"
  unfolding int_cast_def by transfer (simp add: signed_take_bit_int_eq_self)

text \<open>The metadata of a task as the manifest has it: \<open>int\<close> entries, positive compute times.\<close>

definition md_ok :: "int list \<Rightarrow> bool" where
  "md_ok md \<longleftrightarrow> length md = HETERO_META_COUNT \<and> list_all int32_ok md \<and>
     0 < md ! HETERO_META_GPU_US \<and> 0 < md ! HETERO_META_FPGA_US"

lemma md_ok_int32: "md_ok md \<Longrightarrow> i < 9 \<Longrightarrow> int32_ok (md ! i)"
  by (simp add: md_ok_def list_all_length hetero_meta_defs)

lemma finish_nonneg:
  assumes "config_ok c" "fp_le (throughput_communication_weight c) (Fin 1)" "md_ok md" "q < 2 ^ 31"
  shows "fp_nonneg (eft_gpu_finish c md q)" "fp_nonneg (eft_fpga_finish c md q)"
proof -
  have w: "fin_ge0 (queue_weight c)" using assms(1) by (simp add: config_ok_def)
  have q: "0 \<le> int q" "int32_ok (int q)" using assms(4) by (simp_all add: int32_ok_def)
  have us: "0 < md ! HETERO_META_GPU_US" "0 < md ! HETERO_META_FPGA_US" using assms(3) by (simp_all add: md_ok_def)
  note i32 = md_ok_int32 [OF assms(3)]
  obtain v where v: "throughput_communication_weight c = Fin v" "0 < v" "v \<le> 1"
    using assms(1,2) by (auto simp: config_ok_def elim: fin_gt0E)
  have ints: "int32_ok (md ! HETERO_META_GPU_US)" "int32_ok (md ! HETERO_META_FPGA_US)"
    "int32_ok (md ! HETERO_META_INPUT_BYTES)" "int32_ok (md ! HETERO_META_OUTPUT_BYTES)"
    using i32 by (simp_all add: hetero_meta_defs)
  note com = communication_us_nonneg [OF assms(1) ints(3,4)]
  show "fp_nonneg (eft_gpu_finish c md q)"
    unfolding eft_gpu_finish_def hetero_gpu_finish_us_def int_cast_small [OF assms(4)]
    by (rule compute_term_nonneg [OF w us(1) ints(1) q])
  show "fp_nonneg (eft_fpga_finish c md q)"
    unfolding eft_fpga_finish_def hetero_fpga_finish_us_eq int_cast_small [OF assms(4)] v(1)
    using compute_term_nonneg [OF w us(2) ints(2) q] com weighted_le(2) [OF com communication_us_fixed v(2,3)]
    by (auto intro!: fp_add_nonneg simp del: fp_add.simps fp_mul.simps)
qed



section \<open>What the policy does\<close>

lemma eft_counts_as_placement:
  assumes "meta_wf t" "int HETERO_META_COUNT \<le> n_metadata t"
  shows "PolicyHeteroEFT_GetDevices (Some c) types supp t load = []"
  using assms
  by (auto simp: PolicyHeteroEFT_GetDevices_def eft_choose_def eft_scan_first n_metadata_def meta_defs
      hetero_meta_defs hetero_enum_defs Let_def split: option.splits)

text \<open>In memory the planned placement is the ninth entry of an eight-entry array: what the policy reads there
  is the number of entries. On every task with the nine entries of the application the registered policy
  therefore names no device, whatever the plan, the costs and the queues are; the comparison of finish times is
  never reached. On a task with fewer entries it names the first GPU, or the first device at all.\<close>

theorem eft_never_compares:
  assumes "meta_wf t"
  shows "PolicyHeteroEFT_GetDevices (Some c) types supp t load =
    (if int HETERO_META_COUNT \<le> n_metadata t then []
     else case first_of types supp iris_nvidia of
            Some g \<Rightarrow> [g]
          | None \<Rightarrow> (case find supp [0..<length types] of None \<Rightarrow> [] | Some b \<Rightarrow> [b]))"
proof (cases "int HETERO_META_COUNT \<le> n_metadata t")
  case True
  with eft_counts_as_placement [OF assms] show ?thesis by simp
next
  case False
  with first_of_fallback [of types supp iris_nvidia] show ?thesis
    by (cases "first_of types supp iris_nvidia")
      (auto simp: PolicyHeteroEFT_GetDevices_def eft_choose_def eft_scan_first Let_def split: option.splits)
qed

theorem eft_never_compares_witness:
  "let t = Task_new \<lparr>release_task_flag = True, platform_async = False, enable_proactive = False\<rparr> 2 IRIS_TASK None [0, 0, 0, 0, 0, 0] in
   \<exists>t'. set_metadata_all [121, 38, 302592, 302592, 1, 0, 1, 1, 2] 9 t = Some t' \<and>
     PolicyHeteroEFT_GetDevices (Some skeleton_config) [iris_nvidia, iris_fpga] (\<lambda>_. True) t' (\<lambda>_. 0) = []"
proof -
  let ?t = "Task_new \<lparr>release_task_flag = True, platform_async = False, enable_proactive = False\<rparr> 2 IRIS_TASK None [0, 0, 0, 0, 0, 0]"
  let ?b = "[121, 38, 302592, 302592, 1, 0, 1, 1, 9, 0]"
  have s: "set_metadata_all [121, 38, 302592, 302592, 1, 0, 1, 1, 2] 9 ?t = Some (?t\<lparr>t_meta_block := ?b\<rparr>)"
    by (simp add: set_metadata_all_def store_def meta_defs)
  have "meta_wf (?t\<lparr>t_meta_block := ?b\<rparr>)" by (simp add: meta_wf_def meta_defs)
  from eft_never_compares [OF this] s show ?thesis
    by (simp add: Let_def n_metadata_def meta_defs hetero_meta_defs)
qed

end
