(* ===== verification/Hetero_Manifest.thy ===== *)
theory Hetero_Manifest
  imports Hetero_Cost
begin

text \<open>
  The generated task tables of the application: \<^verbatim>\<open>vit_task_manifest.h\<close> (the policy chooses the
  devices) and \<^verbatim>\<open>iris_planned_manifest.h\<close> (a planner fixed them). A row is a name and the metadata
  array the skeleton attaches to the task; a row with fewer initialisers than the nine of the
  array is completed with zeros, as C does. An edge is a pair of row numbers. The theorems state what
  \<^verbatim>\<open>vit_dag_skeleton.c\<close> and the policy rely on: the edges are in range and point forwards, every task
  leads to the last one, and a planned placement is one the policy can honour.
\<close>

section \<open>Rows and edges\<close>

record HeteroTaskRecord =
  rec_name :: string
  rec_metadata :: "int list"

type_synonym HeteroEdgeRecord = "nat \<times> nat"

definition HeteroTask :: "string \<Rightarrow> int list \<Rightarrow> HeteroTaskRecord" where
  "HeteroTask n m = \<lparr>rec_name = n, rec_metadata = m @ replicate (9 - length m) 0\<rparr>"

definition HETERO_TASK_COUNT :: nat where "HETERO_TASK_COUNT = 101"
definition HETERO_EDGE_COUNT :: nat where "HETERO_EDGE_COUNT = 124"

section \<open>The manifest of the application\<close>

definition HETERO_TASKS :: "HeteroTaskRecord list" where
"HETERO_TASKS = [
  HeteroTask ''patch_embedding'' [121, 0, 0, 301056, 0, 0, 1, 0],
  HeteroTask ''token_embedding'' [41, 0, 301056, 605184, 0, 0, 1, 0],
  HeteroTask ''block_00_norm1'' [53, 0, 302592, 302592, 0, 0, 0, 0],
  HeteroTask ''block_00_qkv'' [354, 96, 302592, 907776, 1, 0, 1, 1],
  HeteroTask ''block_00_attention'' [124, 0, 907776, 302592, 0, 0, 0, 0],
  HeteroTask ''block_00_proj'' [121, 38, 302592, 302592, 1, 0, 1, 1],
  HeteroTask ''block_00_residual1'' [41, 0, 605184, 605184, 0, 0, 1, 0],
  HeteroTask ''block_00_norm2'' [53, 0, 302592, 302592, 0, 0, 0, 0],
  HeteroTask ''block_00_ffn_island'' [1041, 337, 302592, 302592, 1, 0, 1, 2],
  HeteroTask ''block_00_residual2'' [41, 0, 605184, 605184, 0, 0, 1, 0],
  HeteroTask ''block_01_norm1'' [53, 0, 302592, 302592, 0, 0, 0, 0],
  HeteroTask ''block_01_qkv'' [354, 96, 302592, 907776, 1, 0, 1, 1],
  HeteroTask ''block_01_attention'' [124, 0, 907776, 302592, 0, 0, 0, 0],
  HeteroTask ''block_01_proj'' [121, 38, 302592, 302592, 1, 0, 1, 1],
  HeteroTask ''block_01_residual1'' [41, 0, 605184, 605184, 0, 0, 1, 0],
  HeteroTask ''block_01_norm2'' [53, 0, 302592, 302592, 0, 0, 0, 0],
  HeteroTask ''block_01_ffn_island'' [1041, 337, 302592, 302592, 1, 0, 1, 2],
  HeteroTask ''block_01_residual2'' [41, 0, 605184, 605184, 0, 0, 1, 0],
  HeteroTask ''block_02_norm1'' [53, 0, 302592, 302592, 0, 0, 0, 0],
  HeteroTask ''block_02_qkv'' [354, 96, 302592, 907776, 1, 0, 1, 1],
  HeteroTask ''block_02_attention'' [124, 0, 907776, 302592, 0, 0, 0, 0],
  HeteroTask ''block_02_proj'' [121, 38, 302592, 302592, 1, 0, 1, 1],
  HeteroTask ''block_02_residual1'' [41, 0, 605184, 605184, 0, 0, 1, 0],
  HeteroTask ''block_02_norm2'' [53, 0, 302592, 302592, 0, 0, 0, 0],
  HeteroTask ''block_02_ffn_island'' [1041, 337, 302592, 302592, 1, 0, 1, 2],
  HeteroTask ''block_02_residual2'' [41, 0, 605184, 605184, 0, 0, 1, 0],
  HeteroTask ''block_03_norm1'' [53, 0, 302592, 302592, 0, 0, 0, 0],
  HeteroTask ''block_03_qkv'' [354, 96, 302592, 907776, 1, 0, 1, 1],
  HeteroTask ''block_03_attention'' [124, 0, 907776, 302592, 0, 0, 0, 0],
  HeteroTask ''block_03_proj'' [121, 38, 302592, 302592, 1, 0, 1, 1],
  HeteroTask ''block_03_residual1'' [41, 0, 605184, 605184, 0, 0, 1, 0],
  HeteroTask ''block_03_norm2'' [53, 0, 302592, 302592, 0, 0, 0, 0],
  HeteroTask ''block_03_ffn_island'' [1041, 337, 302592, 302592, 1, 0, 1, 2],
  HeteroTask ''block_03_residual2'' [41, 0, 605184, 605184, 0, 0, 1, 0],
  HeteroTask ''block_04_norm1'' [53, 0, 302592, 302592, 0, 0, 0, 0],
  HeteroTask ''block_04_qkv'' [354, 96, 302592, 907776, 1, 0, 1, 1],
  HeteroTask ''block_04_attention'' [124, 0, 907776, 302592, 0, 0, 0, 0],
  HeteroTask ''block_04_proj'' [121, 38, 302592, 302592, 1, 0, 1, 1],
  HeteroTask ''block_04_residual1'' [41, 0, 605184, 605184, 0, 0, 1, 0],
  HeteroTask ''block_04_norm2'' [53, 0, 302592, 302592, 0, 0, 0, 0],
  HeteroTask ''block_04_ffn_island'' [1041, 337, 302592, 302592, 1, 0, 1, 2],
  HeteroTask ''block_04_residual2'' [41, 0, 605184, 605184, 0, 0, 1, 0],
  HeteroTask ''block_05_norm1'' [53, 0, 302592, 302592, 0, 0, 0, 0],
  HeteroTask ''block_05_qkv'' [354, 96, 302592, 907776, 1, 0, 1, 1],
  HeteroTask ''block_05_attention'' [124, 0, 907776, 302592, 0, 0, 0, 0],
  HeteroTask ''block_05_proj'' [121, 38, 302592, 302592, 1, 0, 1, 1],
  HeteroTask ''block_05_residual1'' [41, 0, 605184, 605184, 0, 0, 1, 0],
  HeteroTask ''block_05_norm2'' [53, 0, 302592, 302592, 0, 0, 0, 0],
  HeteroTask ''block_05_ffn_island'' [1041, 337, 302592, 302592, 1, 0, 1, 2],
  HeteroTask ''block_05_residual2'' [41, 0, 605184, 605184, 0, 0, 1, 0],
  HeteroTask ''block_06_norm1'' [53, 0, 302592, 302592, 0, 0, 0, 0],
  HeteroTask ''block_06_qkv'' [354, 96, 302592, 907776, 1, 0, 1, 1],
  HeteroTask ''block_06_attention'' [124, 0, 907776, 302592, 0, 0, 0, 0],
  HeteroTask ''block_06_proj'' [121, 38, 302592, 302592, 1, 0, 1, 1],
  HeteroTask ''block_06_residual1'' [41, 0, 605184, 605184, 0, 0, 1, 0],
  HeteroTask ''block_06_norm2'' [53, 0, 302592, 302592, 0, 0, 0, 0],
  HeteroTask ''block_06_ffn_island'' [1041, 337, 302592, 302592, 1, 0, 1, 2],
  HeteroTask ''block_06_residual2'' [41, 0, 605184, 605184, 0, 0, 1, 0],
  HeteroTask ''block_07_norm1'' [53, 0, 302592, 302592, 0, 0, 0, 0],
  HeteroTask ''block_07_qkv'' [354, 96, 302592, 907776, 1, 0, 1, 1],
  HeteroTask ''block_07_attention'' [124, 0, 907776, 302592, 0, 0, 0, 0],
  HeteroTask ''block_07_proj'' [121, 38, 302592, 302592, 1, 0, 1, 1],
  HeteroTask ''block_07_residual1'' [41, 0, 605184, 605184, 0, 0, 1, 0],
  HeteroTask ''block_07_norm2'' [53, 0, 302592, 302592, 0, 0, 0, 0],
  HeteroTask ''block_07_ffn_island'' [1041, 337, 302592, 302592, 1, 0, 1, 2],
  HeteroTask ''block_07_residual2'' [41, 0, 605184, 605184, 0, 0, 1, 0],
  HeteroTask ''block_08_norm1'' [53, 0, 302592, 302592, 0, 0, 0, 0],
  HeteroTask ''block_08_qkv'' [354, 96, 302592, 907776, 1, 0, 1, 1],
  HeteroTask ''block_08_attention'' [124, 0, 907776, 302592, 0, 0, 0, 0],
  HeteroTask ''block_08_proj'' [121, 38, 302592, 302592, 1, 0, 1, 1],
  HeteroTask ''block_08_residual1'' [41, 0, 605184, 605184, 0, 0, 1, 0],
  HeteroTask ''block_08_norm2'' [53, 0, 302592, 302592, 0, 0, 0, 0],
  HeteroTask ''block_08_ffn_island'' [1041, 337, 302592, 302592, 1, 0, 1, 2],
  HeteroTask ''block_08_residual2'' [41, 0, 605184, 605184, 0, 0, 1, 0],
  HeteroTask ''block_09_norm1'' [53, 0, 302592, 302592, 0, 0, 0, 0],
  HeteroTask ''block_09_qkv'' [354, 96, 302592, 907776, 1, 0, 1, 1],
  HeteroTask ''block_09_attention'' [124, 0, 907776, 302592, 0, 0, 0, 0],
  HeteroTask ''block_09_proj'' [121, 38, 302592, 302592, 1, 0, 1, 1],
  HeteroTask ''block_09_residual1'' [41, 0, 605184, 605184, 0, 0, 1, 0],
  HeteroTask ''block_09_norm2'' [53, 0, 302592, 302592, 0, 0, 0, 0],
  HeteroTask ''block_09_ffn_island'' [1041, 337, 302592, 302592, 1, 0, 1, 2],
  HeteroTask ''block_09_residual2'' [41, 0, 605184, 605184, 0, 0, 1, 0],
  HeteroTask ''block_10_norm1'' [53, 0, 302592, 302592, 0, 0, 0, 0],
  HeteroTask ''block_10_qkv'' [354, 96, 302592, 907776, 1, 0, 1, 1],
  HeteroTask ''block_10_attention'' [124, 0, 907776, 302592, 0, 0, 0, 0],
  HeteroTask ''block_10_proj'' [121, 38, 302592, 302592, 1, 0, 1, 1],
  HeteroTask ''block_10_residual1'' [41, 0, 605184, 605184, 0, 0, 1, 0],
  HeteroTask ''block_10_norm2'' [53, 0, 302592, 302592, 0, 0, 0, 0],
  HeteroTask ''block_10_ffn_island'' [1041, 337, 302592, 302592, 1, 0, 1, 2],
  HeteroTask ''block_10_residual2'' [41, 0, 605184, 605184, 0, 0, 1, 0],
  HeteroTask ''block_11_norm1'' [53, 0, 302592, 302592, 0, 0, 0, 0],
  HeteroTask ''block_11_qkv'' [354, 96, 302592, 907776, 1, 0, 1, 1],
  HeteroTask ''block_11_attention'' [124, 0, 907776, 302592, 0, 0, 0, 0],
  HeteroTask ''block_11_proj'' [121, 38, 302592, 302592, 1, 0, 1, 1],
  HeteroTask ''block_11_residual1'' [41, 0, 605184, 605184, 0, 0, 1, 0],
  HeteroTask ''block_11_norm2'' [53, 0, 302592, 302592, 0, 0, 0, 0],
  HeteroTask ''block_11_ffn_island'' [1041, 337, 302592, 302592, 1, 0, 1, 2],
  HeteroTask ''block_11_residual2'' [41, 0, 605184, 302592, 0, 0, 1, 0],
  HeteroTask ''final_norm'' [53, 0, 302592, 302592, 0, 0, 1, 0],
  HeteroTask ''class_token_select'' [5, 0, 302592, 1536, 0, 0, 0, 0],
  HeteroTask ''classifier'' [6, 9, 1536, 4000, 1, 0, 1, 1]]"

definition HETERO_EDGES :: "HeteroEdgeRecord list" where
"HETERO_EDGES = [
  (0,1), (1,2), (1,6), (2,3), (3,4), (4,5), (5,6), (6,7), (6,9), (7,8),
  (8,9), (9,10), (9,14), (10,11), (11,12), (12,13), (13,14), (14,15), (14,17), (15,16),
  (16,17), (17,18), (17,22), (18,19), (19,20), (20,21), (21,22), (22,23), (22,25), (23,24),
  (24,25), (25,26), (25,30), (26,27), (27,28), (28,29), (29,30), (30,31), (30,33), (31,32),
  (32,33), (33,34), (33,38), (34,35), (35,36), (36,37), (37,38), (38,39), (38,41), (39,40),
  (40,41), (41,42), (41,46), (42,43), (43,44), (44,45), (45,46), (46,47), (46,49), (47,48),
  (48,49), (49,50), (49,54), (50,51), (51,52), (52,53), (53,54), (54,55), (54,57), (55,56),
  (56,57), (57,58), (57,62), (58,59), (59,60), (60,61), (61,62), (62,63), (62,65), (63,64),
  (64,65), (65,66), (65,70), (66,67), (67,68), (68,69), (69,70), (70,71), (70,73), (71,72),
  (72,73), (73,74), (73,78), (74,75), (75,76), (76,77), (77,78), (78,79), (78,81), (79,80),
  (80,81), (81,82), (81,86), (82,83), (83,84), (84,85), (85,86), (86,87), (86,89), (87,88),
  (88,89), (89,90), (89,94), (90,91), (91,92), (92,93), (93,94), (94,95), (94,97), (95,96),
  (96,97), (97,98), (98,99), (99,100)]"

section \<open>The planned manifest\<close>

definition PLANNED_TASKS :: "HeteroTaskRecord list" where
"PLANNED_TASKS = [
  HeteroTask ''patch_embedding'' [152, 0, 0, 301056, 0, 0, 1, 0, 1],
  HeteroTask ''token_embedding'' [18, 0, 301056, 605184, 0, 0, 1, 0, 1],
  HeteroTask ''block_00_norm1'' [22, 0, 302592, 302592, 0, 0, 0, 0, 1],
  HeteroTask ''block_00_qkv'' [443, 123, 302592, 907776, 1, 0, 1, 1, 1],
  HeteroTask ''block_00_attention'' [156, 0, 907776, 302592, 0, 0, 0, 0, 1],
  HeteroTask ''block_00_proj'' [152, 50, 302592, 302592, 1, 0, 1, 1, 1],
  HeteroTask ''block_00_residual1'' [18, 0, 605184, 605184, 0, 0, 1, 0, 1],
  HeteroTask ''block_00_norm2'' [22, 0, 302592, 302592, 0, 0, 0, 0, 1],
  HeteroTask ''block_00_ffn_island'' [1213, 333, 302592, 302592, 1, 0, 1, 2, 2],
  HeteroTask ''block_00_residual2'' [18, 0, 605184, 605184, 0, 0, 1, 0, 1],
  HeteroTask ''block_01_norm1'' [22, 0, 302592, 302592, 0, 0, 0, 0, 1],
  HeteroTask ''block_01_qkv'' [443, 123, 302592, 907776, 1, 0, 1, 1, 1],
  HeteroTask ''block_01_attention'' [156, 0, 907776, 302592, 0, 0, 0, 0, 1],
  HeteroTask ''block_01_proj'' [152, 50, 302592, 302592, 1, 0, 1, 1, 1],
  HeteroTask ''block_01_residual1'' [18, 0, 605184, 605184, 0, 0, 1, 0, 1],
  HeteroTask ''block_01_norm2'' [22, 0, 302592, 302592, 0, 0, 0, 0, 1],
  HeteroTask ''block_01_ffn_island'' [1213, 333, 302592, 302592, 1, 0, 1, 2, 2],
  HeteroTask ''block_01_residual2'' [18, 0, 605184, 605184, 0, 0, 1, 0, 1],
  HeteroTask ''block_02_norm1'' [22, 0, 302592, 302592, 0, 0, 0, 0, 1],
  HeteroTask ''block_02_qkv'' [443, 123, 302592, 907776, 1, 0, 1, 1, 1],
  HeteroTask ''block_02_attention'' [156, 0, 907776, 302592, 0, 0, 0, 0, 1],
  HeteroTask ''block_02_proj'' [152, 50, 302592, 302592, 1, 0, 1, 1, 1],
  HeteroTask ''block_02_residual1'' [18, 0, 605184, 605184, 0, 0, 1, 0, 1],
  HeteroTask ''block_02_norm2'' [22, 0, 302592, 302592, 0, 0, 0, 0, 1],
  HeteroTask ''block_02_ffn_island'' [1213, 333, 302592, 302592, 1, 0, 1, 2, 2],
  HeteroTask ''block_02_residual2'' [18, 0, 605184, 605184, 0, 0, 1, 0, 1],
  HeteroTask ''block_03_norm1'' [22, 0, 302592, 302592, 0, 0, 0, 0, 1],
  HeteroTask ''block_03_qkv'' [443, 123, 302592, 907776, 1, 0, 1, 1, 1],
  HeteroTask ''block_03_attention'' [156, 0, 907776, 302592, 0, 0, 0, 0, 1],
  HeteroTask ''block_03_proj'' [152, 50, 302592, 302592, 1, 0, 1, 1, 1],
  HeteroTask ''block_03_residual1'' [18, 0, 605184, 605184, 0, 0, 1, 0, 1],
  HeteroTask ''block_03_norm2'' [22, 0, 302592, 302592, 0, 0, 0, 0, 1],
  HeteroTask ''block_03_ffn_island'' [1213, 333, 302592, 302592, 1, 0, 1, 2, 2],
  HeteroTask ''block_03_residual2'' [18, 0, 605184, 605184, 0, 0, 1, 0, 1],
  HeteroTask ''block_04_norm1'' [22, 0, 302592, 302592, 0, 0, 0, 0, 1],
  HeteroTask ''block_04_qkv'' [443, 123, 302592, 907776, 1, 0, 1, 1, 1],
  HeteroTask ''block_04_attention'' [156, 0, 907776, 302592, 0, 0, 0, 0, 1],
  HeteroTask ''block_04_proj'' [152, 50, 302592, 302592, 1, 0, 1, 1, 1],
  HeteroTask ''block_04_residual1'' [18, 0, 605184, 605184, 0, 0, 1, 0, 1],
  HeteroTask ''block_04_norm2'' [22, 0, 302592, 302592, 0, 0, 0, 0, 1],
  HeteroTask ''block_04_ffn_island'' [1213, 333, 302592, 302592, 1, 0, 1, 2, 2],
  HeteroTask ''block_04_residual2'' [18, 0, 605184, 605184, 0, 0, 1, 0, 1],
  HeteroTask ''block_05_norm1'' [22, 0, 302592, 302592, 0, 0, 0, 0, 1],
  HeteroTask ''block_05_qkv'' [443, 123, 302592, 907776, 1, 0, 1, 1, 1],
  HeteroTask ''block_05_attention'' [156, 0, 907776, 302592, 0, 0, 0, 0, 1],
  HeteroTask ''block_05_proj'' [152, 50, 302592, 302592, 1, 0, 1, 1, 1],
  HeteroTask ''block_05_residual1'' [18, 0, 605184, 605184, 0, 0, 1, 0, 1],
  HeteroTask ''block_05_norm2'' [22, 0, 302592, 302592, 0, 0, 0, 0, 1],
  HeteroTask ''block_05_ffn_island'' [1213, 333, 302592, 302592, 1, 0, 1, 2, 2],
  HeteroTask ''block_05_residual2'' [18, 0, 605184, 605184, 0, 0, 1, 0, 1],
  HeteroTask ''block_06_norm1'' [22, 0, 302592, 302592, 0, 0, 0, 0, 1],
  HeteroTask ''block_06_qkv'' [443, 123, 302592, 907776, 1, 0, 1, 1, 1],
  HeteroTask ''block_06_attention'' [156, 0, 907776, 302592, 0, 0, 0, 0, 1],
  HeteroTask ''block_06_proj'' [152, 50, 302592, 302592, 1, 0, 1, 1, 1],
  HeteroTask ''block_06_residual1'' [18, 0, 605184, 605184, 0, 0, 1, 0, 1],
  HeteroTask ''block_06_norm2'' [22, 0, 302592, 302592, 0, 0, 0, 0, 1],
  HeteroTask ''block_06_ffn_island'' [1213, 333, 302592, 302592, 1, 0, 1, 2, 2],
  HeteroTask ''block_06_residual2'' [18, 0, 605184, 605184, 0, 0, 1, 0, 1],
  HeteroTask ''block_07_norm1'' [22, 0, 302592, 302592, 0, 0, 0, 0, 1],
  HeteroTask ''block_07_qkv'' [443, 123, 302592, 907776, 1, 0, 1, 1, 1],
  HeteroTask ''block_07_attention'' [156, 0, 907776, 302592, 0, 0, 0, 0, 1],
  HeteroTask ''block_07_proj'' [152, 50, 302592, 302592, 1, 0, 1, 1, 1],
  HeteroTask ''block_07_residual1'' [18, 0, 605184, 605184, 0, 0, 1, 0, 1],
  HeteroTask ''block_07_norm2'' [22, 0, 302592, 302592, 0, 0, 0, 0, 1],
  HeteroTask ''block_07_ffn_island'' [1213, 333, 302592, 302592, 1, 0, 1, 2, 2],
  HeteroTask ''block_07_residual2'' [18, 0, 605184, 605184, 0, 0, 1, 0, 1],
  HeteroTask ''block_08_norm1'' [22, 0, 302592, 302592, 0, 0, 0, 0, 1],
  HeteroTask ''block_08_qkv'' [443, 123, 302592, 907776, 1, 0, 1, 1, 1],
  HeteroTask ''block_08_attention'' [156, 0, 907776, 302592, 0, 0, 0, 0, 1],
  HeteroTask ''block_08_proj'' [152, 50, 302592, 302592, 1, 0, 1, 1, 1],
  HeteroTask ''block_08_residual1'' [18, 0, 605184, 605184, 0, 0, 1, 0, 1],
  HeteroTask ''block_08_norm2'' [22, 0, 302592, 302592, 0, 0, 0, 0, 1],
  HeteroTask ''block_08_ffn_island'' [1213, 333, 302592, 302592, 1, 0, 1, 2, 2],
  HeteroTask ''block_08_residual2'' [18, 0, 605184, 605184, 0, 0, 1, 0, 1],
  HeteroTask ''block_09_norm1'' [22, 0, 302592, 302592, 0, 0, 0, 0, 1],
  HeteroTask ''block_09_qkv'' [443, 123, 302592, 907776, 1, 0, 1, 1, 1],
  HeteroTask ''block_09_attention'' [156, 0, 907776, 302592, 0, 0, 0, 0, 1],
  HeteroTask ''block_09_proj'' [152, 50, 302592, 302592, 1, 0, 1, 1, 1],
  HeteroTask ''block_09_residual1'' [18, 0, 605184, 605184, 0, 0, 1, 0, 1],
  HeteroTask ''block_09_norm2'' [22, 0, 302592, 302592, 0, 0, 0, 0, 1],
  HeteroTask ''block_09_ffn_island'' [1213, 333, 302592, 302592, 1, 0, 1, 2, 2],
  HeteroTask ''block_09_residual2'' [18, 0, 605184, 605184, 0, 0, 1, 0, 1],
  HeteroTask ''block_10_norm1'' [22, 0, 302592, 302592, 0, 0, 0, 0, 1],
  HeteroTask ''block_10_qkv'' [443, 123, 302592, 907776, 1, 0, 1, 1, 1],
  HeteroTask ''block_10_attention'' [156, 0, 907776, 302592, 0, 0, 0, 0, 1],
  HeteroTask ''block_10_proj'' [152, 50, 302592, 302592, 1, 0, 1, 1, 1],
  HeteroTask ''block_10_residual1'' [18, 0, 605184, 605184, 0, 0, 1, 0, 1],
  HeteroTask ''block_10_norm2'' [22, 0, 302592, 302592, 0, 0, 0, 0, 1],
  HeteroTask ''block_10_ffn_island'' [1213, 333, 302592, 302592, 1, 0, 1, 2, 2],
  HeteroTask ''block_10_residual2'' [18, 0, 605184, 605184, 0, 0, 1, 0, 1],
  HeteroTask ''block_11_norm1'' [22, 0, 302592, 302592, 0, 0, 0, 0, 1],
  HeteroTask ''block_11_qkv'' [443, 123, 302592, 907776, 1, 0, 1, 1, 1],
  HeteroTask ''block_11_attention'' [156, 0, 907776, 302592, 0, 0, 0, 0, 1],
  HeteroTask ''block_11_proj'' [152, 50, 302592, 302592, 1, 0, 1, 1, 1],
  HeteroTask ''block_11_residual1'' [18, 0, 605184, 605184, 0, 0, 1, 0, 1],
  HeteroTask ''block_11_norm2'' [22, 0, 302592, 302592, 0, 0, 0, 0, 1],
  HeteroTask ''block_11_ffn_island'' [1213, 333, 302592, 302592, 1, 0, 1, 2, 2],
  HeteroTask ''block_11_residual2'' [18, 0, 605184, 302592, 0, 0, 1, 0, 1],
  HeteroTask ''final_norm'' [22, 0, 302592, 302592, 0, 0, 1, 0, 1],
  HeteroTask ''class_token_select'' [7, 0, 302592, 1536, 0, 0, 0, 0, 1],
  HeteroTask ''classifier'' [8, 14, 1536, 2000, 1, 0, 1, 1, 1]]"

definition PLANNED_EDGES :: "HeteroEdgeRecord list" where
"PLANNED_EDGES = [
  (0,1), (1,2), (1,6), (2,3), (3,4), (4,5), (5,6), (6,7), (6,9), (7,8),
  (8,9), (9,10), (9,14), (10,11), (11,12), (12,13), (13,14), (14,15), (14,17), (15,16),
  (16,17), (17,18), (17,22), (18,19), (19,20), (20,21), (21,22), (22,23), (22,25), (23,24),
  (24,25), (25,26), (25,30), (26,27), (27,28), (28,29), (29,30), (30,31), (30,33), (31,32),
  (32,33), (33,34), (33,38), (34,35), (35,36), (36,37), (37,38), (38,39), (38,41), (39,40),
  (40,41), (41,42), (41,46), (42,43), (43,44), (44,45), (45,46), (46,47), (46,49), (47,48),
  (48,49), (49,50), (49,54), (50,51), (51,52), (52,53), (53,54), (54,55), (54,57), (55,56),
  (56,57), (57,58), (57,62), (58,59), (59,60), (60,61), (61,62), (62,63), (62,65), (63,64),
  (64,65), (65,66), (65,70), (66,67), (67,68), (68,69), (69,70), (70,71), (70,73), (71,72),
  (72,73), (73,74), (73,78), (74,75), (75,76), (76,77), (77,78), (78,79), (78,81), (79,80),
  (80,81), (81,82), (81,86), (82,83), (83,84), (84,85), (85,86), (86,87), (86,89), (87,88),
  (88,89), (89,90), (89,94), (90,91), (91,92), (92,93), (93,94), (94,95), (94,97), (95,96),
  (96,97), (97,98), (98,99), (99,100)]"

section \<open>What the skeleton relies on\<close>

text \<open>Edges name existing rows, point from an earlier row to a later one and are not repeated.\<close>

definition edges_forward :: "nat \<Rightarrow> HeteroEdgeRecord list \<Rightarrow> bool" where
  "edges_forward n es \<longleftrightarrow> list_all (\<lambda>(s, t). s < t \<and> t < n) es \<and> distinct es"

text \<open>Every row but the last has an edge to the next one.\<close>

definition edges_chain :: "nat \<Rightarrow> HeteroEdgeRecord list \<Rightarrow> bool" where
  "edges_chain n es \<longleftrightarrow> list_all (\<lambda>i. (i, Suc i) \<in> set es) [0..<n - 1]"

lemma edges_forward_acyclic:
  assumes "edges_forward n es"
  shows "acyclic (set es)"
proof -
  have "set es \<subseteq> {(s, t). s < t}"
    using assms by (auto simp: edges_forward_def list_all_iff)
  then have "wf (set es)" by (rule wf_subset [OF wf_less])
  then show ?thesis by (rule wf_acyclic)
qed

lemma edges_chain_edge: "edges_chain n es \<Longrightarrow> Suc i < n \<Longrightarrow> (i, Suc i) \<in> set es"
  by (auto simp: edges_chain_def list_all_iff)

lemma edges_chain_reaches:
  assumes "edges_chain n es" "i \<le> j" "j < n"
  shows "(i, j) \<in> (set es)\<^sup>*"
  using assms(2,3)
proof (induction j rule: dec_induct)
  case (step j)
  then have "(i, j) \<in> (set es)\<^sup>*" by simp
  with edges_chain_edge [OF assms(1)] step show ?case
    by (auto intro: rtrancl_into_rtrancl)
qed simp

lemma HETERO_TASKS_length: "length HETERO_TASKS = HETERO_TASK_COUNT"
  by (simp add: HETERO_TASKS_def HETERO_TASK_COUNT_def)

lemma PLANNED_TASKS_length: "length PLANNED_TASKS = HETERO_TASK_COUNT"
  by (simp add: PLANNED_TASKS_def HETERO_TASK_COUNT_def)

lemma HETERO_EDGES_forward: "edges_forward HETERO_TASK_COUNT HETERO_EDGES"
  by (simp add: edges_forward_def HETERO_EDGES_def HETERO_TASK_COUNT_def)

lemma HETERO_EDGES_chain: "edges_chain HETERO_TASK_COUNT HETERO_EDGES"
  by (simp add: edges_chain_def HETERO_EDGES_def HETERO_TASK_COUNT_def upt_rec_numeral
      upt_conv_Cons [of 0] upt_conv_Cons [of "Suc 0"] numeral_2_eq_2 [symmetric])

lemma PLANNED_EDGES_eq: "PLANNED_EDGES = HETERO_EDGES"
  by (simp add: PLANNED_EDGES_def HETERO_EDGES_def)

lemma HETERO_EDGES_length: "length HETERO_EDGES = HETERO_EDGE_COUNT"
  by (simp add: HETERO_EDGES_def HETERO_EDGE_COUNT_def)

definition row :: "HeteroTaskRecord \<Rightarrow> nat \<Rightarrow> int" where
  "row r k = rec_metadata r ! k"

text \<open>A row whose metadata the policy reads without surprise: nine fields that fit an \<open>int\<close>, times and
  sizes that are not negative, a known objective, and an FPGA time where the FPGA may be used.\<close>

definition row_ok :: "HeteroTaskRecord \<Rightarrow> bool" where
  "row_ok r \<longleftrightarrow> length (rec_metadata r) = HETERO_META_COUNT \<and>
     list_all (\<lambda>v. 0 \<le> v \<and> v < 2 ^ 31) (rec_metadata r) \<and>
     0 < row r HETERO_META_GPU_US \<and>
     (row r HETERO_META_FPGA_ELIGIBLE = 1 \<and> 0 < row r HETERO_META_FPGA_US \<or>
      row r HETERO_META_FPGA_ELIGIBLE = 0 \<and> row r HETERO_META_FPGA_US = 0) \<and>
     row r HETERO_META_OBJECTIVE = HETERO_OBJECTIVE_LATENCY \<and>
     row r HETERO_META_RETURN_REQUIRED \<in> {0, 1}"

definition planned_ok :: "HeteroTaskRecord \<Rightarrow> bool" where
  "planned_ok r \<longleftrightarrow> row r HETERO_META_PLANNED_DEVICE = HETERO_PLACEMENT_GPU \<or>
     row r HETERO_META_PLANNED_DEVICE = HETERO_PLACEMENT_FPGA \<and> row r HETERO_META_FPGA_ELIGIBLE = 1"

lemma HETERO_TASKS_ok: "list_all row_ok HETERO_TASKS"
  by code_simp

lemma HETERO_TASKS_auto:
  "list_all (\<lambda>r. row r HETERO_META_PLANNED_DEVICE = HETERO_PLACEMENT_AUTO) HETERO_TASKS"
  by code_simp

lemma PLANNED_TASKS_ok: "list_all (\<lambda>r. row_ok r \<and> planned_ok r) PLANNED_TASKS"
  by code_simp

text \<open>The skeleton's tables describe one connected task graph: as many rows and edges as the two
  counters say, no cycle, and a path from every task to the last one, so the one \<open>iris_task_wait\<close> on
  the last task is a wait for all of them. The same holds of the planned manifest.\<close>

theorem manifest_graph:
  "length HETERO_TASKS = HETERO_TASK_COUNT \<and> length HETERO_EDGES = HETERO_EDGE_COUNT \<and>
   length PLANNED_TASKS = HETERO_TASK_COUNT \<and> PLANNED_EDGES = HETERO_EDGES \<and>
   acyclic (set HETERO_EDGES) \<and> (set HETERO_EDGES)\<^sup>* `` {i} \<subseteq> {i..} \<and>
   (i < HETERO_TASK_COUNT \<longrightarrow> (i, HETERO_TASK_COUNT - 1) \<in> (set HETERO_EDGES)\<^sup>*)"
proof -
  have "j \<in> {i..}" if "(i, j) \<in> (set HETERO_EDGES)\<^sup>*" for j
    using that HETERO_EDGES_forward
    by (induction rule: rtrancl_induct) (fastforce simp: edges_forward_def list_all_iff)+
  then show ?thesis
    using edges_forward_acyclic [OF HETERO_EDGES_forward]
      edges_chain_reaches [OF HETERO_EDGES_chain, of i "HETERO_TASK_COUNT - 1"]
    by (auto simp: HETERO_TASKS_length PLANNED_TASKS_length HETERO_EDGES_length PLANNED_EDGES_eq)
qed

theorem manifest_graph_witness:
  "(0, 100) \<in> (set HETERO_EDGES)\<^sup>*"
  using manifest_graph [of 0] by (simp add: HETERO_TASK_COUNT_def)

text \<open>In the planned manifest every task has a placement the policy accepts: a GPU, or an FPGA the
  task is eligible for; the tasks planned for the FPGA are exactly the twelve fused feed-forward
  islands, one for each encoder block.\<close>

theorem planned_placements:
  "list_all (\<lambda>r. row_ok r \<and> planned_ok r) PLANNED_TASKS \<and>
   map rec_name (filter (\<lambda>r. row r HETERO_META_PLANNED_DEVICE = HETERO_PLACEMENT_FPGA) PLANNED_TASKS) =
   map (\<lambda>b. ''block_'' @ b @ ''_ffn_island'')
     [''00'', ''01'', ''02'', ''03'', ''04'', ''05'', ''06'', ''07'', ''08'', ''09'', ''10'', ''11'']"
proof
  show "list_all (\<lambda>r. row_ok r \<and> planned_ok r) PLANNED_TASKS" by (rule PLANNED_TASKS_ok)
qed code_simp

end
