(* ===== verification/Vit_Skeleton.thy ===== *)
theory Vit_Skeleton
  imports Iris_Program Hetero_Policy Hetero_Manifest
begin

text \<open>
  The application \<^verbatim>\<open>vit_dag_skeleton.c\<close>: it reads its arguments, creates one task for every row of the
  manifest, attaches the metadata and a kernel, declares the edges as dependencies, submits everything to
  the custom policy and waits for the last task. \<open>main\<close> is a program of host calls in the sense of
  \<^verbatim>\<open>Iris_Program\<close>; it runs on the runtime whose only custom policy is \<^verbatim>\<open>Hetero_Policy\<close>. What the runtime
  library decides (whether it starts, whether the policy's library loads, whether memory is left) is an
  argument of \<open>main\<close>.
\<close>

section \<open>The program\<close>

text \<open>The loop over the arguments; \<open>None\<close> is the usage message.\<close>

fun parse_args :: "string list \<Rightarrow> int \<Rightarrow> int option" where
  "parse_args [] objective = Some objective"
| "parse_args (a # as) objective =
     (if a = ''--throughput'' then parse_args as HETERO_OBJECTIVE_THROUGHPUT
      else if a = ''--latency'' then parse_args as HETERO_OBJECTIVE_LATENCY
      else None)"

text \<open>The command of \<open>iris_task_kernel\<close> for the task \<open>u\<close>: one work item, no parameters. Its kernel object is
  created just before and has the next uid.\<close>

definition noop_command :: "uid \<Rightarrow> string \<Rightarrow> Command" where
  "noop_command u name =
     fst (the (CreateKernel \<lparr>tr_uid = u, tr_ncmds = 0, tr_name = name\<rparr> (Kernel_new (Suc u) ''hetero_noop'') 1 None [1] None []))"

definition skeleton_task :: "int \<Rightarrow> int list \<Rightarrow> uid \<Rightarrow> HeteroTaskRecord \<Rightarrow> action list" where
  "skeleton_task objective junk u r =
     [ACreate None False junk, ASetName u (rec_name r), ASetMetadataAll u (take HETERO_META_COUNT (rec_metadata r)),
      ASetMetadata u HETERO_META_OBJECTIVE objective, ANewObject, AAddCommand u (noop_command u (rec_name r)) ''hetero_noop'']"

text \<open>The first loop, from the uid the runtime gave last: its calls and the handles in \<open>tasks\<close>.\<close>

fun skeleton_creates :: "int \<Rightarrow> (uid \<Rightarrow> int list) \<Rightarrow> uid \<Rightarrow> HeteroTaskRecord list \<Rightarrow> action list \<times> uid list" where
  "skeleton_creates objective junk uid [] = ([], [])"
| "skeleton_creates objective junk uid (r # rs) =
     (let u = Suc uid; (as, us) = skeleton_creates objective junk (Suc u) rs
      in (skeleton_task objective (junk u) u r @ as, u # us))"

definition dependency_count :: "nat \<Rightarrow> HeteroEdgeRecord list \<Rightarrow> nat list" where
  "dependency_count n edges = fold (\<lambda>(s, t) c. c[t := c ! t + 1]) edges (replicate n 0)"

text \<open>The body of the loop over the targets. The array has room for the counted dependencies; with another number
  of matching edges it would be overrun or passed on partly uninitialised.\<close>

definition skeleton_depend :: "nat \<Rightarrow> HeteroEdgeRecord list \<Rightarrow> uid list \<Rightarrow> nat \<Rightarrow> action list option" where
  "skeleton_depend n edges tasks target =
     (let count = dependency_count n edges ! target;
          dependencies = map (\<lambda>(s, t). tasks ! s) (filter (\<lambda>(s, t). t = target) edges)
      in if count = 0 then Some []
         else if length dependencies = count then Some [ADepend (tasks ! target) dependencies] else None)"

definition skeleton_program ::
  "HeteroTaskRecord list \<Rightarrow> HeteroEdgeRecord list \<Rightarrow> int \<Rightarrow> (uid \<Rightarrow> int list) \<Rightarrow> uid \<Rightarrow> action list option" where
  "skeleton_program rows edges objective junk uid =
     (let (creates, tasks) = skeleton_creates objective junk uid rows; n = length rows in
      do { depends \<leftarrow> those (map (skeleton_depend n edges tasks) [0..<n]);
           Some (creates @ concat depends @ map (\<lambda>u. ASubmit u iris_custom (Some ''hetero_eft'')) tasks @
             [AWaitBegin (tasks ! (n - 1))]) })"

text \<open>\<open>main\<close> up to the wait: an exit code, or the calls it makes.\<close>

definition skeleton_main ::
  "string list \<Rightarrow> int \<Rightarrow> int \<Rightarrow> bool \<Rightarrow> HeteroTaskRecord list \<Rightarrow> HeteroEdgeRecord list \<Rightarrow> (uid \<Rightarrow> int list) \<Rightarrow> uid \<Rightarrow>
    int + action list option" where
  "skeleton_main args init_error register_error allocated rows edges junk uid =
     (case parse_args args HETERO_OBJECTIVE_LATENCY of
        None \<Rightarrow> Inl 2
      | Some objective \<Rightarrow>
          if init_error \<noteq> IRIS_SUCCESS then Inl init_error
          else if register_error \<noteq> IRIS_SUCCESS then Inl register_error
          else if \<not> allocated then Inl 2
          else Inr (skeleton_program rows edges objective junk uid))"

section \<open>The calls are legal\<close>

definition handle :: "uid \<Rightarrow> nat \<Rightarrow> uid" where "handle uid i = Suc (uid + 2 * i)"

lemma handle_inj [simp]: "handle uid i = handle uid j \<longleftrightarrow> i = j" by (simp add: handle_def)
lemma handle_less [simp]: "handle uid i < handle uid j \<longleftrightarrow> i < j" by (simp add: handle_def)

lemma handles_Cons: "map (handle uid) [0..<Suc n] = Suc uid # map (handle (Suc (Suc uid))) [0..<n]"
  by (simp add: map_upt_Suc handle_def del: upt_Suc)

lemma snd_skeleton_creates: "snd (skeleton_creates objective junk uid rs) = map (handle uid) [0..<length rs]"
  by (induction rs arbitrary: uid) (simp_all add: case_prod_beta Let_def handles_Cons del: upt_Suc)

lemma handles_image: "handle uid ` {..<Suc n} = insert (Suc uid) (handle (Suc (Suc uid)) ` {..<n})"
  using arg_cong [OF handles_Cons [of uid n], of set] by (simp add: atLeast0LessThan del: upt_Suc)

lemma noop_command_type: "cmd_type (noop_command u name) = Some IRIS_CMD_KERNEL"
  by (simp add: noop_command_def CreateKernel_def kernel_ndrange_def Command_Create_def Command_Set_def Let_def
      split: option.splits)

text \<open>The first loop.\<close>

lemma fold_creates:
  "fold view_step (fst (skeleton_creates objective junk (hv_uid v) rs)) v =
   v\<lparr>hv_uid := hv_uid v + 2 * length rs, hv_created := hv_created v \<union> handle (hv_uid v) ` {..<length rs}\<rparr>"
proof (induction rs arbitrary: v)
  case (Cons r rs)
  let ?v = "v\<lparr>hv_uid := Suc (Suc (hv_uid v)), hv_created := insert (Suc (hv_uid v)) (hv_created v)\<rparr>"
  have "fold view_step (skeleton_task objective (junk (Suc (hv_uid v))) (Suc (hv_uid v)) r) v = ?v"
    by (simp add: skeleton_task_def)
  with Cons [of ?v] show ?case by (simp add: case_prod_beta Let_def handles_image)
qed simp

lemma ok_creates:
  assumes "hv_submitted v \<subseteq> {..hv_uid v}" "\<And>u. length (junk u) = 6"
  shows "program_ok allowed (fst (skeleton_creates objective junk (hv_uid v) rs)) v"
  using assms(1)
proof (induction rs arbitrary: v)
  case (Cons r rs)
  let ?v = "v\<lparr>hv_created := insert (Suc (hv_uid v)) (hv_created v), hv_uid := Suc (Suc (hv_uid v))\<rparr>"
  have "program_ok allowed (fst (skeleton_creates objective junk (hv_uid ?v) rs)) ?v"
    by (rule Cons.IH) (use Cons.prems in auto)
  moreover have "Suc (hv_uid v) \<notin> hv_submitted v" using Cons.prems by auto
  ultimately show ?case
    by (simp add: case_prod_beta Let_def program_ok_append skeleton_task_def assms(2) noop_command_type hetero_meta_defs)
qed simp

text \<open>The counts are those of the edges, so each array of dependencies is filled exactly.\<close>

lemma dependency_count_nth:
  assumes "edges_forward n edges" "target < n"
  shows "dependency_count n edges ! target = length (filter (\<lambda>(s, t). t = target) edges)"
proof -
  have f: "length c = n \<Longrightarrow> list_all (\<lambda>(s, t). t < n) es \<Longrightarrow>
      fold (\<lambda>(s, t) c. c[t := c ! t + 1]) es c ! target = c ! target + length (filter (\<lambda>(s, t). t = target) es)" for es c
    by (induction es arbitrary: c) (use assms(2) in \<open>auto simp: nth_list_update\<close>)
  have "list_all (\<lambda>(s, t). t < n) edges" using assms(1) by (auto simp: edges_forward_def list_all_iff)
  with f [of "replicate n 0" edges] show ?thesis using assms(2) by (simp add: dependency_count_def)
qed

definition depend_calls :: "HeteroEdgeRecord list \<Rightarrow> uid \<Rightarrow> nat \<Rightarrow> action list" where
  "depend_calls edges uid target =
     (if filter (\<lambda>(s, t). t = target) edges = [] then []
      else [ADepend (handle uid target) (map (\<lambda>(s, t). handle uid s) (filter (\<lambda>(s, t). t = target) edges))])"

lemma skeleton_depend_eq:
  assumes "edges_forward n edges" "target < n"
  shows "skeleton_depend n edges (map (handle uid) [0..<n]) target = Some (depend_calls edges uid target)"
proof -
  let ?f = "filter (\<lambda>(s, t). t = target) edges"
  have "map (\<lambda>(s, t). map (handle uid) [0..<n] ! s) ?f = map (\<lambda>(s, t). handle uid s) ?f"
    using assms by (auto simp: edges_forward_def list_all_iff)
  then show ?thesis using assms(2) dependency_count_nth [OF assms] by (simp add: skeleton_depend_def depend_calls_def Let_def)
qed

lemma those_map_Some: "(\<And>x. x \<in> set xs \<Longrightarrow> f x = Some (g x)) \<Longrightarrow> those (map f xs) = Some (map g xs)"
  by (induction xs) auto

lemma skeleton_program_eq:
  assumes "edges_forward (length rows) edges" "rows \<noteq> []"
  shows "skeleton_program rows edges objective junk uid =
    Some (fst (skeleton_creates objective junk uid rows) @ concat (map (depend_calls edges uid) [0..<length rows]) @
      map (\<lambda>i. ASubmit (handle uid i) iris_custom (Some ''hetero_eft'')) [0..<length rows] @
      [AWaitBegin (handle uid (length rows - 1))])"
proof -
  let ?n = "length rows"
  have "those (map (skeleton_depend ?n edges (map (handle uid) [0..<?n])) [0..<?n]) = Some (map (depend_calls edges uid) [0..<?n])"
    by (rule those_map_Some) (use skeleton_depend_eq [OF assms(1)] in auto)
  then show ?thesis using assms(2) by (simp add: skeleton_program_def case_prod_beta snd_skeleton_creates Let_def comp_def)
qed

lemma fold_depends:
  "fold view_step (concat (map (depend_calls edges uid) ts)) v =
   v\<lparr>hv_deps := \<lambda>u. hv_deps v u \<union> {handle uid s | s t. t \<in> set ts \<and> (s, t) \<in> set edges \<and> u = handle uid t}\<rparr>"
proof (induction ts arbitrary: v)
  case (Cons t ts)
  let ?D = "handle uid ` {s. (s, t) \<in> set edges}"
  let ?v = "v\<lparr>hv_deps := (hv_deps v)(handle uid t := hv_deps v (handle uid t) \<union> ?D)\<rparr>"
  have D: "set (map (\<lambda>(s, t). handle uid s) (filter (\<lambda>(s, t'). t' = t) edges)) = ?D" by (auto simp: image_iff split_beta)
  then have "?D = {}" if "filter (\<lambda>(s, t'). t' = t) edges = []" using that by simp
  with D have "fold view_step (depend_calls edges uid t) v = ?v" by (auto simp: depend_calls_def)
  then have "fold view_step (concat (map (depend_calls edges uid) (t # ts))) v = fold view_step (concat (map (depend_calls edges uid) ts)) ?v"
    by simp
  also have "\<dots> = v\<lparr>hv_deps := \<lambda>u. hv_deps ?v u \<union> {handle uid s | s t. t \<in> set ts \<and> (s, t) \<in> set edges \<and> u = handle uid t}\<rparr>"
    unfolding Cons by simp
  also have "(\<lambda>u. hv_deps ?v u \<union> {handle uid s | s t. t \<in> set ts \<and> (s, t) \<in> set edges \<and> u = handle uid t}) =
      (\<lambda>u. hv_deps v u \<union> {handle uid s | s t'. t' \<in> set (t # ts) \<and> (s, t') \<in> set edges \<and> u = handle uid t'})"
    by (auto simp: fun_eq_iff)
  finally show ?case .
qed simp

lemma ok_depends:
  assumes "edges_forward n edges" "set ts \<subseteq> {..<n}" "handle uid ` {..<n} \<subseteq> hv_created v - hv_submitted v"
  shows "program_ok allowed (concat (map (depend_calls edges uid) ts)) v"
  using assms(2,3)
proof (induction ts arbitrary: v)
  case (Cons t ts)
  have s: "s < n" if "(s, t) \<in> set edges" for s using assms(1) that by (force simp: edges_forward_def list_all_iff)
  let ?v = "fold view_step (depend_calls edges uid t) v"
  have "hv_created ?v = hv_created v \<and> hv_submitted ?v = hv_submitted v" by (simp add: depend_calls_def)
  then have "program_ok allowed (concat (map (depend_calls edges uid) ts)) ?v" using Cons by auto
  moreover have "program_ok allowed (depend_calls edges uid t) v" using Cons.prems s by (auto simp: depend_calls_def)
  ultimately show ?case by (simp add: program_ok_append)
qed simp

lemma fold_submits:
  "fold view_step (map (\<lambda>i. ASubmit (f i) p opt) is) v = v\<lparr>hv_submitted := hv_submitted v \<union> f ` set is\<rparr>"
  by (induction "is" arbitrary: v) auto

lemma ok_submits:
  assumes "distinct is" "inj_on f (set is)" "f ` set is \<subseteq> hv_created v - hv_submitted v" "allowed p" "p \<noteq> iris_pending"
  shows "program_ok allowed (map (\<lambda>i. ASubmit (f i) p opt) is) v"
  using assms(1-3)
proof (induction "is" arbitrary: v)
  case (Cons i "is")
  have "program_ok allowed (map (\<lambda>i. ASubmit (f i) p opt) is) (v\<lparr>hv_submitted := insert (f i) (hv_submitted v)\<rparr>)"
    by (rule Cons.IH) (use Cons.prems in \<open>auto simp: inj_on_def\<close>)
  with Cons.prems assms(4,5) show ?case by auto
qed simp

section \<open>The runtime it runs on\<close>

text \<open>The platform after \<open>iris_init\<close> and \<open>iris_register_policy\<close>: its custom policy is the one of the application.\<close>

definition hetero_env :: "sched_env \<Rightarrow> sched_env" where
  "hetero_env e = (no_affinity e)\<lparr>e_custom := \<lambda>name types supp t load. Some (PolicyHeteroEFT_GetDevices (Some skeleton_config) types supp t load)\<rparr>"

definition hetero_allowed :: "int \<Rightarrow> bool" where
  "hetero_allowed p \<longleftrightarrow> basic_policy p \<or> p = iris_custom"

lemma custom_GetPolicy: "GetPolicy customs iris_custom opt = (if customs opt then P_custom opt else P_sdq)"
  by (simp add: GetPolicy_def iris_policy_defs)

lemma hetero_answer:
  fixes m :: machine
  assumes "inv_static m"
  shows "\<exists>ds rr. Policy_GetDevices (hetero_env e) m (P_custom name) t = Some (ds, rr) \<and> set ds \<subseteq> {..<ndevs m} \<and> rr < ndevs m"
  using assms eft.pick_range [of "r_types m"]
  by (auto simp: Policy_GetDevices_def hetero_env_def ndevs_def inv_static_def Let_def)

interpretation hetero: placement "hetero_env e" hetero_allowed for e
proof
  fix m :: machine and t :: Task
  assume s: "inv_static m" and p: "hetero_allowed (t_brs_policy t)"
  have "0 \<le> t_brs_policy t" using p by (auto simp: hetero_allowed_def basic_policy_def iris_policy_defs)
  with s show "\<exists>ds rr. SubmitTask_devs (hetero_env e) m t = Some (ds, rr) \<and> set ds \<subseteq> {..<ndevs m} \<and> rr < ndevs m"
  proof (rule place_by_answer)
    show "\<exists>ds rr. Policy_GetDevices (hetero_env e) m (GetPolicy (r_customs m) (t_brs_policy t) (t_opt t)) t = Some (ds, rr) \<and>
        set ds \<subseteq> {..<ndevs m} \<and> rr < ndevs m"
      using p hetero_answer [OF s] basic_answer [OF s] basic_GetPolicy [of "t_brs_policy t" "r_customs m" "t_opt t"]
      by (auto simp: hetero_allowed_def custom_GetPolicy)
  qed (simp add: hetero_env_def no_affinity_def)
qed

text \<open>A platform on which no task was created yet.\<close>

definition no_tasks_yet :: "sched_env \<Rightarrow> machine \<Rightarrow> bool" where
  "no_tasks_yet e m \<longleftrightarrow> reachable (hetero_env e) hetero_allowed m \<and> m_created m = {}"

lemma no_tasks_view: "no_tasks_yet e m \<Longrightarrow> view m = \<lparr>hv_uid = r_uid m, hv_created = {}, hv_submitted = {}, hv_deps = \<lambda>_. {}\<rparr>"
  using invD(3) [OF hetero.reachable_inv [of e m]] by (auto simp: no_tasks_yet_def view_def inv_alive_def)

lemma skeleton_ok:
  assumes "no_tasks_yet e m" "edges_forward (length rows) edges" "rows \<noteq> []" "\<And>u. length (junk u) = 6"
    "skeleton_program rows edges objective junk (r_uid m) = Some p"
  shows "program_ok hetero_allowed p (view m)"
    "fold view_step p (view m) = \<lparr>hv_uid = r_uid m + 2 * length rows, hv_created = handle (r_uid m) ` {..<length rows},
       hv_submitted = handle (r_uid m) ` {..<length rows},
       hv_deps = \<lambda>u. {handle (r_uid m) s | s t. t < length rows \<and> (s, t) \<in> set edges \<and> u = handle (r_uid m) t}\<rparr>"
proof -
  let ?u = "r_uid m" and ?n = "length rows"
  let ?H = "handle ?u ` {..<?n}"
  let ?c = "fst (skeleton_creates objective junk ?u rows)" and ?d = "concat (map (depend_calls edges ?u) [0..<?n])"
    and ?s = "map (\<lambda>i. ASubmit (handle ?u i) iris_custom (Some ''hetero_eft'')) [0..<?n]"
  let ?v1 = "fold view_step ?c (view m)" and ?v2 = "fold view_step ?d (fold view_step ?c (view m))"
  have p: "p = ?c @ ?d @ ?s @ [AWaitBegin (handle ?u (?n - 1))]" using assms(5) skeleton_program_eq [OF assms(2,3)] by simp
  have v: "hv_uid (view m) = ?u" "hv_submitted (view m) = {}" "hv_created (view m) = {}" "hv_deps (view m) = (\<lambda>_. {})"
    using no_tasks_view [OF assms(1)] by simp_all
  have v1: "?v1 = (view m)\<lparr>hv_uid := ?u + 2 * ?n, hv_created := ?H\<rparr>"
    using fold_creates [of objective junk "view m" rows] v by simp
  have v2: "?v2 = \<lparr>hv_uid = ?u + 2 * ?n, hv_created = ?H, hv_submitted = {},
      hv_deps = \<lambda>u. {handle ?u s | s t. t < ?n \<and> (s, t) \<in> set edges \<and> u = handle ?u t}\<rparr>"
    unfolding fold_depends using no_tasks_view [OF assms(1)] by (simp add: v1 v)
  have "program_ok hetero_allowed ?c (view m)" using ok_creates [of "view m" junk] assms(4) v by simp
  moreover have "program_ok hetero_allowed ?d ?v1" by (rule ok_depends [OF assms(2)]) (auto simp: v1 v)
  moreover have "program_ok hetero_allowed ?s ?v2"
    unfolding v2 by (rule ok_submits) (auto simp: inj_on_def hetero_allowed_def iris_policy_defs)
  moreover have "handle ?u (?n - 1) \<in> handle ?u ` set [0..<?n]" using assms(3) by (intro imageI) auto
  ultimately show "program_ok hetero_allowed p (view m)" unfolding p by (simp add: program_ok_append fold_submits)
  show "fold view_step p (view m) = \<lparr>hv_uid = ?u + 2 * ?n, hv_created = ?H, hv_submitted = ?H,
       hv_deps = \<lambda>u. {handle ?u s | s t. t < ?n \<and> (s, t) \<in> set edges \<and> u = handle ?u t}\<rparr>"
    unfolding p by (simp add: fold_submits v2 atLeast0LessThan)
qed

lemma skeleton_main_eq:
  assumes "skeleton_main args init_error register_error allocated rows edges junk uid = Inr (Some p)"
  obtains objective where "skeleton_program rows edges objective junk uid = Some p"
  using assms by (auto simp: skeleton_main_def split: option.splits if_splits)

lemma manifest_forward: "edges_forward (length HETERO_TASKS) HETERO_EDGES" "HETERO_TASKS \<noteq> []"
  using HETERO_EDGES_forward by (auto simp: HETERO_TASKS_length HETERO_TASK_COUNT_def simp flip: length_0_conv)

lemma manifest_edge: "(s, t) \<in> set HETERO_EDGES \<Longrightarrow> s < t \<and> t < length HETERO_TASKS"
  using manifest_forward(1) by (auto simp: edges_forward_def list_all_iff)

lemma skeleton_view:
  assumes "no_tasks_yet e m" "\<And>u. length (junk u) = 6"
    "skeleton_main args init_error register_error allocated HETERO_TASKS HETERO_EDGES junk (r_uid m) = Inr (Some calls)"
  shows "fold view_step calls (view m) = \<lparr>hv_uid = r_uid m + 2 * length HETERO_TASKS,
      hv_created = handle (r_uid m) ` {..<length HETERO_TASKS}, hv_submitted = handle (r_uid m) ` {..<length HETERO_TASKS},
      hv_deps = \<lambda>u. {handle (r_uid m) s | s t. t < length HETERO_TASKS \<and> (s, t) \<in> set HETERO_EDGES \<and> u = handle (r_uid m) t}\<rparr>"
proof -
  obtain objective where "skeleton_program HETERO_TASKS HETERO_EDGES objective junk (r_uid m) = Some calls"
    by (rule skeleton_main_eq [OF assms(3)])
  from skeleton_ok(2) [OF assms(1) manifest_forward assms(2) this] show ?thesis .
qed

lemma vit_all_complete:
  assumes "no_tasks_yet e m" "\<And>u. length (junk u) = 6"
    "skeleton_main args init_error register_error allocated HETERO_TASKS HETERO_EDGES junk (r_uid m) = Inr (Some calls)"
    "host_run (hetero_env e) hetero_allowed m calls m1"
    "(thread_step (hetero_env e) hetero_allowed)\<^sup>*\<^sup>* m1 m2" "quiet hetero_allowed m2"
  shows "completed m2 = handle (r_uid m) ` {..<HETERO_TASK_COUNT}"
proof -
  note f = skeleton_view [OF assms(1-3)]
  have r: "reachable (hetero_env e) hetero_allowed m" using assms(1) by (simp add: no_tasks_yet_def)
  have "forward_deps (fold view_step calls (view m))"
    unfolding f by (auto simp: forward_deps_def dest: manifest_edge)
  from hetero.program_completes [OF r assms(4) this assms(5,6)] show ?thesis by (simp add: f HETERO_TASKS_length)
qed

section \<open>What the application does\<close>


text \<open>C28. When \<open>main\<close> has made its calls and the threads of the runtime have come to rest, all the tasks of the
  manifest are complete, and no others, and each of them started after the sources of all its edges had
  completed.\<close>

theorem vit_completes:
  assumes "no_tasks_yet e m" "\<And>u. length (junk u) = 6"
    "skeleton_main args IRIS_SUCCESS IRIS_SUCCESS True HETERO_TASKS HETERO_EDGES junk (r_uid m) = Inr (Some calls)"
    "host_run (hetero_env e) hetero_allowed m calls m1"
    "(thread_step (hetero_env e) hetero_allowed)\<^sup>*\<^sup>* m1 m2" "quiet hetero_allowed m2"
  shows "completed m2 = handle (r_uid m) ` {..<HETERO_TASK_COUNT} \<and>
    (\<forall>s t earlier later. (s, t) \<in> set HETERO_EDGES \<and> m_log m2 = earlier @ EStart (handle (r_uid m) t) # later \<longrightarrow>
      EComplete (handle (r_uid m) s) \<in> set earlier)"
proof -
  note f = skeleton_view [OF assms(1-3)]
  have r: "reachable (hetero_env e) hetero_allowed m" using assms(1) by (simp add: no_tasks_yet_def)
  have "EComplete (handle (r_uid m) s) \<in> set earlier"
    if "(s, t) \<in> set HETERO_EDGES" "m_log m2 = earlier @ EStart (handle (r_uid m) t) # later" for s t earlier later
    by (rule hetero.program_order [OF r assms(4,5) that(2)]) (use manifest_edge [OF that(1)] that(1) f in auto)
  with vit_all_complete [OF assms] show ?thesis by blast
qed

text \<open>The start of the example: one CPU, the policy registered.\<close>

definition vit_start :: machine where "vit_start = machine_init [iris_cpu] 0 (\<lambda>name. name = ''hetero_eft'')"

definition vit_junk :: "uid \<Rightarrow> int list" where "vit_junk u = replicate 6 (int u)"

lemma vit_start: "no_tasks_yet e vit_start" "r_uid vit_start = 1"
  by (auto simp: no_tasks_yet_def vit_start_def intro: reachable.init) (simp_all add: machine_init_def iris_uid_init_def)

lemma vit_runs_exist:
  "\<exists>calls m1 m2. skeleton_main [''--throughput''] IRIS_SUCCESS IRIS_SUCCESS True HETERO_TASKS HETERO_EDGES vit_junk 1 = Inr (Some calls) \<and>
     host_run (hetero_env e) hetero_allowed vit_start calls m1 \<and>
     (thread_step (hetero_env e) hetero_allowed)\<^sup>*\<^sup>* m1 m2 \<and> quiet hetero_allowed m2"
proof -
  have j: "length (vit_junk u) = 6" for u by (simp add: vit_junk_def)
  obtain calls where c: "skeleton_program HETERO_TASKS HETERO_EDGES HETERO_OBJECTIVE_THROUGHPUT vit_junk 1 = Some calls"
    using skeleton_program_eq [OF manifest_forward] by simp
  then have main: "skeleton_main [''--throughput''] IRIS_SUCCESS IRIS_SUCCESS True HETERO_TASKS HETERO_EDGES vit_junk 1 = Inr (Some calls)"
    by (simp add: skeleton_main_def)
  have r: "reachable (hetero_env e) hetero_allowed vit_start" using vit_start(1) by (auto simp: no_tasks_yet_def)
  have "program_ok hetero_allowed calls (view vit_start)"
    using skeleton_ok(1) [OF vit_start(1) manifest_forward j] c by (simp add: vit_start(2))
  from hetero.program_runs [OF r this] obtain m1 where h: "host_run (hetero_env e) hetero_allowed vit_start calls m1" by blast
  with hetero.host_run_view [OF h r] hetero.threads_reach_quiet [of e m1] main show ?thesis by blast
qed


theorem vit_completes_witness:
  "\<exists>calls m1 m2. skeleton_main [''--throughput''] IRIS_SUCCESS IRIS_SUCCESS True HETERO_TASKS HETERO_EDGES vit_junk 1 = Inr (Some calls) \<and>
     host_run (hetero_env demo_env) hetero_allowed vit_start calls m1 \<and>
     (thread_step (hetero_env demo_env) hetero_allowed)\<^sup>*\<^sup>* m1 m2 \<and> completed m2 = handle 1 ` {..<101}"
proof -
  obtain calls m1 m2 where c: "skeleton_main [''--throughput''] IRIS_SUCCESS IRIS_SUCCESS True HETERO_TASKS HETERO_EDGES vit_junk 1 = Inr (Some calls)"
    and h: "host_run (hetero_env demo_env) hetero_allowed vit_start calls m1"
    "(thread_step (hetero_env demo_env) hetero_allowed)\<^sup>*\<^sup>* m1 m2" "quiet hetero_allowed m2"
    using vit_runs_exist [of demo_env] by blast
  have "completed m2 = handle 1 ` {..<101}"
    using vit_completes [OF vit_start(1) _ _ h, of vit_junk "[''--throughput'']"] c
    by (simp add: vit_start(2) vit_junk_def HETERO_TASK_COUNT_def)
  with c h show ?thesis by blast
qed

text \<open>The one \<open>iris_task_wait\<close> on the last task waits for all of them: once the last task is complete, in whatever
  state the threads are, every task of the manifest is.\<close>

theorem vit_wait_all:
  assumes "no_tasks_yet e m" "\<And>u. length (junk u) = 6"
    "skeleton_main args IRIS_SUCCESS IRIS_SUCCESS True HETERO_TASKS HETERO_EDGES junk (r_uid m) = Inr (Some calls)"
    "host_run (hetero_env e) hetero_allowed m calls m1"
    "(thread_step (hetero_env e) hetero_allowed)\<^sup>*\<^sup>* m1 m2" "handle (r_uid m) (HETERO_TASK_COUNT - 1) \<in> completed m2"
  shows "completed m2 = handle (r_uid m) ` {..<HETERO_TASK_COUNT}"
proof -
  note f = skeleton_view [OF assms(1-3)]
  have r: "reachable (hetero_env e) hetero_allowed m" using assms(1) by (simp add: no_tasks_yet_def)
  note h = hetero.host_threads_view [OF r assms(4,5)]
  have d: "m_deps m2 (handle (r_uid m) t) = handle (r_uid m) ` {s. (s, t) \<in> set HETERO_EDGES}" for t
    using conjunct2 [OF h] manifest_edge unfolding f by (force simp: view_def)
  have "handle (r_uid m) (HETERO_TASK_COUNT - 1 - k) \<in> completed m2" for k
  proof (induction k)
    case (Suc k)
    show ?case
    proof (cases "HETERO_TASK_COUNT - 1 - k")
      case (Suc i)
      with edges_chain_edge [OF HETERO_EDGES_chain, of i] have "(i, Suc i) \<in> set HETERO_EDGES" by simp
      then have "handle (r_uid m) i \<in> completed m2"
        using hetero.completed_deps [OF conjunct1 [OF h] Suc.IH, of "handle (r_uid m) i"] Suc by (simp add: d)
      moreover have "HETERO_TASK_COUNT - 1 - Suc k = i" using Suc by simp
      ultimately show ?thesis by (simp only:)
    qed (use Suc.IH in simp)
  qed (use assms(6) in simp)
  note down = this
  have "handle (r_uid m) i \<in> completed m2" if "i < HETERO_TASK_COUNT" for i
  proof -
    have "HETERO_TASK_COUNT - 1 - (HETERO_TASK_COUNT - 1 - i) = i" using that by simp
    with down [of "HETERO_TASK_COUNT - 1 - i"] show ?thesis by (simp only:)
  qed
  moreover have "completed m2 \<subseteq> hv_submitted (view m2)"
    using invD(3) [OF hetero.reachable_inv [OF conjunct1 [OF h]]] by (simp add: inv_alive_def view_def)
  then have "completed m2 \<subseteq> handle (r_uid m) ` {..<HETERO_TASK_COUNT}"
    unfolding conjunct2 [OF h] f by (simp add: HETERO_TASKS_length)
  ultimately show ?thesis by auto
qed

theorem vit_wait_all_witness:
  "\<exists>calls m1 m2. skeleton_main [''--throughput''] IRIS_SUCCESS IRIS_SUCCESS True HETERO_TASKS HETERO_EDGES vit_junk 1 = Inr (Some calls) \<and>
     host_run (hetero_env demo_env) hetero_allowed vit_start calls m1 \<and>
     (thread_step (hetero_env demo_env) hetero_allowed)\<^sup>*\<^sup>* m1 m2 \<and> handle 1 100 \<in> completed m2 \<and> completed m2 = handle 1 ` {..<101}"
proof -
  obtain calls m1 m2 where c: "skeleton_main [''--throughput''] IRIS_SUCCESS IRIS_SUCCESS True HETERO_TASKS HETERO_EDGES vit_junk 1 = Inr (Some calls)"
    and h: "host_run (hetero_env demo_env) hetero_allowed vit_start calls m1"
    "(thread_step (hetero_env demo_env) hetero_allowed)\<^sup>*\<^sup>* m1 m2" "quiet hetero_allowed m2"
    using vit_runs_exist [of demo_env] by blast
  have "handle 1 100 \<in> completed m2"
    using vit_all_complete [OF vit_start(1) _ _ h, of vit_junk "[''--throughput'']"] c
    by (simp add: vit_start(2) vit_junk_def HETERO_TASK_COUNT_def)
  moreover from this have "completed m2 = handle 1 ` {..<101}"
    using vit_wait_all [OF vit_start(1) _ _ h(1,2), of vit_junk "[''--throughput'']"] c
    by (simp add: vit_start(2) vit_junk_def HETERO_TASK_COUNT_def)
  ultimately show ?thesis using c h by blast
qed

text \<open>A task of the application when the scheduler gets it: built by the calls of the first loop and
  submitted to the policy.\<close>

definition submitted_task :: "int \<Rightarrow> int list \<Rightarrow> uid \<Rightarrow> HeteroTaskRecord \<Rightarrow> Task option" where
  "submitted_task objective junk u r =
     do { t \<leftarrow> set_metadata_all (take HETERO_META_COUNT (rec_metadata r)) HETERO_META_COUNT
            (set_name (rec_name r) (Task_new flags_default u IRIS_TASK None junk));
          t \<leftarrow> set_metadata HETERO_META_OBJECTIVE objective t;
          Some (set_opt (Some ''hetero_eft'') (AddCommand (noop_command u (rec_name r)) ''hetero_noop'' t)\<lparr>t_brs_policy := iris_custom\<rparr>) }"

lemma submitted_task_eq:
  assumes "length (rec_metadata r) = HETERO_META_COUNT" "length junk = 6"
  shows "\<exists>t. submitted_task objective junk u r = Some t \<and> meta_wf t \<and> n_metadata t = int HETERO_META_COUNT \<and>
    t_brs_policy t = iris_custom \<and> t_opt t = ''hetero_eft'' \<and> t_cmds t = [noop_command u (rec_name r)]"
proof -
  let ?t = "set_name (rec_name r) (Task_new flags_default u IRIS_TASK None junk)"
  have "write_cells 0 (rec_metadata r) (t_meta_block ?t) = Some (rec_metadata r @ drop 9 (t_meta_block ?t))"
    using assms by (subst write_cells_self) (auto simp: set_name_def meta_defs hetero_meta_defs)
  then show ?thesis using assms
    by (auto simp: submitted_task_def set_metadata_all_def set_metadata_def store_def meta_defs hetero_meta_defs
        set_opt_def AddCommand_def set_name_def meta_wf_def n_metadata_def Let_def)
qed

lemma submitted_task_internal: "submitted_task objective junk u r = Some t \<Longrightarrow> \<not> t_internal_memory_transfer t"
  by (auto simp: submitted_task_def set_metadata_all_def set_metadata_def set_opt_def AddCommand_def set_name_def Let_def
      split: bind_splits if_splits)

text \<open>None of this reaches the FPGA or the GPU by choice: the policy names no device for a task of the application,
  whatever its row plans, because the placement it reads is the number of entries. The scheduler then
  takes the default device without an error, and no other worker's queue changes.\<close>

theorem vit_placement_lost:
  assumes "length (rec_metadata r) = HETERO_META_COUNT" "length junk = 6" "r_customs m ''hetero_eft''"
    "submitted_task objective junk u r = Some t" "GetObject (r_tasks m) u = Some t" "Dispatchable (r_tasks m) t" "SubmitTask (hetero_env e) u m = Some m'"
  shows "SubmitTask_devs (hetero_env e) m t = Some ([], r_rr_index m) \<and> r_nfailures m' = r_nfailures m \<and>
    (\<forall>d. d \<noteq> r_device_default m \<longrightarrow> r_ready m' d = r_ready m d) \<and>
    u \<in># QueueReady_content (r_ready m' (r_device_default m))"
proof -
  have t: "meta_wf t" "n_metadata t = int HETERO_META_COUNT" "t_brs_policy t = iris_custom" "t_opt t = ''hetero_eft''"
    using submitted_task_eq [OF assms(1,2), of objective u] assms(4) by auto
  have "GetPolicy (r_customs m) (t_brs_policy t) (t_opt t) = P_custom ''hetero_eft''" "\<not> t_brs_policy t < IRIS_MAX_NDEVS"
    using t(3,4) assms(3) by (simp_all add: custom_GetPolicy) (simp add: iris_policy_defs IRIS_MAX_NDEVS_def)
  then have "SubmitTask_devs (hetero_env e) m t = Some ([], r_rr_index m)"
    using eft_counts_as_placement [OF t(1)] t(2)
    by (simp add: SubmitTask_devs_def Policy_GetDevices_def hetero_env_def no_affinity_def affinity_none Let_def)
  moreover have "\<not> t_internal_memory_transfer t"
    using assms(4) submitted_task_internal by blast
  ultimately show ?thesis using assms(5-7)
    by (auto simp: SubmitTask_def Worker_Enqueue_def rt_at_def at_object_def Invoke_def iris_simps Retain_def
        QueueReady_content_def QueueReady_Enqueue_def split: bind_splits if_splits)
qed

text \<open>A feed-forward task planned for the FPGA, on a platform with a CPU, a GPU and an FPGA that support it.\<close>

definition ffn_row :: HeteroTaskRecord where
  "ffn_row = HeteroTask ''block_00_ffn_island'' [121, 38, 302592, 302592, 1, 0, 1, 0, 2]"

definition ffn_start :: machine where
  "ffn_start = (machine_init [iris_cpu, iris_nvidia, iris_fpga] 0 (\<lambda>name. name = ''hetero_eft''))
     \<lparr>r_tasks := TrackObject ObjectTrack_new (the (submitted_task 0 (replicate 6 0) 2 ffn_row)) 2\<rparr>"

theorem vit_placement_lost_witness:
  "\<exists>t m'. submitted_task 0 (replicate 6 0) 2 ffn_row = Some t \<and> SubmitTask (hetero_env demo_env) 2 ffn_start = Some m' \<and>
     2 \<in># QueueReady_content (r_ready m' 0) \<and> r_ready m' 2 = r_ready ffn_start 2"
proof -
  have r: "length (rec_metadata ffn_row) = HETERO_META_COUNT" by (simp add: ffn_row_def HeteroTask_def hetero_meta_defs)
  obtain t where t: "submitted_task 0 (replicate 6 0) 2 ffn_row = Some t" using submitted_task_eq [OF r] by force
  have c: "r_customs ffn_start ''hetero_eft''" "r_device_default ffn_start = 0"
    by (simp_all add: ffn_start_def machine_init_def)
  have o: "GetObject (r_tasks ffn_start) 2 = Some t" by (simp add: ffn_start_def t iris_simps)
  have "map_option (\<lambda>_. ()) (SubmitTask (hetero_env demo_env) 2 ffn_start) = Some ()"
    "Dispatchable (r_tasks ffn_start) (the (submitted_task 0 (replicate 6 0) 2 ffn_row))" by code_simp+
  then obtain m' where s: "SubmitTask (hetero_env demo_env) 2 ffn_start = Some m'" and d: "Dispatchable (r_tasks ffn_start) t"
    by (auto simp: t)
  from vit_placement_lost [OF r _ c(1) t o d s] t s show ?thesis by (simp add: c)
qed

end
