(* ===== verification/Iris_DataMem.thy ===== *)
theory Iris_DataMem
  imports Iris_Defs
begin

text \<open>
  Data memory objects, \<^verbatim>\<open>DataMem.h\<close> and \<^verbatim>\<open>DataMem.cpp\<close>, and the transfers of \<^verbatim>\<open>Device.cpp\<close> that keep
  their copies up to date. An object has a copy in host memory and one on each device, and a flag for each
  copy that says that it is out of date. The content of a copy is a value of type \<open>'v\<close>, the whole object;
  the drivers' \<open>MemD2D\<close>, \<open>MemH2D\<close> and \<open>MemD2H\<close> copy it. Devices work synchronously, without memory shared with
  the host (\<open>is_usm\<close> is false), an object is not a view of another one (\<open>source_mem_\<close> is \<open>NULL\<close>) and has neither
  regions nor children. The invariant \<open>coherent\<close> says that all copies not flagged hold the object's current value.
\<close>

section \<open>Objects\<close>

record 'v DataMem =
  dm_host_ptr :: "'v option"
  dm_host_ptr_owner :: bool
  dm_host_dirty_flag :: bool
  dm_dirty_flag :: "bool list"
  dm_archs :: "'v option list"
  dm_reset :: bool
  dm_enable_reset :: bool
  dm_host_reset :: bool

text \<open>The platform as a transfer sees it: the types of the devices, which of them are OpenCL devices, between which
  a direct copy is possible, and whether direct copies are switched off; what a reset writes, and what new
  memory contains; whether the host knows how to write a reset value (\<open>memset\<close>, or a known element type).\<close>

record 'v xfer_env =
  x_types :: "int list"
  x_opencl :: "devno \<Rightarrow> bool"
  x_d2d :: "devno \<Rightarrow> devno \<Rightarrow> bool"
  x_d2d_disabled :: bool
  x_reset :: 'v
  x_junk :: 'v
  x_host_fill :: bool

definition DataMem_Init :: "nat \<Rightarrow> 'v option \<Rightarrow> 'v DataMem" where
  "DataMem_Init n host =
     \<lparr>dm_host_ptr = host, dm_host_ptr_owner = False, dm_host_dirty_flag = (host = None), dm_dirty_flag = replicate n True,
      dm_archs = replicate n None, dm_reset = False, dm_enable_reset = False, dm_host_reset = False\<rparr>"

definition is_reset :: "'v DataMem \<Rightarrow> bool" where "is_reset m \<longleftrightarrow> dm_reset m \<and> dm_enable_reset m"
definition disable_reset :: "'v DataMem \<Rightarrow> 'v DataMem" where "disable_reset m = m\<lparr>dm_enable_reset := False\<rparr>"
definition is_host_dirty :: "'v DataMem \<Rightarrow> bool" where "is_host_dirty m = dm_host_dirty_flag m"
definition clear_host_dirty :: "'v DataMem \<Rightarrow> 'v DataMem" where "clear_host_dirty m = m\<lparr>dm_host_dirty_flag := False\<rparr>"
definition set_host_dirty :: "bool \<Rightarrow> 'v DataMem \<Rightarrow> 'v DataMem" where "set_host_dirty f m = m\<lparr>dm_host_dirty_flag := f\<rparr>"
definition is_dev_dirty :: "devno \<Rightarrow> 'v DataMem \<Rightarrow> bool" where "is_dev_dirty d m = dm_dirty_flag m ! d"
definition clear_dev_dirty :: "devno \<Rightarrow> 'v DataMem \<Rightarrow> 'v DataMem" where
  "clear_dev_dirty d m = m\<lparr>dm_dirty_flag := (dm_dirty_flag m)[d := False]\<rparr>"

definition set_dirty_except :: "devno \<Rightarrow> 'v DataMem \<Rightarrow> 'v DataMem" where
  "set_dirty_except d m = m\<lparr>dm_dirty_flag := (replicate (length (dm_dirty_flag m)) True)[d := False]\<rparr>"

definition set_dirty_all :: "bool \<Rightarrow> 'v DataMem \<Rightarrow> 'v DataMem" where
  "set_dirty_all f m = m\<lparr>dm_dirty_flag := replicate (length (dm_dirty_flag m)) f\<rparr>"

definition is_dirty_all :: "'v DataMem \<Rightarrow> bool" where "is_dirty_all m = fold (\<and>) (dm_dirty_flag m) True"

definition get_non_dirty_devices :: "'v DataMem \<Rightarrow> devno list" where
  "get_non_dirty_devices m = filter (\<lambda>i. \<not> dm_dirty_flag m ! i) [0..<length (dm_dirty_flag m)]"

definition get_dev_affinity :: "'v DataMem \<Rightarrow> int" where
  "get_dev_affinity m = (case find_index Not (dm_dirty_flag m) of None \<Rightarrow> -1 | Some i \<Rightarrow> int i)"

definition UpdateHost :: "'v option \<Rightarrow> 'v DataMem \<Rightarrow> 'v DataMem" where
  "UpdateHost host m = set_dirty_all True
     (m\<lparr>dm_host_ptr := host, dm_host_ptr_owner := False, dm_host_dirty_flag := False, dm_host_reset := False,
        dm_enable_reset := False\<rparr>)"

definition RefreshHost :: "'v DataMem \<Rightarrow> 'v DataMem" where
  "RefreshHost m = set_dirty_all True (m\<lparr>dm_host_dirty_flag := False\<rparr>)"

definition init_reset :: "bool \<Rightarrow> 'v DataMem \<Rightarrow> 'v DataMem" where
  "init_reset r m = set_dirty_all (\<not> r) (m\<lparr>dm_reset := r, dm_enable_reset := r, dm_host_dirty_flag := r\<rparr>)"

definition DataMem_clear :: "'v DataMem \<Rightarrow> 'v DataMem" where
  "DataMem_clear m = set_dirty_all True
     (m\<lparr>dm_host_dirty_flag := False, dm_archs := replicate (length (dm_archs m)) None, dm_enable_reset := dm_reset m\<rparr>)"

definition host_memory :: "'v xfer_env \<Rightarrow> 'v DataMem \<Rightarrow> 'v DataMem" where
  "host_memory e m =
     (if dm_host_ptr m \<noteq> None then m
      else let m = m\<lparr>dm_host_ptr := Some (x_junk e), dm_host_ptr_owner := True, dm_host_dirty_flag := True\<rparr>
           in if is_reset m \<and> x_host_fill e
              then m\<lparr>dm_host_ptr := Some (x_reset e), dm_host_dirty_flag := False, dm_host_reset := True\<rparr> else m)"

definition create_dev_mem :: "'v xfer_env \<Rightarrow> devno \<Rightarrow> 'v DataMem \<Rightarrow> 'v DataMem" where
  "create_dev_mem e d m =
     (if is_reset m
      then m\<lparr>dm_archs := (dm_archs m)[d := Some (x_reset e)], dm_dirty_flag := (dm_dirty_flag m)[d := False],
             dm_host_dirty_flag := (if \<not> dm_host_reset m then True else dm_host_dirty_flag m)\<rparr>
      else m\<lparr>dm_archs := (dm_archs m)[d := Some (x_junk e)]\<rparr>)"

definition arch :: "'v xfer_env \<Rightarrow> devno \<Rightarrow> 'v DataMem \<Rightarrow> 'v DataMem" where
  "arch e d m = (if dm_archs m ! d = None then create_dev_mem e d m else m)"

text \<open>\<open>FetchDataFromDevice\<close>: what it writes to the given address, if it writes anything.\<close>

definition FetchDataFromDevice :: "'v DataMem \<Rightarrow> 'v option" where
  "FetchDataFromDevice m =
     (if \<not> dm_host_dirty_flag m \<and> dm_host_ptr m \<noteq> None then dm_host_ptr m
      else case find (\<lambda>i. dm_archs m ! i \<noteq> None \<and> \<not> dm_dirty_flag m ! i) [0..<length (dm_archs m)] of
             None \<Rightarrow> None | Some i \<Rightarrow> dm_archs m ! i)"

section \<open>Transfers\<close>

text \<open>The loop of \<open>GetPossibleDevices\<close>.\<close>

fun possible_scan :: "'v xfer_env \<Rightarrow> devno \<Rightarrow> devno list \<Rightarrow> devno option \<times> devno option \<times> devno option \<Rightarrow>
    devno option \<times> devno option \<times> devno option" where
  "possible_scan e d [] acc = acc"
| "possible_scan e d (t # ts) (d2d_dev, cpu_dev, non_cpu_dev) =
     possible_scan e d ts
       (if d2d_dev = None \<and> x_types e ! d = x_types e ! t \<and> x_d2d e d t then Some t else d2d_dev,
        if cpu_dev = None \<and> x_types e ! d \<noteq> iris_cpu \<and> x_types e ! t = iris_cpu then Some t else cpu_dev,
        if non_cpu_dev = None \<and> x_types e ! d = iris_cpu \<and> x_types e ! t \<noteq> iris_cpu then Some t else non_cpu_dev)"

definition GetPossibleDevices :: "'v xfer_env \<Rightarrow> devno \<Rightarrow> devno list \<Rightarrow> devno option \<times> devno option \<times> devno option" where
  "GetPossibleDevices e d nddevs = possible_scan e d nddevs (None, None, None)"

datatype transfer = D2D devno | O2D devno | D2O devno | H2D | D2H_H2D devno | NoData

text \<open>The source of the last branch: the last valid device of the same type, or the first valid one.\<close>

definition select_src_dev :: "'v xfer_env \<Rightarrow> devno \<Rightarrow> devno list \<Rightarrow> devno option" where
  "select_src_dev e d nddevs =
     (case nddevs of [] \<Rightarrow> None | s # ts \<Rightarrow> Some (fold (\<lambda>t s. if x_types e ! d = x_types e ! t then t else s) ts s))"

text \<open>Which branch of \<open>InvokeDMemInDataTransfer\<close> is taken.\<close>

definition transfer_of :: "'v xfer_env \<Rightarrow> devno \<Rightarrow> 'v DataMem \<Rightarrow> transfer" where
  "transfer_of e d src_mem =
     (let nddevs = get_non_dirty_devices src_mem; (d2d_dev, cpu_dev, non_cpu_dev) = GetPossibleDevices e d nddevs in
      if \<not> x_d2d_disabled e \<and> d2d_dev \<noteq> None then D2D (the d2d_dev)
      else if \<not> x_d2d_disabled e \<and> cpu_dev \<noteq> None \<and> \<not> x_opencl e (the cpu_dev) then O2D (the cpu_dev)
      else if \<not> x_d2d_disabled e \<and> \<not> x_opencl e d \<and> x_types e ! d = iris_cpu \<and> non_cpu_dev \<noteq> None then D2O (the non_cpu_dev)
      else if \<not> is_host_dirty src_mem then H2D
      else case select_src_dev e d nddevs of None \<Rightarrow> NoData | Some s \<Rightarrow> D2H_H2D s)"

text \<open>A host address a command carries: none, the object's own, or another one with its content.\<close>

datatype 'v host_arg = NoHost | OwnHost | OtherHost 'v

definition from_device :: "'v xfer_env \<Rightarrow> devno \<Rightarrow> devno \<Rightarrow> 'v DataMem \<Rightarrow> 'v DataMem" where
  "from_device e s d m =
     (let m = arch e s m; m = arch e d m in m\<lparr>dm_archs := (dm_archs m)[d := dm_archs m ! s]\<rparr>)"

definition from_host :: "'v xfer_env \<Rightarrow> 'v host_arg \<Rightarrow> devno \<Rightarrow> 'v DataMem \<Rightarrow> 'v DataMem" where
  "from_host e cmd_host d m =
     (let m = host_memory e m;
          v = (case cmd_host of OtherHost v \<Rightarrow> Some v | _ \<Rightarrow> dm_host_ptr m);
          m = arch e d m;
          m = m\<lparr>dm_archs := (dm_archs m)[d := v]\<rparr>
      in case cmd_host of OtherHost _ \<Rightarrow> set_host_dirty True m | _ \<Rightarrow> m)"

definition via_host :: "'v xfer_env \<Rightarrow> devno \<Rightarrow> devno \<Rightarrow> 'v DataMem \<Rightarrow> 'v DataMem" where
  "via_host e s d m =
     (let m = host_memory e m;
          m = arch e s m;
          m = m\<lparr>dm_host_ptr := dm_archs m ! s\<rparr>;
          m = arch e d m;
          m = m\<lparr>dm_archs := (dm_archs m)[d := dm_host_ptr m]\<rparr>
      in clear_host_dirty m)"

definition InvokeDMemInDataTransfer :: "'v xfer_env \<Rightarrow> 'v host_arg \<Rightarrow> devno \<Rightarrow> 'v DataMem \<Rightarrow> 'v DataMem" where
  "InvokeDMemInDataTransfer e cmd_host d m =
     (let m = (case cmd_host of OtherHost _ \<Rightarrow> set_host_dirty False (set_dirty_all True m) | _ \<Rightarrow> m);
          m = (case transfer_of e d m of
                 D2D s \<Rightarrow> from_device e s d m | O2D s \<Rightarrow> from_device e s d m | D2O s \<Rightarrow> from_device e s d m
               | H2D \<Rightarrow> from_host e cmd_host d m | D2H_H2D s \<Rightarrow> via_host e s d m | NoData \<Rightarrow> m)
      in clear_dev_dirty d m)"

definition ExecuteMemInDMemIn :: "'v xfer_env \<Rightarrow> 'v host_arg \<Rightarrow> devno \<Rightarrow> 'v DataMem \<Rightarrow> 'v DataMem" where
  "ExecuteMemInDMemIn e cmd_host d m = (if is_dev_dirty d m then InvokeDMemInDataTransfer e cmd_host d m else m)"

definition ExecuteMemInDMemRegionIn :: "'v xfer_env \<Rightarrow> 'v host_arg \<Rightarrow> devno \<Rightarrow> 'v DataMem \<Rightarrow> 'v DataMem" where
  "ExecuteMemInDMemRegionIn e cmd_host d m = (if is_dev_dirty d m then InvokeDMemInDataTransfer e cmd_host d m else m)"

text \<open>\<open>ExecuteDMEM2DMEM\<close>: the same transfer with another object as its source, \<open>src_mem\<close>; all copies of the target are
  declared out of date first. The result is the source and the target.\<close>

definition copy_device :: "'v xfer_env \<Rightarrow> devno \<Rightarrow> devno \<Rightarrow> 'v DataMem \<Rightarrow> 'v DataMem \<Rightarrow> 'v DataMem \<times> 'v DataMem" where
  "copy_device e s d src m =
     (let src = arch e s src; m = arch e d m in (src, m\<lparr>dm_archs := (dm_archs m)[d := dm_archs src ! s]\<rparr>))"

definition copy_host :: "'v xfer_env \<Rightarrow> devno \<Rightarrow> 'v DataMem \<Rightarrow> 'v DataMem \<Rightarrow> 'v DataMem \<times> 'v DataMem" where
  "copy_host e d src m =
     (let src = host_memory e src; m = arch e d m in (src, m\<lparr>dm_archs := (dm_archs m)[d := dm_host_ptr src]\<rparr>))"

definition copy_via_host :: "'v xfer_env \<Rightarrow> devno \<Rightarrow> devno \<Rightarrow> 'v DataMem \<Rightarrow> 'v DataMem \<Rightarrow> 'v DataMem \<times> 'v DataMem" where
  "copy_via_host e s d src m =
     (let m = host_memory e m;
          src = arch e s src;
          m = m\<lparr>dm_host_ptr := dm_archs src ! s\<rparr>;
          m = arch e d m;
          m = m\<lparr>dm_archs := (dm_archs m)[d := dm_host_ptr m]\<rparr>
      in (src, clear_host_dirty m))"

definition ExecuteDMEM2DMEM :: "'v xfer_env \<Rightarrow> devno \<Rightarrow> 'v DataMem \<Rightarrow> 'v DataMem \<Rightarrow> 'v DataMem \<times> 'v DataMem" where
  "ExecuteDMEM2DMEM e d src m =
     (let m = set_dirty_all True (set_host_dirty True m);
          (src, m) = (case transfer_of e d src of
             D2D s \<Rightarrow> copy_device e s d src m | O2D s \<Rightarrow> copy_device e s d src m | D2O s \<Rightarrow> copy_device e s d src m
           | H2D \<Rightarrow> copy_host e d src m | D2H_H2D s \<Rightarrow> copy_via_host e s d src m | NoData \<Rightarrow> (src, m))
      in (src, clear_dev_dirty d m))"

text \<open>What \<open>ExecuteMemOut\<close> does to each object the kernel wrote.\<close>

definition mem_out :: "devno \<Rightarrow> 'v DataMem \<Rightarrow> 'v DataMem" where
  "mem_out d m = disable_reset (set_host_dirty True (set_dirty_except d m))"

text \<open>\<open>ExecuteMemFlushOut\<close>: the object and what is written to another address; with no valid copy on any device the
  code follows a device that does not exist.\<close>

definition ExecuteMemFlushOut :: "'v xfer_env \<Rightarrow> 'v host_arg \<Rightarrow> devno \<Rightarrow> 'v DataMem \<Rightarrow> ('v DataMem \<times> 'v option) option" where
  "ExecuteMemFlushOut e cmd_host d m =
     (if \<not> is_host_dirty m then Some (m, None)
      else let m = host_memory e m in
        case (if is_dev_dirty d m then cell (get_non_dirty_devices m) 0 else Some d) of
          None \<Rightarrow> None
        | Some s \<Rightarrow>
            let m = arch e s m; v = dm_archs m ! s in
            (case cmd_host of
               NoHost \<Rightarrow> Some (clear_host_dirty (m\<lparr>dm_host_ptr := v\<rparr>), None)
             | OwnHost \<Rightarrow> Some (m\<lparr>dm_host_ptr := v\<rparr>, None)
             | OtherHost _ \<Rightarrow> Some (m, v)))"

text \<open>\<open>ExecuteMemResetInput\<close> writes the reset value \<open>v\<close> of the command on the device.\<close>

definition ExecuteMemResetInput :: "'v xfer_env \<Rightarrow> 'v \<Rightarrow> devno \<Rightarrow> 'v DataMem \<Rightarrow> 'v DataMem" where
  "ExecuteMemResetInput e v d m =
     (let m = arch e d m; m = m\<lparr>dm_archs := (dm_archs m)[d := Some v]\<rparr> in set_dirty_except d (set_host_dirty True m))"

lemmas dm_flag_defs = is_host_dirty_def clear_host_dirty_def set_host_dirty_def is_dev_dirty_def clear_dev_dirty_def
  set_dirty_except_def set_dirty_all_def disable_reset_def

section \<open>Coherence\<close>

text \<open>Every copy that is not flagged holds the current value; a device whose memory is not allocated yet may count as
  valid while a reset is pending, since the allocation writes the reset value.\<close>

definition coherent :: "'v xfer_env \<Rightarrow> 'v \<Rightarrow> 'v DataMem \<Rightarrow> bool" where
  "coherent e cur m \<longleftrightarrow> length (dm_dirty_flag m) = length (x_types e) \<and> length (dm_archs m) = length (x_types e) \<and>
     (\<not> dm_host_dirty_flag m \<longrightarrow> dm_host_ptr m = Some cur) \<and>
     (\<forall>d < length (x_types e). \<not> dm_dirty_flag m ! d \<longrightarrow> dm_archs m ! d = Some cur \<or> dm_archs m ! d = None \<and> is_reset m) \<and>
     (is_reset m \<longrightarrow> cur = x_reset e)"

definition has_data :: "'v DataMem \<Rightarrow> bool" where
  "has_data m \<longleftrightarrow> \<not> dm_host_dirty_flag m \<or> (\<exists>d < length (dm_dirty_flag m). \<not> dm_dirty_flag m ! d)"

lemma non_dirty_set: "s \<in> set (get_non_dirty_devices m) \<longleftrightarrow> s < length (dm_dirty_flag m) \<and> \<not> dm_dirty_flag m ! s"
  by (auto simp: get_non_dirty_devices_def)

lemma possible_scan_member:
  assumes "possible_scan e d ts (a, b, c) = (a', b', c')" "set_option a \<union> set_option b \<union> set_option c \<subseteq> S" "set ts \<subseteq> S"
  shows "set_option a' \<union> set_option b' \<union> set_option c' \<subseteq> S"
  using assms
proof (induction ts arbitrary: a b c)
  case (Cons t ts)
  show ?case by (rule Cons.IH [OF Cons.prems(1) [unfolded possible_scan.simps]]) (use Cons.prems(2,3) in auto)
qed simp

lemma select_member: "select_src_dev e d ts = Some s \<Longrightarrow> s \<in> set ts"
proof -
  have "fold (\<lambda>t s. if x_types e ! d = x_types e ! t then t else s) ts s0 \<in> insert s0 (set ts)" for s0 ts
  proof (induction ts arbitrary: s0)
    case (Cons t ts)
    show ?case using Cons [of t] Cons [of s0] by auto
  qed simp
  then show "select_src_dev e d ts = Some s \<Longrightarrow> ?thesis" by (auto simp: select_src_dev_def split: list.splits)
qed

text \<open>The chosen source holds valid data, and none is chosen only when there is none.\<close>

lemma transfer_source:
  "case transfer_of e d m of
     H2D \<Rightarrow> \<not> dm_host_dirty_flag m
   | NoData \<Rightarrow> dm_host_dirty_flag m \<and> get_non_dirty_devices m = []
   | D2D s \<Rightarrow> s \<in> set (get_non_dirty_devices m) | O2D s \<Rightarrow> s \<in> set (get_non_dirty_devices m)
   | D2O s \<Rightarrow> s \<in> set (get_non_dirty_devices m) | D2H_H2D s \<Rightarrow> s \<in> set (get_non_dirty_devices m)"
proof -
  let ?nd = "get_non_dirty_devices m"
  obtain a b c where p: "GetPossibleDevices e d ?nd = (a, b, c)" by (metis prod_cases3)
  then have "set_option a \<union> set_option b \<union> set_option c \<subseteq> set ?nd"
    unfolding GetPossibleDevices_def by (rule possible_scan_member) auto
  moreover have "select_src_dev e d ?nd = None \<Longrightarrow> ?nd = []" by (simp add: select_src_dev_def split: list.splits)
  ultimately show ?thesis
    using p select_member [of e d ?nd] by (auto simp: transfer_of_def is_host_dirty_def Let_def split: option.splits)
qed

lemma coherent_host_memory:
  assumes "coherent e cur m"
  shows "coherent e cur (host_memory e m)" "dm_host_ptr (host_memory e m) \<noteq> None"
    "dm_dirty_flag (host_memory e m) = dm_dirty_flag m" "dm_archs (host_memory e m) = dm_archs m"
    "is_reset (host_memory e m) = is_reset m" "has_data m \<Longrightarrow> has_data (host_memory e m)"
    "\<not> dm_host_dirty_flag m \<Longrightarrow> host_memory e m = m"
  using assms by (auto simp: host_memory_def coherent_def has_data_def is_reset_def Let_def)

lemma coherent_arch:
  assumes "coherent e cur m" "d < length (x_types e)"
  shows "coherent e cur (arch e d m)" "dm_archs (arch e d m) ! d \<noteq> None"
    "\<not> dm_dirty_flag m ! x \<Longrightarrow> \<not> dm_dirty_flag (arch e d m) ! x"
    "\<not> dm_dirty_flag m ! d \<Longrightarrow> dm_archs (arch e d m) ! d = Some cur"
    "x \<noteq> d \<Longrightarrow> dm_archs (arch e d m) ! x = dm_archs m ! x"
    "dm_host_ptr (arch e d m) = dm_host_ptr m" "has_data m \<Longrightarrow> has_data (arch e d m)"
    "is_reset (arch e d m) = is_reset m"
  using assms
  by (auto simp: arch_def create_dev_mem_def coherent_def has_data_def is_reset_def nth_list_update Let_def)

lemma coherent_put:
  assumes "coherent e cur m" "d < length (x_types e)"
  shows "coherent e cur (clear_dev_dirty d (m\<lparr>dm_archs := (dm_archs m)[d := Some cur]\<rparr>))"
  using assms by (auto simp: coherent_def is_reset_def dm_flag_defs nth_list_update)

lemma fetched:
  assumes "coherent e cur m" "d < length (x_types e)"
  shows "coherent e cur (clear_dev_dirty d (m\<lparr>dm_archs := (dm_archs m)[d := Some cur]\<rparr>)) \<and>
    dm_archs (clear_dev_dirty d (m\<lparr>dm_archs := (dm_archs m)[d := Some cur]\<rparr>)) ! d = Some cur \<and>
    \<not> dm_dirty_flag (clear_dev_dirty d (m\<lparr>dm_archs := (dm_archs m)[d := Some cur]\<rparr>)) ! d"
  using coherent_put [OF assms] assms by (auto simp: coherent_def dm_flag_defs)

lemma from_device_fetch:
  assumes "coherent e cur m" "d < length (x_types e)" "s \<in> set (get_non_dirty_devices m)"
  shows "\<exists>m'. from_device e s d m = m'\<lparr>dm_archs := (dm_archs m')[d := Some cur]\<rparr> \<and> coherent e cur m' \<and> is_reset m' = is_reset m"
proof -
  have s: "s < length (x_types e)" "\<not> dm_dirty_flag m ! s" using assms by (auto simp: non_dirty_set coherent_def)
  let ?m = "arch e d (arch e s m)"
  note a = coherent_arch [OF assms(1) s(1)]
  note b = coherent_arch [OF a(1) assms(2)]
  have "dm_archs ?m ! s = Some cur" using a(3,4) [OF s(2)] b(4) b(5) by (cases "s = d") auto
  with b(1,8) a(8) show ?thesis unfolding from_device_def Let_def by auto
qed

lemma via_host_fetch:
  assumes "coherent e cur m" "d < length (x_types e)" "s \<in> set (get_non_dirty_devices m)"
  shows "\<exists>m'. via_host e s d m = m'\<lparr>dm_archs := (dm_archs m')[d := Some cur]\<rparr> \<and> coherent e cur m' \<and> is_reset m' = is_reset m"
proof -
  have s: "s < length (x_types e)" "\<not> dm_dirty_flag m ! s" using assms by (auto simp: non_dirty_set coherent_def)
  let ?h = "host_memory e m"
  note h = coherent_host_memory [OF assms(1)]
  note a = coherent_arch [OF h(1) s(1)]
  have v: "dm_archs (arch e s ?h) ! s = Some cur" by (rule a(4)) (simp add: h(3) s(2))
  let ?m = "(arch e s ?h)\<lparr>dm_host_ptr := Some cur\<rparr>"
  have c: "coherent e cur ?m" using a(1) by (simp add: coherent_def is_reset_def)
  note b = coherent_arch [OF c assms(2)]
  let ?m' = "clear_host_dirty (arch e d ?m)"
  have hp: "dm_host_ptr (arch e d ?m) = Some cur" by (simp add: b(6))
  then have "coherent e cur ?m'" using b(1) by (simp add: coherent_def is_reset_def dm_flag_defs)
  moreover have "via_host e s d m = ?m'\<lparr>dm_archs := (dm_archs ?m')[d := Some cur]\<rparr>"
    using v hp by (simp add: via_host_def Let_def clear_host_dirty_def)
  moreover have "is_reset ?m' = is_reset m" using b(8) a(8) h(5) by (simp add: is_reset_def clear_host_dirty_def)
  ultimately show ?thesis by blast
qed

lemma from_host_fetch:
  assumes "coherent e cur m" "d < length (x_types e)" "\<not> dm_host_dirty_flag m" "ch = NoHost \<or> ch = OwnHost"
  shows "\<exists>m'. from_host e ch d m = m'\<lparr>dm_archs := (dm_archs m')[d := Some cur]\<rparr> \<and> coherent e cur m' \<and> is_reset m' = is_reset m"
proof -
  have h: "host_memory e m = m" "dm_host_ptr m = Some cur"
    using coherent_host_memory(7) [OF assms(1,3)] assms(1,3) by (auto simp: coherent_def)
  note b = coherent_arch [OF assms(1,2)]
  show ?thesis using assms(4) b(1,8) h unfolding from_host_def Let_def by auto
qed

text \<open>A device that asks for an object that has data somewhere gets the current value, over whichever of the five ways.\<close>

lemma mem_in:
  assumes "coherent e cur m" "d < length (x_types e)" "has_data m" "ch = NoHost \<or> ch = OwnHost"
  shows "coherent e cur (ExecuteMemInDMemIn e ch d m)" "has_data (ExecuteMemInDMemIn e ch d m)"
    "\<not> dm_dirty_flag (ExecuteMemInDMemIn e ch d m) ! d" "is_reset (ExecuteMemInDMemIn e ch d m) = is_reset m"
proof -
  let ?P = "\<lambda>m1. \<exists>m'. m1 = m'\<lparr>dm_archs := (dm_archs m')[d := Some cur]\<rparr> \<and> coherent e cur m' \<and> is_reset m' = is_reset m"
  note ts = transfer_source [where e = e and d = d and m = m]
  have "?P (case transfer_of e d m of
                 D2D s \<Rightarrow> from_device e s d m | O2D s \<Rightarrow> from_device e s d m | D2O s \<Rightarrow> from_device e s d m
               | H2D \<Rightarrow> from_host e ch d m | D2H_H2D s \<Rightarrow> via_host e s d m | NoData \<Rightarrow> m)"
  proof (cases "transfer_of e d m")
    case H2D
    with ts have "\<not> dm_host_dirty_flag m" by simp
    from from_host_fetch [OF assms(1,2) this assms(4)] H2D show ?thesis by simp
  next
    case (D2H_H2D s)
    with ts have "s \<in> set (get_non_dirty_devices m)" by simp
    from via_host_fetch [OF assms(1,2) this] D2H_H2D show ?thesis by simp
  next
    case NoData
    with ts assms(3) show ?thesis by (auto simp: has_data_def get_non_dirty_devices_def filter_empty_conv)
  qed (use ts from_device_fetch [OF assms(1,2)] in auto)
  then have "\<exists>m'. InvokeDMemInDataTransfer e ch d m = clear_dev_dirty d (m'\<lparr>dm_archs := (dm_archs m')[d := Some cur]\<rparr>) \<and>
      coherent e cur m' \<and> is_reset m' = is_reset m"
    using assms(4) by (auto simp: InvokeDMemInDataTransfer_def Let_def cong: transfer.case_cong)
  then obtain m' where "InvokeDMemInDataTransfer e ch d m = clear_dev_dirty d (m'\<lparr>dm_archs := (dm_archs m')[d := Some cur]\<rparr>)"
    "coherent e cur m'" "is_reset m' = is_reset m" by blast
  with fetched [OF this(2) assms(2)] assms
  show "coherent e cur (ExecuteMemInDMemIn e ch d m)" "has_data (ExecuteMemInDMemIn e ch d m)"
    "\<not> dm_dirty_flag (ExecuteMemInDMemIn e ch d m) ! d" "is_reset (ExecuteMemInDMemIn e ch d m) = is_reset m"
    by (auto simp: ExecuteMemInDMemIn_def is_dev_dirty_def has_data_def coherent_def is_reset_def clear_dev_dirty_def)
qed

text \<open>An object from which a copy is taken, and the object that receives it.\<close>

definition blank :: "'v xfer_env \<Rightarrow> 'v DataMem \<Rightarrow> bool" where
  "blank e m \<longleftrightarrow> length (dm_dirty_flag m) = length (x_types e) \<and> length (dm_archs m) = length (x_types e) \<and> \<not> is_reset m \<and>
     dm_host_dirty_flag m \<and> (\<forall>x < length (x_types e). dm_dirty_flag m ! x)"

lemma blank_ops:
  assumes "blank e m"
  shows "blank e (arch e d m)" "blank e (host_memory e m)" "blank e (m\<lparr>dm_host_ptr := v\<rparr>)"
    "coherent e cur m" "dm_host_ptr (arch e d m) = dm_host_ptr m"
  using assms by (auto simp: blank_def arch_def create_dev_mem_def host_memory_def is_reset_def coherent_def Let_def)

definition received :: "'v xfer_env \<Rightarrow> 'v \<Rightarrow> devno \<Rightarrow> 'v DataMem \<Rightarrow> bool" where
  "received e cur d m \<longleftrightarrow> coherent e cur (clear_dev_dirty d m) \<and> has_data (clear_dev_dirty d m) \<and> \<not> is_reset m"

lemma blank_receives:
  assumes "blank e m" "d < length (x_types e)"
  shows "received e cur d (m\<lparr>dm_archs := (dm_archs m)[d := Some cur]\<rparr>)"
    "dm_host_ptr m = Some cur \<Longrightarrow> received e cur d (clear_host_dirty (m\<lparr>dm_archs := (dm_archs m)[d := Some cur]\<rparr>))"
  using assms by (auto simp: received_def blank_def coherent_def has_data_def is_reset_def dm_flag_defs nth_list_update)

lemma dmem2dmem:
  assumes src: "coherent e cur src" "has_data src" and d: "d < length (x_types e)"
    and m: "coherent e old m" "\<not> is_reset m"
    and r: "ExecuteDMEM2DMEM e d src m = (src', m')"
  shows "coherent e cur src' \<and> has_data src' \<and> is_reset src' = is_reset src \<and> coherent e cur m' \<and> has_data m' \<and> \<not> is_reset m'"
proof -
  let ?m = "set_dirty_all True (set_host_dirty True m)"
  have b: "blank e ?m" using m by (simp add: blank_def dm_flag_defs coherent_def is_reset_def)
  let ?R = "\<lambda>p. coherent e cur (fst p) \<and> has_data (fst p) \<and> is_reset (fst p) = is_reset src \<and> received e cur d (snd p)"
  note ts = transfer_source [where e = e and d = d and m = src]
  have dev: "?R (copy_device e s d src ?m) \<and> ?R (copy_via_host e s d src ?m)" if "s \<in> set (get_non_dirty_devices src)" for s
  proof -
    have s: "s < length (x_types e)" "\<not> dm_dirty_flag src ! s" using src(1) that by (auto simp: non_dirty_set coherent_def)
    note a = coherent_arch [OF src(1) s(1)]
    let ?h = "(host_memory e ?m)\<lparr>dm_host_ptr := Some cur\<rparr>"
    have "blank e ?h" using blank_ops(2,3) b by blast
    from blank_ops(1) [OF this, of d] blank_ops(5) [OF this, of d]
    have v: "blank e (arch e d ?h)" "dm_host_ptr (arch e d ?h) = Some cur" by auto
    show ?thesis
      using a(1,4,7,8) s(2) src(2) blank_receives(1) [OF blank_ops(1) [OF b] d] blank_receives(2) [OF v(1) d v(2)] v(2)
      by (simp add: copy_device_def copy_via_host_def Let_def)
  qed
  have host: "?R (copy_host e d src ?m)" if "\<not> dm_host_dirty_flag src"
  proof -
    have "host_memory e src = src" "dm_host_ptr src = Some cur"
      using coherent_host_memory(7) [OF src(1) that] src(1) that by (auto simp: coherent_def)
    with src blank_receives(1) [OF blank_ops(1) [OF b] d] show ?thesis by (simp add: copy_host_def Let_def)
  qed
  have "?R (case transfer_of e d src of
             D2D s \<Rightarrow> copy_device e s d src ?m | O2D s \<Rightarrow> copy_device e s d src ?m | D2O s \<Rightarrow> copy_device e s d src ?m
           | H2D \<Rightarrow> copy_host e d src ?m | D2H_H2D s \<Rightarrow> copy_via_host e s d src ?m | NoData \<Rightarrow> (src, ?m))"
    using ts dev host src(2) by (cases "transfer_of e d src") (auto simp: has_data_def get_non_dirty_devices_def filter_empty_conv)
  with r show ?thesis
    by (auto simp: ExecuteDMEM2DMEM_def Let_def received_def is_reset_def clear_dev_dirty_def split: prod.splits)
qed

end
