(* ===== verification/Iris_Execute.thy ===== *)
theory Iris_Execute
  imports Iris_DataMem
begin

text \<open>
  The execution of a task's commands on a device, \<open>Device::Execute\<close> of \<^verbatim>\<open>Device.cpp\<close> with the parts of
  \<open>ExecuteMemIn\<close>, \<open>ExecuteKernel\<close>, \<open>ExecuteMemOut\<close>, \<open>ExecuteH2D\<close>, \<open>ExecuteD2H\<close>, \<open>ExecuteMemFlushOut\<close> and \<open>ExecuteDMEM2DMEM\<close> that concern
  data memory objects. A kernel is the function from the contents it finds in its arguments to the
  contents it leaves in them. The specification is one memory without copies; the theorems state that tasks
  executed one after the other on whatever devices leave and deliver what they would on that memory, and where
  they do not.
\<close>

section \<open>Commands of a task\<close>

type_synonym 'v store = "uid \<Rightarrow> 'v DataMem"

text \<open>A kernel command has the objects it reads (the order of the transfers), the objects it writes and its
  effect.\<close>

datatype 'v dcmd =
    CKernel "uid list" "uid list" "(uid \<Rightarrow> 'v) \<Rightarrow> uid \<Rightarrow> 'v"
  | CH2D uid "'v host_arg"
  | CD2H uid "'v host_arg"
  | CFlush uid
  | CReset uid 'v
  | CCopy uid uid

definition at_mem :: "uid \<Rightarrow> ('v DataMem \<Rightarrow> 'v DataMem) \<Rightarrow> 'v store \<Rightarrow> 'v store" where
  "at_mem u f S = S(u := f (S u))"

definition ExecuteMemIn :: "'v xfer_env \<Rightarrow> devno \<Rightarrow> uid list \<Rightarrow> 'v store \<Rightarrow> 'v store" where
  "ExecuteMemIn e d ins S = fold (\<lambda>u. at_mem u (ExecuteMemInDMemIn e NoHost d)) ins S"

text \<open>The arguments are bound to the device memory of the objects, which allocates it where needed; then the kernel
  runs.\<close>

definition ExecuteKernel :: "'v xfer_env \<Rightarrow> devno \<Rightarrow> uid list \<Rightarrow> uid list \<Rightarrow> ((uid \<Rightarrow> 'v) \<Rightarrow> uid \<Rightarrow> 'v) \<Rightarrow> 'v store \<Rightarrow> 'v store" where
  "ExecuteKernel e d ins outs f S =
     (let S = fold (\<lambda>u. at_mem u (arch e d)) (ins @ outs) S;
          seen = (\<lambda>u. the (dm_archs (S u) ! d))
      in fold (\<lambda>u. at_mem u (\<lambda>m. m\<lparr>dm_archs := (dm_archs m)[d := Some (f seen u)]\<rparr>)) outs S)"

definition ExecuteMemOut :: "devno \<Rightarrow> uid list \<Rightarrow> 'v store \<Rightarrow> 'v store" where
  "ExecuteMemOut d outs S = fold (\<lambda>u. at_mem u (mem_out d)) outs S"

text \<open>The objects written by the first kernel of the task, \<open>task->cmd_kernel()\<close>, and the objects of its explicit
  transfers to the host.\<close>

fun cmd_kernel_outs :: "'v dcmd list \<Rightarrow> uid list" where
  "cmd_kernel_outs [] = []"
| "cmd_kernel_outs (CKernel ins outs f # cs) = outs"
| "cmd_kernel_outs (_ # cs) = cmd_kernel_outs cs"

fun d2h_dmems :: "'v dcmd list \<Rightarrow> uid list" where
  "d2h_dmems [] = []"
| "d2h_dmems (CD2H u h # cs) = u # d2h_dmems cs"
| "d2h_dmems (_ # cs) = d2h_dmems cs"

text \<open>One command. The second component collects what is written to host addresses other than the objects' own.\<close>

type_synonym 'v exec_state = "'v store \<times> (uid \<times> 'v) list"

definition flush_out :: "'v xfer_env \<Rightarrow> 'v host_arg \<Rightarrow> devno \<Rightarrow> uid \<Rightarrow> 'v exec_state \<Rightarrow> 'v exec_state option" where
  "flush_out e h d u s =
     map_option (\<lambda>(m, v). ((fst s)(u := m), snd s @ (case v of None \<Rightarrow> [] | Some v \<Rightarrow> [(u, v)])))
       (ExecuteMemFlushOut e h d (fst s u))"

fun exec_dcmd :: "'v xfer_env \<Rightarrow> devno \<Rightarrow> uid list \<Rightarrow> uid list \<Rightarrow> 'v dcmd \<Rightarrow> 'v exec_state \<Rightarrow> 'v exec_state option" where
  "exec_dcmd e d kouts d2h (CKernel ins outs f) (S, w) =
     Some (ExecuteMemOut d d2h (ExecuteMemOut d kouts (ExecuteKernel e d ins outs f (ExecuteMemIn e d ins S))), w)"
| "exec_dcmd e d kouts d2h (CH2D u h) (S, w) = Some (at_mem u (ExecuteMemInDMemIn e h d) S, w)"
| "exec_dcmd e d kouts d2h (CD2H u h) s = flush_out e h d u s"
| "exec_dcmd e d kouts d2h (CFlush u) s = flush_out e NoHost d u s"
| "exec_dcmd e d kouts d2h (CReset u v) (S, w) = Some (at_mem u (ExecuteMemResetInput e v d) S, w)"
| "exec_dcmd e d kouts d2h (CCopy u v) (S, w) =
     (let (m, m') = ExecuteDMEM2DMEM e d (S u) (S v) in Some (S(u := m, v := m'), w))"

definition Device_Execute :: "'v xfer_env \<Rightarrow> devno \<times> 'v dcmd list \<Rightarrow> 'v exec_state \<Rightarrow> 'v exec_state option" where
  "Device_Execute e dt s =
     (case dt of (d, cmds) \<Rightarrow> opt_fold (exec_dcmd e d (cmd_kernel_outs cmds) (d2h_dmems cmds)) cmds s)"

section \<open>The specification: one memory\<close>

text \<open>The content of every object, and the objects that have a defined content.\<close>

type_synonym 'v memory = "(uid \<Rightarrow> 'v) \<times> uid set"

fun mem_dcmd :: "'v dcmd \<Rightarrow> 'v memory \<Rightarrow> 'v memory option" where
  "mem_dcmd (CKernel ins outs f) (\<sigma>, D) =
     (if set ins \<subseteq> D then Some ((\<lambda>u. if u \<in> set outs then f \<sigma> u else \<sigma> u), D \<union> set outs) else None)"
| "mem_dcmd (CH2D u h) (\<sigma>, D) = (if u \<in> D then Some (\<sigma>, D) else None)"
| "mem_dcmd (CD2H u h) (\<sigma>, D) = (if u \<in> D then Some (\<sigma>, D) else None)"
| "mem_dcmd (CFlush u) (\<sigma>, D) = (if u \<in> D then Some (\<sigma>, D) else None)"
| "mem_dcmd (CReset u v) (\<sigma>, D) = Some (\<sigma>(u := v), insert u D)"
| "mem_dcmd (CCopy u v) (\<sigma>, D) = (if u \<in> D then Some (\<sigma>(v := \<sigma> u), insert v D) else None)"

definition mem_task :: "devno \<times> 'v dcmd list \<Rightarrow> 'v memory \<Rightarrow> 'v memory option" where
  "mem_task dt s = opt_fold mem_dcmd (snd dt) s"

text \<open>A store that represents a memory; \<open>R\<close> are the objects with a pending reset.\<close>

definition represents :: "'v xfer_env \<Rightarrow> uid set \<Rightarrow> 'v memory \<Rightarrow> 'v exec_state \<Rightarrow> bool" where
  "represents e R a s \<longleftrightarrow> (\<forall>u. coherent e (fst a u) (fst s u) \<and> (u \<in> snd a \<longrightarrow> has_data (fst s u)) \<and> (is_reset (fst s u) \<longrightarrow> u \<in> R))"

text \<open>What the specification asks of a command: a kernel writes what it computes from the objects it reads, a transfer
  to the device names no address but the object's own, and an object with a pending reset is neither reset by a command
  nor the target of a copy.\<close>

definition dcmd_ok :: "uid set \<Rightarrow> 'v dcmd \<Rightarrow> bool" where
  "dcmd_ok R c = (case c of
     CKernel ins outs f \<Rightarrow> \<forall>\<sigma> \<tau>. (\<forall>u \<in> set ins. \<sigma> u = \<tau> u) \<longrightarrow> (\<forall>u \<in> set outs. f \<sigma> u = f \<tau> u)
   | CH2D u h \<Rightarrow> h = NoHost \<or> h = OwnHost
   | CReset u v \<Rightarrow> u \<notin> R
   | CCopy u v \<Rightarrow> u \<noteq> v \<and> v \<notin> R
   | _ \<Rightarrow> True)"

text \<open>A command in its task: a kernel writes the objects the task's first kernel writes, and what the task sends to the
  host explicitly is among them.\<close>

definition cmd_in_task :: "nat \<Rightarrow> uid set \<Rightarrow> devno \<Rightarrow> uid list \<Rightarrow> uid list \<Rightarrow> 'v dcmd \<Rightarrow> bool" where
  "cmd_in_task n R d kouts d2h c \<longleftrightarrow> d < n \<and> dcmd_ok R c \<and>
     (case c of CKernel ins outs f \<Rightarrow> set kouts = set outs \<and> set d2h \<subseteq> set outs | _ \<Rightarrow> True)"

definition task_ok :: "nat \<Rightarrow> uid set \<Rightarrow> devno \<times> 'v dcmd list \<Rightarrow> bool" where
  "task_ok n R dt = (case dt of (d, cmds) \<Rightarrow> list_all (cmd_in_task n R d (cmd_kernel_outs cmds) (d2h_dmems cmds)) cmds)"

section \<open>Each command\<close>

lemma at_mem_fold:
  assumes "\<And>u m. f u (f u m) = f u m"
  shows "fold (\<lambda>u. at_mem u (f u)) us S = (\<lambda>u. if u \<in> set us then f u (S u) else S u)"
  by (induction us arbitrary: S) (auto simp: at_mem_def fun_eq_iff assms)

lemma at_mem_fold_inv:
  assumes "\<And>u. P u (S u)" "\<And>u m. u \<in> set us \<Longrightarrow> P u m \<Longrightarrow> P u (f m) \<and> Q u (f m)"
  shows "P u (fold (\<lambda>u. at_mem u f) us S u) \<and> (u \<in> set us \<longrightarrow> Q u (fold (\<lambda>u. at_mem u f) us S u)) \<and>
    (u \<notin> set us \<longrightarrow> fold (\<lambda>u. at_mem u f) us S u = S u)"
  using assms
proof (induction us arbitrary: S)
  case (Cons x xs)
  let ?S = "at_mem x f S"
  have *: "\<And>u. P u (?S u)" using Cons.prems by (simp add: at_mem_def)
  have "P u (fold (\<lambda>u. at_mem u f) xs ?S u) \<and> (u \<in> set xs \<longrightarrow> Q u (fold (\<lambda>u. at_mem u f) xs ?S u)) \<and>
      (u \<notin> set xs \<longrightarrow> fold (\<lambda>u. at_mem u f) xs ?S u = ?S u)"
    by (rule Cons.IH) (use * Cons.prems(2) in auto)
  moreover have "Q x (?S x)" "u \<noteq> x \<Longrightarrow> ?S u = S u" using Cons.prems by (simp_all add: at_mem_def)
  ultimately show ?case by (cases "u = x") auto
qed simp

lemma mem_out_idem: "mem_out d (mem_out d m) = mem_out d m"
  by (simp add: mem_out_def dm_flag_defs)

lemma written:
  assumes "coherent e cur m" "d < length (x_types e)"
  shows "coherent e v (mem_out d (m\<lparr>dm_archs := (dm_archs m)[d := Some v]\<rparr>))"
    "has_data (mem_out d (m\<lparr>dm_archs := (dm_archs m)[d := Some v]\<rparr>))"
    "\<not> is_reset (mem_out d (m\<lparr>dm_archs := (dm_archs m)[d := Some v]\<rparr>))"
  using assms by (auto simp: mem_out_def dm_flag_defs coherent_def has_data_def is_reset_def nth_list_update)

lemma reset_input:
  assumes "coherent e cur m" "d < length (x_types e)" "\<not> is_reset m"
  shows "coherent e v (ExecuteMemResetInput e v d m)" "has_data (ExecuteMemResetInput e v d m)"
    "\<not> is_reset (ExecuteMemResetInput e v d m)"
  using coherent_arch(1,8) [OF assms(1,2)] assms(2,3)
  by (auto simp: ExecuteMemResetInput_def Let_def dm_flag_defs coherent_def has_data_def is_reset_def nth_list_update)

lemma flush:
  assumes "coherent e cur m" "has_data m" "d < length (x_types e)"
  shows "\<exists>m' v. ExecuteMemFlushOut e h d m = Some (m', v) \<and> coherent e cur m' \<and> has_data m' \<and> is_reset m' = is_reset m \<and>
    (h = NoHost \<longrightarrow> dm_host_ptr m' = Some cur \<and> \<not> dm_host_dirty_flag m')"
proof (cases "dm_host_dirty_flag m")
  case True
  let ?h = "host_memory e m"
  note hm = coherent_host_memory [OF assms(1)]
  have len: "length (dm_dirty_flag m) = length (x_types e)" using assms(1) by (simp add: coherent_def)
  have "get_non_dirty_devices ?h \<noteq> []" using True assms(2) hm(3)
    by (auto simp: has_data_def get_non_dirty_devices_def filter_empty_conv)
  then have "\<exists>s. (if is_dev_dirty d ?h then cell (get_non_dirty_devices ?h) 0 else Some d) = Some s \<and>
      s < length (x_types e) \<and> \<not> dm_dirty_flag ?h ! s"
    using non_dirty_set [of "get_non_dirty_devices ?h ! 0" ?h] assms(3) len hm(3) by (auto simp: is_dev_dirty_def)
  then obtain s where s: "(if is_dev_dirty d ?h then cell (get_non_dirty_devices ?h) 0 else Some d) = Some s"
    "s < length (x_types e)" "\<not> dm_dirty_flag ?h ! s" by blast
  note a = coherent_arch [OF hm(1) s(2)]
  have v: "dm_archs (arch e s ?h) ! s = Some cur" by (rule a(4) [OF s(3)])
  have "has_data (arch e s ?h)" using a(7) hm(6) assms(2) by blast
  with a(1,8) hm(5) s(1) v True show ?thesis
    by (cases h) (auto simp: ExecuteMemFlushOut_def Let_def dm_flag_defs coherent_def is_reset_def has_data_def)
next
  case False
  with assms show ?thesis by (auto simp: ExecuteMemFlushOut_def is_host_dirty_def coherent_def)
qed

text \<open>A kernel launch: its inputs are fetched, it sees the current values, and its outputs become current.\<close>

lemma exec_kernel:
  assumes r: "represents e R (\<sigma>, D) (S, w)" and d: "d < length (x_types e)" and ins: "set ins \<subseteq> D"
    and dep: "\<And>\<tau>. (\<forall>u \<in> set ins. \<tau> u = \<sigma> u) \<Longrightarrow> \<forall>u \<in> set outs. f \<tau> u = f \<sigma> u"
    and o: "set kouts = set outs" "set d2h \<subseteq> set outs"
  shows "represents e R (\<lambda>u. if u \<in> set outs then f \<sigma> u else \<sigma> u, D \<union> set outs)
    (ExecuteMemOut d d2h (ExecuteMemOut d kouts (ExecuteKernel e d ins outs f (ExecuteMemIn e d ins S))), w)"
proof -
  let ?P = "\<lambda>u m. coherent e (\<sigma> u) m \<and> (u \<in> D \<longrightarrow> has_data m) \<and> (is_reset m \<longrightarrow> u \<in> R)"
  let ?S1 = "ExecuteMemIn e d ins S"
  have p: "?P u (S u)" for u using r by (auto simp: represents_def)
  have s1: "?P u (?S1 u) \<and> (u \<in> set ins \<longrightarrow> \<not> dm_dirty_flag (?S1 u) ! d) \<and> (u \<notin> set ins \<longrightarrow> ?S1 u = S u)" for u
    unfolding ExecuteMemIn_def
    by (rule at_mem_fold_inv [where P = ?P and Q = "\<lambda>u m. \<not> dm_dirty_flag m ! d"], rule p)
      (use mem_in [OF _ d, where ch = NoHost] ins in auto)
  let ?P2 = "\<lambda>u m. ?P u m \<and> (u \<in> set ins \<longrightarrow> \<not> dm_dirty_flag m ! d)"
  let ?S2 = "fold (\<lambda>u. at_mem u (arch e d)) (ins @ outs) ?S1"
  have s2: "?P2 u (?S2 u) \<and> (u \<in> set (ins @ outs) \<longrightarrow> u \<in> set ins \<longrightarrow> dm_archs (?S2 u) ! d = Some (\<sigma> u)) \<and>
      (u \<notin> set (ins @ outs) \<longrightarrow> ?S2 u = ?S1 u)" for u
    by (rule at_mem_fold_inv [where P = ?P2 and Q = "\<lambda>u m. u \<in> set ins \<longrightarrow> dm_archs m ! d = Some (\<sigma> u)"])
      (use s1 coherent_arch [OF _ d] in auto)
  let ?seen = "\<lambda>u. the (dm_archs (?S2 u) ! d)"
  have "\<forall>u \<in> set ins. ?seen u = \<sigma> u" using s2 by auto
  from dep [OF this] have seen: "f ?seen u = f \<sigma> u" if "u \<in> set outs" for u using that by blast
  let ?w = "\<lambda>u m. m\<lparr>dm_archs := (dm_archs m)[d := Some (f ?seen u)]\<rparr>"
  have "ExecuteKernel e d ins outs f ?S1 = (\<lambda>u. if u \<in> set outs then ?w u (?S2 u) else ?S2 u)"
    unfolding ExecuteKernel_def Let_def by (rule at_mem_fold) simp
  then have fin: "ExecuteMemOut d d2h (ExecuteMemOut d kouts (ExecuteKernel e d ins outs f ?S1)) =
      (\<lambda>u. if u \<in> set outs then mem_out d (?w u (?S2 u)) else ?S2 u)"
    unfolding ExecuteMemOut_def at_mem_fold [where f = "\<lambda>_. mem_out d", OF mem_out_idem]
    using o by (auto simp: fun_eq_iff mem_out_idem)
  have "coherent e (\<sigma> u) (?S2 u)" for u using s2 by blast
  from written [OF this d] s2 seen show ?thesis unfolding fin represents_def fst_conv snd_conv
    by (auto simp del: fold_append)
qed

lemma represents_upd:
  assumes "represents e R (\<sigma>, D) (S, w)" "coherent e v m" "u \<in> D' \<longrightarrow> has_data m" "is_reset m \<longrightarrow> u \<in> R" "D' \<subseteq> insert u D"
  shows "represents e R (\<sigma>(u := v), D') (S(u := m), w')"
  using assms by (auto simp: represents_def)

lemma flush_out_represents:
  assumes "represents e R (\<sigma>, D) (S, w)" "u \<in> D" "d < length (x_types e)"
  shows "\<exists>s'. flush_out e h d u (S, w) = Some s' \<and> represents e R (\<sigma>, D) s' \<and>
    (h = NoHost \<longrightarrow> dm_host_ptr (fst s' u) = Some (\<sigma> u))"
proof -
  have c: "coherent e (\<sigma> u) (S u)" "has_data (S u)" "is_reset (S u) \<longrightarrow> u \<in> R" using assms(1,2) by (auto simp: represents_def)
  from flush [OF c(1,2) assms(3), of h] obtain m' v where m: "ExecuteMemFlushOut e h d (S u) = Some (m', v)" "coherent e (\<sigma> u) m'"
    "has_data m'" "is_reset m' = is_reset (S u)" "h = NoHost \<longrightarrow> dm_host_ptr m' = Some (\<sigma> u)" by blast
  from represents_upd [OF assms(1) m(2), of u D] m c(3) show ?thesis by (auto simp: flush_out_def)
qed

interpretation cmds: simulation "represents e R" mem_dcmd "exec_dcmd e d kouts d2h" "cmd_in_task (length (x_types e)) R d kouts d2h"
  for e R d kouts d2h
proof
  fix a a' :: "'a memory" and s :: "'a exec_state" and c
  assume r: "represents e R a s" and ok: "cmd_in_task (length (x_types e)) R d kouts d2h c" and st: "mem_dcmd c a = Some a'"
  obtain \<sigma> D where a: "a = (\<sigma>, D)" by (cases a)
  obtain S w where s: "s = (S, w)" by (cases s)
  have d: "d < length (x_types e)" using ok by (simp add: cmd_in_task_def)
  note r' = r [unfolded a s]
  have u: "coherent e (\<sigma> u) (S u)" "u \<in> D \<Longrightarrow> has_data (S u)" "is_reset (S u) \<longrightarrow> u \<in> R" for u
    using r' by (auto simp: represents_def)
  show "\<exists>s'. exec_dcmd e d kouts d2h c s = Some s' \<and> represents e R a' s'"
  proof (cases c)
    case (CKernel ins outs f)
    then have ins: "set ins \<subseteq> D" using st a by (simp split: if_splits)
    have "represents e R a' (ExecuteMemOut d d2h (ExecuteMemOut d kouts (ExecuteKernel e d ins outs f (ExecuteMemIn e d ins S))), w)"
      using exec_kernel [OF r' d ins, of outs f kouts d2h] CKernel st a ok ins
      by (auto simp: cmd_in_task_def dcmd_ok_def)
    with CKernel s show ?thesis by simp
  next
    case (CH2D x h)
    then have x: "x \<in> D" "a' = a" "h = NoHost \<or> h = OwnHost" using st a ok by (auto simp: cmd_in_task_def dcmd_ok_def split: if_splits)
    note m = mem_in [OF u(1) d u(2) [OF x(1)] x(3)]
    show ?thesis using represents_upd [OF r' m(1), of x D] m u(3) [of x] x a s CH2D by (auto simp: at_mem_def)
  next
    case (CReset x v)
    then have x: "a' = (\<sigma>(x := v), insert x D)" "\<not> is_reset (S x)" using st a ok u(3) [of x] by (auto simp: cmd_in_task_def dcmd_ok_def)
    note m = reset_input [OF u(1) d x(2), of v]
    show ?thesis using represents_upd [OF r' m(1), of x "insert x D"] m x s CReset by (auto simp: at_mem_def)
  next
    case (CD2H x h)
    then have "x \<in> D" "a' = a" using st a by (auto split: if_splits)
    with flush_out_represents [OF r' _ d, of x h] a s CD2H show ?thesis by auto
  next
    case (CFlush x)
    then have "x \<in> D" "a' = a" using st a by (auto split: if_splits)
    with flush_out_represents [OF r' _ d, of x NoHost] a s CFlush show ?thesis by auto
  next
    case (CCopy x y)
    then have x: "x \<in> D" "a' = (\<sigma>(y := \<sigma> x), insert y D)" "x \<noteq> y" "\<not> is_reset (S y)"
      using st a ok u(3) [of y] by (auto simp: cmd_in_task_def dcmd_ok_def split: if_splits)
    obtain m m' where m: "ExecuteDMEM2DMEM e d (S x) (S y) = (m, m')" by fastforce
    note c = dmem2dmem [OF u(1) u(2) [OF x(1)] d u(1) x(4) m]
    have "represents e R (\<sigma>(x := \<sigma> x), D) (S(x := m), w)" using represents_upd [OF r'] c u(3) [of x] by blast
    then have "represents e R (\<sigma>(y := \<sigma> x), insert y D) (S(x := m, y := m'), w)"
      using represents_upd [of e R \<sigma> D "S(x := m)" w "\<sigma> x" m' y "insert y D"] c by auto
    with CCopy x m s show ?thesis by simp
  qed
qed

text \<open>A whole task, and so a sequence of tasks.\<close>

interpretation tasks: simulation "represents e R" mem_task "Device_Execute e" "task_ok (length (x_types e)) R" for e R
proof
  fix a a' :: "'a memory" and s :: "'a exec_state" and dt
  assume "represents e R a s" "task_ok (length (x_types e)) R dt" "mem_task dt a = Some a'"
  then show "\<exists>s'. Device_Execute e dt s = Some s' \<and> represents e R a' s'"
    using cmds.sim_fold [of e R a s "fst dt"] by (cases dt) (simp add: Device_Execute_def mem_task_def task_ok_def)
qed

section \<open>Placement does not matter\<close>

definition initial_store :: "nat \<Rightarrow> (uid \<Rightarrow> 'v option) \<Rightarrow> 'v store" where
  "initial_store n host u = DataMem_Init n (host u)"

lemma initial_represents:
  "represents e {} (\<lambda>u. case host u of None \<Rightarrow> x_junk e | Some v \<Rightarrow> v, {u. host u \<noteq> None}) (initial_store (length (x_types e)) host, w)"
  by (auto simp: represents_def initial_store_def DataMem_Init_def coherent_def has_data_def is_reset_def)


text \<open>The example: a GPU, a CPU and an FPGA without direct copies; object 1 is given by the host and doubled on the GPU into object
  2, which has no host memory, object 2 is incremented in place on the CPU.\<close>

definition demo_xfer :: "int xfer_env" where
  "demo_xfer = \<lparr>x_types = [iris_nvidia, iris_cpu, iris_fpga], x_opencl = (\<lambda>d. d = 2), x_d2d = (\<lambda>_ _. False), x_d2d_disabled = False,
     x_reset = 0, x_junk = 77, x_host_fill = True\<rparr>"

lemma demo_xfer_simps: "length (x_types demo_xfer) = 3" "x_junk demo_xfer = 77"
  by (simp_all add: demo_xfer_def)

definition demo_tasks :: "(devno \<times> int dcmd list) list" where
  "demo_tasks = [(0, [CKernel [1] [2] (\<lambda>\<sigma> u. 2 * \<sigma> 1)]), (1, [CKernel [2] [2] (\<lambda>\<sigma> u. \<sigma> 2 + 1), CD2H 2 NoHost])]"


section \<open>Where the copies go wrong\<close>

lemma at_mem_fold_other: "u \<notin> set us \<Longrightarrow> fold (\<lambda>u. at_mem u (f u)) us S u = S u"
  by (induction us arbitrary: S) (auto simp: at_mem_def)

lemmas kernel_frame = at_mem_fold_other [where f = "\<lambda>_. ExecuteMemInDMemIn e NoHost d" for e d]
  at_mem_fold_other [where f = "\<lambda>_. arch e d" for e d] at_mem_fold_other [where f = "\<lambda>_. mem_out d" for d]

lemma ExecuteMemIn_other: "u \<notin> set ins \<Longrightarrow> ExecuteMemIn e d ins S u = S u"
  by (simp add: ExecuteMemIn_def kernel_frame)

lemma ExecuteMemOut_other: "u \<notin> set outs \<Longrightarrow> ExecuteMemOut d outs S u = S u"
  by (simp add: ExecuteMemOut_def kernel_frame)

lemma ExecuteKernel_other: "u \<notin> set ins \<Longrightarrow> u \<notin> set outs \<Longrightarrow> ExecuteKernel e d ins outs f S u = S u"
  by (simp add: ExecuteKernel_def Let_def at_mem_fold_other kernel_frame)

text \<open>A kernel touches only the device memory of an object.\<close>

lemma ExecuteKernel_host:
  assumes "\<not> is_reset (S u)"
  shows "dm_host_ptr (ExecuteKernel e d ins outs f S u) = dm_host_ptr (S u) \<and>
    dm_host_dirty_flag (ExecuteKernel e d ins outs f S u) = dm_host_dirty_flag (S u)"
proof -
  let ?P = "\<lambda>x m. x = u \<longrightarrow> dm_host_ptr m = dm_host_ptr (S u) \<and> dm_host_dirty_flag m = dm_host_dirty_flag (S u) \<and> \<not> is_reset m"
  let ?S = "fold (\<lambda>u. at_mem u (arch e d)) (ins @ outs) S"
  have p: "?P x (?S x)" for x
    by (rule conjunct1 [OF at_mem_fold_inv [where P = ?P and Q = "\<lambda>_ _. True"]])
      (use assms in \<open>auto simp: arch_def create_dev_mem_def is_reset_def\<close>)
  have "ExecuteKernel e d ins outs f S = (\<lambda>x. if x \<in> set outs
      then (?S x)\<lparr>dm_archs := (dm_archs (?S x))[d := Some (f (\<lambda>u. the (dm_archs (?S u) ! d)) x)]\<rparr> else ?S x)"
    unfolding ExecuteKernel_def Let_def by (rule at_mem_fold) simp
  with p [of u] show ?thesis by auto
qed

text \<open>A task with a second kernel: only the outputs of the first are marked. What the second kernel alone writes stays on
  the device unnoticed; a flush finds the host copy valid and leaves the old content there.\<close>

theorem second_kernel_lost:
  assumes "d < length (x_types e)" "d' < length (x_types e)" "host u = Some v" "u \<notin> set outs1" "u \<notin> set ins1" "u \<notin> set ins2"
    "u \<in> set outs2"
  shows "\<exists>S' w'. opt_fold (Device_Execute e) [(d, [CKernel ins1 outs1 f1, CKernel ins2 outs2 f2]), (d', [CFlush u])]
      (initial_store (length (x_types e)) host, []) = Some (S', w') \<and> dm_host_ptr (S' u) = Some v"
proof -
  let ?S0 = "initial_store (length (x_types e)) host"
  let ?S1 = "ExecuteMemOut d outs1 (ExecuteKernel e d ins1 outs1 f1 (ExecuteMemIn e d ins1 ?S0))"
  let ?S2 = "ExecuteMemOut d outs1 (ExecuteKernel e d ins2 outs2 f2 (ExecuteMemIn e d ins2 ?S1))"
  have "?S1 u = ?S0 u" using assms by (simp add: ExecuteMemOut_other ExecuteKernel_other ExecuteMemIn_other)
  then have 1: "ExecuteMemIn e d ins2 ?S1 u = DataMem_Init (length (x_types e)) (Some v)"
    using assms by (simp add: ExecuteMemIn_other initial_store_def)
  then have "\<not> is_reset (ExecuteMemIn e d ins2 ?S1 u)" by (simp add: is_reset_def DataMem_Init_def)
  from ExecuteKernel_host [of "ExecuteMemIn e d ins2 ?S1" u e d ins2 outs2 f2, OF this] 1 assms(4)
  have "dm_host_ptr (?S2 u) = Some v" "\<not> dm_host_dirty_flag (?S2 u)" by (simp_all add: ExecuteMemOut_other DataMem_Init_def)
  then show ?thesis by (simp add: Device_Execute_def flush_out_def ExecuteMemFlushOut_def is_host_dirty_def ExecuteMemOut_def)
qed

theorem second_kernel_lost_witness:
  "\<exists>S' w'. opt_fold (Device_Execute demo_xfer) [(0, [CKernel [] [1] (\<lambda>_ _. 7), CKernel [] [2] (\<lambda>_ _. 8)]), (0, [CFlush 2])]
      (initial_store 3 (\<lambda>u. if u \<in> {1, 2} then Some 5 else None), []) = Some (S', w') \<and> dm_host_ptr (S' 2) = Some 5"
  using second_kernel_lost [of 0 demo_xfer 0 "\<lambda>u. if u \<in> {1, 2} then Some 5 else None" 2 5 "[1]" "[]" "[]" "[2]" "\<lambda>_ _. 7" "\<lambda>_ _. 8"]
  by (simp add: demo_xfer_simps del: opt_fold.simps)

text \<open>An explicit transfer to the host of an object that the kernel of the task does not write: the device's copy is
  declared the only valid one before it exists, and uninitialised device memory overwrites the host's content.\<close>

theorem unrelated_d2h_destroys:
  assumes "d < length (x_types e)" "host u = Some v" "u \<notin> set ins" "u \<notin> set outs"
  shows "\<exists>S' w'. Device_Execute e (d, [CKernel ins outs f, CD2H u OwnHost]) (initial_store (length (x_types e)) host, []) = Some (S', w') \<and>
    dm_host_ptr (S' u) = Some (x_junk e)"
proof -
  let ?S0 = "initial_store (length (x_types e)) host"
  let ?S1 = "ExecuteMemOut d [u] (ExecuteMemOut d outs (ExecuteKernel e d ins outs f (ExecuteMemIn e d ins ?S0)))"
  have "?S1 u = mem_out d (DataMem_Init (length (x_types e)) (Some v))"
    unfolding ExecuteMemOut_def [of d "[u]"] using assms
    by (simp add: at_mem_def ExecuteMemOut_other ExecuteKernel_other ExecuteMemIn_other initial_store_def)
  then have "ExecuteMemFlushOut e OwnHost d (?S1 u) = Some ((arch e d (?S1 u))\<lparr>dm_host_ptr := Some (x_junk e)\<rparr>, None)"
    using assms(1) by (simp add: ExecuteMemFlushOut_def mem_out_def dm_flag_defs DataMem_Init_def host_memory_def arch_def
        create_dev_mem_def is_reset_def Let_def)
  then show ?thesis by (simp add: Device_Execute_def flush_out_def clear_host_dirty_def)
qed

theorem unrelated_d2h_destroys_witness:
  "\<exists>S' w'. Device_Execute demo_xfer (0, [CKernel [] [1] (\<lambda>_ _. 7), CD2H 2 OwnHost])
      (initial_store 3 (\<lambda>u. if u \<in> {1, 2} then Some 5 else None), []) = Some (S', w') \<and> dm_host_ptr (S' 2) = Some 77"
  using unrelated_d2h_destroys [of 0 demo_xfer "\<lambda>u. if u \<in> {1, 2} then Some 5 else None" 2 5 "[]" "[1]" "\<lambda>_ _. 7"]
  by (simp add: demo_xfer_simps)

section \<open>Regions\<close>

text \<open>A region of an object is an object of its own without host memory, \<open>DataMemRegion\<close>.\<close>

definition DataMemRegion_new :: "nat \<Rightarrow> bool \<Rightarrow> 'v DataMem" where
  "DataMemRegion_new n parent_reset = (let m = DataMem_Init n None in if parent_reset then init_reset True m else m)"

text \<open>The host copy of a region counts as invalid from the start, and the transfer that should load it finds no source: the
  device is declared valid with nothing copied.\<close>

theorem region_input_lost:
  assumes "d < length (x_types e)" "n = length (x_types e)"
  shows "ExecuteMemInDMemRegionIn e NoHost d (DataMemRegion_new n False) = (DataMemRegion_new n False)\<lparr>dm_dirty_flag := (replicate n True)[d := False]\<rparr>"
proof -
  let ?m = "DataMem_Init n None :: 'a DataMem"
  have "get_non_dirty_devices ?m = []" by (simp add: get_non_dirty_devices_def DataMem_Init_def)
  then have "transfer_of e d ?m = NoData"
    by (simp add: transfer_of_def GetPossibleDevices_def select_src_dev_def is_host_dirty_def DataMem_Init_def)
  then show ?thesis using assms
    by (simp add: ExecuteMemInDMemRegionIn_def InvokeDMemInDataTransfer_def DataMemRegion_new_def dm_flag_defs)
      (simp add: DataMem_Init_def)
qed

theorem region_input_lost_witness:
  "dm_archs (ExecuteMemInDMemRegionIn demo_xfer NoHost 1 (DataMemRegion_new 3 False)) = [None, None, None] \<and>
   dm_dirty_flag (ExecuteMemInDMemRegionIn demo_xfer NoHost 1 (DataMemRegion_new 3 False)) = [True, False, True]"
  using region_input_lost [of 1 demo_xfer 3]
  by (simp add: demo_xfer_def DataMemRegion_new_def DataMem_Init_def numeral_3_eq_3)

end
