(* ===== verification/Iris_Mem.thy ===== *)
theory Iris_Mem
  imports Iris_Defs
begin

text \<open>
  Memory objects of the kind \<open>IRIS_MEM\<close>, \<^verbatim>\<open>Mem.cpp\<close> and \<^verbatim>\<open>MemRange.cpp\<close>. Such an object records which
  device holds which block of bytes. The records are a \<open>std::set\<close> of pointers and therefore kept in the order of
  their addresses; the address \<open>malloc\<close> gives a new record is an argument of the operations. Offsets and sizes are
  64-bit words. The lemmas relate the comparisons of blocks to intersection and inclusion, and the loop of
  \<open>SetOwner\<close>, which starts again whenever it erases a record, to a filter.
\<close>

section \<open>Blocks\<close>

record MemRange =
  mr_addr :: nat
  mr_off :: size_t
  mr_size :: size_t
  mr_dev :: devno

definition Distinct :: "MemRange \<Rightarrow> size_t \<Rightarrow> size_t \<Rightarrow> bool" where
  "Distinct r off sz \<longleftrightarrow> mr_off r > off + sz - 1 \<or> mr_off r + mr_size r - 1 < off"

definition Overlap :: "MemRange \<Rightarrow> size_t \<Rightarrow> size_t \<Rightarrow> bool" where
  "Overlap r off sz \<longleftrightarrow> \<not> Distinct r off sz"

definition Contain :: "MemRange \<Rightarrow> size_t \<Rightarrow> size_t \<Rightarrow> bool" where
  "Contain r off sz \<longleftrightarrow> mr_off r \<le> off \<and> mr_off r + mr_size r \<ge> off + sz"

text \<open>The bytes of a block, and blocks of an object that has \<open>n\<close> bytes.\<close>

definition block :: "size_t \<Rightarrow> size_t \<Rightarrow> nat set" where
  "block off sz = {unat off ..< unat off + unat sz}"

definition block_in :: "nat \<Rightarrow> size_t \<Rightarrow> size_t \<Rightarrow> bool" where
  "block_in n off sz \<longleftrightarrow> 0 < unat sz \<and> unat off + unat sz \<le> n"

lemma block_end:
  assumes "block_in n off sz" "n < 2 ^ 64"
  shows "unat (off + sz - 1) = unat off + unat sz - 1" "unat (off + sz) = unat off + unat sz"
proof -
  have s: "unat (off + sz) = unat off + unat sz"
    using assms by (subst unat_add_lem [THEN iffD1]) (auto simp: block_in_def)
  then show "unat (off + sz) = unat off + unat sz" .
  have "1 \<le> off + sz" using assms(1) s by (simp add: word_le_nat_alt block_in_def)
  from unat_sub [OF this] s show "unat (off + sz - 1) = unat off + unat sz - 1" by simp
qed

lemma Distinct_iff:
  assumes "block_in n (mr_off r) (mr_size r)" "block_in n off sz" "n < 2 ^ 64"
  shows "Distinct r off sz \<longleftrightarrow> block (mr_off r) (mr_size r) \<inter> block off sz = {}"
proof -
  have "Distinct r off sz \<longleftrightarrow> unat off + unat sz \<le> unat (mr_off r) \<or> unat (mr_off r) + unat (mr_size r) \<le> unat off"
    using block_end(1) [OF assms(1,3)] block_end(1) [OF assms(2,3)] assms
    by (auto simp: Distinct_def word_less_nat_alt block_in_def)
  also have "\<dots> \<longleftrightarrow> block (mr_off r) (mr_size r) \<inter> block off sz = {}"
    using assms by (auto simp: block_def block_in_def ivl_disj_int)
  finally show ?thesis .
qed

lemma Contain_iff:
  assumes "block_in n (mr_off r) (mr_size r)" "block_in n off sz" "n < 2 ^ 64"
  shows "Contain r off sz \<longleftrightarrow> block off sz \<subseteq> block (mr_off r) (mr_size r)"
  using block_end(2) [OF assms(1,3)] block_end(2) [OF assms(2,3)] assms
  by (auto simp: Contain_def word_le_nat_alt block_in_def block_def)

text \<open>For blocks with at least one byte that end inside the object, \<open>Overlap\<close> and \<open>Contain\<close> are intersection and inclusion.
  The limits matter: the block of size 0 at offset 0 overlaps every block that does not wrap around, since the
  last byte of it is computed as \<open>2^64 - 1\<close>.\<close>

theorem blocks_compared:
  assumes "block_in n (mr_off r) (mr_size r)" "n < 2 ^ 64"
  shows "(block_in n off sz \<longrightarrow>
      Overlap r off sz = (block (mr_off r) (mr_size r) \<inter> block off sz \<noteq> {}) \<and>
      Contain r off sz = (block off sz \<subseteq> block (mr_off r) (mr_size r))) \<and>
    block 0 0 = {} \<and> Overlap r 0 0"
proof -
  have "\<not> mr_off r > - 1" by (simp add: not_less)
  then have "Overlap r 0 0" by (simp add: Overlap_def Distinct_def)
  then show ?thesis
    using Distinct_iff [OF assms(1) _ assms(2)] Contain_iff [OF assms(1) _ assms(2)] by (auto simp: Overlap_def block_def)
qed

theorem blocks_compared_witness:
  "Overlap \<lparr>mr_addr = 0, mr_off = 4, mr_size = 4, mr_dev = 0\<rparr> 6 8 \<and>
   \<not> Contain \<lparr>mr_addr = 0, mr_off = 4, mr_size = 4, mr_dev = 0\<rparr> 6 8 \<and>
   Overlap \<lparr>mr_addr = 0, mr_off = 4, mr_size = 4, mr_dev = 0\<rparr> 0 0"
proof -
  have "13 \<in> block 6 8" "6 \<in> block 6 8 \<inter> block 4 4" "13 \<notin> block 4 4" by (simp_all add: block_def)
  then show ?thesis
    using blocks_compared [of 16 "\<lparr>mr_addr = 0, mr_off = 4, mr_size = 4, mr_dev = 0\<rparr>" 6 8]
    by (auto simp: block_in_def)
qed

section \<open>Objects\<close>

record Mem =
  mm_size :: size_t
  mm_mode :: int
  mm_type :: "int option"
  mm_type_size :: "nat option"
  mm_expansion :: int
  mm_ranges :: "MemRange list"
  mm_mapped :: "(nat \<times> size_t) option"

definition Mem_new :: "size_t \<Rightarrow> Mem" where
  "Mem_new sz = \<lparr>mm_size = sz, mm_mode = iris_normal, mm_type = None, mm_type_size = None, mm_expansion = 1,
     mm_ranges = [], mm_mapped = None\<rparr>"

definition insert_range :: "nat \<Rightarrow> size_t \<Rightarrow> size_t \<Rightarrow> devno \<Rightarrow> MemRange list \<Rightarrow> MemRange list" where
  "insert_range a off sz dev rs = insort_key mr_addr \<lparr>mr_addr = a, mr_off = off, mr_size = sz, mr_dev = dev\<rparr> rs"

definition AddOwner :: "nat \<Rightarrow> size_t \<Rightarrow> size_t \<Rightarrow> devno \<Rightarrow> Mem \<Rightarrow> Mem" where
  "AddOwner a off sz dev m = m\<lparr>mm_ranges := insert_range a off sz dev (mm_ranges m)\<rparr>"

text \<open>The loop of \<open>SetOwner\<close>: \<open>i\<close> is the iterator, which goes back to the beginning after an \<open>erase\<close>.\<close>

function setowner_loop :: "size_t \<Rightarrow> size_t \<Rightarrow> devno \<Rightarrow> nat \<Rightarrow> bool \<Rightarrow> MemRange list \<Rightarrow> bool \<times> MemRange list" where
  "setowner_loop off sz dev i found rs =
     (if i < length rs
      then let r = rs ! i in
        if Contain r off sz \<and> mr_dev r = dev then setowner_loop off sz dev (Suc i) True rs
        else if Overlap r off sz then setowner_loop off sz dev 0 found (take i rs @ drop (Suc i) rs)
        else setowner_loop off sz dev (Suc i) found rs
      else (found, rs))"
  by pat_completeness auto
termination
  by (relation "measures [\<lambda>(off, sz, dev, i, found, rs). length rs, \<lambda>(off, sz, dev, i, found, rs). length rs - i]") auto

declare setowner_loop.simps [simp del]

definition SetOwner :: "nat \<Rightarrow> size_t \<Rightarrow> size_t \<Rightarrow> devno \<Rightarrow> Mem \<Rightarrow> Mem" where
  "SetOwner a off sz dev m =
     (let (found, rs) = setowner_loop off sz dev 0 False (mm_ranges m)
      in m\<lparr>mm_ranges := (if found then rs else insert_range a off sz dev rs)\<rparr>)"

definition SetOwner_all :: "nat \<Rightarrow> devno \<Rightarrow> Mem \<Rightarrow> Mem" where
  "SetOwner_all a dev m = SetOwner a 0 (mm_size m) dev m"

definition Owner :: "size_t \<Rightarrow> size_t \<Rightarrow> Mem \<Rightarrow> devno option" where
  "Owner off sz m = map_option mr_dev (find (\<lambda>r. Contain r off sz) (mm_ranges m))"

definition Owner_all :: "Mem \<Rightarrow> devno option" where
  "Owner_all m = Owner 0 (mm_size m) m"

definition IsOwner :: "size_t \<Rightarrow> size_t \<Rightarrow> devno \<Rightarrow> Mem \<Rightarrow> bool" where
  "IsOwner off sz dev m \<longleftrightarrow> (\<exists>r \<in> set (mm_ranges m). Contain r off sz \<and> mr_dev r = dev)"

text \<open>\<open>Reduce\<close> records mode and type in any case and the size only for a type it knows.\<close>

definition Mem_Reduce :: "int \<Rightarrow> int \<Rightarrow> Mem \<Rightarrow> Mem" where
  "Mem_Reduce md ty m =
     (let m = m\<lparr>mm_mode := md, mm_type := Some ty\<rparr> in
      if ty = iris_int then m\<lparr>mm_type_size := Some 4\<rparr>
      else if ty = iris_long then m\<lparr>mm_type_size := Some 8\<rparr>
      else if ty = iris_float then m\<lparr>mm_type_size := Some 4\<rparr>
      else if ty = iris_double then m\<lparr>mm_type_size := Some 8\<rparr>
      else m)"

definition Expand :: "int \<Rightarrow> Mem \<Rightarrow> Mem" where
  "Expand n m = m\<lparr>mm_expansion := n\<rparr>"

definition SetMap :: "nat \<Rightarrow> size_t \<Rightarrow> Mem \<Rightarrow> Mem" where
  "SetMap host sz m = m\<lparr>mm_mapped := Some (host, sz)\<rparr>"

section \<open>The loop of SetOwner\<close>

text \<open>The records the loop leaves, and those that make it not add a new one.\<close>

definition covers :: "size_t \<Rightarrow> size_t \<Rightarrow> devno \<Rightarrow> MemRange \<Rightarrow> bool" where
  "covers off sz dev r \<longleftrightarrow> Contain r off sz \<and> mr_dev r = dev"

definition keeps :: "size_t \<Rightarrow> size_t \<Rightarrow> devno \<Rightarrow> MemRange \<Rightarrow> bool" where
  "keeps off sz dev r \<longleftrightarrow> covers off sz dev r \<or> Distinct r off sz"

lemma setowner_loop_unfold:
  "setowner_loop off sz dev i found rs =
     (if i < length rs
      then if covers off sz dev (rs ! i) then setowner_loop off sz dev (Suc i) True rs
        else if keeps off sz dev (rs ! i) then setowner_loop off sz dev (Suc i) found rs
        else setowner_loop off sz dev 0 found (take i rs @ drop (Suc i) rs)
      else (found, rs))"
  by (subst setowner_loop.simps) (simp add: Let_def covers_def keeps_def Overlap_def)

lemma setowner_loop_filter:
  assumes "\<forall>r \<in> set (take i rs). keeps off sz dev r" "found \<longrightarrow> (\<exists>r \<in> set rs. covers off sz dev r)"
    "(\<exists>r \<in> set (take i rs). covers off sz dev r) \<longrightarrow> found"
  shows "setowner_loop off sz dev i found rs = ((\<exists>r \<in> set rs. covers off sz dev r), filter (keeps off sz dev) rs)"
  using assms
proof (induction "(length rs, length rs - i)" arbitrary: i found rs rule: wf_induct_rule [OF wf_lex_prod [OF wf_less wf_less]])
  case (1 i rs found)
  show ?case
  proof (cases "i < length rs")
    case True
    let ?r = "rs ! i"
    let ?rs = "take i rs @ drop (Suc i) rs"
    have t: "set (take (Suc i) rs) = insert ?r (set (take i rs))" using True by (simp add: take_Suc_conv_app_nth)
    have rs: "rs = take i rs @ ?r # drop (Suc i) rs" using True by (simp add: id_take_nth_drop)
    then have s: "set rs = insert ?r (set ?rs)" by (metis insert_is_Un set_append set_simps(2) Un_insert_right)
    consider "covers off sz dev ?r" | "\<not> covers off sz dev ?r" "keeps off sz dev ?r" | "\<not> covers off sz dev ?r" "\<not> keeps off sz dev ?r" by blast
    then show ?thesis
    proof cases
      case 1
      have "setowner_loop off sz dev (Suc i) True rs = ((\<exists>r \<in> set rs. covers off sz dev r), filter (keeps off sz dev) rs)"
        by (rule "1.hyps") (use True "1.prems" t s 1 in \<open>auto simp: keeps_def\<close>)
      with True 1 show ?thesis by (subst setowner_loop_unfold) simp
    next
      case 2
      have "setowner_loop off sz dev (Suc i) found rs = ((\<exists>r \<in> set rs. covers off sz dev r), filter (keeps off sz dev) rs)"
        by (rule "1.hyps") (use True "1.prems" t 2 in auto)
      with True 2 show ?thesis by (subst setowner_loop_unfold) simp
    next
      case 3
      have e: "(\<exists>r \<in> set rs. covers off sz dev r) \<longleftrightarrow> (\<exists>r \<in> set ?rs. covers off sz dev r)" unfolding s using 3(1) by blast
      have l: "length rs - Suc 0 < length rs" using True by arith
      have f: "filter (keeps off sz dev) rs = filter (keeps off sz dev) ?rs"
        using arg_cong [OF rs, of "filter (keeps off sz dev)"] 3(2) by simp
      have "setowner_loop off sz dev 0 found ?rs = ((\<exists>r \<in> set ?rs. covers off sz dev r), filter (keeps off sz dev) ?rs)"
        by (rule "1.hyps") (use True "1.prems"(2) e l in \<open>simp_all del: set_append\<close>)
      with True 3 e f show ?thesis by (subst setowner_loop_unfold) (simp del: set_append filter_append)
    qed
  next
    case False
    with "1.prems" show ?thesis by (subst setowner_loop_unfold) (auto simp: filter_id_conv)
  qed
qed

lemma SetOwner_one_pass:
  "mm_ranges (SetOwner a off sz dev m) =
     (if IsOwner off sz dev m then filter (keeps off sz dev) (mm_ranges m)
      else insert_range a off sz dev (filter (\<lambda>r. Distinct r off sz) (mm_ranges m)))"
proof -
  have "filter (keeps off sz dev) (mm_ranges m) = filter (\<lambda>r. Distinct r off sz) (mm_ranges m)" if "\<not> IsOwner off sz dev m"
    by (rule filter_cong) (use that in \<open>auto simp: keeps_def covers_def IsOwner_def\<close>)
  then show ?thesis
    using setowner_loop_filter [of 0 "mm_ranges m" off sz dev False]
    by (auto simp: SetOwner_def IsOwner_def covers_def keeps_def [abs_def])
qed

text \<open>C10. \<open>SetOwner\<close> ends, and does in one pass what its loop does in many: it drops every block that overlaps the new one and does
  not already say that the device holds all of it, keeps the others in their order, and adds a block only when no
  such block is left.\<close>

theorem SetOwner_filter:
  "mm_ranges (SetOwner a off sz dev m) =
     (if \<exists>r \<in> set (mm_ranges m). Contain r off sz \<and> mr_dev r = dev
      then filter (\<lambda>r. Contain r off sz \<and> mr_dev r = dev \<or> Distinct r off sz) (mm_ranges m)
      else insert_range a off sz dev (filter (\<lambda>r. Distinct r off sz) (mm_ranges m)))"
  by (auto simp: SetOwner_one_pass IsOwner_def keeps_def [abs_def] covers_def)

section \<open>Objects owned as a whole\<close>

text \<open>When only whole objects are transferred and written, every record is about the whole object and the records amount to
  the set of devices that hold it.\<close>

definition whole :: "Mem \<Rightarrow> bool" where
  "whole m \<longleftrightarrow> mm_size m \<noteq> 0 \<and> (\<forall>r \<in> set (mm_ranges m). mr_off r = 0 \<and> mr_size r = mm_size m)"

definition owners :: "Mem \<Rightarrow> devno set" where
  "owners m = mr_dev ` set (mm_ranges m)"

lemma insert_range_set [simp]:
  "set (insert_range a off sz dev rs) = insert \<lparr>mr_addr = a, mr_off = off, mr_size = sz, mr_dev = dev\<rparr> (set rs)"
  by (simp add: insert_range_def set_insort_key)

lemma whole_block:
  assumes "mr_off r = 0" "mr_size r = sz" "sz \<noteq> 0"
  shows "Contain r 0 sz" "\<not> Distinct r 0 sz"
proof -
  have "1 \<le> sz" using assms(3) by (simp add: word_le_nat_alt unat_gt_0 Suc_le_eq)
  then show "Contain r 0 sz" "\<not> Distinct r 0 sz" using assms by (auto simp: Contain_def Distinct_def not_less)
qed

lemma whole_owner:
  assumes "whole m"
  shows "IsOwner 0 (mm_size m) dev m \<longleftrightarrow> dev \<in> owners m" "Owner_all m = None \<longleftrightarrow> owners m = {}"
    "Owner_all m = Some d \<Longrightarrow> d \<in> owners m"
  using assms whole_block(1)
  by (auto simp: IsOwner_def owners_def whole_def Owner_all_def Owner_def find_None_iff find_Some_iff)

lemma whole_set:
  assumes "whole m"
  shows "whole (SetOwner a 0 (mm_size m) dev m)" "owners (SetOwner a 0 (mm_size m) dev m) = {dev}"
    "mm_size (SetOwner a 0 (mm_size m) dev m) = mm_size m" "whole (AddOwner a 0 (mm_size m) dev m)"
    "owners (AddOwner a 0 (mm_size m) dev m) = insert dev (owners m)" "mm_size (AddOwner a 0 (mm_size m) dev m) = mm_size m"
proof -
  let ?S = "SetOwner a 0 (mm_size m) dev m"
  have r: "Contain r 0 (mm_size m) \<and> \<not> Distinct r 0 (mm_size m)" if "r \<in> set (mm_ranges m)" for r
    using that assms whole_block by (auto simp: whole_def)
  then have s: "set (mm_ranges ?S) = (if dev \<in> owners m then {r \<in> set (mm_ranges m). mr_dev r = dev}
      else {\<lparr>mr_addr = a, mr_off = 0, mr_size = mm_size m, mr_dev = dev\<rparr>})"
    by (auto simp: SetOwner_one_pass keeps_def covers_def whole_owner(1) [OF assms] filter_empty_conv)
  show z: "mm_size ?S = mm_size m" by (simp add: SetOwner_def split: prod.splits)
  show "whole ?S" using assms s z by (auto simp: whole_def split: if_splits)
  show "owners ?S = {dev}" using s unfolding owners_def by auto
qed (use assms in \<open>auto simp: whole_def AddOwner_def owners_def\<close>)

end
