(* ===== verification/Iris_Copy.thy ===== *)
theory Iris_Copy
  imports Iris_Prelude
begin

text \<open>
  The copies between host and device memory: \<open>Utils::MemCpy3D\<close> of \<^verbatim>\<open>Utils.cpp\<close> and the transfers \<open>MemH2D\<close> and \<open>MemD2H\<close>
  of the OpenMP device in \<^verbatim>\<open>DeviceOpenMP.cpp\<close>. Memory is a list of bytes and a copy that leaves a buffer has no
  result. A device holds a tile of the host's array without gaps; rows of the tile are copied one by one. Sizes are
  natural numbers: they describe buffers that exist.
\<close>

section \<open>Copying rows\<close>

type_synonym byte = "8 word"

definition memcpy :: "byte list \<Rightarrow> nat \<Rightarrow> byte list \<Rightarrow> nat \<Rightarrow> nat \<Rightarrow> byte list option" where
  "memcpy dst doff src soff n =
     (if doff + n \<le> length dst \<and> soff + n \<le> length src
      then Some (take doff dst @ take n (drop soff src) @ drop (doff + n) dst) else None)"

text \<open>The two loops; \<open>base_d\<close> and \<open>base_h\<close> are the addresses of a row in the two memories.\<close>

definition dev_base :: "nat list \<Rightarrow> nat \<Rightarrow> nat \<Rightarrow> nat \<Rightarrow> nat" where
  "dev_base dev_sizes elem_size i j =
     (let dev_row_pitch = elem_size * dev_sizes ! 0; dev_slice_pitch = dev_sizes ! 1 * dev_row_pitch
      in i * dev_slice_pitch + j * dev_row_pitch)"

definition host_base :: "nat list \<Rightarrow> nat list \<Rightarrow> nat \<Rightarrow> nat \<Rightarrow> nat \<Rightarrow> nat" where
  "host_base off host_sizes elem_size i j =
     (let host_row_pitch = elem_size * host_sizes ! 0; host_slice_pitch = host_sizes ! 1 * host_row_pitch;
          host_start = off ! 0 * elem_size + off ! 1 * host_row_pitch + off ! 2 * host_slice_pitch
      in host_start + i * host_slice_pitch + j * host_row_pitch)"

definition copy_rows :: "(nat \<Rightarrow> nat \<Rightarrow> nat) \<Rightarrow> (nat \<Rightarrow> nat \<Rightarrow> nat) \<Rightarrow> nat \<Rightarrow> nat list \<Rightarrow> byte list \<Rightarrow> byte list \<Rightarrow> byte list option" where
  "copy_rows dbase sbase n dev_sizes src dst =
     opt_fold (\<lambda>i. opt_fold (\<lambda>j dst. memcpy dst (dbase i j) src (sbase i j) n) [0..<dev_sizes ! 1]) [0..<dev_sizes ! 2] dst"

text \<open>The new content of the written side.\<close>

definition MemCpy3D :: "byte list \<Rightarrow> byte list \<Rightarrow> nat list \<Rightarrow> nat list \<Rightarrow> nat list \<Rightarrow> nat \<Rightarrow> bool \<Rightarrow> byte list option" where
  "MemCpy3D dev host off dev_sizes host_sizes elem_size host_2_dev =
     (let d = dev_base dev_sizes elem_size; h = host_base off host_sizes elem_size; n = dev_sizes ! 0 * elem_size in
      if host_2_dev then copy_rows d h n dev_sizes host dev else copy_rows h d n dev_sizes dev host)"

definition OpenMP_MemH2D :: "byte list \<Rightarrow> nat list \<Rightarrow> nat list \<Rightarrow> nat list \<Rightarrow> nat \<Rightarrow> nat \<Rightarrow> nat \<Rightarrow> byte list \<Rightarrow> byte list option" where
  "OpenMP_MemH2D dev off host_sizes dev_sizes elem_size dim sz host =
     (if dim = 2 \<or> dim = 3 then MemCpy3D dev host off dev_sizes host_sizes elem_size True
      else memcpy dev 0 host (off ! 0 * elem_size) sz)"

definition OpenMP_MemD2H :: "byte list \<Rightarrow> nat list \<Rightarrow> nat list \<Rightarrow> nat list \<Rightarrow> nat \<Rightarrow> nat \<Rightarrow> nat \<Rightarrow> byte list \<Rightarrow> byte list option" where
  "OpenMP_MemD2H dev off host_sizes dev_sizes elem_size dim sz host =
     (if dim = 2 \<or> dim = 3 then MemCpy3D dev host off dev_sizes host_sizes elem_size False
      else memcpy host (off ! 0 * elem_size) dev 0 sz)"

section \<open>What a sequence of row copies does\<close>

lemma opt_fold_nested:
  "opt_fold (\<lambda>i. opt_fold (g i) js) is s = opt_fold (\<lambda>p. g (fst p) (snd p)) (List.product is js) s"
proof (induction "is" arbitrary: s)
  case (Cons i "is")
  have "opt_fold (\<lambda>p. g (fst p) (snd p)) (map (Pair i) js) s = opt_fold (g i) js s" for s
    by (induction js arbitrary: s) (auto split: bind_split)
  moreover have "opt_fold (\<lambda>i. opt_fold (g i) js) is = opt_fold (\<lambda>p. g (fst p) (snd p)) (List.product is js)"
    by (rule ext) (rule Cons)
  ultimately show ?case by (simp add: opt_fold_append)
qed simp

lemma memcpy_nth:
  assumes "memcpy dst doff src soff n = Some dst'"
  shows "length dst' = length dst" "k < length dst \<Longrightarrow> dst' ! k = (if doff \<le> k \<and> k < doff + n then src ! (soff + (k - doff)) else dst ! k)"
proof -
  have b: "doff + n \<le> length dst" "soff + n \<le> length src" "dst' = take doff dst @ take n (drop soff src) @ drop (doff + n) dst"
    using assms by (auto simp: memcpy_def split: if_splits)
  have l: "length (take doff dst) = doff" "length (take n (drop soff src)) = n" using b by auto
  show "length dst' = length dst" using b by simp
  show "k < length dst \<Longrightarrow> dst' ! k = (if doff \<le> k \<and> k < doff + n then src ! (soff + (k - doff)) else dst ! k)"
    unfolding b(3) nth_append l using b(1,2) by auto
qed

text \<open>Rows \<open>p\<close> of length \<open>n\<close> that stay in both buffers and do not overlap in the written one.\<close>

lemma copy_rows_spec:
  assumes "\<And>p. p \<in> set ps \<Longrightarrow> D p + n \<le> length dst \<and> S p + n \<le> length src" "distinct ps"
    "\<And>p q. p \<in> set ps \<Longrightarrow> q \<in> set ps \<Longrightarrow> p \<noteq> q \<Longrightarrow> D p + n \<le> D q \<or> D q + n \<le> D p"
  shows "\<exists>dst'. opt_fold (\<lambda>p dst. memcpy dst (D p) src (S p) n) ps dst = Some dst' \<and> length dst' = length dst \<and>
    (\<forall>p \<in> set ps. \<forall>b < n. dst' ! (D p + b) = src ! (S p + b)) \<and>
    (\<forall>k < length dst. (\<forall>p \<in> set ps. \<not> (D p \<le> k \<and> k < D p + n)) \<longrightarrow> dst' ! k = dst ! k)"
  using assms
proof (induction ps arbitrary: dst)
  case (Cons p ps)
  obtain d1 where d1: "memcpy dst (D p) src (S p) n = Some d1" using Cons.prems(1) [of p] by (simp add: memcpy_def)
  note m = memcpy_nth [OF d1]
  have "\<exists>dst'. opt_fold (\<lambda>p dst. memcpy dst (D p) src (S p) n) ps d1 = Some dst' \<and> length dst' = length d1 \<and>
      (\<forall>p \<in> set ps. \<forall>b < n. dst' ! (D p + b) = src ! (S p + b)) \<and>
      (\<forall>k < length d1. (\<forall>p \<in> set ps. \<not> (D p \<le> k \<and> k < D p + n)) \<longrightarrow> dst' ! k = d1 ! k)"
    by (rule Cons.IH) (use Cons.prems m(1) in auto)
  then obtain dst' where d': "opt_fold (\<lambda>p dst. memcpy dst (D p) src (S p) n) ps d1 = Some dst'" "length dst' = length dst"
    "\<And>q b. q \<in> set ps \<Longrightarrow> b < n \<Longrightarrow> dst' ! (D q + b) = src ! (S q + b)"
    "\<And>k. k < length dst \<Longrightarrow> (\<forall>q \<in> set ps. \<not> (D q \<le> k \<and> k < D q + n)) \<Longrightarrow> dst' ! k = d1 ! k" using m(1) by auto
  have row: "dst' ! (D p + b) = src ! (S p + b)" if "b < n" for b
  proof -
    have "\<not> (D q \<le> D p + b \<and> D p + b < D q + n)" if q: "q \<in> set ps" for q
    proof -
      have "p \<noteq> q" using Cons.prems(2) q by auto
      from Cons.prems(3) [OF _ _ this] q \<open>b < n\<close> show ?thesis by auto
    qed
    moreover have "D p + b < length dst" using Cons.prems(1) [of p] that by auto
    ultimately show ?thesis using d'(4) [of "D p + b"] m(2) [of "D p + b"] that by simp
  qed
  show ?case using d1 d' row m(2) by auto
qed simp

section \<open>Tiles\<close>

text \<open>A tile of an array: three extents, all of the tile inside the host's array, and buffers of the right size.\<close>

definition tile_ok :: "byte list \<Rightarrow> byte list \<Rightarrow> nat list \<Rightarrow> nat list \<Rightarrow> nat list \<Rightarrow> nat \<Rightarrow> bool" where
  "tile_ok dev host off dev_sizes host_sizes elem_size \<longleftrightarrow>
     length off = 3 \<and> length dev_sizes = 3 \<and> length host_sizes = 3 \<and>
     (\<forall>k < 3. off ! k + dev_sizes ! k \<le> host_sizes ! k) \<and>
     length dev = elem_size * dev_sizes ! 0 * dev_sizes ! 1 * dev_sizes ! 2 \<and>
     length host = elem_size * host_sizes ! 0 * host_sizes ! 1 * host_sizes ! 2"

lemma dev_base_eq: "dev_base ds es i j = (i * ds ! 1 + j) * (es * ds ! 0)"
  by (simp add: dev_base_def Let_def algebra_simps)

lemma host_base_eq: "host_base off hs es i j = (((off ! 2 + i) * hs ! 1 + (off ! 1 + j)) * hs ! 0 + off ! 0) * es"
  by (simp add: host_base_def Let_def algebra_simps)

text \<open>Position of a row in an array of rows, and rows apart.\<close>

lemma row_index_less: "i < c \<Longrightarrow> j < b \<Longrightarrow> i * b + j < c * (b :: nat)"
  using mult_le_mono1 [of "Suc i" c b] by simp

lemma row_index_inj: "i * b + j = i' * b + j' \<Longrightarrow> j < b \<Longrightarrow> j' < (b :: nat) \<Longrightarrow> i = i' \<and> j = j'"
  by (metis add.commute div_mult_self3 div_less add_right_imp_eq gr_implies_not0 add.right_neutral)

lemma pitch_apart: "a \<noteq> b \<Longrightarrow> n \<le> w \<Longrightarrow> a * w + c + n \<le> b * w + c \<or> b * w + c + n \<le> a * w + (c :: nat)"
  using mult_le_mono1 [of "Suc a" b w] mult_le_mono1 [of "Suc b" a w] by (cases "a < b") auto

text \<open>The rows of the tile, in the device's memory and in the host's: inside, and apart.\<close>

lemma dev_rows:
  assumes "tile_ok dev host off ds hs es"
  shows "i < ds ! 2 \<Longrightarrow> j < ds ! 1 \<Longrightarrow> dev_base ds es i j + ds ! 0 * es \<le> length dev"
    "(i, j) \<noteq> (i', j') \<Longrightarrow> j < ds ! 1 \<Longrightarrow> j' < ds ! 1 \<Longrightarrow>
      dev_base ds es i j + ds ! 0 * es \<le> dev_base ds es i' j' \<or> dev_base ds es i' j' + ds ! 0 * es \<le> dev_base ds es i j"
proof -
  show "dev_base ds es i j + ds ! 0 * es \<le> length dev" if "i < ds ! 2" "j < ds ! 1"
  proof -
    have "Suc (i * ds ! 1 + j) * (es * ds ! 0) \<le> (ds ! 2 * ds ! 1) * (es * ds ! 0)"
      using row_index_less [OF that] by (intro mult_le_mono1) simp
    also have "\<dots> = length dev" using assms by (simp add: tile_ok_def mult_ac)
    finally show ?thesis by (simp add: dev_base_eq algebra_simps)
  qed
  show "dev_base ds es i j + ds ! 0 * es \<le> dev_base ds es i' j' \<or> dev_base ds es i' j' + ds ! 0 * es \<le> dev_base ds es i j"
    if "(i, j) \<noteq> (i', j')" "j < ds ! 1" "j' < ds ! 1"
  proof -
    have "i * ds ! 1 + j \<noteq> i' * ds ! 1 + j'" using row_index_inj [OF _ that(2,3)] that(1) by blast
    from pitch_apart [OF this, of "ds ! 0 * es" "es * ds ! 0" 0] show ?thesis by (simp add: dev_base_eq mult.commute)
  qed
qed

lemma host_rows:
  assumes "tile_ok dev host off ds hs es"
  shows "i < ds ! 2 \<Longrightarrow> j < ds ! 1 \<Longrightarrow> host_base off hs es i j + ds ! 0 * es \<le> length host"
    "(i, j) \<noteq> (i', j') \<Longrightarrow> j < ds ! 1 \<Longrightarrow> j' < ds ! 1 \<Longrightarrow>
      host_base off hs es i j + ds ! 0 * es \<le> host_base off hs es i' j' \<or> host_base off hs es i' j' + ds ! 0 * es \<le> host_base off hs es i j"
proof -
  have fit: "off ! 0 + ds ! 0 \<le> hs ! 0" "off ! 1 + ds ! 1 \<le> hs ! 1" "off ! 2 + ds ! 2 \<le> hs ! 2"
    using assms by (auto simp: tile_ok_def)
  let ?q = "\<lambda>i j. (off ! 2 + i) * hs ! 1 + (off ! 1 + j)"
  show "host_base off hs es i j + ds ! 0 * es \<le> length host" if "i < ds ! 2" "j < ds ! 1"
  proof -
    have "?q i j < hs ! 2 * hs ! 1" by (rule row_index_less) (use that fit in auto)
    then have "Suc (?q i j) * hs ! 0 \<le> (hs ! 2 * hs ! 1) * hs ! 0" by (intro mult_le_mono1) simp
    with fit(1) have "(?q i j * hs ! 0 + off ! 0 + ds ! 0) * es \<le> ((hs ! 2 * hs ! 1) * hs ! 0) * es" by (intro mult_le_mono1) simp
    also have "\<dots> = length host" using assms by (simp add: tile_ok_def mult_ac)
    finally show ?thesis by (simp add: host_base_eq add_mult_distrib)
  qed
  show "host_base off hs es i j + ds ! 0 * es \<le> host_base off hs es i' j' \<or> host_base off hs es i' j' + ds ! 0 * es \<le> host_base off hs es i j"
    if "(i, j) \<noteq> (i', j')" "j < ds ! 1" "j' < ds ! 1"
  proof -
    have "?q i j \<noteq> ?q i' j'" using row_index_inj [of "off ! 2 + i" "hs ! 1" "off ! 1 + j" "off ! 2 + i'" "off ! 1 + j'"] that fit(2) by auto
    from pitch_apart [OF this, of "ds ! 0 * es" "hs ! 0 * es" "off ! 0 * es"] fit(1)
    show ?thesis by (simp add: host_base_eq add_mult_distrib mult.assoc)
  qed
qed

text \<open>Every byte of the device's memory lies in a row.\<close>

lemma dev_rows_cover:
  assumes "tile_ok dev host off ds hs es" "k < length dev"
  shows "\<exists>i j b. i < ds ! 2 \<and> j < ds ! 1 \<and> b < ds ! 0 * es \<and> k = dev_base ds es i j + b"
proof -
  let ?w = "es * ds ! 0"
  have k: "k < (ds ! 2 * ds ! 1) * ?w" using assms by (simp add: tile_ok_def mult_ac)
  then have pos: "0 < ?w" "0 < ds ! 1" by (auto intro: Nat.gr0I)
  let ?q = "k div ?w"
  have q: "?q < ds ! 2 * ds ! 1" using k pos(1) by (simp add: div_less_iff_less_mult)
  then have "?q div ds ! 1 < ds ! 2" using pos(2) by (simp add: div_less_iff_less_mult)
  moreover have "?q mod ds ! 1 < ds ! 1" "k mod ?w < ds ! 0 * es" using pos by (simp_all add: mult.commute [of "ds ! 0"])
  moreover have "k = dev_base ds es (?q div ds ! 1) (?q mod ds ! 1) + k mod ?w" by (simp only: dev_base_eq div_mult_mod_eq)
  ultimately show ?thesis by blast
qed

abbreviation rows :: "nat list \<Rightarrow> (nat \<times> nat) list" where
  "rows ds \<equiv> List.product [0..<ds ! 2] [0..<ds ! 1]"

lemma MemCpy3D_H2D:
  assumes "tile_ok dev host off ds hs es"
  shows "\<exists>dev'. MemCpy3D dev host off ds hs es True = Some dev' \<and> length dev' = length dev \<and>
    (\<forall>i < ds ! 2. \<forall>j < ds ! 1. \<forall>b < ds ! 0 * es. dev' ! (dev_base ds es i j + b) = host ! (host_base off hs es i j + b))"
proof -
  let ?D = "\<lambda>p. dev_base ds es (fst p) (snd p)" and ?H = "\<lambda>p. host_base off hs es (fst p) (snd p)"
  have "\<exists>dev'. opt_fold (\<lambda>p dst. memcpy dst (?D p) host (?H p) (ds ! 0 * es)) (rows ds) dev = Some dev' \<and> length dev' = length dev \<and>
      (\<forall>p \<in> set (rows ds). \<forall>b < ds ! 0 * es. dev' ! (?D p + b) = host ! (?H p + b)) \<and>
      (\<forall>k < length dev. (\<forall>p \<in> set (rows ds). \<not> (?D p \<le> k \<and> k < ?D p + ds ! 0 * es)) \<longrightarrow> dev' ! k = dev ! k)"
  proof (rule copy_rows_spec)
    show "?D p + ds ! 0 * es \<le> length dev \<and> ?H p + ds ! 0 * es \<le> length host" if "p \<in> set (rows ds)" for p
      using that dev_rows(1) [OF assms] host_rows(1) [OF assms] by auto
    show "?D p + ds ! 0 * es \<le> ?D q \<or> ?D q + ds ! 0 * es \<le> ?D p" if "p \<in> set (rows ds)" "q \<in> set (rows ds)" "p \<noteq> q" for p q
      using that dev_rows(2) [OF assms, of "fst p" "snd p" "fst q" "snd q"] by auto
  qed (simp add: distinct_product)
  then show ?thesis by (auto simp: MemCpy3D_def copy_rows_def Let_def opt_fold_nested)
qed

lemma MemCpy3D_D2H:
  assumes "tile_ok dev host off ds hs es"
  shows "\<exists>host'. MemCpy3D dev host off ds hs es False = Some host' \<and> length host' = length host \<and>
    (\<forall>i < ds ! 2. \<forall>j < ds ! 1. \<forall>b < ds ! 0 * es. host' ! (host_base off hs es i j + b) = dev ! (dev_base ds es i j + b)) \<and>
    (\<forall>k < length host. (\<forall>i < ds ! 2. \<forall>j < ds ! 1. \<not> (host_base off hs es i j \<le> k \<and> k < host_base off hs es i j + ds ! 0 * es)) \<longrightarrow>
      host' ! k = host ! k)"
proof -
  let ?D = "\<lambda>p. dev_base ds es (fst p) (snd p)" and ?H = "\<lambda>p. host_base off hs es (fst p) (snd p)"
  have "\<exists>host'. opt_fold (\<lambda>p dst. memcpy dst (?H p) dev (?D p) (ds ! 0 * es)) (rows ds) host = Some host' \<and> length host' = length host \<and>
      (\<forall>p \<in> set (rows ds). \<forall>b < ds ! 0 * es. host' ! (?H p + b) = dev ! (?D p + b)) \<and>
      (\<forall>k < length host. (\<forall>p \<in> set (rows ds). \<not> (?H p \<le> k \<and> k < ?H p + ds ! 0 * es)) \<longrightarrow> host' ! k = host ! k)"
  proof (rule copy_rows_spec)
    show "?H p + ds ! 0 * es \<le> length host \<and> ?D p + ds ! 0 * es \<le> length dev" if "p \<in> set (rows ds)" for p
      using that dev_rows(1) [OF assms] host_rows(1) [OF assms] by auto
    show "?H p + ds ! 0 * es \<le> ?H q \<or> ?H q + ds ! 0 * es \<le> ?H p" if "p \<in> set (rows ds)" "q \<in> set (rows ds)" "p \<noteq> q" for p q
      using that host_rows(2) [OF assms, of "fst p" "snd p" "fst q" "snd q"] by auto
  qed (simp add: distinct_product)
  then show ?thesis by (auto simp: MemCpy3D_def copy_rows_def Let_def opt_fold_nested)
qed

lemma MemCpy3D_back:
  assumes "tile_ok dev host off ds hs es" "MemCpy3D dev host off ds hs es True = Some dev'"
  shows "MemCpy3D dev' host off ds hs es False = Some host"
proof -
  from MemCpy3D_H2D [OF assms(1)] assms(2) have d: "length dev' = length dev"
    "\<And>i j b. i < ds ! 2 \<Longrightarrow> j < ds ! 1 \<Longrightarrow> b < ds ! 0 * es \<Longrightarrow> dev' ! (dev_base ds es i j + b) = host ! (host_base off hs es i j + b)" by auto
  have "tile_ok dev' host off ds hs es" using assms(1) d(1) by (simp add: tile_ok_def)
  from MemCpy3D_D2H [OF this] obtain host' where h: "MemCpy3D dev' host off ds hs es False = Some host'" "length host' = length host"
    "\<And>i j b. i < ds ! 2 \<Longrightarrow> j < ds ! 1 \<Longrightarrow> b < ds ! 0 * es \<Longrightarrow> host' ! (host_base off hs es i j + b) = dev' ! (dev_base ds es i j + b)"
    "\<And>k. k < length host \<Longrightarrow> (\<forall>i < ds ! 2. \<forall>j < ds ! 1. \<not> (host_base off hs es i j \<le> k \<and> k < host_base off hs es i j + ds ! 0 * es)) \<Longrightarrow>
      host' ! k = host ! k" by blast
  have "host' ! k = host ! k" if "k < length host" for k
  proof (cases "\<exists>i < ds ! 2. \<exists>j < ds ! 1. host_base off hs es i j \<le> k \<and> k < host_base off hs es i j + ds ! 0 * es")
    case True
    then obtain i j where i: "i < ds ! 2" "j < ds ! 1" "host_base off hs es i j \<le> k" "k < host_base off hs es i j + ds ! 0 * es" by blast
    then obtain b where "k = host_base off hs es i j + b" "b < ds ! 0 * es" by (metis add_less_cancel_left le_Suc_ex)
    with h(3) [OF i(1,2)] d(2) [OF i(1,2)] show ?thesis by simp
  qed (use h(4) that in auto)
  with h(2) have "host' = host" by (simp add: nth_equalityI)
  with h(1) show ?thesis by simp
qed

lemma MemCpy3D_forth:
  assumes "tile_ok dev host off ds hs es" "MemCpy3D dev host off ds hs es False = Some host'" "length dev0 = length dev"
  shows "MemCpy3D dev0 host' off ds hs es True = Some dev"
proof -
  from MemCpy3D_D2H [OF assms(1)] assms(2) have h: "length host' = length host"
    "\<And>i j b. i < ds ! 2 \<Longrightarrow> j < ds ! 1 \<Longrightarrow> b < ds ! 0 * es \<Longrightarrow> host' ! (host_base off hs es i j + b) = dev ! (dev_base ds es i j + b)" by auto
  have "tile_ok dev0 host' off ds hs es" using assms(1,3) h(1) by (simp add: tile_ok_def)
  from MemCpy3D_H2D [OF this] obtain dev' where d: "MemCpy3D dev0 host' off ds hs es True = Some dev'" "length dev' = length dev"
    "\<And>i j b. i < ds ! 2 \<Longrightarrow> j < ds ! 1 \<Longrightarrow> b < ds ! 0 * es \<Longrightarrow> dev' ! (dev_base ds es i j + b) = host' ! (host_base off hs es i j + b)"
    using assms(3) by auto
  have "dev' ! k = dev ! k" if "k < length dev" for k
    using dev_rows_cover [OF assms(1) that] d(3) h(2) by metis
  with d(2) have "dev' = dev" by (simp add: nth_equalityI)
  with d(1) show ?thesis by simp
qed

section \<open>The transfers of the device\<close>

definition transfer_ok :: "byte list \<Rightarrow> byte list \<Rightarrow> nat list \<Rightarrow> nat list \<Rightarrow> nat list \<Rightarrow> nat \<Rightarrow> nat \<Rightarrow> nat \<Rightarrow> bool" where
  "transfer_ok dev host off host_sizes dev_sizes elem_size dim sz \<longleftrightarrow>
     (if dim = 2 \<or> dim = 3 then tile_ok dev host off dev_sizes host_sizes elem_size
      else sz = length dev \<and> off ! 0 * elem_size + sz \<le> length host)"

text \<open>C27. A transfer to the device and back leaves the host's array as it was, and a transfer to the host and back restores the
  device's memory, for one, two and three dimensions; no copy leaves a buffer.\<close>

theorem transfer_roundtrip:
  assumes "transfer_ok dev host off hs ds es dim sz" "length dev0 = length dev"
  shows "(\<exists>dev'. OpenMP_MemH2D dev off hs ds es dim sz host = Some dev' \<and> OpenMP_MemD2H dev' off hs ds es dim sz host = Some host) \<and>
    (\<exists>host'. OpenMP_MemD2H dev off hs ds es dim sz host = Some host' \<and> OpenMP_MemH2D dev0 off hs ds es dim sz host' = Some dev)"
proof (cases "dim = 2 \<or> dim = 3")
  case True
  then have t: "tile_ok dev host off ds hs es" using assms(1) by (auto simp: transfer_ok_def)
  from MemCpy3D_H2D [OF t] MemCpy3D_D2H [OF t] MemCpy3D_back [OF t] MemCpy3D_forth [OF t _ assms(2)] True
  show ?thesis by (auto simp: OpenMP_MemH2D_def OpenMP_MemD2H_def)
next
  case False
  with assms(1) have t: "sz = length dev" "off ! 0 * es + sz \<le> length host" by (auto simp: transfer_ok_def)
  have "take a host @ take n (drop a host) @ drop (a + n) host = host" for a n
    by (metis append_take_drop_id drop_drop add.commute)
  with False t assms(2) show ?thesis by (auto simp: OpenMP_MemH2D_def OpenMP_MemD2H_def memcpy_def)
qed

theorem transfer_roundtrip_witness:
  "\<exists>dev'. OpenMP_MemH2D [0, 0, 0, 0] [1, 1, 0] [3, 3, 1] [2, 2, 1] 1 2 4 [1, 2, 3, 4, 5, 6, 7, 8, 9] = Some dev' \<and> dev' = [5, 6, 8, 9] \<and>
     OpenMP_MemD2H dev' [1, 1, 0] [3, 3, 1] [2, 2, 1] 1 2 4 [1, 2, 3, 4, 5, 6, 7, 8, 9] = Some [1, 2, 3, 4, 5, 6, 7, 8, 9]"
proof -
  have "transfer_ok [0, 0, 0, 0] [1, 2, 3, 4, 5, 6, 7, 8, 9] [1, 1, 0] [3, 3, 1] [2, 2, 1] 1 2 4"
    by (simp add: transfer_ok_def tile_ok_def All_less_Suc numeral_3_eq_3)
  moreover have "OpenMP_MemH2D [0, 0, 0, 0] [1, 1, 0] [3, 3, 1] [2, 2, 1] 1 2 4 [1, 2, 3, 4, 5, 6, 7, 8, 9] = Some [5, 6, 8, 9]" by code_simp
  ultimately show ?thesis using transfer_roundtrip [of _ _ _ _ _ _ _ _ "[0, 0, 0, 0]"] by fastforce
qed

text \<open>What arrives where: byte \<open>b\<close> of element \<open>(x, y, z)\<close> of the tile is byte \<open>b\<close> of element \<open>(x, y, z) + off\<close> of the host's
  array, in the row-major order of both, and a transfer to the host changes no other byte of it.\<close>

theorem copy_elements:
  assumes "tile_ok dev host off ds hs es" "x < ds ! 0" "y < ds ! 1" "z < ds ! 2" "b < es"
  shows "(\<exists>dev'. MemCpy3D dev host off ds hs es True = Some dev' \<and>
      dev' ! (((z * ds ! 1 + y) * ds ! 0 + x) * es + b) =
      host ! ((((off ! 2 + z) * hs ! 1 + (off ! 1 + y)) * hs ! 0 + (off ! 0 + x)) * es + b)) \<and>
    (\<exists>host'. MemCpy3D dev host off ds hs es False = Some host' \<and>
      host' ! ((((off ! 2 + z) * hs ! 1 + (off ! 1 + y)) * hs ! 0 + (off ! 0 + x)) * es + b) =
      dev ! (((z * ds ! 1 + y) * ds ! 0 + x) * es + b))"
proof -
  have b: "x * es + b < ds ! 0 * es" using row_index_less [OF assms(2,5)] .
  have at: "((z * ds ! 1 + y) * ds ! 0 + x) * es + b = dev_base ds es z y + (x * es + b)"
    "(((off ! 2 + z) * hs ! 1 + (off ! 1 + y)) * hs ! 0 + (off ! 0 + x)) * es + b = host_base off hs es z y + (x * es + b)"
    by (simp_all add: dev_base_eq host_base_eq algebra_simps)
  show ?thesis unfolding at using MemCpy3D_H2D [OF assms(1)] MemCpy3D_D2H [OF assms(1)] assms(3,4) b by blast
qed

theorem copy_elements_witness:
  "\<exists>dev'. MemCpy3D [0, 0, 0, 0] [1, 2, 3, 4, 5, 6, 7, 8, 9] [1, 1, 0] [2, 2, 1] [3, 3, 1] 1 True = Some dev' \<and> dev' ! 2 = 8"
  using copy_elements [of "[0, 0, 0, 0]" "[1, 2, 3, 4, 5, 6, 7, 8, 9]" "[1, 1, 0]" "[2, 2, 1]" "[3, 3, 1]" 1 0 1 0 0]
  by (simp add: tile_ok_def All_less_Suc numeral_3_eq_3)

end
