(* ===== verification/Iris_Consistency.thy ===== *)
theory Iris_Consistency
  imports Iris_Mem Iris_Kernel Iris_Copy
begin

text \<open>
  How copies of \<open>IRIS_MEM\<close> objects are kept consistent: \<^verbatim>\<open>Consistency.cpp\<close>, which a worker calls before it executes
  a task, and the parts of \<open>ExecuteKernel\<close>, \<open>ExecuteH2D\<close> and \<open>ExecuteD2H\<close> of \<^verbatim>\<open>Device.cpp\<close> for these objects.
  Devices work synchronously and copy as the OpenMP device does; kernels come without the access ranges of the
  polyhedral library (\<open>npolymems\<close> is 0), and objects are not reduced (\<open>mode\<close> is \<open>iris_normal\<close>). A kernel is the function from
  the contents of its arguments to the contents it leaves. The specification is one memory without copies.
\<close>

section \<open>Objects with their copies\<close>

record copies =
  c_mem :: Mem
  c_archs :: "devno \<Rightarrow> byte list option"
  c_host_inter :: "byte list"

type_synonym cstore = "uid \<Rightarrow> copies"

text \<open>What a new buffer contains, and where \<open>malloc\<close> places a new block record.\<close>

record alloc_env =
  a_junk :: "nat \<Rightarrow> byte list"
  a_addr :: "MemRange list \<Rightarrow> nat"

definition Mem_arch :: "alloc_env \<Rightarrow> devno \<Rightarrow> copies \<Rightarrow> copies" where
  "Mem_arch e d c =
     (if c_archs c d = None then c\<lparr>c_archs := (c_archs c)(d \<mapsto> a_junk e (unat (mm_size (c_mem c))))\<rparr> else c)"

text \<open>\<open>MemH2D\<close> and \<open>MemD2H\<close> of a linear command: one dimension, and the element size is the 0 of a new command.\<close>

definition linear_H2D :: "alloc_env \<Rightarrow> devno \<Rightarrow> size_t \<Rightarrow> size_t \<Rightarrow> byte list \<Rightarrow> copies \<Rightarrow> copies option" where
  "linear_H2D e d off sz host c =
     (let c = Mem_arch e d c in
      map_option (\<lambda>b. c\<lparr>c_archs := (c_archs c)(d \<mapsto> b)\<rparr>)
        (OpenMP_MemH2D (the (c_archs c d)) [unat off, 0, 0] [0, 1, 1] [0, 1, 1] 0 1 (unat sz) host))"

definition linear_D2H :: "alloc_env \<Rightarrow> devno \<Rightarrow> size_t \<Rightarrow> size_t \<Rightarrow> byte list \<Rightarrow> copies \<Rightarrow> (copies \<times> byte list) option" where
  "linear_D2H e d off sz host c =
     (let c = Mem_arch e d c in
      map_option (Pair c) (OpenMP_MemD2H (the (c_archs c d)) [unat off, 0, 0] [0, 1, 1] [0, 1, 1] 0 1 (unat sz) host))"

definition ExecuteH2D :: "alloc_env \<Rightarrow> devno \<Rightarrow> size_t \<Rightarrow> size_t \<Rightarrow> byte list \<Rightarrow> bool \<Rightarrow> copies \<Rightarrow> copies option" where
  "ExecuteH2D e d off sz host exclusive c =
     (let a = a_addr e (mm_ranges (c_mem c));
          c = c\<lparr>c_mem := (if exclusive then SetOwner a off sz d (c_mem c) else AddOwner a off sz d (c_mem c))\<rparr>
      in linear_H2D e d off sz host c)"

section \<open>Consistency\<close>

text \<open>The owner's copy goes to the intermediate host memory and from there to the device.\<close>

definition fetch_from_owner :: "alloc_env \<Rightarrow> devno \<Rightarrow> devno \<Rightarrow> bool \<Rightarrow> copies \<Rightarrow> copies option" where
  "fetch_from_owner e ow dev exclusive c =
     Option.bind (linear_D2H e ow 0 (mm_size (c_mem c)) (c_host_inter c) c)
       (\<lambda>(c, h). ExecuteH2D e dev 0 (mm_size (c_mem c)) h exclusive (c\<lparr>c_host_inter := h\<rparr>))"

definition ResolveKernelWithoutPolymem :: "alloc_env \<Rightarrow> devno \<Rightarrow> copies \<Rightarrow> copies option" where
  "ResolveKernelWithoutPolymem e dev c =
     (case Owner_all (c_mem c) of
        None \<Rightarrow> Some c
      | Some ow \<Rightarrow> if dev = ow \<or> IsOwner 0 (mm_size (c_mem c)) dev (c_mem c) then Some c
                     else fetch_from_owner e ow dev True c)"

definition ResolveD2H :: "alloc_env \<Rightarrow> devno \<Rightarrow> copies \<Rightarrow> copies option" where
  "ResolveD2H e dev c =
     (case Owner_all (c_mem c) of
        None \<Rightarrow> Some c
      | Some ow \<Rightarrow> if dev = ow \<or> IsOwner 0 (mm_size (c_mem c)) dev (c_mem c) then Some c
                     else fetch_from_owner e ow dev False c)"

text \<open>Commands on \<open>IRIS_MEM\<close> objects; the arguments of a kernel are those of \<^verbatim>\<open>Kernel.h\<close>.\<close>

datatype mcmd =
    MKernel "KernelArg list" "(uid \<Rightarrow> byte list) \<Rightarrow> uid \<Rightarrow> byte list"
  | MH2D uid size_t size_t "byte list"
  | MD2H uid size_t size_t "byte list"

definition upd :: "uid \<Rightarrow> (copies \<Rightarrow> copies option) \<Rightarrow> cstore \<Rightarrow> cstore option" where
  "upd u f S = map_option (\<lambda>c. S(u := c)) (f (S u))"

definition arg_uid :: "KernelArg \<Rightarrow> uid option" where
  "arg_uid arg = (case arg_mem arg of None \<Rightarrow> None | Some b \<Rightarrow> if mem_handler b = IRIS_MEM then Some (mem_uid b) else None)"

definition ResolveKernel :: "alloc_env \<Rightarrow> devno \<Rightarrow> KernelArg list \<Rightarrow> cstore \<Rightarrow> cstore option" where
  "ResolveKernel e dev args S =
     opt_fold (\<lambda>arg S. case arg_uid arg of None \<Rightarrow> Some S | Some u \<Rightarrow> upd u (ResolveKernelWithoutPolymem e dev) S) args S"

fun resolve_cmd :: "alloc_env \<Rightarrow> devno \<Rightarrow> mcmd \<Rightarrow> cstore \<Rightarrow> cstore option" where
  "resolve_cmd e dev (MKernel args f) S = ResolveKernel e dev args S"
| "resolve_cmd e dev (MD2H u off sz host) S = upd u (ResolveD2H e dev) S"
| "resolve_cmd e dev (MH2D u off sz host) S = Some S"

definition Resolve :: "alloc_env \<Rightarrow> devno \<Rightarrow> mcmd list \<Rightarrow> cstore \<Rightarrow> cstore option" where
  "Resolve e dev cmds S = opt_fold (resolve_cmd e dev) cmds S"

section \<open>Execution\<close>

text \<open>The loop over the arguments declares the device the owner of what the kernel will write and binds the memory; then
  the kernel runs.\<close>

definition kernel_arg :: "alloc_env \<Rightarrow> devno \<Rightarrow> KernelArg \<Rightarrow> copies \<Rightarrow> copies" where
  "kernel_arg e dev arg c =
     (let a = a_addr e (mm_ranges (c_mem c));
          c = (if arg_mode arg = iris_w \<or> arg_mode arg = iris_rw
               then c\<lparr>c_mem := SetOwner a (arg_mem_off arg) (arg_mem_size arg) dev (c_mem c)\<rparr> else c)
      in Mem_arch e dev c)"

definition kernel_args :: "alloc_env \<Rightarrow> devno \<Rightarrow> KernelArg list \<Rightarrow> cstore \<Rightarrow> cstore" where
  "kernel_args e dev args S =
     fold (\<lambda>arg S. case arg_uid arg of None \<Rightarrow> S | Some u \<Rightarrow> S(u := kernel_arg e dev arg (S u))) args S"

definition arg_uids :: "(int \<Rightarrow> bool) \<Rightarrow> KernelArg list \<Rightarrow> uid set" where
  "arg_uids P args = {u. \<exists>arg \<in> set args. arg_uid arg = Some u \<and> P (arg_mode arg)}"

definition KernelLaunch :: "devno \<Rightarrow> KernelArg list \<Rightarrow> ((uid \<Rightarrow> byte list) \<Rightarrow> uid \<Rightarrow> byte list) \<Rightarrow> cstore \<Rightarrow> cstore" where
  "KernelLaunch dev args f S =
     (let seen = (\<lambda>u. the (c_archs (S u) dev)) in
      (\<lambda>u. if u \<in> arg_uids writes args then (S u)\<lparr>c_archs := (c_archs (S u))(dev \<mapsto> f seen u)\<rparr> else S u))"

text \<open>The state of an execution: the objects, and what has been written to the host so far.\<close>

type_synonym mstate = "cstore \<times> (uid \<times> byte list) list"

fun exec_mcmd :: "alloc_env \<Rightarrow> devno \<Rightarrow> mcmd \<Rightarrow> mstate \<Rightarrow> mstate option" where
  "exec_mcmd e dev (MKernel args f) (S, out) = Some (KernelLaunch dev args f (kernel_args e dev args S), out)"
| "exec_mcmd e dev (MH2D u off sz host) (S, out) = map_option (\<lambda>S. (S, out)) (upd u (ExecuteH2D e dev off sz host True) S)"
| "exec_mcmd e dev (MD2H u off sz host) (S, out) =
     map_option (\<lambda>(c, h). (S(u := c), out @ [(u, h)])) (linear_D2H e dev off sz host (S u))"

text \<open>What a worker does with a task on its device.\<close>

definition worker_task :: "alloc_env \<Rightarrow> devno \<times> mcmd list \<Rightarrow> mstate \<Rightarrow> mstate option" where
  "worker_task e dt s =
     (case dt of (dev, cmds) \<Rightarrow>
        Option.bind (Resolve e dev cmds (fst s)) (\<lambda>S. opt_fold (exec_mcmd e dev) cmds (S, snd s)))"

section \<open>The specification: one memory\<close>

text \<open>The content of every object, the objects that have one, and what has been written to the host.\<close>

type_synonym mmemory = "(uid \<Rightarrow> byte list) \<times> uid set \<times> (uid \<times> byte list) list"

fun mem_mcmd :: "mcmd \<Rightarrow> mmemory \<Rightarrow> mmemory option" where
  "mem_mcmd (MKernel args f) (\<sigma>, D, out) =
     (if arg_uids reads args \<subseteq> D
      then Some ((\<lambda>u. if u \<in> arg_uids writes args then f \<sigma> u else \<sigma> u), D \<union> arg_uids writes args, out) else None)"
| "mem_mcmd (MH2D u off sz host) (\<sigma>, D, out) = Some (\<sigma>(u := take (length (\<sigma> u)) host), insert u D, out)"
| "mem_mcmd (MD2H u off sz host) (\<sigma>, D, out) =
     (if u \<in> D then Some (\<sigma>, D, out @ [(u, \<sigma> u @ drop (length (\<sigma> u)) host)]) else None)"

definition mem_mtask :: "devno \<times> mcmd list \<Rightarrow> mmemory \<Rightarrow> mmemory option" where
  "mem_mtask dt a = opt_fold mem_mcmd (snd dt) a"

text \<open>What is asked of a command, with \<open>n\<close> the sizes of the objects: transfers and writes concern the whole object, host
  buffers are large enough, and a kernel computes what it writes from what it reads.\<close>

definition mcmd_ok :: "(uid \<Rightarrow> size_t) \<Rightarrow> mcmd \<Rightarrow> bool" where
  "mcmd_ok n c = (case c of
     MKernel args f \<Rightarrow>
       (\<forall>arg \<in> set args. \<forall>u. arg_uid arg = Some u \<longrightarrow> writes (arg_mode arg) \<longrightarrow> arg_mem_off arg = 0 \<and> arg_mem_size arg = n u) \<and>
       (\<forall>\<sigma> u. length (f \<sigma> u) = unat (n u)) \<and>
       (\<forall>\<sigma> \<tau>. (\<forall>u \<in> arg_uids reads args. \<sigma> u = \<tau> u) \<longrightarrow> (\<forall>u \<in> arg_uids writes args. f \<sigma> u = f \<tau> u))
   | MH2D u off sz host \<Rightarrow> off = 0 \<and> sz = n u \<and> unat (n u) \<le> length host
   | MD2H u off sz host \<Rightarrow> off = 0 \<and> sz = n u \<and> unat (n u) \<le> length host)"

definition mtask_ok :: "(uid \<Rightarrow> size_t) \<Rightarrow> devno \<times> mcmd list \<Rightarrow> bool" where
  "mtask_ok n dt = list_all (mcmd_ok n) (snd dt)"

definition alloc_ok :: "alloc_env \<Rightarrow> bool" where
  "alloc_ok e \<longleftrightarrow> (\<forall>k. length (a_junk e k) = k)"

text \<open>One object: all buffers have its size, the records are about the whole of it, and each owner has the content \<open>v\<close>.\<close>

definition sized :: "size_t \<Rightarrow> copies \<Rightarrow> bool" where
  "sized sz c \<longleftrightarrow> whole (c_mem c) \<and> mm_size (c_mem c) = sz \<and> length (c_host_inter c) = unat sz \<and>
     (\<forall>d b. c_archs c d = Some b \<longrightarrow> length b = unat sz)"

definition holds :: "byte list \<Rightarrow> copies \<Rightarrow> bool" where
  "holds v c \<longleftrightarrow> (\<forall>d \<in> owners (c_mem c). c_archs c d = Some v)"

definition consistent :: "size_t \<Rightarrow> byte list \<Rightarrow> copies \<Rightarrow> bool" where
  "consistent sz v c \<longleftrightarrow> sized sz c \<and> length v = unat sz \<and> holds v c"

section \<open>Each operation\<close>

lemma Mem_arch_keeps:
  "c_mem (Mem_arch e d c) = c_mem c" "c_host_inter (Mem_arch e d c) = c_host_inter c" "c_archs (Mem_arch e d c) d \<noteq> None"
  "c_archs c x = Some b \<Longrightarrow> c_archs (Mem_arch e d c) x = Some b"
  by (auto simp: Mem_arch_def)

lemma Mem_arch_sized: "alloc_ok e \<Longrightarrow> sized sz c \<Longrightarrow> sized sz (Mem_arch e d c)"
  by (auto simp: Mem_arch_def sized_def alloc_ok_def)

lemma Mem_arch_consistent: "alloc_ok e \<Longrightarrow> consistent sz v c \<Longrightarrow> consistent sz v (Mem_arch e d c)"
  using Mem_arch_sized [of e sz c d] by (auto simp: consistent_def holds_def Mem_arch_keeps)

lemma linear_H2D_whole:
  assumes "alloc_ok e" "sized sz c" "unat sz \<le> length host"
  shows "linear_H2D e d off sz host c = Some ((Mem_arch e d c)\<lparr>c_archs := (c_archs (Mem_arch e d c))(d \<mapsto> take (unat sz) host)\<rparr>)"
proof -
  obtain b where b: "c_archs (Mem_arch e d c) d = Some b" using Mem_arch_keeps(3) by fastforce
  with Mem_arch_sized [OF assms(1,2), of d] have "length b = unat sz" by (simp add: sized_def)
  with b assms(3) show ?thesis by (simp add: linear_H2D_def OpenMP_MemH2D_def memcpy_def Let_def)
qed

lemma linear_D2H_whole:
  assumes "alloc_ok e" "sized sz c" "unat sz \<le> length host" "c_archs c d = Some v"
  shows "linear_D2H e d off sz host c = Some (Mem_arch e d c, v @ drop (unat sz) host)"
  using assms by (simp add: linear_D2H_def OpenMP_MemD2H_def memcpy_def Mem_arch_keeps(4) sized_def)

lemma sized_whole: "sized sz c \<Longrightarrow> whole (c_mem c)" "sized sz c \<Longrightarrow> mm_size (c_mem c) = sz"
  by (simp_all add: sized_def)

lemma ExecuteH2D_whole:
  assumes "alloc_ok e" "sized sz c" "unat sz \<le> length host" "\<not> x \<longrightarrow> holds (take (unat sz) host) c"
  shows "\<exists>c'. ExecuteH2D e d 0 sz host x c = Some c' \<and> consistent sz (take (unat sz) host) c' \<and>
    owners (c_mem c') = (if x then {d} else insert d (owners (c_mem c)))"
proof -
  let ?a = "a_addr e (mm_ranges (c_mem c))"
  let ?m = "if x then SetOwner ?a 0 sz d (c_mem c) else AddOwner ?a 0 sz d (c_mem c)"
  have m: "whole ?m" "mm_size ?m = sz" "owners ?m = (if x then {d} else insert d (owners (c_mem c)))"
    using whole_set [OF sized_whole(1) [OF assms(2)], of ?a d] sized_whole(2) [OF assms(2)] by auto
  let ?c = "c\<lparr>c_mem := ?m\<rparr>"
  have s: "sized sz ?c" using assms(2) m(1,2) by (simp add: sized_def)
  let ?c' = "(Mem_arch e d ?c)\<lparr>c_archs := (c_archs (Mem_arch e d ?c))(d \<mapsto> take (unat sz) host)\<rparr>"
  have "ExecuteH2D e d 0 sz host x c = Some ?c'"
    using linear_H2D_whole [OF assms(1) s assms(3), of d 0] by (simp add: ExecuteH2D_def Let_def)
  moreover have "sized sz ?c'" using Mem_arch_sized [OF assms(1) s, of d] assms(3) by (simp add: sized_def)
  moreover have "holds (take (unat sz) host) ?c'"
    using assms(4) m(3) by (auto simp: holds_def Mem_arch_keeps split: if_splits)
  ultimately show ?thesis using assms(3) m(3) by (simp add: consistent_def Mem_arch_keeps)
qed

lemma fetch_consistent:
  assumes "alloc_ok e" "consistent sz v c" "ow \<in> owners (c_mem c)"
  shows "\<exists>c'. fetch_from_owner e ow dev x c = Some c' \<and> consistent sz v c' \<and> dev \<in> owners (c_mem c')"
proof -
  have s: "sized sz c" "length (c_host_inter c) = unat sz" "length v = unat sz" "c_archs c ow = Some v"
    using assms(2,3) by (auto simp: consistent_def holds_def sized_def)
  let ?c = "(Mem_arch e ow c)\<lparr>c_host_inter := v\<rparr>"
  have d: "linear_D2H e ow 0 sz (c_host_inter c) c = Some (Mem_arch e ow c, v)"
    using linear_D2H_whole [OF assms(1) s(1) _ s(4)] s(2) by simp
  have c: "sized sz ?c" "holds v ?c"
    using Mem_arch_consistent [OF assms(1,2), of ow] s(3) by (auto simp: consistent_def sized_def holds_def)
  have "\<exists>c'. ExecuteH2D e dev 0 sz v x ?c = Some c' \<and> consistent sz (take (unat sz) v) c' \<and>
      owners (c_mem c') = (if x then {dev} else insert dev (owners (c_mem ?c)))"
    by (rule ExecuteH2D_whole [OF assms(1) c(1)]) (use s(3) c(2) in auto)
  then obtain c' where "ExecuteH2D e dev 0 sz v x ?c = Some c'" "consistent sz v c'" "dev \<in> owners (c_mem c')"
    using s(3) by (auto split: if_splits)
  then show ?thesis using d sized_whole(2) [OF s(1)] by (simp add: fetch_from_owner_def Mem_arch_keeps)
qed

text \<open>After a resolution the device is an owner, if there was one.\<close>

definition resolves :: "(copies \<Rightarrow> copies option) \<Rightarrow> size_t \<Rightarrow> devno \<Rightarrow> bool" where
  "resolves f sz dev \<longleftrightarrow> (\<forall>c v. consistent sz v c \<longrightarrow> (\<exists>c'. f c = Some c' \<and> consistent sz v c' \<and>
     (owners (c_mem c) = {} \<longleftrightarrow> owners (c_mem c') = {}) \<and> (owners (c_mem c) \<noteq> {} \<longrightarrow> dev \<in> owners (c_mem c'))))"

lemma resolve_consistent:
  assumes "alloc_ok e"
  shows "resolves (ResolveKernelWithoutPolymem e dev) sz dev" "resolves (ResolveD2H e dev) sz dev"
proof -
  have "\<exists>c'. (case Owner_all (c_mem c) of None \<Rightarrow> Some c
        | Some ow \<Rightarrow> if dev = ow \<or> IsOwner 0 (mm_size (c_mem c)) dev (c_mem c) then Some c else fetch_from_owner e ow dev x c) = Some c' \<and>
      consistent sz v c' \<and> (owners (c_mem c) = {} \<longleftrightarrow> owners (c_mem c') = {}) \<and> (owners (c_mem c) \<noteq> {} \<longrightarrow> dev \<in> owners (c_mem c'))"
    if c: "consistent sz v c" for c v x
  proof (cases "Owner_all (c_mem c)")
    case None
    with c whole_owner(2) [of "c_mem c"] show ?thesis by (auto simp: consistent_def sized_def)
  next
    case (Some ow)
    have w: "whole (c_mem c)" using c by (simp add: consistent_def sized_def)
    note o = whole_owner [OF w]
    from o(3) [OF Some] have "ow \<in> owners (c_mem c)" .
    with fetch_consistent [OF assms c this, of dev x] Some c o(1) show ?thesis by auto
  qed
  then show "resolves (ResolveKernelWithoutPolymem e dev) sz dev" "resolves (ResolveD2H e dev) sz dev"
    unfolding resolves_def ResolveKernelWithoutPolymem_def ResolveD2H_def by blast+
qed

section \<open>Tasks\<close>

text \<open>A store represents a memory; \<open>d\<close> is an owner of the objects in \<open>T\<close> that have a content.\<close>

definition mem_represents :: "alloc_env \<Rightarrow> (uid \<Rightarrow> size_t) \<Rightarrow> mmemory \<Rightarrow> mstate \<Rightarrow> bool" where
  "mem_represents e n a s \<longleftrightarrow> alloc_ok e \<and> snd s = snd (snd a) \<and>
     (\<forall>u. consistent (n u) (fst a u) (fst s u) \<and> (u \<in> fst (snd a) \<longrightarrow> owners (c_mem (fst s u)) \<noteq> {}))"

definition at_device :: "alloc_env \<Rightarrow> (uid \<Rightarrow> size_t) \<Rightarrow> devno \<Rightarrow> uid set \<Rightarrow> mmemory \<Rightarrow> mstate \<Rightarrow> bool" where
  "at_device e n d T a s \<longleftrightarrow> mem_represents e n a s \<and> (\<forall>u \<in> T. u \<in> fst (snd a) \<longrightarrow> d \<in> owners (c_mem (fst s u)))"

fun mcmd_uses :: "mcmd \<Rightarrow> uid set" where
  "mcmd_uses (MKernel args f) = arg_uids (\<lambda>_. True) args"
| "mcmd_uses (MD2H u off sz host) = {u}"
| "mcmd_uses (MH2D u off sz host) = {}"

text \<open>A sequence of resolutions, each of one object.\<close>

lemma upd_resolves:
  assumes "at_device e n d T a (S, out)" "resolves f (n u) d"
  shows "\<exists>S'. upd u f S = Some S' \<and> at_device e n d (insert u T) a (S', out)"
proof -
  have r: "\<And>w. consistent (n w) (fst a w) (S w)" "\<And>w. w \<in> fst (snd a) \<Longrightarrow> owners (c_mem (S w)) \<noteq> {}"
    using assms(1) by (auto simp: at_device_def mem_represents_def)
  from assms(2) r(1) [of u] obtain c' where c: "f (S u) = Some c'" "consistent (n u) (fst a u) c'"
    "owners (c_mem (S u)) = {} \<longleftrightarrow> owners (c_mem c') = {}" "owners (c_mem (S u)) \<noteq> {} \<Longrightarrow> d \<in> owners (c_mem c')"
    unfolding resolves_def by blast
  have "at_device e n d (insert u T) a (S(u := c'), out)" using assms(1) c r(2) by (auto simp: at_device_def mem_represents_def)
  with c(1) show ?thesis by (simp add: upd_def)
qed

lemma ResolveKernel_at:
  assumes "at_device e n d T a (S, out)"
  shows "\<exists>S'. ResolveKernel e d args S = Some S' \<and> at_device e n d (T \<union> arg_uids (\<lambda>_. True) args) a (S', out)"
  unfolding ResolveKernel_def using assms
proof (induction args arbitrary: S T)
  case (Cons arg args)
  have al: "alloc_ok e" using Cons.prems by (simp add: at_device_def mem_represents_def)
  show ?case
  proof (cases "arg_uid arg")
    case None
    with Cons.IH [OF Cons.prems] show ?thesis by (simp add: arg_uids_def)
  next
    case (Some u)
    from upd_resolves [OF Cons.prems resolve_consistent(1) [OF al, of d "n u"]] obtain S1 where
      S1: "upd u (ResolveKernelWithoutPolymem e d) S = Some S1" "at_device e n d (insert u T) a (S1, out)" by blast
    have "insert u T \<union> arg_uids (\<lambda>_. True) args = T \<union> arg_uids (\<lambda>_. True) (arg # args)" using Some by (auto simp: arg_uids_def)
    with Cons.IH [OF S1(2)] Some S1(1) show ?thesis by simp
  qed
qed (simp add: arg_uids_def)

lemma Resolve_at:
  assumes "at_device e n d T a (S, out)"
  shows "\<exists>S'. Resolve e d cmds S = Some S' \<and> at_device e n d (T \<union> (\<Union>c \<in> set cmds. mcmd_uses c)) a (S', out)"
  unfolding Resolve_def using assms
proof (induction cmds arbitrary: S T)
  case (Cons c cmds)
  have al: "alloc_ok e" using Cons.prems by (simp add: at_device_def mem_represents_def)
  have "\<exists>S1. resolve_cmd e d c S = Some S1 \<and> at_device e n d (T \<union> mcmd_uses c) a (S1, out)"
  proof (cases c)
    case (MKernel args f)
    with ResolveKernel_at [OF Cons.prems] show ?thesis by simp
  next
    case (MD2H u off sz host)
    with upd_resolves [OF Cons.prems resolve_consistent(2) [OF al, of d "n u"]] show ?thesis by simp
  qed (use Cons.prems in auto)
  then obtain S1 where S1: "resolve_cmd e d c S = Some S1" "at_device e n d (T \<union> mcmd_uses c) a (S1, out)" by blast
  have "T \<union> mcmd_uses c \<union> (\<Union>c \<in> set cmds. mcmd_uses c) = T \<union> (\<Union>c \<in> set (c # cmds). mcmd_uses c)" by auto
  with Cons.IH [OF S1(2)] S1(1) show ?case by simp
qed simp

text \<open>The loop over the arguments of a kernel.\<close>

lemma kernel_args_spec:
  assumes "alloc_ok e" "\<And>u. sized (n u) (S u)"
    "\<And>arg u. arg \<in> set args \<Longrightarrow> arg_uid arg = Some u \<Longrightarrow> writes (arg_mode arg) \<Longrightarrow> arg_mem_off arg = 0 \<and> arg_mem_size arg = n u"
  shows "sized (n u) (kernel_args e d args S u) \<and>
    (\<forall>x b. c_archs (S u) x = Some b \<longrightarrow> c_archs (kernel_args e d args S u) x = Some b) \<and>
    owners (c_mem (kernel_args e d args S u)) = (if u \<in> arg_uids writes args then {d} else owners (c_mem (S u)))"
  unfolding kernel_args_def using assms(2,3)
proof (induction args arbitrary: S)
  case (Cons arg args)
  show ?case
  proof (cases "arg_uid arg")
    case None
    with Cons.IH [OF Cons.prems(1)] Cons.prems(2) show ?thesis by (simp add: arg_uids_def)
  next
    case (Some w)
    let ?c = "kernel_arg e d arg (S w)" and ?a = "a_addr e (mm_ranges (c_mem (S w)))"
    let ?m = "if writes (arg_mode arg) then SetOwner ?a 0 (n w) d (c_mem (S w)) else c_mem (S w)"
    have k: "?c = Mem_arch e d ((S w)\<lparr>c_mem := ?m\<rparr>)"
      using Cons.prems(2) [of arg w] Some by (simp add: kernel_arg_def Let_def writes_def)
    note W = whole_set [OF sized_whole(1), OF Cons.prems(1) [of w], of ?a d, unfolded sized_whole(2) [OF Cons.prems(1) [of w]]]
    have "sized (n w) ((S w)\<lparr>c_mem := ?m\<rparr>)" using Cons.prems(1) [of w] W(1,3) by (simp add: sized_def)
    then have c: "sized (n w) ?c" "\<And>x b. c_archs (S w) x = Some b \<Longrightarrow> c_archs ?c x = Some b"
      "owners (c_mem ?c) = (if writes (arg_mode arg) then {d} else owners (c_mem (S w)))"
      unfolding k using Mem_arch_sized [OF assms(1)] W(2) by (auto simp: Mem_arch_keeps)
    have "arg_uids writes (arg # args) = (if writes (arg_mode arg) then insert w (arg_uids writes args) else arg_uids writes args)"
      using Some by (auto simp: arg_uids_def)
    moreover define S1 where "S1 = S(w := ?c)"
    moreover have "sized (n v) (S1 v)" for v using Cons.prems(1) c(1) by (simp add: S1_def)
    ultimately show ?thesis
      using Cons.IH [of S1] Cons.prems(2) c(2,3) Some by (cases "u = w") (simp_all add: S1_def [symmetric], simp_all add: S1_def)
  qed
qed (simp add: arg_uids_def)

text \<open>Each command on a device that owns what it uses.\<close>

definition in_task :: "(uid \<Rightarrow> size_t) \<Rightarrow> uid set \<Rightarrow> mcmd \<Rightarrow> bool" where
  "in_task n T c \<longleftrightarrow> mcmd_ok n c \<and> mcmd_uses c \<subseteq> T"

lemma at_deviceD:
  assumes "at_device e n d T (\<sigma>, D, out) (S, out')"
  shows "alloc_ok e" "out' = out" "consistent (n u) (\<sigma> u) (S u)" "sized (n u) (S u)" "length (\<sigma> u) = unat (n u)"
    "u \<in> D \<Longrightarrow> owners (c_mem (S u)) \<noteq> {}" "u \<in> T \<Longrightarrow> u \<in> D \<Longrightarrow> c_archs (S u) d = Some (\<sigma> u) \<and> d \<in> owners (c_mem (S u))"
  using assms by (auto simp: at_device_def mem_represents_def consistent_def holds_def)

lemma kernel_at:
  assumes "at_device e n d T (\<sigma>, D, out) (S, out')" "in_task n T (MKernel args f)" "arg_uids reads args \<subseteq> D"
  shows "at_device e n d T ((\<lambda>u. if u \<in> arg_uids writes args then f \<sigma> u else \<sigma> u), D \<union> arg_uids writes args, out)
    (KernelLaunch d args f (kernel_args e d args S), out')"
proof -
  note r = at_deviceD [OF assms(1)]
  let ?S = "kernel_args e d args S"
  have ok: "\<And>\<sigma> u. length (f \<sigma> u) = unat (n u)"
    "\<And>arg u. arg \<in> set args \<Longrightarrow> arg_uid arg = Some u \<Longrightarrow> writes (arg_mode arg) \<Longrightarrow> arg_mem_off arg = 0 \<and> arg_mem_size arg = n u"
    "\<And>\<sigma> \<tau> u. \<forall>u \<in> arg_uids reads args. \<sigma> u = \<tau> u \<Longrightarrow> u \<in> arg_uids writes args \<Longrightarrow> f \<sigma> u = f \<tau> u"
    using assms(2) by (auto simp: in_task_def mcmd_ok_def)
  have k: "sized (n u) (?S u) \<and> (\<forall>x b. c_archs (S u) x = Some b \<longrightarrow> c_archs (?S u) x = Some b) \<and>
      owners (c_mem (?S u)) = (if u \<in> arg_uids writes args then {d} else owners (c_mem (S u)))" for u
    by (rule kernel_args_spec [OF r(1) r(4) ok(2)])
  let ?seen = "\<lambda>u. the (c_archs (?S u) d)"
  have "arg_uids reads args \<subseteq> T" using assms(2) by (auto simp: in_task_def arg_uids_def)
  then have seen: "\<forall>u \<in> arg_uids reads args. ?seen u = \<sigma> u"
  proof (intro ballI)
    fix u assume "u \<in> arg_uids reads args"
    then have "c_archs (S u) d = Some (\<sigma> u)" using r(7) [of u] \<open>arg_uids reads args \<subseteq> T\<close> assms(3) by blast
    with k [of u] show "?seen u = \<sigma> u" by simp
  qed
  have "consistent (n u) (if u \<in> arg_uids writes args then f \<sigma> u else \<sigma> u) (KernelLaunch d args f ?S u) \<and>
      owners (c_mem (KernelLaunch d args f ?S u)) = (if u \<in> arg_uids writes args then {d} else owners (c_mem (S u)))" for u
  proof (cases "u \<in> arg_uids writes args")
    case True
    with k [of u] ok(1) ok(3) [OF seen True] show ?thesis
      by (auto simp: KernelLaunch_def Let_def consistent_def holds_def sized_def)
  next
    case False
    with k [of u] r(3) [of u] show ?thesis by (auto simp: KernelLaunch_def Let_def consistent_def holds_def)
  qed
  then show ?thesis using r by (auto simp: at_device_def mem_represents_def)
qed

lemma exec_at:
  assumes "at_device e n d T a s" "in_task n T c" "mem_mcmd c a = Some a'"
  shows "\<exists>s'. exec_mcmd e d c s = Some s' \<and> at_device e n d T a' s'"
proof -
  obtain \<sigma> D out S out' where as: "a = (\<sigma>, D, out)" "s = (S, out')" by (metis prod_cases3 surj_pair)
  note r = at_deviceD [OF assms(1) [unfolded as]]
  show ?thesis
  proof (cases c)
    case (MKernel args f)
    with kernel_at [OF assms(1) [unfolded as], of args f] assms(2,3) as show ?thesis by (auto split: if_splits)
  next
    case (MH2D u off sz host)
    with assms(2) have o: "off = 0" "sz = n u" "unat (n u) \<le> length host" by (auto simp: in_task_def mcmd_ok_def)
    from ExecuteH2D_whole [OF r(1) r(4) o(3), of True d] obtain c' where c': "ExecuteH2D e d 0 (n u) host True (S u) = Some c'"
      "consistent (n u) (take (unat (n u)) host) c'" "owners (c_mem c') = {d}" by auto
    have "a' = (\<sigma>(u := take (unat (n u)) host), insert u D, out)" using assms(3) MH2D as r(5) by simp
    then show ?thesis using c' assms(1) MH2D o as by (auto simp: upd_def at_device_def mem_represents_def)
  next
    case (MD2H u off sz host)
    with assms(2,3) as have o: "off = 0" "sz = n u" "unat (n u) \<le> length host" "u \<in> T" "u \<in> D"
      by (auto simp: in_task_def mcmd_ok_def split: if_splits)
    from linear_D2H_whole [OF r(1) r(4) o(3)] r(7) [OF o(4,5)]
    have "exec_mcmd e d c s = Some (S(u := Mem_arch e d (S u)), out @ [(u, \<sigma> u @ drop (unat (n u)) host)])"
      using MD2H o as r(2) by simp
    moreover have "a' = (\<sigma>, D, out @ [(u, \<sigma> u @ drop (unat (n u)) host)])" using assms(3) MD2H as r(5) o by simp
    ultimately show ?thesis
      using assms(1) Mem_arch_consistent [OF r(1) r(3), of u d] as by (auto simp: at_device_def mem_represents_def Mem_arch_keeps)
  qed
qed

interpretation mcmds: simulation "at_device e n d T" mem_mcmd "exec_mcmd e d" "in_task n T" for e n d T
  by unfold_locales (rule exec_at)

lemma task_at:
  assumes "mem_represents e n a s" "mtask_ok n dt" "mem_mtask dt a = Some a'"
  shows "\<exists>s'. worker_task e dt s = Some s' \<and> mem_represents e n a' s'"
proof -
  obtain d cmds where dt: "dt = (d, cmds)" by fastforce
  let ?T = "\<Union>c \<in> set cmds. mcmd_uses c"
  have "at_device e n d {} a (fst s, snd s)" using assms(1) by (simp add: at_device_def)
  from Resolve_at [OF this, of cmds] obtain S where S: "Resolve e d cmds (fst s) = Some S" "at_device e n d ?T a (S, snd s)" by auto
  have "list_all (in_task n ?T) cmds" using assms(2) dt by (auto simp: mtask_ok_def in_task_def list_all_iff)
  from mcmds.sim_fold [OF S(2) this] assms(3) dt S(1) show ?thesis by (auto simp: mem_mtask_def worker_task_def at_device_def)
qed

interpretation mtasks: simulation "mem_represents e n" mem_mtask "worker_task e" "mtask_ok n" for e n
  by unfold_locales (rule task_at)

text \<open>Objects as \<open>iris_mem_create\<close> makes them.\<close>

definition new_store :: "alloc_env \<Rightarrow> (uid \<Rightarrow> size_t) \<Rightarrow> cstore" where
  "new_store e n u = \<lparr>c_mem = Mem_new (n u), c_archs = (\<lambda>_. None), c_host_inter = a_junk e (unat (n u))\<rparr>"

lemma new_represents:
  assumes "alloc_ok e" "\<And>u. n u \<noteq> 0"
  shows "mem_represents e n (\<lambda>u. replicate (unat (n u)) 0, {}, []) (new_store e n, [])"
  using assms
  by (auto simp: mem_represents_def consistent_def sized_def holds_def whole_def owners_def new_store_def Mem_new_def alloc_ok_def)

text \<open>C9. Tasks that use whole objects, executed one after the other each on any device, deliver to the host exactly what they
  would on a single memory, and every object with a content has an owner that holds it.\<close>

theorem consistency_transparent:
  assumes "alloc_ok e" "\<And>u. n u \<noteq> 0" "list_all (mtask_ok n) tasks"
    "opt_fold mem_mtask tasks (\<lambda>u. replicate (unat (n u)) 0, {}, []) = Some (\<sigma>, D, out)"
  shows "\<exists>S. opt_fold (worker_task e) tasks (new_store e n, []) = Some (S, out) \<and>
    (\<forall>u \<in> D. \<exists>d. Owner_all (c_mem (S u)) = Some d \<and> c_archs (S u) d = Some (\<sigma> u))"
proof -
  from mtasks.sim_fold [OF new_represents [OF assms(1,2)] assms(3,4)]
  obtain s where s: "opt_fold (worker_task e) tasks (new_store e n, []) = Some s" "mem_represents e n (\<sigma>, D, out) s" by blast
  have "\<exists>d. Owner_all (c_mem (fst s u)) = Some d \<and> c_archs (fst s u) d = Some (\<sigma> u)" if "u \<in> D" for u
  proof -
    have c: "consistent (n u) (\<sigma> u) (fst s u)" "owners (c_mem (fst s u)) \<noteq> {}" using s(2) that by (auto simp: mem_represents_def)
    then have w: "whole (c_mem (fst s u))" by (simp add: consistent_def sized_def)
    from whole_owner(2) [OF w] c(2) obtain d where "Owner_all (c_mem (fst s u)) = Some d" by auto
    with whole_owner(3) [OF w this] c(1) show ?thesis by (auto simp: consistent_def holds_def)
  qed
  with s show ?thesis by (cases s) (auto simp: mem_represents_def)
qed

definition demo_alloc :: alloc_env where
  "demo_alloc = \<lparr>a_junk = (\<lambda>k. replicate k 255), a_addr = length\<rparr>"

definition mem_arg :: "uid \<Rightarrow> int \<Rightarrow> size_t \<Rightarrow> size_t \<Rightarrow> KernelArg" where
  "mem_arg u md off sz = KernelArg_default
     \<lparr>arg_mem := Some \<lparr>mem_uid = u, mem_handler = IRIS_MEM, mem_bytes = 2\<rparr>, arg_mode := md, arg_mem_off := off, arg_mem_size := sz\<rparr>"

definition demo_mtasks :: "(devno \<times> mcmd list) list" where
  "demo_mtasks = [(0, [MH2D 7 0 2 [1, 2]]),
     (1, [MKernel [mem_arg 7 iris_rw 0 2] (\<lambda>\<sigma> u. [sum_list (\<sigma> 7), 4])]), (2, [MD2H 7 0 2 [0, 0, 9]])]"

lemma demo_mtasks_ok: "list_all (mtask_ok (\<lambda>_. 2)) demo_mtasks"
  by (simp add: demo_mtasks_def mtask_ok_def mcmd_ok_def mem_arg_def arg_uid_def arg_uids_def KernelArg_default_def
      reads_def iris_rw_def)

lemma demo_arg_uids: "arg_uids P [mem_arg u md off sz] = (if P md then {u} else {})"
  by (auto simp: arg_uids_def mem_arg_def arg_uid_def)

theorem consistency_transparent_witness:
  "\<exists>S. opt_fold (worker_task demo_alloc) demo_mtasks (new_store demo_alloc (\<lambda>_. 2), []) = Some (S, [(7, [3, 4, 9])])"
proof -
  have "opt_fold mem_mtask demo_mtasks (\<lambda>u. replicate (unat (2 :: size_t)) 0, {}, []) =
      Some (((\<lambda>u. replicate 2 0)(7 := [1, 2]))(7 := [3, 4]), {7}, [(7, [3, 4, 9])])"
    by (simp add: demo_mtasks_def mem_mtask_def demo_arg_uids reads_def writes_def iris_rw_def fun_eq_iff)
  moreover have "alloc_ok demo_alloc" by (simp add: alloc_ok_def demo_alloc_def)
  ultimately show ?thesis using consistency_transparent [OF _ _ demo_mtasks_ok, of demo_alloc] by fastforce
qed

section \<open>Where the records do not suffice\<close>

lemma proper_block_not_whole:
  assumes "block_in (unat sz) off len" "unat len < unat sz" "mr_off r = off" "mr_size r = len"
  shows "\<not> Contain r 0 sz"
proof
  have "block_in (unat sz) 0 sz" using assms(2) by (simp add: block_in_def)
  moreover assume "Contain r 0 sz"
  moreover have "block_in (unat sz) (mr_off r) (mr_size r)" using assms by simp
  ultimately have "block 0 sz \<subseteq> block off len" using Contain_iff [of "unat sz" r 0 sz] assms(3,4) unsigned_less [of sz] by simp
  moreover have "card (block off len) = unat len" "card (block 0 sz) = unat sz" by (simp_all add: block_def)
  ultimately show False using card_mono [of "block off len" "block 0 sz"] assms(2) by (simp add: block_def)
qed

text \<open>A kernel that writes a part of an object on a device that does not own it erases the records of the devices that hold the
  rest. From then on no device counts as an owner of the object, and no resolution copies anything, although
  only the writing device has the new part and only the others have the rest.\<close>

theorem partial_write_forgets:
  assumes "sized sz c" "d \<notin> owners (c_mem c)" "arg_mode arg = iris_w"
    "block_in (unat sz) (arg_mem_off arg) (arg_mem_size arg)" "unat (arg_mem_size arg) < unat sz"
  shows "ResolveKernelWithoutPolymem e dev (kernel_arg e d arg c) = Some (kernel_arg e d arg c) \<and>
    ResolveD2H e dev (kernel_arg e d arg c) = Some (kernel_arg e d arg c)"
proof -
  let ?a = "a_addr e (mm_ranges (c_mem c))" and ?off = "arg_mem_off arg" and ?len = "arg_mem_size arg"
  let ?m = "SetOwner ?a ?off ?len d (c_mem c)"
  have n: "unat sz < 2 ^ 64" using unsigned_less [of sz] by simp
  have "\<not> Distinct r ?off ?len" if "r \<in> set (mm_ranges (c_mem c))" for r
  proof -
    have "block_in (unat sz) (mr_off r) (mr_size r)" "block (mr_off r) (mr_size r) \<supseteq> block ?off ?len"
      using that assms(1,4,5) by (auto simp: sized_def whole_def block_in_def block_def)
    moreover have "unat ?off \<in> block ?off ?len" using assms(4) by (simp add: block_def block_in_def)
    ultimately show ?thesis using Distinct_iff [OF _ assms(4) n] by blast
  qed
  moreover have "\<not> IsOwner ?off ?len d (c_mem c)" using assms(2) by (auto simp: IsOwner_def owners_def)
  ultimately have "mm_ranges ?m = [\<lparr>mr_addr = ?a, mr_off = ?off, mr_size = ?len, mr_dev = d\<rparr>]"
    by (simp add: SetOwner_one_pass insert_range_def filter_False)
  moreover have "mm_size ?m = sz" using assms(1) by (simp add: SetOwner_def sized_def split: prod.splits)
  ultimately have "Owner_all ?m = None" using proper_block_not_whole [OF assms(4,5)] by (simp add: Owner_all_def Owner_def)
  moreover have "c_mem (kernel_arg e d arg c) = ?m" using assms(3) by (simp add: kernel_arg_def Let_def Mem_arch_keeps)
  ultimately show ?thesis by (simp add: ResolveKernelWithoutPolymem_def ResolveD2H_def)
qed

theorem partial_write_forgets_witness:
  "let c = \<lparr>c_mem = SetOwner 0 0 2 0 (Mem_new 2), c_archs = [0 \<mapsto> [1, 2]], c_host_inter = [0, 0]\<rparr>;
       c' = kernel_arg demo_alloc 1 (mem_arg 7 iris_w 1 1) c
   in ResolveKernelWithoutPolymem demo_alloc 2 c' = Some c'"
proof -
  let ?c = "\<lparr>c_mem = SetOwner 0 0 2 0 (Mem_new 2), c_archs = [0 \<mapsto> [1, 2]], c_host_inter = [0, 0]\<rparr>"
  have w: "whole (Mem_new 2)" by (simp add: whole_def Mem_new_def)
  note o = whole_set [OF w, of 0 0, unfolded Mem_new_def, simplified, folded Mem_new_def]
  have "sized 2 ?c" "1 \<notin> owners (c_mem ?c)" using o by (auto simp: sized_def Mem_new_def)
  then show ?thesis
    using partial_write_forgets [of 2 ?c 1 "mem_arg 7 iris_w 1 1" demo_alloc 2] by (simp add: mem_arg_def block_in_def Let_def)
qed

lemma SetOwner_IsOwner: "IsOwner off sz d (SetOwner a off sz d m)"
proof (cases "IsOwner off sz d m")
  case True
  then show ?thesis by (auto simp: IsOwner_def [of _ _ _ "SetOwner a off sz d m"] SetOwner_one_pass keeps_def covers_def)
    (auto simp: IsOwner_def)
next
  case False
  then show ?thesis by (simp add: IsOwner_def [of _ _ _ "SetOwner a off sz d m"] SetOwner_one_pass Contain_def)
qed

text \<open>The offset of \<open>iris_task_h2d\<close> is recorded and not used: the device is declared the owner of the bytes from \<open>off\<close> on, and
  the data go to the beginning of its memory, because the element size the offset is multiplied with is 0 in every
  command that is not a tile.\<close>

theorem linear_offset_ignored:
  assumes "c_archs c d = Some b" "unat sz \<le> length b" "unat sz \<le> length host"
  shows "\<exists>c'. ExecuteH2D e d off sz host True c = Some c' \<and> IsOwner off sz d (c_mem c') \<and>
    c_archs c' d = Some (take (unat sz) host @ drop (unat sz) b)"
  using assms SetOwner_IsOwner [of off sz d "a_addr e (mm_ranges (c_mem c))" "c_mem c"]
  by (simp add: ExecuteH2D_def linear_H2D_def OpenMP_MemH2D_def memcpy_def Mem_arch_def Let_def)

theorem linear_offset_ignored_witness:
  "\<exists>c'. ExecuteH2D demo_alloc 0 2 2 [8, 9] True \<lparr>c_mem = Mem_new 4, c_archs = [0 \<mapsto> [1, 2, 3, 4]], c_host_inter = []\<rparr> = Some c' \<and>
     IsOwner 2 2 0 (c_mem c') \<and> c_archs c' 0 = Some [8, 9, 3, 4]"
  using linear_offset_ignored [of "\<lparr>c_mem = Mem_new 4, c_archs = [0 \<mapsto> [1, 2, 3, 4]], c_host_inter = []\<rparr>" 0 "[1, 2, 3, 4]" 2 "[8, 9]" demo_alloc 2]
  by simp

section \<open>Waiting for the owner\<close>

text \<open>\<open>ResolveD2H\<close> runs in the thread of the worker that executes the task. It puts a system task into the queue of the owner's
  worker and waits for it. Tasks are numbers; a worker is free or waits for a system task on behalf of a task of
  its own.\<close>

datatype wtask = UserD2H nat devno | SystemD2H nat

record waiters =
  w_queue :: "devno \<Rightarrow> wtask list"
  w_waits :: "devno \<Rightarrow> (nat \<times> nat) option"
  w_done :: "nat set"
  w_next :: nat

inductive wstep :: "waiters \<Rightarrow> waiters \<Rightarrow> bool" where
  own: "w_waits s d = None \<Longrightarrow> w_queue s d = UserD2H t d # q \<Longrightarrow>
    wstep s (s\<lparr>w_queue := (w_queue s)(d := q), w_done := insert t (w_done s)\<rparr>)"
| ask: "w_waits s d = None \<Longrightarrow> w_queue s d = UserD2H t ow # q \<Longrightarrow> ow \<noteq> d \<Longrightarrow>
    wstep s (s\<lparr>w_queue := (w_queue s)(d := q, ow := w_queue s ow @ [SystemD2H (w_next s)]),
      w_waits := (w_waits s)(d \<mapsto> (w_next s, t)), w_next := Suc (w_next s)\<rparr>)"
| serve: "w_waits s d = None \<Longrightarrow> w_queue s d = SystemD2H k # q \<Longrightarrow>
    wstep s (s\<lparr>w_queue := (w_queue s)(d := q), w_done := insert k (w_done s)\<rparr>)"
| resume: "w_waits s d = Some (k, t) \<Longrightarrow> k \<in> w_done s \<Longrightarrow>
    wstep s (s\<lparr>w_waits := (w_waits s)(d := None), w_done := insert t (w_done s)\<rparr>)"

inductive_simps wstep_iff: "wstep s s'"

definition w_start :: "devno \<Rightarrow> devno \<Rightarrow> waiters" where
  "w_start d0 d1 = \<lparr>w_queue = (\<lambda>_. [])(d0 := [UserD2H 0 d1], d1 := [UserD2H 1 d0]), w_waits = (\<lambda>_. None), w_done = {}, w_next = 2\<rparr>"

text \<open>Two workers that at the same time execute a transfer to the host of an object the other one's device owns wait for each
  other for ever: a state is reached in which no worker can go on and neither transfer has been made.\<close>

theorem resolve_deadlock:
  assumes "d0 \<noteq> d1"
  shows "\<exists>s. wstep\<^sup>*\<^sup>* (w_start d0 d1) s \<and> (\<forall>s'. \<not> wstep s s') \<and> w_done s = {}"
proof -
  let ?s1 = "\<lparr>w_queue = (\<lambda>_. [])(d0 := [], d1 := [UserD2H 1 d0, SystemD2H 2]), w_waits = [d0 \<mapsto> (2, 0)], w_done = {}, w_next = 3\<rparr>"
  let ?s2 = "\<lparr>w_queue = (\<lambda>_. [])(d1 := [SystemD2H 2], d0 := [SystemD2H 3]), w_waits = [d0 \<mapsto> (2, 0), d1 \<mapsto> (3, 1)],
    w_done = {}, w_next = 4\<rparr>"
  have "wstep (w_start d0 d1) ?s1"
    using ask [of "w_start d0 d1" d0 0 d1 "[]"] assms by (simp add: w_start_def fun_upd_twist)
  moreover have "wstep ?s1 ?s2" using ask [of ?s1 d1 1 d0 "[SystemD2H 2]"] assms by (simp add: fun_upd_twist)
  ultimately have "wstep\<^sup>*\<^sup>* (w_start d0 d1) ?s2" by (meson converse_rtranclp_into_rtranclp rtranclp.rtrancl_refl)
  moreover have "\<not> wstep ?s2 s'" for s' using assms by (auto simp: wstep_iff split: if_splits)
  ultimately show ?thesis by (intro exI [of _ ?s2]) simp
qed

theorem resolve_deadlock_witness: "\<exists>s. wstep\<^sup>*\<^sup>* (w_start 0 1) s \<and> (\<forall>s'. \<not> wstep s s')"
  using resolve_deadlock [of 0 1] by auto

end
