(* ===== verification/Iris_AutoDAG.thy ===== *)
theory Iris_AutoDAG
  imports Iris_Kernel
begin

text \<open>
  Automatic dependencies, \<^verbatim>\<open>AutoDAG.cpp\<close>, as the build configures it (\<open>AUTO_PAR\<close> and \<open>AUTO_FLUSH\<close>, without shadows and
  without data-flow scheduling). For every memory argument of a kernel, \<open>create_dependency\<close> makes the task depend on
  the tasks that used the object before, and keeps for each object the task that wrote it last, the tasks that
  have read it since and the task that will copy it to the host. The theorems show that all conflicting
  accesses are ordered, that the dependencies have no cycle, and which objects are copied back.
\<close>

section \<open>State\<close>

record mem_access =
  ma_writer :: "uid option"
  ma_readers :: "uid list"
  ma_flush :: "uid option"

record graph_state =
  g_end :: uid
  g_tasks :: "uid list"

text \<open>\<open>dg_tasks\<close> are the tasks the application has created, in order.\<close>

record autodag =
  dg_mem :: "uid \<Rightarrow> mem_access"
  dg_deps :: "uid \<Rightarrow> uid list"
  dg_graph :: "graph_state option"
  dg_next :: uid
  dg_tasks :: "uid list"

definition autodag_new :: "uid \<Rightarrow> autodag" where
  "autodag_new n = \<lparr>dg_mem = (\<lambda>_. \<lparr>ma_writer = None, ma_readers = [], ma_flush = None\<rparr>), dg_deps = (\<lambda>_. []), dg_graph = None,
     dg_next = n, dg_tasks = []\<rparr>"

definition upd_mem :: "uid \<Rightarrow> (mem_access \<Rightarrow> mem_access) \<Rightarrow> autodag \<Rightarrow> autodag" where
  "upd_mem m f s = s\<lparr>dg_mem := (dg_mem s)(m := f (dg_mem s m))\<rparr>"

definition add_depend :: "uid \<Rightarrow> uid \<Rightarrow> autodag \<Rightarrow> autodag" where
  "add_depend t u s = s\<lparr>dg_deps := (dg_deps s)(t := push_unique u (dg_deps s t))\<rparr>"

text \<open>\<open>Graph::Graph\<close> makes the end task and becomes the current graph; \<open>Graph::AddTask\<close> appends a task on which the end task
  then depends.\<close>

definition graph_create :: "autodag \<Rightarrow> autodag" where
  "graph_create s = s\<lparr>dg_graph := Some \<lparr>g_end = dg_next s, g_tasks = [dg_next s]\<rparr>, dg_next := Suc (dg_next s)\<rparr>"

definition graph_AddTask :: "uid \<Rightarrow> autodag \<Rightarrow> autodag" where
  "graph_AddTask k s =
     (case dg_graph s of
        None \<Rightarrow> s
      | Some g \<Rightarrow> add_depend (g_end g) k (s\<lparr>dg_graph := Some (g\<lparr>g_tasks := g_tasks g @ [k]\<rparr>)\<rparr>))"

section \<open>Operations\<close>

definition create_multi_read_dependency :: "uid \<Rightarrow> uid \<Rightarrow> autodag \<Rightarrow> autodag" where
  "create_multi_read_dependency t m s =
     fold (\<lambda>r s. if r \<noteq> t then add_depend t r s else s) (ma_readers (dg_mem s m)) s"

definition ReplaceDependFlushTask :: "uid \<Rightarrow> uid \<Rightarrow> autodag \<Rightarrow> autodag" where
  "ReplaceDependFlushTask k t s = add_depend k t (s\<lparr>dg_deps := (dg_deps s)(k := [])\<rparr>)"

definition create_auto_flush :: "uid \<Rightarrow> uid \<Rightarrow> autodag \<Rightarrow> autodag" where
  "create_auto_flush t m s =
     (if dg_graph s = None then s
      else case ma_flush (dg_mem s m) of
             None \<Rightarrow> let k = dg_next s;
                         s = s\<lparr>dg_next := Suc k\<rparr>;
                         s = upd_mem m (\<lambda>a. a\<lparr>ma_flush := Some k\<rparr>) s;
                         s = add_depend k t s
                     in graph_AddTask k s
           | Some k \<Rightarrow> ReplaceDependFlushTask k t s)"

definition order_write :: "uid \<Rightarrow> uid \<Rightarrow> autodag \<Rightarrow> autodag" where
  "order_write t m s =
     (let a = dg_mem s m in
      if ma_writer a \<noteq> None \<and> ma_readers a = []
      then (if ma_writer a \<noteq> Some t then add_depend t (the (ma_writer a)) s else s)
      else if ma_readers a \<noteq> []
      then upd_mem m (\<lambda>a. a\<lparr>ma_readers := []\<rparr>) (create_multi_read_dependency t m s)
      else s)"

definition order_read :: "uid \<Rightarrow> uid \<Rightarrow> autodag \<Rightarrow> autodag" where
  "order_read t m s =
     (let w = ma_writer (dg_mem s m);
          s = (if w \<noteq> None \<and> w \<noteq> Some t then add_depend t (the w) s else s)
      in if w \<noteq> Some t then upd_mem m (\<lambda>a. a\<lparr>ma_readers := ma_readers a @ [t]\<rparr>) s else s)"

definition create_dependency :: "uid \<Rightarrow> int \<Rightarrow> BaseMemRef \<Rightarrow> autodag \<Rightarrow> autodag" where
  "create_dependency t mode mem s =
     (let m = mem_uid mem in
      if mode = iris_w \<or> mode = iris_rw
      then let s = upd_mem m (\<lambda>a. a\<lparr>ma_writer := Some t\<rparr>) (order_write t m s)
           in if mem_handler mem = IRIS_DMEM then create_auto_flush t m s else s
      else if mode = iris_r then order_read t m s
      else s)"

text \<open>An application: each task is created and then given its kernel with the memory arguments.\<close>

type_synonym accesses = "(int \<times> BaseMemRef) list"

definition task_create :: "autodag \<Rightarrow> autodag" where
  "task_create s = s\<lparr>dg_next := Suc (dg_next s), dg_tasks := dg_tasks s @ [dg_next s]\<rparr>"

definition kernel_deps :: "uid \<Rightarrow> accesses \<Rightarrow> autodag \<Rightarrow> autodag" where
  "kernel_deps t accs s = fold (\<lambda>(mode, mem). create_dependency t mode mem) accs s"

definition build :: "accesses list \<Rightarrow> autodag \<Rightarrow> autodag" where
  "build prog s = fold (\<lambda>accs s. kernel_deps (dg_next s) accs (task_create s)) prog s"

section \<open>Which edges there are\<close>

definition edges :: "autodag \<Rightarrow> (uid \<times> uid) set" where
  "edges s = {(t, u). t \<in> set (dg_tasks s) \<and> u \<in> set (dg_deps s t)}"

text \<open>What the library's tasks are: the end task of the graph and the flush tasks are none of the application's, and numbers are
  fresh.\<close>

definition dag_ids :: "autodag \<Rightarrow> bool" where
  "dag_ids s \<longleftrightarrow> (\<forall>t \<in> set (dg_tasks s). t < dg_next s) \<and>
     (\<forall>m k. ma_flush (dg_mem s m) = Some k \<longrightarrow> k < dg_next s \<and> k \<notin> set (dg_tasks s)) \<and>
     (\<forall>g. dg_graph s = Some g \<longrightarrow> g_end g < dg_next s \<and> g_end g \<notin> set (dg_tasks s))"

lemma add_depend_sel [simp]:
  "dg_mem (add_depend t u s) = dg_mem s" "dg_graph (add_depend t u s) = dg_graph s" "dg_next (add_depend t u s) = dg_next s"
  "dg_tasks (add_depend t u s) = dg_tasks s" "set (dg_deps (add_depend t u s) x) = (if x = t then insert u (set (dg_deps s t)) else set (dg_deps s x))"
  by (simp_all add: add_depend_def)

lemma upd_mem_sel [simp]:
  "dg_mem (upd_mem m f s) x = (if x = m then f (dg_mem s m) else dg_mem s x)" "dg_graph (upd_mem m f s) = dg_graph s"
  "dg_next (upd_mem m f s) = dg_next s" "dg_tasks (upd_mem m f s) = dg_tasks s" "dg_deps (upd_mem m f s) = dg_deps s"
  by (simp_all add: upd_mem_def)

lemma multi_read_fold [simp]:
  "dg_mem (fold (\<lambda>r s. if r \<noteq> t then add_depend t r s else s) rs s) = dg_mem s"
  "dg_graph (fold (\<lambda>r s. if r \<noteq> t then add_depend t r s else s) rs s) = dg_graph s"
  "dg_next (fold (\<lambda>r s. if r \<noteq> t then add_depend t r s else s) rs s) = dg_next s"
  "dg_tasks (fold (\<lambda>r s. if r \<noteq> t then add_depend t r s else s) rs s) = dg_tasks s"
  "set (dg_deps (fold (\<lambda>r s. if r \<noteq> t then add_depend t r s else s) rs s) x) =
     (if x = t then set (dg_deps s t) \<union> (set rs - {t}) else set (dg_deps s x))"
  by (induction rs arbitrary: s) auto

text \<open>What an access of task \<open>t\<close> to object \<open>m\<close> adds: \<open>t\<close> depends on the last writer or on the readers since.\<close>

lemma order_write_sel:
  "dg_graph (order_write t m s) = dg_graph s" "dg_next (order_write t m s) = dg_next s" "dg_tasks (order_write t m s) = dg_tasks s"
  "dg_mem (order_write t m s) = (dg_mem s)(m := (dg_mem s m)\<lparr>ma_readers := []\<rparr>)"
  "x \<noteq> t \<Longrightarrow> set (dg_deps (order_write t m s) x) = set (dg_deps s x)"
  "set (dg_deps (order_write t m s) t) = set (dg_deps s t) \<union>
     ((if ma_readers (dg_mem s m) = [] then set_option (ma_writer (dg_mem s m)) else set (ma_readers (dg_mem s m))) - {t})"
  by (auto simp: order_write_def create_multi_read_dependency_def Let_def upd_mem_def fun_eq_iff)

lemma order_read_sel:
  "dg_graph (order_read t m s) = dg_graph s" "dg_next (order_read t m s) = dg_next s" "dg_tasks (order_read t m s) = dg_tasks s"
  "dg_mem (order_read t m s) = (dg_mem s)(m := (dg_mem s m)\<lparr>ma_readers := ma_readers (dg_mem s m) @ (if ma_writer (dg_mem s m) = Some t then [] else [t])\<rparr>)"
  "x \<noteq> t \<Longrightarrow> set (dg_deps (order_read t m s) x) = set (dg_deps s x)"
  "set (dg_deps (order_read t m s) t) = set (dg_deps s t) \<union> (set_option (ma_writer (dg_mem s m)) - {t})"
  by (auto simp: order_read_def Let_def upd_mem_def fun_eq_iff)

lemma order_deps_mono:
  "set (dg_deps s x) \<subseteq> set (dg_deps (order_write t m s) x)" "set (dg_deps s x) \<subseteq> set (dg_deps (order_read t m s) x)"
  by (cases "x = t"; simp add: order_write_sel(5,6) order_read_sel(5,6))+

text \<open>The flush task concerns none of the application's tasks.\<close>

lemma create_auto_flush_sel:
  assumes "dag_ids s"
  shows "dg_tasks (create_auto_flush t m s) = dg_tasks s" "dg_next s \<le> dg_next (create_auto_flush t m s)"
    "ma_writer (dg_mem (create_auto_flush t m s) x) = ma_writer (dg_mem s x)"
    "ma_readers (dg_mem (create_auto_flush t m s) x) = ma_readers (dg_mem s x)"
    "y \<in> set (dg_tasks s) \<Longrightarrow> set (dg_deps (create_auto_flush t m s) y) = set (dg_deps s y)"
    "dag_ids (create_auto_flush t m s)"
proof -
  have e: "dag_ids (add_depend a b r) = dag_ids r" for a b r by (simp add: dag_ids_def)
  have "y \<in> set (dg_tasks s) \<Longrightarrow> y < dg_next s" for y using assms by (simp add: dag_ids_def)
  then have n: "dg_next s \<notin> set (dg_tasks s)" by blast
  show "dg_tasks (create_auto_flush t m s) = dg_tasks s" "dg_next s \<le> dg_next (create_auto_flush t m s)"
    "ma_writer (dg_mem (create_auto_flush t m s) x) = ma_writer (dg_mem s x)"
    "ma_readers (dg_mem (create_auto_flush t m s) x) = ma_readers (dg_mem s x)"
    by (auto simp: create_auto_flush_def ReplaceDependFlushTask_def graph_AddTask_def Let_def split: option.splits)
  show "dag_ids (create_auto_flush t m s)"
    using assms n by (auto simp: create_auto_flush_def ReplaceDependFlushTask_def graph_AddTask_def Let_def e split: option.splits)
      (auto simp: dag_ids_def less_SucI split: if_splits)
  show "set (dg_deps (create_auto_flush t m s) y) = set (dg_deps s y)" if "y \<in> set (dg_tasks s)"
    using assms n that
    by (auto simp: create_auto_flush_def ReplaceDependFlushTask_def graph_AddTask_def Let_def dag_ids_def split: option.splits)
qed

section \<open>Conflicting accesses are ordered\<close>

definition valid_mode :: "int \<Rightarrow> bool" where
  "valid_mode md \<longleftrightarrow> reads md \<or> writes md"

definition conflict :: "uid \<times> int \<times> uid \<Rightarrow> uid \<times> int \<times> uid \<Rightarrow> bool" where
  "conflict x y = (case (x, y) of ((a, md, m), (b, md', m')) \<Rightarrow>
     m = m' \<and> a \<noteq> b \<and> valid_mode md \<and> valid_mode md' \<and> (writes md \<or> writes md'))"

definition ordered_by :: "(uid \<times> uid) set \<Rightarrow> uid \<times> int \<times> uid \<Rightarrow> uid \<times> int \<times> uid \<Rightarrow> bool" where
  "ordered_by E x y \<longleftrightarrow> (conflict x y \<longrightarrow> (fst y, fst x) \<in> E\<^sup>+)"

text \<open>For the history \<open>H\<close> of accesses so far: whoever used an object is its last writer, one of its readers since, or
  comes before the last writer; earlier writers come before the last, and readers after it.\<close>

definition covered :: "(uid \<times> int \<times> uid) list \<Rightarrow> autodag \<Rightarrow> bool" where
  "covered H s \<longleftrightarrow>
     (\<forall>(a, md, m) \<in> set H. valid_mode md \<longrightarrow>
        ma_writer (dg_mem s m) = Some a \<or> a \<in> set (ma_readers (dg_mem s m)) \<or>
        (\<exists>w. ma_writer (dg_mem s m) = Some w \<and> (w, a) \<in> (edges s)\<^sup>+)) \<and>
     (\<forall>(a, md, m) \<in> set H. writes md \<longrightarrow>
        (\<exists>w. ma_writer (dg_mem s m) = Some w \<and> (w = a \<or> (w, a) \<in> (edges s)\<^sup>+))) \<and>
     (\<forall>m w. ma_writer (dg_mem s m) = Some w \<longrightarrow> (\<forall>r \<in> set (ma_readers (dg_mem s m)). (r, w) \<in> (edges s)\<^sup>+))"

lemma order_write_covers:
  assumes c: "covered H s" and t: "t \<in> set (dg_tasks s)"
    and E: "edges s \<subseteq> E" "\<And>u. u \<in> set (dg_deps (order_write t m s) t) \<Longrightarrow> (t, u) \<in> E"
    and a: "(a, md, m) \<in> set H" "valid_mode md" "a \<noteq> t"
  shows "(t, a) \<in> E\<^sup>+"
proof -
  let ?w = "ma_writer (dg_mem s m)" and ?R = "ma_readers (dg_mem s m)"
  have mono: "x \<in> (edges s)\<^sup>+ \<Longrightarrow> x \<in> E\<^sup>+" for x using E(1) trancl_mono by blast
  have read: "(r, w) \<in> E\<^sup>+" if "?w = Some w" "r \<in> set ?R" for r w using c that mono unfolding covered_def by blast
  have dep: "u \<noteq> t \<Longrightarrow> u \<in> set ?R \<Longrightarrow> (t, u) \<in> E" "?R = [] \<Longrightarrow> ?w = Some u \<Longrightarrow> u \<noteq> t \<Longrightarrow> (t, u) \<in> E" for u
    using E(2) [of u] by (cases "?R = []"; auto simp: order_write_sel(6))+
  have w: "w = t \<or> (t, w) \<in> E\<^sup>+" if w: "?w = Some w" for w
  proof (cases "?R = []")
    case True
    with dep(2) w show ?thesis by blast
  next
    case False
    then obtain r where r: "r \<in> set ?R" by (metis last_in_set)
    with read [OF w r] dep(1) [of r] show ?thesis by (cases "r = t") (auto intro: trancl_into_trancl2)
  qed
  from c a(1,2) consider "?w = Some a" | "a \<in> set ?R" | w' where "?w = Some w'" "(w', a) \<in> (edges s)\<^sup>+"
    unfolding covered_def by fastforce
  then show ?thesis
  proof cases
    case 1
    with w a(3) show ?thesis by blast
  next
    case 2
    with dep(1) a(3) show ?thesis by blast
  next
    case 3
    with w [OF 3(1)] mono [OF 3(2)] show ?thesis by (auto intro: trancl_trans)
  qed
qed

lemma order_read_covers:
  assumes c: "covered H s" and E: "edges s \<subseteq> E" "\<And>u. u \<in> set (dg_deps (order_read t m s) t) \<Longrightarrow> (t, u) \<in> E"
    and a: "(a, md, m) \<in> set H" "writes md" "a \<noteq> t"
  shows "(t, a) \<in> E\<^sup>+"
proof -
  have mono: "x \<in> (edges s)\<^sup>+ \<Longrightarrow> x \<in> E\<^sup>+" for x using E(1) trancl_mono by blast
  from c a(1,2) obtain w where w: "ma_writer (dg_mem s m) = Some w" "w = a \<or> (w, a) \<in> (edges s)\<^sup>+" unfolding covered_def by fastforce
  have "w = t \<or> (t, w) \<in> E" using E(2) [of w] w(1) by (auto simp: order_read_sel(6))
  with w(2) mono a(3) show ?thesis by (auto intro: trancl_into_trancl2)
qed

definition dag_inv :: "(uid \<times> int \<times> uid) list \<Rightarrow> autodag \<Rightarrow> bool" where
  "dag_inv H s \<longleftrightarrow> dag_ids s \<and> covered H s \<and> sorted_wrt (ordered_by (edges s)) H"

lemma ordered_by_mono: "E \<subseteq> E' \<Longrightarrow> sorted_wrt (ordered_by E) H \<Longrightarrow> sorted_wrt (ordered_by E') H"
  by (erule sorted_wrt_mono_rel [rotated]) (auto simp: ordered_by_def intro: trancl_mono)

text \<open>Objects other than the accessed one keep their part of the invariant when edges are added.\<close>

lemma covered_other:
  assumes "covered H s" "edges s \<subseteq> edges s'"
  shows "ma_writer (dg_mem s' x) = ma_writer (dg_mem s x) \<Longrightarrow> set (ma_readers (dg_mem s x)) \<subseteq> set (ma_readers (dg_mem s' x)) \<Longrightarrow>
      (a, md, x) \<in> set H \<Longrightarrow> valid_mode md \<Longrightarrow>
      ma_writer (dg_mem s' x) = Some a \<or> a \<in> set (ma_readers (dg_mem s' x)) \<or> (\<exists>w. ma_writer (dg_mem s' x) = Some w \<and> (w, a) \<in> (edges s')\<^sup>+)"
    "ma_writer (dg_mem s' x) = ma_writer (dg_mem s x) \<Longrightarrow> (a, md, x) \<in> set H \<Longrightarrow> writes md \<Longrightarrow>
      \<exists>w. ma_writer (dg_mem s' x) = Some w \<and> (w = a \<or> (w, a) \<in> (edges s')\<^sup>+)"
    "ma_writer (dg_mem s x) = Some w \<Longrightarrow> r \<in> set (ma_readers (dg_mem s x)) \<Longrightarrow> (r, w) \<in> (edges s')\<^sup>+"
proof -
  have mono: "(p, q) \<in> (edges s)\<^sup>+ \<Longrightarrow> (p, q) \<in> (edges s')\<^sup>+" for p q using assms(2) trancl_mono by blast
  note c = assms(1) [unfolded covered_def]
  show "ma_writer (dg_mem s' x) = Some a \<or> a \<in> set (ma_readers (dg_mem s' x)) \<or> (\<exists>w. ma_writer (dg_mem s' x) = Some w \<and> (w, a) \<in> (edges s')\<^sup>+)"
    if "ma_writer (dg_mem s' x) = ma_writer (dg_mem s x)" "set (ma_readers (dg_mem s x)) \<subseteq> set (ma_readers (dg_mem s' x))"
      "(a, md, x) \<in> set H" "valid_mode md"
    using bspec [OF conjunct1 [OF c] that(3)] that(2,4) mono unfolding that(1) prod.case by blast
  show "\<exists>w. ma_writer (dg_mem s' x) = Some w \<and> (w = a \<or> (w, a) \<in> (edges s')\<^sup>+)"
    if "ma_writer (dg_mem s' x) = ma_writer (dg_mem s x)" "(a, md, x) \<in> set H" "writes md"
    using bspec [OF conjunct1 [OF conjunct2 [OF c]] that(2)] that(3) mono unfolding that(1) prod.case by blast
  show "(r, w) \<in> (edges s')\<^sup>+" if "ma_writer (dg_mem s x) = Some w" "r \<in> set (ma_readers (dg_mem s x))"
    using conjunct2 [OF conjunct2 [OF c]] that mono by blast
qed

lemma write_inv:
  assumes i: "dag_inv H s" and t: "t \<in> set (dg_tasks s)" and md: "writes md"
  shows "dag_inv (H @ [(t, md, m)]) (upd_mem m (\<lambda>a. a\<lparr>ma_writer := Some t\<rparr>) (order_write t m s))"
proof -
  let ?s = "upd_mem m (\<lambda>a. a\<lparr>ma_writer := Some t\<rparr>) (order_write t m s)"
  note sel = order_write_sel [where t = t and m = m and s = s]
  have c: "covered H s" using i by (simp add: dag_inv_def)
  have sub: "edges s \<subseteq> edges ?s" using order_deps_mono by (fastforce simp: edges_def sel(3))
  have E: "\<And>u. u \<in> set (dg_deps (order_write t m s) t) \<Longrightarrow> (t, u) \<in> edges ?s" using t by (simp add: edges_def sel(3))
  have w: "(t, a) \<in> (edges ?s)\<^sup>+" if "(a, md', m) \<in> set H" "valid_mode md'" "a \<noteq> t" for a md'
    by (rule order_write_covers [OF c t sub E that])
  have v: "valid_mode md" using md by (simp add: valid_mode_def)
  have m: "dg_mem ?s m = (dg_mem s m)\<lparr>ma_readers := [], ma_writer := Some t\<rparr>" "x \<noteq> m \<Longrightarrow> dg_mem ?s x = dg_mem s x" for x
    by (simp_all add: sel(4))
  have "covered (H @ [(t, md, m)]) ?s"
    unfolding covered_def
  proof (intro conjI ballI allI impI, goal_cases)
    case (1 y)
    obtain a md' x where y: "y = (a, md', x)" by (cases y)
    show ?case unfolding y prod.case
      using 1 y covered_other(1) [OF c sub, of x a md'] w [of a md'] m by (cases "x = m") auto
  next
    case (2 y)
    obtain a md' x where y: "y = (a, md', x)" by (cases y)
    show ?case unfolding y prod.case
      using 2 y covered_other(2) [OF c sub, of x a md'] w [of a md'] m by (cases "x = m") (auto simp: valid_mode_def)
  next
    case (3 x w' r)
    then show ?case using covered_other(3) [OF c sub, of x w' r] by (cases "x = m") (simp_all add: order_write_sel(4))
  qed
  moreover have "dag_ids ?s" using i by (auto simp: dag_inv_def dag_ids_def sel(1-4) split: if_splits)
  moreover have "ordered_by (edges ?s) y (t, md, m)" if "y \<in> set H" for y
  proof (cases y)
    case (fields a md' x)
    with that w [of a md'] show ?thesis by (auto simp: ordered_by_def conflict_def)
  qed
  ultimately show ?thesis using i ordered_by_mono [OF sub] by (simp add: dag_inv_def sorted_wrt_append)
qed

lemma read_inv:
  assumes i: "dag_inv H s" and t: "t \<in> set (dg_tasks s)"
  shows "dag_inv (H @ [(t, iris_r, m)]) (order_read t m s)"
proof -
  let ?s = "order_read t m s"
  note sel = order_read_sel [where t = t and m = m and s = s]
  have c: "covered H s" using i by (simp add: dag_inv_def)
  have sub: "edges s \<subseteq> edges ?s" using order_deps_mono by (fastforce simp: edges_def sel(3))
  have E: "\<And>u. u \<in> set (dg_deps ?s t) \<Longrightarrow> (t, u) \<in> edges ?s" using t by (simp add: edges_def sel(3))
  have w: "(t, a) \<in> (edges ?s)\<^sup>+" if "(a, md', m) \<in> set H" "writes md'" "a \<noteq> t" for a md'
    by (rule order_read_covers [OF c sub E that])
  have nw: "\<not> writes iris_r" by (simp add: writes_def iris_r_def iris_w_def iris_rw_def)
  have m: "dg_mem ?s x = (dg_mem s x)\<lparr>ma_readers := ma_readers (dg_mem s x) @ (if x = m \<and> ma_writer (dg_mem s m) \<noteq> Some t then [t] else [])\<rparr>" for x
    by (simp add: sel(4))
  have "covered (H @ [(t, iris_r, m)]) ?s"
    unfolding covered_def
  proof (intro conjI ballI allI impI, goal_cases)
    case (1 y)
    obtain a md' x where y: "y = (a, md', x)" by (cases y)
    show ?case unfolding y prod.case using 1 y covered_other(1) [OF c sub, of x a md'] by (auto simp: m)
  next
    case (2 y)
    obtain a md' x where y: "y = (a, md', x)" by (cases y)
    show ?case unfolding y prod.case using 2 y nw covered_other(2) [OF c sub, of x a md'] by (auto simp: m)
  next
    case (3 x w' r)
    have "(t, w') \<in> edges ?s" if "x = m" "w' \<noteq> t" using 3(1) E [of w'] that by (simp add: m sel(6))
    with 3 show ?case using covered_other(3) [OF c sub, of x w' r] by (auto simp: m split: if_splits)
  qed
  moreover have "dag_ids ?s" using i by (auto simp: dag_inv_def dag_ids_def sel(1-4) split: if_splits)
  moreover have "ordered_by (edges ?s) y (t, iris_r, m)" if "y \<in> set H" for y
  proof (cases y)
    case (fields a md' x)
    with that w [of a md'] nw show ?thesis by (auto simp: ordered_by_def conflict_def)
  qed
  ultimately show ?thesis using i ordered_by_mono [OF sub] by (simp add: dag_inv_def sorted_wrt_append)
qed

text \<open>A whole access, a task, an application.\<close>

lemma create_dependency_inv:
  assumes "dag_inv H s" "t \<in> set (dg_tasks s)"
  shows "dag_inv (H @ [(t, md, mem_uid mem)]) (create_dependency t md mem s) \<and> dg_tasks (create_dependency t md mem s) = dg_tasks s"
proof (cases "writes md")
  case True
  let ?s = "upd_mem (mem_uid mem) (\<lambda>a. a\<lparr>ma_writer := Some t\<rparr>) (order_write t (mem_uid mem) s)"
  have w: "dag_inv (H @ [(t, md, mem_uid mem)]) ?s" by (rule write_inv [OF assms True])
  then have "dag_ids ?s" by (simp add: dag_inv_def)
  note f = create_auto_flush_sel [OF this, where t = t and m = "mem_uid mem"]
  have "edges (create_auto_flush t (mem_uid mem) ?s) = edges ?s" using f(1,5) by (auto simp: edges_def)
  with w f have "dag_inv (H @ [(t, md, mem_uid mem)]) (create_auto_flush t (mem_uid mem) ?s)" by (simp add: dag_inv_def covered_def)
  with w f(1) True show ?thesis by (auto simp: create_dependency_def Let_def writes_def order_write_sel)
next
  case False
  show ?thesis
  proof (cases "md = iris_r")
    case True
    with read_inv [OF assms, of "mem_uid mem"] False show ?thesis by (simp add: create_dependency_def Let_def writes_def order_read_sel)
  next
    case False
    with \<open>\<not> writes md\<close> have "\<not> valid_mode md" by (auto simp: valid_mode_def reads_def writes_def)
    then have "dag_inv (H @ [(t, md, mem_uid mem)]) s"
      using assms(1) \<open>\<not> writes md\<close> by (auto simp: dag_inv_def covered_def sorted_wrt_append ordered_by_def conflict_def)
    then show ?thesis using False \<open>\<not> writes md\<close> by (simp add: create_dependency_def Let_def writes_def)
  qed
qed

definition history :: "uid list \<Rightarrow> accesses list \<Rightarrow> (uid \<times> int \<times> uid) list" where
  "history ts prog = concat (map (\<lambda>(t, accs). map (\<lambda>(md, mem). (t, md, mem_uid mem)) accs) (zip ts prog))"

lemma kernel_deps_inv:
  assumes "dag_inv H s" "t \<in> set (dg_tasks s)"
  shows "dag_inv (H @ map (\<lambda>(md, mem). (t, md, mem_uid mem)) accs) (kernel_deps t accs s) \<and> dg_tasks (kernel_deps t accs s) = dg_tasks s"
  unfolding kernel_deps_def using assms
proof (induction accs arbitrary: H s)
  case (Cons acc accs)
  obtain md mem where acc: "acc = (md, mem)" by (cases acc)
  from create_dependency_inv [OF Cons.prems, of md mem]
  have 1: "dag_inv (H @ [(t, md, mem_uid mem)]) (create_dependency t md mem s)" "dg_tasks (create_dependency t md mem s) = dg_tasks s" by auto
  with Cons.IH [OF 1(1)] Cons.prems(2) acc show ?case by simp
qed simp

lemma task_create_inv: "dag_inv H s \<Longrightarrow> dag_inv H (task_create s)"
proof -
  assume i: "dag_inv H s"
  have "edges s \<subseteq> edges (task_create s)" by (auto simp: edges_def task_create_def)
  with i ordered_by_mono [OF this] trancl_mono [OF _ this] show "dag_inv H (task_create s)"
    unfolding dag_inv_def covered_def by (fastforce simp: task_create_def dag_ids_def less_SucI)
qed

definition start :: "uid \<Rightarrow> bool \<Rightarrow> autodag" where
  "start n graph = (if graph then graph_create (autodag_new n) else autodag_new n)"

lemma start_inv: "dag_inv [] (start n graph)" "dg_tasks (start n graph) = []"
  by (auto simp: dag_inv_def dag_ids_def covered_def start_def graph_create_def autodag_new_def)

lemma build_snoc: "build (prog @ [accs]) s = kernel_deps (dg_next (build prog s)) accs (task_create (build prog s))"
  by (simp add: build_def)

lemma build_inv:
  "dag_inv (history (dg_tasks (build prog (start n graph))) prog) (build prog (start n graph)) \<and>
   length (dg_tasks (build prog (start n graph))) = length prog"
proof (induction prog rule: rev_induct)
  case Nil
  then show ?case using start_inv by (simp add: build_def history_def)
next
  case (snoc accs prog)
  let ?s = "build prog (start n graph)"
  have t: "dg_next ?s \<in> set (dg_tasks (task_create ?s))" by (simp add: task_create_def)
  from snoc kernel_deps_inv [OF task_create_inv t, of _ accs] show ?case
    by (auto simp: build_snoc task_create_def history_def)
qed

lemma create_dependency_frame:
  "dg_tasks (create_dependency t md mem s) = dg_tasks s" "dg_next s \<le> dg_next (create_dependency t md mem s)"
  by (auto simp: create_dependency_def Let_def order_write_sel order_read_sel create_auto_flush_def ReplaceDependFlushTask_def
      graph_AddTask_def split: option.splits)

lemma kernel_deps_frame: "dg_tasks (kernel_deps t accs s) = dg_tasks s \<and> dg_next s \<le> dg_next (kernel_deps t accs s)"
  unfolding kernel_deps_def
proof (induction accs arbitrary: s)
  case (Cons acc accs)
  obtain md mem where acc: "acc = (md, mem)" by (cases acc)
  show ?case using Cons [of "create_dependency t md mem s"] create_dependency_frame [where t = t and md = md and mem = mem and s = s] acc by simp
qed simp

lemma build_distinct:
  "sorted_wrt (<) (dg_tasks (build prog (start n graph))) \<and>
   (\<forall>t \<in> set (dg_tasks (build prog (start n graph))). t < dg_next (build prog (start n graph))) \<and>
   distinct (dg_tasks (build prog (start n graph)))"
proof (induction prog rule: rev_induct)
  case (snoc accs prog)
  let ?s = "build prog (start n graph)"
  have "Suc (dg_next ?s) \<le> dg_next (build (prog @ [accs]) (start n graph))"
    using kernel_deps_frame [of "dg_next ?s" accs "task_create ?s"] by (simp add: build_snoc task_create_def)
  moreover have "dg_tasks (build (prog @ [accs]) (start n graph)) = dg_tasks ?s @ [dg_next ?s]"
    using kernel_deps_frame [of "dg_next ?s" accs "task_create ?s"] by (simp add: build_snoc task_create_def)
  ultimately show ?case using snoc by (auto simp: sorted_wrt_append)
qed (simp add: build_def start_inv(2))

lemma history_mem:
  "length ts = length prog \<Longrightarrow> i < length prog \<Longrightarrow> (md, mem) \<in> set (prog ! i) \<Longrightarrow> (ts ! i, md, mem_uid mem) \<in> set (history ts prog)"
proof -
  assume a: "length ts = length prog" "i < length prog" "(md, mem) \<in> set (prog ! i)"
  then have "(ts ! i, prog ! i) \<in> set (zip ts prog)" by (auto simp: set_zip)
  with a(3) show ?thesis unfolding history_def by force
qed

text \<open>Accesses of an earlier task stand before those of a later one.\<close>

lemma history_split:
  assumes "length ts = length prog" "i < j" "j < length prog"
  shows "\<exists>H1 H2. history ts prog = H1 @ H2 \<and> (\<forall>(md, mem) \<in> set (prog ! i). (ts ! i, md, mem_uid mem) \<in> set H1) \<and>
    (\<forall>(md, mem) \<in> set (prog ! j). (ts ! j, md, mem_uid mem) \<in> set H2)"
proof -
  have "history ts prog = history (take j ts) (take j prog) @ history (drop j ts) (drop j prog)"
    unfolding history_def by (simp flip: concat_append map_append zip_append add: assms(1))
  moreover have "(ts ! i, md, mem_uid mem) \<in> set (history (take j ts) (take j prog))" if "(md, mem) \<in> set (prog ! i)" for md mem
    using history_mem [of "take j ts" "take j prog" i md mem] assms that by simp
  moreover have "(ts ! j, md, mem_uid mem) \<in> set (history (drop j ts) (drop j prog))" if "(md, mem) \<in> set (prog ! j)" for md mem
    using history_mem [of "drop j ts" "drop j prog" 0 md mem] assms that by simp
  ultimately show ?thesis by blast
qed

text \<open>C24. Of two accesses of different tasks to one object, at least one of them a write, the task of the later depends on the task of
  the earlier, directly or through others: read after write, write after read and write after write.\<close>

theorem autodag_orders:
  assumes "s = build prog (start n graph)" "i < j" "j < length prog"
    "(md, mem) \<in> set (prog ! i)" "(md', mem') \<in> set (prog ! j)" "mem_uid mem = mem_uid mem'"
    "md \<in> {iris_r, iris_w, iris_rw}" "md' \<in> {iris_r, iris_w, iris_rw}" "md \<noteq> iris_r \<or> md' \<noteq> iris_r"
  shows "(dg_tasks s ! j, dg_tasks s ! i) \<in> {(t, u). u \<in> set (dg_deps s t)}\<^sup>+"
proof -
  let ?ts = "dg_tasks s"
  have inv: "sorted_wrt (ordered_by (edges s)) (history ?ts prog)" "length ?ts = length prog" and d: "distinct ?ts"
    using build_inv [of prog n graph] build_distinct [of prog n graph] assms(1) by (auto simp: dag_inv_def)
  from history_split [OF inv(2) assms(2,3)] obtain H1 H2 where H: "history ?ts prog = H1 @ H2"
    "(?ts ! i, md, mem_uid mem) \<in> set H1" "(?ts ! j, md', mem_uid mem') \<in> set H2" using assms(4,5) by blast
  with inv(1) have "ordered_by (edges s) (?ts ! i, md, mem_uid mem) (?ts ! j, md', mem_uid mem')" by (simp add: sorted_wrt_append)
  moreover have "?ts ! i \<noteq> ?ts ! j" using d inv(2) assms(2,3) by (simp add: nth_eq_iff_index_eq)
  ultimately have "(?ts ! j, ?ts ! i) \<in> (edges s)\<^sup>+"
    using assms(6-9) by (auto simp: ordered_by_def conflict_def valid_mode_def reads_def writes_def)
  then show ?thesis by (rule trancl_mono) (auto simp: edges_def)
qed

theorem autodag_orders_witness:
  "let A = \<lparr>mem_uid = 1, mem_handler = IRIS_DMEM, mem_bytes = 8\<rparr>;
       s = build [[(iris_w, A)], [(iris_r, A)], [(iris_rw, A)]] (start 10 True)
   in (dg_tasks s ! 2, dg_tasks s ! 0) \<in> {(t, u). u \<in> set (dg_deps s t)}\<^sup>+ \<and> dg_deps s (dg_tasks s ! 2) = [13]"
proof -
  let ?A = "\<lparr>mem_uid = 1, mem_handler = IRIS_DMEM, mem_bytes = 8\<rparr>"
  let ?s = "build [[(iris_w, ?A)], [(iris_r, ?A)], [(iris_rw, ?A)]] (start 10 True)"
  have "dg_deps ?s (dg_tasks ?s ! 2) = [13]" by code_simp
  moreover have "(dg_tasks ?s ! 2, dg_tasks ?s ! 0) \<in> {(t, u). u \<in> set (dg_deps ?s t)}\<^sup>+"
    by (rule autodag_orders [OF refl, of 0 2 _ iris_w ?A iris_rw ?A]) (simp_all add: iris_r_def iris_w_def iris_rw_def)
  ultimately show ?thesis by (simp add: Let_def)
qed

section \<open>No cycles\<close>

definition flushes :: "autodag \<Rightarrow> uid set" where
  "flushes s = {k. \<exists>m. ma_flush (dg_mem s m) = Some k}"

text \<open>The application's tasks depend on earlier ones of the application, flush tasks on tasks of the application, and end
  tasks on flush tasks.\<close>

definition layered :: "autodag \<Rightarrow> bool" where
  "layered s \<longleftrightarrow>
     (\<forall>m w. ma_writer (dg_mem s m) = Some w \<longrightarrow> w \<in> set (dg_tasks s)) \<and> (\<forall>m. set (ma_readers (dg_mem s m)) \<subseteq> set (dg_tasks s)) \<and>
     (\<forall>t \<in> set (dg_tasks s). \<forall>u \<in> set (dg_deps s t). u \<in> set (dg_tasks s) \<and> u < t) \<and>
     (\<forall>k \<in> flushes s. set (dg_deps s k) \<subseteq> set (dg_tasks s)) \<and>
     (\<forall>x. x \<notin> set (dg_tasks s) \<longrightarrow> x \<notin> flushes s \<longrightarrow> set (dg_deps s x) \<subseteq> flushes s) \<and>
     (\<forall>x \<ge> dg_next s. dg_deps s x = []) \<and>
     (\<forall>g. dg_graph s = Some g \<longrightarrow> g_end g \<notin> flushes s)"

lemma layeredD:
  assumes "layered s"
  shows "ma_writer (dg_mem s m) = Some w \<Longrightarrow> w \<in> set (dg_tasks s)" "r \<in> set (ma_readers (dg_mem s m)) \<Longrightarrow> r \<in> set (dg_tasks s)"
    "t \<in> set (dg_tasks s) \<Longrightarrow> u \<in> set (dg_deps s t) \<Longrightarrow> u \<in> set (dg_tasks s) \<and> u < t"
    "k \<in> flushes s \<Longrightarrow> u \<in> set (dg_deps s k) \<Longrightarrow> u \<in> set (dg_tasks s)"
    "x \<notin> set (dg_tasks s) \<Longrightarrow> x \<notin> flushes s \<Longrightarrow> u \<in> set (dg_deps s x) \<Longrightarrow> u \<in> flushes s"
    "dg_next s \<le> x \<Longrightarrow> dg_deps s x = []" "dg_graph s = Some g \<Longrightarrow> g_end g \<notin> flushes s"
proof -
  note L = assms [unfolded layered_def]
  show "ma_writer (dg_mem s m) = Some w \<Longrightarrow> w \<in> set (dg_tasks s)" using conjunct1 [OF L] by blast
  note L = conjunct2 [OF L]
  show "r \<in> set (ma_readers (dg_mem s m)) \<Longrightarrow> r \<in> set (dg_tasks s)" using conjunct1 [OF L] by blast
  note L = conjunct2 [OF L]
  show "t \<in> set (dg_tasks s) \<Longrightarrow> u \<in> set (dg_deps s t) \<Longrightarrow> u \<in> set (dg_tasks s) \<and> u < t" using conjunct1 [OF L] by blast
  note L = conjunct2 [OF L]
  show "k \<in> flushes s \<Longrightarrow> u \<in> set (dg_deps s k) \<Longrightarrow> u \<in> set (dg_tasks s)" using conjunct1 [OF L] by blast
  note L = conjunct2 [OF L]
  show "x \<notin> set (dg_tasks s) \<Longrightarrow> x \<notin> flushes s \<Longrightarrow> u \<in> set (dg_deps s x) \<Longrightarrow> u \<in> flushes s" using conjunct1 [OF L] by blast
  note L = conjunct2 [OF L]
  show "dg_next s \<le> x \<Longrightarrow> dg_deps s x = []" "dg_graph s = Some g \<Longrightarrow> g_end g \<notin> flushes s" using L by blast+
qed

lemma layered_acyclic:
  assumes "dag_ids s" "layered s"
  shows "acyclic {(t, u). u \<in> set (dg_deps s t)}"
proof -
  define f where "f x = (if x \<in> set (dg_tasks s) then x else if x \<in> flushes s then dg_next s else Suc (dg_next s))" for x
  have ids: "\<And>t. t \<in> set (dg_tasks s) \<Longrightarrow> t < dg_next s" "\<And>k. k \<in> flushes s \<Longrightarrow> k \<notin> set (dg_tasks s)"
    using assms(1) by (auto simp: dag_ids_def flushes_def)
  have "f u < f t" if u: "u \<in> set (dg_deps s t)" for t u
  proof -
    consider "t \<in> set (dg_tasks s)" | "t \<notin> set (dg_tasks s)" "t \<in> flushes s" | "t \<notin> set (dg_tasks s)" "t \<notin> flushes s" by blast
    then show ?thesis
    proof cases
      case 1
      with layeredD(3) [OF assms(2) _ u] have "u \<in> set (dg_tasks s)" "u < t" by auto
      with 1 show ?thesis by (simp add: f_def)
    next
      case 2
      with assms(2) u have "u \<in> set (dg_tasks s)" unfolding layered_def by blast
      with 2 ids show ?thesis by (simp add: f_def)
    next
      case 3
      with assms(2) u have "u \<in> flushes s" unfolding layered_def by blast
      with 3 ids show ?thesis by (auto simp: f_def)
    qed
  qed
  then have "{(t, u). u \<in> set (dg_deps s t)}\<inverse> \<subseteq> measure f" by auto
  then have "wf ({(t, u). u \<in> set (dg_deps s t)}\<inverse>)" by (rule wf_subset [OF wf_measure])
  then show ?thesis using wf_acyclic acyclic_converse by metis
qed

lemma layered_cong:
  assumes "layered s" "dg_tasks s' = dg_tasks s" "flushes s' = flushes s" "dg_graph s' = dg_graph s" "dg_next s' = dg_next s"
    "\<And>x. x \<noteq> t \<Longrightarrow> dg_deps s' x = dg_deps s x" "t \<in> set (dg_tasks s)" "\<And>u. u \<in> set (dg_deps s' t) \<Longrightarrow> u \<in> set (dg_tasks s) \<and> u < t"
    "\<And>m w. ma_writer (dg_mem s' m) = Some w \<Longrightarrow> w \<in> set (dg_tasks s)" "\<And>m. set (ma_readers (dg_mem s' m)) \<subseteq> set (dg_tasks s)"
    "t < dg_next s" "t \<notin> flushes s"
  shows "layered s'"
proof -
  have "dg_deps s' x = dg_deps s x" if "x \<in> flushes s \<or> x \<notin> set (dg_tasks s) \<or> dg_next s \<le> x" for x using assms(6,7,11,12) that by force
  moreover have "u \<in> set (dg_tasks s) \<and> u < x" if "x \<in> set (dg_tasks s)" "u \<in> set (dg_deps s' x)" for x u
    using that assms(1,6,8) by (cases "x = t") (auto simp: layered_def)
  moreover note L = assms(1) [unfolded layered_def]
  ultimately show ?thesis unfolding layered_def assms(2-5) using assms(9,10) by (intro conjI; (metis L)?)
qed

lemma order_layered:
  assumes l: "layered s" "dag_ids s" and t: "t \<in> set (dg_tasks s)" "\<forall>u \<in> set (dg_tasks s). u \<le> t"
  shows "layered (upd_mem m (\<lambda>a. a\<lparr>ma_writer := Some t\<rparr>) (order_write t m s))" "layered (order_read t m s)"
proof -
  have t': "t < dg_next s" "t \<notin> flushes s" using l(2) t(1) by (auto simp: dag_ids_def flushes_def)
  have u: "u \<in> set (dg_tasks s) \<and> u < t" if "u \<in> set (dg_deps s t) \<or> ma_writer (dg_mem s m) = Some u \<and> u \<noteq> t \<or> u \<in> set (ma_readers (dg_mem s m)) \<and> u \<noteq> t" for u
    using that l(1) t unfolding layered_def by (metis le_neq_implies_less subset_iff)
  have mem: "\<And>x w. ma_writer (dg_mem s x) = Some w \<Longrightarrow> w \<in> set (dg_tasks s)" "\<And>x. set (ma_readers (dg_mem s x)) \<subseteq> set (dg_tasks s)"
    using l(1) unfolding layered_def by blast+
  have other: "dg_deps (order_write t m s) x = dg_deps s x" "dg_deps (order_read t m s) x = dg_deps s x" if "x \<noteq> t" for x
  proof -
    have "dg_deps (fold (\<lambda>r s. if r \<noteq> t then add_depend t r s else s) rs s) x = dg_deps s x" for rs s
      using that by (induction rs arbitrary: s) (auto simp: add_depend_def)
    with that show "dg_deps (order_write t m s) x = dg_deps s x" "dg_deps (order_read t m s) x = dg_deps s x"
      by (auto simp: order_write_def order_read_def create_multi_read_dependency_def Let_def add_depend_def)
  qed
  have "ma_flush (dg_mem (upd_mem m (\<lambda>a. a\<lparr>ma_writer := Some t\<rparr>) (order_write t m s)) x) = ma_flush (dg_mem s x)"
    "ma_flush (dg_mem (order_read t m s) x) = ma_flush (dg_mem s x)" for x by (simp_all add: order_write_sel order_read_sel)
  then have fl: "flushes (upd_mem m (\<lambda>a. a\<lparr>ma_writer := Some t\<rparr>) (order_write t m s)) = flushes s" "flushes (order_read t m s) = flushes s"
    by (simp_all add: flushes_def)
  show "layered (upd_mem m (\<lambda>a. a\<lparr>ma_writer := Some t\<rparr>) (order_write t m s))"
    by (rule layered_cong [OF l(1), where t = t])
      (use t t' u mem other fl in \<open>auto simp: order_write_sel split: if_splits\<close>)
  show "layered (order_read t m s)"
    by (rule layered_cong [OF l(1), where t = t])
      (use t t' u mem other fl in \<open>auto simp: order_read_sel split: if_splits\<close>)
qed

lemma flush_layered:
  assumes l: "layered s" "dag_ids s" and t: "t \<in> set (dg_tasks s)"
  shows "layered (create_auto_flush t m s)"
proof (cases "dg_graph s")
  case (Some g)
  let ?k = "dg_next s"
  note L = layeredD [OF l(1)]
  note I = l(2) [unfolded dag_ids_def]
  have n: "dg_deps s ?k = []" "?k \<notin> set (dg_tasks s)" "?k \<notin> flushes s" "g_end g \<noteq> ?k" "g_end g \<notin> set (dg_tasks s)" "g_end g \<notin> flushes s"
    using L(6) [of ?k] L(7) [OF Some] I Some by (auto simp: flushes_def)
  show ?thesis
  proof (cases "ma_flush (dg_mem s m)")
    case None
    let ?s = "create_auto_flush t m s"
    have s: "dg_tasks ?s = dg_tasks s" "dg_next ?s = Suc ?k" "\<And>x. ma_writer (dg_mem ?s x) = ma_writer (dg_mem s x)"
      "\<And>x. ma_readers (dg_mem ?s x) = ma_readers (dg_mem s x)" "\<And>x. ma_flush (dg_mem ?s x) = (if x = m then Some ?k else ma_flush (dg_mem s x))"
      "\<And>g'. dg_graph ?s = Some g' \<Longrightarrow> g_end g' = g_end g"
      using Some None by (auto simp: create_auto_flush_def graph_AddTask_def Let_def split: if_splits)
    have f: "flushes ?s = insert ?k (flushes s)"
    proof (intro set_eqI iffI)
      fix x assume "x \<in> insert ?k (flushes s)"
      then show "x \<in> flushes ?s"
      proof
        assume "x \<in> flushes s"
        then obtain y where "ma_flush (dg_mem s y) = Some x" by (auto simp: flushes_def)
        with None have "ma_flush (dg_mem ?s y) = Some x" by (cases "y = m") (simp_all add: s(5))
        then show ?thesis by (auto simp: flushes_def)
      qed (auto simp: flushes_def s(5) intro: exI [of _ m])
    qed (auto simp: flushes_def s(5) split: if_splits)
    have d: "dg_deps ?s x = (if x = g_end g then push_unique ?k (dg_deps s x) else if x = ?k then [t] else dg_deps s x)" for x
      using Some None n by (simp add: create_auto_flush_def graph_AddTask_def Let_def add_depend_def push_unique_def)
    have e: "g_end g < ?k" using I Some by blast
    have set_d: "set (dg_deps ?s x) = (if x = g_end g then insert ?k (set (dg_deps s x)) else if x = ?k then {t} else set (dg_deps s x))" for x
      by (simp add: d)
    show ?thesis unfolding layered_def s(1-4) f set_d
    proof (intro conjI allI ballI impI, goal_cases)
      case (1 y w)
      then show ?case by (rule L(1))
    next
      case (2 y)
      then show ?case using L(2) by blast
    next
      case (3 y u)
      then show ?case using L(3) [of y u] n by (auto split: if_splits)
    next
      case (4 y u)
      then show ?case using L(3) [of y u] n by (auto split: if_splits)
    next
      case (5 y)
      then show ?case using L(4) [of y] n t by (auto split: if_splits)
    next
      case (6 y)
      then show ?case using L(5) [of y] n by (auto split: if_splits)
    next
      case (7 x)
      with L(6) [of x] e show ?case by (simp add: d)
    next
      case (8 g')
      with s(6) n show ?case by simp
    qed
  next
    case (Some k)
    let ?s = "create_auto_flush t m s"
    have s: "dg_tasks ?s = dg_tasks s" "dg_next ?s = ?k" "dg_mem ?s = dg_mem s" "dg_graph ?s = Some g" "flushes ?s = flushes s"
      "\<And>x. dg_deps ?s x = (if x = k then [t] else dg_deps s x)"
      using \<open>dg_graph s = Some g\<close> Some by (auto simp: create_auto_flush_def ReplaceDependFlushTask_def add_depend_def push_unique_def flushes_def)
    have k: "k \<in> flushes s" "k < ?k" "k \<notin> set (dg_tasks s)" using I Some by (auto simp: flushes_def)
    have set_d: "set (dg_deps ?s x) = (if x = k then {t} else set (dg_deps s x))" for x by (simp add: s(6))
    show ?thesis unfolding layered_def s(1-5) set_d
    proof (intro conjI allI ballI impI, goal_cases)
      case (1 y w)
      then show ?case by (rule L(1))
    next
      case (2 y)
      then show ?case using L(2) by blast
    next
      case (3 y u)
      then show ?case using L(3) [of y u] k by (auto split: if_splits)
    next
      case (4 y u)
      then show ?case using L(3) [of y u] k by (auto split: if_splits)
    next
      case (5 y)
      then show ?case using L(4) [of y] k t by (auto split: if_splits)
    next
      case (6 y)
      then show ?case using L(5) [of y] k by (auto split: if_splits)
    next
      case (7 x)
      with L(6) [of x] k(2) show ?case by (simp add: s(6))
    next
      case (8 g')
      then show ?case using n(6) by simp
    qed
  qed
qed (simp add: create_auto_flush_def l)

lemma create_dependency_layered:
  assumes "dag_inv H s" "layered s" "t \<in> set (dg_tasks s)" "\<forall>u \<in> set (dg_tasks s). u \<le> t"
  shows "layered (create_dependency t md mem s)"
proof -
  have i: "dag_ids s" using assms(1) by (simp add: dag_inv_def)
  note o = order_layered [OF assms(2) i assms(3,4), of "mem_uid mem"]
  let ?s = "upd_mem (mem_uid mem) (\<lambda>a. a\<lparr>ma_writer := Some t\<rparr>) (order_write t (mem_uid mem) s)"
  have "layered (create_auto_flush t (mem_uid mem) ?s)" if "writes md"
    by (rule flush_layered [OF o(1)]) (use write_inv [OF assms(1,3) that] assms(3) in \<open>auto simp: dag_inv_def order_write_sel\<close>)
  with o assms(2) show ?thesis by (auto simp: create_dependency_def Let_def writes_def)
qed

lemma kernel_deps_layered:
  assumes "dag_inv H s" "layered s" "t \<in> set (dg_tasks s)" "\<forall>u \<in> set (dg_tasks s). u \<le> t"
  shows "layered (kernel_deps t accs s)"
  unfolding kernel_deps_def using assms
proof (induction accs arbitrary: H s)
  case (Cons acc accs)
  obtain md mem where acc: "acc = (md, mem)" by (cases acc)
  from create_dependency_inv [OF Cons.prems(1,3), of md mem] create_dependency_layered [OF Cons.prems, of md mem]
  have "dag_inv (H @ [(t, md, mem_uid mem)]) (create_dependency t md mem s)" "layered (create_dependency t md mem s)"
    "dg_tasks (create_dependency t md mem s) = dg_tasks s" by auto
  with Cons.IH [of _ "create_dependency t md mem s"] Cons.prems(3,4) acc show ?case by simp
qed simp

lemma task_create_layered:
  assumes "layered s" "\<And>t. t \<in> set (dg_tasks s) \<Longrightarrow> t < dg_next s"
  shows "layered (task_create s)"
proof -
  note L = layeredD [OF assms(1)]
  have f: "flushes (task_create s) = flushes s" by (simp add: flushes_def task_create_def)
  show ?thesis unfolding layered_def f
  proof (intro conjI allI ballI impI, goal_cases)
    case (1 m w)
    then show ?case using L(1) [of m w] by (simp add: task_create_def)
  next
    case (2 m)
    then show ?case using L(2) [of _ m] by (auto simp: task_create_def)
  next
    case (3 t u)
    then show ?case using L(3) [of t u] L(6) [of t] by (auto simp: task_create_def)
  next
    case (4 t u)
    then show ?case using L(3) [of t u] L(6) [of t] by (auto simp: task_create_def)
  next
    case (5 k)
    then show ?case using L(4) [of k] by (auto simp: task_create_def)
  next
    case (6 x)
    then show ?case using L(5) [of x] by (auto simp: task_create_def)
  next
    case (7 x)
    then show ?case using L(6) [of x] by (simp add: task_create_def)
  next
    case (8 g)
    then show ?case using L(7) [of g] by (simp add: task_create_def)
  qed
qed

lemma build_layered: "layered (build prog (start n graph))"
proof (induction prog rule: rev_induct)
  case Nil
  show ?case by (auto simp: build_def layered_def start_def graph_create_def autodag_new_def flushes_def)
next
  case (snoc accs prog)
  let ?s = "build prog (start n graph)"
  have i: "dag_inv (history (dg_tasks ?s) prog) (task_create ?s)" using build_inv task_create_inv by blast
  have l: "t < dg_next ?s" if "t \<in> set (dg_tasks ?s)" for t using build_distinct [of prog n graph] that by blast
  from kernel_deps_layered [OF i task_create_layered [OF snoc.IH l], of "dg_next ?s" accs] l show ?case
    by (auto simp: build_snoc task_create_def less_imp_le)
qed


section \<open>What is copied back\<close>

text \<open>An object all of whose accesses name it as a data memory object, in an application with a graph.\<close>

definition is_dmem :: "uid \<Rightarrow> accesses list \<Rightarrow> bool" where
  "is_dmem m prog \<longleftrightarrow> (\<forall>accs \<in> set prog. \<forall>(md, mem) \<in> set accs. mem_uid mem = m \<longrightarrow> mem_handler mem = IRIS_DMEM)"

definition writes_mem :: "uid \<Rightarrow> int \<times> BaseMemRef \<Rightarrow> bool" where
  "writes_mem m acc \<longleftrightarrow> writes (fst acc) \<and> mem_uid (snd acc) = m"

definition flush_inv :: "uid \<Rightarrow> autodag \<Rightarrow> bool" where
  "flush_inv m s \<longleftrightarrow> dg_graph s \<noteq> None \<and>
     (\<forall>x y k. ma_flush (dg_mem s x) = Some k \<longrightarrow> ma_flush (dg_mem s y) = Some k \<longrightarrow> x = y) \<and>
     (\<forall>k g. ma_flush (dg_mem s m) = Some k \<longrightarrow> dg_graph s = Some g \<longrightarrow> k \<in> set (g_tasks g) \<and> k \<in> set (dg_deps s (g_end g))) \<and>
     (\<forall>w. ma_writer (dg_mem s m) = Some w \<longrightarrow> (\<exists>k. ma_flush (dg_mem s m) = Some k \<and> dg_deps s k = [w]))"

lemma order_deps_other:
  assumes "x \<noteq> t"
  shows "dg_deps (order_write t m s) x = dg_deps s x" "dg_deps (order_read t m s) x = dg_deps s x"
proof -
  have "dg_deps (fold (\<lambda>r s. if r \<noteq> t then add_depend t r s else s) rs s) x = dg_deps s x" for rs s
    using assms by (induction rs arbitrary: s) (auto simp: add_depend_def)
  with assms show "dg_deps (order_write t m s) x = dg_deps s x" "dg_deps (order_read t m s) x = dg_deps s x"
    by (auto simp: order_write_def order_read_def create_multi_read_dependency_def Let_def add_depend_def)
qed

text \<open>The flush task of the object itself, and of another object.\<close>

lemma create_auto_flush_inv:
  assumes i: "dag_ids s" "layered s" and g: "dg_graph s = Some g" and t: "t \<in> set (dg_tasks s)"
    and inj: "\<And>x y k. ma_flush (dg_mem s x) = Some k \<Longrightarrow> ma_flush (dg_mem s y) = Some k \<Longrightarrow> x = y"
    and old: "\<And>k. ma_flush (dg_mem s m) = Some k \<Longrightarrow> k \<in> set (g_tasks g) \<and> k \<in> set (dg_deps s (g_end g))"
    and w: "\<And>u. ma_writer (dg_mem s m) = Some u \<Longrightarrow> if m' = m then u = t else \<exists>k. ma_flush (dg_mem s m) = Some k \<and> dg_deps s k = [u]"
  shows "flush_inv m (create_auto_flush t m' s)"
proof -
  have fresh: "ma_flush (dg_mem s x) = Some k \<Longrightarrow> k < dg_next s \<and> k \<noteq> g_end g" for x k
    using i(1) layeredD(7) [OF i(2) g] by (auto simp: dag_ids_def flushes_def)
  have e: "g_end g < dg_next s" "dg_deps s (dg_next s) = []" using i(1) g layeredD(6) [OF i(2), of "dg_next s"] by (auto simp: dag_ids_def)
  show ?thesis
  proof (cases "ma_flush (dg_mem s m')")
    case None
    let ?k = "dg_next s"
    define r where "r = create_auto_flush t m' s"
    have s: "\<And>x. ma_flush (dg_mem r x) = (if x = m' then Some ?k else ma_flush (dg_mem s x))"
      "\<And>x. ma_writer (dg_mem r x) = ma_writer (dg_mem s x)" "dg_graph r = Some (g\<lparr>g_tasks := g_tasks g @ [?k]\<rparr>)"
      using g None by (auto simp: r_def create_auto_flush_def graph_AddTask_def Let_def)
    have d: "dg_deps r x = (if x = g_end g then push_unique ?k (dg_deps s x) else if x = ?k then [t] else dg_deps s x)" for x
      using g None e by (simp add: r_def create_auto_flush_def graph_AddTask_def Let_def add_depend_def push_unique_def)
    have W: "\<exists>k. ma_flush (dg_mem r m) = Some k \<and> dg_deps r k = [u]" if u: "ma_writer (dg_mem s m) = Some u" for u
    proof (cases "m' = m")
      case True
      have "ma_flush (dg_mem r m) = Some ?k" "dg_deps r ?k = [t]" using True s(1) [of m] d [of ?k] e by simp_all
      with w [OF u] True show ?thesis by auto
    next
      case False
      with w [OF u] obtain k where "ma_flush (dg_mem s m) = Some k" "dg_deps s k = [u]" by auto
      with False fresh [of m k] show ?thesis by (simp add: s(1) d)
    qed
    have J: "ma_flush (dg_mem r x) = Some k \<Longrightarrow> ma_flush (dg_mem r y) = Some k \<Longrightarrow> x = y" for x y k
      using inj [of x k y] fresh [of x k] fresh [of y k] s(1) [of x] s(1) [of y] by (cases "x = m'"; cases "y = m'") auto
    have "flush_inv m r"
      unfolding flush_inv_def
    proof (intro conjI allI impI)
      show "dg_graph r \<noteq> None" by (simp add: s(3))
      show "x = y" if "ma_flush (dg_mem r x) = Some k" "ma_flush (dg_mem r y) = Some k" for x y k using that by (rule J)
      show "\<exists>k. ma_flush (dg_mem r m) = Some k \<and> dg_deps r k = [u]" if "ma_writer (dg_mem r m) = Some u" for u
        using W that by (simp only: s(2))
      fix k g' assume k: "ma_flush (dg_mem r m) = Some k" "dg_graph r = Some g'"
      then have g': "g_tasks g' = g_tasks g @ [?k]" "g_end g' = g_end g" by (auto simp: s(3))
      show "k \<in> set (g_tasks g')" "k \<in> set (dg_deps r (g_end g'))"
        using k(1) s(1) [of m] old [of k] d [of "g_end g"] unfolding g' by (auto split: if_splits)
    qed
    then show ?thesis by (simp add: r_def)
  next
    case (Some k)
    define r where "r = create_auto_flush t m' s"
    have s: "dg_mem r = dg_mem s" "dg_graph r = Some g" "dg_deps r x = (if x = k then [t] else dg_deps s x)" for x
      using g Some by (auto simp: r_def create_auto_flush_def ReplaceDependFlushTask_def add_depend_def push_unique_def)
    have "\<exists>k. ma_flush (dg_mem s m) = Some k \<and> dg_deps r k = [u]" if u: "ma_writer (dg_mem s m) = Some u" for u
    proof (cases "m' = m")
      case True
      with w [OF u] Some s(3) [of k] show ?thesis by auto
    next
      case False
      with w [OF u] obtain k' where "ma_flush (dg_mem s m) = Some k'" "dg_deps s k' = [u]" by auto
      with False inj [OF Some] show ?thesis by (auto simp: s(3))
    qed
    with inj old fresh [OF Some] have "flush_inv m r" by (auto simp: flush_inv_def s)
    then show ?thesis by (simp add: r_def)
  qed
qed

lemma create_dependency_flush:
  assumes i: "dag_inv H s" "layered s" and t: "t \<in> set (dg_tasks s)" "\<forall>u \<in> set (dg_tasks s). u \<le> t"
    and f: "flush_inv m s" and h: "mem_uid mem = m \<Longrightarrow> mem_handler mem = IRIS_DMEM"
  shows "flush_inv m (create_dependency t md mem s)"
proof -
  let ?m = "mem_uid mem"
  have ids: "dag_ids s" using i(1) by (simp add: dag_inv_def)
  obtain g where g: "dg_graph s = Some g" using f by (auto simp: flush_inv_def)
  have nt: "g_end g \<noteq> t" "\<And>x k. ma_flush (dg_mem s x) = Some k \<Longrightarrow> k \<noteq> t" using ids g t(1) by (auto simp: dag_ids_def)
  have inj: "x = y" if "ma_flush (dg_mem s x) = Some k" "ma_flush (dg_mem s y) = Some k" for x y k
    using f that by (auto simp: flush_inv_def)
  have old: "k \<in> set (g_tasks g) \<and> k \<in> set (dg_deps s (g_end g))" if "ma_flush (dg_mem s m) = Some k" for k
    using f g that by (auto simp: flush_inv_def)
  have wr: "\<exists>k. ma_flush (dg_mem s m) = Some k \<and> dg_deps s k = [u]" if "ma_writer (dg_mem s m) = Some u" for u
    using f that by (auto simp: flush_inv_def)
  show ?thesis
  proof (cases "writes md")
    case True
    define r where "r = upd_mem ?m (\<lambda>a. a\<lparr>ma_writer := Some t\<rparr>) (order_write t ?m s)"
    have s: "dg_graph r = Some g" "\<And>x. ma_flush (dg_mem r x) = ma_flush (dg_mem s x)"
      "\<And>x. ma_writer (dg_mem r x) = (if x = ?m then Some t else ma_writer (dg_mem s x))"
      "\<And>x. x \<noteq> t \<Longrightarrow> dg_deps r x = dg_deps s x" "t \<in> set (dg_tasks r)"
      using g t(1) by (simp_all add: r_def order_write_sel order_deps_other)
    have i': "dag_ids r" "layered r"
      using write_inv [OF i(1) t(1) True] order_layered(1) [OF i(2) ids t] by (simp_all add: r_def dag_inv_def)
    have w: "if ?m = m then u = t else \<exists>k. ma_flush (dg_mem r m) = Some k \<and> dg_deps r k = [u]" if "ma_writer (dg_mem r m) = Some u" for u
      using that wr [of u] nt(2) by (auto simp: s split: if_splits)
    have "flush_inv m (create_auto_flush t ?m r)"
      by (rule create_auto_flush_inv [OF i' s(1,5) _ _ w]) (use inj old nt(1) in \<open>auto simp: s\<close>)
    moreover have "flush_inv m r" if "?m \<noteq> m"
      using that inj old w nt by (auto simp: flush_inv_def s)
    ultimately show ?thesis using True h by (auto simp: create_dependency_def Let_def writes_def r_def)
  next
    case False
    have "flush_inv m (order_read t ?m s)"
      using inj old wr nt g by (fastforce simp: flush_inv_def order_read_sel order_deps_other)
    with False f show ?thesis by (auto simp: create_dependency_def Let_def writes_def)
  qed
qed

text \<open>Who wrote an object last.\<close>

lemma create_dependency_writer:
  "ma_writer (dg_mem (create_dependency t md mem s) m) =
     (if writes_mem m (md, mem) then Some t else ma_writer (dg_mem s m))"
  by (auto simp: create_dependency_def Let_def writes_mem_def writes_def order_write_sel order_read_sel create_auto_flush_def
      ReplaceDependFlushTask_def graph_AddTask_def split: option.splits)

lemma kernel_deps_writer:
  "ma_writer (dg_mem (kernel_deps t accs s) m) =
     (if \<exists>acc \<in> set accs. writes_mem m acc then Some t else ma_writer (dg_mem s m))"
  unfolding kernel_deps_def
proof (induction accs arbitrary: s)
  case (Cons acc accs)
  obtain md mem where acc: "acc = (md, mem)" by (cases acc)
  show ?case using Cons [of "create_dependency t md mem s"] by (simp add: acc create_dependency_writer)
qed simp

lemma build_writer:
  assumes "i < length prog" "\<exists>acc \<in> set (prog ! i). writes_mem m acc"
    "\<forall>j < length prog. i < j \<longrightarrow> (\<forall>acc \<in> set (prog ! j). \<not> writes_mem m acc)"
  shows "ma_writer (dg_mem (build prog (start n graph)) m) = Some (dg_tasks (build prog (start n graph)) ! i)"
  using assms
proof (induction prog rule: rev_induct)
  case (snoc accs prog)
  let ?s = "build prog (start n graph)"
  have l: "length (dg_tasks ?s) = length prog" using build_inv [of prog n graph] by simp
  have t: "dg_tasks (build (prog @ [accs]) (start n graph)) = dg_tasks ?s @ [dg_next ?s]"
    using kernel_deps_frame [of "dg_next ?s" accs "task_create ?s"] by (simp add: build_snoc task_create_def)
  have w: "ma_writer (dg_mem (build (prog @ [accs]) (start n graph)) m) =
      (if \<exists>acc \<in> set accs. writes_mem m acc then Some (dg_next ?s) else ma_writer (dg_mem ?s m))"
    by (simp add: build_snoc kernel_deps_writer task_create_def)
  show ?case unfolding t w
  proof (cases "i = length prog")
    case True
    with snoc.prems(2) show "(if \<exists>acc \<in> set accs. writes_mem m acc then Some (dg_next ?s) else ma_writer (dg_mem ?s m)) =
      Some ((dg_tasks ?s @ [dg_next ?s]) ! i)" by (simp add: l nth_append)
  next
    case False
    with snoc.prems(1) have i: "i < length prog" by simp
    have later: "\<forall>acc \<in> set ((prog @ [accs]) ! j). \<not> writes_mem m acc" if "i < j" "j \<le> length prog" for j
      using snoc.prems(3) that by (auto simp: less_Suc_eq_le)
    have "\<forall>acc \<in> set (prog ! j). \<not> writes_mem m acc" if "i < j" "j < length prog" for j
      using later [of j] that by (simp add: nth_append)
    with snoc i have "ma_writer (dg_mem ?s m) = Some (dg_tasks ?s ! i)" by (simp add: nth_append)
    moreover have "\<not> writes_mem m acc" if "acc \<in> set accs" for acc
      using later [of "length prog"] i that by simp
    ultimately show "(if \<exists>acc \<in> set accs. writes_mem m acc then Some (dg_next ?s) else ma_writer (dg_mem ?s m)) =
      Some ((dg_tasks ?s @ [dg_next ?s]) ! i)" using i by (simp add: l nth_append)
  qed
qed simp

lemma build_written:
  "acc \<in> set (concat prog) \<Longrightarrow> writes_mem m acc \<Longrightarrow> ma_writer (dg_mem (build prog (start n graph)) m) \<noteq> None"
proof (induction prog rule: rev_induct)
  case (snoc accs prog)
  then show ?case by (auto simp: build_snoc kernel_deps_writer task_create_def)
qed simp

lemma kernel_deps_flush:
  assumes "dag_inv H s" "layered s" "t \<in> set (dg_tasks s)" "\<forall>u \<in> set (dg_tasks s). u \<le> t" "flush_inv m s"
    "\<forall>(md, mem) \<in> set accs. mem_uid mem = m \<longrightarrow> mem_handler mem = IRIS_DMEM"
  shows "flush_inv m (kernel_deps t accs s)"
  unfolding kernel_deps_def using assms
proof (induction accs arbitrary: H s)
  case (Cons acc accs)
  obtain md mem where acc: "acc = (md, mem)" by (cases acc)
  let ?s = "create_dependency t md mem s"
  have "flush_inv m ?s" by (rule create_dependency_flush [OF Cons.prems(1-5)]) (use Cons.prems(6) acc in auto)
  with create_dependency_inv [OF Cons.prems(1,3), of md mem] create_dependency_layered [OF Cons.prems(1-4), of md mem]
    Cons.IH [of _ ?s] Cons.prems(3,4,6) acc show ?case by auto
qed simp

lemma build_flush: "is_dmem m prog \<Longrightarrow> flush_inv m (build prog (start n True))"
proof (induction prog rule: rev_induct)
  case Nil
  show ?case by (simp add: build_def flush_inv_def start_def graph_create_def autodag_new_def)
next
  case (snoc accs prog)
  let ?s = "build prog (start n True)"
  have i: "dag_inv (history (dg_tasks ?s) prog) (task_create ?s)" using build_inv task_create_inv by blast
  have l: "t < dg_next ?s" if "t \<in> set (dg_tasks ?s)" for t using build_distinct [of prog n True] that by blast
  have "flush_inv m (task_create ?s)" using snoc by (simp add: is_dmem_def flush_inv_def task_create_def)
  from kernel_deps_flush [OF i task_create_layered [OF build_layered l] _ _ this, of "dg_next ?s" accs] l snoc.prems
  show ?case by (fastforce simp: build_snoc task_create_def is_dmem_def less_imp_le)
qed



text \<open>A second graph: an object that has its flush task keeps it.\<close>

definition old_flush :: "uid \<Rightarrow> uid \<Rightarrow> uid \<Rightarrow> autodag \<Rightarrow> bool" where
  "old_flush N m k s \<longleftrightarrow> N \<le> dg_next s \<and> ma_flush (dg_mem s m) = Some k \<and> dg_graph s \<noteq> None \<and>
     (\<forall>g. dg_graph s = Some g \<longrightarrow> (\<forall>x \<in> set (g_tasks g). N \<le> x))"

lemma create_dependency_old_flush: "old_flush N m k s \<Longrightarrow> old_flush N m k (create_dependency t md mem s)"
  by (auto simp: old_flush_def create_dependency_def Let_def order_write_sel order_read_sel create_auto_flush_def
      ReplaceDependFlushTask_def graph_AddTask_def split: option.splits)

lemma build_old_flush: "old_flush N m k s \<Longrightarrow> old_flush N m k (build prog s)"
proof (induction prog rule: rev_induct)
  case (snoc accs prog)
  have "old_flush N m k (kernel_deps t accs s)" if "old_flush N m k s" for t s
    unfolding kernel_deps_def using that by (induction accs arbitrary: s) (auto simp: create_dependency_old_flush)
  moreover have "old_flush N m k (task_create s)" if "old_flush N m k s" for s
    using that by (simp add: old_flush_def task_create_def)
  ultimately show ?case using snoc by (simp add: build_snoc)
qed (simp add: build_def)

text \<open>When the application makes a second graph, an object that was written under the first keeps its old flush task, which is
  no task of the second graph: what the second graph's tasks write to the object is not copied back with it.\<close>

theorem second_graph_not_flushed:
  assumes "s = build prog (start n True)" "is_dmem m prog" "acc \<in> set (concat prog)" "writes_mem m acc"
  obtains k g where "ma_flush (dg_mem s m) = Some k" "ma_flush (dg_mem (build prog' (graph_create s)) m) = Some k"
    "dg_graph (build prog' (graph_create s)) = Some g" "k \<notin> set (g_tasks g)"
proof -
  note i = build_inv [of prog n True, folded assms(1)]
  obtain k where k: "ma_flush (dg_mem s m) = Some k"
    using build_flush [OF assms(2), of n] build_written [OF assms(3,4), of n True] assms(1) by (auto simp: flush_inv_def)
  have "k < dg_next s" using i k by (auto simp: dag_inv_def dag_ids_def)
  have o: "old_flush (dg_next s) m k (build prog' (graph_create s))"
    by (rule build_old_flush) (use k in \<open>simp add: old_flush_def graph_create_def\<close>)
  then obtain g where "dg_graph (build prog' (graph_create s)) = Some g" by (auto simp: old_flush_def)
  with o show ?thesis using that [OF k] \<open>k < dg_next s\<close> by (fastforce simp: old_flush_def)
qed

theorem second_graph_not_flushed_witness:
  "let A = \<lparr>mem_uid = 1, mem_handler = IRIS_DMEM, mem_bytes = 8\<rparr>;
       s = build [[(iris_w, A)]] (graph_create (build [[(iris_w, A)]] (start 10 True)))
   in \<exists>k g. ma_flush (dg_mem s 1) = Some k \<and> dg_graph s = Some g \<and> k \<notin> set (g_tasks g) \<and> g_tasks g = [13]"
proof -
  let ?A = "\<lparr>mem_uid = 1, mem_handler = IRIS_DMEM, mem_bytes = 8\<rparr>"
  let ?s = "build [[(iris_w, ?A)]] (graph_create (build [[(iris_w, ?A)]] (start 10 True)))"
  have "is_dmem 1 [[(iris_w, ?A)]]" "(iris_w, ?A) \<in> set (concat [[(iris_w, ?A)]])" "writes_mem 1 (iris_w, ?A)"
    by (simp_all add: is_dmem_def writes_mem_def writes_def)
  then obtain k g where kg: "ma_flush (dg_mem ?s 1) = Some k" "dg_graph ?s = Some g" "k \<notin> set (g_tasks g)"
    by (rule second_graph_not_flushed [OF refl, of 1 "[[(iris_w, ?A)]]" _ 10 "[[(iris_w, ?A)]]"])
  have "map_option g_tasks (dg_graph ?s) = Some [13]" by code_simp
  with kg show ?thesis by (auto simp: Let_def)
qed

end
