(* ===== verification/Iris_Graph.thy ===== *)
theory Iris_Graph
  imports Iris_Program
begin

text \<open>
  Task graphs: \<^verbatim>\<open>Graph.cpp\<close> and the graph interface of \<^verbatim>\<open>Platform.cpp\<close>. A graph is a counted object with a list of
  tasks, the first of which is its end task; \<open>AddTask\<close> makes the end task depend on every other. The first part translates the
  operations on the registries of graphs and tasks. The second part submits a graph to the runtime of \<^verbatim>\<open>Iris_Runtime\<close>, with
  the scheduler and the workers running in between, and shows when its tasks complete, what waiting for the graph means and what
  is left when it is released.
\<close>

section \<open>Operations\<close>

record Graph = Retainable +
  gr_retain_tasks :: bool
  gr_end :: uid
  gr_tasks :: "uid list"

type_synonym graphs = "Graph ObjectTrack"

text \<open>The constructor: the graph has an id of its own, then the end task is created.\<close>

definition Graph_new :: "uid \<Rightarrow> uid \<Rightarrow> Graph" where
  "Graph_new u end_task = Retainable.extend (set_object_track (Retainable_init u)) (Graph.fields False end_task [end_task])"

definition GraphCreate :: "int list \<Rightarrow> graphs \<Rightarrow> 'a rt_scheme \<Rightarrow> graphs \<times> 'a rt_scheme \<times> uid" where
  "GraphCreate junk gs r =
     (let (u, ctr) = iris_create_new_uid (r_uid r);
          (r, end_task) = Task_Create IRIS_TASK_PERM (Some ''Graph'') junk (r\<lparr>r_uid := ctr\<rparr>)
      in (TrackObject gs (Graph_new u end_task) u, r, u))"

text \<open>A graph that retains its tasks takes a reference on each and stops them from being deleted.\<close>

definition retain_task :: "uid \<Rightarrow> 'a rt_scheme \<Rightarrow> 'a rt_scheme option" where
  "retain_task u r =
     do { t \<leftarrow> GetObject (r_tasks r) u;
          if is_release t then rt_at u (\<lambda>t. DisableRelease (Retain t)) r else Some r }"

definition release_task :: "uid \<Rightarrow> 'a rt_scheme \<Rightarrow> 'a rt_scheme option" where
  "release_task u r =
     do { t \<leftarrow> GetObject (r_tasks r) u;
          if \<not> is_release t then do { r \<leftarrow> rt_at u EnableRelease r; rt_Release u r } else Some r }"

definition AddTask :: "uid \<Rightarrow> Graph \<Rightarrow> 'a rt_scheme \<Rightarrow> (Graph \<times> 'a rt_scheme) option" where
  "AddTask u g r =
     do { r \<leftarrow> (if gr_retain_tasks g then retain_task u r else Some r);
          h \<leftarrow> AddDepend (r_flags r) (gr_end g) u (r_tasks r);
          Some (g\<lparr>gr_tasks := gr_tasks g @ [u]\<rparr>, r\<lparr>r_tasks := h\<rparr>) }"

definition GraphTask :: "uid \<Rightarrow> uid \<Rightarrow> int \<Rightarrow> string option \<Rightarrow> graphs \<times> 'a rt_scheme \<Rightarrow> ((graphs \<times> 'a rt_scheme) \<times> int) option" where
  "GraphTask gu u brs_policy opt s = (case s of (gs, r) \<Rightarrow>
     if ndevs r = 0 then Some ((gs, r\<lparr>r_nfailures := r_nfailures r + 1\<rparr>), IRIS_ERROR)
     else do { r \<leftarrow> set_task_policy u brs_policy opt r;
               case GetObject gs gu of
                 Some g \<Rightarrow> do { (g, r) \<leftarrow> AddTask u g r; Some ((TrackObject gs g gu, r), IRIS_SUCCESS) }
               | None \<Rightarrow> do { (r, _) \<leftarrow> TaskSubmit u brs_policy opt False r; Some ((gs, r), IRIS_SUCCESS) } })"

text \<open>The tasks in the order of their creation, the end task last.\<close>

definition formatted_tasks :: "Graph \<Rightarrow> uid list" where
  "formatted_tasks g = tl (gr_tasks g) @ [hd (gr_tasks g)]"

definition enable_retainable :: "Graph \<Rightarrow> Graph" where
  "enable_retainable g = Retain (DisableRelease (g\<lparr>gr_retain_tasks := True\<rparr>))"

text \<open>\<open>GraphRetain\<close>; with the flag off the graph's own reference goes first.\<close>

definition GraphRetain :: "uid \<Rightarrow> bool \<Rightarrow> graphs \<times> 'a rt_scheme \<Rightarrow> (graphs \<times> 'a rt_scheme) option" where
  "GraphRetain gu flag s = (case s of (gs, r) \<Rightarrow>
     (case GetObject gs gu of
        None \<Rightarrow> Some (gs, r)
      | Some g \<Rightarrow>
          do { gs \<leftarrow> (if flag \<and> is_release g then at_object gu enable_retainable gs
                      else if \<not> flag \<and> \<not> is_release g
                      then do { gs \<leftarrow> at_object gu (\<lambda>g. EnableRelease (g\<lparr>gr_retain_tasks := False\<rparr>)) gs; map_option fst (Release gu gs) }
                      else Some gs);
               g \<leftarrow> GetObject gs gu;
               r \<leftarrow> opt_fold (if flag then retain_task else release_task) (gr_tasks g) r;
               Some (gs, r) }))"

text \<open>\<open>Release\<close> of an object by a callback that runs under the lock of its registry. The mutex is not recursive: when the count
  reaches its bound the call into the registry does not return.\<close>

definition Release_locked :: "uid \<Rightarrow> 'a Retainable_scheme ObjectTrack \<Rightarrow> 'a Retainable_scheme ObjectTrack option" where
  "Release_locked u t =
     do { x \<leftarrow> GetObject t u;
          if ref_cnt_bound_check x (ref_cnt x - 1) \<and> is_release x then None
          else Some (TrackObject t (x\<lparr>ref_cnt := ref_cnt x - 1\<rparr>) u) }"

definition GraphRelease :: "uid \<Rightarrow> graphs \<times> 'a rt_scheme \<Rightarrow> (graphs \<times> 'a rt_scheme) option" where
  "GraphRelease gu s = (case s of (gs, r) \<Rightarrow>
     (case GetObject gs gu of
        None \<Rightarrow> Some (gs, r)
      | Some g \<Rightarrow>
          do { r \<leftarrow> opt_fold release_task (gr_tasks g) r;
               gs \<leftarrow> (if is_release g then Release_locked gu gs
                      else Release_locked gu (TrackObject gs (EnableRelease g) gu));
               Some (gs, r) }))"

text \<open>\<open>GraphSubmit\<close> without waiting; \<open>order\<close> permutes the tasks. The threads run only between these operations.\<close>

definition GraphSubmit :: "uid \<Rightarrow> nat list option \<Rightarrow> int \<Rightarrow> graphs \<times> 'a rt_scheme \<Rightarrow> (graphs \<times> 'a rt_scheme) option" where
  "GraphSubmit gu order brs_policy s = (case s of (gs, r) \<Rightarrow>
     (case GetObject gs gu of
        None \<Rightarrow> Some (gs, r)
      | Some g \<Rightarrow>
          do { us \<leftarrow> (case order of
                        None \<Rightarrow> Some (gr_tasks g)
                      | Some is \<Rightarrow> those (map (\<lambda>i. Option.bind (cell is i) (cell (gr_tasks g))) [0..<length (gr_tasks g)]));
               r \<leftarrow> opt_fold (graph_submit_task brs_policy False) us r;
               Some (TrackObject gs (Retain g) gu, r) }))"

section \<open>Reference counts of graphs\<close>

text \<open>\<open>GraphRelease\<close> never deletes a graph: it never returns when the graph's last reference goes, and otherwise the graph stays
  in its registry. A submission takes a reference that nothing gives back.\<close>

theorem graph_never_freed:
  assumes "GetObject gs gu = Some g"
  shows "(ref_cnt g = 1 \<and> retain_mode g = CREATE_MODE \<longrightarrow> GraphRelease gu (gs, r) = None) \<and>
    (\<forall>gs' r'. GraphRelease gu (gs, r) = Some (gs', r') \<longrightarrow> (\<exists>g'. GetObject gs' gu = Some g' \<and> ref_cnt g' = ref_cnt g - 1 \<and> is_release g')) \<and>
    (\<forall>gs' r'. GraphSubmit gu order p (gs, r) = Some (gs', r') \<longrightarrow> (\<exists>g'. GetObject gs' gu = Some g' \<and> ref_cnt g' = ref_cnt g + 1))"
  using assms
  by (auto simp: GraphRelease_def GraphSubmit_def Release_locked_def ref_cnt_bound_check_def EnableRelease_def iris_simps Retain_def
      split: bind_splits if_splits)

theorem graph_never_freed_witness:
  "GraphRelease 2 (TrackObject ObjectTrack_new (Graph_new 2 3) 2, fst (snd (GraphCreate (replicate 6 0) ObjectTrack_new demo_start))) = None"
proof -
  let ?gs = "TrackObject ObjectTrack_new (Graph_new 2 3) 2"
  have g: "GetObject ?gs 2 = Some (Graph_new 2 3)" by (simp add: iris_simps)
  have "ref_cnt (Graph_new 2 3) = 1" "retain_mode (Graph_new 2 3) = CREATE_MODE" by code_simp+
  with graph_never_freed [OF g, of "fst (snd (GraphCreate (replicate 6 0) ObjectTrack_new demo_start))" None 0] show ?thesis by blast
qed

section \<open>A graph in the runtime\<close>

text \<open>The host's calls: each task is added with its policy and options, then the graph is submitted.\<close>

definition graph_build :: "uid \<Rightarrow> (uid \<times> int \<times> string option) list \<Rightarrow> action list" where
  "graph_build end_task ts = concat (map (\<lambda>(u, q, opt). [ASetPolicy u q opt, ADepend end_task [u]]) ts)"

definition graph_submit :: "uid list \<Rightarrow> int \<Rightarrow> action list" where
  "graph_submit us p = map (\<lambda>u. AGraphSubmit u p) us"

text \<open>These calls are \<open>GraphTask\<close> and \<open>GraphSubmit\<close>; only what the machine records differs.\<close>

abbreviation forget :: "machine \<Rightarrow> machine" where
  "forget m \<equiv> m\<lparr>m_deps := (\<lambda>_. {}), m_submitted := {}, m_held := (\<lambda>_. {})\<rparr>"

lemma forget_updates:
  "forget (m\<lparr>r_tasks := h\<rparr>) = (forget m)\<lparr>r_tasks := h\<rparr>" "forget (Scheduler_Enqueue u m) = Scheduler_Enqueue u (forget m)"
  by (cases m, simp add: Scheduler_Enqueue_def Invoke_def)+

lemma forget_step:
  "map_option forget (set_task_policy u q opt m) = set_task_policy u q opt (forget m)"
  "map_option forget (graph_submit_task p False u m) = graph_submit_task p False u (forget m)"
  by (simp_all add: set_task_policy_def graph_submit_task_def map_option_bind comp_def forget_updates cong: if_cong)

lemma forget_record [simp]: "forget (record_submit u m m') = forget m'"
  by (simp add: record_submit_def)

lemma GraphTask_calls:
  assumes "GetObject gs gu = Some g" "\<not> gr_retain_tasks g" "0 < ndevs m"
    "opt_fold (exec e) [ASetPolicy u q opt, ADepend (gr_end g) [u]] m = Some m'"
  shows "GraphTask gu u q opt (gs, forget m) = Some ((TrackObject gs (g\<lparr>gr_tasks := gr_tasks g @ [u]\<rparr>) gu, forget m'), IRIS_SUCCESS)"
proof -
  from assms(4) obtain m1 h where m1: "set_task_policy u q opt m = Some m1"
    and h: "AddDepend (r_flags m1) (gr_end g) u (r_tasks m1) = Some h" and m': "forget m' = forget (m1\<lparr>r_tasks := h\<rparr>)"
    by (auto simp: TaskDepend_def split: bind_splits)
  from forget_step(1) [of u q opt m] m1 have "set_task_policy u q opt (forget m) = Some (forget m1)" by simp
  moreover have "ndevs (forget m) = ndevs m" by (simp add: ndevs_def)
  ultimately show ?thesis using assms(1-3) h by (simp add: GraphTask_def AddTask_def m')
qed

lemma GraphSubmit_calls:
  assumes "opt_fold (exec e) (graph_submit us p) m = Some m'"
  shows "opt_fold (graph_submit_task p False) us (forget m) = Some (forget m')"
  using assms
proof (induction us arbitrary: m)
  case (Cons u us)
  then obtain m1 where m1: "graph_submit_task p False u m = Some m1" "opt_fold (exec e) (graph_submit us p) (record_submit u m m1) = Some m'"
    by (auto simp: graph_submit_def split: bind_splits)
  from forget_step(2) [of p u m] m1(1) have "graph_submit_task p False u (forget m) = Some (forget m1)" by simp
  with Cons.IH [OF m1(2)] show ?case by simp
qed (simp add: graph_submit_def)

lemma exec_ndevs_calls:
  "exec e (ASetPolicy u q opt) m = Some m' \<Longrightarrow> ndevs m' = ndevs m" "exec e (ADepend u ds) m = Some m' \<Longrightarrow> ndevs m' = ndevs m"
  by (auto simp: set_task_policy_def TaskDepend_def ndevs_def split: bind_splits)

lemma graph_build_calls:
  assumes "GetObject gs gu = Some g" "\<not> gr_retain_tasks g" "0 < ndevs m" "gr_end g = end_task"
    "opt_fold (exec e) (graph_build end_task ts) m = Some m'"
  shows "opt_fold (\<lambda>(u, q, opt) s. map_option fst (GraphTask gu u q opt s)) ts (gs, forget m) =
    Some (if ts = [] then gs else TrackObject gs (g\<lparr>gr_tasks := gr_tasks g @ map fst ts\<rparr>) gu, forget m')"
  using assms
proof (induction ts arbitrary: gs g m)
  case (Cons t ts)
  obtain u q opt where t: "t = (u, q, opt)" by (cases t)
  from Cons.prems(5) obtain m1 where m1: "opt_fold (exec e) [ASetPolicy u q opt, ADepend end_task [u]] m = Some m1"
    "opt_fold (exec e) (graph_build end_task ts) m1 = Some m'"
    by (auto simp: t graph_build_def split: bind_splits)
  let ?g = "g\<lparr>gr_tasks := gr_tasks g @ [u]\<rparr>"
  have c: "GraphTask gu u q opt (gs, forget m) = Some ((TrackObject gs ?g gu, forget m1), IRIS_SUCCESS)"
    by (rule GraphTask_calls [OF Cons.prems(1-3)]) (use m1(1) Cons.prems(4) in simp)
  have "ndevs m1 = ndevs m"
    using m1(1) exec_ndevs_calls by (auto simp del: exec.simps split: bind_splits)
  then have "opt_fold (\<lambda>(u, q, opt) s. map_option fst (GraphTask gu u q opt s)) ts (TrackObject gs ?g gu, forget m1) =
      Some (if ts = [] then TrackObject gs ?g gu else TrackObject (TrackObject gs ?g gu) (?g\<lparr>gr_tasks := gr_tasks ?g @ map fst ts\<rparr>) gu, forget m')"
    by (intro Cons.IH) (use Cons.prems m1(2) in \<open>simp_all add: iris_simps\<close>)
  with c show ?case by (simp add: t)
qed (simp add: graph_build_def)

text \<open>The whole sequence through the registry of graphs.\<close>

theorem graph_calls:
  assumes "GetObject gs gu = Some g" "\<not> gr_retain_tasks g" "gr_tasks g = [gr_end g]" "0 < ndevs m" "ts \<noteq> []"
    "opt_fold (exec e) (graph_build (gr_end g) ts @ graph_submit (gr_end g # map fst ts) p) m = Some m'"
  shows "Option.bind (opt_fold (\<lambda>(u, q, opt) s. map_option fst (GraphTask gu u q opt s)) ts (gs, forget m)) (GraphSubmit gu None p) =
    Some (TrackObject gs (Retain (g\<lparr>gr_tasks := gr_end g # map fst ts\<rparr>)) gu, forget m')"
proof -
  from assms(6) obtain m1 where m1: "opt_fold (exec e) (graph_build (gr_end g) ts) m = Some m1"
    "opt_fold (exec e) (graph_submit (gr_end g # map fst ts) p) m1 = Some m'"
    by (auto simp: opt_fold_append split: bind_splits)
  let ?g = "g\<lparr>gr_tasks := gr_end g # map fst ts\<rparr>"
  have "opt_fold (\<lambda>(u, q, opt) s. map_option fst (GraphTask gu u q opt s)) ts (gs, forget m) = Some (TrackObject gs ?g gu, forget m1)"
    using graph_build_calls [OF assms(1,2,4) refl m1(1)] assms(3,5) by simp
  moreover have "GraphSubmit gu None p (TrackObject gs ?g gu, forget m1) = Some (TrackObject gs (Retain ?g) gu, forget m')"
    unfolding GraphSubmit_def prod.case using GraphSubmit_calls [OF m1(2)] by (simp add: iris_simps del: opt_fold.simps)
  ultimately show ?thesis by simp
qed

section \<open>Completion\<close>

text \<open>Layers: nothing of \<open>B\<close> points into the part of \<open>A\<close>.\<close>

lemma acyclic_layer:
  assumes "acyclic A" "acyclic B" "A \<subseteq> S \<times> S" "\<And>d c. (d, c) \<in> B \<Longrightarrow> c \<notin> S"
  shows "acyclic (A \<union> B)"
proof -
  have a: "(x, y) \<in> (A \<union> B)\<^sup>+ \<Longrightarrow> y \<in> S \<longrightarrow> (x, y) \<in> A\<^sup>+" for x y
    by (induction rule: trancl_induct) (use assms(3,4) in \<open>auto intro: trancl_into_trancl\<close>)
  have b: "(x, y) \<in> (A \<union> B)\<^sup>+ \<Longrightarrow> x \<notin> S \<longrightarrow> (x, y) \<in> B\<^sup>+" for x y
    by (induction rule: converse_trancl_induct) (use assms(3,4) in \<open>auto intro: trancl_into_trancl2\<close>)
  show ?thesis unfolding acyclic_def using a b assms(1,2) by (meson acyclic_def)
qed

lemma view_graph_build:
  "fold view_step (graph_build end_task ts) v = v\<lparr>hv_deps := (hv_deps v)(end_task := hv_deps v end_task \<union> fst ` set ts)\<rparr>"
proof (induction ts arbitrary: v)
  case (Cons t ts)
  obtain u q opt where t: "t = (u, q, opt)" by (cases t)
  have "graph_build end_task (t # ts) = ASetPolicy u q opt # ADepend end_task [u] # graph_build end_task ts" by (simp add: t graph_build_def)
  then show ?case using Cons [of "v\<lparr>hv_deps := (hv_deps v)(end_task := hv_deps v end_task \<union> {u})\<rparr>"]
    by (cases v) (auto simp: t fun_eq_iff)
qed (simp add: graph_build_def)

lemma view_graph_submit:
  "fold view_step (graph_submit us p) v = v\<lparr>hv_submitted := hv_submitted v \<union> set us\<rparr>"
proof (induction us arbitrary: v)
  case (Cons u us)
  then show ?case using Cons [of "v\<lparr>hv_submitted := insert u (hv_submitted v)\<rparr>"] by (simp add: graph_submit_def)
qed (simp add: graph_submit_def)

lemma view_graph:
  "fold view_step (graph_build end_task ts @ graph_submit (end_task # map fst ts) p) v =
     v\<lparr>hv_submitted := hv_submitted v \<union> set (end_task # map fst ts),
       hv_deps := (hv_deps v)(end_task := hv_deps v end_task \<union> fst ` set ts)\<rparr>"
  unfolding fold_append comp_def view_graph_build view_graph_submit by (cases v) simp

text \<open>A new graph: its tasks and its end task are not submitted yet, the tasks depend on tasks of the graph or on submitted ones
  and not in a circle, and the end task is as the constructor left it.\<close>

definition new_graph :: "uid \<Rightarrow> uid list \<Rightarrow> machine \<Rightarrow> bool" where
  "new_graph end_task us m \<longleftrightarrow> set (end_task # us) \<subseteq> created m - m_submitted m \<and> end_task \<notin> set us \<and> m_deps m end_task = {} \<and>
     (\<forall>u \<in> set us. m_deps m u \<subseteq> m_submitted m \<union> set us) \<and> acyclic {(d, u). u \<in> set us \<and> d \<in> m_deps m u}"

lemma new_graph_well_submitted:
  assumes ws: "well_submitted m" and g: "new_graph end_task (map fst ts) m"
    and v: "view m' = fold view_step (graph_build end_task ts @ graph_submit (end_task # map fst ts) p) (view m)"
    and c: "completed m \<subseteq> completed m'"
  shows "well_submitted m'"
proof -
  let ?us = "map fst ts"
  have s: "m_submitted m' = m_submitted m \<union> set (end_task # ?us)" and d: "m_deps m' = (m_deps m)(end_task := m_deps m end_task \<union> fst ` set ts)"
    using v unfolding view_graph by (simp_all add: view_def)
  have G: "set (end_task # ?us) \<inter> m_submitted m = {}" "end_task \<notin> set ?us" "m_deps m end_task = {}"
    "\<And>u. u \<in> set ?us \<Longrightarrow> m_deps m u \<subseteq> m_submitted m \<union> set ?us" "acyclic {(d, u). u \<in> set ?us \<and> d \<in> m_deps m u}"
    using g by (auto simp: new_graph_def)
  have W: "\<And>c. c \<in> inflight m \<Longrightarrow> m_deps m c \<subseteq> m_submitted m" "acyclic {(d, c). c \<in> inflight m \<and> d \<in> m_deps m c}"
    using ws by (auto simp: well_submitted_def)
  have i: "inflight m' \<subseteq> inflight m \<union> set (end_task # ?us)" using c by (auto simp: inflight_def s)
  let ?A = "{(d, c). c \<in> inflight m \<and> d \<in> m_deps m c}"
  let ?B = "{(d, u). u \<in> set ?us \<and> d \<in> m_deps m u}"
  let ?C = "{(d, u). u = end_task \<and> d \<in> set ?us}"
  have "?A \<subseteq> m_submitted m \<times> m_submitted m" using W(1) by (auto simp: inflight_def)
  from acyclic_layer [OF W(2) G(5) this] G(1) have AB: "acyclic (?A \<union> ?B)" by fastforce
  have S: "?A \<union> ?B \<subseteq> (m_submitted m \<union> set ?us) \<times> (m_submitted m \<union> set ?us)" using W(1) G(4) by (fastforce simp: inflight_def)
  have "acyclic ?C"
  proof -
    have "?C O ?C = {}" using G(2) by auto
    then have "?C\<^sup>+ = ?C" by (intro trancl_id) (auto simp: trans_def)
    then show ?thesis using G(2) by (auto simp: acyclic_def)
  qed
  then have "acyclic (?A \<union> ?B \<union> ?C)" by (rule acyclic_layer [OF AB _ S]) (use G(1,2) in auto)
  moreover have "{(d, c). c \<in> inflight m' \<and> d \<in> m_deps m' c} \<subseteq> ?A \<union> ?B \<union> ?C"
    using i G(1-3) by (auto simp: d inflight_def split: if_splits)
  moreover have "\<forall>c \<in> inflight m'. m_deps m' c \<subseteq> m_submitted m'"
    using i W(1) G(3,4) by (fastforce simp: d s split: if_splits)
  ultimately show ?thesis unfolding well_submitted_def using acyclic_subset by blast
qed


text \<open>None of the calls waits.\<close>

fun no_wait :: "action \<Rightarrow> bool" where
  "no_wait (AWaitBegin u) \<longleftrightarrow> False"
| "no_wait (AWaitEnd u) \<longleftrightarrow> False"
| "no_wait _ \<longleftrightarrow> True"

lemma exec_waiting: "exec e a m = Some m' \<Longrightarrow> \<not> thread_action a \<Longrightarrow> no_wait a \<Longrightarrow> m_waiting m' = m_waiting m"
  by (cases a)
    (auto simp: TaskCreate_def Task_Create_def iris_create_new_uid_def Let_def rt_at_def rt_try_def TaskDepend_def
      set_task_policy_def host_submit_def TaskSubmit_def graph_submit_task_def record_submit_def Scheduler_Enqueue_def Invoke_def
      split: bind_splits if_splits)

lemma host_run_waiting:
  assumes "host_run (no_affinity e) basic_policy m as m'" "reachable (no_affinity e) basic_policy m" "list_all no_wait as"
  shows "m_waiting m' = m_waiting m"
  using assms
proof induction
  case (host as m' a m'')
  from host.hyps(3) have "exec (no_affinity e) a m' = Some m''" by (auto elim: stepE)
  from exec_waiting [OF this host.hyps(2)] host show ?case by simp
next
  case (threads as m' m'')
  then show ?case using basic.host_run_view [of e m as m'] basic.thread_step_progress [of e m' m''] by (auto simp: progress_def)
qed simp

lemma threads_waiting:
  assumes "(thread_step (no_affinity e) basic_policy)\<^sup>*\<^sup>* m m'" "reachable (no_affinity e) basic_policy m"
  shows "reachable (no_affinity e) basic_policy m' \<and> m_waiting m' = m_waiting m"
  using assms
  by (induction rule: rtranclp_induct) (use basic.thread_step_progress in \<open>fastforce simp: progress_def\<close>)+

text \<open>A graph of two tasks, the second depends on the first.\<close>

definition demo_graph :: "action list" where
  "demo_graph =
     [ANewObject, ACreate (Some ''Graph'') True (replicate 6 0), ACreate None False (replicate 6 0), ACreate None False (replicate 6 0),
      ADepend 5 [4]]"

definition demo_tasks :: "(uid \<times> int \<times> string option) list" where
  "demo_tasks = [(4, 1, None), (5, iris_default, None)]"

definition demo_calls :: "action list" where
  "demo_calls = graph_build 3 demo_tasks @ graph_submit (3 # map fst demo_tasks) iris_ftf"

lemma demo_graph_run:
  obtains m m1 m2 where "run (no_affinity demo_env) basic_policy demo_graph demo_start = Some m"
    "reachable (no_affinity demo_env) basic_policy m" "well_submitted m" "new_graph 3 (map fst demo_tasks) m"
    "host_run (no_affinity demo_env) basic_policy m demo_calls m1"
    "(thread_step (no_affinity demo_env) basic_policy)\<^sup>*\<^sup>* m1 m2" "quiet basic_policy m2"
    "reachable (no_affinity demo_env) basic_policy m2" "m_waiting m2 = {#}" "m_submitted m2 = {3, 4, 5}" "completed m2 = {3, 4, 5}"
proof -
  have "map_option (\<lambda>m. (r_uid m, m_created m, m_submitted m, m_log m, m_deps m 3, m_deps m 4, m_deps m 5, m_waiting m))
      (run (no_affinity demo_env) basic_policy demo_graph demo_start) = Some (5, {3, 4, 5}, {}, [], {}, {}, {4}, {#})" by code_simp
  then obtain m where m: "run (no_affinity demo_env) basic_policy demo_graph demo_start = Some m"
    "r_uid m = 5" "m_created m = {3, 4, 5}" "m_submitted m = {}" "m_log m = []" "m_deps m 3 = {}" "m_deps m 4 = {}" "m_deps m 5 = {4}" "m_waiting m = {#}"
    by (elim map_option_runE) simp
  have r: "reachable (no_affinity demo_env) basic_policy m" using m(1) by (rule demo_reachable)
  have ws: "well_submitted m" by (simp add: well_submitted_def inflight_def m acyclic_def)
  have us: "map fst demo_tasks = [4, 5]" by (simp add: demo_tasks_def)
  have "{(d, u). u \<in> set (map fst demo_tasks) \<and> d \<in> m_deps m u} = {(4, 5)}" by (auto simp: us m)
  then have g: "new_graph 3 (map fst demo_tasks) m" by (auto simp: new_graph_def us m acyclic_insert) (simp add: acyclic_def)
  have "basic_policy 1" "basic_policy iris_ftf" "iris_ftf \<noteq> iris_pending" "iris_default \<noteq> iris_pending" "1 \<noteq> iris_pending" by code_simp+
  then have "program_ok basic_policy demo_calls (view m)"
    by (simp add: demo_calls_def graph_build_def graph_submit_def demo_tasks_def view_def m)
  from basic.program_runs [OF r this] obtain m1 where m1: "host_run (no_affinity demo_env) basic_policy m demo_calls m1" by blast
  from basic.host_run_view [OF m1 r] have v: "reachable (no_affinity demo_env) basic_policy m1" "view m1 = fold view_step demo_calls (view m)"
    by simp_all
  from basic.threads_reach_quiet [OF v(1)] obtain m2 where
    t: "(thread_step (no_affinity demo_env) basic_policy)\<^sup>*\<^sup>* m1 m2" "quiet basic_policy m2" by blast
  have ws1: "well_submitted m1"
    by (rule new_graph_well_submitted [OF ws g v(2) [unfolded demo_calls_def] basic.host_run_completed [OF m1 r]])
  have "list_all no_wait demo_calls" by (simp add: demo_calls_def graph_build_def graph_submit_def demo_tasks_def)
  from host_run_waiting [OF m1 r this] threads_waiting [OF t(1) v(1)] have w: "m_waiting m2 = {#}" "reachable (no_affinity demo_env) basic_policy m2"
    using m by auto
  have "m_submitted m1 = {3, 4, 5}" using v(2) unfolding demo_calls_def view_graph by (simp add: view_def m us)
  with basic.threads_complete [OF v(1) ws1 t] basic.threads_run [OF v(1) ws1 t(1)]
  show ?thesis using that [OF m(1) r ws g m1 t w(2,1)] by simp
qed


section \<open>Waiting and releasing\<close>

text \<open>\<open>Graph::Wait\<close> waits for the end task alone; when it is complete every task of the graph is, whatever else is still going on.\<close>

theorem graph_wait:
  assumes "reachable (no_affinity e) basic_policy m"
    "host_run (no_affinity e) basic_policy m (graph_build end_task ts @ graph_submit (end_task # map fst ts) p) m1"
    "(thread_step (no_affinity e) basic_policy)\<^sup>*\<^sup>* m1 m2" "end_task \<in> completed m2" "u \<in> fst ` set ts"
  shows "u \<in> completed m2"
proof -
  have v: "reachable (no_affinity e) basic_policy m2"
    "view m2 = fold view_step (graph_build end_task ts @ graph_submit (end_task # map fst ts) p) (view m)"
    using basic.host_threads_view [OF assms(1-3)] by auto
  then have "u \<in> m_deps m2 end_task" using assms(5) unfolding view_graph by (simp add: view_def)
  from basic.completed_deps [OF v(1) assms(4) this] show ?thesis .
qed

theorem graph_wait_witness:
  "\<exists>m m1 m2. host_run (no_affinity demo_env) basic_policy m demo_calls m1 \<and>
     (thread_step (no_affinity demo_env) basic_policy)\<^sup>*\<^sup>* m1 m2 \<and> 3 \<in> completed m2 \<and> 4 \<in> completed m2"
proof -
  obtain m m1 m2 where m: "run (no_affinity demo_env) basic_policy demo_graph demo_start = Some m"
    "reachable (no_affinity demo_env) basic_policy m" "well_submitted m" "new_graph 3 (map fst demo_tasks) m"
    "host_run (no_affinity demo_env) basic_policy m demo_calls m1"
    "(thread_step (no_affinity demo_env) basic_policy)\<^sup>*\<^sup>* m1 m2" "completed m2 = {3, 4, 5}" by (rule demo_graph_run)
  with graph_wait [OF m(2) m(5) [unfolded demo_calls_def] m(6), of 4] m(5,6) show ?thesis by (auto simp: demo_tasks_def)
qed

lemma release_dead:
  assumes "\<And>u t. GetObject (r_tasks r) u = Some t \<Longrightarrow> is_release t" "u \<in> set us" "GetObject (r_tasks r) u = None"
  shows "opt_fold release_task us r = None"
proof -
  have s: "release_task u r = (case GetObject (r_tasks r) u of None \<Rightarrow> None | Some t \<Rightarrow> Some r)" for u
    using assms(1) [of u] by (auto simp: release_task_def split: option.splits)
  show ?thesis using assms(2,3) by (induction us) (auto simp: s split: option.splits)
qed

text \<open>\<open>GraphRelease\<close> visits the tasks through the graph's pointers. When the runtime has come to rest and nothing waits for them, the
  completed tasks of a graph have deleted themselves, and the first of them it reaches is a pointer to freed memory.\<close>

theorem graph_release_dangling:
  assumes "reachable (no_affinity e) basic_policy m" "quiet basic_policy m" "inflight m = {}" "m_waiting m = {#}"
    "GetObject gs gu = Some g" "u \<in> set (gr_tasks g)" "u \<in> completed m"
  shows "GraphRelease gu (gs, m) = None"
proof -
  have i: "inv basic_policy m" by (rule basic.reachable_inv [OF assms(1)])
  have "GetObject (r_tasks m) u = None"
  proof (rule ccontr)
    assume "GetObject (r_tasks m) u \<noteq> None"
    then obtain t where "GetObject (r_tasks m) u = Some t" by blast
    from completed_alive [OF i this assms(7)] quiet_workers [OF i assms(2)] assms(3,4) show False by auto
  qed
  moreover have "is_release t" if "GetObject (r_tasks m) v = Some t" for v t
    using invD(5) [OF i] that by (auto simp: inv_refs_def accounted_def)
  ultimately have "opt_fold release_task (gr_tasks g) m = None" by (intro release_dead [OF _ assms(6)])
  with assms(5) show ?thesis by (simp add: GraphRelease_def)
qed

theorem graph_release_dangling_witness:
  "\<exists>m. reachable (no_affinity demo_env) basic_policy m \<and> completed m = {3, 4, 5} \<and>
     GraphRelease 2 (TrackObject ObjectTrack_new ((Graph_new 2 3)\<lparr>gr_tasks := [3, 4, 5]\<rparr>) 2, m) = None"
proof -
  let ?g = "(Graph_new 2 3)\<lparr>gr_tasks := [3, 4, 5]\<rparr>"
  obtain m where m: "quiet basic_policy m" "reachable (no_affinity demo_env) basic_policy m" "m_waiting m = {#}"
    "m_submitted m = {3, 4, 5}" "completed m = {3, 4, 5}" by (rule demo_graph_run)
  have "inflight m = {}" by (simp add: inflight_def m)
  with graph_release_dangling [OF m(2,1) _ m(3), of "TrackObject ObjectTrack_new ?g 2" 2 ?g 3]
  have "GraphRelease 2 (TrackObject ObjectTrack_new ?g 2, m) = None" by (simp add: m iris_simps)
  with m(2,5) show ?thesis by blast
qed

text \<open>The calls of the graph as operations on the registries, on the same run.\<close>

theorem graph_calls_witness:
  "\<exists>m m' gs. opt_fold (exec (no_affinity demo_env)) demo_calls m = Some m' \<and>
     Option.bind (opt_fold (\<lambda>(u, q, opt) s. map_option fst (GraphTask 2 u q opt s)) demo_tasks
       (TrackObject ObjectTrack_new (Graph_new 2 3) 2, forget m)) (GraphSubmit 2 None iris_ftf) = Some (gs, forget m')"
proof -
  let ?gs = "TrackObject ObjectTrack_new (Graph_new 2 3) 2"
  have "map_option (\<lambda>m. (ndevs m, opt_fold (exec (no_affinity demo_env)) demo_calls m \<noteq> None))
      (run (no_affinity demo_env) basic_policy demo_graph demo_start) = Some (2, True)" by code_simp
  then obtain m m' where m: "ndevs m = 2" "opt_fold (exec (no_affinity demo_env)) demo_calls m = Some m'" by auto
  have g: "GetObject ?gs 2 = Some (Graph_new 2 3)" by (simp add: iris_simps)
  have "\<not> gr_retain_tasks (Graph_new 2 3)" "gr_end (Graph_new 2 3) = 3" "gr_tasks (Graph_new 2 3) = [3]" by code_simp+
  from graph_calls [OF g this(1), of m demo_tasks "no_affinity demo_env" iris_ftf m'] this m
  show ?thesis by (auto simp: demo_calls_def demo_tasks_def)
qed

end
