(* ===== verification/Iris_Map.thy ===== *)
theory Iris_Map
  imports Iris_Prelude
begin

text \<open>
  \<open>std::map\<close> as a list of its entries in the order in which it is iterated, that of the keys, with the operations the
  runtime uses.
\<close>

type_synonym ('k, 'a) omap = "('k \<times> 'a) list"

fun omap_put :: "'k::linorder \<Rightarrow> 'a \<Rightarrow> ('k, 'a) omap \<Rightarrow> ('k, 'a) omap" where
  "omap_put k v [] = [(k, v)]"
| "omap_put k v ((k', v') # m) =
     (if k < k' then (k, v) # (k', v') # m else if k = k' then (k, v) # m else (k', v') # omap_put k v m)"

lemma omap_put_lookup: "sorted_wrt (<) (map fst m) \<Longrightarrow> map_of (omap_put k v m) = (map_of m)(k \<mapsto> v)"
  by (induction m) (auto simp: fun_eq_iff)

lemma omap_put_keys: "set (map fst (omap_put k v m)) = insert k (set (map fst m))"
proof (induction m)
  case (Cons p m)
  then show ?case by (cases p) auto
qed simp

lemma omap_put_sorted: "sorted_wrt (<) (map fst m) \<Longrightarrow> sorted_wrt (<) (map fst (omap_put k v m))"
proof (induction m)
  case (Cons p m)
  then show ?case using omap_put_keys [of k v m] by (cases p) (force simp del: set_map)
qed simp

text \<open>\<open>operator[]\<close> on a missing key reads the default value.\<close>

definition omap_at :: "'a \<Rightarrow> ('k, 'a) omap \<Rightarrow> 'k \<Rightarrow> 'a" where
  "omap_at dflt m k = (case map_of m k of None \<Rightarrow> dflt | Some v \<Rightarrow> v)"

definition omap_erase :: "'k \<Rightarrow> ('k, 'a) omap \<Rightarrow> ('k, 'a) omap" where
  "omap_erase k m = filter (\<lambda>p. fst p \<noteq> k) m"

lemma omap_put_set:
  "sorted_wrt (<) (map fst m) \<Longrightarrow> set (omap_put k v m) = insert (k, v) {p \<in> set m. fst p \<noteq> k}"
proof (induction m)
  case (Cons p m)
  then show ?case by (cases p) (auto 0 3)
qed simp

lemma omap_erase_sorted: "sorted_wrt (<) (map fst m) \<Longrightarrow> sorted_wrt (<) (map fst (omap_erase k m))"
  by (induction m) (auto simp: omap_erase_def)

lemma omap_erase_set [simp]: "set (omap_erase k m) = {p \<in> set m. fst p \<noteq> k}"
  by (auto simp: omap_erase_def)

end
