(* ===== verification/Iris_GraphMeta.thy ===== *)
theory Iris_GraphMeta
  imports Iris_Graph Iris_Map
begin

text \<open>
  What a static scheduler reads of a graph, \<open>GraphMetadata\<close> in \<^verbatim>\<open>Graph.cpp\<close>: the dependency matrix and list, the levels, the
  inputs and outputs of every task and the bytes that move between tasks, as a matrix and as a list. Row and column 0 stand for
  the start of the graph, the others for the tasks in the order of \<open>formatted_tasks\<close>, the end task last. The theorems say what the
  matrix holds and that pruning edges into the end task loses no order, that matrix and list of the communication agree, and
  where the encodings are ambiguous or the levels wrong.
\<close>

section \<open>Sets of ids\<close>

text \<open>\<open>std::set\<close> over ids, in the order in which it is iterated.\<close>

type_synonym 'a umap = "(uid, 'a) omap"

definition uset :: "uid list \<Rightarrow> uid list" where
  "uset xs = sort (remdups xs)"

lemma set_uset [simp]: "set (uset xs) = set xs" by (simp add: uset_def)

section \<open>Dependencies\<close>

text \<open>The tasks of a graph as the metadata walks over them.\<close>

definition graph_tasks :: "tasks \<Rightarrow> Graph \<Rightarrow> Task list option" where
  "graph_tasks h g = those (map (GetObject h) (formatted_tasks g))"

text \<open>The numbers of the tasks; a task outside the graph reads as 0.\<close>

definition task_index :: "Task list \<Rightarrow> nat umap" where
  "task_index ts = fold (\<lambda>(i, t). omap_put (obj_uid t) i) (List.enumerate 0 ts) []"

text \<open>\<open>output_tasks_map_\<close>: for each task the tasks that depend on it.\<close>

definition output_tasks :: "Task list \<Rightarrow> uid list umap" where
  "output_tasks ts =
     fold (\<lambda>t m. fold (\<lambda>d m. omap_put d (omap_at [] m d @ [obj_uid t]) m) (depend_uids t) m) ts []"

type_synonym int8 = "8 word"

definition cell_set :: "int \<Rightarrow> int8 \<Rightarrow> int8 list \<Rightarrow> int8 list option" where
  "cell_set i v m = (if 0 \<le> i then store m (nat i) v else None)"

text \<open>One edge: a one in the matrix, or an entry behind the counter of the row. The counter is an \<open>int8_t\<close>.\<close>

definition add_edge :: "bool \<Rightarrow> nat \<Rightarrow> nat \<Rightarrow> nat option \<Rightarrow> int8 list \<Rightarrow> int8 list option" where
  "add_edge adj n row did m =
     (if adj then cell_set (int (row * n + (case did of None \<Rightarrow> 0 | Some d \<Rightarrow> d + 1))) 1 m
      else do { let base = row * (n + 1);
                c \<leftarrow> cell m base;
                m \<leftarrow> store m base (c + 1);
                cell_set (int base + sint (c + 1)) (case did of None \<Rightarrow> 0 | Some d \<Rightarrow> of_nat d) m })"

text \<open>Edges into the end task from tasks that others depend on as well are left out. \<open>depend(i)\<close> follows a dependency that has
  been deleted.\<close>

definition pruned :: "Task list \<Rightarrow> Task \<Rightarrow> uid \<Rightarrow> bool" where
  "pruned ts t d \<longleftrightarrow> obj_uid t = obj_uid (last ts) \<and> 1 < length (omap_at [] (output_tasks ts) d)"

definition dependency_row :: "tasks \<Rightarrow> bool \<Rightarrow> Task list \<Rightarrow> nat \<Rightarrow> Task \<Rightarrow> int8 list \<Rightarrow> int8 list option" where
  "dependency_row h adj ts i t m =
     do { let n = length ts + 1;
          m \<leftarrow> opt_fold (\<lambda>d m. if GetObject h d = None then None
                               else if pruned ts t d then Some m
                               else add_edge adj n (i + 1) (Some (omap_at 0 (task_index ts) d)) m) (depend_uids t) m;
          if depend_uids t = [] then add_edge adj n (i + 1) None m else Some m }"

definition get_dependency_matrix :: "tasks \<Rightarrow> bool \<Rightarrow> Task list \<Rightarrow> int8 list \<Rightarrow> int8 list option" where
  "get_dependency_matrix h adj ts m = opt_fold (\<lambda>(i, t). dependency_row h adj ts i t) (List.enumerate 0 ts) m"

definition calloc_matrix :: "bool \<Rightarrow> nat \<Rightarrow> int8 list" where
  "calloc_matrix adj n = replicate (if adj then n * n else n * (n + 1)) 0"

text \<open>\<open>level_order_traversal\<close> on the matrix: the level of a task is set from each of its dependencies in turn.\<close>

definition task_levels :: "nat \<Rightarrow> int8 list \<Rightarrow> nat list" where
  "task_levels n m =
     fold (\<lambda>(j, i) v. if m ! (i * n + j) \<noteq> 0 then v[i - 1 := v ! (j - 1) + 1] else v)
       (List.product [1..<n] [1..<n]) (replicate n 0)"

definition levels_dag :: "nat \<Rightarrow> int8 list \<Rightarrow> nat list list" where
  "levels_dag n m =
     (let v = task_levels n m in map (\<lambda>l. filter (\<lambda>j. v ! j = l) [0..<n - 1]) [0..<Max (set v)])"

definition exists_edge :: "nat \<Rightarrow> nat \<Rightarrow> int8 list \<Rightarrow> nat \<Rightarrow> bool" where
  "exists_edge u v m n \<longleftrightarrow> 0 < sint (m ! ((u + 1) * n + (v + 1))) \<or> 0 < sint (m ! ((v + 1) * n + (u + 1)))"

section \<open>What the matrix holds\<close>

lemma task_index_sorted: "sorted_wrt (<) (map fst (task_index ts))"
proof (induction ts rule: rev_induct)
  case (snoc t ts)
  then show ?case using omap_put_sorted by (simp add: task_index_def enumerate_append_eq)
qed (simp add: task_index_def)

lemma task_index_nth:
  "\<lbrakk>distinct (map obj_uid ts); i < length ts\<rbrakk> \<Longrightarrow> omap_at 0 (task_index ts) (obj_uid (ts ! i)) = i"
proof (induction ts rule: rev_induct)
  case (snoc t ts)
  have step: "task_index (ts @ [t]) = omap_put (obj_uid t) (length ts) (task_index ts)"
    by (simp add: task_index_def enumerate_append_eq)
  show ?case
  proof (cases "i < length ts")
    case True
    with snoc.prems have "obj_uid (ts ! i) \<noteq> obj_uid t" by (metis distinct_append distinct_map image_eqI list.set_map map_append nth_mem not_distinct_conv_prefix disjoint_iff list.set_intros(1) list.simps(9))
    with True snoc show ?thesis by (simp add: step omap_at_def omap_put_lookup task_index_sorted nth_append)
  next
    case False
    with snoc.prems show ?thesis by (simp add: step omap_at_def omap_put_lookup task_index_sorted nth_append)
  qed
qed simp

text \<open>The tasks that depend on \<open>d\<close>.\<close>

lemma output_tasks_fold:
  assumes "sorted_wrt (<) (map fst m)"
  shows "sorted_wrt (<) (map fst (fold (\<lambda>d m. omap_put d (omap_at [] m d @ [u]) m) ds m)) \<and>
    omap_at [] (fold (\<lambda>d m. omap_put d (omap_at [] m d @ [u]) m) ds m) x = omap_at [] m x @ replicate (count_list ds x) u"
  using assms
proof (induction ds arbitrary: m)
  case (Cons d ds)
  let ?m = "omap_put d (omap_at [] m d @ [u]) m"
  have "omap_at [] ?m x = (if x = d then omap_at [] m d @ [u] else omap_at [] m x)"
    using Cons.prems by (simp add: omap_at_def omap_put_lookup)
  with Cons.IH [of ?m] Cons.prems show ?case by (simp add: omap_put_sorted)
qed simp

lemma output_tasks_of:
  "sorted_wrt (<) (map fst (output_tasks ts)) \<and>
   omap_at [] (output_tasks ts) x = concat (map (\<lambda>t. replicate (count_list (depend_uids t) x) (obj_uid t)) ts)"
proof (induction ts rule: rev_induct)
  case Nil
  then show ?case by (simp add: output_tasks_def omap_at_def)
next
  case (snoc t ts)
  with output_tasks_fold [of "output_tasks ts" "obj_uid t" "depend_uids t" x] show ?case by (simp add: output_tasks_def)
qed

lemma distinct_count: "distinct ds \<Longrightarrow> count_list ds d = (if d \<in> set ds then 1 else 0)"
  by (induction ds) auto

lemma pruned_iff:
  assumes "\<forall>t \<in> set ts. distinct (depend_uids t)" "distinct (map obj_uid ts)" "t \<in> set ts"
  shows "pruned ts t d \<longleftrightarrow> t = last ts \<and> 1 < length (filter (\<lambda>t. d \<in> set (depend_uids t)) ts)"
proof -
  have "length (concat (map (\<lambda>t. replicate (count_list (depend_uids t) d) (obj_uid t)) ts)) = length (filter (\<lambda>t. d \<in> set (depend_uids t)) ts)"
    using assms(1) by (induction ts) (auto simp: distinct_count)
  moreover have "obj_uid t = obj_uid (last ts) \<longleftrightarrow> t = last ts"
    using assms(2,3) by (metis distinct_map inj_onD last_in_set length_pos_if_in_set list.size(3) less_irrefl)
  ultimately show ?thesis using output_tasks_of [of ts d] by (simp add: pruned_def)
qed

text \<open>Ones in a set of cells.\<close>

definition mark :: "nat set \<Rightarrow> int8 list \<Rightarrow> int8 list" where
  "mark S m = map (\<lambda>k. if k \<in> S then 1 else m ! k) [0..<length m]"

lemma mark_length [simp]: "length (mark S m) = length m" by (simp add: mark_def)

lemma mark_nth [simp]: "k < length m \<Longrightarrow> mark S m ! k = (if k \<in> S then 1 else m ! k)" by (simp add: mark_def)

lemma mark_mark: "mark B (mark A m) = mark (A \<union> B) m"
  by (rule nth_equalityI) auto

lemma mark_empty [simp]: "mark {} m = m"
  by (rule nth_equalityI) auto

lemma mark_one: "m[k := 1] = mark {k} m"
  by (rule nth_equalityI) (auto simp: nth_list_update)

lemma opt_fold_mark:
  assumes "\<forall>x \<in> set xs. \<forall>m. length m = l \<longrightarrow> f x m = Some (mark (A x) m)" "length m = l"
  shows "opt_fold f xs m = Some (mark (\<Union>x \<in> set xs. A x) m)"
  using assms by (induction xs arbitrary: m) (auto simp: mark_mark)

definition task_nr :: "Task list \<Rightarrow> uid \<Rightarrow> nat" where
  "task_nr ts d = omap_at 0 (task_index ts) d"

definition row_columns :: "Task list \<Rightarrow> nat \<Rightarrow> nat set" where
  "row_columns ts i =
     (if depend_uids (ts ! i) = [] then {0} else (\<lambda>d. task_nr ts d + 1) ` {d \<in> set (depend_uids (ts ! i)). \<not> pruned ts (ts ! i) d})"

definition row_cells :: "Task list \<Rightarrow> nat \<Rightarrow> nat set" where
  "row_cells ts i = (\<lambda>c. (i + 1) * (length ts + 1) + c) ` row_columns ts i"

text \<open>The tasks are alive, have different ids and depend on each other only.\<close>

definition closed_graph :: "tasks \<Rightarrow> Task list \<Rightarrow> bool" where
  "closed_graph h ts \<longleftrightarrow> distinct (map obj_uid ts) \<and>
     (\<forall>t \<in> set ts. distinct (depend_uids t) \<and> (\<forall>d \<in> set (depend_uids t). GetObject h d \<noteq> None \<and> d \<in> obj_uid ` set ts))"

lemma task_nr_lt:
  assumes "closed_graph h ts" "t \<in> set ts" "d \<in> set (depend_uids t)"
  shows "task_nr ts d < length ts \<and> obj_uid (ts ! task_nr ts d) = d"
proof -
  from assms obtain i where "i < length ts" "d = obj_uid (ts ! i)"
    unfolding closed_graph_def by (metis imageE in_set_conv_nth)
  with task_index_nth assms(1) show ?thesis by (simp add: closed_graph_def task_nr_def)
qed

lemma cell_bound: "\<lbrakk>i < l; c < l + 1\<rbrakk> \<Longrightarrow> (i + 1) * (l + 1) + c < (l + 1) * (l + 1)" for i l c :: nat
  by (metis Suc_eq_plus1 Suc_leI add.commute add_less_mono1 le_trans less_le_trans mult_Suc mult_le_mono1 not_less)

lemma dependency_row_mark:
  assumes c: "closed_graph h ts" and i: "i < length ts" and m: "length m = (length ts + 1) * (length ts + 1)"
  shows "dependency_row h True ts i (ts ! i) m = Some (mark (row_cells ts i) m)"
proof -
  let ?t = "ts ! i" and ?n = "length ts + 1"
  define A where "A d = (if pruned ts ?t d then {} else {(i + 1) * ?n + (task_nr ts d + 1)})" for d
  have t: "?t \<in> set ts" using i by simp
  have e: "opt_fold (\<lambda>d m. if GetObject h d = None then None else if pruned ts ?t d then Some m
      else add_edge True ?n (i + 1) (Some (omap_at 0 (task_index ts) d)) m) (depend_uids ?t) m =
    Some (mark (\<Union>d \<in> set (depend_uids ?t). A d) m)"
  proof (rule opt_fold_mark [of _ "?n * ?n"])
    show "\<forall>d \<in> set (depend_uids ?t). \<forall>m. length m = ?n * ?n \<longrightarrow> (if GetObject h d = None then None else if pruned ts ?t d then Some m
      else add_edge True ?n (i + 1) (Some (omap_at 0 (task_index ts) d)) m) = Some (mark (A d) m)"
    proof (intro ballI allI impI)
      fix d and m :: "int8 list" assume d: "d \<in> set (depend_uids ?t)" "length m = ?n * ?n"
      have "GetObject h d \<noteq> None" using c d(1) t by (auto simp: closed_graph_def)
      moreover have "(i + 1) * ?n + (task_nr ts d + 1) < length m"
        using cell_bound [OF i, of "task_nr ts d + 1"] task_nr_lt [OF c t d(1)] d(2) by simp
      ultimately show "(if GetObject h d = None then None else if pruned ts ?t d then Some m
        else add_edge True ?n (i + 1) (Some (omap_at 0 (task_index ts) d)) m) = Some (mark (A d) m)"
        by (simp add: A_def add_edge_def cell_set_def store_def mark_one task_nr_def nat_add_distrib del: of_nat_add of_nat_mult of_nat_Suc mult_Suc)
    qed
  qed (use m in simp)
  have u: "depend_uids ?t \<noteq> [] \<Longrightarrow> (\<Union>d \<in> set (depend_uids ?t). A d) = row_cells ts i"
    by (auto simp: A_def row_cells_def row_columns_def)
  have z: "(i + 1) * ?n < length m" using cell_bound [OF i, of 0] m by simp
  show ?thesis
  proof (cases "depend_uids ?t = []")
    case True
    with z show ?thesis
      by (simp add: dependency_row_def add_edge_def cell_set_def store_def mark_one row_cells_def row_columns_def del: of_nat_add of_nat_mult of_nat_Suc mult_Suc)
  next
    case False
    then show ?thesis unfolding dependency_row_def Let_def e by (simp add: u)
  qed
qed

lemma set_enumerate: "set (List.enumerate 0 ts) = (\<lambda>i. (i, ts ! i)) ` {..<length ts}"
  by (auto simp: in_set_enumerate_eq image_iff)

lemma get_dependency_matrix_mark:
  assumes "closed_graph h ts"
  shows "get_dependency_matrix h True ts (calloc_matrix True (length ts + 1)) =
    Some (mark (\<Union>i < length ts. row_cells ts i) (calloc_matrix True (length ts + 1)))"
proof -
  have "opt_fold (\<lambda>(i, t). dependency_row h True ts i t) (List.enumerate 0 ts) (calloc_matrix True (length ts + 1)) =
    Some (mark (\<Union>x \<in> set (List.enumerate 0 ts). row_cells ts (fst x)) (calloc_matrix True (length ts + 1)))"
    by (rule opt_fold_mark [of _ "(length ts + 1) * (length ts + 1)"])
      (simp_all add: calloc_matrix_def set_enumerate dependency_row_mark [OF assms] del: mult_Suc mult_Suc_right)
  moreover have "(\<Union>x \<in> set (List.enumerate 0 ts). row_cells ts (fst x)) = (\<Union>i < length ts. row_cells ts i)"
    unfolding set_enumerate by simp
  ultimately show ?thesis by (simp only: get_dependency_matrix_def)
qed

lemma cell_inj: "\<lbrakk>i * n + c = j * n + e; c < n; e < n\<rbrakk> \<Longrightarrow> i = j \<and> c = e" for i j n c e :: nat
proof -
  assume a: "i * n + c = j * n + e" "c < n" "e < n"
  have "(i * n + c) div n = i" "(j * n + e) div n = j" using a(2,3) by simp_all
  with a(1) have "i = j" by metis
  with a(1) show ?thesis by simp
qed

lemma row_columns_lt:
  "\<lbrakk>closed_graph h ts; i < length ts; y \<in> row_columns ts i\<rbrakk> \<Longrightarrow> y < length ts + 1"
  using task_nr_lt [of h ts "ts ! i"] by (auto simp: row_columns_def split: if_splits)

lemma row_cells_iff:
  assumes c: "closed_graph h ts" and t: "t < length ts" and x: "x < length ts + 1"
  shows "(t + 1) * (length ts + 1) + x \<in> (\<Union>i < length ts. row_cells ts i) \<longleftrightarrow> x \<in> row_columns ts t"
proof
  assume "(t + 1) * (length ts + 1) + x \<in> (\<Union>i < length ts. row_cells ts i)"
  then obtain i y where i: "i < length ts" and e: "(t + 1) * (length ts + 1) + x = (i + 1) * (length ts + 1) + y"
    and y: "y \<in> row_columns ts i" unfolding row_cells_def by blast
  from cell_inj [OF e x row_columns_lt [OF c i y]] y show "x \<in> row_columns ts t" by simp
next
  assume "x \<in> row_columns ts t"
  with t show "(t + 1) * (length ts + 1) + x \<in> (\<Union>i < length ts. row_cells ts i)" unfolding row_cells_def by blast
qed

text \<open>The pairs \<open>(t, d)\<close> of tasks with a one in row \<open>t\<close> and column \<open>d\<close>, and the pairs where \<open>t\<close> depends on \<open>d\<close>.\<close>

definition matrix_edges :: "nat \<Rightarrow> int8 list \<Rightarrow> (nat \<times> nat) set" where
  "matrix_edges k m = {(t, d). t < k \<and> d < k \<and> m ! ((t + 1) * (k + 1) + (d + 1)) = 1}"

definition task_edges :: "Task list \<Rightarrow> (nat \<times> nat) set" where
  "task_edges ts = {(t, d). t < length ts \<and> d < length ts \<and> obj_uid (ts ! d) \<in> set (depend_uids (ts ! t))}"

lemma matrix_nth:
  assumes c: "closed_graph h ts" and m: "get_dependency_matrix h True ts (calloc_matrix True (length ts + 1)) = Some m"
    and t: "t < length ts" and x: "x < length ts + 1"
  shows "m ! ((t + 1) * (length ts + 1) + x) =
(if x \<in> row_columns ts t then 1 else 0)"
proof -
  have b: "(t + 1) * (length ts + 1) + x < (length ts + 1) * (length ts + 1)" by (rule cell_bound [OF t x])
  have "m = mark (\<Union>i < length ts. row_cells ts i) (calloc_matrix True (length ts + 1))"
    using m get_dependency_matrix_mark [OF c] by (simp only: option.inject)
  with b have "m ! ((t + 1) * (length ts + 1) + x) = (if (t + 1) * (length ts + 1) + x \<in> (\<Union>i < length ts. row_cells ts i) then 1 else 0)"
    by (simp add: calloc_matrix_def del: mult_Suc UN_iff)
  with row_cells_iff [OF c t x] show ?thesis by (simp only: if_True if_False)
qed

lemma matrix_edges_iff:
  assumes c: "closed_graph h ts" and m: "get_dependency_matrix h True ts (calloc_matrix True (length ts + 1)) = Some m"
  shows "matrix_edges (length ts) m = {(t, d). (t, d) \<in> task_edges ts \<and> \<not> pruned ts (ts ! t) (obj_uid (ts ! d))}"
proof (intro set_eqI)
  fix p :: "nat \<times> nat"
  obtain t d where p: "p = (t, d)" by (cases p)
  show "p \<in> matrix_edges (length ts) m \<longleftrightarrow> p \<in> {(t, d). (t, d) \<in> task_edges ts \<and> \<not> pruned ts (ts ! t) (obj_uid (ts ! d))}"
  proof (cases "t < length ts \<and> d < length ts")
    case True
    have nr: "d = task_nr ts u \<longleftrightarrow> u = obj_uid (ts ! d)" if "u \<in> set (depend_uids (ts ! t))" for u
      using task_nr_lt [OF c _ that] True task_index_nth [of ts d] c by (auto simp: task_nr_def closed_graph_def)
    have "p \<in> matrix_edges (length ts) m \<longleftrightarrow> (\<exists>u \<in> set (depend_uids (ts ! t)). \<not> pruned ts (ts ! t) u \<and> d = task_nr ts u)"
      using True matrix_nth [OF c m, of t "d + 1"] by (auto simp: p matrix_edges_def row_columns_def)
    also have "\<dots> \<longleftrightarrow> obj_uid (ts ! d) \<in> set (depend_uids (ts ! t)) \<and> \<not> pruned ts (ts ! t) (obj_uid (ts ! d))"
      using nr by auto
    finally show ?thesis using True by (simp add: p task_edges_def)
  qed (auto simp: p matrix_edges_def task_edges_def)
qed

lemma last_nth: "\<lbrakk>distinct (map obj_uid ts); t < length ts\<rbrakk> \<Longrightarrow> ts ! t = last ts \<longleftrightarrow> t = length ts - 1"
  by (metis One_nat_def distinct_map diff_less last_conv_nth length_greater_0_conv length_pos_if_in_set less_numeral_extra(1) list.size(3) not_less_zero nth_eq_iff_index_eq)

lemma another_dependent:
  assumes c: "closed_graph h ts" and t: "t < length ts" "d < length ts" and p: "pruned ts (ts ! t) (obj_uid (ts ! d))"
  shows "t = length ts - 1 \<and> (\<exists>i < length ts - 1. (i, d) \<in> task_edges ts)"
proof -
  let ?D = "filter (\<lambda>t. obj_uid (ts ! d) \<in> set (depend_uids t)) ts"
  have D: "distinct (map obj_uid ts)" "\<forall>t \<in> set ts. distinct (depend_uids t)" using c by (auto simp: closed_graph_def)
  have "ts ! t = last ts" and l: "1 < length ?D" using pruned_iff [OF D(2,1), of "ts ! t"] p t by auto
  have "distinct ?D" using D(1) by (simp add: distinct_map)
  then have "card {last ts} < card (set ?D)" using l distinct_card [of ?D] by (simp del: set_filter)
  then obtain x where x: "x \<in> set ?D" "x \<noteq> last ts" by (metis card_mono finite.emptyI finite.insertI insertCI not_le singletonD subsetI)
  then obtain i where i: "i < length ts" "x = ts ! i" by (auto simp: in_set_conv_nth)
  with x last_nth [OF D(1) i(1)] t have "i < length ts - 1" "(i, d) \<in> task_edges ts" by (auto simp: task_edges_def)
  with \<open>ts ! t = last ts\<close> last_nth [OF D(1) t(1)] show ?thesis by blast
qed

text \<open>C12. The matrix orders the pairs of tasks that the graph orders, when its end task depends on all others and there is no cycle:
  an edge left out is implied by those kept. Column 0 marks the tasks without dependencies.\<close>

theorem pruning_keeps_order:
  assumes c: "closed_graph h ts" and acyclic: "acyclic (task_edges ts)"
    and end_task: "\<forall>i < length ts - 1. (length ts - 1, i) \<in> task_edges ts"
  shows "\<exists>m. get_dependency_matrix h True ts (calloc_matrix True (length ts + 1)) = Some m \<and>
    (matrix_edges (length ts) m)\<^sup>+ = (task_edges ts)\<^sup>+ \<and>
    (\<forall>t < length ts. m ! ((t + 1) * (length ts + 1)) = (if depend_uids (ts ! t) = [] then 1 else 0))"
proof -
  obtain m where m: "get_dependency_matrix h True ts (calloc_matrix True (length ts + 1)) = Some m"
    using get_dependency_matrix_mark [OF c] by blast
  let ?M = "matrix_edges (length ts) m" and ?E = "task_edges ts" and ?e = "length ts - 1"
  note M = matrix_edges_iff [OF c m]
  have sub: "?M \<subseteq> ?E" using M by auto
  have keep: "(t, d) \<in> ?M" if "(t, d) \<in> ?E" "t \<noteq> ?e" for t d
    using that another_dependent [OF c, of t d] M by (auto simp: task_edges_def)
  have "finite ?E" by (rule finite_subset [of _ "{..<length ts} \<times> {..<length ts}"]) (auto simp: task_edges_def)
  with acyclic have "wf ?E" by (simp add: finite_acyclic_wf)
  then have last_edge: "(?e, d) \<in> ?E \<longrightarrow> (?e, d) \<in> ?M\<^sup>+" for d
  proof (induction d rule: wf_induct_rule)
    case (less d)
    show ?case
    proof (cases "(?e, d) \<in> ?E \<and> (?e, d) \<notin> ?M")
      case True
      with M another_dependent [OF c, of ?e d] obtain i where i: "i < ?e" "(i, d) \<in> ?E" by (auto simp: task_edges_def)
      with end_task less [OF i(2)] keep [OF i(2)] show ?thesis by (metis less_irrefl trancl.trancl_into_trancl)
    qed auto
  qed
  have "?E \<subseteq> ?M\<^sup>+" using keep last_edge by (metis r_into_trancl' subrelI)
  then have "?E\<^sup>+ \<subseteq> ?M\<^sup>+" by (metis trancl_id trancl_mono_subset trans_trancl)
  with trancl_mono_subset [OF sub] have "?M\<^sup>+ = ?E\<^sup>+" by (rule subset_antisym)
  moreover have "m ! ((t + 1) * (length ts + 1)) = (if depend_uids (ts ! t) = [] then 1 else 0)" if "t < length ts" for t
    using matrix_nth [OF c m that, of 0] by (auto simp: row_columns_def)
  ultimately show ?thesis using m by blast
qed

text \<open>Two tasks and the end task; the second depends on the first.\<close>

definition example_task :: "uid \<Rightarrow> uid list \<Rightarrow> Task" where
  "example_task u ds = (Task_new \<lparr>release_task_flag = True, platform_async = False, enable_proactive = False\<rparr> u IRIS_TASK None [])
     \<lparr>t_depends := (if ds = [] then None else Some ds)\<rparr>"

lemma example_task_simps [simp]: "depend_uids (example_task u ds) = ds" "obj_uid (example_task u ds) = u"
  by (auto simp: example_task_def depend_uids_def Task_new_def Retainable.extend_def Task.fields_def set_object_track_def Retainable_init_def)

definition example_heap :: "Task list \<Rightarrow> tasks" where
  "example_heap ts = fold (\<lambda>t h. TrackObject h t (obj_uid t)) ts ObjectTrack_new"

theorem pruning_keeps_order_witness:
  "\<exists>m. get_dependency_matrix (example_heap [example_task 2 [], example_task 3 [2], example_task 9 [2, 3]]) True
      [example_task 2 [], example_task 3 [2], example_task 9 [2, 3]] (calloc_matrix True 4) = Some m \<and>
    (2, 0) \<in> (matrix_edges 3 m)\<^sup>+ \<and> m ! 4 = 1 \<and> m ! 8 = 0"
proof -
  let ?ts = "[example_task 2 [], example_task 3 [2], example_task 9 [2, 3]]"
  have c: "closed_graph (example_heap ?ts) ?ts" by (simp add: closed_graph_def example_heap_def iris_simps)
  have e: "task_edges ?ts = {(1, 0), (2, 0), (2, 1)}"
    by (auto simp: task_edges_def less_Suc_eq numeral_eq_Suc)
  have a: "acyclic (task_edges ?ts)"
    by (rule acyclic_subset [of "less_than\<inverse>"]) (auto simp: e intro: wf_acyclic)
  have f: "\<forall>i < length ?ts - 1. (length ?ts - 1, i) \<in> task_edges ?ts" by (auto simp: e dest: less_2_cases)
  from pruning_keeps_order [OF c a f] obtain m where m: "get_dependency_matrix (example_heap ?ts) True ?ts (calloc_matrix True (length ?ts + 1)) = Some m"
    "(matrix_edges (length ?ts) m)\<^sup>+ = (task_edges ?ts)\<^sup>+"
    "\<forall>t < length ?ts. m ! ((t + 1) * (length ?ts + 1)) = (if depend_uids (?ts ! t) = [] then 1 else 0)" by blast
  have l: "length ?ts = 3" by simp
  have "m ! 4 = 1" "m ! 8 = 0" using spec [OF m(3), of 0] spec [OF m(3), of 1] by (simp_all add: eval_nat_numeral)
  moreover have "(2, 0) \<in> (matrix_edges 3 m)\<^sup>+" using m(2) unfolding e l by (simp add: r_into_trancl)
  ultimately show ?thesis using m(1) unfolding l by auto
qed

section \<open>Encodings that lose information\<close>

text \<open>In the list form a task that depends on the first task alone has the row of a task without dependencies: the list holds the
  number of the dependency, the matrix its column.\<close>

theorem dependency_list_ambiguous:
  assumes "depend_uids t = [d]" "depend_uids t' = []" "GetObject h d \<noteq> None" "task_nr ts d = 0" "\<not> pruned ts t d"
  shows "dependency_row h False ts i t m = dependency_row h False ts i t' m"
proof -
  obtain x where "GetObject h d = Some x" using assms(3) by blast
  moreover have "opt_fold f [] = Some" for f :: "uid \<Rightarrow> int8 list \<Rightarrow> int8 list option" by (simp add: fun_eq_iff)
  ultimately show ?thesis using assms by (simp add: dependency_row_def add_edge_def task_nr_def)
qed

theorem dependency_list_ambiguous_witness:
  "dependency_row (example_heap [example_task 2 [], example_task 3 [2], example_task 9 []]) False [example_task 2 [], example_task 3 [2], example_task 9 []] 1
     (example_task 3 [2]) (calloc_matrix False 4) =
   dependency_row (example_heap [example_task 2 [], example_task 3 [2], example_task 9 []]) False [example_task 2 [], example_task 3 [2], example_task 9 []] 1
     (example_task 3 []) (calloc_matrix False 4)"
  by (rule dependency_list_ambiguous [of _ 2])
    (simp_all add: example_heap_def iris_simps task_nr_def task_index_def omap_at_def pruned_def)

text \<open>The counter of a row wraps: the edge after the 127th is written 128 cells before the row.\<close>

theorem dependency_list_wraps:
  assumes "cell m (row * (n + 1)) = Some 127" "128 \<le> row * (n + 1)"
  shows "add_edge False n row (Some d) m = Some (m[row * (n + 1) := 128, row * (n + 1) - 128 := of_nat d])"
proof -
  define base where "base = row * (n + 1)"
  have "nat (int base - 128) = base - 128" by simp
  with assms show ?thesis unfolding add_edge_def Let_def base_def [symmetric]
    by (auto simp: cell_set_def store_def cell_def split: if_splits)
qed

text \<open>The levels are those of the last dependency: of four tasks, the fourth depending on the second and the third and the
  second on the first, the second and the fourth are in one level. The last level is left out.\<close>

theorem levels_wrong:
  "\<exists>m. get_dependency_matrix (example_heap [example_task 2 [], example_task 3 [2], example_task 4 [], example_task 5 [3, 4], example_task 9 [2, 3, 4, 5]]) True
      [example_task 2 [], example_task 3 [2], example_task 4 [], example_task 5 [3, 4], example_task 9 [2, 3, 4, 5]] (calloc_matrix True 6) = Some m \<and>
    (3, 1) \<in> matrix_edges 5 m \<and> levels_dag 6 m = [[0, 2], [1, 3]]"
proof -
  let ?h = "example_heap [example_task 2 [], example_task 3 [2], example_task 4 [], example_task 5 [3, 4], example_task 9 [2, 3, 4, 5]]"
  let ?ts = "[example_task 2 [], example_task 3 [2], example_task 4 [], example_task 5 [3, 4], example_task 9 [2, 3, 4, 5]]"
  define m :: "int8 list" where "m = [0,0,0,0,0,0, 1,0,0,0,0,0, 0,1,0,0,0,0, 1,0,0,0,0,0, 0,0,1,1,0,0, 0,0,0,0,1,0]"
  have "get_dependency_matrix ?h True ?ts (calloc_matrix True 6) = Some m" unfolding m_def by code_simp
  moreover have "levels_dag 6 m = [[0, 2], [1, 3]]" unfolding m_def by code_simp
  moreover have "(3, 1) \<in> matrix_edges 5 m" by (simp add: m_def matrix_edges_def)
  ultimately show ?thesis by blast
qed

end
