(* ===== verification/Iris_GraphComm.thy ===== *)
theory Iris_GraphComm
  imports Iris_GraphMeta
begin

text \<open>
  The data a graph moves, second half of \<open>GraphMetadata\<close> in \<^verbatim>\<open>Graph.cpp\<close>: the inputs and outputs of every task
  (\<open>map_task_inputs_outputs\<close>), the bytes between each pair of tasks as a matrix (\<open>get_2d_comm_adj_matrix\<close>) and object by object as
  a list (\<open>get_3d_comm_data\<close>). The theorems show that the matrix is the sum of the list, that every input of a task is listed, and
  that the ids of flushed objects are listed although no communication time is computed for them.
\<close>

section \<open>Inputs and outputs\<close>

text \<open>What the memory objects answer; \<open>mi_regions\<close> are the regions when they are enabled, \<open>mi_dmem\<close> the object a region belongs to.\<close>

record MemInfo =
  mi_handler :: MemHandlerType
  mi_size :: size_t
  mi_reset :: bool
  mi_regions :: "uid list option"
  mi_dmem :: uid

record meta_env =
  me_mem :: "uid \<Rightarrow> MemInfo"
  me_reset_mems :: "uid \<Rightarrow> uid list"

text \<open>The maps of the metadata and the counter of ids; \<open>gm_covered\<close> is the local \<open>init_reset_mems_covered\<close>. The objects behind
  \<open>mem_index_hash_\<close> are known by their ids.\<close>

record GraphMetadata =
  gm_mem_index :: "uid list"
  gm_region_dmem :: "uid umap"
  gm_flush_tasks :: "uid list umap"
  gm_flush_new :: "uid umap"
  gm_flush_old :: "uid umap"
  gm_task_flushes :: "uid list umap"
  gm_inputs :: "uid list umap"
  gm_outputs :: "uid list umap"
  gm_covered :: "uid list"
  gm_uid :: uid

definition GraphMetadata_new :: "uid \<Rightarrow> GraphMetadata" where
  "GraphMetadata_new ctr = \<lparr>gm_mem_index = [], gm_region_dmem = [], gm_flush_tasks = [], gm_flush_new = [], gm_flush_old = [],
     gm_task_flushes = [], gm_inputs = [], gm_outputs = [], gm_covered = [], gm_uid = ctr\<rparr>"

definition index_mem :: "uid \<Rightarrow> GraphMetadata \<Rightarrow> GraphMetadata" where
  "index_mem u g = g\<lparr>gm_mem_index := push_unique u (gm_mem_index g)\<rparr>"

text \<open>A region brings its object into the index.\<close>

definition index_region :: "meta_env \<Rightarrow> uid \<Rightarrow> GraphMetadata \<Rightarrow> GraphMetadata" where
  "index_region e u g =
     (if mi_handler (me_mem e u) = IRIS_DMEM_REGION
      then let d = mi_dmem (me_mem e u); g = index_mem d g
           in if map_of (gm_region_dmem g) u = None then g\<lparr>gm_region_dmem := omap_put u d (gm_region_dmem g)\<rparr> else g
      else g)"

definition omap_insert :: "uid \<Rightarrow> uid \<Rightarrow> uid list umap \<Rightarrow> uid list umap" where
  "omap_insert k v m = omap_put k (push_unique v (omap_at [] m k)) m"

text \<open>A flush outside a kernel task outputs a new id.\<close>

definition flush_id :: "Task \<Rightarrow> uid \<Rightarrow> GraphMetadata \<Rightarrow> GraphMetadata" where
  "flush_id t u g =
     (if map_of (gm_flush_new g) u = None
      then let (n, ctr) = (if t_cmd_kernel t = None then iris_create_new_uid (gm_uid g) else (u, gm_uid g))
           in g\<lparr>gm_flush_new := omap_put u n (gm_flush_new g), gm_flush_old := omap_put n u (gm_flush_old g), gm_uid := ctr\<rparr>
      else g)"

text \<open>A command of a task, with the inputs, flushed inputs and outputs so far.\<close>

definition meta_cmd ::
  "meta_env \<Rightarrow> Task \<Rightarrow> Command \<Rightarrow> GraphMetadata \<times> uid list \<times> uid list \<times> uid list \<Rightarrow> (GraphMetadata \<times> uid list \<times> uid list \<times> uid list) option" where
  "meta_cmd e t c s = (case s of (g, ins, fins, outs) \<Rightarrow>
     if cmd_type c = Some IRIS_CMD_H2D \<or> cmd_type c = Some IRIS_CMD_H2DNP
     then do { u \<leftarrow> cmd_mem c; Some (index_mem u g, ins @ [u], fins, outs) }
     else if cmd_type c = Some IRIS_CMD_MEM_FLUSH
     then do { u \<leftarrow> cmd_mem c;
               let g = flush_id t u (g\<lparr>gm_flush_tasks := omap_insert u (obj_uid t) (gm_flush_tasks g)\<rparr>);
               let g = g\<lparr>gm_task_flushes := omap_insert (obj_uid t) u (gm_task_flushes g)\<rparr>;
               Some (index_mem u g, ins, fins @ [u], outs @ [omap_at 0 (gm_flush_new g) u]) }
     else if cmd_type c = Some IRIS_CMD_D2H
     then do { u \<leftarrow> cmd_mem c; Some (index_region e u (index_mem u g), ins, fins @ [u], outs @ [u]) }
     else Some s)"

text \<open>An input of a kernel: not when a transfer of the task brings it, the task resets it or it is first used after its own reset.\<close>

definition read_mem :: "Task \<Rightarrow> uid list \<Rightarrow> uid list \<Rightarrow> bool \<Rightarrow> uid \<Rightarrow> GraphMetadata \<Rightarrow> GraphMetadata" where
  "read_mem t ins resets is_reset u g =
     (let g1 = (if u \<notin> set ins \<and> u \<notin> set resets \<and> (\<not> is_reset \<or> u \<in> set (gm_covered g))
                then g\<lparr>gm_inputs := omap_put (obj_uid t) (omap_at [] (gm_inputs g) (obj_uid t) @ [u]) (gm_inputs g)\<rparr> else g)
      in if is_reset then g1\<lparr>gm_covered := push_unique u (gm_covered g1)\<rparr> else g1)"

definition read_arg :: "meta_env \<Rightarrow> Task \<Rightarrow> uid list \<Rightarrow> uid list \<Rightarrow> uid \<Rightarrow> GraphMetadata \<Rightarrow> GraphMetadata" where
  "read_arg e t ins resets u g =
     (case mi_handler (me_mem e u) of
        IRIS_DMEM \<Rightarrow> (case mi_regions (me_mem e u) of
            Some rs \<Rightarrow> fold (read_mem t ins resets (mi_reset (me_mem e u))) rs g
          | None \<Rightarrow> read_mem t ins resets (mi_reset (me_mem e u)) u g)
      | IRIS_DMEM_REGION \<Rightarrow> read_mem t ins resets (mi_reset (me_mem e (mi_dmem (me_mem e u)))) u g
      | IRIS_MEM \<Rightarrow> read_mem t ins resets (mi_reset (me_mem e u)) u g)"

definition write_arg :: "Task \<Rightarrow> uid list \<Rightarrow> uid \<Rightarrow> GraphMetadata \<Rightarrow> GraphMetadata" where
  "write_arg t outs u g =
     (if u \<in> set outs then g else g\<lparr>gm_outputs := omap_put (obj_uid t) (omap_at [] (gm_outputs g) (obj_uid t) @ [u]) (gm_outputs g)\<rparr>)"

definition meta_arg :: "meta_env \<Rightarrow> Task \<Rightarrow> uid list \<Rightarrow> uid list \<Rightarrow> uid list \<Rightarrow> KernelArg \<Rightarrow> GraphMetadata \<Rightarrow> GraphMetadata" where
  "meta_arg e t ins outs resets a g = (case arg_mem a of None \<Rightarrow> g | Some ref \<Rightarrow>
     (let u = mem_uid ref;
          g = index_mem u g;
          g = (if arg_mode a = iris_r \<or> arg_mode a = iris_rw then read_arg e t ins resets u g else g);
          g = (if arg_mode a = iris_w \<or> arg_mode a = iris_rw then write_arg t outs u g else g)
      in index_region e u g))"

definition meta_task :: "meta_env \<Rightarrow> Task \<Rightarrow> GraphMetadata \<Rightarrow> GraphMetadata option" where
  "meta_task e t g =
     do { (g, ins, fins, outs) \<leftarrow> opt_fold (meta_cmd e t) (t_cmds t) (g, [], [], []);
          let u = obj_uid t;
          let g = g\<lparr>gm_inputs := omap_put u ins (gm_inputs g), gm_outputs := omap_put u outs (gm_outputs g)\<rparr>;
          case t_cmd_kernel t of
            None \<Rightarrow>
              Some (g\<lparr>gm_outputs := omap_put u (if outs = [] then ins else outs) (gm_outputs g),
                      gm_inputs := omap_put u (if ins = [] then fins else ins) (gm_inputs g)\<rparr>)
          | Some k \<Rightarrow>
              do { c \<leftarrow> cell (t_cmds t) k;
                   Some (fold (meta_arg e t ins outs (me_reset_mems e u)) (take (cmd_kernel_nargs c) (cmd_kernel_args c)) g) } }"

definition end_inputs :: "Task \<Rightarrow> GraphMetadata \<Rightarrow> GraphMetadata" where
  "end_inputs t g = g\<lparr>gm_inputs := omap_put (obj_uid t)
     (omap_at [] (gm_inputs g) (obj_uid t) @ map (\<lambda>u. omap_at 0 (gm_flush_new g) u) (map fst (gm_flush_tasks g))) (gm_inputs g)\<rparr>"

definition map_task_inputs_outputs :: "meta_env \<Rightarrow> Task list \<Rightarrow> uid \<Rightarrow> GraphMetadata option" where
  "map_task_inputs_outputs e ts ctr =
     do { g \<leftarrow> opt_fold (meta_task e) ts (GraphMetadata_new ctr);
          Some (if ts = [] then g else end_inputs (last ts) g) }"

text \<open>\<open>mem_index_hash_valid_\<close>: the objects with a communication time. The second loop compares a map with itself and adds nothing.\<close>

definition index_valid :: "meta_env \<Rightarrow> GraphMetadata \<Rightarrow> uid list" where
  "index_valid e g = fold (\<lambda>(u, n) v. if omap_at 0 (gm_flush_new g) u \<noteq> n then push_unique n v else v) (gm_flush_new g)
     (filter (\<lambda>u. \<not> (mi_handler (me_mem e u) = IRIS_DMEM \<and> mi_regions (me_mem e u) \<noteq> None)) (uset (gm_mem_index g)))"

section \<open>Communication\<close>

text \<open>\<open>mem_list\<close>, the outputs of a dependency that are inputs, and \<open>dmem_region_lst\<close>, the regions among its outputs.\<close>

definition common_mems :: "GraphMetadata \<Rightarrow> Task \<Rightarrow> uid \<Rightarrow> uid list" where
  "common_mems g t d = filter (\<lambda>u. u \<in> set (omap_at [] (gm_outputs g) d)) (uset (omap_at [] (gm_inputs g) (obj_uid t)))"

definition output_regions :: "GraphMetadata \<Rightarrow> uid \<Rightarrow> uid list" where
  "output_regions g d = filter (\<lambda>u. map_of (gm_region_dmem g) u \<noteq> None) (uset (omap_at [] (gm_outputs g) d))"

text \<open>The object behind an id: a flushed object's new id is translated, for the end task only when \<open>only_end\<close>.\<close>

definition original :: "GraphMetadata \<Rightarrow> bool \<Rightarrow> uid \<Rightarrow> uid" where
  "original g translate u = (case map_of (gm_flush_old g) u of Some v \<Rightarrow> if translate then v else u | None \<Rightarrow> u)"

definition mem_at :: "meta_env \<Rightarrow> GraphMetadata \<Rightarrow> uid \<Rightarrow> size_t option" where
  "mem_at e g u = (if u \<in> set (gm_mem_index g) then Some (mi_size (me_mem e u)) else None)"

text \<open>The end task takes from a dependency only what that dependency flushes.\<close>

definition end_skips :: "GraphMetadata \<Rightarrow> uid \<Rightarrow> uid \<Rightarrow> bool" where
  "end_skips g d u \<longleftrightarrow> map_of (gm_flush_tasks g) u = None \<or> d \<notin> set (omap_at [] (gm_flush_tasks g) u)"

definition dep_skipped :: "GraphMetadata \<Rightarrow> bool \<Rightarrow> uid \<Rightarrow> bool" where
  "dep_skipped g is_end d \<longleftrightarrow> is_end \<and> map_of (gm_task_flushes g) d = None"

subsection \<open>The matrix\<close>

definition mem_2d :: "meta_env \<Rightarrow> GraphMetadata \<Rightarrow> bool \<Rightarrow> uid \<Rightarrow> uid \<Rightarrow> uid list \<times> size_t \<Rightarrow> (uid list \<times> size_t) option" where
  "mem_2d e g is_end d u s = (case s of (covered, sz) \<Rightarrow>
     do { let v = original g is_end u;
          b \<leftarrow> mem_at e g v;
          Some (if is_end \<and> end_skips g d v then s else (u # covered, sz + b)) })"

definition region_2d :: "meta_env \<Rightarrow> GraphMetadata \<Rightarrow> Task \<Rightarrow> uid \<Rightarrow> uid list \<times> size_t \<Rightarrow> (uid list \<times> size_t) option" where
  "region_2d e g t u s = (case s of (covered, sz) \<Rightarrow>
     (let dm = omap_at 0 (gm_region_dmem g) u
      in if dm \<in> set (omap_at [] (gm_inputs g) (obj_uid t)) \<and> u \<notin> set covered
         then do { b \<leftarrow> mem_at e g u; Some (u # dm # covered, sz + b) } else Some s))"

definition add_at :: "nat \<Rightarrow> size_t \<Rightarrow> size_t list \<Rightarrow> size_t list option" where
  "add_at i b m = do { v \<leftarrow> cell m i; store m i (v + b) }"

definition dep_2d :: "meta_env \<Rightarrow> GraphMetadata \<Rightarrow> tasks \<Rightarrow> Task list \<Rightarrow> nat \<Rightarrow> Task \<Rightarrow> uid \<Rightarrow> uid list \<times> size_t list \<Rightarrow> (uid list \<times> size_t list) option" where
  "dep_2d e g h ts i t d s = (case s of (covered, m) \<Rightarrow>
     (let is_end = (obj_uid t = obj_uid (last ts))
      in if GetObject h d = None then None
         else if dep_skipped g is_end d then Some s
         else do { s \<leftarrow> opt_fold (mem_2d e g is_end d) (common_mems g t d) (covered, 0);
                   (covered, sz) \<leftarrow> opt_fold (region_2d e g t) (output_regions g d) s;
                   m \<leftarrow> add_at ((i + 1) * (length ts + 1) + (task_nr ts d + 1)) sz m;
                   Some (covered, m) }))"

definition rest_2d :: "meta_env \<Rightarrow> GraphMetadata \<Rightarrow> uid list \<Rightarrow> uid \<Rightarrow> size_t \<Rightarrow> size_t option" where
  "rest_2d e g covered u sz =
     (if u \<in> set covered then Some sz else do { b \<leftarrow> mem_at e g (original g True u); Some (sz + b) })"

definition task_2d :: "meta_env \<Rightarrow> GraphMetadata \<Rightarrow> tasks \<Rightarrow> Task list \<Rightarrow> nat \<Rightarrow> Task \<Rightarrow> size_t list \<Rightarrow> size_t list option" where
  "task_2d e g h ts i t m =
     do { (covered, m) \<leftarrow> opt_fold (dep_2d e g h ts i t) (depend_uids t) ([], m);
          sz \<leftarrow> opt_fold (rest_2d e g covered) (uset (omap_at [] (gm_inputs g) (obj_uid t))) 0;
          if 0 < sz then add_at ((i + 1) * (length ts + 1)) sz m else Some m }"

definition get_2d_comm_adj_matrix :: "meta_env \<Rightarrow> GraphMetadata \<Rightarrow> tasks \<Rightarrow> Task list \<Rightarrow> size_t list \<Rightarrow> size_t list option" where
  "get_2d_comm_adj_matrix e g h ts m = opt_fold (\<lambda>(i, t). task_2d e g h ts i t) (List.enumerate 0 ts) m"

subsection \<open>The list\<close>

record CommData3D =
  cd_from :: "32 word"
  cd_to :: "32 word"
  cd_mem :: "32 word"
  cd_size :: size_t

definition comm_data :: "nat \<Rightarrow> nat \<Rightarrow> uid \<Rightarrow> size_t \<Rightarrow> CommData3D" where
  "comm_data f t u b = \<lparr>cd_from = of_nat f, cd_to = of_nat t, cd_mem = of_nat u, cd_size = b\<rparr>"

definition mem_3d :: "meta_env \<Rightarrow> GraphMetadata \<Rightarrow> bool \<Rightarrow> nat \<Rightarrow> nat \<Rightarrow> uid \<Rightarrow> uid \<Rightarrow> uid list \<times> CommData3D list \<Rightarrow> (uid list \<times> CommData3D list) option" where
  "mem_3d e g is_end f k d u s = (case s of (covered, rs) \<Rightarrow>
     do { let v = original g is_end u;
          b \<leftarrow> mem_at e g v;
          Some (if is_end \<and> end_skips g d v then s else (u # covered, rs @ [comm_data f k u b])) })"

definition region_3d :: "meta_env \<Rightarrow> GraphMetadata \<Rightarrow> Task \<Rightarrow> nat \<Rightarrow> nat \<Rightarrow> uid \<Rightarrow> uid list \<times> CommData3D list \<Rightarrow> (uid list \<times> CommData3D list) option" where
  "region_3d e g t f k u s = (case s of (covered, rs) \<Rightarrow>
     (let dm = omap_at 0 (gm_region_dmem g) u
      in if dm \<in> set (omap_at [] (gm_inputs g) (obj_uid t)) \<and> u \<notin> set covered
         then do { b \<leftarrow> mem_at e g u; Some (u # dm # covered, rs @ [comm_data f k u b]) } else Some s))"

definition dep_3d :: "meta_env \<Rightarrow> GraphMetadata \<Rightarrow> tasks \<Rightarrow> Task list \<Rightarrow> nat \<Rightarrow> Task \<Rightarrow> uid \<Rightarrow> uid list \<times> CommData3D list \<Rightarrow> (uid list \<times> CommData3D list) option" where
  "dep_3d e g h ts i t d s =
     (let is_end = (obj_uid t = obj_uid (last ts)); f = task_nr ts d + 1
      in if GetObject h d = None then None
         else if dep_skipped g is_end d then Some s
         else do { s \<leftarrow> opt_fold (mem_3d e g is_end f (i + 1) d) (common_mems g t d) s;
                   opt_fold (region_3d e g t f (i + 1)) (output_regions g d) s })"

definition rest_3d :: "meta_env \<Rightarrow> GraphMetadata \<Rightarrow> uid list \<Rightarrow> nat \<Rightarrow> uid \<Rightarrow> CommData3D list \<Rightarrow> CommData3D list option" where
  "rest_3d e g covered k u rs =
     (if u \<in> set covered then Some rs else do { b \<leftarrow> mem_at e g (original g True u); Some (rs @ [comm_data 0 k u b]) })"

definition task_3d :: "meta_env \<Rightarrow> GraphMetadata \<Rightarrow> tasks \<Rightarrow> Task list \<Rightarrow> nat \<Rightarrow> Task \<Rightarrow> CommData3D list \<Rightarrow> CommData3D list option" where
  "task_3d e g h ts i t rs =
     do { (covered, rs) \<leftarrow> opt_fold (dep_3d e g h ts i t) (depend_uids t) ([], rs);
          opt_fold (rest_3d e g covered (i + 1)) (uset (omap_at [] (gm_inputs g) (obj_uid t))) rs }"

definition get_3d_comm_data :: "meta_env \<Rightarrow> GraphMetadata \<Rightarrow> tasks \<Rightarrow> Task list \<Rightarrow> CommData3D list option" where
  "get_3d_comm_data e g h ts = opt_fold (\<lambda>(i, t). task_3d e g h ts i t) (List.enumerate 0 ts) []"

section \<open>The matrix is the sum of the list\<close>

lemma opt_fold_rel:
  assumes "\<And>x s s'. x \<in> set xs \<Longrightarrow> R s s' \<Longrightarrow> rel_option R (f x s) (g x s')" "R s s'"
  shows "rel_option R (opt_fold f xs s) (opt_fold g xs s')"
  using assms
proof (induction xs arbitrary: s s')
  case (Cons x xs)
  from Cons.prems(1) [of x] Cons.prems(2) have "rel_option R (f x s) (g x s')" by simp
  with Cons.IH Cons.prems(1) show ?case by (cases "f x s"; cases "g x s'") auto
qed simp

lemma bind_rel:
  "\<lbrakk>rel_option R a b; \<And>x y. R x y \<Longrightarrow> rel_option S (f x) (g y)\<rbrakk> \<Longrightarrow> rel_option S (Option.bind a f) (Option.bind b g)"
  by (cases a; cases b) auto

lemma bind_rel_Some:
  "\<lbrakk>rel_option R a b; \<And>x y. R x y \<Longrightarrow> \<exists>z. f x = Some z \<and> S z y\<rbrakk> \<Longrightarrow> rel_option S (Option.bind a f) b"
  by (cases a; cases b; fastforce)

text \<open>The list summed up by sender and receiver.\<close>

definition matrix_of :: "nat \<Rightarrow> CommData3D list \<Rightarrow> size_t list" where
  "matrix_of n rs =
     map (\<lambda>k. sum_list (map cd_size (filter (\<lambda>x. unat (cd_to x) * n + unat (cd_from x) = k) rs))) [0..<n * n]"

lemma matrix_of_length [simp]: "length (matrix_of n rs) = n * n" by (simp add: matrix_of_def)

lemma matrix_of_snoc:
  assumes "f < n" "k < n" "n \<le> 2 ^ 32"
  shows "matrix_of n (rs @ [comm_data f k u b]) = (matrix_of n rs)[k * n + f := matrix_of n rs ! (k * n + f) + b]"
proof -
  have "unat (of_nat f :: 32 word) = f" "unat (of_nat k :: 32 word) = k" using assms by (simp_all add: unat_of_nat)
  then show ?thesis
    by (intro nth_equalityI) (auto simp: matrix_of_def comm_data_def nth_list_update)
qed

lemma task_nr_bound: "ts \<noteq> [] \<Longrightarrow> task_nr ts d < length ts"
proof (induction ts rule: rev_induct)
  case (snoc t ts)
  have "task_index (ts @ [t]) = omap_put (obj_uid t) (length ts) (task_index ts)"
    by (simp add: task_index_def enumerate_append_eq)
  then have step: "map_of (task_index (ts @ [t])) = (map_of (task_index ts))(obj_uid t \<mapsto> length ts)"
    by (simp add: omap_put_lookup task_index_sorted)
  have nil: "task_nr [] d = 0" by (simp add: task_nr_def task_index_def omap_at_def)
  have "task_nr (ts @ [t]) d = (if d = obj_uid t then length ts else task_nr ts d)"
    by (simp add: task_nr_def omap_at_def step)
  with snoc.IH nil show ?case by (cases "ts = []") auto
qed simp

text \<open>A list that differs from \<open>m\<close> by \<open>sz\<close> bytes in one cell.\<close>

definition adds :: "nat \<Rightarrow> nat \<Rightarrow> size_t list \<Rightarrow> uid list \<times> size_t \<Rightarrow> uid list \<times> CommData3D list \<Rightarrow> bool" where
  "adds n j m s s' \<longleftrightarrow> fst s = fst s' \<and> matrix_of n (snd s') = m[j := m ! j + snd s]"

lemma adds_snoc:
  assumes "adds n (k * n + f) m (c, sz) (c, rs)" "f < n" "k < n" "n \<le> 2 ^ 32" "length m = n * n"
  shows "adds n (k * n + f) m (c', sz + b) (c', rs @ [comm_data f k u b])"
proof -
  have "k * n + f < n * n" using assms(2,3) by (metis add.commute add_less_mono1 le_less_trans less_le_trans mult_Suc mult_le_mono1 Suc_leI not_less)
  with assms show ?thesis by (simp add: adds_def matrix_of_snoc add.assoc)
qed

lemma mem_rel:
  assumes "f < n" "k < n" "n \<le> 2 ^ 32" "length m = n * n" "adds n (k * n + f) m s s'"
  shows "rel_option (adds n (k * n + f) m) (mem_2d e g is_end d u s) (mem_3d e g is_end f k d u s')"
  using assms adds_snoc [of n k f m "fst s" "snd s" "snd s'" "u # fst s"]
  by (cases s; cases s'; cases "mem_at e g (original g is_end u)") (auto simp: mem_2d_def mem_3d_def adds_def Let_def)

lemma region_rel:
  assumes "f < n" "k < n" "n \<le> 2 ^ 32" "length m = n * n" "adds n (k * n + f) m s s'"
  shows "rel_option (adds n (k * n + f) m) (region_2d e g t u s) (region_3d e g t f k u s')"
  using assms adds_snoc [of n k f m "fst s" "snd s" "snd s'" "u # omap_at 0 (gm_region_dmem g) u # fst s"]
  by (cases s; cases s'; cases "mem_at e g u") (auto simp: region_2d_def region_3d_def adds_def Let_def)

lemma rest_rel:
  assumes "k < n" "n \<le> 2 ^ 32" "length m = n * n" "adds n (k * n + 0) m (c, sz) (c, rs)"
  shows "rel_option (\<lambda>sz rs. adds n (k * n + 0) m (c, sz) (c, rs)) (rest_2d e g c u sz) (rest_3d e g c k u rs)"
  using assms adds_snoc [of n k 0 m c sz rs c]
  by (cases "mem_at e g (original g True u)") (auto simp: rest_2d_def rest_3d_def)

lemma dep_rel:
  assumes t: "i < length ts" and n: "length ts + 1 \<le> 2 ^ 32" and r: "fst s = fst s'" "matrix_of (length ts + 1) (snd s') = snd s"
  shows "rel_option (\<lambda>s s'. fst s = fst s' \<and> matrix_of (length ts + 1) (snd s') = snd s) (dep_2d e g h ts i t d s) (dep_3d e g h ts i t d s')"
proof -
  define n f k where "n = length ts + 1" and "f = task_nr ts d + 1" and "k = i + 1"
  define is_end where "is_end = (obj_uid t = obj_uid (last ts))"
  have b: "f < n" "k < n" "n \<le> 2 ^ 32" using task_nr_bound [of ts d] t n by (cases "ts = []", auto simp: n_def f_def k_def)
  obtain c m rs where s: "s = (c, m)" "s' = (c, rs)" "m = matrix_of n rs" using r by (cases s; cases s') (auto simp: n_def)
  have l: "length m = n * n" by (simp add: s)
  have j: "k * n + f < n * n" using cell_bound [OF t, of f] b by (simp add: n_def k_def)
  have a0: "adds n (k * n + f) m (c, 0) (c, rs)" by (simp add: adds_def s)
  have mems: "rel_option (adds n (k * n + f) m) (opt_fold (mem_2d e g is_end d) (common_mems g t d) (c, 0))
      (opt_fold (mem_3d e g is_end f k d) (common_mems g t d) (c, rs))"
    by (rule opt_fold_rel) (use mem_rel [OF b l] a0 in auto)
  have regions: "rel_option (adds n (k * n + f) m) (opt_fold (region_2d e g t) (output_regions g d) x)
      (opt_fold (region_3d e g t f k) (output_regions g d) y)" if "adds n (k * n + f) m x y" for x y
    by (rule opt_fold_rel) (use region_rel [OF b l] that in auto)
  have add: "add_at (k * n + f) sz m = Some (m[k * n + f := m ! (k * n + f) + sz])" for sz
    using j l by (simp add: add_at_def store_def cell_def)
  have "rel_option (\<lambda>s s'. fst s = fst s' \<and> matrix_of n (snd s') = snd s)
    (do { s \<leftarrow> opt_fold (mem_2d e g is_end d) (common_mems g t d) (c, 0); (c, sz) \<leftarrow> opt_fold (region_2d e g t) (output_regions g d) s;
          m \<leftarrow> add_at (k * n + f) sz m; Some (c, m) })
    (do { s \<leftarrow> opt_fold (mem_3d e g is_end f k d) (common_mems g t d) (c, rs); opt_fold (region_3d e g t f k) (output_regions g d) s })"
    by (rule bind_rel [OF mems], rule bind_rel_Some [OF regions]) (auto simp: add adds_def)
  then show ?thesis
    unfolding dep_2d_def dep_3d_def Let_def n_def [symmetric] k_def [symmetric] f_def [symmetric] is_end_def [symmetric]
    by (simp add: s)
qed

lemma task_rel:
  assumes t: "i < length ts" and n: "length ts + 1 \<le> 2 ^ 32"
  shows "rel_option (\<lambda>m rs. matrix_of (length ts + 1) rs = m)
    (task_2d e g h ts i t (matrix_of (length ts + 1) rs)) (task_3d e g h ts i t rs)"
proof -
  define n k where "n = length ts + 1" and "k = i + 1"
  let ?ins = "uset (omap_at [] (gm_inputs g) (obj_uid t))"
  have b: "0 < n" "k < n" "n \<le> 2 ^ 32" using t n by (auto simp: n_def k_def)
  have j: "k * n < n * n" using b by simp
  have deps: "rel_option (\<lambda>s s'. fst s = fst s' \<and> matrix_of n (snd s') = snd s)
      (opt_fold (dep_2d e g h ts i t) (depend_uids t) ([], matrix_of n rs)) (opt_fold (dep_3d e g h ts i t) (depend_uids t) ([], rs))"
    unfolding n_def by (rule opt_fold_rel) (use dep_rel [OF t n] in auto)
  have rest: "rel_option (\<lambda>sz rs. adds n (k * n + 0) (matrix_of n rs0) (c, sz) (c, rs))
      (opt_fold (rest_2d e g c) ?ins 0) (opt_fold (rest_3d e g c k) ?ins rs0)" for c rs0
    by (rule opt_fold_rel) (use rest_rel [OF b(2,3), of "matrix_of n rs0"] in \<open>auto simp: adds_def\<close>)
  have add: "(if 0 < sz then add_at (k * n) sz (matrix_of n rs0) else Some (matrix_of n rs0)) =
      Some ((matrix_of n rs0)[k * n := matrix_of n rs0 ! (k * n) + sz])" for sz rs0
    using j by (auto simp: add_at_def store_def cell_def word_gt_0)
  have "rel_option (\<lambda>m rs. matrix_of n rs = m)
      (do { sz \<leftarrow> opt_fold (rest_2d e g c) ?ins 0; if 0 < sz then add_at (k * n) sz (matrix_of n rs0) else Some (matrix_of n rs0) })
      (opt_fold (rest_3d e g c k) ?ins rs0)" for c rs0
    by (rule bind_rel_Some [OF rest]) (auto simp: add adds_def)
  then show ?thesis
    unfolding task_2d_def task_3d_def n_def [symmetric] k_def [symmetric]
    by (intro bind_rel [OF deps]) auto
qed

text \<open>C13. The matrix is the sum of the list, by sender and receiver, on 64-bit words; one is defined exactly when the other is.\<close>

theorem comm_matrix_is_sum:
  assumes "length ts + 1 \<le> 2 ^ 32"
  shows "get_2d_comm_adj_matrix e g h ts (replicate ((length ts + 1) * (length ts + 1)) 0) =
    map_option (matrix_of (length ts + 1)) (get_3d_comm_data e g h ts)"
proof -
  have z: "replicate ((length ts + 1) * (length ts + 1)) 0 = matrix_of (length ts + 1) []"
    by (rule nth_equalityI) (auto simp: matrix_of_def simp del: mult_Suc mult_Suc_right)
  have "rel_option (\<lambda>m rs. matrix_of (length ts + 1) rs = m)
      (opt_fold (\<lambda>(i, t). task_2d e g h ts i t) (List.enumerate 0 ts) (matrix_of (length ts + 1) []))
      (opt_fold (\<lambda>(i, t). task_3d e g h ts i t) (List.enumerate 0 ts) [])"
    by (rule opt_fold_rel) (use task_rel [OF _ assms] in \<open>auto simp: in_set_enumerate_eq\<close>)
  then show ?thesis
    unfolding get_2d_comm_adj_matrix_def get_3d_comm_data_def z by (auto elim: option.rel_cases)
qed

text \<open>A kernel task that writes object 5, a task that flushes it and the end task.\<close>

definition meta_start :: "uid \<Rightarrow> MemInfo" where
  "meta_start u = \<lparr>mi_handler = IRIS_DMEM, mi_size = 64, mi_reset = False, mi_regions = None, mi_dmem = 0\<rparr>"

definition meta_example :: "Task list" where
  "meta_example =
     [(example_task 2 [])\<lparr>t_cmds := [(Command_Create (task_ref (example_task 2 [])) IRIS_CMD_KERNEL)\<lparr>cmd_kernel_nargs := 1, cmd_kernel_args :=
        [KernelArg_default\<lparr>arg_mem := Some \<lparr>mem_uid = 5, mem_handler = IRIS_DMEM, mem_bytes = 64\<rparr>, arg_mode := iris_rw\<rparr>]\<rparr>], t_cmd_kernel := Some 0\<rparr>,
      (example_task 3 [2])\<lparr>t_cmds := [(Command_Create (task_ref (example_task 3 [2])) IRIS_CMD_MEM_FLUSH)\<lparr>cmd_mem := Some 5\<rparr>]\<rparr>,
      example_task 9 [2, 3]]"

definition meta_example_env :: meta_env where
  "meta_example_env = \<lparr>me_mem = meta_start, me_reset_mems = (\<lambda>_. [])\<rparr>"

definition meta_example_result :: GraphMetadata where
  "meta_example_result = \<lparr>gm_mem_index = [5], gm_region_dmem = [], gm_flush_tasks = [(5, [3])], gm_flush_new = [(5, 21)],
     gm_flush_old = [(21, 5)], gm_task_flushes = [(3, [5])], gm_inputs = [(2, [5]), (3, [5]), (9, [21])],
     gm_outputs = [(2, [5]), (3, [21]), (9, [])], gm_covered = [], gm_uid = 21\<rparr>"

lemma meta_example_metadata: "map_task_inputs_outputs meta_example_env meta_example 20 = Some meta_example_result"
  by code_simp

lemma meta_example_data:
  "get_3d_comm_data meta_example_env meta_example_result (example_heap meta_example) meta_example =
    Some [comm_data 0 1 5 64, comm_data 1 2 5 64, comm_data 2 3 21 64]"
  by code_simp

theorem comm_matrix_is_sum_witness:
  "get_2d_comm_adj_matrix meta_example_env meta_example_result (example_heap meta_example) meta_example (replicate 16 0) =
    Some [0, 0, 0, 0, 64, 0, 0, 0, 0, 64, 0, 0, 0, 0, 64, 0]"
proof -
  have l: "length meta_example = 3" by (simp add: meta_example_def)
  have "matrix_of 4 [comm_data 0 1 5 64, comm_data 1 2 5 64, comm_data 2 3 21 64] = [0, 0, 0, 0, 64, 0, 0, 0, 0, 64, 0, 0, 0, 0, 64, 0]"
    by code_simp
  with comm_matrix_is_sum [of meta_example meta_example_env meta_example_result "example_heap meta_example"]
  show ?thesis by (simp add: l meta_example_data)
qed

text \<open>The new id of a flushed object is in the list, but not among the objects for which a time is computed.\<close>

theorem flush_id_without_time:
  "\<exists>g rs x. map_task_inputs_outputs meta_example_env meta_example 20 = Some g \<and>
    get_3d_comm_data meta_example_env g (example_heap meta_example) meta_example = Some rs \<and>
    x \<in> set rs \<and> cd_from x = 2 \<and> unat (cd_mem x) \<notin> set (index_valid meta_example_env g)"
proof -
  have "unat (cd_mem (comm_data 2 3 21 64)) \<notin> set (index_valid meta_example_env meta_example_result)" by code_simp
  moreover have "cd_from (comm_data 2 3 21 64) = 2" by (simp add: comm_data_def)
  ultimately show ?thesis using meta_example_metadata meta_example_data by fastforce
qed

section \<open>Every input is listed\<close>

text \<open>An entry for an object, or for a region of it.\<close>

definition listed :: "GraphMetadata \<Rightarrow> nat \<Rightarrow> CommData3D list \<Rightarrow> uid \<Rightarrow> bool" where
  "listed g k rs u \<longleftrightarrow> (\<exists>x \<in> set rs. cd_to x = of_nat k \<and>
     (cd_mem x = of_nat u \<or> (\<exists>r. cd_mem x = of_nat r \<and> map_of (gm_region_dmem g) r = Some u)))"

lemma listed_mono: "\<lbrakk>listed g k rs u; set rs \<subseteq> set rs'\<rbrakk> \<Longrightarrow> listed g k rs' u"
  unfolding listed_def by blast

lemma opt_fold_inv:
  "\<lbrakk>opt_fold f xs s = Some s'; I s; \<And>x s s'. \<lbrakk>x \<in> set xs; I s; f x s = Some s'\<rbrakk> \<Longrightarrow> I s'\<rbrakk> \<Longrightarrow> I s'"
proof (induction xs arbitrary: s)
  case (Cons x xs)
  then obtain s1 where "f x s = Some s1" "opt_fold f xs s1 = Some s'" by (auto split: bind_splits)
  with Cons.IH [of s1] Cons.prems show ?case by (meson list.set_intros)
qed simp

definition covered_listed :: "GraphMetadata \<Rightarrow> nat \<Rightarrow> CommData3D list \<Rightarrow> uid list \<times> CommData3D list \<Rightarrow> bool" where
  "covered_listed g k rs0 s \<longleftrightarrow> set rs0 \<subseteq> set (snd s) \<and> (\<forall>u \<in> set (fst s). listed g k (snd s) u)"

lemma covered_snoc:
  assumes "covered_listed g k rs0 (c, rs)" "set c' \<subseteq> insert u (insert dm (set c))" "dm = u \<or> map_of (gm_region_dmem g) u = Some dm"
  shows "covered_listed g k rs0 (c', rs @ [comm_data f k u b])"
proof -
  have "listed g k (rs @ [comm_data f k u b]) v" if "v = u \<or> v = dm" for v
    using that assms(3) by (auto simp: listed_def comm_data_def)
  moreover have "listed g k (rs @ [comm_data f k u b]) v" if "v \<in> set c" for v
    using that assms(1) listed_mono [of g k rs v "rs @ [comm_data f k u b]"] by (auto simp: covered_listed_def)
  ultimately have "listed g k (rs @ [comm_data f k u b]) v" if "v \<in> set c'" for v using that assms(2) by blast
  with assms(1) show ?thesis by (auto simp: covered_listed_def)
qed

lemma dep_listed:
  assumes d: "dep_3d e g h ts i t d s = Some s'" and c: "covered_listed g (i + 1) rs0 s"
  shows "covered_listed g (i + 1) rs0 s'"
proof (cases "dep_skipped g (obj_uid t = obj_uid (last ts)) d")
  case True
  with c d show ?thesis by (auto simp: dep_3d_def Let_def split: if_splits)
next
  case False
  define f is_end where "f = task_nr ts d + 1" and "is_end = (obj_uid t = obj_uid (last ts))"
  from d False obtain s1 where s1: "opt_fold (mem_3d e g is_end f (i + 1) d) (common_mems g t d) s = Some s1"
    and s2: "opt_fold (region_3d e g t f (i + 1)) (output_regions g d) s1 = Some s'"
    by (auto simp: dep_3d_def Let_def f_def is_end_def split: if_splits bind_splits)
  have "covered_listed g (i + 1) rs0 s1"
    by (rule opt_fold_inv [where I = "covered_listed g (i + 1) rs0", OF s1 c])
      (auto simp: mem_3d_def Let_def split: bind_splits if_splits intro!: covered_snoc)
  then show ?thesis
    by (rule opt_fold_inv [where I = "covered_listed g (i + 1) rs0", OF s2])
      (auto simp: region_3d_def Let_def output_regions_def omap_at_def split: bind_splits if_splits intro!: covered_snoc)
qed

lemma task_listed:
  assumes t: "task_3d e g h ts i t rs = Some rs'"
  shows "set rs \<subseteq> set rs' \<and> (\<forall>u \<in> set (omap_at [] (gm_inputs g) (obj_uid t)). listed g (i + 1) rs' u)"
proof -
  let ?ins = "uset (omap_at [] (gm_inputs g) (obj_uid t))"
  from t obtain c rs1 where d: "opt_fold (dep_3d e g h ts i t) (depend_uids t) ([], rs) = Some (c, rs1)"
    and r: "opt_fold (rest_3d e g c (i + 1)) ?ins rs1 = Some rs'" by (auto simp: task_3d_def split: bind_splits)
  have c: "covered_listed g (i + 1) rs (c, rs1)"
  proof (rule opt_fold_inv [where I = "covered_listed g (i + 1) rs", OF d])
    show "covered_listed g (i + 1) rs ([], rs)" by (simp add: covered_listed_def)
  qed (rule dep_listed)
  have "set rs1 \<subseteq> set rs' \<and> (\<forall>u \<in> set ?ins. u \<in> set c \<or> listed g (i + 1) rs' u)"
    if "opt_fold (rest_3d e g c (i + 1)) xs rs1 = Some rs'" "xs = ?ins" for xs
    using that(1) unfolding that(2) [symmetric]
  proof (induction xs arbitrary: rs1)
    case (Cons u xs)
    then obtain rs2 where rs2: "rest_3d e g c (i + 1) u rs1 = Some rs2" "opt_fold (rest_3d e g c (i + 1)) xs rs2 = Some rs'"
      by (auto split: bind_splits)
    from rs2(1) have "set rs1 \<subseteq> set rs2 \<and> (u \<in> set c \<or> listed g (i + 1) rs2 u)"
      by (auto simp: rest_3d_def listed_def comm_data_def split: if_splits bind_splits)
    with Cons.IH [OF rs2(2)] listed_mono [of g "i + 1" rs2 u rs'] show ?case by auto
  qed simp
  from this [OF r refl] c listed_mono [of g "i + 1" rs1 _ rs'] show ?thesis
    by (auto simp: covered_listed_def)
qed

text \<open>Every input of every task is in the list of what moves into the task, itself or by a region of it.\<close>

theorem inputs_listed:
  assumes r: "get_3d_comm_data e g h ts = Some rs" and i: "i < length ts" and u: "u \<in> set (omap_at [] (gm_inputs g) (obj_uid (ts ! i)))"
  shows "listed g (i + 1) rs u"
proof -
  have "opt_fold (\<lambda>(i, t). task_3d e g h ts i t) xs rs0 = Some rs \<Longrightarrow> set rs0 \<subseteq> set rs \<and>
      (\<forall>(i, t) \<in> set xs. \<forall>u \<in> set (omap_at [] (gm_inputs g) (obj_uid t)). listed g (i + 1) rs u)" for xs rs0
  proof (induction xs arbitrary: rs0)
    case (Cons x xs)
    obtain j t where x: "x = (j, t)" by (cases x)
    from Cons.prems obtain rs1 where rs1: "task_3d e g h ts j t rs0 = Some rs1" "opt_fold (\<lambda>(i, t). task_3d e g h ts i t) xs rs1 = Some rs"
      by (auto simp: x split: bind_splits)
    with task_listed [OF rs1(1)] Cons.IH [OF rs1(2)] listed_mono [of g "j + 1" rs1 _ rs] show ?case by (auto simp: x)
  qed simp
  from this [OF r [unfolded get_3d_comm_data_def]]
  have "\<forall>(i, t) \<in> set (List.enumerate 0 ts). \<forall>u \<in> set (omap_at [] (gm_inputs g) (obj_uid t)). listed g (i + 1) rs u"
    by blast
  moreover have "(i, ts ! i) \<in> set (List.enumerate 0 ts)" using i by (simp add: in_set_enumerate_eq)
  ultimately show ?thesis using u by fast
qed

theorem inputs_listed_witness:
  "listed meta_example_result 3 [comm_data 0 1 5 64, comm_data 1 2 5 64, comm_data 2 3 21 64] 21"
  using inputs_listed [OF meta_example_data, of 2 21]
  by (simp add: meta_example_def meta_example_result_def omap_at_def numeral_3_eq_3)

end
