(* ===== verification/Iris_PresentTable.thy ===== *)
theory Iris_PresentTable
  imports Iris_Map Iris_Mem
begin

text \<open>
  \<^verbatim>\<open>PresentTable.cpp\<close>: which memory object is mapped to a host address. The table is a map from the first address of a block
  to its size and object; a lookup walks over it and gives the object and the offset of the address. The locale \<open>address_map\<close> is
  what the platform relies on: a lookup after an insertion or a removal, and that unmapping undoes mapping. The table keeps it as
  long as blocks that are mapped do not overlap; nothing in the table refuses one that does.
\<close>

section \<open>The contract\<close>

locale address_map =
  fixes ok :: "'t \<Rightarrow> bool"
    and get :: "size_t \<Rightarrow> 't \<Rightarrow> ('m \<times> size_t) option"
    and add :: "size_t \<Rightarrow> size_t \<Rightarrow> 'm \<Rightarrow> 't \<Rightarrow> 't option"
    and remove :: "size_t \<Rightarrow> 't \<Rightarrow> ('m \<times> 't) option"
  assumes get_start: "\<lbrakk>ok t; get a t = Some (m, off)\<rbrakk> \<Longrightarrow> get (a - off) t = Some (m, 0)"
    and get_add: "\<lbrakk>ok t; unat h + unat sz < 2 ^ 64; \<forall>b. unat b \<in> block h sz \<longrightarrow> get b t = None; add h sz m t = Some t'\<rbrakk>
      \<Longrightarrow> ok t' \<and> get a t' = (if unat a \<in> block h sz then Some (m, a - h) else get a t)"
    and get_remove: "\<lbrakk>ok t; get a t = Some (m, off)\<rbrakk> \<Longrightarrow> \<exists>t'. remove a t = Some (m, t') \<and> ok t' \<and>
      (\<forall>b. get b t' = (if \<exists>m' off'. get b t = Some (m', off') \<and> b - off' = a - off then None else get b t))"
    and remove_None: "remove a t = None \<longleftrightarrow> get a t = None"
begin

text \<open>Unmapping any address of a block just mapped gives the object back and leaves every lookup as it was.\<close>

lemma add_remove:
  assumes t: "ok t" and fits: "unat h + unat sz < 2 ^ 64" and free: "\<forall>b. unat b \<in> block h sz \<longrightarrow> get b t = None"
    and add: "add h sz m t = Some t1" and a: "unat a \<in> block h sz"
  shows "\<exists>t2. remove a t1 = Some (m, t2) \<and> ok t2 \<and> (\<forall>b. get b t2 = get b t)"
proof -
  note g = get_add [OF t fits free add]
  from get_remove [of t1 a m "a - h"] g [of a] a obtain t2 where t2: "remove a t1 = Some (m, t2)" "ok t2"
    and b: "\<And>b. get b t2 = (if \<exists>m' off'. get b t1 = Some (m', off') \<and> b - off' = h then None else get b t1)" by auto
  have h: "unat h \<in> block h sz" using a by (simp add: block_def)
  have "get b t2 = get b t" for b
  proof (cases "unat b \<in> block h sz")
    case True
    with g [of b] b [of b] free show ?thesis by auto
  next
    case False
    have "b - off' \<noteq> h" if "get b t = Some (m', off')" for m' off'
      using get_start [OF t that] free h by auto
    with False g [of b] b [of b] show ?thesis by auto
  qed
  with t2 show ?thesis by blast
qed

end

section \<open>The table\<close>

record PresentTableEntity =
  pe_size :: size_t
  pe_mem :: uid

type_synonym PresentTable = "(size_t, PresentTableEntity) omap"

definition in_entry :: "size_t \<Rightarrow> size_t \<times> PresentTableEntity \<Rightarrow> bool" where
  "in_entry input p \<longleftrightarrow> fst p \<le> input \<and> input < fst p + pe_size (snd p)"

definition PresentTable_Add :: "size_t \<Rightarrow> size_t \<Rightarrow> uid \<Rightarrow> PresentTable \<Rightarrow> PresentTable \<times> int" where
  "PresentTable_Add host sz mem t =
     (if map_of t host \<noteq> None then (t, IRIS_ERROR)
      else (omap_put host \<lparr>pe_size = sz, pe_mem = mem\<rparr> t, IRIS_SUCCESS))"

fun PresentTable_Get :: "size_t \<Rightarrow> PresentTable \<Rightarrow> (uid \<times> size_t) option" where
  "PresentTable_Get host [] = None"
| "PresentTable_Get host (p # t) =
     (if in_entry host p then Some (pe_mem (snd p), host - fst p) else PresentTable_Get host t)"

fun PresentTable_Remove :: "size_t \<Rightarrow> PresentTable \<Rightarrow> (uid \<times> PresentTable) option" where
  "PresentTable_Remove host [] = None"
| "PresentTable_Remove host (p # t) =
     (if in_entry host p then Some (pe_mem (snd p), t) else map_option (\<lambda>(m, t). (m, p # t)) (PresentTable_Remove host t))"

text \<open>No block runs over the end of the address space, and no two share an address.\<close>

definition entry_block :: "size_t \<times> PresentTableEntity \<Rightarrow> nat set" where
  "entry_block p = block (fst p) (pe_size (snd p))"

definition present_ok :: "PresentTable \<Rightarrow> bool" where
  "present_ok t \<longleftrightarrow> sorted_wrt (<) (map fst t) \<and> (\<forall>p \<in> set t. unat (fst p) + unat (pe_size (snd p)) < 2 ^ 64) \<and>
     pairwise (\<lambda>p q. disjnt (entry_block p) (entry_block q)) (set t)"

lemma present_ok_Nil [simp]: "present_ok []" by (simp add: present_ok_def)

lemma in_entry_iff: "unat (fst p) + unat (pe_size (snd p)) < 2 ^ 64 \<Longrightarrow> in_entry a p \<longleftrightarrow> unat a \<in> entry_block p"
  by (auto simp: in_entry_def entry_block_def block_def word_le_nat_alt word_less_nat_alt unat_word_ariths)

lemma present_entry:
  "\<lbrakk>present_ok t; p \<in> set t; q \<in> set t; x \<in> entry_block p; x \<in> entry_block q\<rbrakk> \<Longrightarrow> p = q"
  unfolding present_ok_def pairwise_def disjnt_def by blast

lemma present_tail: "present_ok (p # t) \<Longrightarrow> present_ok t"
  by (auto simp: present_ok_def intro: pairwise_subset)

text \<open>A lookup finds the block that holds the address.\<close>

lemma Get_iff:
  assumes "present_ok t"
  shows "PresentTable_Get a t = Some (m, off) \<longleftrightarrow>
    (\<exists>p \<in> set t. unat a \<in> entry_block p \<and> m = pe_mem (snd p) \<and> off = a - fst p)"
  using assms
proof (induction t)
  case (Cons p t)
  have c: "in_entry a p \<longleftrightarrow> unat a \<in> entry_block p" using Cons.prems by (auto simp: present_ok_def intro!: in_entry_iff)
  show ?case
  proof (cases "in_entry a p")
    case True
    with c present_entry [OF Cons.prems, of p] show ?thesis by auto
  next
    case False
    with c Cons.IH [OF present_tail [OF Cons.prems]] show ?thesis by auto
  qed
qed simp

lemma Get_eqI:
  assumes "present_ok t" "present_ok t'" "\<And>p. unat a \<in> entry_block p \<Longrightarrow> p \<in> set t \<longleftrightarrow> p \<in> set t'"
  shows "PresentTable_Get a t = PresentTable_Get a t'"
proof -
  have "PresentTable_Get a t = Some x \<longleftrightarrow> PresentTable_Get a t' = Some x" for x
    using assms by (cases x) (auto simp: Get_iff)
  then show ?thesis by (metis not_None_eq)
qed

lemma Get_None: "present_ok t \<Longrightarrow> PresentTable_Get a t = None \<longleftrightarrow> (\<forall>p \<in> set t. unat a \<notin> entry_block p)"
  using Get_iff [of t a] by (metis not_None_eq prod.exhaust)

lemma block_lt: "x \<in> block h sz \<Longrightarrow> unat h + unat sz < 2 ^ 64 \<Longrightarrow> unat (of_nat x :: size_t) = x"
  by (auto simp: block_def unat_of_nat)

lemma Remove_iff:
  assumes "present_ok t" "PresentTable_Get a t = Some (m, off)"
  shows "\<exists>p \<in> set t. unat a \<in> entry_block p \<and> off = a - fst p \<and> PresentTable_Remove a t = Some (m, omap_erase (fst p) t)"
  using assms
proof (induction t)
  case (Cons p t)
  have c: "in_entry a p \<longleftrightarrow> unat a \<in> entry_block p" using Cons.prems(1) by (auto simp: present_ok_def intro!: in_entry_iff)
  have d: "\<forall>q \<in> set t. fst p < fst q" using Cons.prems(1) by (auto simp: present_ok_def)
  then have "filter (\<lambda>q. fst q \<noteq> fst p) t = t" by (auto simp: filter_id_conv)
  with c d Cons.IH [OF present_tail [OF Cons.prems(1)]] Cons.prems(2) show ?case
    by (cases "in_entry a p") (fastforce simp: omap_erase_def)+
qed simp

lemma Remove_None: "PresentTable_Remove a t = None \<longleftrightarrow> PresentTable_Get a t = None"
  by (induction t) auto

lemma present_erase:
  assumes "present_ok t"
  shows "present_ok (omap_erase k t)"
  using assms omap_erase_sorted [of t k] by (auto simp: present_ok_def intro: pairwise_subset)

definition PresentTable_insert :: "size_t \<Rightarrow> size_t \<Rightarrow> uid \<Rightarrow> PresentTable \<Rightarrow> PresentTable option" where
  "PresentTable_insert h sz m t = (case PresentTable_Add h sz m t of (t', s) \<Rightarrow> if s = IRIS_SUCCESS then Some t' else None)"

lemma insert_set:
  assumes "present_ok t" "PresentTable_insert h sz m t = Some t'"
  shows "set t' = insert (h, \<lparr>pe_size = sz, pe_mem = m\<rparr>) (set t) \<and> sorted_wrt (<) (map fst t')"
proof -
  have t': "t' = omap_put h \<lparr>pe_size = sz, pe_mem = m\<rparr> t" "map_of t h = None"
    using assms(2) by (auto simp: PresentTable_insert_def PresentTable_Add_def IRIS_SUCCESS_def IRIS_ERROR_def split: if_splits)
  then have "{p \<in> set t. fst p \<noteq> h} = set t" by (auto simp: map_of_eq_None_iff)
  with t' assms(1) show ?thesis by (simp add: omap_put_set omap_put_sorted present_ok_def)
qed

lemma insert_ok:
  assumes t: "present_ok t" and fits: "unat h + unat sz < 2 ^ 64" and free: "\<forall>b. unat b \<in> block h sz \<longrightarrow> PresentTable_Get b t = None"
    and i: "PresentTable_insert h sz m t = Some t'"
  shows "present_ok t'"
proof -
  have "disjnt (block h sz) (entry_block p)" if "p \<in> set t" for p
    unfolding disjnt_iff
  proof (intro allI notI, elim conjE)
    fix x assume x: "x \<in> block h sz" "x \<in> entry_block p"
    then have "unat (of_nat x :: size_t) = x" using block_lt fits by blast
    with x free t that show False by (metis Get_None)
  qed
  then have "pairwise (\<lambda>p q. disjnt (entry_block p) (entry_block q)) (set t')"
    using t insert_set [OF t i] by (auto simp: present_ok_def pairwise_insert entry_block_def disjnt_sym)
  with t fits insert_set [OF t i] show ?thesis by (auto simp: present_ok_def)
qed

lemma insert_Get:
  assumes t: "present_ok t" and t': "present_ok t'" and i: "PresentTable_insert h sz m t = Some t'"
  shows "PresentTable_Get a t' = (if unat a \<in> block h sz then Some (m, a - h) else PresentTable_Get a t)"
proof (cases "unat a \<in> block h sz")
  case True
  then have "PresentTable_Get a t' = Some (m, a - h)"
    unfolding Get_iff [OF t'] using insert_set [OF t i] by (auto simp: entry_block_def)
  with True show ?thesis by simp
next
  case False
  then have "PresentTable_Get a t' = PresentTable_Get a t"
    using insert_set [OF t i] by (intro Get_eqI [OF t' t]) (auto simp: entry_block_def)
  with False show ?thesis by simp
qed

lemma erase_Get:
  assumes t: "present_ok t" and p: "p \<in> set t" "unat a \<in> entry_block p"
  shows "PresentTable_Get b (omap_erase (fst p) t) =
    (if \<exists>m off. PresentTable_Get b t = Some (m, off) \<and> b - off = fst p then None else PresentTable_Get b t)"
proof (cases "unat b \<in> entry_block p")
  case True
  then have "\<exists>m off. PresentTable_Get b t = Some (m, off) \<and> b - off = fst p"
    using p(1) by (intro exI [of _ "pe_mem (snd p)"] exI [of _ "b - fst p"]) (auto simp: Get_iff [OF t])
  moreover have "PresentTable_Get b (omap_erase (fst p) t) = None"
    unfolding Get_None [OF present_erase [OF t]]
  proof
    fix q assume "q \<in> set (omap_erase (fst p) t)"
    then show "unat b \<notin> entry_block q" using present_entry [OF t p(1), of q "unat b"] True by auto
  qed
  ultimately show ?thesis by simp
next
  case False
  have key: "q = p" if "q \<in> set t" "fst q = fst p" for q
    using that p(1) t by (metis present_ok_def sorted_wrt_map strict_sorted_iff distinct_map inj_onD list.map_ident)
  then have "\<not> (\<exists>m off. PresentTable_Get b t = Some (m, off) \<and> b - off = fst p)" unfolding Get_iff [OF t] using False key by fastforce
  moreover have "PresentTable_Get b (omap_erase (fst p) t) = PresentTable_Get b t"
    by (intro Get_eqI [OF present_erase [OF t] t]) (simp, metis False key)
  ultimately show ?thesis by (simp only: if_False)
qed

interpretation present: address_map present_ok PresentTable_Get PresentTable_insert PresentTable_Remove
proof (unfold_locales, goal_cases)
  case (1 t a m off)
  then obtain p where p: "p \<in> set t" "unat a \<in> entry_block p" "m = pe_mem (snd p)" "off = a - fst p" by (auto simp: Get_iff)
  then have "unat (fst p) \<in> entry_block p" by (auto simp: entry_block_def block_def)
  with p 1 show ?case by (auto simp: Get_iff)
next
  case (2 t h sz m t' a)
  then show ?case using insert_ok insert_Get by blast
next
  case (3 t a m off)
  from Remove_iff [OF 3] obtain p where p: "p \<in> set t" "unat a \<in> entry_block p" "off = a - fst p"
    "PresentTable_Remove a t = Some (m, omap_erase (fst p) t)" by blast
  with erase_Get [OF 3(1) p(1,2)] present_erase [OF 3(1)] show ?case by simp
next
  case (4 a t)
  then show ?case by (rule Remove_None)
qed

section \<open>What mapping means\<close>

text \<open>After a block that is free has been mapped, its addresses are found with their offsets; unmapping any of them gives the
  object back and leaves every lookup as it was before.\<close>

theorem map_unmap:
  assumes "present_ok t" "unat h + unat sz < 2 ^ 64" "\<forall>b. unat b \<in> block h sz \<longrightarrow> PresentTable_Get b t = None"
    "PresentTable_Add h sz m t = (t1, IRIS_SUCCESS)" "unat a \<in> block h sz"
  shows "PresentTable_Get a t1 = Some (m, a - h) \<and>
    (\<exists>t2. PresentTable_Remove a t1 = Some (m, t2) \<and> present_ok t2 \<and> (\<forall>b. PresentTable_Get b t2 = PresentTable_Get b t))"
proof -
  have i: "PresentTable_insert h sz m t = Some t1" by (simp add: PresentTable_insert_def assms(4))
  from present.get_add [OF assms(1-3) i, of a] present.add_remove [OF assms(1-3) i assms(5)] assms(5) show ?thesis by simp
qed

theorem map_unmap_witness:
  "PresentTable_Get 4100 [(4096, \<lparr>pe_size = 64, pe_mem = 7\<rparr>)] = Some (7, 4) \<and>
    (\<exists>t2. PresentTable_Remove 4100 [(4096, \<lparr>pe_size = 64, pe_mem = 7\<rparr>)] = Some (7, t2) \<and> present_ok t2 \<and>
      (\<forall>b. PresentTable_Get b t2 = PresentTable_Get b []))"
  using map_unmap [of "[]" 4096 64 7 "[(4096, \<lparr>pe_size = 64, pe_mem = 7\<rparr>)]" 4100]
  by (simp add: PresentTable_Add_def block_def)

lemma put_behind:
  assumes "sorted_wrt (<) (map fst t)" "p \<in> set t" "in_entry h p" "fst p < h"
  shows "PresentTable_Get h (omap_put h e t) = PresentTable_Get h t"
  using assms
proof (induction t)
  case (Cons q t)
  have "fst q < h" using Cons.prems by auto
  with Cons show ?case by (cases q) auto
qed simp

text \<open>A block that begins inside a mapped one is accepted, but where they overlap only the first is found.\<close>

theorem overlapping_map:
  assumes t: "present_ok t" and p: "(s, e) \<in> set t" and h: "s < h" "h < s + pe_size e" and new: "h \<notin> fst ` set t"
  shows "snd (PresentTable_Add h sz m t) = IRIS_SUCCESS \<and>
    PresentTable_Get h (fst (PresentTable_Add h sz m t)) = Some (pe_mem e, h - s)"
proof -
  have k: "map_of t h = None" using new by (simp add: map_of_eq_None_iff)
  have c: "in_entry h (s, e)" using h by (simp add: in_entry_def)
  have "unat h \<in> entry_block (s, e)" using c t p in_entry_iff [of "(s, e)" h] by (auto simp: present_ok_def)
  then have "PresentTable_Get h t = Some (pe_mem e, h - s)" using p by (auto simp: Get_iff [OF t])
  moreover have "PresentTable_Get h (omap_put h \<lparr>pe_size = sz, pe_mem = m\<rparr> t) = PresentTable_Get h t"
    by (rule put_behind [OF _ p c]) (use t h in \<open>auto simp: present_ok_def\<close>)
  ultimately show ?thesis using k by (simp add: PresentTable_Add_def)
qed

theorem overlapping_map_witness:
  "PresentTable_Get 4112 (fst (PresentTable_Add 4112 64 8 [(4096, \<lparr>pe_size = 64, pe_mem = 7\<rparr>)])) = Some (7, 16)"
proof -
  have "present_ok [(4096, \<lparr>pe_size = 64, pe_mem = 7\<rparr>)]" by (simp add: present_ok_def)
  from overlapping_map [OF this, of 4096 "\<lparr>pe_size = 64, pe_mem = 7\<rparr>" 4112 64 8] show ?thesis by simp
qed

end
