(* ===== verification/Iris_Message.thy ===== *)
theory Iris_Message
  imports Iris_Copy
begin

text \<open>
  The message buffer of \<^verbatim>\<open>Message.h\<close> and \<^verbatim>\<open>Message.cpp\<close>, which the hub, its clients and the profilers share: a fixed array
  of bytes and the position of the next field, written or read. The array is declared with 260 bytes; with the four bytes of
  padding before \<open>offset_\<close> (which is aligned to 8) the object holds \<open>MSG_BYTES\<close> of them, and these are the bytes of the model,
  since the message queue moves 8 bytes of type and 256 of text from and to the beginning of the array. The constructor does not initialise
  the array: its first content is an argument. A field is stored as its little-endian bytes; a \<open>float\<close>, a \<open>double\<close> and a pointer
  are their bit patterns.
\<close>

section \<open>Little-endian fields\<close>

definition le_bytes :: "nat \<Rightarrow> 'a::len word \<Rightarrow> byte list" where
  "le_bytes n w = map (\<lambda>i. ucast (drop_bit (8 * i) w)) [0..<n]"

primrec le_word :: "byte list \<Rightarrow> 'a::len word" where
  "le_word [] = 0"
| "le_word (b # bs) = (ucast b OR push_bit 8 (le_word bs))"

lemma length_le_bytes [simp]: "length (le_bytes n w) = n"
  by (simp add: le_bytes_def)

lemma bit_le_word:
  "bit (le_word bs :: 'a::len word) k \<longleftrightarrow> k < LENGTH('a) \<and> k < 8 * length bs \<and> bit (bs ! (k div 8)) (k mod 8)"
proof (induction bs arbitrary: k)
  case (Cons b bs)
  show ?case
  proof (cases "k < 8")
    case True
    then show ?thesis by (auto simp: bit_or_iff bit_ucast_iff bit_push_bit_iff dest: bit_imp_le_length)
  next
    case False
    then have "k div 8 = Suc ((k - 8) div 8)" "k mod 8 = (k - 8) mod 8"
      by (simp_all add: le_div_geq le_mod_geq)
    moreover have "\<not> bit (ucast b :: 'a word) k" using False by (auto simp: bit_ucast_iff dest: bit_imp_le_length)
    ultimately show ?thesis using False Cons.IH [of "k - 8"] by (auto simp: bit_or_iff bit_push_bit_iff)
  qed
qed simp

lemma le_word_bytes: "LENGTH('a) \<le> 8 * n \<Longrightarrow> le_word (le_bytes n w) = (w :: 'a::len word)"
  by (rule bit_eqI)
     (auto simp: bit_le_word le_bytes_def bit_ucast_iff bit_drop_bit_eq mult_div_mod_eq less_mult_imp_div_less
       dest: bit_imp_le_length)

section \<open>The buffer\<close>

record message =
  m_buf :: "byte list"
  m_off :: size_t

definition IRIS_MSG_SIZE :: size_t where "IRIS_MSG_SIZE = 256"
definition MSG_BYTES :: nat where "MSG_BYTES = 264"

definition Message_Write :: "byte list \<Rightarrow> size_t \<Rightarrow> message \<Rightarrow> (bool \<times> message) option" where
  "Message_Write v sz m =
     (if IRIS_MSG_SIZE < m_off m + sz then Some (False, m)
      else map_option (\<lambda>b. (True, m\<lparr>m_buf := b, m_off := m_off m + sz\<rparr>))
             (memcpy (m_buf m) (unat (m_off m)) v 0 (unat sz)))"

definition WriteInt :: "32 word \<Rightarrow> message \<Rightarrow> (bool \<times> message) option" where
  "WriteInt v = Message_Write (le_bytes 4 v) 4"

definition WriteHeader :: "32 word \<Rightarrow> message \<Rightarrow> (bool \<times> message) option" where "WriteHeader = WriteInt"
definition WritePID :: "32 word \<Rightarrow> message \<Rightarrow> (bool \<times> message) option" where "WritePID = WriteInt"

definition WriteBool :: "bool \<Rightarrow> message \<Rightarrow> (bool \<times> message) option" where
  "WriteBool v = Message_Write [if v then 1 else 0] 1"

definition WriteChar :: "byte \<Rightarrow> message \<Rightarrow> (bool \<times> message) option" where
  "WriteChar v = Message_Write [v] 1"

definition WriteUInt :: "32 word \<Rightarrow> message \<Rightarrow> (bool \<times> message) option" where
  "WriteUInt v = Message_Write (le_bytes 4 v) 4"

definition WriteLong :: "64 word \<Rightarrow> message \<Rightarrow> (bool \<times> message) option" where
  "WriteLong v = Message_Write (le_bytes 8 v) 8"

definition WriteULong :: "64 word \<Rightarrow> message \<Rightarrow> (bool \<times> message) option" where
  "WriteULong v = Message_Write (le_bytes 8 v) 8"

definition WriteFloat :: "32 word \<Rightarrow> message \<Rightarrow> (bool \<times> message) option" where
  "WriteFloat v = Message_Write (le_bytes 4 v) 4"

definition WriteDouble :: "64 word \<Rightarrow> message \<Rightarrow> (bool \<times> message) option" where
  "WriteDouble v = Message_Write (le_bytes 8 v) 8"

definition WritePtr :: "64 word \<Rightarrow> message \<Rightarrow> (bool \<times> message) option" where
  "WritePtr v = Message_Write (le_bytes 8 v) 8"

text \<open>A C string is its bytes before the terminating zero.\<close>

definition WriteString :: "byte list \<Rightarrow> message \<Rightarrow> (bool \<times> message) option" where
  "WriteString v = Message_Write v (of_nat (length v))"

text \<open>\<open>Read\<close> returns a pointer into the buffer, here its index, and does not look at the size of the buffer; the readers load the
  bytes behind it.\<close>

definition Message_Read :: "size_t \<Rightarrow> message \<Rightarrow> size_t \<times> message" where
  "Message_Read sz m = (m_off m, m\<lparr>m_off := m_off m + sz\<rparr>)"

definition load :: "nat \<Rightarrow> size_t \<times> message \<Rightarrow> (byte list \<times> message) option" where
  "load n pm = (case pm of (p, m) \<Rightarrow>
     if unat p + n \<le> length (m_buf m) then Some (take n (drop (unat p) (m_buf m)), m) else None)"

definition ReadInt :: "message \<Rightarrow> (32 word \<times> message) option" where
  "ReadInt m = map_option (\<lambda>(bs, m). (le_word bs, m)) (load 4 (Message_Read 4 m))"

definition ReadHeader :: "message \<Rightarrow> (32 word \<times> message) option" where "ReadHeader = ReadInt"
definition ReadPID :: "message \<Rightarrow> (32 word \<times> message) option" where "ReadPID = ReadInt"

definition ReadBool :: "message \<Rightarrow> (bool \<times> message) option" where
  "ReadBool m = map_option (\<lambda>(bs, m). (hd bs \<noteq> 0, m)) (load 1 (Message_Read 1 m))"

definition ReadUInt :: "message \<Rightarrow> (32 word \<times> message) option" where
  "ReadUInt m = map_option (\<lambda>(bs, m). (le_word bs, m)) (load 4 (Message_Read 4 m))"

definition ReadLong :: "message \<Rightarrow> (64 word \<times> message) option" where
  "ReadLong m = map_option (\<lambda>(bs, m). (le_word bs, m)) (load 8 (Message_Read 8 m))"

definition ReadULong :: "message \<Rightarrow> (64 word \<times> message) option" where
  "ReadULong m = map_option (\<lambda>(bs, m). (le_word bs, m)) (load 8 (Message_Read 8 m))"

definition ReadFloat :: "message \<Rightarrow> (32 word \<times> message) option" where
  "ReadFloat m = map_option (\<lambda>(bs, m). (le_word bs, m)) (load 4 (Message_Read 4 m))"

definition ReadDouble :: "message \<Rightarrow> (64 word \<times> message) option" where
  "ReadDouble m = map_option (\<lambda>(bs, m). (le_word bs, m)) (load 8 (Message_Read 8 m))"

definition ReadPtr :: "message \<Rightarrow> (64 word \<times> message) option" where
  "ReadPtr m = map_option (\<lambda>(bs, m). (le_word bs, m)) (load 8 (Message_Read 8 m))"

definition ReadString_len :: "size_t \<Rightarrow> message \<Rightarrow> (byte list \<times> message) option" where
  "ReadString_len len m = load (unat len) (Message_Read len m)"

text \<open>\<open>ReadString()\<close> takes the length from \<open>strlen\<close>, which needs a zero byte in the rest of the buffer.\<close>

definition ReadString :: "message \<Rightarrow> (byte list \<times> message) option" where
  "ReadString m =
     (let r = drop (unat (m_off m)) (m_buf m) in
      if 0 \<in> set r then ReadString_len (of_nat (length (takeWhile (\<lambda>b. b \<noteq> 0) r))) m else None)"

definition free_buf_size :: "message \<Rightarrow> size_t" where
  "free_buf_size m = IRIS_MSG_SIZE - m_off m"

definition Message_Clear :: "message \<Rightarrow> message" where
  "Message_Clear m = m\<lparr>m_off := 0\<rparr>"

text \<open>The constructor; \<open>g\<close> is what the memory of the object held.\<close>

definition Message_new :: "byte list \<Rightarrow> 64 word \<Rightarrow> message option" where
  "Message_new g header =
     (let m = \<lparr>m_buf = g, m_off = 0\<rparr> in
      if 0 \<le> sint header then map_option snd (WriteHeader (ucast header) m) else Some m)"

section \<open>What is written and what is read\<close>

definition m_ok :: "message \<Rightarrow> bool" where
  "m_ok m \<longleftrightarrow> length (m_buf m) = MSG_BYTES \<and> unat (m_off m) \<le> 256"

definition written :: "message \<Rightarrow> byte list" where
  "written m = take (unat (m_off m)) (m_buf m)"

text \<open>The bytes that the readers meet next.\<close>

definition unread :: "message \<Rightarrow> byte list \<Rightarrow> bool" where
  "unread m bs \<longleftrightarrow> unat (m_off m) + length bs \<le> length (m_buf m) \<and> length (m_buf m) = MSG_BYTES \<and>
     take (length bs) (drop (unat (m_off m)) (m_buf m)) = bs"

lemma length_written: "m_ok m \<Longrightarrow> length (written m) = unat (m_off m)"
  by (simp add: m_ok_def written_def MSG_BYTES_def)

lemma unat_off_add: "unat a + unat b < 2 ^ 64 \<Longrightarrow> unat (a + b :: size_t) = unat a + unat b"
  by (simp add: unat_word_ariths)

lemma Message_Write_ok:
  assumes "m_ok m" "length v = unat sz" "unat (m_off m) + unat sz \<le> 256"
  shows "\<exists>m'. Message_Write v sz m = Some (True, m') \<and> m_ok m' \<and> written m' = written m @ v \<and>
    unat (m_off m') = unat (m_off m) + length v"
proof -
  have u: "unat (m_off m + sz) = unat (m_off m) + unat sz" using assms(3) by (intro unat_off_add) simp
  then have "\<not> IRIS_MSG_SIZE < m_off m + sz" using assms(3) by (simp add: IRIS_MSG_SIZE_def word_less_nat_alt)
  then show ?thesis
    using assms u by (auto simp: Message_Write_def memcpy_def m_ok_def written_def MSG_BYTES_def)
qed

lemma Message_Write_full:
  assumes "256 < unat (m_off m) + unat sz" "unat (m_off m) + unat sz < 2 ^ 64"
  shows "Message_Write v sz m = Some (False, m)"
  using assms unat_off_add [of "m_off m" sz] by (simp add: Message_Write_def IRIS_MSG_SIZE_def word_less_nat_alt)

lemma unread_load:
  assumes "unread m (bs @ rest)" "length bs = unat sz" "n = length bs"
  shows "load n (Message_Read sz m) = Some (bs, m\<lparr>m_off := m_off m + sz\<rparr>)" "unread (m\<lparr>m_off := m_off m + sz\<rparr>) rest"
proof -
  have b: "unat (m_off m) + length (bs @ rest) \<le> length (m_buf m)" "length (m_buf m) = MSG_BYTES"
    and t: "take (length (bs @ rest)) (drop (unat (m_off m)) (m_buf m)) = bs @ rest"
    using assms(1) by (auto simp: unread_def)
  have u: "unat (m_off m + sz) = unat (m_off m) + unat sz" using b assms(2) by (intro unat_off_add) (simp add: MSG_BYTES_def)
  have t1: "take (length bs) (drop (unat (m_off m)) (m_buf m)) = bs" using arg_cong [OF t, of "take (length bs)"] by simp
  have t2: "take (length rest) (drop (length bs) (drop (unat (m_off m)) (m_buf m))) = rest"
    using arg_cong [OF t, of "drop (length bs)"] by (simp only: take_drop) (simp add: ac_simps)
  show "load n (Message_Read sz m) = Some (bs, m\<lparr>m_off := m_off m + sz\<rparr>)"
    using b t1 assms(3) by (simp add: load_def Message_Read_def)
  show "unread (m\<lparr>m_off := m_off m + sz\<rparr>) rest"
    using b u assms(2) t2 by (simp add: unread_def add.commute)
qed

lemma unread_written: "m_ok m \<Longrightarrow> unread (m\<lparr>m_off := 0\<rparr>) (written m)"
  by (simp add: unread_def written_def m_ok_def MSG_BYTES_def min_def)

lemma unread_append: "unread m (bs @ cs) \<Longrightarrow> unread m bs"
  by (auto simp: unread_def dest: arg_cong [where f = "take (length bs)"])

section \<open>Kinds of fields\<close>

text \<open>A pair of operations that writes and reads one kind of field, and what that gives: the reader gets back the value that was written
  and goes on behind it.\<close>

locale message_field =
  fixes put :: "'a \<Rightarrow> message \<Rightarrow> (bool \<times> message) option" and get :: "message \<Rightarrow> ('a \<times> message) option"
    and enc :: "'a \<Rightarrow> byte list" and dec :: "byte list \<Rightarrow> 'a" and width :: nat
  assumes put: "put v m = Message_Write (enc v) (of_nat width) m"
    and get: "get m = map_option (\<lambda>(bs, m). (dec bs, m)) (load width (Message_Read (of_nat width) m))"
    and enc_length: "length (enc v) = width"
    and dec_enc: "dec (enc v) = v"
    and width_le: "width \<le> 256"
begin

lemma unat_width: "unat (of_nat width :: size_t) = width"
  using width_le by (simp add: unat_of_nat take_bit_nat_eq_self_iff)

lemma put_ok:
  assumes "m_ok m" "unat (m_off m) + width \<le> 256"
  shows "\<exists>m'. put v m = Some (True, m') \<and> m_ok m' \<and> written m' = written m @ enc v \<and> unat (m_off m') = unat (m_off m) + width"
  using Message_Write_ok [OF assms(1), of "enc v" "of_nat width"] assms(2) unfolding put enc_length unat_width by blast

lemma put_full: "unat (m_off m) \<le> 256 \<Longrightarrow> 256 < unat (m_off m) + width \<Longrightarrow> put v m = Some (False, m)"
  unfolding put by (rule Message_Write_full) (use width_le in \<open>simp_all add: unat_width\<close>)

lemma get_ok:
  assumes "unread m (enc v @ rest)"
  shows "\<exists>m'. get m = Some (v, m') \<and> unread m' rest"
proof -
  have l: "length (enc v) = unat (of_nat width :: size_t)" "width = length (enc v)" by (simp_all only: enc_length unat_width)
  show ?thesis using unread_load [OF assms l] unfolding get by (auto simp only: option.map prod.case dec_enc)
qed

lemma put_get:
  assumes "m_ok m" "unat (m_off m) + width \<le> 256" "m_off m = 0"
  shows "\<exists>m' m''. put v m = Some (True, m') \<and> get (Message_Clear m') = Some (v, m'')"
proof -
  from put_ok [OF assms(1,2)] obtain m' where m': "put v m = Some (True, m')" "m_ok m'" "written m' = written m @ enc v" by blast
  with assms(3) have "unread (Message_Clear m') (enc v @ [])"
    using unread_written [OF m'(2)] by (simp add: written_def Message_Clear_def)
  from get_ok [OF this] m'(1) show ?thesis by auto
qed

end

lemma le_word_bytes4: "le_word (le_bytes 4 w) = (w :: 32 word)" and le_word_bytes8: "le_word (le_bytes 8 x) = (x :: 64 word)"
  by (simp_all add: le_word_bytes)

lemmas message_defs = WriteInt_def WriteHeader_def WritePID_def WriteBool_def WriteChar_def WriteUInt_def WriteLong_def WriteULong_def
  WriteFloat_def WriteDouble_def WritePtr_def ReadInt_def ReadHeader_def ReadPID_def ReadBool_def ReadUInt_def ReadLong_def
  ReadULong_def ReadFloat_def ReadDouble_def ReadPtr_def

interpretation f_int: message_field WriteInt ReadInt "le_bytes 4" le_word 4
  by unfold_locales (simp_all add: message_defs le_word_bytes4 fun_eq_iff)

interpretation f_uint: message_field WriteUInt ReadUInt "le_bytes 4" le_word 4
  by unfold_locales (simp_all add: message_defs le_word_bytes4)

interpretation f_long: message_field WriteLong ReadLong "le_bytes 8" le_word 8
  by unfold_locales (simp_all add: message_defs le_word_bytes8)

interpretation f_ulong: message_field WriteULong ReadULong "le_bytes 8" le_word 8
  by unfold_locales (simp_all add: message_defs le_word_bytes8)

interpretation f_float: message_field WriteFloat ReadFloat "le_bytes 4" le_word 4
  by unfold_locales (simp_all add: message_defs le_word_bytes4)

interpretation f_double: message_field WriteDouble ReadDouble "le_bytes 8" le_word 8
  by unfold_locales (simp_all add: message_defs le_word_bytes8)

interpretation f_ptr: message_field WritePtr ReadPtr "le_bytes 8" le_word 8
  by unfold_locales (simp_all add: message_defs le_word_bytes8)

interpretation f_bool: message_field WriteBool ReadBool "\<lambda>v. [if v then 1 else 0]" "\<lambda>bs. hd bs \<noteq> 0" 1
  by unfold_locales (simp_all add: message_defs)

end
