(* ===== verification/Iris_Hub.thy ===== *)
theory Iris_Hub
  imports Iris_Message Iris_Map Iris_Defs "HOL-Library.Monad_Syntax"
begin

text \<open>
  The hub, the daemon of \<^verbatim>\<open>Hub.cpp\<close> that counts the tasks of all programs on each device, and its clients of
  \<^verbatim>\<open>HubClient.cpp\<close>, one in the scheduler of every program. Clients send requests through one System V message queue and read the replies
  from a FIFO of their own; \<open>USE_HUB\<close> is set. The operating system is modelled by what these calls document: the message queue and the FIFOs are
  in order and unbounded, an open takes the lowest free descriptor, a message whose type is not positive is refused, a write of 256 bytes to
  a FIFO is not split. A process identifier is a \<open>pid_t\<close>, a 32-bit word. A call that blocks has no step.
\<close>

section \<open>State\<close>

type_synonym pid = "32 word"

datatype chan = Std | Fifo_end pid

record os =
  mq_file :: bool
  mq :: "byte list list"
  fifo :: "pid \<Rightarrow> byte list list option"
  hub_fds :: "chan option list"

record hub =
  hb_running :: bool
  hb_ndevs :: "32 word"
  hb_ntasks :: "size_t list"
  hb_fifos :: "(pid, int) omap"

definition Hub_new :: hub where
  "Hub_new = \<lparr>hb_running = False, hb_ndevs = 0, hb_ntasks = replicate (nat IRIS_MAX_NDEVS) 0, hb_fifos = []\<rparr>"

record client =
  cl_ndevs :: "32 word"
  cl_pid :: pid
  cl_fifo :: bool
  cl_available :: bool
  cl_stop_hub :: bool

text \<open>The constructor; the scheduler's number of devices, or none for the tools that only talk to the hub.\<close>

definition HubClient_new :: "pid \<Rightarrow> 32 word option \<Rightarrow> client" where
  "HubClient_new pid scheduler =
     \<lparr>cl_ndevs = (case scheduler of None \<Rightarrow> -1 | Some n \<Rightarrow> n), cl_pid = pid, cl_fifo = False, cl_available = False, cl_stop_hub = False\<rparr>"

section \<open>Operating system\<close>

definition msgsnd :: "message \<Rightarrow> os \<Rightarrow> int \<times> os" where
  "msgsnd m os = (if 0 < sint (le_word (take 8 (m_buf m)) :: 64 word) then (0, os\<lparr>mq := mq os @ [m_buf m]\<rparr>) else (-1, os))"

definition fd_free :: "chan option list \<Rightarrow> nat" where
  "fd_free fds = (case find_index (\<lambda>c. c = None) fds of None \<Rightarrow> length fds | Some i \<Rightarrow> i)"

definition fd_chan :: "int \<Rightarrow> chan option list \<Rightarrow> chan option" where
  "fd_chan fd fds = (if 0 \<le> fd \<and> nat fd < length fds then fds ! nat fd else None)"

definition os_open :: "pid \<Rightarrow> os \<Rightarrow> int \<times> os" where
  "os_open p os =
     (case fifo os p of
        None \<Rightarrow> (-1, os)
      | Some _ \<Rightarrow>
          (let i = fd_free (hub_fds os); c = Some (Fifo_end p) in
           (int i, os\<lparr>hub_fds := if i < length (hub_fds os) then (hub_fds os)[i := c] else hub_fds os @ [c]\<rparr>)))"

definition os_close :: "int \<Rightarrow> os \<Rightarrow> os" where
  "os_close fd os = (if fd_chan fd (hub_fds os) = None then os else os\<lparr>hub_fds := (hub_fds os)[nat fd := None]\<rparr>)"

definition os_remove :: "pid \<Rightarrow> os \<Rightarrow> os" where
  "os_remove p os = os\<lparr>fifo := (fifo os)(p := None)\<rparr>"

definition os_write :: "int \<Rightarrow> byte list \<Rightarrow> os \<Rightarrow> os" where
  "os_write fd bs os =
     (case fd_chan fd (hub_fds os) of
        Some (Fifo_end p) \<Rightarrow> os\<lparr>fifo := (fifo os)(p := map_option (\<lambda>q. q @ [bs]) (fifo os p))\<rparr>
      | _ \<Rightarrow> os)"

section \<open>Messages\<close>

definition IRIS_HUB_MQ_STOP :: "32 word" where "IRIS_HUB_MQ_STOP = 0x1000"
definition IRIS_HUB_MQ_STATUS :: "32 word" where "IRIS_HUB_MQ_STATUS = 0x1001"
definition IRIS_HUB_MQ_REGISTER :: "32 word" where "IRIS_HUB_MQ_REGISTER = 0x1002"
definition IRIS_HUB_MQ_DEREGISTER :: "32 word" where "IRIS_HUB_MQ_DEREGISTER = 0x1003"
definition IRIS_HUB_MQ_TASK_INC :: "32 word" where "IRIS_HUB_MQ_TASK_INC = 0x1004"
definition IRIS_HUB_MQ_TASK_ALL :: "32 word" where "IRIS_HUB_MQ_TASK_ALL = 0x1005"
definition IRIS_HUB_FIFO_STOP :: "32 word" where "IRIS_HUB_FIFO_STOP = 0x2000"
definition IRIS_HUB_FIFO_STATUS :: "32 word" where "IRIS_HUB_FIFO_STATUS = 0x2001"
definition IRIS_HUB_FIFO_TASK_ALL :: "32 word" where "IRIS_HUB_FIFO_TASK_ALL = 0x2005"
definition IRIS_HUB_FIFO_MSG_SIZE :: nat where "IRIS_HUB_FIFO_MSG_SIZE = 256"

lemmas hub_headers = IRIS_HUB_MQ_STOP_def IRIS_HUB_MQ_STATUS_def IRIS_HUB_MQ_REGISTER_def IRIS_HUB_MQ_DEREGISTER_def
  IRIS_HUB_MQ_TASK_INC_def IRIS_HUB_MQ_TASK_ALL_def

lemmas fifo_headers = IRIS_HUB_FIFO_STOP_def IRIS_HUB_FIFO_STATUS_def IRIS_HUB_FIFO_TASK_ALL_def

text \<open>A row of calls of \<open>WriteInt\<close>, or of \<open>WriteULong\<close>, whose results nobody looks at.\<close>

definition write_ints :: "32 word list \<Rightarrow> message \<Rightarrow> message option" where
  "write_ints = opt_fold (\<lambda>v m. map_option snd (WriteInt v m))"

definition write_ulongs :: "64 word list \<Rightarrow> message \<Rightarrow> message option" where
  "write_ulongs = opt_fold (\<lambda>v m. map_option snd (WriteULong v m))"

fun read_ulongs :: "nat \<Rightarrow> message \<Rightarrow> (64 word list \<times> message) option" where
  "read_ulongs 0 m = Some ([], m)"
| "read_ulongs (Suc n) m = do { (v, m) \<leftarrow> ReadULong m; (vs, m) \<leftarrow> read_ulongs n m; Some (v # vs, m) }"

section \<open>The hub\<close>

text \<open>\<open>fifos_[pid]\<close> makes an entry for a process that has none, with descriptor 0.\<close>

definition SendFIFO :: "message \<Rightarrow> pid \<Rightarrow> hub \<times> os \<Rightarrow> hub \<times> os" where
  "SendFIFO msg pid = (\<lambda>(hub, os).
     (let fd = omap_at 0 (hb_fifos hub) pid in
      (hub\<lparr>hb_fifos := omap_put pid fd (hb_fifos hub)\<rparr>, os_write fd (take IRIS_HUB_FIFO_MSG_SIZE (m_buf msg)) os)))"

text \<open>\<open>g\<close> is the content of the stack under the local message of a handler.\<close>

definition ExecuteStop :: "byte list \<Rightarrow> message \<Rightarrow> pid \<Rightarrow> hub \<times> os \<Rightarrow> (hub \<times> os) option" where
  "ExecuteStop g msg pid = (\<lambda>(hub, os). do {
     let hub = hub\<lparr>hb_running := False\<rparr>;
     fmsg \<leftarrow> Message_new g (ucast IRIS_HUB_FIFO_STOP);
     Some (SendFIFO fmsg pid (hub, os)) })"

definition ExecuteStatus :: "byte list \<Rightarrow> message \<Rightarrow> pid \<Rightarrow> hub \<times> os \<Rightarrow> (hub \<times> os) option" where
  "ExecuteStatus g msg pid = (\<lambda>(hub, os). do {
     fmsg \<leftarrow> Message_new g (ucast IRIS_HUB_FIFO_STATUS);
     fmsg \<leftarrow> write_ints [hb_ndevs hub] fmsg;
     let n = nat (sint (hb_ndevs hub));
     fmsg \<leftarrow> (if n \<le> length (hb_ntasks hub) then write_ulongs (take n (hb_ntasks hub)) fmsg else None);
     Some (SendFIFO fmsg pid (hub, os)) })"

definition ExecuteRegister :: "message \<Rightarrow> pid \<Rightarrow> hub \<times> os \<Rightarrow> (hub \<times> os) option" where
  "ExecuteRegister msg pid = (\<lambda>(hub, os). do {
     (ndevs, msg) \<leftarrow> ReadInt msg;
     let hub = (if ndevs \<noteq> -1 then hub\<lparr>hb_ndevs := ndevs\<rparr> else hub);
     let (fd, os) = os_open pid os;
     Some (hub\<lparr>hb_fifos := omap_put pid fd (hb_fifos hub)\<rparr>, os) })"

definition ExecuteDeregister :: "message \<Rightarrow> pid \<Rightarrow> hub \<times> os \<Rightarrow> (hub \<times> os) option" where
  "ExecuteDeregister msg pid = (\<lambda>(hub, os).
     (let fd = omap_at 0 (hb_fifos hub) pid; os = os_close fd os; os = os_remove pid os in
      Some (hub\<lparr>hb_fifos := omap_erase pid (hb_fifos hub)\<rparr>, os)))"

definition ExecuteTaskInc :: "message \<Rightarrow> pid \<Rightarrow> hub \<times> os \<Rightarrow> (hub \<times> os) option" where
  "ExecuteTaskInc msg pid = (\<lambda>(hub, os). do {
     (dev, msg) \<leftarrow> ReadInt msg;
     (i, msg) \<leftarrow> ReadInt msg;
     t \<leftarrow> (if 0 \<le> sint dev then cell (hb_ntasks hub) (nat (sint dev)) else None);
     Some (hub\<lparr>hb_ntasks := (hb_ntasks hub)[nat (sint dev) := t + scast i]\<rparr>, os) })"

definition ExecuteTaskAll :: "byte list \<Rightarrow> message \<Rightarrow> pid \<Rightarrow> hub \<times> os \<Rightarrow> (hub \<times> os) option" where
  "ExecuteTaskAll g msg pid = (\<lambda>(hub, os). do {
     (ndevs, msg) \<leftarrow> ReadInt msg;
     fmsg \<leftarrow> Message_new g (ucast IRIS_HUB_FIFO_TASK_ALL);
     (b, fmsg) \<leftarrow> Message_Write (concat (map (le_bytes 8) (hb_ntasks hub))) (scast ndevs * 8) fmsg;
     Some (SendFIFO fmsg pid (hub, os)) })"

text \<open>One turn of the loop of \<open>Run\<close>: \<open>msgrcv\<close>, which overwrites every byte of the message, and the handler. An unknown header is
  reported and dropped.\<close>

definition Hub_turn :: "byte list \<Rightarrow> hub \<times> os \<Rightarrow> (hub \<times> os) option" where
  "Hub_turn g = (\<lambda>(hub, os).
     if \<not> hb_running hub then None else
     case mq os of
       [] \<Rightarrow> None
     | b # q \<Rightarrow> do {
         let os = os\<lparr>mq := q\<rparr>;
         let msg = \<lparr>m_buf = b, m_off = 0\<rparr>;
         (header, msg) \<leftarrow> ReadHeader msg;
         (pid, msg) \<leftarrow> ReadPID msg;
         if header = IRIS_HUB_MQ_STOP then ExecuteStop g msg pid (hub, os)
         else if header = IRIS_HUB_MQ_STATUS then ExecuteStatus g msg pid (hub, os)
         else if header = IRIS_HUB_MQ_REGISTER then ExecuteRegister msg pid (hub, os)
         else if header = IRIS_HUB_MQ_DEREGISTER then ExecuteDeregister msg pid (hub, os)
         else if header = IRIS_HUB_MQ_TASK_INC then ExecuteTaskInc msg pid (hub, os)
         else if header = IRIS_HUB_MQ_TASK_ALL then ExecuteTaskAll g msg pid (hub, os)
         else Some (hub, os) })"

section \<open>The client\<close>

definition SendMQ :: "message \<Rightarrow> os \<Rightarrow> int \<times> os" where
  "SendMQ msg os = (case msgsnd msg os of (iret, os) \<Rightarrow> if iret = -1 then (IRIS_ERROR, os) else (IRIS_SUCCESS, os))"

text \<open>The requests: a header, the process and the arguments.\<close>

definition request :: "byte list \<Rightarrow> 32 word \<Rightarrow> pid \<Rightarrow> 32 word list \<Rightarrow> message option" where
  "request g header pid args = do { msg \<leftarrow> Message_new g (ucast header); write_ints (pid # args) msg }"

definition Client_OpenMQ :: "os \<Rightarrow> int" where
  "Client_OpenMQ os = (if mq_file os then IRIS_SUCCESS else IRIS_ERROR)"

definition OpenFIFO :: "client \<Rightarrow> os \<Rightarrow> int \<times> client \<times> os" where
  "OpenFIFO c os =
     (if fifo os (cl_pid c) \<noteq> None then (IRIS_ERROR, c, os)
      else (IRIS_SUCCESS, c\<lparr>cl_fifo := True\<rparr>, os\<lparr>fifo := (fifo os)(cl_pid c \<mapsto> [])\<rparr>))"

definition Register :: "byte list \<Rightarrow> client \<Rightarrow> os \<Rightarrow> os option" where
  "Register g c os = do {
     msg \<leftarrow> request g IRIS_HUB_MQ_REGISTER (cl_pid c) [cl_ndevs c];
     Some (snd (SendMQ msg os)) }"

definition Deregister :: "byte list \<Rightarrow> client \<Rightarrow> os \<Rightarrow> os option" where
  "Deregister g c os = do {
     msg \<leftarrow> request g IRIS_HUB_MQ_DEREGISTER (cl_pid c) [];
     Some (snd (SendMQ msg os)) }"

definition HubClient_Init :: "byte list \<Rightarrow> client \<Rightarrow> os \<Rightarrow> (int \<times> client \<times> os) option" where
  "HubClient_Init g c os = do {
     let ret = Client_OpenMQ os;
     let (ret, c, os) = (if ret = IRIS_SUCCESS then OpenFIFO c os else (ret, c, os));
     os \<leftarrow> (if ret = IRIS_SUCCESS then Register g c os else Some os);
     Some (ret, c\<lparr>cl_available := ret = IRIS_SUCCESS\<rparr>, os) }"

text \<open>The destructor: \<open>CloseMQ\<close> closes the client's end of the FIFO and deregisters.\<close>

definition HubClient_delete :: "byte list \<Rightarrow> client \<Rightarrow> os \<Rightarrow> os option" where
  "HubClient_delete g c os = (if \<not> cl_stop_hub c \<and> cl_fifo c then Deregister g c os else Some os)"

definition HubClient_TaskInc :: "byte list \<Rightarrow> 32 word \<Rightarrow> 32 word \<Rightarrow> client \<Rightarrow> os \<Rightarrow> os option" where
  "HubClient_TaskInc g dev i c os =
     (if \<not> cl_available c then Some os
      else do { msg \<leftarrow> request g IRIS_HUB_MQ_TASK_INC (cl_pid c) [dev, i]; Some (snd (SendMQ msg os)) })"

definition HubClient_TaskDec :: "byte list \<Rightarrow> 32 word \<Rightarrow> 32 word \<Rightarrow> client \<Rightarrow> os \<Rightarrow> os option" where
  "HubClient_TaskDec g dev i = HubClient_TaskInc g dev (- i)"

text \<open>The calls with a reply, up to the blocking read of the FIFO and from there. The message of the request is also the buffer of the reply.\<close>

definition TaskAll_ask :: "byte list \<Rightarrow> 32 word \<Rightarrow> client \<Rightarrow> os \<Rightarrow> (message \<times> os) option" where
  "TaskAll_ask g ndevs c os = do {
     msg \<leftarrow> request g IRIS_HUB_MQ_TASK_ALL (cl_pid c) [ndevs];
     Some (Message_Clear msg, snd (SendMQ msg os)) }"

definition Status_ask :: "byte list \<Rightarrow> client \<Rightarrow> os \<Rightarrow> (message \<times> os) option" where
  "Status_ask g c os = do {
     msg \<leftarrow> request g IRIS_HUB_MQ_STATUS (cl_pid c) [];
     Some (Message_Clear msg, snd (SendMQ msg os)) }"

definition StopHub_ask :: "byte list \<Rightarrow> client \<Rightarrow> os \<Rightarrow> (message \<times> os) option" where
  "StopHub_ask g c os = do {
     msg \<leftarrow> request g IRIS_HUB_MQ_STOP (cl_pid c) [];
     Some (Message_Clear msg, snd (SendMQ msg os)) }"

definition RecvFIFO :: "message \<Rightarrow> client \<Rightarrow> os \<Rightarrow> (message \<times> os) option" where
  "RecvFIFO msg c os =
     (case fifo os (cl_pid c) of
        Some (b # q) \<Rightarrow>
          Some (msg\<lparr>m_buf := b @ drop IRIS_HUB_FIFO_MSG_SIZE (m_buf msg)\<rparr>, os\<lparr>fifo := (fifo os)(cl_pid c \<mapsto> q)\<rparr>)
      | _ \<Rightarrow> None)"

definition TaskAll_answer :: "32 word \<Rightarrow> message \<Rightarrow> client \<Rightarrow> os \<Rightarrow> (size_t list \<times> os) option" where
  "TaskAll_answer ndevs msg c os = do {
     (msg, os) \<leftarrow> RecvFIFO msg c os;
     (header, msg) \<leftarrow> ReadHeader msg;
     (ntasks, msg) \<leftarrow> read_ulongs (nat (sint ndevs)) msg;
     Some (ntasks, os) }"

text \<open>\<open>Status\<close> prints what it reads.\<close>

definition Status_answer :: "message \<Rightarrow> client \<Rightarrow> os \<Rightarrow> (size_t list \<times> os) option" where
  "Status_answer msg c os = do {
     (msg, os) \<leftarrow> RecvFIFO msg c os;
     (header, msg) \<leftarrow> ReadHeader msg;
     (ndevs, msg) \<leftarrow> ReadInt msg;
     (ntasks, msg) \<leftarrow> read_ulongs (nat (sint ndevs)) msg;
     Some (ntasks, os) }"

definition StopHub_answer :: "message \<Rightarrow> client \<Rightarrow> os \<Rightarrow> (client \<times> os) option" where
  "StopHub_answer msg c os = do {
     (msg, os) \<leftarrow> RecvFIFO msg c os;
     Some (c\<lparr>cl_stop_hub := True\<rparr>, os) }"

end
