(* ===== verification/Iris_HubSpec.thy ===== *)
theory Iris_HubSpec
  imports Iris_Hub
begin

text \<open>
  What the hub promises. The clients and the hub form one system: every client sends its requests and waits for its replies in any interleaving
  with the others and with the turns of the hub. The specification has the same events on a queue of requests and FIFOs of replies that are data, with one list
  of counters; the program, which moves bytes, is shown to follow it. Where the specification promises nothing (a device without counter, more than 31
  counters in a reply, a process that is not registered) it has no step.
\<close>

section \<open>Programs and hub together\<close>

datatype ask = Ask_all "32 word" | Ask_status | Ask_stop

record world =
  w_hub :: hub
  w_os :: os
  w_cl :: "pid \<Rightarrow> client option"
  w_wait :: "pid \<Rightarrow> (ask \<times> message) option"
  w_out :: "pid \<Rightarrow> size_t list"

datatype event =
    Start pid "32 word" "byte list"
  | Inc pid "32 word" "32 word" "byte list"
  | Dec pid "32 word" "32 word" "byte list"
  | Ask pid ask "byte list"
  | Answer pid
  | Finish pid "byte list"
  | Turn "byte list"

text \<open>The hub after \<open>Run\<close> has opened the message queue, which was empty.\<close>

definition world_start :: world where
  "world_start =
     \<lparr>w_hub = Hub_new\<lparr>hb_running := True\<rparr>,
      w_os = \<lparr>mq_file = True, mq = [], fifo = (\<lambda>_. None), hub_fds = [Some Std, Some Std, Some Std]\<rparr>,
      w_cl = (\<lambda>_. None), w_wait = (\<lambda>_. None), w_out = (\<lambda>_. [])\<rparr>"

definition client_ask :: "ask \<Rightarrow> byte list \<Rightarrow> client \<Rightarrow> os \<Rightarrow> (message \<times> os) option" where
  "client_ask a g c os =
     (case a of Ask_all n \<Rightarrow> TaskAll_ask g n c os | Ask_status \<Rightarrow> Status_ask g c os | Ask_stop \<Rightarrow> StopHub_ask g c os)"

definition client_answer :: "ask \<Rightarrow> message \<Rightarrow> client \<Rightarrow> os \<Rightarrow> (size_t list \<times> client \<times> os) option" where
  "client_answer a m c os =
     (case a of
        Ask_all n \<Rightarrow> map_option (\<lambda>(ts, os). (ts, c, os)) (TaskAll_answer n m c os)
      | Ask_status \<Rightarrow> map_option (\<lambda>(ts, os). (ts, c, os)) (Status_answer m c os)
      | Ask_stop \<Rightarrow> map_option (\<lambda>(c, os). ([], c, os)) (StopHub_answer m c os))"

text \<open>\<open>Status\<close> and \<open>StopHub\<close> return at once when the hub is not available; the scheduler then does not call \<open>TaskAll\<close>.\<close>

fun world_step :: "event \<Rightarrow> world \<Rightarrow> world option" where
  "world_step (Start p n g) w =
     (if w_cl w p \<noteq> None then None
      else do { (ret, c, os) \<leftarrow> HubClient_Init g (HubClient_new p (Some n)) (w_os w);
                Some (w\<lparr>w_cl := (w_cl w)(p \<mapsto> c), w_os := os\<rparr>) })"
| "world_step (Inc p dev i g) w =
     do { c \<leftarrow> w_cl w p; os \<leftarrow> HubClient_TaskInc g dev i c (w_os w); Some (w\<lparr>w_os := os\<rparr>) }"
| "world_step (Dec p dev i g) w =
     do { c \<leftarrow> w_cl w p; os \<leftarrow> HubClient_TaskDec g dev i c (w_os w); Some (w\<lparr>w_os := os\<rparr>) }"
| "world_step (Ask p a g) w =
     do { c \<leftarrow> w_cl w p;
          if w_wait w p \<noteq> None then None
          else if \<not> cl_available c then Some w
          else do { (m, os) \<leftarrow> client_ask a g c (w_os w);
                    Some (w\<lparr>w_wait := (w_wait w)(p \<mapsto> (a, m)), w_os := os\<rparr>) } }"
| "world_step (Answer p) w =
     do { c \<leftarrow> w_cl w p; (a, m) \<leftarrow> w_wait w p; (ts, c, os) \<leftarrow> client_answer a m c (w_os w);
          Some (w\<lparr>w_wait := (w_wait w)(p := None), w_out := (w_out w)(p := ts), w_cl := (w_cl w)(p \<mapsto> c), w_os := os\<rparr>) }"
| "world_step (Finish p g) w =
     do { c \<leftarrow> w_cl w p;
          if w_wait w p \<noteq> None then None
          else do { os \<leftarrow> HubClient_delete g c (w_os w); Some (w\<lparr>w_cl := (w_cl w)(p := None), w_os := os\<rparr>) } }"
| "world_step (Turn g) w =
     do { (hub, os) \<leftarrow> Hub_turn g (w_hub w, w_os w); Some (w\<lparr>w_hub := hub, w_os := os\<rparr>) }"

text \<open>What a schedule has to offer: process identifiers are positive and uninitialised memory has the size of the object.\<close>

fun event_ok :: "event \<Rightarrow> bool" where
  "event_ok (Start p n g) \<longleftrightarrow> 0 < sint p \<and> length g = MSG_BYTES"
| "event_ok (Inc p dev i g) \<longleftrightarrow> length g = MSG_BYTES"
| "event_ok (Dec p dev i g) \<longleftrightarrow> length g = MSG_BYTES"
| "event_ok (Ask p a g) \<longleftrightarrow> length g = MSG_BYTES"
| "event_ok (Answer p) \<longleftrightarrow> True"
| "event_ok (Finish p g) \<longleftrightarrow> length g = MSG_BYTES"
| "event_ok (Turn g) \<longleftrightarrow> length g = MSG_BYTES"

section \<open>Specification\<close>

datatype req = R_register "32 word" | R_deregister | R_inc "32 word" "32 word" | R_all "32 word" | R_status | R_stop

datatype reply = All_reply "size_t list" | Status_reply "size_t list" | Stop_reply

record spec =
  sp_q :: "(pid \<times> req) list"
  sp_run :: bool
  sp_ndevs :: "32 word"
  sp_count :: "size_t list"
  sp_reg :: "pid \<Rightarrow> bool"
  sp_fifo :: "pid \<Rightarrow> reply list option"
  sp_cl :: "pid \<Rightarrow> bool option"
  sp_wait :: "pid \<Rightarrow> ask option"
  sp_out :: "pid \<Rightarrow> size_t list"

definition spec_start :: spec where
  "spec_start =
     \<lparr>sp_q = [], sp_run = True, sp_ndevs = 0, sp_count = replicate 255 0, sp_reg = (\<lambda>_. False), sp_fifo = (\<lambda>_. None),
      sp_cl = (\<lambda>_. None), sp_wait = (\<lambda>_. None), sp_out = (\<lambda>_. [])\<rparr>"

definition sp_send :: "pid \<Rightarrow> req \<Rightarrow> spec \<Rightarrow> spec" where
  "sp_send p r s = s\<lparr>sp_q := sp_q s @ [(p, r)]\<rparr>"

definition sp_reply :: "pid \<Rightarrow> reply \<Rightarrow> spec \<Rightarrow> spec option" where
  "sp_reply p r s = (if sp_reg s p then Some (s\<lparr>sp_fifo := (sp_fifo s)(p := map_option (\<lambda>q. q @ [r]) (sp_fifo s p))\<rparr>) else None)"

fun serve :: "pid \<Rightarrow> req \<Rightarrow> spec \<Rightarrow> spec option" where
  "serve p (R_register n) s =
     (if sp_fifo s p = None then None
      else Some (s\<lparr>sp_ndevs := if n = -1 then sp_ndevs s else n, sp_reg := (sp_reg s)(p := True)\<rparr>))"
| "serve p R_deregister s =
     (if sp_reg s p then Some (s\<lparr>sp_reg := (sp_reg s)(p := False), sp_fifo := (sp_fifo s)(p := None)\<rparr>) else None)"
| "serve p (R_inc dev i) s =
     (if dev < 255 then Some (s\<lparr>sp_count := (sp_count s)[unat dev := sp_count s ! unat dev + scast i]\<rparr>) else None)"
| "serve p (R_all n) s = (if n \<le> 31 then sp_reply p (All_reply (take (unat n) (sp_count s))) s else None)"
| "serve p R_status s =
     (if sp_ndevs s \<le> 31 then sp_reply p (Status_reply (take (unat (sp_ndevs s)) (sp_count s))) s else None)"
| "serve p R_stop s = sp_reply p Stop_reply (s\<lparr>sp_run := False\<rparr>)"

definition ask_req :: "ask \<Rightarrow> req" where
  "ask_req a = (case a of Ask_all n \<Rightarrow> R_all n | Ask_status \<Rightarrow> R_status | Ask_stop \<Rightarrow> R_stop)"

text \<open>The reply that an ask waits for, and what it delivers.\<close>

fun deliver :: "ask \<Rightarrow> reply \<Rightarrow> size_t list option" where
  "deliver (Ask_all n) (All_reply ts) = (if length ts = unat n then Some ts else None)"
| "deliver Ask_status (Status_reply ts) = Some ts"
| "deliver Ask_stop Stop_reply = Some []"
| "deliver _ _ = None"

fun spec_step :: "event \<Rightarrow> spec \<Rightarrow> spec option" where
  "spec_step (Start p n g) s =
     (if sp_cl s p = None \<and> sp_fifo s p = None
      then Some (sp_send p (R_register n) (s\<lparr>sp_cl := (sp_cl s)(p \<mapsto> False), sp_fifo := (sp_fifo s)(p \<mapsto> [])\<rparr>)) else None)"
| "spec_step (Inc p dev i g) s = (if sp_cl s p = None then None else Some (sp_send p (R_inc dev i) s))"
| "spec_step (Dec p dev i g) s = (if sp_cl s p = None then None else Some (sp_send p (R_inc dev (- i)) s))"
| "spec_step (Ask p a g) s =
     (if sp_cl s p = None \<or> sp_wait s p \<noteq> None then None
      else Some (sp_send p (ask_req a) (s\<lparr>sp_wait := (sp_wait s)(p \<mapsto> a)\<rparr>)))"
| "spec_step (Answer p) s =
     (case (sp_cl s p, sp_wait s p, sp_fifo s p) of
        (Some st, Some a, Some (r # q)) \<Rightarrow>
          map_option (\<lambda>ts. s\<lparr>sp_wait := (sp_wait s)(p := None), sp_out := (sp_out s)(p := ts), sp_fifo := (sp_fifo s)(p \<mapsto> q),
            sp_cl := (sp_cl s)(p \<mapsto> (st \<or> a = Ask_stop))\<rparr>) (deliver a r)
      | _ \<Rightarrow> None)"
| "spec_step (Finish p g) s =
     (if sp_wait s p \<noteq> None then None
      else case sp_cl s p of
        None \<Rightarrow> None
      | Some st \<Rightarrow> Some ((if st then id else sp_send p R_deregister) (s\<lparr>sp_cl := (sp_cl s)(p := None)\<rparr>)))"
| "spec_step (Turn g) s =
     (if \<not> sp_run s then None
      else case sp_q s of [] \<Rightarrow> None | (p, r) # q \<Rightarrow> serve p r (s\<lparr>sp_q := q\<rparr>))"

section \<open>Bytes of requests and replies\<close>

definition ints :: "32 word list \<Rightarrow> byte list" where "ints vs = concat (map (le_bytes 4) vs)"
definition ulongs :: "64 word list \<Rightarrow> byte list" where "ulongs vs = concat (map (le_bytes 8) vs)"

fun req_ints :: "req \<Rightarrow> 32 word \<times> 32 word list" where
  "req_ints (R_register n) = (IRIS_HUB_MQ_REGISTER, [n])"
| "req_ints R_deregister = (IRIS_HUB_MQ_DEREGISTER, [])"
| "req_ints (R_inc dev i) = (IRIS_HUB_MQ_TASK_INC, [dev, i])"
| "req_ints (R_all n) = (IRIS_HUB_MQ_TASK_ALL, [n])"
| "req_ints R_status = (IRIS_HUB_MQ_STATUS, [])"
| "req_ints R_stop = (IRIS_HUB_MQ_STOP, [])"

definition req_bytes :: "pid \<Rightarrow> req \<Rightarrow> byte list" where
  "req_bytes p r = ints (fst (req_ints r) # p # snd (req_ints r))"

fun reply_bytes :: "reply \<Rightarrow> byte list" where
  "reply_bytes (All_reply ts) = le_bytes 4 IRIS_HUB_FIFO_TASK_ALL @ ulongs ts"
| "reply_bytes (Status_reply ts) = le_bytes 4 IRIS_HUB_FIFO_STATUS @ le_bytes 4 (of_nat (length ts) :: 32 word) @ ulongs ts"
| "reply_bytes Stop_reply = le_bytes 4 IRIS_HUB_FIFO_STOP"

definition holds :: "nat \<Rightarrow> byte list \<Rightarrow> byte list \<Rightarrow> bool" where
  "holds n bs b \<longleftrightarrow> length b = n \<and> length bs \<le> n \<and> take (length bs) b = bs"

lemma ints_simps [simp]: "ints [] = []" "ints (v # vs) = le_bytes 4 v @ ints vs"
  by (simp_all add: ints_def)

lemma ulongs_simps [simp]: "ulongs [] = []" "ulongs (v # vs) = le_bytes 8 v @ ulongs vs"
  by (simp_all add: ulongs_def)

lemma length_ints [simp]: "length (ints vs) = 4 * length vs"
  by (induction vs) auto

lemma length_ulongs [simp]: "length (ulongs vs) = 8 * length vs"
  by (induction vs) auto

lemma take_ulongs: "take (8 * n) (ulongs vs) = ulongs (take n vs)"
proof (induction vs arbitrary: n)
  case (Cons v vs)
  then show ?case by (cases n) auto
qed simp

lemma write_ints_ok:
  "m_ok m \<Longrightarrow> unat (m_off m) + 4 * length vs \<le> 256 \<Longrightarrow>
   \<exists>m'. write_ints vs m = Some m' \<and> m_ok m' \<and> written m' = written m @ ints vs \<and> unat (m_off m') = unat (m_off m) + 4 * length vs"
proof (induction vs arbitrary: m)
  case (Cons v vs)
  from Cons.prems f_int.put_ok [of m v] obtain m1 where
    "WriteInt v m = Some (True, m1)" "m_ok m1" "written m1 = written m @ le_bytes 4 v" "unat (m_off m1) = unat (m_off m) + 4" by auto
  with Cons.IH [of m1] Cons.prems show ?case by (auto simp: write_ints_def)
qed (simp add: write_ints_def)

lemma write_ulongs_ok:
  "m_ok m \<Longrightarrow> unat (m_off m) + 8 * length vs \<le> 256 \<Longrightarrow>
   \<exists>m'. write_ulongs vs m = Some m' \<and> m_ok m' \<and> written m' = written m @ ulongs vs"
proof (induction vs arbitrary: m)
  case (Cons v vs)
  from Cons.prems f_ulong.put_ok [of m v] obtain m1 where
    "WriteULong v m = Some (True, m1)" "m_ok m1" "written m1 = written m @ le_bytes 8 v" "unat (m_off m1) = unat (m_off m) + 8" by auto
  with Cons.IH [of m1] Cons.prems show ?case by (auto simp: write_ulongs_def)
qed (simp add: write_ulongs_def)

lemma read_ulongs_ok: "unread m (ulongs vs @ rest) \<Longrightarrow> \<exists>m'. read_ulongs (length vs) m = Some (vs, m')"
proof (induction vs arbitrary: m)
  case (Cons v vs)
  from Cons.prems f_ulong.get_ok [of m v] obtain m1 where "ReadULong m = Some (v, m1)" "unread m1 (ulongs vs @ rest)" by auto
  with Cons.IH [of m1] show ?case by auto
qed simp

lemma ucast_header: "ucast (ucast (h :: 32 word) :: 64 word) = h" "0 \<le> sint (ucast (h :: 32 word) :: 64 word)"
proof -
  show "ucast (ucast h :: 64 word) = h" by (rule bit_eqI) (auto simp: bit_ucast_iff dest: bit_imp_le_length)
  have "\<not> bit (ucast h :: 64 word) 63" by (auto simp: bit_ucast_iff dest: bit_imp_le_length)
  then show "0 \<le> sint (ucast h :: 64 word)" by (simp add: sint_uint signed_take_bit_nonnegative_iff bit_uint_iff)
qed

lemma Message_new_ok:
  assumes "length g = MSG_BYTES"
  shows "\<exists>m. Message_new g (ucast (h :: 32 word)) = Some m \<and> m_ok m \<and> written m = le_bytes 4 h \<and> unat (m_off m) = 4"
proof -
  let ?m = "\<lparr>m_buf = g, m_off = 0\<rparr>"
  have "m_ok ?m" using assms by (simp add: m_ok_def)
  from f_int.put_ok [OF this, of h] show ?thesis
    by (auto simp: Message_new_def ucast_header Let_def WriteHeader_def written_def)
qed

lemma request_ok:
  assumes "length g = MSG_BYTES" "length args \<le> 8"
  shows "\<exists>m. request g h p args = Some m \<and> m_ok m \<and> written m = ints (h # p # args)"
proof -
  from Message_new_ok [OF assms(1), of h] obtain m where m: "Message_new g (ucast h) = Some m" "m_ok m"
    "written m = le_bytes 4 h" "unat (m_off m) = 4" by blast
  with write_ints_ok [OF m(2), of "p # args"] assms(2) show ?thesis by (auto simp: request_def)
qed

lemma holds_written: "m_ok m \<Longrightarrow> holds MSG_BYTES (written m) (m_buf m)"
  by (auto simp: holds_def m_ok_def written_def MSG_BYTES_def min_def)

lemma holds_unread: "holds n bs b \<Longrightarrow> length (b @ c) = MSG_BYTES \<Longrightarrow> unread \<lparr>m_buf = b @ c, m_off = 0\<rparr> bs"
  by (auto simp: holds_def unread_def)

text \<open>The type of a message is its header and, above it, the process: positive.\<close>

lemma mtype_positive:
  assumes "h \<noteq> 0" "0 \<le> sint p"
  shows "0 < sint (le_word (le_bytes 4 (h :: 32 word) @ le_bytes 4 (p :: 32 word)) :: 64 word)"
proof -
  define w where "w = (le_word (le_bytes 4 h @ le_bytes 4 p) :: 64 word)"
  have "\<not> bit p 31" using assms(2) by (simp add: sint_uint signed_take_bit_nonnegative_iff bit_uint_iff)
  then have "\<not> bit w 63" by (simp add: w_def bit_le_word nth_append le_bytes_def bit_ucast_iff bit_drop_bit_eq)
  then have "0 \<le> sint w" by (simp add: sint_uint signed_take_bit_nonnegative_iff bit_uint_iff)
  moreover have "w \<noteq> 0"
  proof -
    from assms(1) obtain k where k: "bit h k" by (auto simp: bit_eq_iff)
    then have "k < 32" by (auto dest: bit_imp_le_length)
    then have "bit w k" using k
      by (simp add: w_def bit_le_word nth_append le_bytes_def bit_ucast_iff bit_drop_bit_eq less_mult_imp_div_less)
    then show ?thesis by auto
  qed
  then have "sint w \<noteq> sint (0 :: 64 word)" by (metis signed_word_eqI)
  ultimately show ?thesis unfolding w_def [symmetric] by (simp add: order_less_le)
qed

end
