(* ===== verification/Iris_HubProof.thy ===== *)
theory Iris_HubProof
  imports Iris_HubSpec
begin

text \<open>
  The program of the hub and its clients follows the specification, and what the specification says of the counters holds of the program's
  bytes: the counters are the sums of the increments that have been served, and a reply to \<open>TaskAll\<close> counts exactly the increments
  that were sent before the request.
\<close>

section \<open>Related states\<close>

definition reg_ok :: "pid \<Rightarrow> hub \<Rightarrow> os \<Rightarrow> bool" where
  "reg_ok p hub os \<longleftrightarrow> (\<exists>fd. map_of (hb_fifos hub) p = Some fd \<and> fd_chan fd (hub_fds os) = Some (Fifo_end p))"

definition io_rel :: "spec \<Rightarrow> hub \<Rightarrow> os \<Rightarrow> bool" where
  "io_rel s hub os \<longleftrightarrow>
     mq_file os \<and> list_all2 (\<lambda>(p, r) b. holds MSG_BYTES (req_bytes p r) b) (sp_q s) (mq os) \<and>
     hb_running hub = sp_run s \<and> hb_ndevs hub = sp_ndevs s \<and> hb_ntasks hub = sp_count s \<and> length (sp_count s) = 255 \<and>
     sorted_wrt (<) (map fst (hb_fifos hub)) \<and>
     (\<forall>p. rel_option (list_all2 (\<lambda>r b. holds 256 (reply_bytes r) b)) (sp_fifo s p) (fifo os p)) \<and>
     (\<forall>p. sp_reg s p \<longrightarrow> reg_ok p hub os)"

definition client_ok :: "pid \<Rightarrow> bool \<Rightarrow> client \<Rightarrow> bool" where
  "client_ok p st c \<longleftrightarrow> 0 < sint p \<and> cl_pid c = p \<and> cl_available c \<and> cl_fifo c \<and> cl_stop_hub c = st"

definition cl_rel :: "spec \<Rightarrow> world \<Rightarrow> bool" where
  "cl_rel s w \<longleftrightarrow>
     (\<forall>p. rel_option (client_ok p) (sp_cl s p) (w_cl w p)) \<and>
     (\<forall>p. rel_option (\<lambda>a (a', m). a' = a \<and> m_ok m \<and> m_off m = 0) (sp_wait s p) (w_wait w p)) \<and> sp_out s = w_out w"

definition hub_rel :: "spec \<Rightarrow> world \<Rightarrow> bool" where
  "hub_rel s w \<longleftrightarrow> io_rel s (w_hub w) (w_os w) \<and> cl_rel s w"

text \<open>Which fields the two halves of the relation look at, and how the half of the clients is kept.\<close>

lemma io_rel_frame [simp]:
  "io_rel (s\<lparr>sp_cl := cl\<rparr>) hub os = io_rel s hub os" "io_rel (s\<lparr>sp_wait := wt\<rparr>) hub os = io_rel s hub os"
  "io_rel (s\<lparr>sp_out := ot\<rparr>) hub os = io_rel s hub os"
  by (simp_all add: io_rel_def)

lemma cl_rel_frame [simp]:
  "cl_rel (s\<lparr>sp_fifo := f\<rparr>) w = cl_rel s w" "cl_rel (s\<lparr>sp_q := q\<rparr>) w = cl_rel s w"
  "cl_rel s (w\<lparr>w_os := os\<rparr>) = cl_rel s w" "cl_rel s (w\<lparr>w_hub := hub\<rparr>) = cl_rel s w"
  by (simp_all add: cl_rel_def)

lemma cl_rel_cl:
  "cl_rel s w \<Longrightarrow> rel_option (client_ok p) x y \<Longrightarrow> cl_rel (s\<lparr>sp_cl := (sp_cl s)(p := x)\<rparr>) (w\<lparr>w_cl := (w_cl w)(p := y)\<rparr>)"
  by (simp add: cl_rel_def)

lemma cl_rel_wait:
  "cl_rel s w \<Longrightarrow> rel_option (\<lambda>a (a', m). a' = a \<and> m_ok m \<and> m_off m = 0) x y \<Longrightarrow>
   cl_rel (s\<lparr>sp_wait := (sp_wait s)(p := x)\<rparr>) (w\<lparr>w_wait := (w_wait w)(p := y)\<rparr>)"
  by (simp add: cl_rel_def)

lemma cl_rel_out:
  "cl_rel s w \<Longrightarrow> cl_rel (s\<lparr>sp_out := (sp_out s)(p := ts)\<rparr>) (w\<lparr>w_out := (w_out w)(p := ts)\<rparr>)"
  by (simp add: cl_rel_def)

section \<open>Sending\<close>

lemma send_ok:
  assumes "length g = MSG_BYTES" "0 < sint p" "h \<noteq> 0" "length args \<le> 8"
  shows "\<exists>m. request g h p args = Some m \<and> m_ok m \<and> holds MSG_BYTES (ints (h # p # args)) (m_buf m) \<and>
    SendMQ m os = (IRIS_SUCCESS, os\<lparr>mq := mq os @ [m_buf m]\<rparr>)"
proof -
  from request_ok [OF assms(1,4), of h p] obtain m where m: "request g h p args = Some m" "m_ok m"
    "written m = ints (h # p # args)" by blast
  from holds_written [OF m(2)] m(3) have b: "holds MSG_BYTES (ints (h # p # args)) (m_buf m)" by simp
  then have "take 8 (m_buf m) = take 8 (ints (h # p # args))" by (auto simp: holds_def min_def dest: arg_cong [where f = "take 8"])
  then have "take 8 (m_buf m) = le_bytes 4 h @ le_bytes 4 p" by simp
  with mtype_positive [of h p] assms(2,3) m b show ?thesis by (auto simp: SendMQ_def msgsnd_def)
qed

lemma header_pos: "fst (req_ints r) \<noteq> 0"
  by (cases r) (simp_all add: hub_headers)

lemma req_args: "length (snd (req_ints r)) \<le> 8"
  by (cases r) simp_all

lemma send_req:
  assumes "length g = MSG_BYTES" "0 < sint p" "req_ints r = (h, args)"
  shows "\<exists>m. request g h p args = Some m \<and> m_ok m \<and> holds MSG_BYTES (req_bytes p r) (m_buf m) \<and>
    SendMQ m os = (IRIS_SUCCESS, os\<lparr>mq := mq os @ [m_buf m]\<rparr>)"
  using send_ok [OF assms(1,2) header_pos [of r] req_args [of r]] assms(3) by (simp add: req_bytes_def)

lemma io_rel_send:
  "io_rel s hub os \<Longrightarrow> holds MSG_BYTES (req_bytes p r) b \<Longrightarrow> io_rel (sp_send p r s) hub (os\<lparr>mq := mq os @ [b]\<rparr>)"
  by (auto simp: io_rel_def sp_send_def reg_ok_def intro: list_all2_appendI)

lemma cl_rel_send [simp]: "cl_rel (sp_send p r s) w = cl_rel s w"
  by (simp add: cl_rel_def sp_send_def)

lemma hub_rel_client: "hub_rel s w \<Longrightarrow> sp_cl s p = Some st \<Longrightarrow> \<exists>c. w_cl w p = Some c \<and> client_ok p st c"
  by (auto simp: hub_rel_def cl_rel_def dest!: spec [where x = p] elim: option.rel_cases)

lemma hub_rel_no_client: "hub_rel s w \<Longrightarrow> sp_cl s p = None \<Longrightarrow> w_cl w p = None"
  by (auto simp: hub_rel_def cl_rel_def dest!: spec [where x = p] elim: option.rel_cases)

lemma hub_rel_wait:
  "hub_rel s w \<Longrightarrow> sp_wait s p = Some a \<Longrightarrow> \<exists>m. w_wait w p = Some (a, m) \<and> m_ok m \<and> m_off m = 0"
  by (auto simp: hub_rel_def cl_rel_def dest!: spec [where x = p] elim: option.rel_cases)

lemma hub_rel_no_wait: "hub_rel s w \<Longrightarrow> sp_wait s p = None \<Longrightarrow> w_wait w p = None"
  by (auto simp: hub_rel_def cl_rel_def dest!: spec [where x = p] elim: option.rel_cases)

lemma sim_Inc:
  assumes "hub_rel s w" "length g = MSG_BYTES" "sp_cl s p = Some st"
  shows "\<exists>w'. world_step (Inc p dev i g) w = Some w' \<and> hub_rel (sp_send p (R_inc dev i) s) w'"
proof -
  from hub_rel_client [OF assms(1,3)] obtain c where c: "w_cl w p = Some c" "client_ok p st c" by blast
  with send_req [OF assms(2), of p "R_inc dev i" _ _ "w_os w"] obtain m where
    "request g IRIS_HUB_MQ_TASK_INC p [dev, i] = Some m" "holds MSG_BYTES (req_bytes p (R_inc dev i)) (m_buf m)"
    "SendMQ m (w_os w) = (IRIS_SUCCESS, (w_os w)\<lparr>mq := mq (w_os w) @ [m_buf m]\<rparr>)" by (auto simp: client_ok_def)
  with c assms(1) show ?thesis by (simp add: client_ok_def HubClient_TaskInc_def hub_rel_def io_rel_send)
qed

lemma sim_Dec:
  assumes "hub_rel s w" "length g = MSG_BYTES" "sp_cl s p = Some st"
  shows "\<exists>w'. world_step (Dec p dev i g) w = Some w' \<and> hub_rel (sp_send p (R_inc dev (- i)) s) w'"
  using sim_Inc [OF assms, of dev "- i"] by (simp add: HubClient_TaskDec_def)

lemma sim_Start:
  assumes "hub_rel s w" "length g = MSG_BYTES" "0 < sint p" "spec_step (Start p n g) s = Some s'"
  shows "\<exists>w'. world_step (Start p n g) w = Some w' \<and> hub_rel s' w'"
proof -
  from assms(4) have s: "sp_cl s p = None" "sp_fifo s p = None"
    "s' = sp_send p (R_register n) (s\<lparr>sp_cl := (sp_cl s)(p \<mapsto> False), sp_fifo := (sp_fifo s)(p \<mapsto> [])\<rparr>)" by (auto split: if_splits)
  from hub_rel_no_client [OF assms(1) s(1)] have c: "w_cl w p = None" .
  from assms(1) s(2) have f: "fifo (w_os w) p = None" "mq_file (w_os w)"
    by (auto simp: hub_rel_def io_rel_def dest!: spec [where x = p])
  define os where "os = (w_os w)\<lparr>fifo := (fifo (w_os w))(p \<mapsto> [])\<rparr>"
  from send_req [OF assms(2,3), of "R_register n" _ _ os] obtain m where
    m: "request g IRIS_HUB_MQ_REGISTER p [n] = Some m" "holds MSG_BYTES (req_bytes p (R_register n)) (m_buf m)"
    "SendMQ m os = (IRIS_SUCCESS, os\<lparr>mq := mq os @ [m_buf m]\<rparr>)" by auto
  have i: "io_rel (s\<lparr>sp_cl := (sp_cl s)(p \<mapsto> False), sp_fifo := (sp_fifo s)(p \<mapsto> [])\<rparr>) (w_hub w) os"
    using assms(1) by (auto simp: hub_rel_def io_rel_def os_def reg_ok_def)
  define c' where "c' = (HubClient_new p (Some n))\<lparr>cl_fifo := True, cl_available := True\<rparr>"
  have c': "client_ok p False c'" using assms(3) by (simp add: c'_def client_ok_def HubClient_new_def)
  have r: "HubClient_Init g (HubClient_new p (Some n)) (w_os w) = Some (IRIS_SUCCESS, c', os\<lparr>mq := mq os @ [m_buf m]\<rparr>)"
    using m f by (simp add: HubClient_Init_def Client_OpenMQ_def OpenFIFO_def Register_def HubClient_new_def os_def [symmetric] c'_def)
  have "cl_rel s w" using assms(1) by (simp add: hub_rel_def)
  from cl_rel_cl [OF this, of p "Some False" "Some c'"] io_rel_send [OF i m(2)] r c c' show ?thesis
    unfolding s(3) by (simp add: hub_rel_def)
qed

lemma sim_Finish:
  assumes "hub_rel s w" "length g = MSG_BYTES" "spec_step (Finish p g) s = Some s'"
  shows "\<exists>w'. world_step (Finish p g) w = Some w' \<and> hub_rel s' w'"
proof -
  from assms(3) obtain st where s: "sp_wait s p = None" "sp_cl s p = Some st"
    "s' = (if st then id else sp_send p R_deregister) (s\<lparr>sp_cl := (sp_cl s)(p := None)\<rparr>)" by (auto split: if_splits option.splits)
  from hub_rel_client [OF assms(1) s(2)] obtain c where c: "w_cl w p = Some c" "client_ok p st c" by blast
  from hub_rel_no_wait [OF assms(1) s(1)] have wt: "w_wait w p = None" .
  from send_req [OF assms(2), of p R_deregister _ _ "w_os w"] c(2) obtain m where
    m: "request g IRIS_HUB_MQ_DEREGISTER p [] = Some m" "holds MSG_BYTES (req_bytes p R_deregister) (m_buf m)"
    "SendMQ m (w_os w) = (IRIS_SUCCESS, (w_os w)\<lparr>mq := mq (w_os w) @ [m_buf m]\<rparr>)" by (auto simp: client_ok_def)
  have r: "HubClient_delete g c (w_os w) = Some (if st then w_os w else (w_os w)\<lparr>mq := mq (w_os w) @ [m_buf m]\<rparr>)"
    using m c(2) by (simp add: HubClient_delete_def Deregister_def client_ok_def)
  have i: "io_rel s (w_hub w) (w_os w)" "cl_rel s w" using assms(1) by (simp_all add: hub_rel_def)
  from i(1) have "io_rel (s\<lparr>sp_cl := (sp_cl s)(p := None)\<rparr>) (w_hub w) (w_os w)" by simp
  from i(1) io_rel_send [OF this m(2)] cl_rel_cl [OF i(2), of p None None] c(1) wt r show ?thesis
    unfolding s(3) by (simp add: hub_rel_def)
qed

lemma client_ask_ok:
  assumes "length g = MSG_BYTES" "client_ok p st c"
  shows "\<exists>m b. client_ask a g c os = Some (m, os\<lparr>mq := mq os @ [b]\<rparr>) \<and> m_ok m \<and> m_off m = 0 \<and> holds MSG_BYTES (req_bytes p (ask_req a)) b"
proof -
  obtain h args where r: "req_ints (ask_req a) = (h, args)" by fastforce
  from send_req [OF assms(1) _ r, of p os] assms(2) obtain m where "request g h p args = Some m" "m_ok m"
    "holds MSG_BYTES (req_bytes p (ask_req a)) (m_buf m)" "SendMQ m os = (IRIS_SUCCESS, os\<lparr>mq := mq os @ [m_buf m]\<rparr>)"
    by (auto simp: client_ok_def)
  with r assms(2) show ?thesis
    by (cases a) (auto simp: client_ask_def ask_req_def TaskAll_ask_def Status_ask_def StopHub_ask_def client_ok_def Message_Clear_def m_ok_def)
qed

lemma sim_Ask:
  assumes "hub_rel s w" "length g = MSG_BYTES" "spec_step (Ask p a g) s = Some s'"
  shows "\<exists>w'. world_step (Ask p a g) w = Some w' \<and> hub_rel s' w'"
proof -
  from assms(3) obtain st where s: "sp_wait s p = None" "sp_cl s p = Some st"
    "s' = sp_send p (ask_req a) (s\<lparr>sp_wait := (sp_wait s)(p \<mapsto> a)\<rparr>)" by (auto split: if_splits)
  from hub_rel_client [OF assms(1) s(2)] obtain c where c: "w_cl w p = Some c" "client_ok p st c" by blast
  from hub_rel_no_wait [OF assms(1) s(1)] have wt: "w_wait w p = None" .
  from client_ask_ok [OF assms(2) c(2), of a "w_os w"] obtain m b where
    m: "client_ask a g c (w_os w) = Some (m, (w_os w)\<lparr>mq := mq (w_os w) @ [b]\<rparr>)" "m_ok m" "m_off m = 0"
      "holds MSG_BYTES (req_bytes p (ask_req a)) b" by blast
  have i: "io_rel (s\<lparr>sp_wait := (sp_wait s)(p \<mapsto> a)\<rparr>) (w_hub w) (w_os w)" "cl_rel s w"
    using assms(1) by (simp_all add: hub_rel_def)
  have "cl_available c" using c(2) by (simp add: client_ok_def)
  with io_rel_send [OF i(1) m(4)] cl_rel_wait [OF i(2), of "Some a" "Some (a, m)" p] m c(1) wt show ?thesis
    unfolding s(3) by (simp add: hub_rel_def)
qed

section \<open>Answers\<close>

lemma sint_small:
  assumes "unat (n :: 32 word) < 2 ^ 31"
  shows "sint n = int (unat n)"
proof -
  from assms have "nat (uint n) < 2 ^ 31" by (simp only: unat_eq_nat_uint)
  then have "uint n < 2 ^ 31" using nat_less_iff [of "uint n" "2 ^ 31"] by simp
  then have "signed_take_bit 31 (uint n) = uint n" by (intro signed_take_bit_int_eq_self) (simp_all add: order_trans [OF _ uint_ge_0])
  then show ?thesis by (simp add: sint_uint)
qed

lemma RecvFIFO_ok:
  assumes "fifo os (cl_pid c) = Some (b # q)" "m_ok m" "m_off m = 0" "holds 256 bs b"
  shows "\<exists>m'. RecvFIFO m c os = Some (m', os\<lparr>fifo := (fifo os)(cl_pid c \<mapsto> q)\<rparr>) \<and> unread m' bs"
proof -
  have "length (b @ drop 256 (m_buf m)) = MSG_BYTES"
    using assms(2,4) by (simp add: holds_def m_ok_def MSG_BYTES_def)
  from holds_unread [OF assms(4) this] assms(3)
  have "unread (m\<lparr>m_buf := b @ drop 256 (m_buf m)\<rparr>) bs" by (simp add: unread_def)
  then show ?thesis using assms(1) by (simp add: RecvFIFO_def IRIS_HUB_FIFO_MSG_SIZE_def)
qed

lemma read_header: "unread m (le_bytes 4 h @ rest) \<Longrightarrow> \<exists>m'. ReadHeader m = Some (h, m') \<and> unread m' rest"
  unfolding ReadHeader_def by (rule f_int.get_ok)

lemma client_answer_ok:
  assumes "client_ok p st c" "fifo os p = Some (b # q)" "m_ok m" "m_off m = 0" "holds 256 (reply_bytes r) b" "deliver a r = Some ts"
  shows "\<exists>c'. client_answer a m c os = Some (ts, c', os\<lparr>fifo := (fifo os)(p \<mapsto> q)\<rparr>) \<and> client_ok p (st \<or> a = Ask_stop) c'"
proof -
  have p: "cl_pid c = p" using assms(1) by (simp add: client_ok_def)
  obtain m1 where m1: "RecvFIFO m c os = Some (m1, os\<lparr>fifo := (fifo os)(p \<mapsto> q)\<rparr>)" "unread m1 (reply_bytes r)"
    using RecvFIFO_ok [of os c b q m "reply_bytes r"] assms(2-5) p by auto
  have len: "length (reply_bytes r) \<le> 256" using assms(5) by (simp add: holds_def)
  show ?thesis
  proof (cases "(a, r)" rule: deliver.cases)
    case (1 n cs)
    then have ts: "a = Ask_all n" "r = All_reply ts" "length ts = unat n" using assms(6) by (auto split: if_splits)
    then have "nat (sint n) = length ts" using sint_small [of n] len by simp
    moreover from m1(2) ts obtain m2 where m2: "ReadHeader m1 = Some (IRIS_HUB_FIFO_TASK_ALL, m2)" "unread m2 (ulongs ts)"
      using read_header [of m1 _ "ulongs ts"] by auto
    moreover from m2(2) obtain m3 where "read_ulongs (length ts) m2 = Some (ts, m3)" using read_ulongs_ok [of m2 ts "[]"] by auto
    ultimately show ?thesis using m1 ts(1) assms(1) by (simp add: client_answer_def TaskAll_answer_def)
  next
    case (2 cs)
    then have ts: "a = Ask_status" "r = Status_reply ts" using assms(6) by auto
    then have l: "length ts \<le> 31" using len by simp
    then have u: "unat (of_nat (length ts) :: 32 word) = length ts" by (simp add: unat_of_nat take_bit_nat_eq_self_iff)
    with l have "nat (sint (of_nat (length ts) :: 32 word)) = length ts" using sint_small [of "of_nat (length ts)"] by simp
    moreover from m1(2) ts obtain m2 where m2: "ReadHeader m1 = Some (IRIS_HUB_FIFO_STATUS, m2)"
      "unread m2 (le_bytes 4 (of_nat (length ts) :: 32 word) @ ulongs ts)" using read_header [of m1] by auto
    moreover from f_int.get_ok [OF m2(2)] obtain m3 where m3: "ReadInt m2 = Some (of_nat (length ts), m3)" "unread m3 (ulongs ts)" by auto
    moreover from m3(2) obtain m4 where "read_ulongs (length ts) m3 = Some (ts, m4)" using read_ulongs_ok [of m3 ts "[]"] by auto
    ultimately show ?thesis using m1 ts(1) assms(1) by (simp add: client_answer_def Status_answer_def)
  next
    case 3
    then show ?thesis using m1 assms(1,6) by (auto simp: client_answer_def StopHub_answer_def client_ok_def)
  qed (use assms(6) in auto)
qed

lemma io_rel_pop:
  assumes "io_rel s hub os" "sp_fifo s p = Some (r # q)"
  shows "\<exists>b bs. fifo os p = Some (b # bs) \<and> holds 256 (reply_bytes r) b \<and>
    io_rel (s\<lparr>sp_fifo := (sp_fifo s)(p \<mapsto> q)\<rparr>) hub (os\<lparr>fifo := (fifo os)(p \<mapsto> bs)\<rparr>)"
proof -
  from assms have "rel_option (list_all2 (\<lambda>r b. holds 256 (reply_bytes r) b)) (Some (r # q)) (fifo os p)"
    by (auto simp: io_rel_def dest!: spec [where x = p])
  then obtain b bs where "fifo os p = Some (b # bs)" "holds 256 (reply_bytes r) b" "list_all2 (\<lambda>r b. holds 256 (reply_bytes r) b) q bs"
    by (auto elim!: option.rel_cases simp: list_all2_Cons1)
  with assms(1) show ?thesis by (auto simp: io_rel_def reg_ok_def)
qed

lemma sim_Answer:
  assumes "hub_rel s w" "spec_step (Answer p) s = Some s'"
  shows "\<exists>w'. world_step (Answer p) w = Some w' \<and> hub_rel s' w'"
proof -
  from assms(2) obtain st a r q ts where s: "sp_cl s p = Some st" "sp_wait s p = Some a" "sp_fifo s p = Some (r # q)" "deliver a r = Some ts"
    "s' = s\<lparr>sp_wait := (sp_wait s)(p := None), sp_out := (sp_out s)(p := ts), sp_fifo := (sp_fifo s)(p \<mapsto> q),
            sp_cl := (sp_cl s)(p \<mapsto> (st \<or> a = Ask_stop))\<rparr>" by (auto split: option.splits list.splits)
  from hub_rel_client [OF assms(1) s(1)] obtain c where c: "w_cl w p = Some c" "client_ok p st c" by blast
  from hub_rel_wait [OF assms(1) s(2)] obtain m where m: "w_wait w p = Some (a, m)" "m_ok m" "m_off m = 0" by blast
  have i: "io_rel s (w_hub w) (w_os w)" "cl_rel s w" using assms(1) by (simp_all add: hub_rel_def)
  from io_rel_pop [OF i(1) s(3)] obtain b bs where b: "fifo (w_os w) p = Some (b # bs)" "holds 256 (reply_bytes r) b"
    "io_rel (s\<lparr>sp_fifo := (sp_fifo s)(p \<mapsto> q)\<rparr>) (w_hub w) ((w_os w)\<lparr>fifo := (fifo (w_os w))(p \<mapsto> bs)\<rparr>)" by blast
  from client_answer_ok [OF c(2) b(1) m(2,3) b(2) s(4)] obtain c' where
    c': "client_answer a m c (w_os w) = Some (ts, c', (w_os w)\<lparr>fifo := (fifo (w_os w))(p \<mapsto> bs)\<rparr>)" "client_ok p (st \<or> a = Ask_stop) c'"
    by blast
  from b(3) have "io_rel s' (w_hub w) ((w_os w)\<lparr>fifo := (fifo (w_os w))(p \<mapsto> bs)\<rparr>)" by (simp add: s(5) io_rel_def)
  moreover have "cl_rel s' (w\<lparr>w_wait := (w_wait w)(p := None), w_out := (w_out w)(p := ts), w_cl := (w_cl w)(p \<mapsto> c')\<rparr>)"
    using i(2) c'(2) by (simp add: s(5) cl_rel_def)
  ultimately show ?thesis using c(1) m(1) c'(1) by (simp add: hub_rel_def)
qed

section \<open>Turns of the hub\<close>

lemma map_of_erase: "map_of (omap_erase k m) j = (if j = k then None else map_of m j)"
  by (induction m) (auto simp: omap_erase_def)

lemma fd_chan_upd: "fd_chan fd fds = Some c \<Longrightarrow> fd_chan fd' (fds[nat fd := d]) = (if 0 \<le> fd' \<and> nat fd' = nat fd then d else fd_chan fd' fds)"
  by (auto simp: fd_chan_def split: if_splits)

lemma fd_free_cases: "fd_free fds = length fds \<or> fd_free fds < length fds \<and> fds ! fd_free fds = None"
proof (cases "find_index (\<lambda>c. c = None) fds")
  case (Some i)
  moreover from Some have "i < length fds \<and> fds ! i = None" by (simp only: find_index_Some)
  ultimately show ?thesis by (simp only: fd_free_def option.case simp_thms)
qed (simp only: fd_free_def option.case simp_thms)

lemma os_open_ok:
  assumes "fifo os p \<noteq> None"
  shows "\<exists>fd fds. os_open p os = (fd, os\<lparr>hub_fds := fds\<rparr>) \<and> fd_chan fd fds = Some (Fifo_end p) \<and>
    (\<forall>fd' c. fd_chan fd' (hub_fds os) = Some c \<longrightarrow> fd_chan fd' fds = Some c)"
proof -
  define i where "i = fd_free (hub_fds os)"
  have i: "i \<le> length (hub_fds os)" "i < length (hub_fds os) \<Longrightarrow> hub_fds os ! i = None"
    using fd_free_cases [of "hub_fds os"] by (auto simp: i_def)
  define fds where "fds = (if i < length (hub_fds os) then (hub_fds os)[i := Some (Fifo_end p)] else hub_fds os @ [Some (Fifo_end p)])"
  have "os_open p os = (int i, os\<lparr>hub_fds := fds\<rparr>)"
    using assms by (auto simp: os_open_def i_def [symmetric] fds_def Let_def)
  moreover have "fd_chan (int i) fds = Some (Fifo_end p)" using i by (auto simp: fd_chan_def fds_def nth_append)
  moreover have "fd_chan fd' fds = Some c" if "fd_chan fd' (hub_fds os) = Some c" for fd' c
    using that i by (auto simp: fd_chan_def fds_def nth_append nth_list_update split: if_splits)
  ultimately show ?thesis by blast
qed

lemma SendFIFO_ok:
  assumes "io_rel s hub os" "sp_reply p r s = Some s'" "m_ok m" "written m = reply_bytes r"
  shows "\<exists>hub' os'. SendFIFO m p (hub, os) = (hub', os') \<and> io_rel s' hub' os'"
proof -
  from assms(2) have s: "sp_reg s p" "s' = s\<lparr>sp_fifo := (sp_fifo s)(p := map_option (\<lambda>q. q @ [r]) (sp_fifo s p))\<rparr>"
    by (auto simp: sp_reply_def split: if_splits)
  from s(1) assms(1) obtain fd where fd: "map_of (hb_fifos hub) p = Some fd" "fd_chan fd (hub_fds os) = Some (Fifo_end p)"
    by (auto simp: io_rel_def reg_ok_def)
  define b where "b = take 256 (m_buf m)"
  have l: "length (reply_bytes r) = unat (m_off m)" using length_written [OF assms(3)] assms(4) by simp
  have b: "holds 256 (reply_bytes r) b"
    unfolding holds_def b_def l using assms(3,4) by (simp add: m_ok_def written_def MSG_BYTES_def min_def)
  have so: "sorted_wrt (<) (map fst (hb_fifos hub))" using assms(1) by (simp add: io_rel_def)
  have f: "rel_option (list_all2 (\<lambda>r b. holds 256 (reply_bytes r) b)) (sp_fifo s q) (fifo os q)" for q
    using assms(1) by (simp add: io_rel_def)
  have "rel_option (list_all2 (\<lambda>r b. holds 256 (reply_bytes r) b)) (sp_fifo s' q) (((fifo os)(p := map_option (\<lambda>q. q @ [b]) (fifo os p))) q)" for q
    using f [of q] b unfolding s(2) by (auto simp: option.rel_map elim!: option.rel_mono_strong intro!: list_all2_appendI)
  moreover have "map_of (omap_put p fd (hb_fifos hub)) = map_of (hb_fifos hub)"
    using omap_put_lookup [OF so, of p fd] fd(1) by auto
  moreover have "SendFIFO m p (hub, os) = (hub\<lparr>hb_fifos := omap_put p fd (hb_fifos hub)\<rparr>,
      os\<lparr>fifo := (fifo os)(p := map_option (\<lambda>q. q @ [b]) (fifo os p))\<rparr>)"
    using fd by (simp add: SendFIFO_def omap_at_def os_write_def b_def IRIS_HUB_FIFO_MSG_SIZE_def Let_def)
  ultimately show ?thesis using assms(1) omap_put_sorted [OF so, of p fd] s(2)
    by (auto simp: io_rel_def reg_ok_def)
qed

lemma ExecuteRegister_ok:
  assumes "io_rel s hub os" "serve p (R_register n) s = Some s'" "unread m (le_bytes 4 n)"
  shows "\<exists>hub' os'. ExecuteRegister m p (hub, os) = Some (hub', os') \<and> io_rel s' hub' os'"
proof -
  from assms(2) have s: "sp_fifo s p \<noteq> None"
    "s' = s\<lparr>sp_ndevs := if n = -1 then sp_ndevs s else n, sp_reg := (sp_reg s)(p := True)\<rparr>" by (auto split: if_splits)
  have so: "sorted_wrt (<) (map fst (hb_fifos hub))" using assms(1) by (simp add: io_rel_def)
  have "rel_option (list_all2 (\<lambda>r b. holds 256 (reply_bytes r) b)) (sp_fifo s p) (fifo os p)" using assms(1) by (simp add: io_rel_def)
  then have "fifo os p \<noteq> None" using s(1) by (auto simp: option_rel_Some1)
  from os_open_ok [OF this] obtain fd fds where o: "os_open p os = (fd, os\<lparr>hub_fds := fds\<rparr>)" "fd_chan fd fds = Some (Fifo_end p)"
    "\<And>fd' c. fd_chan fd' (hub_fds os) = Some c \<Longrightarrow> fd_chan fd' fds = Some c" by blast
  from f_int.get_ok [of m n "[]"] assms(3) obtain m' where "ReadInt m = Some (n, m')" by auto
  with o(1) have "ExecuteRegister m p (hub, os) = Some
     ((if n = -1 then hub else hub\<lparr>hb_ndevs := n\<rparr>)\<lparr>hb_fifos := omap_put p fd (hb_fifos hub)\<rparr>, os\<lparr>hub_fds := fds\<rparr>)"
    by (simp add: ExecuteRegister_def Let_def)
  moreover have "reg_ok q ((if n = -1 then hub else hub\<lparr>hb_ndevs := n\<rparr>)\<lparr>hb_fifos := omap_put p fd (hb_fifos hub)\<rparr>) (os\<lparr>hub_fds := fds\<rparr>)"
    if "sp_reg s' q" for q
    using that assms(1) o(2,3) s(2) by (auto simp: reg_ok_def io_rel_def omap_put_lookup [OF so] split: if_splits)
  ultimately show ?thesis using assms(1) omap_put_sorted [OF so, of p fd] s(2)
    by (auto simp: io_rel_def)
qed

lemma ExecuteDeregister_ok:
  assumes "io_rel s hub os" "serve p R_deregister s = Some s'"
  shows "\<exists>hub' os'. ExecuteDeregister m p (hub, os) = Some (hub', os') \<and> io_rel s' hub' os'"
proof -
  from assms(2) have s: "sp_reg s p" "s' = s\<lparr>sp_reg := (sp_reg s)(p := False), sp_fifo := (sp_fifo s)(p := None)\<rparr>"
    by (auto split: if_splits)
  from s(1) assms(1) obtain fd where fd: "map_of (hb_fifos hub) p = Some fd" "fd_chan fd (hub_fds os) = Some (Fifo_end p)"
    by (auto simp: io_rel_def reg_ok_def)
  have "reg_ok q (hub\<lparr>hb_fifos := omap_erase p (hb_fifos hub)\<rparr>) (os\<lparr>hub_fds := (hub_fds os)[nat fd := None], fifo := (fifo os)(p := None)\<rparr>)"
    if r: "sp_reg s' q" for q
  proof -
    from r s(2) have q: "q \<noteq> p" "sp_reg s q" by (auto split: if_splits)
    from q(2) assms(1) obtain fq where fq: "map_of (hb_fifos hub) q = Some fq" "fd_chan fq (hub_fds os) = Some (Fifo_end q)"
      by (auto simp: io_rel_def reg_ok_def)
    then have "nat fq \<noteq> nat fd" using fd(2) q(1) by (auto simp: fd_chan_def split: if_splits)
    with fq q(1) fd(2) show ?thesis by (auto simp: reg_ok_def map_of_erase fd_chan_upd [OF fd(2)])
  qed
  moreover have "ExecuteDeregister m p (hub, os) = Some (hub\<lparr>hb_fifos := omap_erase p (hb_fifos hub)\<rparr>,
      os\<lparr>hub_fds := (hub_fds os)[nat fd := None], fifo := (fifo os)(p := None)\<rparr>)"
    using fd by (simp add: ExecuteDeregister_def omap_at_def os_close_def os_remove_def)
  ultimately show ?thesis using assms(1) s(2) omap_erase_sorted [of "hb_fifos hub" p]
    by (auto simp: io_rel_def)
qed

lemma ExecuteTaskInc_ok:
  assumes "io_rel s hub os" "serve p (R_inc dev i) s = Some s'" "unread m (le_bytes 4 dev @ le_bytes 4 i)"
  shows "\<exists>hub' os'. ExecuteTaskInc m p (hub, os) = Some (hub', os') \<and> io_rel s' hub' os'"
proof -
  from assms(2) have s: "unat dev < 255" "s' = s\<lparr>sp_count := (sp_count s)[unat dev := sp_count s ! unat dev + scast i]\<rparr>"
    by (auto split: if_splits simp: word_less_nat_alt)
  from f_int.get_ok [OF assms(3)] obtain m1 where m1: "ReadInt m = Some (dev, m1)" "unread m1 (le_bytes 4 i @ [])" by auto
  from f_int.get_ok [OF m1(2)] obtain m2 where m2: "ReadInt m1 = Some (i, m2)" by auto
  have d: "sint dev = int (unat dev)" using s(1) by (intro sint_small) simp
  have r: "hb_ntasks hub = sp_count s" "length (sp_count s) = 255" using assms(1) by (simp_all add: io_rel_def)
  then have "ExecuteTaskInc m p (hub, os) = Some (hub\<lparr>hb_ntasks := (sp_count s)[unat dev := sp_count s ! unat dev + scast i]\<rparr>, os)"
    using m1(1) m2 s(1) by (simp add: ExecuteTaskInc_def d cell_def)
  with assms(1) s(2) show ?thesis by (auto simp: io_rel_def reg_ok_def)
qed

lemma Message_Write_take: "unat sz \<le> length v \<Longrightarrow> Message_Write v sz m = Message_Write (take (unat sz) v) sz m"
  by (simp add: Message_Write_def memcpy_def)

lemma unat_scast_times8: "unat (n :: 32 word) \<le> 31 \<Longrightarrow> unat (scast n * 8 :: size_t) = 8 * unat n"
proof -
  assume n: "unat n \<le> 31"
  then have "(scast n :: size_t) = word_of_nat (unat n)" using sint_small [of n] by (simp add: scast_eq)
  then have "(scast n * 8 :: size_t) = word_of_nat (8 * unat n)" by simp
  then show ?thesis using n by (simp only: unat_of_nat) (simp add: take_bit_nat_eq_self_iff)
qed

lemma ExecuteTaskAll_ok:
  assumes "io_rel s hub os" "serve p (R_all n) s = Some s'" "unread m (le_bytes 4 n)" "length g = MSG_BYTES"
  shows "\<exists>hub' os'. ExecuteTaskAll g m p (hub, os) = Some (hub', os') \<and> io_rel s' hub' os'"
proof -
  define cs where "cs = take (unat n) (sp_count s)"
  from assms(2) have s: "unat n \<le> 31" "sp_reply p (All_reply cs) s = Some s'"
    by (auto split: if_splits simp: word_le_nat_alt cs_def)
  have r: "hb_ntasks hub = sp_count s" "length (sp_count s) = 255" using assms(1) by (simp_all add: io_rel_def)
  from f_int.get_ok [of m n "[]"] assms(3) obtain m1 where m1: "ReadInt m = Some (n, m1)" by auto
  from Message_new_ok [OF assms(4), of IRIS_HUB_FIFO_TASK_ALL] obtain f where
    f: "Message_new g (ucast IRIS_HUB_FIFO_TASK_ALL) = Some f" "m_ok f" "written f = le_bytes 4 IRIS_HUB_FIFO_TASK_ALL" "unat (m_off f) = 4"
    by blast
  have sz: "unat (scast n * 8 :: size_t) = 8 * unat n" by (rule unat_scast_times8 [OF s(1)])
  have v: "take (8 * unat n) (ulongs (sp_count s)) = ulongs cs" by (simp add: take_ulongs cs_def)
  have l: "length (ulongs cs) = 8 * unat n" using s(1) r(2) by (simp add: cs_def)
  have "Message_Write (ulongs (sp_count s)) (scast n * 8) f = Message_Write (ulongs cs) (scast n * 8) f"
    using Message_Write_take [of "scast n * 8" "ulongs (sp_count s)" f] s(1) r(2) by (simp add: sz v)
  moreover obtain f' where "Message_Write (ulongs cs) (scast n * 8) f = Some (True, f')" "m_ok f'" "written f' = reply_bytes (All_reply cs)"
    using Message_Write_ok [OF f(2), of "ulongs cs" "scast n * 8"] l sz s(1) f(3,4) by auto
  ultimately have "ExecuteTaskAll g m p (hub, os) = Some (SendFIFO f' p (hub, os))" "m_ok f'" "written f' = reply_bytes (All_reply cs)"
    using m1 f(1) r(1) by (simp_all add: ExecuteTaskAll_def ulongs_def)
  with SendFIFO_ok [OF assms(1) s(2)] show ?thesis by auto
qed

lemma ExecuteStatus_ok:
  assumes "io_rel s hub os" "serve p R_status s = Some s'" "length g = MSG_BYTES"
  shows "\<exists>hub' os'. ExecuteStatus g m p (hub, os) = Some (hub', os') \<and> io_rel s' hub' os'"
proof -
  define n where "n = sp_ndevs s"
  define cs where "cs = take (unat n) (sp_count s)"
  from assms(2) have s: "unat n \<le> 31" "sp_reply p (Status_reply cs) s = Some s'"
    by (auto split: if_splits simp: word_le_nat_alt cs_def n_def)
  have r: "hb_ntasks hub = sp_count s" "length (sp_count s) = 255" "hb_ndevs hub = n" using assms(1) by (simp_all add: io_rel_def n_def)
  then have l: "length cs = unat n" using s(1) by (simp add: cs_def)
  have i: "nat (sint n) = unat n" using sint_small [of n] s(1) by simp
  from Message_new_ok [OF assms(3), of IRIS_HUB_FIFO_STATUS] obtain f where
    f: "Message_new g (ucast IRIS_HUB_FIFO_STATUS) = Some f" "m_ok f" "written f = le_bytes 4 IRIS_HUB_FIFO_STATUS" "unat (m_off f) = 4"
    by blast
  from write_ints_ok [OF f(2), of "[n]"] f(3,4) obtain f1 where
    f1: "write_ints [n] f = Some f1" "m_ok f1" "written f1 = le_bytes 4 IRIS_HUB_FIFO_STATUS @ le_bytes 4 n" "unat (m_off f1) = 8" by auto
  from write_ulongs_ok [OF f1(2), of cs] f1(3,4) s(1) l obtain f2 where
    f2: "write_ulongs cs f1 = Some f2" "m_ok f2" "written f2 = reply_bytes (Status_reply cs)" by auto
  have "ExecuteStatus g m p (hub, os) = Some (SendFIFO f2 p (hub, os))"
    using f(1) f1(1) f2(1) r s(1) by (simp add: ExecuteStatus_def i cs_def [symmetric])
  with SendFIFO_ok [OF assms(1) s(2) f2(2,3)] show ?thesis by auto
qed

lemma ExecuteStop_ok:
  assumes "io_rel s hub os" "serve p R_stop s = Some s'" "length g = MSG_BYTES"
  shows "\<exists>hub' os'. ExecuteStop g m p (hub, os) = Some (hub', os') \<and> io_rel s' hub' os'"
proof -
  have "io_rel (s\<lparr>sp_run := False\<rparr>) (hub\<lparr>hb_running := False\<rparr>) os" using assms(1) by (simp add: io_rel_def reg_ok_def)
  moreover from Message_new_ok [OF assms(3), of IRIS_HUB_FIFO_STOP] obtain f where
    "Message_new g (ucast IRIS_HUB_FIFO_STOP) = Some f" "m_ok f" "written f = reply_bytes Stop_reply" by auto
  ultimately show ?thesis using SendFIFO_ok [of _ _ os p Stop_reply s' f] assms(2) by (auto simp: ExecuteStop_def)
qed

lemma turn_head:
  assumes "holds MSG_BYTES (req_bytes p r) b"
  shows "\<exists>m1 m2. ReadHeader \<lparr>m_buf = b, m_off = 0\<rparr> = Some (fst (req_ints r), m1) \<and> ReadPID m1 = Some (p, m2) \<and> unread m2 (ints (snd (req_ints r)))"
proof -
  have "unread \<lparr>m_buf = b @ [], m_off = 0\<rparr> (req_bytes p r)"
    using holds_unread [OF assms, of "[]"] assms by (simp add: holds_def)
  then have u: "unread \<lparr>m_buf = b, m_off = 0\<rparr> (le_bytes 4 (fst (req_ints r)) @ le_bytes 4 p @ ints (snd (req_ints r)))"
    by (simp add: req_bytes_def)
  from f_int.get_ok [OF u] obtain m1 where m1: "ReadInt \<lparr>m_buf = b, m_off = 0\<rparr> = Some (fst (req_ints r), m1)"
    "unread m1 (le_bytes 4 p @ ints (snd (req_ints r)))" by blast
  from f_int.get_ok [OF m1(2)] m1(1) show ?thesis by (auto simp: ReadHeader_def ReadPID_def)
qed

lemma serve_ok:
  assumes "io_rel s hub os" "serve p r s = Some s'" "unread m2 (ints (snd (req_ints r)))" "length g = MSG_BYTES"
    "hb_running hub" "mq os0 = b # mq os" "os = os0\<lparr>mq := mq os\<rparr>"
    "ReadHeader \<lparr>m_buf = b, m_off = 0\<rparr> = Some (fst (req_ints r), m1)" "ReadPID m1 = Some (p, m2)"
  shows "\<exists>hub' os'. Hub_turn g (hub, os0) = Some (hub', os') \<and> io_rel s' hub' os'"
proof -
  have t: "Hub_turn g (hub, os0) =
      (case r of R_register n \<Rightarrow> ExecuteRegister m2 p (hub, os) | R_deregister \<Rightarrow> ExecuteDeregister m2 p (hub, os)
       | R_inc dev i \<Rightarrow> ExecuteTaskInc m2 p (hub, os) | R_all n \<Rightarrow> ExecuteTaskAll g m2 p (hub, os)
       | R_status \<Rightarrow> ExecuteStatus g m2 p (hub, os) | R_stop \<Rightarrow> ExecuteStop g m2 p (hub, os))"
    using assms(5-9) by (cases r) (simp_all add: Hub_turn_def hub_headers)
  show ?thesis
    unfolding t using assms(1-4)
    by (cases r) (auto simp del: serve.simps simp: ExecuteRegister_ok ExecuteDeregister_ok ExecuteTaskInc_ok ExecuteTaskAll_ok ExecuteStatus_ok ExecuteStop_ok)
qed

lemma serve_frame: "serve p r s = Some s' \<Longrightarrow> sp_cl s' = sp_cl s \<and> sp_wait s' = sp_wait s \<and> sp_out s' = sp_out s"
  by (cases r) (auto simp: sp_reply_def split: if_splits)

lemma sim_Turn:
  assumes "hub_rel s w" "length g = MSG_BYTES" "spec_step (Turn g) s = Some s'"
  shows "\<exists>w'. world_step (Turn g) w = Some w' \<and> hub_rel s' w'"
proof -
  from assms(3) obtain p r q where s: "sp_run s" "sp_q s = (p, r) # q" "serve p r (s\<lparr>sp_q := q\<rparr>) = Some s'"
    by (auto split: if_splits list.splits)
  have i: "io_rel s (w_hub w) (w_os w)" "cl_rel s w" using assms(1) by (simp_all add: hub_rel_def)
  then have run: "hb_running (w_hub w)" using s(1) by (simp add: io_rel_def)
  from i(1) s(2) obtain b bs where b: "mq (w_os w) = b # bs" "holds MSG_BYTES (req_bytes p r) b"
    by (auto simp: io_rel_def list_all2_Cons1)
  have i': "io_rel (s\<lparr>sp_q := q\<rparr>) (w_hub w) ((w_os w)\<lparr>mq := bs\<rparr>)"
    using i(1) s(2) b(1) by (auto simp: io_rel_def reg_ok_def)
  from turn_head [OF b(2)] obtain m1 m2 where m: "ReadHeader \<lparr>m_buf = b, m_off = 0\<rparr> = Some (fst (req_ints r), m1)"
    "ReadPID m1 = Some (p, m2)" "unread m2 (ints (snd (req_ints r)))" by blast
  from serve_ok [OF i' s(3) m(3) assms(2) run _ _ m(1,2), of "w_os w"] b(1) obtain hub' os' where
    t: "Hub_turn g (w_hub w, w_os w) = Some (hub', os')" "io_rel s' hub' os'" by auto
  from serve_frame [OF s(3)] i(2) have "cl_rel s' w" by (simp add: cl_rel_def)
  with t show ?thesis by (simp add: hub_rel_def)
qed

section \<open>Every schedule\<close>

interpretation hub: simulation hub_rel spec_step world_step event_ok
proof
  fix s w e s'
  assume "hub_rel s w" "event_ok e" "spec_step e s = Some s'"
  then show "\<exists>w'. world_step e w = Some w' \<and> hub_rel s' w'"
  proof (cases e)
    case (Start p n g)
    with \<open>hub_rel s w\<close> \<open>event_ok e\<close> \<open>spec_step e s = Some s'\<close> show ?thesis using sim_Start by (simp del: spec_step.simps world_step.simps)
  next
    case (Inc p dev i g)
    with \<open>hub_rel s w\<close> \<open>event_ok e\<close> \<open>spec_step e s = Some s'\<close> show ?thesis
      using sim_Inc [of s w g p _ dev i] by (auto simp del: world_step.simps split: if_splits)
  next
    case (Dec p dev i g)
    with \<open>hub_rel s w\<close> \<open>event_ok e\<close> \<open>spec_step e s = Some s'\<close> show ?thesis
      using sim_Dec [of s w g p _ dev i] by (auto simp del: world_step.simps split: if_splits)
  next
    case (Ask p a g)
    with \<open>hub_rel s w\<close> \<open>event_ok e\<close> \<open>spec_step e s = Some s'\<close> show ?thesis using sim_Ask by (simp del: spec_step.simps world_step.simps)
  next
    case (Answer p)
    with \<open>hub_rel s w\<close> \<open>event_ok e\<close> \<open>spec_step e s = Some s'\<close> show ?thesis using sim_Answer by (simp del: spec_step.simps world_step.simps)
  next
    case (Finish p g)
    with \<open>hub_rel s w\<close> \<open>event_ok e\<close> \<open>spec_step e s = Some s'\<close> show ?thesis using sim_Finish by (simp del: spec_step.simps world_step.simps)
  next
    case (Turn g)
    with \<open>hub_rel s w\<close> \<open>event_ok e\<close> \<open>spec_step e s = Some s'\<close> show ?thesis using sim_Turn by (simp del: spec_step.simps world_step.simps)
  qed
qed

lemma hub_rel_start: "hub_rel spec_start world_start"
  by (simp add: hub_rel_def io_rel_def cl_rel_def spec_start_def world_start_def Hub_new_def IRIS_MAX_NDEVS_def)

end
