(* ===== verification/Iris_HubProps.thy ===== *)
theory Iris_HubProps
  imports Iris_HubProof
begin

text \<open>
  Properties of the hub: its counters add up, a reply to \<open>TaskAll\<close> is a snapshot taken at its request, every request is
  answered, and what happens with more than 31 devices.
\<close>

section \<open>The protocol of one process\<close>

definition mine :: "pid \<Rightarrow> (pid \<times> req) list \<Rightarrow> req list" where
  "mine p q = map snd (filter (\<lambda>x. fst x = p) q)"

fun is_ask :: "req \<Rightarrow> bool" where
  "is_ask (R_all n) = True" | "is_ask R_status = True" | "is_ask R_stop = True" | "is_ask _ = False"

fun plain :: "req \<Rightarrow> bool" where
  "plain (R_register n) = False" | "plain R_deregister = False" | "plain _ = True"

text \<open>Nobody waits and there is no request and no reply under way, or the one request or its reply is.\<close>

fun wait_ok :: "ask option \<Rightarrow> bool \<Rightarrow> req list \<Rightarrow> reply list \<Rightarrow> bool" where
  "wait_ok None alive asks rs \<longleftrightarrow> asks = [] \<and> rs = []"
| "wait_ok (Some a) alive asks rs \<longleftrightarrow>
     alive \<and> (asks = [ask_req a] \<and> rs = [] \<or> asks = [] \<and> (\<exists>r. rs = [r] \<and> deliver a r \<noteq> None))"

definition proc_ok :: "req list \<Rightarrow> bool \<Rightarrow> reply list option \<Rightarrow> bool option \<Rightarrow> ask option \<Rightarrow> bool" where
  "proc_ok qs reg f cl wt \<longleftrightarrow>
     (case f of
        None \<Rightarrow> qs = [] \<and> \<not> reg \<and> cl = None \<and> wt = None
      | Some rs \<Rightarrow>
          \<exists>pre body post. qs = pre @ body @ post \<and> (if reg then pre = [] else \<exists>n. pre = [R_register n]) \<and>
            (post = [] \<or> post = [R_deregister] \<and> cl = None) \<and> list_all plain body \<and> wait_ok wt (cl \<noteq> None) (filter is_ask body) rs)"

lemma proc_okI:
  "qs = pre @ body @ post \<Longrightarrow> (if reg then pre = [] else \<exists>n. pre = [R_register n]) \<Longrightarrow> post = [] \<or> post = [R_deregister] \<and> cl = None \<Longrightarrow>
   list_all plain body \<Longrightarrow> wait_ok wt (cl \<noteq> None) (filter is_ask body) rs \<Longrightarrow> proc_ok qs reg (Some rs) cl wt"
  unfolding proc_ok_def option.case by blast

lemma proc_okE:
  assumes "proc_ok qs reg f cl wt" "qs \<noteq> [] \<or> cl \<noteq> None"
  obtains rs pre body post where "f = Some rs" "qs = pre @ body @ post" "if reg then pre = [] else \<exists>n. pre = [R_register n]"
    "post = [] \<or> post = [R_deregister] \<and> cl = None" "list_all plain body" "wait_ok wt (cl \<noteq> None) (filter is_ask body) rs"
  using assms by (cases f) (auto simp: proc_ok_def)

lemma ask_req_simps [simp]: "is_ask (ask_req a)" "plain (ask_req a)"
  by (simp_all add: ask_req_def split: ask.split)

lemma proc_start: "proc_ok qs reg None None wt \<Longrightarrow> proc_ok (qs @ [R_register n]) reg (Some []) (Some False) wt"
  by (rule proc_okI [of _ "[R_register n]" "[]" "[]"]) (auto simp: proc_ok_def)

lemma proc_inc:
  assumes "proc_ok qs reg f (Some st) wt"
  shows "proc_ok (qs @ [R_inc dev i]) reg f (Some st) wt"
proof -
  from assms obtain rs pre body post where p: "f = Some rs" "qs = pre @ body @ post" "if reg then pre = [] else \<exists>n. pre = [R_register n]"
    "post = [] \<or> post = [R_deregister] \<and> Some st = None" "list_all plain body" "wait_ok wt (Some st \<noteq> None) (filter is_ask body) rs"
    by (rule proc_okE) auto
  show ?thesis unfolding p(1) by (rule proc_okI [of _ pre "body @ [R_inc dev i]" "[]"]) (use p in auto)
qed

lemma proc_ask:
  assumes "proc_ok qs reg f (Some st) None"
  shows "proc_ok (qs @ [ask_req a]) reg f (Some st) (Some a)"
proof -
  from assms obtain rs pre body post where p: "f = Some rs" "qs = pre @ body @ post" "if reg then pre = [] else \<exists>n. pre = [R_register n]"
    "post = [] \<or> post = [R_deregister] \<and> Some st = None" "list_all plain body" "wait_ok None (Some st \<noteq> None) (filter is_ask body) rs"
    by (rule proc_okE) auto
  show ?thesis unfolding p(1) by (rule proc_okI [of _ pre "body @ [ask_req a]" "[]"]) (use p in auto)
qed

lemma proc_finish:
  assumes "proc_ok qs reg f (Some st) None"
  shows "proc_ok (qs @ [R_deregister]) reg f None None" "proc_ok qs reg f None None"
proof -
  from assms obtain rs pre body post where p: "f = Some rs" "qs = pre @ body @ post" "if reg then pre = [] else \<exists>n. pre = [R_register n]"
    "post = [] \<or> post = [R_deregister] \<and> Some st = None" "list_all plain body" "wait_ok None (Some st \<noteq> None) (filter is_ask body) rs"
    by (rule proc_okE) auto
  show "proc_ok (qs @ [R_deregister]) reg f None None"
    unfolding p(1) by (rule proc_okI [of _ pre body "[R_deregister]"]) (use p in auto)
  show "proc_ok qs reg f None None" unfolding p(1) by (rule proc_okI [of _ pre body "[]"]) (use p in auto)
qed

lemma proc_answer:
  assumes "proc_ok qs reg (Some (r # q)) (Some st) (Some a)"
  shows "q = []" "proc_ok qs reg (Some q) (Some st') None"
proof -
  from assms obtain rs pre body post where p: "Some (r # q) = Some rs" "qs = pre @ body @ post" "if reg then pre = [] else \<exists>n. pre = [R_register n]"
    "post = [] \<or> post = [R_deregister] \<and> Some st = None" "list_all plain body" "wait_ok (Some a) (Some st \<noteq> None) (filter is_ask body) rs"
    by (rule proc_okE) auto
  from p(1,6) show "q = []" by auto
  show "proc_ok qs reg (Some q) (Some st') None" by (rule proc_okI [of _ pre body "[]"]) (use p in auto)
qed

text \<open>What the first request of a process in the queue says about the process.\<close>

lemma proc_register:
  assumes "proc_ok (R_register n # qs) reg f cl wt"
  shows "f \<noteq> None" "proc_ok qs True f cl wt"
proof -
  from assms obtain rs pre body post where p: "f = Some rs" "R_register n # qs = pre @ body @ post" "if reg then pre = [] else \<exists>n. pre = [R_register n]"
    "post = [] \<or> post = [R_deregister] \<and> cl = None" "list_all plain body" "wait_ok wt (cl \<noteq> None) (filter is_ask body) rs"
    by (rule proc_okE) auto
  show "f \<noteq> None" by (simp add: p(1))
  have "pre = [R_register n] \<and> qs = body @ post" using p(2-5) by (cases body) (auto split: if_splits)
  then show "proc_ok qs True f cl wt" unfolding p(1) by (intro proc_okI [of _ "[]" body post]) (use p in auto)
qed

lemma proc_deregister:
  assumes "proc_ok (R_deregister # qs) reg f cl wt"
  shows "reg" "proc_ok qs False None cl wt"
proof -
  from assms obtain rs pre body post where p: "f = Some rs" "R_deregister # qs = pre @ body @ post" "if reg then pre = [] else \<exists>n. pre = [R_register n]"
    "post = [] \<or> post = [R_deregister] \<and> cl = None" "list_all plain body" "wait_ok wt (cl \<noteq> None) (filter is_ask body) rs"
    by (rule proc_okE) auto
  from p(2,3) show "reg" by (auto split: if_splits)
  with p(2-6) show "proc_ok qs False None cl wt" by (cases body; cases wt) (auto simp: proc_ok_def)
qed

lemma proc_serve_inc:
  assumes "proc_ok (R_inc dev i # qs) reg f cl wt"
  shows "proc_ok qs reg f cl wt"
proof -
  from assms obtain rs pre body post where p: "f = Some rs" "R_inc dev i # qs = pre @ body @ post" "if reg then pre = [] else \<exists>n. pre = [R_register n]"
    "post = [] \<or> post = [R_deregister] \<and> cl = None" "list_all plain body" "wait_ok wt (cl \<noteq> None) (filter is_ask body) rs"
    by (rule proc_okE) auto
  then obtain body' where "pre = []" "body = R_inc dev i # body'" by (cases body) (auto split: if_splits)
  then show ?thesis unfolding p(1) by (intro proc_okI [of _ pre body' post]) (use p in \<open>auto split: if_splits\<close>)
qed

lemma proc_serve_ask:
  assumes "proc_ok (r # qs) reg f cl wt" "is_ask r"
  shows "reg" "f = Some []" "\<exists>a. wt = Some a \<and> r = ask_req a"
    "wt = Some a \<Longrightarrow> deliver a rp \<noteq> None \<Longrightarrow> proc_ok qs reg (Some [rp]) cl wt"
proof -
  from assms(1) obtain rs pre body post where p: "f = Some rs" "r # qs = pre @ body @ post" "if reg then pre = [] else \<exists>n. pre = [R_register n]"
    "post = [] \<or> post = [R_deregister] \<and> cl = None" "list_all plain body" "wait_ok wt (cl \<noteq> None) (filter is_ask body) rs"
    by (rule proc_okE) auto
  with assms(2) have h: "pre = []" "reg" by (auto split: if_splits)
  from h p(2,4) assms(2) obtain body' where b: "body = r # body'" "qs = body' @ post" by (cases body) auto
  show "reg" by (rule h)
  from p(1,6) b assms(2) show f: "f = Some []" "\<exists>a. wt = Some a \<and> r = ask_req a" by (cases wt; auto)+
  assume "wt = Some a" "deliver a rp \<noteq> None"
  then show "proc_ok qs reg (Some [rp]) cl wt" by (intro proc_okI [of _ "[]" body' post]) (use p h b assms(2) in auto)
qed

section \<open>The invariant of the system\<close>

definition spec_inv :: "spec \<Rightarrow> bool" where
  "spec_inv s \<longleftrightarrow> length (sp_count s) = 255 \<and>
     (\<forall>p. proc_ok (mine p (sp_q s)) (sp_reg s p) (sp_fifo s p) (sp_cl s p) (sp_wait s p))"

lemma mine_simps [simp]:
  "mine p [] = []" "mine p (x # q) = (if fst x = p then snd x # mine p q else mine p q)" "mine p (q @ q') = mine p q @ mine p q'"
  by (simp_all add: mine_def)

lemma spec_inv_send:
  assumes "spec_inv s"
  shows "sp_cl s p = None \<Longrightarrow> sp_fifo s p = None \<Longrightarrow>
      spec_inv (sp_send p (R_register n) (s\<lparr>sp_cl := (sp_cl s)(p \<mapsto> False), sp_fifo := (sp_fifo s)(p \<mapsto> [])\<rparr>))"
    and "sp_cl s p = Some st \<Longrightarrow> spec_inv (sp_send p (R_inc dev i) s)"
    and "sp_cl s p = Some st \<Longrightarrow> sp_wait s p = None \<Longrightarrow> spec_inv (sp_send p (ask_req a) (s\<lparr>sp_wait := (sp_wait s)(p \<mapsto> a)\<rparr>))"
    and "sp_cl s p = Some st \<Longrightarrow> sp_wait s p = None \<Longrightarrow> spec_inv (sp_send p R_deregister (s\<lparr>sp_cl := (sp_cl s)(p := None)\<rparr>))"
    and "sp_cl s p = Some st \<Longrightarrow> sp_wait s p = None \<Longrightarrow> spec_inv (s\<lparr>sp_cl := (sp_cl s)(p := None)\<rparr>)"
proof -
  have i: "proc_ok (mine p' (sp_q s)) (sp_reg s p') (sp_fifo s p') (sp_cl s p') (sp_wait s p')" for p'
    using assms by (simp add: spec_inv_def)
  have l: "length (sp_count s) = 255" using assms by (simp add: spec_inv_def)
  show "sp_cl s p = None \<Longrightarrow> sp_fifo s p = None \<Longrightarrow>
      spec_inv (sp_send p (R_register n) (s\<lparr>sp_cl := (sp_cl s)(p \<mapsto> False), sp_fifo := (sp_fifo s)(p \<mapsto> [])\<rparr>))"
    using i l i [of p] by (auto simp: spec_inv_def sp_send_def intro: proc_start)
  show "sp_cl s p = Some st \<Longrightarrow> spec_inv (sp_send p (R_inc dev i) s)"
    using i l i [of p] by (auto simp: spec_inv_def sp_send_def intro: proc_inc)
  show "sp_cl s p = Some st \<Longrightarrow> sp_wait s p = None \<Longrightarrow> spec_inv (sp_send p (ask_req a) (s\<lparr>sp_wait := (sp_wait s)(p \<mapsto> a)\<rparr>))"
    using i l i [of p] by (auto simp: spec_inv_def sp_send_def intro: proc_ask)
  show "sp_cl s p = Some st \<Longrightarrow> sp_wait s p = None \<Longrightarrow> spec_inv (sp_send p R_deregister (s\<lparr>sp_cl := (sp_cl s)(p := None)\<rparr>))"
    using i l i [of p] by (auto simp: spec_inv_def sp_send_def intro: proc_finish(1))
  show "sp_cl s p = Some st \<Longrightarrow> sp_wait s p = None \<Longrightarrow> spec_inv (s\<lparr>sp_cl := (sp_cl s)(p := None)\<rparr>)"
    using i l i [of p] by (auto simp: spec_inv_def intro: proc_finish(2))
qed

lemma spec_inv_answer:
  assumes "spec_inv s" "sp_cl s p = Some st" "sp_wait s p = Some a" "sp_fifo s p = Some (r # q)"
  shows "spec_inv (s\<lparr>sp_wait := (sp_wait s)(p := None), sp_out := (sp_out s)(p := ts), sp_fifo := (sp_fifo s)(p \<mapsto> q),
    sp_cl := (sp_cl s)(p \<mapsto> st')\<rparr>)"
proof -
  have "proc_ok (mine p (sp_q s)) (sp_reg s p) (Some (r # q)) (Some st) (Some a)" using assms by (auto simp: spec_inv_def dest: spec [where x = p])
  from proc_answer(2) [OF this] assms(1) show ?thesis by (auto simp: spec_inv_def)
qed

text \<open>Serving the first request keeps the invariant; the head of the queue is \<open>(p, r)\<close>.\<close>

lemma spec_inv_reply:
  assumes "spec_inv s" "sp_q s = (p, r) # q" "is_ask r" "sp_reply p rp (s\<lparr>sp_q := q\<rparr>) = Some s'"
    "\<And>a. r = ask_req a \<Longrightarrow> deliver a rp \<noteq> None"
  shows "spec_inv s'"
proof -
  have "proc_ok (r # mine p q) (sp_reg s p) (sp_fifo s p) (sp_cl s p) (sp_wait s p)"
    using assms(1,2) by (auto simp: spec_inv_def dest!: spec [where x = p])
  note h = proc_serve_ask [OF this assms(3)]
  from h(3) obtain a where a: "sp_wait s p = Some a" "r = ask_req a" by blast
  from h(4) [OF a(1) assms(5) [OF a(2)]] assms(1,2,4) h(2) show ?thesis
    by (auto simp: spec_inv_def sp_reply_def split: if_splits)
qed

lemma take_count_deliver: "length c = 255 \<Longrightarrow> n \<le> 31 \<Longrightarrow> length (take (unat (n :: 32 word)) c) = unat n"
  by (simp add: word_le_nat_alt)

lemma spec_inv_serve:
  assumes "spec_inv s" "sp_q s = (p, r) # q" "serve p r (s\<lparr>sp_q := q\<rparr>) = Some s'"
  shows "spec_inv s'"
proof -
  have i: "proc_ok (mine p' (sp_q s)) (sp_reg s p') (sp_fifo s p') (sp_cl s p') (sp_wait s p')" for p'
    using assms by (simp add: spec_inv_def)
  have l: "length (sp_count s) = 255" using assms by (simp add: spec_inv_def)
  have ip: "proc_ok (r # mine p q) (sp_reg s p) (sp_fifo s p) (sp_cl s p) (sp_wait s p)"
    using i [of p] by (simp add: assms(2))
  have iq: "p' \<noteq> p \<Longrightarrow> proc_ok (mine p' q) (sp_reg s p') (sp_fifo s p') (sp_cl s p') (sp_wait s p')" for p'
    using i [of p'] by (simp add: assms(2))
  show ?thesis
  proof (cases r)
    case (R_register n)
    then show ?thesis using proc_register [of n] ip iq l assms(3) by (auto simp: spec_inv_def split: if_splits)
  next
    case R_deregister
    then show ?thesis using proc_deregister ip iq l assms(3) by (auto simp: spec_inv_def split: if_splits)
  next
    case (R_inc dev i)
    then have "proc_ok (mine p q) (sp_reg s p) (sp_fifo s p) (sp_cl s p) (sp_wait s p)"
      using ip by (simp add: proc_serve_inc [of dev i])
    then have "proc_ok (mine p' q) (sp_reg s p') (sp_fifo s p') (sp_cl s p') (sp_wait s p')" for p'
      using iq by (cases "p' = p") simp_all
    then show ?thesis using R_inc l assms(3) by (auto simp: spec_inv_def split: if_splits)
  next
    case (R_all n)
    with assms(3) have n: "n \<le> 31" "sp_reply p (All_reply (take (unat n) (sp_count s))) (s\<lparr>sp_q := q\<rparr>) = Some s'" by (auto split: if_splits)
    show ?thesis by (rule spec_inv_reply [OF assms(1,2) _ n(2)])
      (use R_all take_count_deliver [OF l n(1)] in \<open>auto simp: ask_req_def split: ask.splits\<close>)
  next
    case R_status
    with assms(3) have n: "sp_reply p (Status_reply (take (unat (sp_ndevs s)) (sp_count s))) (s\<lparr>sp_q := q\<rparr>) = Some s'" by (auto split: if_splits)
    show ?thesis by (rule spec_inv_reply [OF assms(1,2) _ n]) (use R_status in \<open>auto simp: ask_req_def split: ask.splits\<close>)
  next
    case R_stop
    have s: "spec_inv (s\<lparr>sp_run := False\<rparr>)" "sp_q (s\<lparr>sp_run := False\<rparr>) = (p, r) # q" using assms(1,2) by (simp_all add: spec_inv_def)
    have e: "(s\<lparr>sp_run := False\<rparr>)\<lparr>sp_q := q\<rparr> = (s\<lparr>sp_q := q\<rparr>)\<lparr>sp_run := False\<rparr>" by (cases s) simp
    have n: "sp_reply p Stop_reply ((s\<lparr>sp_run := False\<rparr>)\<lparr>sp_q := q\<rparr>) = Some s'" unfolding e using assms(3) R_stop by simp
    show ?thesis by (rule spec_inv_reply [OF s _ n]) (use R_stop in \<open>auto simp: ask_req_def split: ask.splits\<close>)
  qed
qed

lemma spec_inv_step: "spec_inv s \<Longrightarrow> spec_step e s = Some s' \<Longrightarrow> spec_inv s'"
proof (cases e)
  case (Answer p)
  assume "spec_inv s" "spec_step e s = Some s'"
  with Answer obtain st a r q ts where "sp_cl s p = Some st" "sp_wait s p = Some a" "sp_fifo s p = Some (r # q)"
    "s' = s\<lparr>sp_wait := (sp_wait s)(p := None), sp_out := (sp_out s)(p := ts), sp_fifo := (sp_fifo s)(p \<mapsto> q),
            sp_cl := (sp_cl s)(p \<mapsto> (st \<or> a = Ask_stop))\<rparr>" by (auto split: option.splits list.splits)
  with spec_inv_answer [OF \<open>spec_inv s\<close> this(1-3)] show ?thesis by simp
qed (auto intro: spec_inv_send spec_inv_serve split: if_splits list.splits option.splits simp del: serve.simps)

lemma spec_inv_start: "spec_inv spec_start"
  by (simp add: spec_inv_def spec_start_def proc_ok_def)

lemma spec_inv_run: "spec_inv s \<Longrightarrow> opt_fold spec_step evs s = Some s' \<Longrightarrow> spec_inv s'"
proof (induction evs arbitrary: s)
  case (Cons e evs)
  then show ?case using spec_inv_step by (auto split: bind_splits)
qed simp

section \<open>Sums of increments\<close>

definition inc_of :: "nat \<Rightarrow> event \<Rightarrow> size_t" where
  "inc_of d e =
     (case e of
        Inc p dev i g \<Rightarrow> if unat dev = d then scast i else 0
      | Dec p dev i g \<Rightarrow> if unat dev = d then scast (- i) else 0
      | _ \<Rightarrow> 0)"

definition issued :: "nat \<Rightarrow> event list \<Rightarrow> size_t" where
  "issued d evs = sum_list (map (inc_of d) evs)"

definition req_inc :: "nat \<Rightarrow> req \<Rightarrow> size_t" where
  "req_inc d r = (case r of R_inc dev i \<Rightarrow> if unat dev = d then scast i else 0 | _ \<Rightarrow> 0)"

definition pend :: "nat \<Rightarrow> (pid \<times> req) list \<Rightarrow> size_t" where
  "pend d q = sum_list (map (\<lambda>x. req_inc d (snd x)) q)"

lemma pend_simps [simp]: "pend d [] = 0" "pend d (x # q) = req_inc d (snd x) + pend d q" "pend d (q @ q') = pend d q + pend d q'"
  by (simp_all add: pend_def)

lemma issued_simps [simp]: "issued d [] = 0" "issued d (evs @ evs') = issued d evs + issued d evs'" "issued d (e # evs) = inc_of d e + issued d evs"
  by (simp_all add: issued_def)

lemma req_inc_simps [simp]:
  "req_inc d (R_register n) = 0" "req_inc d R_deregister = 0" "req_inc d (R_all n) = 0" "req_inc d R_status = 0" "req_inc d R_stop = 0"
  "req_inc d (ask_req a) = 0"
  by (simp_all add: req_inc_def ask_req_def split: ask.split)

lemma serve_count:
  assumes "serve p r s = Some s'" "length (sp_count s) = 255" "d < 255"
  shows "sp_count s' ! d = sp_count s ! d + req_inc d r" "sp_q s' = sp_q s"
  using assms by (cases r; auto simp: sp_reply_def req_inc_def nth_list_update split: if_splits)+

lemma count_step:
  assumes "spec_step e s = Some s'" "length (sp_count s) = 255" "d < 255"
  shows "sp_count s' ! d + pend d (sp_q s') = sp_count s ! d + pend d (sp_q s) + inc_of d e"
proof (cases e)
  case (Turn g)
  with assms(1) obtain p r q where q: "sp_q s = (p, r) # q" "serve p r (s\<lparr>sp_q := q\<rparr>) = Some s'" by (auto split: if_splits list.splits)
  with serve_count [OF q(2), of d] assms(2,3) show ?thesis by (simp add: Turn inc_of_def)
next
  case (Answer p)
  with assms(1) show ?thesis by (auto simp: inc_of_def split: option.splits list.splits)
qed (use assms(1) in \<open>auto simp: inc_of_def sp_send_def req_inc_def ask_req_def split: if_splits option.splits ask.splits\<close>)

lemma count_run:
  "opt_fold spec_step evs s = Some s' \<Longrightarrow> spec_inv s \<Longrightarrow> d < 255 \<Longrightarrow>
   sp_count s' ! d + pend d (sp_q s') = sp_count s ! d + pend d (sp_q s) + issued d evs"
proof (induction evs arbitrary: s)
  case (Cons e evs)
  from Cons.prems(1) obtain s1 where s1: "spec_step e s = Some s1" "opt_fold spec_step evs s1 = Some s'" by (auto split: bind_splits)
  have "length (sp_count s) = 255" using Cons.prems(2) by (simp add: spec_inv_def)
  from count_step [OF s1(1) this Cons.prems(3)] Cons.IH [OF s1(2) spec_inv_step [OF Cons.prems(2) s1(1)] Cons.prems(3)]
  show ?case by (simp add: add.assoc)
qed simp

section \<open>Snapshots\<close>

text \<open>Between a request for the counters and its answer the system owes the process the counts \<open>f\<close>: they are those of the queue up to
  the request, or they are in the reply.\<close>

definition owed_q :: "pid \<Rightarrow> 32 word \<Rightarrow> (nat \<Rightarrow> size_t) \<Rightarrow> size_t list \<Rightarrow> (pid \<times> req) list \<Rightarrow> bool" where
  "owed_q p n f c q \<longleftrightarrow> (\<exists>q1 q2. q = q1 @ (p, R_all n) # q2 \<and> (\<forall>d < 255. c ! d + pend d q1 = f d))"

lemma owed_q_send: "owed_q p n f c q \<Longrightarrow> owed_q p n f c (q @ [x])"
proof -
  assume "owed_q p n f c q"
  then obtain q1 q2 where "q = q1 @ (p, R_all n) # q2" "\<forall>d < 255. c ! d + pend d q1 = f d" by (auto simp: owed_q_def)
  then have "q @ [x] = q1 @ (p, R_all n) # (q2 @ [x])" "\<forall>d < 255. c ! d + pend d q1 = f d" by simp_all
  then show ?thesis unfolding owed_q_def by blast
qed

lemma owed_q_here: "(\<forall>d < 255. c ! d + pend d q = f d) \<Longrightarrow> owed_q p n f c (q @ [(p, R_all n)])"
  unfolding owed_q_def by auto

definition owed :: "pid \<Rightarrow> 32 word \<Rightarrow> (nat \<Rightarrow> size_t) \<Rightarrow> spec \<Rightarrow> bool" where
  "owed p n f s \<longleftrightarrow> sp_wait s p = Some (Ask_all n) \<and>
     (owed_q p n f (sp_count s) (sp_q s) \<or>
      (\<exists>ts. sp_fifo s p = Some [All_reply ts] \<and> length ts = unat n \<and> (\<forall>d < length ts. ts ! d = f d)))"

lemma owed_send: "owed p n f s \<Longrightarrow> owed p n f (sp_send p' r s)"
  by (auto simp: owed_def sp_send_def owed_q_send)

lemma owed_serve:
  assumes "owed p n f s" "spec_inv s" "sp_q s = (p', r) # q" "serve p' r (s\<lparr>sp_q := q\<rparr>) = Some s'"
  shows "owed p n f s'"
proof -
  have ip: "proc_ok (mine p (sp_q s)) (sp_reg s p) (sp_fifo s p) (sp_cl s p) (sp_wait s p)" and l: "length (sp_count s) = 255"
    using assms(2) by (simp_all add: spec_inv_def)
  have w: "sp_wait s p = Some (Ask_all n)" using assms(1) by (simp add: owed_def)
  have w': "sp_wait s' p = Some (Ask_all n)" using serve_frame [OF assms(4)] w by simp
  note c = serve_count [OF assms(4)]
  from assms(1) consider (queue) q1 q2 where "sp_q s = q1 @ (p, R_all n) # q2" "\<forall>d < 255. sp_count s ! d + pend d q1 = f d"
    | (reply) ts where "sp_fifo s p = Some [All_reply ts]" "length ts = unat n" "\<forall>d < length ts. ts ! d = f d"
    by (auto simp: owed_def owed_q_def)
  then show ?thesis
  proof cases
    case queue
    show ?thesis
    proof (cases q1)
      case Nil
      with queue assms(3) have r: "p' = p" "r = R_all n" "q2 = q" by auto
      have "proc_ok (R_all n # mine p q) (sp_reg s p) (sp_fifo s p) (sp_cl s p) (sp_wait s p)"
        using ip assms(3) r by simp
      from proc_serve_ask(2) [OF this] have "sp_fifo s p = Some []" by simp
      moreover from assms(4) r have "n \<le> 31" "s' = s\<lparr>sp_q := q,
          sp_fifo := (sp_fifo s)(p := map_option (\<lambda>q. q @ [All_reply (take (unat n) (sp_count s))]) (sp_fifo s p))\<rparr>"
        by (auto simp: sp_reply_def split: if_splits)
      ultimately show ?thesis using w queue(2) Nil take_count_deliver [OF l, of n] l by (simp add: owed_def)
    next
      case (Cons x q1')
      with queue(1) assms(3) have x: "x = (p', r)" "q = q1' @ (p, R_all n) # q2" by auto
      have "sp_count s' ! d + pend d q1' = f d" if "d < 255" for d
        using queue(2) c(1) [of d] that l Cons x(1) by (auto simp: add.assoc)
      moreover have "sp_q s' = q1' @ (p, R_all n) # q2" using c(2) [of 0] l x(2) by simp
      ultimately show ?thesis using w' by (auto simp: owed_def owed_q_def)
    qed
  next
    case reply
    have "sp_fifo s' p = sp_fifo s p"
    proof (cases "p' = p")
      case True
      with assms(3) ip w have h: "proc_ok (r # mine p q) (sp_reg s p) (sp_fifo s p) (sp_cl s p) (Some (Ask_all n))" by simp
      have "\<not> is_ask r" using proc_serve_ask(2) [OF h] reply(1) by auto
      moreover have "r \<noteq> R_deregister" using proc_deregister(2) h by (fastforce simp: proc_ok_def)
      ultimately show ?thesis using assms(4) by (cases r) (auto split: if_splits)
    qed (use assms(4) in \<open>cases r; auto simp: sp_reply_def split: if_splits\<close>)
    with reply w' show ?thesis by (auto simp: owed_def)
  qed
qed

lemma owed_step:
  assumes "owed p n f s" "spec_inv s" "spec_step e s = Some s'" "e \<noteq> Answer p"
  shows "owed p n f s'"
proof -
  have w: "sp_wait s p = Some (Ask_all n)" using assms(1) by (simp add: owed_def)
  have ip: "proc_ok (mine p (sp_q s)) (sp_reg s p) (sp_fifo s p) (sp_cl s p) (sp_wait s p)" using assms(2) by (simp add: spec_inv_def)
  then have alive: "sp_cl s p \<noteq> None" using w by (cases "sp_fifo s p") (auto simp: proc_ok_def)
  show ?thesis
  proof (cases e)
    case (Turn g)
    with assms(3) obtain p' r q where "sp_q s = (p', r) # q" "serve p' r (s\<lparr>sp_q := q\<rparr>) = Some s'" by (auto split: if_splits list.splits)
    with owed_serve [OF assms(1,2)] show ?thesis by blast
  next
    case (Answer p')
    with assms(3,4) assms(1) show ?thesis by (auto simp: owed_def split: option.splits list.splits)
  qed (use assms(1,3) w alive in \<open>auto simp: owed_def sp_send_def owed_q_send split: if_splits option.splits\<close>)
qed

lemma owed_run:
  "opt_fold spec_step evs s = Some s' \<Longrightarrow> spec_inv s \<Longrightarrow> owed p n f s \<Longrightarrow> Answer p \<notin> set evs \<Longrightarrow> owed p n f s' \<and> spec_inv s'"
proof (induction evs arbitrary: s)
  case (Cons e evs)
  from Cons.prems(1) obtain s1 where "spec_step e s = Some s1" "opt_fold spec_step evs s1 = Some s'" by (auto split: bind_splits)
  with Cons.IH [of s1] Cons.prems(2-4) owed_step [of p n f s e s1] spec_inv_step [of s e s1] show ?case by auto
qed simp

lemma owed_answer:
  assumes "owed p n f s" "spec_inv s" "spec_step (Answer p) s = Some s'"
  shows "sp_out s' p = map f [0..<unat n]"
proof -
  from assms(1,3) obtain st r q ts where s: "sp_fifo s p = Some (r # q)" "deliver (Ask_all n) r = Some ts" "sp_out s' p = ts" "sp_cl s p = Some st"
    by (auto simp: owed_def split: option.splits list.splits)
  have w: "sp_wait s p = Some (Ask_all n)" using assms(1) by (simp add: owed_def)
  have ip: "proc_ok (mine p (sp_q s)) (sp_reg s p) (Some (r # q)) (Some st) (Some (Ask_all n))"
    using assms(2) s w by (auto simp: spec_inv_def dest!: spec [where x = p])
  have "sp_q s \<noteq> q1 @ (p, R_all n) # q2" for q1 q2
  proof
    assume "sp_q s = q1 @ (p, R_all n) # q2"
    then have "R_all n \<in> set (mine p (sp_q s))" by simp
    with ip show False by (fastforce simp: proc_ok_def filter_empty_conv split: if_splits)
  qed
  with assms(1) s(1) obtain "r = All_reply ts" "length ts = unat n" "\<forall>d < length ts. ts ! d = f d"
    using s(2) by (auto simp: owed_def owed_q_def)
  then show ?thesis using s(3) by (auto intro: nth_equalityI)
qed

section \<open>Every request is answered\<close>

fun good_event :: "event \<Rightarrow> bool" where
  "good_event (Start p n g) \<longleftrightarrow> n \<le> 31 \<or> n = -1"
| "good_event (Inc p dev i g) \<longleftrightarrow> dev < 255"
| "good_event (Dec p dev i g) \<longleftrightarrow> dev < 255"
| "good_event (Ask p (Ask_all n) g) \<longleftrightarrow> n \<le> 31"
| "good_event (Ask p Ask_stop g) \<longleftrightarrow> False"
| "good_event _ \<longleftrightarrow> True"

fun good_req :: "req \<Rightarrow> bool" where
  "good_req (R_register n) \<longleftrightarrow> n \<le> 31 \<or> n = -1"
| "good_req (R_inc dev i) \<longleftrightarrow> dev < 255"
| "good_req (R_all n) \<longleftrightarrow> n \<le> 31"
| "good_req R_stop \<longleftrightarrow> False"
| "good_req _ \<longleftrightarrow> True"

definition good :: "spec \<Rightarrow> bool" where
  "good s \<longleftrightarrow> spec_inv s \<and> sp_run s \<and> sp_ndevs s \<le> 31 \<and> (\<forall>x \<in> set (sp_q s). good_req (snd x))"

lemma good_serve:
  assumes "good s" "sp_q s = (p, r) # q" "serve p r (s\<lparr>sp_q := q\<rparr>) = Some s'"
  shows "good s'"
  using assms spec_inv_serve [OF _ assms(2,3)]
  by (cases r) (auto simp: good_def sp_reply_def split: if_splits)

lemma good_step:
  assumes "good s" "good_event e" "spec_step e s = Some s'"
  shows "good s'"
proof -
  have "spec_inv s'" using spec_inv_step assms(1,3) by (auto simp: good_def)
  then show ?thesis
  proof (cases e)
    case (Ask p a g)
    then show ?thesis using assms \<open>spec_inv s'\<close> by (cases a) (auto simp: good_def sp_send_def ask_req_def split: if_splits)
  next
    case (Turn g)
    then show ?thesis using assms good_serve by (auto split: if_splits list.splits simp del: serve.simps)
  qed (use assms \<open>spec_inv s'\<close> in \<open>auto simp: good_def sp_send_def split: if_splits option.splits list.splits\<close>)
qed

lemma good_run: "good s \<Longrightarrow> list_all good_event evs \<Longrightarrow> opt_fold spec_step evs s = Some s' \<Longrightarrow> good s'"
proof (induction evs arbitrary: s)
  case (Cons e evs)
  then show ?case using good_step by (auto split: bind_splits)
qed simp

lemma good_turn:
  assumes "good s" "sp_q s = x # q"
  shows "\<exists>s'. spec_step (Turn g) s = Some s' \<and> good s' \<and> sp_q s' = q \<and> sp_cl s' = sp_cl s \<and> sp_wait s' = sp_wait s"
proof -
  obtain p r where x: "x = (p, r)" by fastforce
  have ip: "proc_ok (r # mine p q) (sp_reg s p) (sp_fifo s p) (sp_cl s p) (sp_wait s p)"
    using assms by (auto simp: good_def spec_inv_def x dest!: spec [where x = p])
  have g: "good_req r" "sp_ndevs s \<le> 31" "sp_run s" "length (sp_count s) = 255" using assms by (auto simp: good_def x spec_inv_def)
  have "\<exists>s'. serve p r (s\<lparr>sp_q := q\<rparr>) = Some s'"
  proof (cases r)
    case (R_register n)
    then show ?thesis using proc_register(1) [of n] ip by auto
  next
    case R_deregister
    then show ?thesis using proc_deregister(1) ip by auto
  qed (use g ip proc_serve_ask(1) [OF ip] in \<open>auto simp: sp_reply_def\<close>)
  then obtain s' where s': "serve p r (s\<lparr>sp_q := q\<rparr>) = Some s'" by blast
  have "spec_step (Turn g) s = Some s'" using s' assms(2) g(3) x by simp
  moreover have "good s'" using good_serve [OF assms(1) _ s'] assms(2) x by simp
  ultimately show ?thesis using serve_count(2) [OF s', of 0] serve_frame [OF s'] g(4) by auto
qed

lemma good_turns:
  "good s \<Longrightarrow> \<exists>s'. opt_fold spec_step (replicate (length (sp_q s)) (Turn g)) s = Some s' \<and> good s' \<and> sp_q s' = [] \<and>
     sp_cl s' = sp_cl s \<and> sp_wait s' = sp_wait s"
proof (induction "sp_q s" arbitrary: s)
  case (Cons x q)
  from good_turn [OF Cons.prems Cons.hyps(2) [symmetric]] obtain s1 where
    s1: "spec_step (Turn g) s = Some s1" "good s1" "sp_q s1 = q" "sp_cl s1 = sp_cl s" "sp_wait s1 = sp_wait s" by blast
  from Cons.hyps(1) [OF s1(3) [symmetric] s1(2)] s1 Cons.hyps(2) [symmetric] show ?case by auto
next
  case Nil
  then show ?case by (metis length_0_conv opt_fold.simps(1) replicate_empty)
qed

lemma good_answer:
  assumes "good s" "sp_q s = []" "sp_wait s p \<noteq> None"
  shows "\<exists>s'. spec_step (Answer p) s = Some s'"
proof -
  from assms(3) obtain a where a: "sp_wait s p = Some a" by blast
  have "proc_ok [] (sp_reg s p) (sp_fifo s p) (sp_cl s p) (Some a)"
    using assms(1,2) a by (auto simp: good_def spec_inv_def dest!: spec [where x = p])
  then obtain r st where "sp_fifo s p = Some [r]" "deliver a r \<noteq> None" "sp_cl s p = Some st"
    by (cases "sp_fifo s p") (auto simp: proc_ok_def)
  with a show ?thesis by auto
qed

lemma good_start: "good spec_start"
  using spec_inv_start by (simp add: good_def spec_start_def)

section \<open>Properties\<close>

text \<open>C17. Counters of the hub. However programs start, finish, count tasks, ask and are served, the bytes of the program follow the specification, and
  the counter of every device plus the increments still in the message queue is the sum, modulo 2^64, of all increments and decrements sent.\<close>

theorem hub_counts:
  assumes "list_all event_ok evs" "opt_fold spec_step evs spec_start = Some s" "d < 255"
  shows "\<exists>w. opt_fold world_step evs world_start = Some w \<and> hub_rel s w \<and>
    hb_ntasks (w_hub w) ! d + pend d (sp_q s) = issued d evs"
proof -
  from hub.sim_fold [OF hub_rel_start assms(1,2)] obtain w where w: "opt_fold world_step evs world_start = Some w" "hub_rel s w" by blast
  then have "hb_ntasks (w_hub w) = sp_count s" by (simp add: hub_rel_def io_rel_def)
  with count_run [OF assms(2) spec_inv_start assms(3)] w assms(3) show ?thesis by (auto simp: spec_start_def)
qed


text \<open>C19. Every request is answered. When the programs have at most 31 devices, count only on devices of the hub and nobody stops the hub, a
  program that waits for a reply has it after as many turns of the hub as there are messages in the queue.\<close>

theorem hub_answers:
  assumes "list_all event_ok evs" "list_all good_event evs" "opt_fold spec_step evs spec_start = Some s" "sp_wait s p \<noteq> None"
    "length g = MSG_BYTES"
  shows "\<exists>w. opt_fold world_step (evs @ replicate (length (sp_q s)) (Turn g) @ [Answer p]) world_start = Some w"
proof -
  have "good s" by (rule good_run [OF good_start assms(2,3)])
  from good_turns [OF this, of g] obtain s1 where s1: "opt_fold spec_step (replicate (length (sp_q s)) (Turn g)) s = Some s1" "good s1"
    "sp_q s1 = []" "sp_wait s1 = sp_wait s" by blast
  from good_answer [OF s1(2,3)] assms(4) s1(4) obtain s2 where "spec_step (Answer p) s1 = Some s2" by auto
  with s1(1) assms(3) have r: "opt_fold spec_step (evs @ replicate (length (sp_q s)) (Turn g) @ [Answer p]) spec_start = Some s2"
    by (simp add: opt_fold_append)
  have "list_all event_ok (evs @ replicate (length (sp_q s)) (Turn g) @ [Answer p])"
    using assms(1,5) by (auto simp: list_all_iff)
  from hub.sim_fold [OF hub_rel_start this r] show ?thesis by blast
qed

text \<open>Round trip of a request: the hub reads back the header, the process and the arguments that the client wrote, whatever the memory under
  the message held.\<close>

theorem request_roundtrip:
  assumes "length g = MSG_BYTES"
  shows "\<exists>m m1 m2 m3 m4. request g h p [a, b] = Some m \<and> ReadHeader (Message_Clear m) = Some (h, m1) \<and> ReadPID m1 = Some (p, m2) \<and>
    ReadInt m2 = Some (a, m3) \<and> ReadInt m3 = Some (b, m4)"
proof -
  from request_ok [OF assms, of "[a, b]" h p] obtain m where m: "request g h p [a, b] = Some m" "m_ok m"
    "written m = ints [h, p, a, b]" by auto
  from unread_written [OF m(2)] m(3) have "unread (Message_Clear m) (le_bytes 4 h @ le_bytes 4 p @ le_bytes 4 a @ le_bytes 4 b @ [])"
    by (simp add: Message_Clear_def)
  from f_int.get_ok [OF this] obtain m1 where m1: "ReadInt (Message_Clear m) = Some (h, m1)" "unread m1 (le_bytes 4 p @ le_bytes 4 a @ le_bytes 4 b @ [])" by blast
  from f_int.get_ok [OF m1(2)] obtain m2 where m2: "ReadInt m1 = Some (p, m2)" "unread m2 (le_bytes 4 a @ le_bytes 4 b @ [])" by blast
  from f_int.get_ok [OF m2(2)] obtain m3 where m3: "ReadInt m2 = Some (a, m3)" "unread m3 (le_bytes 4 b @ [])" by blast
  from f_int.get_ok [OF m3(2)] m(1) m1(1) m2(1) m3(1) show ?thesis by (auto simp: ReadHeader_def ReadPID_def)
qed

section \<open>Limits\<close>

text \<open>A message has room for 31 counters. With 32 to 255 devices the write of the reply to \<open>TaskAll\<close> fails, its result is ignored, and the
  client is sent the header followed by what the stack of the hub held: the counters do not matter.\<close>

theorem many_devices_no_counters:
  assumes "length g = MSG_BYTES" "31 < unat n" "unat n < 2 ^ 31" "unread m (le_bytes 4 (n :: 32 word))"
  shows "\<exists>f. ExecuteTaskAll g m p (hub, os) = Some (SendFIFO f p (hub, os)) \<and>
    take 256 (m_buf f) = le_bytes 4 IRIS_HUB_FIFO_TASK_ALL @ take 252 (drop 4 g)"
proof -
  from f_int.get_ok [of m n "[]"] assms(4) obtain m1 where m1: "ReadInt m = Some (n, m1)" by auto
  define f where "f = \<lparr>m_buf = le_bytes 4 IRIS_HUB_FIFO_TASK_ALL @ drop 4 g, m_off = 4\<rparr>"
  have "Message_new g (ucast IRIS_HUB_FIFO_TASK_ALL) = Some f"
    using assms(1) by (simp add: Message_new_def WriteHeader_def WriteInt_def Message_Write_def IRIS_MSG_SIZE_def memcpy_def ucast_header f_def Let_def MSG_BYTES_def)
  moreover have "Message_Write v (scast n * 8) f = Some (False, f)" for v
  proof (rule Message_Write_full)
    have "(scast n :: size_t) = word_of_nat (unat n)" using sint_small [of n] assms(3) by (simp add: scast_eq)
    then have "(scast n * 8 :: size_t) = word_of_nat (8 * unat n)" by simp
    then have "unat (scast n * 8 :: size_t) = 8 * unat n"
      using assms(3) by (simp only: unat_of_nat) (simp add: take_bit_nat_eq_self_iff)
    then show "256 < unat (m_off f) + unat (scast n * 8 :: size_t)" "unat (m_off f) + unat (scast n * 8 :: size_t) < 2 ^ 64"
      using assms(2,3) by (simp_all add: f_def)
  qed
  ultimately have "ExecuteTaskAll g m p (hub, os) = Some (SendFIFO f p (hub, os))" using m1 by (simp add: ExecuteTaskAll_def)
  moreover have "take 256 (m_buf f) = le_bytes 4 IRIS_HUB_FIFO_TASK_ALL @ take 252 (drop 4 g)" by (simp add: f_def)
  ultimately show ?thesis by blast
qed

theorem many_devices_no_counters_witness:
  "\<exists>f. ExecuteTaskAll (replicate 264 9) \<lparr>m_buf = le_bytes 4 (40 :: 32 word) @ replicate 260 0, m_off = 0\<rparr> 1 (Hub_new, w_os world_start) =
       Some (SendFIFO f 1 (Hub_new, w_os world_start)) \<and>
     take 256 (m_buf f) = le_bytes 4 IRIS_HUB_FIFO_TASK_ALL @ replicate 252 9"
  using many_devices_no_counters [of "replicate 264 9" 40 "\<lparr>m_buf = le_bytes 4 (40 :: 32 word) @ replicate 260 0, m_off = 0\<rparr>"]
  by (simp add: MSG_BYTES_def unread_def)

text \<open>The index of the counter comes from the message and is not checked.\<close>

theorem counter_unchecked:
  assumes "io_rel s hub os" "255 \<le> sint dev \<or> sint dev < 0" "unread m (le_bytes 4 (dev :: 32 word) @ le_bytes 4 (i :: 32 word))"
  shows "ExecuteTaskInc m p (hub, os) = None"
proof -
  from f_int.get_ok [OF assms(3)] obtain m1 where m1: "ReadInt m = Some (dev, m1)" "unread m1 (le_bytes 4 i @ [])" by auto
  from f_int.get_ok [OF m1(2)] obtain m2 where m2: "ReadInt m1 = Some (i, m2)" by auto
  have "length (hb_ntasks hub) = 255" using assms(1) by (simp add: io_rel_def)
  then show ?thesis using m1 m2 assms(2) by (auto simp: ExecuteTaskInc_def cell_def)
qed

text \<open>Once the hub has stopped, a program whose FIFO is empty never gets an answer: neither the other programs nor the hub write to it again.\<close>

definition stranded :: "pid \<Rightarrow> world \<Rightarrow> bool" where
  "stranded p w \<longleftrightarrow> \<not> hb_running (w_hub w) \<and> fifo (w_os w) p = Some [] \<and> (\<forall>q c. w_cl w q = Some c \<longrightarrow> cl_pid c = q)"

lemma snd_SendMQ: "snd (SendMQ m os) = os\<lparr>mq := mq (snd (SendMQ m os))\<rparr>"
  by (simp add: SendMQ_def msgsnd_def)

lemma SendMQ_fifo [simp]: "fifo (snd (SendMQ m os)) = fifo os"
  by (simp add: SendMQ_def msgsnd_def)

lemma stranded_step:
  assumes "stranded p w" "world_step e w = Some w'"
  shows "stranded p w'"
proof (cases e)
  case (Start q n g)
  with assms show ?thesis
    by (auto simp: stranded_def HubClient_Init_def HubClient_new_def Client_OpenMQ_def OpenFIFO_def Register_def IRIS_SUCCESS_def IRIS_ERROR_def
      split: if_splits bind_splits)
next
  case (Answer q)
  with assms show ?thesis
    by (auto simp: stranded_def client_answer_def TaskAll_answer_def Status_answer_def StopHub_answer_def RecvFIFO_def
      split: if_splits bind_splits ask.splits option.splits list.splits)
next
  case (Ask q a g)
  with assms show ?thesis
    by (auto simp: stranded_def client_ask_def TaskAll_ask_def Status_ask_def StopHub_ask_def split: if_splits bind_splits ask.splits)
qed (use assms in \<open>auto simp: stranded_def HubClient_TaskDec_def HubClient_TaskInc_def HubClient_delete_def Deregister_def Hub_turn_def
       split: if_splits bind_splits\<close>)

theorem stopped_hub_strands:
  "stranded p w \<Longrightarrow> opt_fold world_step (evs @ [Answer p]) w = None"
proof (induction evs arbitrary: w)
  case Nil
  then show ?case
    by (auto simp: stranded_def client_answer_def TaskAll_answer_def Status_answer_def StopHub_answer_def RecvFIFO_def split: bind_splits ask.splits)
next
  case (Cons e evs)
  then show ?case using stranded_step by (cases "world_step e w") (auto simp del: world_step.simps)
qed

section \<open>The properties at a concrete schedule\<close>

text \<open>Two programs count and uncount tasks; one of them asks while messages are still under way.\<close>

definition zeros :: "byte list" where "zeros = replicate 264 0"

definition schedule_before :: "event list" where
  "schedule_before = [Start 1 2 zeros, Start 7 2 zeros, Turn zeros, Inc 7 0 1 zeros, Inc 1 0 1 zeros, Turn zeros, Inc 1 1 1 zeros, Dec 7 0 1 zeros]"

definition schedule_between :: "event list" where
  "schedule_between = [Inc 7 1 1 zeros, Turn zeros, Turn zeros, Turn zeros, Turn zeros, Inc 1 0 1 zeros, Turn zeros]"

lemma schedule_ok: "list_all event_ok (schedule_before @ Ask 1 (Ask_all 2) zeros # schedule_between @ [Answer 1])"
  by (simp add: schedule_before_def schedule_between_def zeros_def MSG_BYTES_def)

lemma schedule_runs: "\<exists>s. opt_fold spec_step (schedule_before @ Ask 1 (Ask_all 2) zeros # schedule_between @ [Answer 1]) spec_start = Some s"
  by (simp add: schedule_before_def schedule_between_def spec_start_def sp_send_def sp_reply_def ask_req_def)

theorem hub_counts_witness:
  "\<exists>s w. opt_fold spec_step (schedule_before @ Ask 1 (Ask_all 2) zeros # schedule_between @ [Answer 1]) spec_start = Some s \<and>
     opt_fold world_step (schedule_before @ Ask 1 (Ask_all 2) zeros # schedule_between @ [Answer 1]) world_start = Some w \<and>
     hb_ntasks (w_hub w) ! 0 + pend 0 (sp_q s) = 2"
proof -
  from schedule_runs obtain s where s:
    "opt_fold spec_step (schedule_before @ Ask 1 (Ask_all 2) zeros # schedule_between @ [Answer 1]) spec_start = Some s" by blast
  have "issued 0 (schedule_before @ Ask 1 (Ask_all 2) zeros # schedule_between @ [Answer 1]) = 2"
    by (simp add: schedule_before_def schedule_between_def inc_of_def)
  with hub_counts [OF schedule_ok s, of 0] s show ?thesis by auto
qed


theorem hub_answers_witness:
  "\<exists>w. opt_fold world_step ((schedule_before @ [Ask 7 Ask_status zeros]) @ replicate 5 (Turn zeros) @ [Answer 7]) world_start = Some w"
proof -
  have ok: "list_all event_ok (schedule_before @ [Ask 7 Ask_status zeros])" "list_all good_event (schedule_before @ [Ask 7 Ask_status zeros])"
    by (simp_all add: schedule_before_def zeros_def MSG_BYTES_def)
  have "\<exists>s. opt_fold spec_step (schedule_before @ [Ask 7 Ask_status zeros]) spec_start = Some s \<and> sp_wait s 7 \<noteq> None \<and> length (sp_q s) = 5"
    by (simp add: schedule_before_def spec_start_def sp_send_def sp_reply_def ask_req_def)
  then obtain s where "opt_fold spec_step (schedule_before @ [Ask 7 Ask_status zeros]) spec_start = Some s" "sp_wait s 7 \<noteq> None" "length (sp_q s) = 5"
    by blast
  with hub_answers [OF ok this(1,2), of zeros] show ?thesis by (simp add: zeros_def MSG_BYTES_def)
qed

theorem request_roundtrip_witness:
  "\<exists>m m1. request zeros 0x1004 7 [3, - 1] = Some m \<and> ReadHeader (Message_Clear m) = Some (0x1004, m1)"
  using request_roundtrip [of zeros "0x1004" 7 3 "- 1"] by (auto simp: zeros_def MSG_BYTES_def)

end
