(* ===== verification/Iris_Text.thy ===== *)
theory Iris_Text
  imports Iris_Prelude
begin

text \<open>
  The functions of the C library on text that the runtime uses: \<open>%lu\<close> of \<open>printf\<close>, \<open>atoi\<close>, \<open>strtok_r\<close> and \<open>strcasecmp\<close>. \<open>atoi\<close> of a number
  that is no \<open>int\<close> is undefined and has no result here.
\<close>

fun dec :: "nat \<Rightarrow> string" where
  "dec n = (if n < 10 then [char_of (48 + n)] else dec (n div 10) @ [char_of (48 + n mod 10)])"

declare dec.simps [simp del]

definition is_digit :: "char \<Rightarrow> bool" where
  "is_digit c \<longleftrightarrow> 48 \<le> (of_char c :: nat) \<and> (of_char c :: nat) < 58"

definition is_space :: "char \<Rightarrow> bool" where
  "is_space c \<longleftrightarrow> c = CHR '' '' \<or> 9 \<le> (of_char c :: nat) \<and> (of_char c :: nat) < 14"

fun atoi_digits :: "int \<Rightarrow> string \<Rightarrow> int" where
  "atoi_digits a [] = a"
| "atoi_digits a (c # cs) = (if is_digit c then atoi_digits (10 * a + int (of_char c - 48)) cs else a)"

definition atoi :: "string \<Rightarrow> int option" where
  "atoi s =
     (let s = dropWhile is_space s;
          neg = (s \<noteq> [] \<and> hd s = CHR ''-'');
          s = (if s \<noteq> [] \<and> (hd s = CHR ''-'' \<or> hd s = CHR ''+'') then tl s else s);
          n = atoi_digits 0 s;
          v = (if neg then - n else n)
      in if int32_ok v then Some v else None)"

text \<open>The tokens \<open>strtok_r\<close> finds one after another.\<close>

function strtok :: "(char \<Rightarrow> bool) \<Rightarrow> string \<Rightarrow> string list" where
  "strtok d s =
     (let s = dropWhile d s in
      if s = [] then [] else takeWhile (\<lambda>c. \<not> d c) s # strtok d (dropWhile (\<lambda>c. \<not> d c) s))"
  by pat_completeness auto
termination
proof (relation "measure (\<lambda>(d, s). length s)")
  fix d and s x :: string
  assume x: "x = dropWhile d s" "x \<noteq> []"
  then have "\<not> d (hd x)" using hd_dropWhile by blast
  with x(2) have "length (dropWhile (\<lambda>c. \<not> d c) x) < length x"
    by (cases x) (auto simp: le_imp_less_Suc length_dropWhile_le)
  moreover have "length x \<le> length s" using x(1) by (simp add: length_dropWhile_le)
  ultimately show "((d, dropWhile (\<lambda>c. \<not> d c) x), d, s) \<in> measure (\<lambda>(d, s). length s)" by simp
qed simp

declare strtok.simps [simp del]

definition to_lower :: "char \<Rightarrow> char" where
  "to_lower c = (if 65 \<le> (of_char c :: nat) \<and> (of_char c :: nat) < 91 then char_of (of_char c + 32 :: nat) else c)"

definition strcaseeq :: "string \<Rightarrow> string \<Rightarrow> bool" where
  "strcaseeq a b \<longleftrightarrow> map to_lower a = map to_lower b"

section \<open>Numbers\<close>

lemma of_char_dec: "n < 10 \<Longrightarrow> of_char (char_of (48 + n) :: char) = (48 + n :: nat)"
  by (simp add: take_bit_eq_mod)

lemma dec_digits: "\<forall>c \<in> set (dec n). is_digit c"
proof (induction n rule: dec.induct)
  case (1 n)
  then show ?case by (subst dec.simps) (auto simp: is_digit_def of_char_dec)
qed

lemma dec_nonempty [simp]: "dec n \<noteq> []"
  by (subst dec.simps) simp

lemma atoi_digits_append: "\<forall>c \<in> set s. is_digit c \<Longrightarrow> atoi_digits a (s @ t) = atoi_digits (atoi_digits a s) t"
  by (induction s arbitrary: a) auto

lemma atoi_digits_dec: "atoi_digits 0 (dec n) = int n"
proof (induction n rule: dec.induct)
  case (1 n)
  show ?case
  proof (cases "n < 10")
    case True
    then show ?thesis by (subst dec.simps) (simp add: is_digit_def of_char_dec)
  next
    case False
    then have "atoi_digits 0 (dec n) = atoi_digits (int (n div 10)) [char_of (48 + n mod 10)]"
      using "1.IH" by (subst dec.simps) (simp add: atoi_digits_append dec_digits del: atoi_digits.simps)
    also have "\<dots> = int n" by (simp add: is_digit_def of_char_dec) presburger
    finally show ?thesis .
  qed
qed

lemma atoi_dec:
  assumes "n < 2 ^ 31"
  shows "atoi (dec n) = Some (int n)"
proof -
  have d: "is_digit (hd (dec n))" using dec_digits [of n] by simp
  then have s: "\<not> is_space (hd (dec n))" "hd (dec n) \<noteq> CHR ''-''" "hd (dec n) \<noteq> CHR ''+''"
    by (auto simp: is_digit_def is_space_def)
  from s(1) have "dropWhile is_space (dec n) = dec n" by (cases "dec n") auto
  with s assms show ?thesis by (simp add: atoi_def Let_def atoi_digits_dec int32_ok_def)
qed

text \<open>A word is zero.\<close>

lemma atoi_word:
  assumes "s \<noteq> []" "\<not> is_space (hd s)" "\<not> is_digit (hd s)" "hd s \<noteq> CHR ''-''" "hd s \<noteq> CHR ''+''"
  shows "atoi s = Some 0"
  using assms by (cases s) (auto simp: atoi_def int32_ok_def)

section \<open>Tokens\<close>

fun join :: "char \<Rightarrow> string list \<Rightarrow> string" where
  "join c [] = []"
| "join c [t] = t"
| "join c (t # ts) = t @ c # join c ts"

lemma strtok_join: "d c \<Longrightarrow> \<forall>t \<in> set ts. t \<noteq> [] \<and> (\<forall>x \<in> set t. \<not> d x) \<Longrightarrow> strtok d (join c ts) = ts"
proof (induction c ts rule: join.induct)
  case (1 c)
  then show ?case by (simp add: strtok.simps)
next
  case (2 c t)
  then have t: "dropWhile d t = t" "takeWhile (\<lambda>c. \<not> d c) t = t" "dropWhile (\<lambda>c. \<not> d c) t = []"
    by (cases t; auto simp: takeWhile_eq_all_conv dropWhile_eq_Nil_conv)+
  have "strtok d [] = []" by (simp add: strtok.simps)
  with 2 show ?case by (simp add: strtok.simps [of d t] t)
next
  case (3 c t u us)
  define r where "r = join c (u # us)"
  have t: "t \<noteq> []" "\<forall>x \<in> set t. \<not> d x" using "3.prems"(2) by auto
  then have a: "dropWhile d (t @ c # r) = t @ c # r" by (cases t) auto
  have b: "takeWhile (\<lambda>c. \<not> d c) (t @ c # r) = t" "dropWhile (\<lambda>c. \<not> d c) (t @ c # r) = c # r"
    using t(2) "3.prems"(1) by (auto simp: takeWhile_append dropWhile_append takeWhile_eq_all_conv dropWhile_eq_Nil_conv)
  have "strtok d (c # r) = strtok d r" using "3.prems"(1) by (simp add: strtok.simps [of d "c # r"] strtok.simps [of d r])
  also have "\<dots> = u # us" unfolding r_def using "3.IH" "3.prems" by simp
  finally have "strtok d (t @ c # r) = t # u # us" using t(1) by (subst strtok.simps) (simp add: a b)
  then show ?case by (simp add: r_def)
qed

end
