(* ===== verification/Iris_Profiler.thy ===== *)
theory Iris_Profiler
  imports Iris_Message Iris_Defs Iris_Text "HOL-Library.Monad_Syntax"
begin

text \<open>
  The profilers: \<^verbatim>\<open>Profiler.cpp\<close>, which collects text in a \<open>Message\<close> and writes it to a file when the message is full,
  and \<^verbatim>\<open>ProfilerDOT.cpp\<close>, which draws the tasks of a run as a graph (\<open>PER_TASK_COLOR\<close> is not defined). The kernel's \<open>write\<close> is an argument:
  the number of bytes it takes of those offered, given what the file holds. Text is a list of bytes. The rendering of a \<open>double\<close> by \<open>%lf\<close> is given
  with the record it belongs to.
\<close>

section \<open>Buffered output\<close>

record profiler =
  pf_fd :: int
  pf_msg :: message
  pf_file :: "byte list"

definition Profiler_new :: "byte list \<Rightarrow> profiler option" where
  "Profiler_new g = map_option (\<lambda>m. \<lparr>pf_fd = -1, pf_msg = m, pf_file = []\<rparr>) (Message_new g (-1))"

text \<open>\<open>OpenFD\<close>, with the descriptor that \<open>open\<close> returns.\<close>

definition OpenFD :: "int \<Rightarrow> profiler \<Rightarrow> int \<times> profiler" where
  "OpenFD fd p = (if fd = -1 then IRIS_ERROR else IRIS_SUCCESS, p\<lparr>pf_fd := fd\<rparr>)"

definition Profiler_Flush :: "(byte list \<Rightarrow> nat \<Rightarrow> nat) \<Rightarrow> profiler \<Rightarrow> int \<times> profiler" where
  "Profiler_Flush wr p =
     (let off = unat (m_off (pf_msg p)); bs = take off (m_buf (pf_msg p)) in
      if pf_fd p = -1 then (IRIS_ERROR, p)
      else
        let ssret = min (wr (pf_file p) off) off; p = p\<lparr>pf_file := pf_file p @ take ssret bs\<rparr> in
        if ssret \<noteq> off then (IRIS_ERROR, p) else (IRIS_SUCCESS, p\<lparr>pf_msg := Message_Clear (pf_msg p)\<rparr>))"

text \<open>\<open>c_str()\<close> read up to its first zero byte.\<close>

definition c_str :: "byte list \<Rightarrow> byte list" where
  "c_str s = takeWhile (\<lambda>b. b \<noteq> 0) s"

text \<open>\<open>Write\<close>, whose loop does not look at the result of \<open>Flush\<close>. No result means that the call does not return.\<close>

partial_function (option) Profiler_Write :: "(byte list \<Rightarrow> nat \<Rightarrow> nat) \<Rightarrow> byte list \<Rightarrow> profiler \<Rightarrow> (int \<times> profiler) option" where
  "Profiler_Write wr s p =
     (let space_left = unat (free_buf_size (pf_msg p)) in
      if space_left < length s
      then Option.bind (WriteString (c_str (take space_left s)) (pf_msg p)) (\<lambda>r.
             if \<not> fst r then Some (IRIS_ERROR, p\<lparr>pf_msg := snd r\<rparr>)
             else Profiler_Write wr (drop space_left s) (snd (Profiler_Flush wr (p\<lparr>pf_msg := snd r\<rparr>))))
      else Option.bind (WriteString (c_str s) (pf_msg p)) (\<lambda>r.
             Some (if fst r then IRIS_SUCCESS else IRIS_ERROR, p\<lparr>pf_msg := snd r\<rparr>)))"

definition CloseFD :: "(byte list \<Rightarrow> nat \<Rightarrow> nat) \<Rightarrow> profiler \<Rightarrow> profiler" where
  "CloseFD wr p = snd (Profiler_Flush wr p)"

text \<open>A row of calls of \<open>Write\<close>.\<close>

definition writes :: "(byte list \<Rightarrow> nat \<Rightarrow> nat) \<Rightarrow> byte list list \<Rightarrow> profiler \<Rightarrow> profiler option" where
  "writes wr = opt_fold (\<lambda>s p. map_option snd (Profiler_Write wr s p))"

section \<open>What arrives in the file\<close>

text \<open>The text handed over so far: the file and the buffer behind it.\<close>

definition handed :: "profiler \<Rightarrow> byte list" where
  "handed p = pf_file p @ written (pf_msg p)"

lemma free_size: "m_ok m \<Longrightarrow> unat (free_buf_size m) = 256 - unat (m_off m)"
proof -
  assume "m_ok m"
  then have "m_off m \<le> 256" by (simp add: m_ok_def word_le_nat_alt)
  then show ?thesis by (simp add: free_buf_size_def IRIS_MSG_SIZE_def unat_sub)
qed

lemma WriteString_ok:
  assumes "m_ok m" "length s \<le> unat (free_buf_size m)"
  shows "\<exists>m'. WriteString s m = Some (True, m') \<and> m_ok m' \<and> written m' = written m @ s \<and> unat (m_off m') = unat (m_off m) + length s"
proof -
  have l: "unat (m_off m) + length s \<le> 256" using assms free_size [OF assms(1)] unfolding m_ok_def by linarith
  then have "length s = unat (word_of_nat (length s) :: size_t)" by (simp add: unat_of_nat take_bit_nat_eq_self_iff)
  with Message_Write_ok [OF assms(1), of s "word_of_nat (length s)"] l show ?thesis by (simp add: WriteString_def)
qed

lemma c_str_text: "0 \<notin> set s \<Longrightarrow> c_str s = s"
  by (auto simp: c_str_def takeWhile_eq_all_conv)

lemma Flush_ok:
  assumes "m_ok (pf_msg p)" "pf_fd p \<noteq> -1" "\<And>f n. n \<le> wr f n"
  shows "\<exists>p'. Profiler_Flush wr p = (IRIS_SUCCESS, p') \<and> m_ok (pf_msg p') \<and> m_off (pf_msg p') = 0 \<and> pf_fd p' = pf_fd p \<and>
    pf_file p' = handed p"
  using assms by (auto simp: Profiler_Flush_def Let_def min_absorb2 Message_Clear_def m_ok_def handed_def written_def)

lemma Write_ok:
  assumes "m_ok (pf_msg p)" "pf_fd p \<noteq> -1" "\<And>f n. n \<le> wr f n" "0 \<notin> set s"
  shows "\<exists>p'. Profiler_Write wr s p = Some (IRIS_SUCCESS, p') \<and> m_ok (pf_msg p') \<and> pf_fd p' = pf_fd p \<and> handed p' = handed p @ s"
  using assms(1,2,4)
proof (induction "2 * length s + unat (m_off (pf_msg p)) div 256" arbitrary: s p rule: less_induct)
  case less
  define left where "left = unat (free_buf_size (pf_msg p))"
  have left: "left = 256 - unat (m_off (pf_msg p))" using free_size [OF less.prems(1)] by (simp add: left_def)
  show ?case
  proof (cases "left < length s")
    case False
    with WriteString_ok [OF less.prems(1), of s] obtain m' where "WriteString s (pf_msg p) = Some (True, m')" "m_ok m'"
      "written m' = written (pf_msg p) @ s" by (auto simp: left_def not_less)
    with False less.prems(2,3) show ?thesis
      by (subst Profiler_Write.simps) (auto simp: left_def [symmetric] c_str_text handed_def)
  next
    case True
    define s1 where "s1 = take left s"
    have s1: "0 \<notin> set s1" "length s1 = left" using less.prems(3) True by (auto simp: s1_def dest: in_set_takeD)
    from WriteString_ok [OF less.prems(1), of s1] s1(2) obtain m' where m': "WriteString s1 (pf_msg p) = Some (True, m')" "m_ok m'"
      "written m' = written (pf_msg p) @ s1" by (auto simp: left_def)
    from Flush_ok [of "p\<lparr>pf_msg := m'\<rparr>" wr] m' less.prems(2) assms(3) obtain p1 where
      p1: "Profiler_Flush wr (p\<lparr>pf_msg := m'\<rparr>) = (IRIS_SUCCESS, p1)" "m_ok (pf_msg p1)" "m_off (pf_msg p1) = 0" "pf_fd p1 = pf_fd p"
        "pf_file p1 = handed p @ s1" by (auto simp: handed_def)
    have o1: "handed p1 = handed p @ s1" using p1(3,5) by (simp add: handed_def written_def)
    have "2 * length (drop left s) + unat (m_off (pf_msg p1)) div 256 < 2 * length s + unat (m_off (pf_msg p)) div 256"
    proof (cases "left = 0")
      case True
      then have "256 \<le> unat (m_off (pf_msg p))" using left by simp
      then have "0 < unat (m_off (pf_msg p)) div 256" by (simp add: div_greater_zero_iff)
      then show ?thesis using p1(3) by simp
    next
      case False
      then show ?thesis using True p1(3) by simp
    qed
    moreover have "0 \<notin> set (drop left s)" using less.prems(3) by (auto dest: in_set_dropD)
    ultimately obtain p' where "Profiler_Write wr (drop left s) p1 = Some (IRIS_SUCCESS, p')" "m_ok (pf_msg p')" "pf_fd p' = pf_fd p1"
      "handed p' = handed p1 @ drop left s"
      using less.hyps [of "drop left s" p1] p1(2,4) less.prems(2) by auto
    moreover have "Profiler_Write wr s p = Profiler_Write wr (drop left s) p1"
      using True m'(1) p1(1) s1(1) by (subst Profiler_Write.simps) (simp add: left_def [symmetric] s1_def [symmetric] c_str_text)
    ultimately show ?thesis using p1(4) o1 by (simp add: s1_def)
  qed
qed

lemma writes_ok:
  assumes "m_ok (pf_msg p)" "pf_fd p \<noteq> -1" "\<And>f n. n \<le> wr f n" "\<forall>s \<in> set ss. 0 \<notin> set s"
  shows "\<exists>p'. writes wr ss p = Some p' \<and> m_ok (pf_msg p') \<and> pf_fd p' = pf_fd p \<and> handed p' = handed p @ concat ss"
  using assms(1,2,4)
proof (induction ss arbitrary: p)
  case (Cons s ss)
  from Write_ok [OF Cons.prems(1,2), of wr s] assms(3) Cons.prems(3) obtain p1 where
    "Profiler_Write wr s p = Some (IRIS_SUCCESS, p1)" "m_ok (pf_msg p1)" "pf_fd p1 = pf_fd p" "handed p1 = handed p @ s" by auto
  with Cons.IH [of p1] Cons.prems show ?case by (auto simp: writes_def)
qed (simp add: writes_def)



text \<open>A file that cannot be opened. Nobody looks at the result of \<open>OpenFD\<close>; without a descriptor the buffer is never
  emptied, and the first \<open>Write\<close> of a text that does not fit into it does not return.\<close>

theorem unwritable_profiler_hangs:
  assumes "m_ok (pf_msg p)" "pf_fd p = -1" "unat (free_buf_size (pf_msg p)) < length s" "0 \<notin> set s"
  shows "Profiler_Write wr s p = None"
proof -
  define stuck where "stuck s p \<longleftrightarrow> m_ok (pf_msg p) \<and> pf_fd p = -1 \<and> unat (free_buf_size (pf_msg p)) < length s \<and> 0 \<notin> set s"
    for s :: "byte list" and p :: profiler
  have "\<not> stuck s p" if "Profiler_Write wr s p = Some y" for y
  proof (rule Profiler_Write.raw_induct [where P = "\<lambda>wr s p y. \<not> stuck s p", OF _ that])
    fix rec :: "(byte list \<Rightarrow> nat \<Rightarrow> nat) \<Rightarrow> byte list \<Rightarrow> profiler \<Rightarrow> (int \<times> profiler) option" and wr s p y
    assume IH: "\<And>wr s p y. rec wr s p = Some y \<Longrightarrow> \<not> stuck s p"
      and body: "(let space_left = unat (free_buf_size (pf_msg p)) in
      if space_left < length s
      then Option.bind (WriteString (c_str (take space_left s)) (pf_msg p)) (\<lambda>r.
             if \<not> fst r then Some (IRIS_ERROR, p\<lparr>pf_msg := snd r\<rparr>)
             else rec wr (drop space_left s) (snd (Profiler_Flush wr (p\<lparr>pf_msg := snd r\<rparr>))))
      else Option.bind (WriteString (c_str s) (pf_msg p)) (\<lambda>r.
             Some (if fst r then IRIS_SUCCESS else IRIS_ERROR, p\<lparr>pf_msg := snd r\<rparr>))) = Some y"
    show "\<not> stuck s p"
    proof
      assume "stuck s p"
      then have a: "m_ok (pf_msg p)" "pf_fd p = -1" "unat (free_buf_size (pf_msg p)) < length s" "0 \<notin> set s" by (simp_all add: stuck_def)
      define left where "left = unat (free_buf_size (pf_msg p))"
      have l: "left = 256 - unat (m_off (pf_msg p))" "left < length s" using free_size [OF a(1)] a(3) by (simp_all add: left_def)
      have s1: "0 \<notin> set (take left s)" "length (take left s) = left" using a(4) l(2) by (auto dest: in_set_takeD)
      from WriteString_ok [OF a(1), of "take left s"] s1(2) obtain m' where m': "WriteString (take left s) (pf_msg p) = Some (True, m')" "m_ok m'"
        "unat (m_off m') = unat (m_off (pf_msg p)) + left" by (auto simp: left_def)
      have "rec wr (drop left s) (p\<lparr>pf_msg := m'\<rparr>) = Some y"
        using body l(2) m'(1) a(2) s1(1) by (simp add: left_def [symmetric] c_str_text Profiler_Flush_def Let_def)
      moreover have "unat (free_buf_size m') = 0" using free_size [OF m'(2)] m'(3) l(1) a(1) by (simp add: m_ok_def)
      then have "stuck (drop left s) (p\<lparr>pf_msg := m'\<rparr>)" using m' a l(2) by (auto simp: stuck_def dest: in_set_dropD)
      ultimately show False using IH by blast
    qed
  qed
  moreover have "stuck s p" using assms by (simp add: stuck_def)
  ultimately show ?thesis by (cases "Profiler_Write wr s p") auto
qed

theorem unwritable_profiler_hangs_witness:
  "Profiler_Write (\<lambda>_ n. n) (replicate 300 65) \<lparr>pf_fd = -1, pf_msg = \<lparr>m_buf = replicate 264 0, m_off = 0\<rparr>, pf_file = []\<rparr> = None"
  by (rule unwritable_profiler_hangs) (simp_all add: m_ok_def MSG_BYTES_def free_buf_size_def IRIS_MSG_SIZE_def)

section \<open>The graph of a run\<close>

definition nl :: string where "nl = [CHR 0x0A]"
definition dq :: string where "dq = [CHR 0x22]"
definition backslash_n :: string where "backslash_n = [CHR 0x5C, CHR 0x6E]"

text \<open>\<open>sprintf\<close> into an array of \<open>n\<close> characters.\<close>

definition sprintf :: "nat \<Rightarrow> string \<Rightarrow> byte list option" where
  "sprintf n s = (if length s < n then Some (map of_char s) else None)"

definition policy_str :: "int \<Rightarrow> string" where
  "policy_str policy =
     (if policy = iris_default then ''default'' else if policy = iris_cpu then ''cpu'' else if policy = iris_nvidia then ''nvidia''
      else if policy = iris_amd then ''amd'' else if policy = iris_gpu_intel then ''gpu intel'' else if policy = iris_gpu then ''gpu''
      else if policy = iris_phi then ''phi'' else if policy = iris_fpga then ''fpga'' else if policy = iris_dsp then ''dsp''
      else if policy = iris_roundrobin then ''roundrobin'' else if policy = iris_julia_policy then ''julia policy''
      else if policy = iris_depend then ''depend'' else if policy = iris_data then ''data'' else if policy = iris_profile then ''profile''
      else if policy = iris_random then ''random'' else if policy = iris_pending then ''pending'' else if policy = iris_sdq then ''sdq''
      else if policy = iris_custom then ''custom'' else if policy AND iris_ftf \<noteq> 0 then ''ftf'' else ''?'')"

text \<open>What a profiler reads of a completed task; \<open>pt_dev\<close> is the type of its device, if it has one.\<close>

record ptask =
  pt_uid :: nat
  pt_name :: string
  pt_dev :: "int option"
  pt_policy :: int
  pt_time :: string
  pt_depends :: "nat list"

record dot =
  dot_prof :: profiler
  dot_exit :: "nat list"
  dot_no_task :: bool

definition PROFILER_DOT_HEADER :: string where
  "PROFILER_DOT_HEADER = ''digraph {'' @ nl @ ''start[shape=Mdiamond, label='' @ dq @ ''main'' @ dq @ '']'' @ nl"

definition task_line :: "ptask \<Rightarrow> string" where
  "task_line t =
     (let type = (case pt_dev t of None \<Rightarrow> iris_cpu | Some type \<Rightarrow> type) in
      ''task'' @ dec (pt_uid t) @ ''[style=filled, fillcolor='' @
      (if type AND iris_cpu \<noteq> 0 then ''cyan'' else if type AND iris_gpu \<noteq> 0 then ''green'' else ''purple'') @
      '', label='' @ dq @ pt_name t @ '' ('' @ policy_str (pt_policy t) @ '')'' @ backslash_n @ pt_time t @ dq @ '']'' @ nl)"

definition start_line :: "nat \<Rightarrow> string" where "start_line tid = ''start -> task'' @ dec tid @ nl"
definition edge_line :: "nat \<Rightarrow> nat \<Rightarrow> string" where "edge_line duid tid = ''task'' @ dec duid @ '' -> task'' @ dec tid @ nl"
definition exit_line :: "nat \<Rightarrow> string" where "exit_line tid = ''task'' @ dec tid @ '' -> end'' @ nl"
definition end_line :: "string \<Rightarrow> string" where
  "end_line time_app = ''end[shape=Msquare, label='' @ dq @ ''exit'' @ backslash_n @ time_app @ dq @ '']'' @ nl"

definition dot_print :: "(byte list \<Rightarrow> nat \<Rightarrow> nat) \<Rightarrow> nat \<Rightarrow> string \<Rightarrow> dot \<Rightarrow> dot option" where
  "dot_print wr n s d = do { bs \<leftarrow> sprintf n s; r \<leftarrow> Profiler_Write wr bs (dot_prof d); Some (d\<lparr>dot_prof := snd r\<rparr>) }"

definition ProfilerDOT_new :: "(byte list \<Rightarrow> nat \<Rightarrow> nat) \<Rightarrow> byte list \<Rightarrow> int \<Rightarrow> dot option" where
  "ProfilerDOT_new wr g fd = do {
     p \<leftarrow> Profiler_new g;
     let p = snd (OpenFD fd p);
     r \<leftarrow> Profiler_Write wr (map of_char PROFILER_DOT_HEADER) p;
     Some \<lparr>dot_prof = snd r, dot_exit = [], dot_no_task = True\<rparr> }"

text \<open>\<open>tasks_exit_\<close> is a \<open>std::set\<close>, a list in increasing order.\<close>

definition set_insert :: "nat \<Rightarrow> nat list \<Rightarrow> nat list" where
  "set_insert x xs = (if x \<in> set xs then xs else insort x xs)"

definition DOT_CompleteTask :: "(byte list \<Rightarrow> nat \<Rightarrow> nat) \<Rightarrow> ptask \<Rightarrow> dot \<Rightarrow> dot option" where
  "DOT_CompleteTask wr t d = do {
     let d = d\<lparr>dot_no_task := False, dot_exit := set_insert (pt_uid t) (dot_exit d)\<rparr>;
     d \<leftarrow> dot_print wr 1024 (task_line t) d;
     if pt_depends t = [] then dot_print wr 1024 (start_line (pt_uid t)) d
     else opt_fold (\<lambda>duid d. dot_print wr 1024 (edge_line duid (pt_uid t)) (d\<lparr>dot_exit := filter (\<lambda>x. x \<noteq> duid) (dot_exit d)\<rparr>))
            (pt_depends t) d }"

definition DOT_Exit :: "(byte list \<Rightarrow> nat \<Rightarrow> nat) \<Rightarrow> string \<Rightarrow> dot \<Rightarrow> dot option" where
  "DOT_Exit wr time_app d = do {
     d \<leftarrow> opt_fold (\<lambda>tid. dot_print wr 64 (exit_line tid)) (dot_exit d) d;
     d \<leftarrow> (if dot_no_task d then dot_print wr 1024 (''start -> end'' @ nl) d else Some d);
     d \<leftarrow> dot_print wr 64 (end_line time_app) d;
     dot_print wr 1024 (''}'' @ nl) d }"

text \<open>The life of the profiler; the destructor of the base class closes the file.\<close>

definition DOT_run :: "(byte list \<Rightarrow> nat \<Rightarrow> nat) \<Rightarrow> byte list \<Rightarrow> int \<Rightarrow> ptask list \<Rightarrow> string \<Rightarrow> byte list option" where
  "DOT_run wr g fd ts time_app = do {
     d \<leftarrow> ProfilerDOT_new wr g fd;
     d \<leftarrow> opt_fold (DOT_CompleteTask wr) ts d;
     d \<leftarrow> DOT_Exit wr time_app d;
     Some (pf_file (CloseFD wr (dot_prof d))) }"

section \<open>The graph that is drawn\<close>

text \<open>Tasks are lines, dependencies and starts are edges, and the tasks on which no task of the run depends lead to the end.\<close>

definition task_lines :: "ptask \<Rightarrow> string" where
  "task_lines t = task_line t @
     (if pt_depends t = [] then start_line (pt_uid t) else concat (map (\<lambda>d. edge_line d (pt_uid t)) (pt_depends t)))"

definition exits :: "ptask list \<Rightarrow> nat list" where
  "exits ts = filter (\<lambda>u. \<forall>t \<in> set ts. u \<notin> set (pt_depends t)) (sort (remdups (map pt_uid ts)))"

definition dot_text :: "ptask list \<Rightarrow> string \<Rightarrow> string" where
  "dot_text ts time_app = PROFILER_DOT_HEADER @ concat (map task_lines ts) @ concat (map exit_line (exits ts)) @
     (if ts = [] then ''start -> end'' @ nl else []) @ end_line time_app @ ''}'' @ nl"

text \<open>Lines that fit the buffers they are formatted into and have no zero character; tasks complete after those they depend on.\<close>

definition line_ok :: "nat \<Rightarrow> string \<Rightarrow> bool" where
  "line_ok n s \<longleftrightarrow> length s < n \<and> CHR 0x00 \<notin> set s"

fun run_ok :: "ptask list \<Rightarrow> bool" where
  "run_ok [] \<longleftrightarrow> True"
| "run_ok (t # ts) \<longleftrightarrow> line_ok 1024 (task_line t) \<and> line_ok 64 (exit_line (pt_uid t)) \<and> line_ok 1024 (start_line (pt_uid t)) \<and>
     (\<forall>d \<in> set (pt_depends t). line_ok 1024 (edge_line d (pt_uid t)) \<and> d \<noteq> pt_uid t \<and> d \<notin> pt_uid ` set ts) \<and> run_ok ts"

definition dot_ok :: "dot \<Rightarrow> bool" where
  "dot_ok d \<longleftrightarrow> m_ok (pf_msg (dot_prof d)) \<and> pf_fd (dot_prof d) \<noteq> -1"

lemma of_char_zero: "CHR 0x00 \<notin> set s \<Longrightarrow> (0 :: byte) \<notin> set (map of_char s)"
proof
  assume a: "CHR 0x00 \<notin> set s" "(0 :: byte) \<in> set (map of_char s)"
  then obtain c where c: "c \<in> set s" "(of_char c :: byte) = 0" by auto
  have "(of_char c :: nat) < 256" by simp
  moreover from c(2) have "(word_of_nat (of_char c) :: byte) = 0" by (simp only: of_nat_of_char)
  then have "256 dvd (of_char c :: nat)" by (simp add: word_of_nat_eq_0_iff)
  ultimately have "(of_char c :: nat) = 0" using nat_dvd_not_less [of "of_char c" 256] by (cases "(of_char c :: nat) = 0") auto
  then have "c = char_of (0 :: nat)" by (metis char_of_char)
  then have "c = CHR 0x00" by (simp add: char_of_def)
  with a(1) c(1) show False by simp
qed

lemma dot_print_ok:
  assumes "dot_ok d" "\<And>f n. n \<le> wr f n" "line_ok n s"
  shows "\<exists>d'. dot_print wr n s d = Some d' \<and> dot_ok d' \<and> handed (dot_prof d') = handed (dot_prof d) @ map of_char s \<and>
    dot_exit d' = dot_exit d \<and> dot_no_task d' = dot_no_task d"
  using Write_ok [of "dot_prof d" wr "map of_char s"] assms of_char_zero [of s]
  by (auto simp: dot_print_def sprintf_def line_ok_def dot_ok_def)

lemma print_edges_ok:
  assumes "\<And>f n. n \<le> wr f n"
  shows "dot_ok d \<Longrightarrow> \<forall>x \<in> set xs. line_ok 1024 (edge_line x tid) \<Longrightarrow>
    \<exists>d'. opt_fold (\<lambda>duid d. dot_print wr 1024 (edge_line duid tid) (d\<lparr>dot_exit := filter (\<lambda>x. x \<noteq> duid) (dot_exit d)\<rparr>)) xs d = Some d' \<and>
      dot_ok d' \<and> handed (dot_prof d') = handed (dot_prof d) @ map of_char (concat (map (\<lambda>x. edge_line x tid) xs)) \<and>
      dot_no_task d' = dot_no_task d \<and> dot_exit d' = filter (\<lambda>x. x \<notin> set xs) (dot_exit d)"
proof (induction xs arbitrary: d)
  case (Cons x xs)
  define d1 where "d1 = d\<lparr>dot_exit := filter (\<lambda>y. y \<noteq> x) (dot_exit d)\<rparr>"
  have d1: "dot_ok d1" using Cons.prems(1) by (simp add: dot_ok_def d1_def)
  from Cons.prems(2) have "line_ok 1024 (edge_line x tid)" by simp
  from dot_print_ok [where wr = wr, OF d1 assms this] obtain d2 where d2: "dot_print wr 1024 (edge_line x tid) d1 = Some d2" "dot_ok d2"
    "handed (dot_prof d2) = handed (dot_prof d) @ map of_char (edge_line x tid)" "dot_no_task d2 = dot_no_task d"
    "dot_exit d2 = filter (\<lambda>y. y \<noteq> x) (dot_exit d)" by (auto simp: d1_def)
  from Cons.IH [OF d2(2)] Cons.prems(2) obtain d3 where
    "opt_fold (\<lambda>duid d. dot_print wr 1024 (edge_line duid tid) (d\<lparr>dot_exit := filter (\<lambda>x. x \<noteq> duid) (dot_exit d)\<rparr>)) xs d2 = Some d3"
    "dot_ok d3" "handed (dot_prof d3) = handed (dot_prof d2) @ map of_char (concat (map (\<lambda>x. edge_line x tid) xs))"
    "dot_no_task d3 = dot_no_task d2" "dot_exit d3 = filter (\<lambda>x. x \<notin> set xs) (dot_exit d2)" by auto
  with d2 show ?case by (auto simp: d1_def intro!: filter_cong)
qed simp

lemma print_exits_ok:
  assumes "\<And>f n. n \<le> wr f n"
  shows "dot_ok d \<Longrightarrow> \<forall>x \<in> set xs. line_ok 64 (exit_line x) \<Longrightarrow>
    \<exists>d'. opt_fold (\<lambda>tid. dot_print wr 64 (exit_line tid)) xs d = Some d' \<and> dot_ok d' \<and>
      handed (dot_prof d') = handed (dot_prof d) @ map of_char (concat (map exit_line xs)) \<and> dot_no_task d' = dot_no_task d"
proof (induction xs arbitrary: d)
  case (Cons x xs)
  then have "line_ok 64 (exit_line x)" by simp
  from dot_print_ok [where wr = wr, OF Cons.prems(1) assms this] obtain d2 where d2: "dot_print wr 64 (exit_line x) d = Some d2" "dot_ok d2"
    "handed (dot_prof d2) = handed (dot_prof d) @ map of_char (exit_line x)" "dot_no_task d2 = dot_no_task d" by auto
  from Cons.IH [OF d2(2)] Cons.prems(2) d2 show ?case by auto
qed simp

lemma Complete_ok:
  assumes "dot_ok d" "\<And>f n. n \<le> wr f n" "run_ok (t # ts)"
  shows "\<exists>d'. DOT_CompleteTask wr t d = Some d' \<and> dot_ok d' \<and> handed (dot_prof d') = handed (dot_prof d) @ map of_char (task_lines t) \<and>
    \<not> dot_no_task d' \<and> dot_exit d' = filter (\<lambda>x. x \<notin> set (pt_depends t)) (set_insert (pt_uid t) (dot_exit d))"
proof -
  define d1 where "d1 = d\<lparr>dot_no_task := False, dot_exit := set_insert (pt_uid t) (dot_exit d)\<rparr>"
  have d1: "dot_ok d1" using assms(1) by (simp add: dot_ok_def d1_def)
  from assms(3) have l: "line_ok 1024 (task_line t)" "line_ok 1024 (start_line (pt_uid t))"
    "\<forall>x \<in> set (pt_depends t). line_ok 1024 (edge_line x (pt_uid t))" by auto
  from dot_print_ok [where wr = wr, OF d1 assms(2) l(1)] obtain d2 where d2: "dot_print wr 1024 (task_line t) d1 = Some d2" "dot_ok d2"
    "handed (dot_prof d2) = handed (dot_prof d) @ map of_char (task_line t)" "\<not> dot_no_task d2"
    "dot_exit d2 = set_insert (pt_uid t) (dot_exit d)" by (auto simp: d1_def)
  show ?thesis
  proof (cases "pt_depends t = []")
    case True
    from dot_print_ok [where wr = wr, OF d2(2) assms(2) l(2)] True d2 show ?thesis
      by (auto simp: DOT_CompleteTask_def d1_def [symmetric] task_lines_def)
  next
    case False
    from print_edges_ok [where wr = wr, OF assms(2) d2(2) l(3)] False d2 show ?thesis
      by (auto simp: DOT_CompleteTask_def d1_def [symmetric] task_lines_def)
  qed
qed

lemma set_insert_sorted: "sorted xs \<Longrightarrow> distinct xs \<Longrightarrow> sorted (set_insert x xs) \<and> distinct (set_insert x xs) \<and> set (set_insert x xs) = insert x (set xs)"
  by (auto simp: set_insert_def sorted_insort distinct_insort set_insort_key)

lemma Completes_ok:
  assumes "\<And>f n. n \<le> wr f n"
  shows "dot_ok d \<Longrightarrow> run_ok ts \<Longrightarrow> sorted (dot_exit d) \<Longrightarrow> distinct (dot_exit d) \<Longrightarrow>
    \<exists>d'. opt_fold (DOT_CompleteTask wr) ts d = Some d' \<and> dot_ok d' \<and>
      handed (dot_prof d') = handed (dot_prof d) @ map of_char (concat (map task_lines ts)) \<and>
      dot_no_task d' = (dot_no_task d \<and> ts = []) \<and> sorted (dot_exit d') \<and> distinct (dot_exit d') \<and>
      set (dot_exit d') = {u \<in> set (dot_exit d) \<union> pt_uid ` set ts. \<forall>t \<in> set ts. u \<notin> set (pt_depends t)}"
proof (induction ts arbitrary: d)
  case (Cons t ts)
  from Complete_ok [where wr = wr, OF Cons.prems(1) assms Cons.prems(2)] obtain d1 where
    d1: "DOT_CompleteTask wr t d = Some d1" "dot_ok d1" "handed (dot_prof d1) = handed (dot_prof d) @ map of_char (task_lines t)"
    "\<not> dot_no_task d1" "dot_exit d1 = filter (\<lambda>x. x \<notin> set (pt_depends t)) (set_insert (pt_uid t) (dot_exit d))" by blast
  note si = set_insert_sorted [OF Cons.prems(3,4), of "pt_uid t"]
  have s: "sorted (dot_exit d1)" "distinct (dot_exit d1)" "set (dot_exit d1) = insert (pt_uid t) (set (dot_exit d)) - set (pt_depends t)"
    using si by (auto simp: d1(5) sorted_wrt_filter)
  from Cons.prems(2) have r: "run_ok ts" "\<forall>x \<in> set (pt_depends t). x \<noteq> pt_uid t \<and> x \<notin> pt_uid ` set ts" by auto
  from Cons.IH [OF d1(2) r(1) s(1,2)] obtain d2 where
    d2: "opt_fold (DOT_CompleteTask wr) ts d1 = Some d2" "dot_ok d2"
      "handed (dot_prof d2) = handed (dot_prof d1) @ map of_char (concat (map task_lines ts))"
      "dot_no_task d2 = (dot_no_task d1 \<and> ts = [])" "sorted (dot_exit d2)" "distinct (dot_exit d2)"
      "set (dot_exit d2) = {u \<in> set (dot_exit d1) \<union> pt_uid ` set ts. \<forall>t \<in> set ts. u \<notin> set (pt_depends t)}" by blast
  have "set (dot_exit d2) = {u \<in> set (dot_exit d) \<union> pt_uid ` set (t # ts). \<forall>t \<in> set (t # ts). u \<notin> set (pt_depends t)}"
    unfolding d2(7) s(3) using r(2) by auto
  with d1 d2 show ?case by auto
qed simp


text \<open>Two kernels, the second of which depends on the first.\<close>

definition two_tasks :: "ptask list" where
  "two_tasks =
     [\<lparr>pt_uid = 3, pt_name = ''a'', pt_dev = Some iris_nvidia, pt_policy = iris_sdq, pt_time = ''0.5'', pt_depends = []\<rparr>,
      \<lparr>pt_uid = 12, pt_name = ''b'', pt_dev = None, pt_policy = iris_gpu, pt_time = ''1.5'', pt_depends = [3]\<rparr>]"

lemma two_tasks_ok: "run_ok two_tasks" "line_ok 64 (end_line ''2.0'')"
  by code_simp+


lemma two_tasks_exits: "exits two_tasks = [12]"
  by code_simp

end
