(* ===== verification/Iris_Environment.thy ===== *)
theory Iris_Environment
  imports Iris_Text Iris_Defs "HOL-Library.Monad_Syntax"
begin

text \<open>
  The settings of the runtime (\<^verbatim>\<open>Platform.cpp\<close>): a table with defaults that the program may overwrite, in front of which the
  environment of the process goes, and the list of enabled devices. The environment is the argument \<open>genv\<close>, what \<open>getenv\<close> answers. Text that does
  not fit the array it is copied into is an error of the program: no result.
\<close>

section \<open>The table\<close>

type_synonym env = "string \<Rightarrow> string option"

definition EnvironmentSet :: "string \<Rightarrow> string \<Rightarrow> bool \<Rightarrow> env \<Rightarrow> int \<times> env" where
  "EnvironmentSet key val overwrite e =
     (if e key \<noteq> None \<and> \<not> overwrite then (IRIS_ERROR, e) else (IRIS_SUCCESS, e(key \<mapsto> val)))"

text \<open>The caller passes a NULL pointer, and gets memory, or a buffer of its own.\<close>

datatype target = Null | Buffer nat

definition EnvironmentGet :: "(string \<Rightarrow> string option) \<Rightarrow> env \<Rightarrow> string \<Rightarrow> char option \<Rightarrow> target \<Rightarrow> (int \<times> string option \<times> nat) option" where
  "EnvironmentGet genv e key sep value =
     (let env_key = ''IRIS'' @ (case sep of None \<Rightarrow> [] | Some c \<Rightarrow> [c]) @ key in
      if 128 \<le> length env_key then None
      else
        case (case genv env_key of Some v \<Rightarrow> Some v | None \<Rightarrow> e key) of
          None \<Rightarrow> Some (IRIS_ERROR, None, 0)
        | Some v \<Rightarrow>
            (case value of
               Null \<Rightarrow> Some (IRIS_SUCCESS, Some v, length v + 1)
             | Buffer n \<Rightarrow> if n < length v + 1 then None else Some (IRIS_SUCCESS, Some v, length v + 1)))"

definition EnvironmentIntRead :: "(string \<Rightarrow> string option) \<Rightarrow> env \<Rightarrow> string \<Rightarrow> int \<Rightarrow> int option" where
  "EnvironmentIntRead genv e name var = do {
     (ret, v, len) \<leftarrow> EnvironmentGet genv e name (Some CHR ''_'') Null;
     case v of None \<Rightarrow> Some var | Some v \<Rightarrow> do { n \<leftarrow> atoi v; Some (if 0 \<le> n then n else var) } }"

definition EnvironmentBoolRead :: "(string \<Rightarrow> string option) \<Rightarrow> env \<Rightarrow> string \<Rightarrow> bool \<Rightarrow> bool option" where
  "EnvironmentBoolRead genv e name flag = do {
     (ret, v, len) \<leftarrow> EnvironmentGet genv e name (Some CHR ''_'') Null;
     case v of None \<Rightarrow> Some flag | Some v \<Rightarrow> do { n \<leftarrow> atoi v; Some (if n = 1 then True else if n = 0 then False else flag) } }"

definition default_settings :: "string \<Rightarrow> (string \<times> string) list" where
  "default_settings tmp_dir =
     [(''ARCHS'', ''openmp:cuda:hip:levelzero:hexagon:opencl''),
      (''DEFAULT_OMP_KERNELS'', ''default_cpu_gpu_kernels.cpp''),
      (''DEFAULT_CUDA_KERNELS'', ''default_cpu_gpu_kernels.cpp''),
      (''DEFAULT_HIP_KERNELS'', ''default_cpu_gpu_kernels.cpp''),
      (''TMPDIR'', tmp_dir),
      (''OPENCL_VENDORS'', ''all''),
      (''INCLUDE_DIR'', ''include/iris''),
      (''KERNEL_DIR'', ''''),
      (''KERNEL_SRC_CUDA'', ''kernel.cu''),
      (''KERNEL_BIN_CUDA'', ''kernel.ptx''),
      (''KERNEL_XILINX_XCLBIN'', ''kernel.xilinx.xclbin''),
      (''KERNEL_FPGA_XCLBIN'', ''kernel-fpga.xclbin''),
      (''KERNEL_INTEL_AOCX'', ''kernel.intel.aocx''),
      (''KERNEL_SRC_HEXAGON'', ''kernel.hexagon.cpp''),
      (''KERNEL_BIN_HEXAGON'', ''kernel.hexagon.so''),
      (''KERNEL_SRC_HIP'', ''kernel.hip.cpp''),
      (''KERNEL_BIN_HIP'', ''kernel.hip''),
      (''KERNEL_SRC_OPENMP'', ''kernel.openmp.h''),
      (''KERNEL_BIN_OPENMP'', ''kernel.openmp.so''),
      (''KERNEL_QIR'', ''kernel.qir.ll''),
      (''KERNEL_SRC_SPV'', ''kernel.cl''),
      (''KERNEL_BIN_SPV'', ''kernel.spv''),
      (''KERNEL_JULIA'', ''libjulia.so''),
      (''LIB_CUDA'', ''libcuda.so''),
      (''LIB_QIREE'', ''libqir.xacc.lib.so''),
      (''KERNEL_HOST2CUDA'', ''kernel.host2cuda.so''),
      (''KERNEL_HOST2HIP'', ''kernel.host2hip.so''),
      (''KERNEL_HOST2OPENCL'', ''kernel.host2opencl.so''),
      (''KERNEL_HOST2OPENCL_FPGA'', ''kernel.host2opencl.fpga.so''),
      (''KERNEL_HOST2OPENCL_XILINX'', ''kernel.host2opencl.xilinx.so''),
      (''KERNEL_HOST2OPENCL_INTEL'', ''kernel.host2opencl.intel.so''),
      (''LOGO'', ''off'')]"

definition EnvironmentInit :: "string \<Rightarrow> env \<Rightarrow> env" where
  "EnvironmentInit tmp_dir = fold (\<lambda>(k, v) e. snd (EnvironmentSet k v False e)) (default_settings tmp_dir)"

text \<open>The setting names a file; when there is none with that name, the directory of kernels is put before it. \<open>good\<close> says which
  files can be read.\<close>

definition GetFilePath :: "(string \<Rightarrow> string option) \<Rightarrow> (string \<Rightarrow> bool) \<Rightarrow> env \<Rightarrow> string \<Rightarrow> target \<Rightarrow> (string \<times> nat) option" where
  "GetFilePath genv good e key value = do {
     (ret, v, len) \<leftarrow> EnvironmentGet genv e key (Some CHR ''_'') value;
     v \<leftarrow> v;
     if good v then Some (v, len)
     else do {
       (ret', libdir, len') \<leftarrow> EnvironmentGet genv e ''KERNEL_DIR'' (Some CHR ''_'') Null;
       libdir \<leftarrow> libdir;
       if libdir = [] then Some (v, len)
       else
         let path = libdir @ ''/'' @ v in
         if 1024 < length path + 1 then None
         else case value of
           Null \<Rightarrow> Some (path, length path + 1)
         | Buffer n \<Rightarrow> if n < length path + 1 then None else Some (path, length path + 1) } }"

section \<open>Enabled devices\<close>

definition delim :: "char \<Rightarrow> bool" where
  "delim c \<longleftrightarrow> c \<in> set '' :;.,''"

definition SetDevsAvailable :: "(string \<Rightarrow> string option) \<Rightarrow> int list option" where
  "SetDevsAvailable genv =
     (case genv ''IRIS_DEV_ENABLED'' of
        None \<Rightarrow> Some (map int [0..<nat IRIS_MAX_NDEVS])
      | Some enabled \<Rightarrow>
          opt_fold (\<lambda>a devs. do { n \<leftarrow> atoi a; if int (length devs) < IRIS_MAX_NDEVS then Some (devs @ [n]) else None })
            (strtok delim enabled) [])"

section \<open>Properties\<close>

text \<open>Calls of the program that set a value.\<close>

definition settings :: "(string \<times> string \<times> bool) list \<Rightarrow> env \<Rightarrow> env" where
  "settings = fold (\<lambda>(k, v, ow) e. snd (EnvironmentSet k v ow e))"

text \<open>The value of a key: the last one that was set to overwrite, else the one before, else the first that was set at all.\<close>

fun effective :: "string \<Rightarrow> (string \<times> string \<times> bool) list \<Rightarrow> string option \<Rightarrow> string option" where
  "effective key [] cur = cur"
| "effective key ((k, v, ow) # cs) cur = effective key cs (if k = key \<and> (ow \<or> cur = None) then Some v else cur)"

lemma settings_effective: "settings cs e key = effective key cs (e key)"
  by (induction cs arbitrary: e) (auto simp: settings_def EnvironmentSet_def split: if_splits)

lemma default_keys: "distinct (map fst (default_settings d))"
  by (simp add: default_settings_def)

lemma EnvironmentInit_defaults: "EnvironmentInit d (\<lambda>_. None) = map_of (default_settings d)"
proof -
  have "distinct (map fst cs) \<Longrightarrow> (\<forall>k \<in> set (map fst cs). e k = None) \<Longrightarrow>
      fold (\<lambda>(k, v) e. snd (EnvironmentSet k v False e)) cs e = e ++ map_of cs" for cs :: "(string \<times> string) list" and e
  proof (induction cs arbitrary: e)
    case (Cons x cs)
    obtain k v where x: "x = (k, v)" by fastforce
    have "fold (\<lambda>(k, v) e. snd (EnvironmentSet k v False e)) (x # cs) e =
        fold (\<lambda>(k, v) e. snd (EnvironmentSet k v False e)) cs (e(k \<mapsto> v))"
      using Cons.prems x by (simp add: EnvironmentSet_def)
    also have "\<dots> = e(k \<mapsto> v) ++ map_of cs"
      by (rule Cons.IH) (use Cons.prems x in auto)
    also have "\<dots> = e ++ map_of (x # cs)"
    proof -
      have "map_of cs k = None" using Cons.prems(1) x by (simp add: map_of_eq_None_iff)
      then show ?thesis by (intro ext) (simp add: map_add_def x split: option.split)
    qed
    finally show ?case .
  qed simp
  from this [OF default_keys [of d], of "\<lambda>_. None"] show ?thesis by (simp add: EnvironmentInit_def map_add_def fun_eq_iff split: option.splits)
qed

text \<open>C23. Which setting counts. After the defaults and any calls of the program, \<open>EnvironmentGet\<close> answers with the process's variable
  \<open>IRIS_key\<close> when there is one, else with the value the program set last, else with the default; the length counts the terminating
  zero.\<close>

theorem environment_precedence:
  assumes "length key < 123"
  shows "EnvironmentGet genv (settings cs (EnvironmentInit tmp (\<lambda>_. None))) key (Some CHR ''_'') Null =
    Some (case genv (''IRIS_'' @ key) of
        Some v \<Rightarrow> (IRIS_SUCCESS, Some v, length v + 1)
      | None \<Rightarrow> (case effective key cs (map_of (default_settings tmp) key) of
            Some v \<Rightarrow> (IRIS_SUCCESS, Some v, length v + 1)
          | None \<Rightarrow> (IRIS_ERROR, None, 0)))"
  using assms by (auto simp: EnvironmentGet_def settings_effective EnvironmentInit_defaults Let_def split: option.splits)

theorem environment_precedence_witness:
  "EnvironmentGet (\<lambda>_. None) (settings [(''LOGO'', ''on'', True)] (EnvironmentInit ''/tmp/x'' (\<lambda>_. None))) ''LOGO'' (Some CHR ''_'') Null =
     Some (IRIS_SUCCESS, Some ''on'', 3)"
  using environment_precedence [of "''LOGO''" "\<lambda>_. None" "[(''LOGO'', ''on'', True)]" "''/tmp/x''"] by simp

text \<open>A list of devices, written in decimal and separated by any of the separators, is read back as it was written.\<close>

theorem enabled_roundtrip:
  assumes "genv ''IRIS_DEV_ENABLED'' = Some (join c (map dec devs))" "delim c" "length devs \<le> 255" "\<forall>d \<in> set devs. d < 2 ^ 31"
  shows "SetDevsAvailable genv = Some (map int devs)"
proof -
  have "\<forall>x \<in> set (dec d). \<not> delim x" for d
    using dec_digits [of d] by (auto simp: delim_def is_digit_def)
  then have "strtok delim (join c (map dec devs)) = map dec devs" using assms(2) by (intro strtok_join) auto
  moreover have "length ds + length xs \<le> 255 \<Longrightarrow> (\<forall>d \<in> set xs. d < 2 ^ 31) \<Longrightarrow>
    opt_fold (\<lambda>a devs. do { n \<leftarrow> atoi a; if int (length devs) < IRIS_MAX_NDEVS then Some (devs @ [n]) else None }) (map dec xs) ds = Some (ds @ map int xs)"
    for ds and xs :: "nat list"
    by (induction xs arbitrary: ds) (auto simp: atoi_dec IRIS_MAX_NDEVS_def)
  ultimately show ?thesis using assms(1,3,4) by (simp add: SetDevsAvailable_def)
qed

theorem enabled_roundtrip_witness:
  "SetDevsAvailable (\<lambda>_. Some (join CHR '':'' (map dec [0, 2, 17]))) = Some [0, 2, 17]"
  using enabled_roundtrip [of "\<lambda>_. Some (join CHR '':'' (map dec [0, 2, 17]))" "CHR '':''" "[0, 2, 17]"] by (simp add: delim_def)

text \<open>A flag that is set to a word, \<open>true\<close> for example, is switched off.\<close>

theorem bool_word_is_off:
  assumes "genv (''IRIS_'' @ name) = Some v" "length name < 123" "v \<noteq> []" "\<not> is_space (hd v)" "\<not> is_digit (hd v)"
    "hd v \<noteq> CHR ''-''" "hd v \<noteq> CHR ''+''"
  shows "EnvironmentBoolRead genv e name flag = Some False"
  using assms by (simp add: EnvironmentBoolRead_def EnvironmentGet_def atoi_word)

lemma bool_word_is_off_witness: "EnvironmentBoolRead (\<lambda>_. Some ''true'') (\<lambda>_. None) ''ASYNC'' True = Some False"
  by (rule bool_word_is_off [where v = "''true''"]) (simp_all add: is_space_def is_digit_def)

end
