(* ===== verification/Iris_Devices.thy ===== *)
theory Iris_Devices
  imports Iris_Environment
begin

text \<open>
  How the platform finds its devices (\<^verbatim>\<open>Platform.cpp\<close>): the architectures named by \<open>ARCHS\<close> are initialised in that order, each
  through its vendor library, and put their devices into one table of \<open>IRIS_MAX_NDEVS\<close> entries. The libraries are arguments: whether they load, how many devices they
  report and of what kind. A write beyond the table has no result. \<open>ENABLE_SINGLE_DEVICE_PER_CU\<close> is not set, and no Julia interface.
\<close>

section \<open>State\<close>

datatype backend = B_cuda | B_hip | B_levelzero | B_opencl | B_openmp | B_hexagon | B_unset

record pdev =
  pd_backend :: backend
  pd_type :: int
  pd_devno :: nat
  pd_platform :: nat
  pd_root :: "nat option"
  pd_handle :: nat

record devs =
  ds_devs :: "pdev list"
  ds_platforms :: "(string \<times> nat) list"
  ds_arch :: int
  ds_loaded :: "string list"
  ds_default :: int

definition IRIS_MAX_NPLATFORMS :: nat where "IRIS_MAX_NPLATFORMS = 32"

definition Platform_Reset :: devs where
  "Platform_Reset = \<lparr>ds_devs = [], ds_platforms = [], ds_arch = 0, ds_loaded = [], ds_default = 0\<rparr>"

text \<open>What a vendor library answers.\<close>

record vendor =
  vn_load :: bool
  vn_count :: nat

record cl_device =
  cd_cltype :: int
  cd_vendor :: string
  cd_name :: string
  cd_version :: string
  cd_valid :: bool

record cl_platform =
  cp_vendor :: string
  cp_devices :: "cl_device list"
  cp_context :: bool

record libs =
  lib_cuda :: vendor
  lib_hip :: vendor
  lib_levelzero :: vendor
  lib_ndrivers :: nat
  lib_hexagon :: bool
  lib_opencl :: bool
  lib_platforms :: "cl_platform list"

section \<open>The table of devices\<close>

definition add_device :: "pdev \<Rightarrow> devs \<Rightarrow> devs option" where
  "add_device d s =
     (if int (length (ds_devs s)) < IRIS_MAX_NDEVS
      then Some (s\<lparr>ds_devs := ds_devs s @ [d], ds_arch := ds_arch s OR pd_type d\<rparr>) else None)"

text \<open>The name of a platform and its first device, \<open>devs_[ndevs_ - mdevs]\<close>.\<close>

definition add_platform :: "string \<Rightarrow> nat \<Rightarrow> devs \<Rightarrow> devs option" where
  "add_platform name mdevs s =
     (if length (ds_platforms s) < IRIS_MAX_NPLATFORMS \<and> length name < 64 \<and> int (length (ds_devs s) - mdevs) < IRIS_MAX_NDEVS
      then Some (s\<lparr>ds_platforms := ds_platforms s @ [(name, length (ds_devs s) - mdevs)]\<rparr>) else None)"

text \<open>The loop over the devices of a library: it stops when the table is reported full or \<open>max_ndevs\<close> is reached. \<open>mk\<close> is the constructor.\<close>

fun device_loop :: "(nat \<Rightarrow> devs \<Rightarrow> pdev) \<Rightarrow> int \<Rightarrow> nat list \<Rightarrow> nat \<Rightarrow> devs \<Rightarrow> (nat \<times> devs) option" where
  "device_loop mk max_ndevs [] mdevs s = Some (mdevs, s)"
| "device_loop mk max_ndevs (i # is) mdevs s =
     (if IRIS_MAX_NDEVS < int (length (ds_devs s)) then Some (mdevs, s)
      else do {
        s \<leftarrow> add_device (mk i s) s;
        let mdevs = mdevs + 1;
        if max_ndevs \<noteq> -1 \<and> max_ndevs \<le> int mdevs then Some (mdevs, s) else device_loop mk max_ndevs is mdevs s })"

section \<open>Architectures\<close>

text \<open>The constructors, as far as the table is concerned. Those of Level Zero and QIREE devices do not set \<open>model_\<close>.\<close>

definition new_gpu :: "backend \<Rightarrow> int \<Rightarrow> int \<Rightarrow> nat \<Rightarrow> devs \<Rightarrow> pdev" where
  "new_gpu backend type ndevs i s =
     \<lparr>pd_backend = backend, pd_type = type, pd_devno = length (ds_devs s), pd_platform = length (ds_platforms s),
      pd_root = Some (length (ds_devs s) - i), pd_handle = i mod nat ndevs\<rparr>"

definition new_dev :: "backend \<Rightarrow> int \<Rightarrow> nat \<Rightarrow> devs \<Rightarrow> pdev" where
  "new_dev backend type i s =
     \<lparr>pd_backend = backend, pd_type = type, pd_devno = length (ds_devs s), pd_platform = length (ds_platforms s),
      pd_root = None, pd_handle = i\<rparr>"

definition InitGPU :: "backend \<Rightarrow> int \<Rightarrow> string \<Rightarrow> string \<Rightarrow> (string \<Rightarrow> string option) \<Rightarrow> env \<Rightarrow> int \<Rightarrow> vendor \<Rightarrow> devs \<Rightarrow> (int \<times> devs) option" where
  "InitGPU backend type name max_key genv e factor lib s =
     (if \<not> vn_load lib then Some (IRIS_ERROR, s)
      else do {
        let ndevs = int (vn_count lib);
        let ndevs = (if genv ''IRIS_SINGLE'' \<noteq> None then 1 else ndevs);
        max_ndevs \<leftarrow> EnvironmentIntRead genv e max_key (-1);
        ndevs \<leftarrow> (case genv (''IRIS_'' @ max_key) of None \<Rightarrow> Some ndevs | Some c \<Rightarrow> atoi c);
        if ndevs * factor < 0 then None
        else do {
          (mdevs, s) \<leftarrow> device_loop (new_gpu backend type ndevs) max_ndevs [0..<nat (ndevs * factor)] 0 s;
          s \<leftarrow> (if ndevs \<noteq> 0 then add_platform name mdevs s else Some s);
          Some (IRIS_SUCCESS, s) } })"

definition InitCUDA :: "(string \<Rightarrow> string option) \<Rightarrow> env \<Rightarrow> int \<Rightarrow> vendor \<Rightarrow> devs \<Rightarrow> (int \<times> devs) option" where
  "InitCUDA = InitGPU B_cuda iris_nvidia ''CUDA'' ''MAX_CUDA_DEVICE''"

definition InitHIP :: "(string \<Rightarrow> string option) \<Rightarrow> env \<Rightarrow> int \<Rightarrow> vendor \<Rightarrow> devs \<Rightarrow> (int \<times> devs) option" where
  "InitHIP = InitGPU B_hip iris_amd ''HIP'' ''MAX_HIP_DEVICE''"

definition InitLevelZero :: "nat \<Rightarrow> vendor \<Rightarrow> devs \<Rightarrow> (int \<times> devs) option" where
  "InitLevelZero ndrivers lib s =
     (if \<not> vn_load lib then Some (IRIS_ERROR, s)
      else if ndrivers \<noteq> 1 then Some (IRIS_ERROR, s)
      else do {
        (mdevs, s) \<leftarrow> device_loop (new_dev B_unset iris_gpu_intel) (-1) [0..<vn_count lib] 0 s;
        s \<leftarrow> (if vn_count lib \<noteq> 0 then add_platform ''LevelZero'' mdevs s else Some s);
        Some (IRIS_SUCCESS, s) })"

definition InitOpenMP :: "int \<Rightarrow> devs \<Rightarrow> (int \<times> devs) option" where
  "InitOpenMP factor s = do {
     (mdevs, s) \<leftarrow> device_loop (new_dev B_openmp iris_cpu) (-1) [0..<nat factor] 0 s;
     s \<leftarrow> add_platform ''OpenMP'' mdevs s;
     Some (IRIS_SUCCESS, s) }"

definition InitQIREE :: "int \<Rightarrow> devs \<Rightarrow> (int \<times> devs) option" where
  "InitQIREE factor s = do {
     s \<leftarrow> opt_fold (\<lambda>i s. add_device (new_dev B_unset iris_cpu i s) s) [0..<nat factor] s;
     s \<leftarrow> add_platform ''QIR'' (nat factor) s;
     Some (IRIS_SUCCESS, s) }"

definition InitHexagon :: "bool \<Rightarrow> devs \<Rightarrow> (int \<times> devs) option" where
  "InitHexagon loads s =
     (if \<not> loads then Some (IRIS_ERROR, s)
      else do {
        s \<leftarrow> add_device (new_dev B_hexagon iris_hexagon 0 s) s;
        s \<leftarrow> add_platform ''Hexagon'' 1 s;
        Some (IRIS_SUCCESS, s) })"

section \<open>OpenCL\<close>

definition CL_CPU :: int where "CL_CPU = 2"
definition CL_GPU :: int where "CL_GPU = 4"
definition CL_ACCELERATOR :: int where "CL_ACCELERATOR = 8"
definition CL_ALL :: int where "CL_ALL = -1"

text \<open>\<open>Utils::ReadMap\<close>: the masks that the list of vendors switches on.\<close>

definition ReadMap :: "(string \<Rightarrow> int option) \<Rightarrow> string \<Rightarrow> (int \<Rightarrow> bool) \<Rightarrow> int \<Rightarrow> bool" where
  "ReadMap in_map data out_map =
     fold (\<lambda>a out_map. case in_map a of None \<Rightarrow> out_map | Some m \<Rightarrow> out_map(m := True)) (strtok delim (map to_lower data)) out_map"

definition ocl_vendors_map :: "string \<Rightarrow> int option" where
  "ocl_vendors_map = [''all'' \<mapsto> CL_ALL, ''fpga'' \<mapsto> CL_ACCELERATOR, ''gpu'' \<mapsto> CL_GPU, ''cpu'' \<mapsto> CL_CPU]"

fun has_prefix :: "string \<Rightarrow> string \<Rightarrow> bool" where
  "has_prefix [] s = True"
| "has_prefix (c # cs) [] = False"
| "has_prefix (c # cs) (d # ds) = (c = d \<and> has_prefix cs ds)"

fun strstr :: "string \<Rightarrow> string \<Rightarrow> bool" where
  "strstr [] p = has_prefix p []"
| "strstr (c # cs) p = (has_prefix p (c # cs) \<or> strstr cs p)"

definition strcasestr :: "string \<Rightarrow> string \<Rightarrow> bool" where
  "strcasestr s p = strstr (map to_lower s) (map to_lower p)"

definition opencl_type :: "cl_device \<Rightarrow> int" where
  "opencl_type d =
     (if cd_cltype d = CL_CPU then iris_cpu
      else if cd_cltype d = CL_GPU then
        (if strcasestr (cd_vendor d) ''NVIDIA'' then iris_nvidia
         else if strcasestr (cd_vendor d) ''Advanced Micro Devices'' then iris_amd else iris_gpu)
      else if cd_cltype d = CL_ACCELERATOR then
        (if strstr (cd_vendor d) ''Xilinx'' then iris_fpga
         else if strstr (cd_name d) ''FPGA'' \<or> strstr (cd_version d) ''FPGA'' then iris_fpga else iris_phi)
      else iris_cpu)"

text \<open>The inner loop, over the devices of one OpenCL platform; it counts the platform's devices and all of them.\<close>

fun cl_device_loop :: "bool \<Rightarrow> (int \<Rightarrow> bool) \<Rightarrow> int \<Rightarrow> cl_device list \<Rightarrow> nat \<Rightarrow> nat \<Rightarrow> nat \<Rightarrow> devs \<Rightarrow> (nat \<times> nat \<times> devs) option" where
  "cl_device_loop is_all ocl_vendors max_ndevs [] j mdevs ocldevno s = Some (mdevs, ocldevno, s)"
| "cl_device_loop is_all ocl_vendors max_ndevs (d # ds) j mdevs ocldevno s =
     (if IRIS_MAX_NDEVS < int (length (ds_devs s)) then Some (mdevs, ocldevno, s)
      else if ds_arch s AND iris_cpu \<noteq> 0 \<and> cd_cltype d = CL_CPU then cl_device_loop is_all ocl_vendors max_ndevs ds (j + 1) mdevs ocldevno s
      else if \<not> is_all \<and> \<not> ocl_vendors (cd_cltype d) then cl_device_loop is_all ocl_vendors max_ndevs ds (j + 1) mdevs ocldevno s
      else if \<not> cd_valid d then cl_device_loop is_all ocl_vendors max_ndevs ds (j + 1) mdevs ocldevno s
      else do {
        s \<leftarrow> add_device \<lparr>pd_backend = B_opencl, pd_type = opencl_type d, pd_devno = length (ds_devs s),
              pd_platform = length (ds_platforms s), pd_root = Some (length (ds_devs s) - mdevs), pd_handle = j\<rparr> s;
        if max_ndevs \<noteq> -1 \<and> max_ndevs \<le> int (ocldevno + 1) then Some (mdevs + 1, ocldevno + 1, s)
        else cl_device_loop is_all ocl_vendors max_ndevs ds (j + 1) (mdevs + 1) (ocldevno + 1) s })"

fun cl_platform_loop :: "bool \<Rightarrow> (int \<Rightarrow> bool) \<Rightarrow> int \<Rightarrow> cl_platform list \<Rightarrow> nat \<Rightarrow> devs \<Rightarrow> devs option" where
  "cl_platform_loop is_all ocl_vendors max_ndevs [] ocldevno s = Some s"
| "cl_platform_loop is_all ocl_vendors max_ndevs (p # ps) ocldevno s =
     (if cp_devices p = [] then cl_platform_loop is_all ocl_vendors max_ndevs ps ocldevno s
      else if IRIS_MAX_NDEVS < int (length (cp_devices p)) then None
      else if \<not> cp_context p then cl_platform_loop is_all ocl_vendors max_ndevs ps ocldevno s
      else do {
        (mdevs, ocldevno, s) \<leftarrow> cl_device_loop is_all ocl_vendors max_ndevs (cp_devices p) 0 0 ocldevno s;
        s \<leftarrow> (if 0 < mdevs then add_platform (''OpenCL '' @ cp_vendor p) mdevs s else Some s);
        if max_ndevs \<noteq> -1 \<and> max_ndevs \<le> int ocldevno then Some s else cl_platform_loop is_all ocl_vendors max_ndevs ps ocldevno s })"

definition InitOpenCL :: "(string \<Rightarrow> string option) \<Rightarrow> env \<Rightarrow> bool \<Rightarrow> cl_platform list \<Rightarrow> devs \<Rightarrow> (int \<times> devs) option" where
  "InitOpenCL genv e loads platforms s =
     (if \<not> loads then Some (IRIS_ERROR, s)
      else if platforms = [] then Some (IRIS_SUCCESS, s)
      else do {
        (ret, vendors, len) \<leftarrow> EnvironmentGet genv e ''OPENCL_VENDORS'' (Some CHR ''_'') Null;
        vendors \<leftarrow> vendors;
        let ocl_vendors = ReadMap ocl_vendors_map vendors (\<lambda>_. False);
        max_ndevs \<leftarrow> EnvironmentIntRead genv e ''MAX_OPENCL_DEVICE'' (-1);
        s \<leftarrow> cl_platform_loop (ocl_vendors CL_ALL) ocl_vendors max_ndevs platforms 0 s;
        Some (IRIS_SUCCESS, s) })"

section \<open>All architectures\<close>

record factors =
  fc_openmp :: int
  fc_qiree :: int
  fc_cuda :: int
  fc_hip :: int

text \<open>An architecture is initialised when it is named for the first time; results are not looked at.\<close>

definition init_arch :: "(string \<Rightarrow> string option) \<Rightarrow> env \<Rightarrow> factors \<Rightarrow> libs \<Rightarrow> string \<Rightarrow> devs \<Rightarrow> devs option" where
  "init_arch genv e fc libs a s =
     (let a = map to_lower a; once = (\<lambda>init. if a \<in> set (ds_loaded s) then Some s else map_option snd (init (s\<lparr>ds_loaded := a # ds_loaded s\<rparr>))) in
      if a = ''cuda'' then once (InitCUDA genv e (fc_cuda fc) (lib_cuda libs))
      else if a = ''hip'' then once (InitHIP genv e (fc_hip fc) (lib_hip libs))
      else if a = ''levelzero'' then once (InitLevelZero (lib_ndrivers libs) (lib_levelzero libs))
      else if a = ''opencl'' then once (InitOpenCL genv e (lib_opencl libs) (lib_platforms libs))
      else if a = ''openmp'' then once (InitOpenMP (fc_openmp fc))
      else if a = ''qiree'' then once (InitQIREE (fc_qiree fc))
      else if a = ''hexagon'' then once (InitHexagon (lib_hexagon libs))
      else Some s)"

text \<open>The part of \<open>Platform::Init\<close> that reads the settings and looks for devices.\<close>

definition init_devices :: "(string \<Rightarrow> string option) \<Rightarrow> env \<Rightarrow> libs \<Rightarrow> devs option" where
  "init_devices genv e libs = do {
     omp \<leftarrow> EnvironmentIntRead genv e ''OPENMP_DEVICE_FACTOR'' 1;
     qir \<leftarrow> EnvironmentIntRead genv e ''QIREE_DEVICE_FACTOR'' 1;
     cuda \<leftarrow> EnvironmentIntRead genv e ''CUDA_DEVICE_FACTOR'' 1;
     hip \<leftarrow> EnvironmentIntRead genv e ''HIP_DEVICE_FACTOR'' 1;
     (ret, archs, len) \<leftarrow> EnvironmentGet genv e ''ARCHS'' (Some CHR ''_'') Null;
     archs \<leftarrow> (case archs of Some a \<Rightarrow> Some (Some a) | None \<Rightarrow> map_option (\<lambda>r. fst (snd r)) (EnvironmentGet genv e ''ARCH'' (Some CHR ''_'') Null));
     archs \<leftarrow> archs;
     opt_fold (init_arch genv e \<lparr>fc_openmp = omp, fc_qiree = qir, fc_cuda = cuda, fc_hip = hip\<rparr> libs) (strtok delim archs) Platform_Reset }"

section \<open>Queries\<close>

definition PlatformCount :: "devs \<Rightarrow> int \<times> nat" where "PlatformCount s = (IRIS_SUCCESS, length (ds_platforms s))"
definition DeviceCount :: "devs \<Rightarrow> int \<times> nat" where "DeviceCount s = (IRIS_SUCCESS, length (ds_devs s))"
definition DeviceSetDefault :: "int \<Rightarrow> devs \<Rightarrow> int \<times> devs" where "DeviceSetDefault d s = (IRIS_SUCCESS, s\<lparr>ds_default := d\<rparr>)"
definition DeviceGetDefault :: "devs \<Rightarrow> int \<times> int" where "DeviceGetDefault s = (IRIS_SUCCESS, ds_default s)"

section \<open>The table is well formed\<close>

definition or_all :: "int list \<Rightarrow> int" where "or_all = foldl (OR) 0"

lemma or_all_snoc: "or_all (ts @ [t]) = or_all ts OR t"
  by (simp add: or_all_def)

abbreviation first_of :: "devs \<Rightarrow> nat \<Rightarrow> nat" where
  "first_of s p \<equiv> snd (ds_platforms s ! p)"

text \<open>Device \<open>i\<close> has number \<open>i\<close>; the devices of a platform are consecutive, beginning with the platform's first device, which is
  also the root of those that have one.\<close>

definition dev_ok :: "devs \<Rightarrow> nat \<Rightarrow> bool" where
  "dev_ok s i \<longleftrightarrow>
     (let d = ds_devs s ! i; p = pd_platform d in
      pd_devno d = i \<and> p < length (ds_platforms s) \<and> first_of s p \<le> i \<and>
      (\<forall>q < length (ds_platforms s). p < q \<longrightarrow> i < first_of s q) \<and> (\<forall>r. pd_root d = Some r \<longrightarrow> r = first_of s p))"

definition table_ok :: "devs \<Rightarrow> bool" where
  "table_ok s \<longleftrightarrow> length (ds_devs s) \<le> 255 \<and> ds_arch s = or_all (map pd_type (ds_devs s)) \<and>
     (\<forall>p < length (ds_platforms s). first_of s p \<le> length (ds_devs s)) \<and> (\<forall>i < length (ds_devs s). dev_ok s i)"

text \<open>While the devices of one more platform are being added, from number \<open>n\<close> on.\<close>

definition building :: "nat \<Rightarrow> devs \<Rightarrow> bool" where
  "building n s \<longleftrightarrow> n \<le> length (ds_devs s) \<and> length (ds_devs s) \<le> 255 \<and> ds_arch s = or_all (map pd_type (ds_devs s)) \<and>
     (\<forall>p < length (ds_platforms s). first_of s p \<le> n) \<and> (\<forall>i < n. dev_ok s i) \<and>
     (\<forall>i. n \<le> i \<and> i < length (ds_devs s) \<longrightarrow> pd_devno (ds_devs s ! i) = i \<and> pd_platform (ds_devs s ! i) = length (ds_platforms s) \<and>
        (\<forall>r. pd_root (ds_devs s ! i) = Some r \<longrightarrow> r = n))"

lemma building_start: "table_ok s \<Longrightarrow> building (length (ds_devs s)) s"
  by (simp add: table_ok_def building_def)

lemma building_none: "building n s \<Longrightarrow> length (ds_devs s) = n \<Longrightarrow> table_ok s"
  by (auto simp: table_ok_def building_def)

lemma dev_ok_append: "i < length (ds_devs s) \<Longrightarrow> dev_ok (s\<lparr>ds_devs := ds_devs s @ [d], ds_arch := a\<rparr>) i = dev_ok s i"
  by (simp add: dev_ok_def nth_append)

lemma add_device_building:
  assumes "building n s" "add_device d s = Some s'" "pd_devno d = length (ds_devs s)" "pd_platform d = length (ds_platforms s)"
    "\<And>r. pd_root d = Some r \<Longrightarrow> r = n"
  shows "building n s'" "length (ds_devs s') = Suc (length (ds_devs s))" "ds_platforms s' = ds_platforms s" "ds_loaded s' = ds_loaded s"
proof -
  from assms(2) have s': "length (ds_devs s) < 255" "s' = s\<lparr>ds_devs := ds_devs s @ [d], ds_arch := ds_arch s OR pd_type d\<rparr>"
    by (auto simp: add_device_def IRIS_MAX_NDEVS_def split: if_splits)
  then show "length (ds_devs s') = Suc (length (ds_devs s))" "ds_platforms s' = ds_platforms s" "ds_loaded s' = ds_loaded s" by simp_all
  have "dev_ok s' i" if "i < n" for i
    using assms(1) that s' dev_ok_append [where i = i and s = s and d = d and a = "ds_arch s OR pd_type d"] by (auto simp: building_def)
  moreover have "pd_devno (ds_devs s' ! i) = i \<and> pd_platform (ds_devs s' ! i) = length (ds_platforms s') \<and>
      (\<forall>r. pd_root (ds_devs s' ! i) = Some r \<longrightarrow> r = n)" if "n \<le> i" "i < length (ds_devs s')" for i
    using assms that s' by (cases "i = length (ds_devs s)") (auto simp: building_def nth_append)
  ultimately show "building n s'" using assms(1) s' by (auto simp: building_def or_all_snoc)
qed

lemma add_platform_ok:
  assumes "building n s" "add_platform name (length (ds_devs s) - n) s = Some s'"
  shows "table_ok s'" "ds_loaded s' = ds_loaded s"
proof -
  from assms have n: "n \<le> length (ds_devs s)" by (simp add: building_def)
  with assms(2) have s': "s' = s\<lparr>ds_platforms := ds_platforms s @ [(name, n)]\<rparr>" by (auto simp: add_platform_def split: if_splits)
  have "dev_ok s' i" if i: "i < length (ds_devs s)" for i
  proof (cases "i < n")
    case True
    with assms(1) have "dev_ok s i" by (simp add: building_def)
    with True show ?thesis by (auto simp: dev_ok_def Let_def s' nth_append less_Suc_eq)
  next
    case False
    with i have "n \<le> i \<and> i < length (ds_devs s)" by simp
    with assms(1) have "pd_devno (ds_devs s ! i) = i" "pd_platform (ds_devs s ! i) = length (ds_platforms s)"
      "\<And>r. pd_root (ds_devs s ! i) = Some r \<Longrightarrow> r = n" unfolding building_def by blast+
    with False show ?thesis by (auto simp: dev_ok_def Let_def s' nth_append)
  qed
  moreover have "first_of s' p \<le> length (ds_devs s')" if "p < length (ds_platforms s')" for p
    using assms(1) n that by (auto simp: building_def s' nth_append less_Suc_eq intro: order_trans)
  ultimately show "table_ok s'" "ds_loaded s' = ds_loaded s" using assms(1) by (simp_all add: table_ok_def building_def s')
qed

lemma device_loop_ok:
  assumes mk: "\<And>i s. pd_devno (mk i s) = length (ds_devs s)" "\<And>i s. pd_platform (mk i s) = length (ds_platforms s)"
    "\<And>i s r. pd_root (mk i s) = Some r \<Longrightarrow> r = length (ds_devs s) - i"
  shows "device_loop mk max_ndevs [m..<N] m s = Some (m', s') \<Longrightarrow> building n s \<Longrightarrow> length (ds_devs s) = n + m \<Longrightarrow>
    building n s' \<and> length (ds_devs s') = n + m' \<and> ds_loaded s' = ds_loaded s"
proof (induction "N - m" arbitrary: m s)
  case 0
  then show ?case by simp
next
  case (Suc k)
  then have "[m..<N] = m # [Suc m..<N]" by (intro upt_conv_Cons) simp
  with Suc.prems(1) show ?case
  proof (cases "IRIS_MAX_NDEVS < int (length (ds_devs s))")
    case True
    with Suc.prems \<open>[m..<N] = m # [Suc m..<N]\<close> show ?thesis by simp
  next
    case False
    with Suc.prems(1) \<open>[m..<N] = m # [Suc m..<N]\<close> obtain s1 where s1: "add_device (mk m s) s = Some s1"
      "(if max_ndevs \<noteq> -1 \<and> max_ndevs \<le> int (Suc m) then Some (Suc m, s1) else device_loop mk max_ndevs [Suc m..<N] (Suc m) s1) = Some (m', s')"
      by (cases "add_device (mk m s) s") (auto simp: Let_def)
    have r: "pd_root (mk m s) = Some r \<Longrightarrow> r = n" for r using mk(3) [of m s r] Suc.prems(3) by simp
    note b = add_device_building [OF Suc.prems(2) s1(1) mk(1,2) r]
    have l: "length (ds_devs s1) = n + Suc m" using b(2) Suc.prems(3) by simp
    show ?thesis
    proof (cases "max_ndevs \<noteq> -1 \<and> max_ndevs \<le> int (Suc m)")
      case True
      with s1(2) b l show ?thesis by auto
    next
      case False
      then have "device_loop mk max_ndevs [Suc m..<N] (Suc m) s1 = Some (m', s')" using s1(2) by (simp split: if_splits)
      moreover have "k = N - Suc m" using Suc.hyps(2) by simp
      ultimately show ?thesis using Suc.hyps(1) [of "Suc m" s1] b(1,4) l by simp
    qed
  qed
qed

lemma device_loop_platform:
  assumes "device_loop mk max_ndevs [0..<N] 0 s = Some (mdevs, s1)" "add_platform name mdevs s1 = Some s'" "table_ok s"
    "\<And>i s. pd_devno (mk i s) = length (ds_devs s)" "\<And>i s. pd_platform (mk i s) = length (ds_platforms s)"
    "\<And>i s r. pd_root (mk i s) = Some r \<Longrightarrow> r = length (ds_devs s) - i"
  shows "table_ok s'" "ds_loaded s' = ds_loaded s"
proof -
  from device_loop_ok [of mk max_ndevs 0 N s mdevs s1 "length (ds_devs s)"] assms(1,4-6) building_start [OF assms(3)]
  have b: "building (length (ds_devs s)) s1" "length (ds_devs s1) = length (ds_devs s) + mdevs" "ds_loaded s1 = ds_loaded s" by auto
  with assms(2) have "add_platform name (length (ds_devs s1) - length (ds_devs s)) s1 = Some s'" by simp
  from add_platform_ok [OF b(1) this] b(3) show "table_ok s'" "ds_loaded s' = ds_loaded s" by simp_all
qed

lemmas gpu_loop = device_loop_platform [where mk = "new_gpu b t n" for b t n, unfolded new_gpu_def pdev.simps option.inject, simplified, folded new_gpu_def]
lemmas dev_loop = device_loop_platform [where mk = "new_dev b t" for b t, unfolded new_dev_def pdev.simps, simplified, folded new_dev_def]

lemma InitGPU_ok: "table_ok s \<Longrightarrow> InitGPU b t name key genv e factor lib s = Some (ret, s') \<Longrightarrow> table_ok s' \<and> ds_loaded s' = ds_loaded s"
  by (auto simp: InitGPU_def Let_def split: if_splits bind_splits option.splits intro: gpu_loop)

lemma InitLevelZero_ok: "table_ok s \<Longrightarrow> InitLevelZero nd lib s = Some (ret, s') \<Longrightarrow> table_ok s' \<and> ds_loaded s' = ds_loaded s"
  by (auto simp: InitLevelZero_def split: if_splits bind_splits intro: dev_loop)

lemma InitOpenMP_ok: "table_ok s \<Longrightarrow> InitOpenMP factor s = Some (ret, s') \<Longrightarrow> table_ok s' \<and> ds_loaded s' = ds_loaded s"
  by (auto simp: InitOpenMP_def split: bind_splits intro: dev_loop)

lemma InitQIREE_loop:
  "opt_fold (\<lambda>i s. add_device (new_dev B_unset iris_cpu i s) s) xs s = Some s' \<Longrightarrow> building n s \<Longrightarrow>
   building n s' \<and> length (ds_devs s') = length (ds_devs s) + length xs \<and> ds_loaded s' = ds_loaded s"
proof (induction xs arbitrary: s)
  case (Cons x xs)
  then obtain s1 where s1: "add_device (new_dev B_unset iris_cpu x s) s = Some s1"
    "opt_fold (\<lambda>i s. add_device (new_dev B_unset iris_cpu i s) s) xs s1 = Some s'" by (auto split: bind_splits)
  note b = add_device_building [OF Cons.prems(2) s1(1)]
  from Cons.IH [OF s1(2)] b show ?case by (simp add: new_dev_def)
qed simp

lemma InitQIREE_ok: "table_ok s \<Longrightarrow> InitQIREE factor s = Some (ret, s') \<Longrightarrow> table_ok s' \<and> ds_loaded s' = ds_loaded s"
proof -
  assume s: "table_ok s" "InitQIREE factor s = Some (ret, s')"
  then obtain s1 where s1: "opt_fold (\<lambda>i s. add_device (new_dev B_unset iris_cpu i s) s) [0..<nat factor] s = Some s1"
    "add_platform ''QIR'' (nat factor) s1 = Some s'" by (auto simp: InitQIREE_def split: bind_splits)
  from InitQIREE_loop [OF s1(1) building_start [OF s(1)]] have
    b: "building (length (ds_devs s)) s1" "length (ds_devs s1) - length (ds_devs s) = nat factor" "ds_loaded s1 = ds_loaded s" by auto
  from add_platform_ok [OF b(1)] s1(2) b(2,3) show ?thesis by simp
qed

lemma InitHexagon_ok: "table_ok s \<Longrightarrow> InitHexagon loads s = Some (ret, s') \<Longrightarrow> table_ok s' \<and> ds_loaded s' = ds_loaded s"
proof (cases loads)
  case True
  assume s: "table_ok s" "InitHexagon loads s = Some (ret, s')"
  with True obtain s1 where s1: "add_device (new_dev B_hexagon iris_hexagon 0 s) s = Some s1" "add_platform ''Hexagon'' 1 s1 = Some s'"
    by (auto simp: InitHexagon_def split: bind_splits)
  note b = add_device_building [OF building_start [OF s(1)] s1(1)]
  from add_platform_ok [OF b(1)] s1(2) b(2,4) show ?thesis by (simp add: new_dev_def)
qed (simp add: InitHexagon_def)

lemma cl_device_loop_ok:
  "cl_device_loop is_all v mx ds j m k s = Some (m', k', s') \<Longrightarrow> building n s \<Longrightarrow> length (ds_devs s) = n + m \<Longrightarrow>
   building n s' \<and> length (ds_devs s') = n + m' \<and> ds_loaded s' = ds_loaded s"
proof (induction is_all v mx ds j m k s rule: cl_device_loop.induct)
  case (2 is_all v mx d ds j m k s)
  show ?case
  proof (cases "IRIS_MAX_NDEVS < int (length (ds_devs s)) \<or> ds_arch s AND iris_cpu \<noteq> 0 \<and> cd_cltype d = CL_CPU \<or>
      \<not> is_all \<and> \<not> v (cd_cltype d) \<or> \<not> cd_valid d")
    case True
    then show ?thesis using 2 by (auto split: if_splits)
  next
    case False
    define nd where "nd = \<lparr>pd_backend = B_opencl, pd_type = opencl_type d, pd_devno = length (ds_devs s),
              pd_platform = length (ds_platforms s), pd_root = Some (length (ds_devs s) - m), pd_handle = j\<rparr>"
    from False have f: "\<not> IRIS_MAX_NDEVS < int (length (ds_devs s))" "\<not> (ds_arch s AND iris_cpu \<noteq> 0 \<and> cd_cltype d = CL_CPU)"
      "\<not> (\<not> is_all \<and> \<not> v (cd_cltype d))" "\<not> \<not> cd_valid d" by blast+
    have "cl_device_loop is_all v mx (d # ds) j m k s = Option.bind (add_device nd s) (\<lambda>s.
        if mx \<noteq> -1 \<and> mx \<le> int (k + 1) then Some (m + 1, k + 1, s) else cl_device_loop is_all v mx ds (j + 1) (m + 1) (k + 1) s)"
      by (simp only: cl_device_loop.simps if_not_P [OF f(1)] if_not_P [OF f(2)] if_not_P [OF f(3)] if_not_P [OF f(4)] nd_def)
    from trans [OF this [symmetric] "2.prems"(1)] obtain s1 where s1: "add_device nd s = Some s1"
      "(if mx \<noteq> -1 \<and> mx \<le> int (k + 1) then Some (m + 1, k + 1, s1) else cl_device_loop is_all v mx ds (j + 1) (m + 1) (k + 1) s1) = Some (m', k', s')"
      unfolding bind_eq_Some_conv by blast
    have b: "building n s1" "length (ds_devs s1) = n + (m + 1)" "ds_loaded s1 = ds_loaded s"
    proof -
      have c: "pd_devno nd = length (ds_devs s)" "pd_platform nd = length (ds_platforms s)" "\<And>r. pd_root nd = Some r \<Longrightarrow> r = n"
        by (simp_all add: nd_def "2.prems"(3))
      note b = add_device_building [OF "2.prems"(2) s1(1) c]
      show "building n s1" using b(1) by simp
      show "ds_loaded s1 = ds_loaded s" using b(4) by simp
      show "length (ds_devs s1) = n + (m + 1)" using b(2) "2.prems"(3) by simp
    qed
    show ?thesis
    proof (cases "mx \<noteq> -1 \<and> mx \<le> int (k + 1)")
      case True
      with s1(2) b show ?thesis by auto
    next
      case no: False
      with s1(2) have "cl_device_loop is_all v mx ds (j + 1) (m + 1) (k + 1) s1 = Some (m', k', s')" by (simp split: if_splits)
      from "2.IH"(4) [OF f(1-3) _ s1(1) [unfolded nd_def] _ this b(1) b(2)] f(4) no b(3) show ?thesis by auto
    qed
  qed
qed simp

lemma cl_platform_loop_ok:
  "cl_platform_loop is_all v mx ps k s = Some s' \<Longrightarrow> table_ok s \<Longrightarrow> table_ok s' \<and> ds_loaded s' = ds_loaded s"
proof (induction ps arbitrary: k s)
  case (Cons p ps)
  show ?case
  proof (cases "cp_devices p = [] \<or> IRIS_MAX_NDEVS < int (length (cp_devices p)) \<or> \<not> cp_context p")
    case True
    then show ?thesis using Cons by (auto split: if_splits)
  next
    case False
    with Cons.prems(1) obtain m k1 s1 s2 where l: "cl_device_loop is_all v mx (cp_devices p) 0 0 k s = Some (m, k1, s1)"
      "(if 0 < m then add_platform (''OpenCL '' @ cp_vendor p) m s1 else Some s1) = Some s2"
      "(if mx \<noteq> -1 \<and> mx \<le> int k1 then Some s2 else cl_platform_loop is_all v mx ps k1 s2) = Some s'"
      by (auto split: if_splits bind_splits)
    from cl_device_loop_ok [OF l(1) building_start [OF Cons.prems(2)]] have
      b: "building (length (ds_devs s)) s1" "length (ds_devs s1) = length (ds_devs s) + m" "ds_loaded s1 = ds_loaded s" by auto
    have "table_ok s2 \<and> ds_loaded s2 = ds_loaded s"
    proof (cases "0 < m")
      case True
      with add_platform_ok [OF b(1)] l(2) b(2,3) show ?thesis by simp
    next
      case False
      with building_none [OF b(1)] l(2) b(2,3) show ?thesis by simp
    qed
    with l(3) Cons.IH [of k1 s2] show ?thesis by (auto split: if_splits)
  qed
qed simp

lemma InitOpenCL_ok: "table_ok s \<Longrightarrow> InitOpenCL genv e loads ps s = Some (ret, s') \<Longrightarrow> table_ok s' \<and> ds_loaded s' = ds_loaded s"
  by (auto simp: InitOpenCL_def Let_def dest: cl_platform_loop_ok split: if_splits bind_splits)

lemma init_arch_ok:
  assumes "table_ok s" "init_arch genv e fc libs a s = Some s'"
  shows "table_ok s'"
proof -
  have l: "table_ok (s\<lparr>ds_loaded := x\<rparr>)" for x using assms(1) by (simp add: table_ok_def dev_ok_def)
  show ?thesis
    using assms l [of "map to_lower a # ds_loaded s"]
    by (auto simp: init_arch_def Let_def InitCUDA_def InitHIP_def split: if_splits
        dest: InitGPU_ok InitLevelZero_ok InitOpenCL_ok InitOpenMP_ok InitQIREE_ok InitHexagon_ok)
qed


text \<open>A machine with two CUDA and one HIP device and an OpenCL platform whose CPU is left to OpenMP.\<close>

definition some_libs :: libs where
  "some_libs =
     \<lparr>lib_cuda = \<lparr>vn_load = True, vn_count = 2\<rparr>, lib_hip = \<lparr>vn_load = True, vn_count = 1\<rparr>, lib_levelzero = \<lparr>vn_load = False, vn_count = 0\<rparr>,
      lib_ndrivers = 0, lib_hexagon = False, lib_opencl = True,
      lib_platforms = [\<lparr>cp_vendor = ''Intel'', cp_devices = [\<lparr>cd_cltype = CL_CPU, cd_vendor = ''Intel'', cd_name = ''x'', cd_version = ''3'', cd_valid = True\<rparr>,
        \<lparr>cd_cltype = CL_ACCELERATOR, cd_vendor = ''Intel'', cd_name = ''FPGA Emulator'', cd_version = ''3'', cd_valid = True\<rparr>], cp_context = True\<rparr>]\<rparr>"

lemma some_devices:
  "map_option (\<lambda>s. (map (\<lambda>d. (pd_backend d, pd_type d, pd_platform d, pd_root d)) (ds_devs s), ds_platforms s))
     (init_devices (\<lambda>_. None) (map_of (default_settings ''/tmp/x'')) some_libs) =
   Some ([(B_openmp, iris_cpu, 0, None), (B_cuda, iris_nvidia, 1, Some 1), (B_cuda, iris_nvidia, 1, Some 1), (B_hip, iris_amd, 2, Some 3),
          (B_opencl, iris_fpga, 3, Some 4)],
         [(''OpenMP'', 0), (''CUDA'', 1), (''HIP'', 3), (''OpenCL Intel'', 4)])"
  by code_simp


section \<open>Limits\<close>

text \<open>The test for a full table comes one device too late: with all entries in use it lets the next device through, beyond the end of the
  array.\<close>

theorem full_table_overrun:
  assumes "length (ds_devs s) = 255" "0 < factor"
  shows "\<not> IRIS_MAX_NDEVS < int (length (ds_devs s))" "InitOpenMP factor s = None"
  using assms by (simp_all add: InitOpenMP_def IRIS_MAX_NDEVS_def upt_conv_Cons add_device_def)

text \<open>The variable that limits the devices of an architecture also replaces the number of devices the library reports: with two devices and a limit
  of four the platform has four devices, two of which ask the library for devices it does not have.\<close>

lemma limit_raises:
  "map_option (\<lambda>r. map pd_handle (ds_devs (snd r)))
     (InitCUDA (\<lambda>x. if x = ''IRIS_MAX_CUDA_DEVICE'' then Some ''4'' else None) (\<lambda>_. None) 1 \<lparr>vn_load = True, vn_count = 2\<rparr> Platform_Reset) =
   Some [0, 1, 2, 3]"
  by code_simp

end
