(* ===== verification/Iris_JSON.thy ===== *)
theory Iris_JSON
  imports Iris_Graph Iris_Message Iris_Text
begin

text \<open>
  Graphs as documents, \<^verbatim>\<open>JSON.h\<close> and \<^verbatim>\<open>JSON.cpp\<close>: \<open>Load\<close> builds the tasks of a graph from a document and the application's
  parameters, and the recorder (\<open>RecordTask\<close>, \<open>RecordFlush\<close>) writes a document of the tasks that were submitted. The text of a
  document is the business of the vendored parser: the model begins and ends with its value. A failed assertion of that parser (a member
  of a value that is no object, a string of a value that is none), the use of a null pointer and a read beyond a buffer have no
  result; \<open>return IRIS_ERROR\<close> does.
\<close>

section \<open>Documents\<close>

datatype json =
    JNull
  | JBool bool
  | JInt int
  | JDouble string
  | JString string
  | JArray "json list"
  | JObject "(string \<times> json) list"

datatype 'a outcome = Crash | Error | Ok 'a

fun andThen :: "'a outcome \<Rightarrow> ('a \<Rightarrow> 'b outcome) \<Rightarrow> 'b outcome" where
  "andThen Crash f = Crash"
| "andThen Error f = Error"
| "andThen (Ok x) f = f x"

lemma andThen_Ok: "andThen m f = Ok y \<longleftrightarrow> (\<exists>x. m = Ok x \<and> f x = Ok y)"
  by (cases m) auto

fun traverse :: "('a \<Rightarrow> 'b outcome) \<Rightarrow> 'a list \<Rightarrow> 'b list outcome" where
  "traverse f [] = Ok []"
| "traverse f (x # xs) = andThen (f x) (\<lambda>y. andThen (traverse f xs) (\<lambda>ys. Ok (y # ys)))"

lemma traverse_Ok: "(\<And>x. x \<in> set xs \<Longrightarrow> f x = Ok (g x)) \<Longrightarrow> traverse f xs = Ok (map g xs)"
  by (induction xs) auto

definition of_option :: "'a outcome \<Rightarrow> 'a option \<Rightarrow> 'a outcome" where
  "of_option e v = (case v of None \<Rightarrow> e | Some x \<Rightarrow> Ok x)"

text \<open>The value under a key, the first one, of an object.\<close>

fun field :: "json \<Rightarrow> string \<Rightarrow> json option outcome" where
  "field (JObject ms) k = Ok (map_of ms k)"
| "field _ k = Crash"

fun GetString :: "json \<Rightarrow> string outcome" where
  "GetString (JString s) = Ok s"
| "GetString _ = Crash"

text \<open>\<open>IsInt\<close> holds of the numbers that fit an \<open>int\<close>.\<close>

definition IsInt :: "json \<Rightarrow> bool" where
  "IsInt v = (case v of JInt n \<Rightarrow> int32_ok n | _ \<Rightarrow> False)"

fun GetInt :: "json \<Rightarrow> int outcome" where
  "GetInt (JInt n) = (if int32_ok n then Ok n else Crash)"
| "GetInt _ = Crash"

text \<open>A member that has to be there, one that has to be a string and one that has to be an array.\<close>

definition need :: "json \<Rightarrow> string \<Rightarrow> json outcome" where
  "need j k = andThen (field j k) (of_option Error)"

definition need_string :: "json \<Rightarrow> string \<Rightarrow> string outcome" where
  "need_string j k = andThen (need j k) (\<lambda>v. case v of JString s \<Rightarrow> Ok s | _ \<Rightarrow> Error)"

definition need_array :: "json \<Rightarrow> string \<Rightarrow> json list outcome" where
  "need_array j k = andThen (need j k) (\<lambda>v. case v of JArray vs \<Rightarrow> Ok vs | _ \<Rightarrow> Error)"

section \<open>Parameters\<close>

text \<open>What a pointer leads to, as far as the loader follows it: its value, the bytes at it, the memory object it is the handle of
  and the memory object whose host range it lies in. Inputs are compared as C strings.\<close>

record input =
  in_addr :: size_t
  in_bytes :: "byte list"
  in_mem :: "BaseMemRef option"
  in_host :: "(BaseMemRef \<times> size_t) option"

record load_env =
  le_inputs :: "string list"
  le_params :: "input option list"

definition cstr :: "string \<Rightarrow> string" where "cstr s = takeWhile (\<lambda>c. c \<noteq> char_of (0 :: nat)) s"

definition GetParameterInput :: "load_env \<Rightarrow> string \<Rightarrow> input option outcome" where
  "GetParameterInput e s =
     (case find_index (\<lambda>i. cstr i = cstr s) (le_inputs e) of
        None \<Rightarrow> Ok None
      | Some j \<Rightarrow> of_option Crash (cell (le_params e) j))"

definition read_int :: "input \<Rightarrow> int outcome" where
  "read_int p = (if length (in_bytes p) < 4 then Crash else Ok (sint (le_word (take 4 (in_bytes p)) :: 32 word)))"

definition read_size :: "input \<Rightarrow> size_t outcome" where
  "read_size p = (if length (in_bytes p) < 8 then Crash else Ok (le_word (take 8 (in_bytes p))))"

definition atol :: "string \<Rightarrow> int option" where
  "atol s =
     (let s = dropWhile is_space s;
          neg = (s \<noteq> [] \<and> hd s = CHR ''-'');
          s = (if s \<noteq> [] \<and> (hd s = CHR ''-'' \<or> hd s = CHR ''+'') then tl s else s);
          n = atoi_digits 0 s;
          v = (if neg then - n else n)
      in if - (2 ^ 63) \<le> v \<and> v < 2 ^ 63 then Some v else None)"

text \<open>A size written as a string is the content of an input or a number.\<close>

definition size_of_string :: "load_env \<Rightarrow> string \<Rightarrow> size_t outcome" where
  "size_of_string e s =
     andThen (GetParameterInput e s) (\<lambda>p. case p of
        Some p \<Rightarrow> read_size p
      | None \<Rightarrow> andThen (of_option Crash (atol (cstr s))) (\<lambda>n. Ok (word_of_int n)))"

definition load_size :: "load_env \<Rightarrow> bool \<Rightarrow> json \<Rightarrow> size_t outcome" where
  "load_size e arrays v =
     (if IsInt v then andThen (GetInt v) (\<lambda>n. Ok (word_of_int n))
      else case v of
        JArray vs \<Rightarrow>
          if arrays then andThen (traverse GetInt vs) (\<lambda>ns. andThen (of_option Crash (cell ns 0)) (\<lambda>n. Ok (word_of_int n)))
          else Error
      | JString s \<Rightarrow> size_of_string e s
      | _ \<Rightarrow> Error)"

definition load_sizes :: "load_env \<Rightarrow> bool \<Rightarrow> json list \<Rightarrow> size_t list outcome" where
  "load_sizes e strict vs =
     traverse (\<lambda>v. if IsInt v then andThen (GetInt v) (\<lambda>n. Ok (word_of_int n))
                    else case v of JString s \<Rightarrow> size_of_string e s | _ \<Rightarrow> if strict then Error else Crash) vs"

section \<open>Commands\<close>

definition data_type_size :: "string \<Rightarrow> int option" where
  "data_type_size s =
     map_of [(''int'', 4), (''short'', 2), (''long'', 8), (''char'', 1), (''float'', 4), (''double'', 8), (''long double'', 16)] (cstr s)"

definition permission_mode :: "string \<Rightarrow> int option" where
  "permission_mode s = map_of [(''rw'', iris_rw), (''r'', iris_r), (''w'', iris_w)] (cstr s)"

text \<open>One entry of \<open>kparams\<close> and \<open>kparams_info\<close>; \<open>None\<close> stands for a pointer that the creation of the command must not follow.\<close>

definition kernel_param :: "input option \<Rightarrow> int \<Rightarrow> KernelParam option" where
  "kernel_param p info =
     (case p of
        Some p \<Rightarrow> Some \<lparr>param_bytes = Some (in_bytes p), param_mem = in_mem p, param_host = in_host p, param_info = info,
          param_off = None, param_range = None\<rparr>
      | None \<Rightarrow> None)"

definition scalar_size :: "load_env \<Rightarrow> json \<Rightarrow> int outcome" where
  "scalar_size e j =
     andThen (field j ''data_type'') (\<lambda>ty. andThen (field j ''data_size'') (\<lambda>sz.
       case ty of
         Some (JString s) \<Rightarrow> of_option Error (data_type_size s)
       | _ \<Rightarrow>
           (case sz of
              Some (JInt n) \<Rightarrow> if int32_ok n then Ok n else Error
            | Some (JString s) \<Rightarrow> andThen (GetParameterInput e s) (\<lambda>p. andThen (of_option Crash p) read_int)
            | _ \<Rightarrow> Error)))"

text \<open>A scalar that is no input is the text of its value, which ends with a zero byte.\<close>

definition string_bytes :: "string \<Rightarrow> byte list" where
  "string_bytes s = map of_char s @ [0]"

definition load_scalar :: "load_env \<Rightarrow> json \<Rightarrow> KernelParam option outcome" where
  "load_scalar e j =
     andThen (need j ''value'') (\<lambda>v. andThen (GetString v) (\<lambda>s.
     andThen (GetParameterInput e s) (\<lambda>p. andThen (scalar_size e j) (\<lambda>info.
       Ok (case p of
             Some p \<Rightarrow> kernel_param (Some p) info
           | None \<Rightarrow>
               if 0 < info then
                 kernel_param (Some \<lparr>in_addr = 0, in_bytes = string_bytes s, in_mem = None, in_host = None\<rparr>) info
               else None)))))"

definition load_memory_object :: "load_env \<Rightarrow> json \<Rightarrow> KernelParam option outcome" where
  "load_memory_object e j =
     andThen (need j ''value'') (\<lambda>v. andThen (GetString v) (\<lambda>s.
     andThen (GetParameterInput e s) (\<lambda>p.
     andThen (need j ''permissions'') (\<lambda>v. andThen (GetString v) (\<lambda>perm.
     andThen (of_option Error (permission_mode perm)) (\<lambda>info.
     andThen (field j ''name'') (\<lambda>n.
     andThen (case n of None \<Rightarrow> Ok p | Some v \<Rightarrow> andThen (GetString v) (GetParameterInput e)) (\<lambda>p.
       Ok (kernel_param p info)))))))))"

definition load_param :: "load_env \<Rightarrow> json \<Rightarrow> KernelParam option outcome" where
  "load_param e j =
     andThen (need j ''type'') (\<lambda>v. andThen (GetString v) (\<lambda>ty.
       if cstr ty = ''scalar'' then load_scalar e j
       else if cstr ty = ''memory_object'' then load_memory_object e j
       else Error))"

text \<open>An optional array of sizes, with the dimension it announces.\<close>

definition load_extent :: "load_env \<Rightarrow> json \<Rightarrow> string \<Rightarrow> nat \<Rightarrow> (size_t list option \<times> nat) outcome" where
  "load_extent e j k n =
     andThen (field j k) (\<lambda>v. case v of
        None \<Rightarrow> Ok (None, n)
      | Some (JArray vs) \<Rightarrow> andThen (load_sizes e True vs) (\<lambda>ns. Ok (Some ns, length vs))
      | Some _ \<Rightarrow> Error)"

text \<open>\<open>GetKernel\<close> makes a new kernel object of the given id. \<open>global_size\<close> may be a number for the check but not for what
  follows.\<close>

definition load_kernel :: "load_env \<Rightarrow> TaskRef \<Rightarrow> uid \<Rightarrow> json \<Rightarrow> (Command \<times> Kernel) outcome" where
  "load_kernel e task ku j =
     andThen (need_string j ''name'') (\<lambda>name.
     andThen (need j ''global_size'') (\<lambda>gs.
     andThen (case gs of JArray vs \<Rightarrow> Ok vs | v \<Rightarrow> if IsInt v then Crash else Error) (\<lambda>gs.
     andThen (load_sizes e False gs) (\<lambda>gws.
     andThen (need_array j ''parameters'') (\<lambda>ps.
     andThen (traverse (load_param e) ps) (\<lambda>ps.
     andThen (load_extent e j ''local_size'' (length gs)) (\<lambda>(lws, d).
     andThen (load_extent e j ''offset'' d) (\<lambda>(off, d).
       if None \<in> set ps then Crash
       else of_option Crash (CreateKernel task (Kernel_new ku (cstr name)) d off gws lws (map the ps))))))))))"

text \<open>A handle of no object gives a command without an object, which is outside the model.\<close>

definition load_mem :: "load_env \<Rightarrow> string \<Rightarrow> uid outcome" where
  "load_mem e s =
     andThen (GetParameterInput e s) (\<lambda>p. andThen (of_option Crash (Option.bind p in_mem)) (\<lambda>m. Ok (mem_uid m)))"

definition load_name :: "json \<Rightarrow> Command \<Rightarrow> Command outcome" where
  "load_name j c =
     andThen (field j ''name'') (\<lambda>v. case v of
        None \<Rightarrow> Ok c
      | Some (JString s) \<Rightarrow> Ok (c\<lparr>cmd_name := cstr s, cmd_given_name := True\<rparr>)
      | Some _ \<Rightarrow> Error)"

definition address :: "input option \<Rightarrow> size_t" where
  "address p = (case p of None \<Rightarrow> 0 | Some p \<Rightarrow> in_addr p)"

definition load_h2d :: "load_env \<Rightarrow> TaskRef \<Rightarrow> json \<Rightarrow> Command outcome" where
  "load_h2d e task j =
     andThen (need_string j ''host_memory'') (\<lambda>hm. andThen (GetParameterInput e hm) (\<lambda>host.
     andThen (need_string j ''device_memory'') (\<lambda>dm. andThen (GetParameterInput e dm) (\<lambda>_.
     andThen (need j ''offset'') (\<lambda>v. andThen (load_size e True v) (\<lambda>off.
     andThen (need j ''size'') (\<lambda>v. andThen (load_size e True v) (\<lambda>sz.
     andThen (load_mem e dm) (\<lambda>mem. load_name j (CreateH2D task mem off sz (address host)))))))))))"

definition load_d2h :: "load_env \<Rightarrow> TaskRef \<Rightarrow> json \<Rightarrow> Command outcome" where
  "load_d2h e task j =
     andThen (need_string j ''device_memory'') (\<lambda>dm. andThen (GetParameterInput e dm) (\<lambda>_.
     andThen (field j ''data-memory-flush'') (\<lambda>flush.
       if flush \<noteq> None then andThen (load_mem e dm) (\<lambda>mem. load_name j (CreateMemFlushOut task mem))
       else
         andThen (need_string j ''host_memory'') (\<lambda>hm. andThen (GetParameterInput e hm) (\<lambda>host.
         andThen (need j ''offset'') (\<lambda>v. andThen (load_size e False v) (\<lambda>off.
         andThen (need j ''size'') (\<lambda>v. andThen (load_size e False v) (\<lambda>sz.
         andThen (load_mem e dm) (\<lambda>mem. load_name j (CreateD2H task mem off sz (address host))))))))))))"

text \<open>The name of the kernel goes to \<open>AddCommand\<close>, the kernel to the registry of kernels.\<close>

definition load_command :: "load_env \<Rightarrow> TaskRef \<Rightarrow> uid \<Rightarrow> json \<Rightarrow> (Command \<times> Kernel option) outcome" where
  "load_command e task ku j =
     andThen (field j ''kernel'') (\<lambda>k. case k of
        Some k \<Rightarrow> andThen (load_kernel e task ku k) (\<lambda>(c, krn). Ok (c, Some krn))
      | None \<Rightarrow>
          andThen (field j ''h2d'') (\<lambda>h. case h of
             Some h \<Rightarrow> andThen (load_h2d e task h) (\<lambda>c. Ok (c, None))
           | None \<Rightarrow>
               andThen (field j ''d2h'') (\<lambda>d. case d of
                  Some d \<Rightarrow> andThen (load_d2h e task d) (\<lambda>c. Ok (c, None))
                | None \<Rightarrow> Error)))"

section \<open>Tasks\<close>

text \<open>The state of \<open>Load\<close>: the runtime, the graph, the tasks and kernels made so far and what \<open>set_json_url\<close> stored. A step reports
  whether the loop goes on; \<open>IRIS_ERROR\<close> leaves what was made. Kernel objects a failing command made are not kept.\<close>

record loader =
  ld_rt :: rt
  ld_graph :: Graph
  ld_tasks :: "uid list"
  ld_kernels :: "Kernel list"
  ld_url :: "string option"

type_synonym 's steps = "(bool \<times> 's) option"

fun steps :: "('x \<Rightarrow> 's \<Rightarrow> 's steps) \<Rightarrow> 'x list \<Rightarrow> 's \<Rightarrow> 's steps" where
  "steps f [] s = Some (True, s)"
| "steps f (x # xs) s = Option.bind (f x s) (\<lambda>(go, s). if go then steps f xs s else Some (False, s))"

definition failed :: "loader \<Rightarrow> loader steps" where
  "failed s = Some (False, s\<lparr>ld_rt := (ld_rt s)\<lparr>r_nfailures := r_nfailures (ld_rt s) + 1\<rparr>\<rparr>)"

definition proceed :: "'a outcome \<Rightarrow> loader \<Rightarrow> ('a \<Rightarrow> loader steps) \<Rightarrow> loader steps" where
  "proceed m s f = (case m of Crash \<Rightarrow> None | Error \<Rightarrow> failed s | Ok x \<Rightarrow> f x)"

definition on_task :: "uid \<Rightarrow> (Task \<Rightarrow> Task) \<Rightarrow> loader \<Rightarrow> loader option" where
  "on_task u f s = map_option (\<lambda>r. s\<lparr>ld_rt := r\<rparr>) (rt_at u f (ld_rt s))"

text \<open>A dependency names tasks: all the tasks of the document so far that have the name, the task itself among them.\<close>

definition named_tasks :: "loader \<Rightarrow> string \<Rightarrow> uid list" where
  "named_tasks s name =
     filter (\<lambda>u. case GetObject (r_tasks (ld_rt s)) u of None \<Rightarrow> False | Some t \<Rightarrow> cstr (t_name t) = cstr name) (ld_tasks s)"

definition load_depend :: "uid \<Rightarrow> json \<Rightarrow> loader \<Rightarrow> loader steps" where
  "load_depend u v s =
     (case v of
        JNull \<Rightarrow> Some (True, s)
      | JString name \<Rightarrow>
          map_option (\<lambda>h. (True, s\<lparr>ld_rt := (ld_rt s)\<lparr>r_tasks := h\<rparr>\<rparr>))
            (AddDepends (r_flags (ld_rt s)) u (named_tasks s name) (r_tasks (ld_rt s)))
      | _ \<Rightarrow> failed s)"

definition target_names :: "(string \<times> int) list" where
  "target_names =
     [(''cpu'', iris_cpu), (''gpu'', iris_gpu), (''ftf'', iris_ftf), (''sdq'', iris_sdq), (''data'', iris_data),
      (''default'', iris_default), (''depend'', iris_depend), (''profile'', iris_profile), (''random'', iris_random),
      (''roundrobin'', iris_roundrobin), (''custom'', iris_custom)]"

definition load_target :: "load_env \<Rightarrow> json \<Rightarrow> int outcome" where
  "load_target e v =
     (case v of
        JString s \<Rightarrow>
          andThen (GetParameterInput e s) (\<lambda>p. case p of
             Some p \<Rightarrow> read_int p
           | None \<Rightarrow>
               (case map_of target_names (cstr s) of
                  Some t \<Rightarrow> Ok t
                | None \<Rightarrow> if cstr s \<noteq> [] \<and> is_digit (hd (cstr s)) then of_option Crash (atoi (cstr s)) else Ok iris_default))
      | _ \<Rightarrow> if IsInt v then GetInt v else Error)"

definition byte_char :: "byte \<Rightarrow> char" where "byte_char b = char_of (unat b)"

definition c_string_at :: "byte list \<Rightarrow> string option" where
  "c_string_at bs = (if 0 \<in> set bs then Some (map byte_char (takeWhile (\<lambda>b. b \<noteq> 0) bs)) else None)"

text \<open>The parameter behind the inputs names a custom policy.\<close>

definition custom_policy_name :: "load_env \<Rightarrow> string option outcome" where
  "custom_policy_name e =
     andThen (of_option Crash (cell (le_params e) (length (le_inputs e)))) (\<lambda>p. case p of
        None \<Rightarrow> Ok None
      | Some p \<Rightarrow> andThen (of_option Crash (c_string_at (in_bytes p))) (\<lambda>s. Ok (Some s)))"

definition set_target :: "load_env \<Rightarrow> uid \<Rightarrow> int \<Rightarrow> loader \<Rightarrow> loader steps" where
  "set_target e u target s =
     proceed (if target = iris_custom then custom_policy_name e else Ok None) s (\<lambda>opt.
       Option.bind (on_task u (set_opt opt) s) (\<lambda>s.
         map_option (\<lambda>h. (True, s\<lparr>ld_rt := (ld_rt s)\<lparr>r_tasks := h\<rparr>\<rparr>)) (set_brs_policy target u (r_tasks (ld_rt s)))))"

definition add_command :: "load_env \<Rightarrow> uid \<Rightarrow> json \<Rightarrow> loader \<Rightarrow> loader steps" where
  "add_command e u j s =
     Option.bind (GetObject (r_tasks (ld_rt s)) u) (\<lambda>t.
       proceed (load_command e (task_ref t) (r_uid (ld_rt s)) j) s (\<lambda>(c, krn).
         let s = (case krn of None \<Rightarrow> s
                  | Some k \<Rightarrow> s\<lparr>ld_kernels := ld_kernels s @ [k],
                      ld_rt := (ld_rt s)\<lparr>r_uid := snd (iris_create_new_uid (r_uid (ld_rt s)))\<rparr>\<rparr>)
         in map_option (Pair True) (on_task u (AddCommand c (case krn of None \<Rightarrow> [] | Some k \<Rightarrow> kname k)) s)))"

definition graph_add :: "uid \<Rightarrow> loader \<Rightarrow> loader steps" where
  "graph_add u s = map_option (\<lambda>(g, r). (True, s\<lparr>ld_graph := g, ld_rt := r\<rparr>)) (AddTask u (ld_graph s) (ld_rt s))"

definition seq_steps :: "('s \<Rightarrow> 's steps) \<Rightarrow> ('s \<Rightarrow> 's steps) \<Rightarrow> 's \<Rightarrow> 's steps" where
  "seq_steps f g s = Option.bind (f s) (\<lambda>(go, s). if go then g s else Some (False, s))"

definition new_task :: "int list \<Rightarrow> loader \<Rightarrow> loader \<times> uid" where
  "new_task junk s =
     (let (r, u) = Task_Create IRIS_TASK_PERM None junk (ld_rt s) in (s\<lparr>ld_rt := r, ld_tasks := ld_tasks s @ [u]\<rparr>, u))"

definition load_name_of_task :: "json \<Rightarrow> uid \<Rightarrow> loader \<Rightarrow> loader steps" where
  "load_name_of_task j u s =
     proceed (need_string j ''name'') s (\<lambda>name. map_option (Pair True) (on_task u (set_name (cstr name)) s))"

definition load_task :: "load_env \<Rightarrow> int list \<Rightarrow> json \<Rightarrow> loader \<Rightarrow> loader steps" where
  "load_task e junk j s =
     (case field j ''commands'' of
        Ok None \<Rightarrow> Some (True, s)
      | Ok (Some (JArray _)) \<Rightarrow> Some (True, s)
      | _ \<Rightarrow> None) \<bind> (\<lambda>_.
      let (s, u) = new_task junk s in
      seq_steps (load_name_of_task j u)
       (seq_steps (\<lambda>s. proceed (need_array j ''depends'') s (\<lambda>ds. steps (load_depend u) ds s))
       (seq_steps (\<lambda>s. proceed (andThen (need j ''target'') (load_target e)) s (\<lambda>target. set_target e u target s))
       (seq_steps (\<lambda>s. proceed (need_array j ''commands'') s (\<lambda>cs. steps (add_command e u) cs s))
         (graph_add u)))) s)"

datatype json_file = Unreadable | Parsed "json option"

definition graph_parts :: "json_file \<Rightarrow> (string list \<times> json list) outcome" where
  "graph_parts file =
     (case file of
        Parsed (Some (JObject ms)) \<Rightarrow>
          andThen (need (JObject ms) ''iris-graph'') (\<lambda>g.
          andThen (need_array g ''inputs'') (\<lambda>ins.
          andThen (traverse GetString ins) (\<lambda>ins.
          andThen (need g ''graph'') (\<lambda>gr.
          andThen (need_array gr ''tasks'') (\<lambda>ts. Ok (ins, ts))))))
      | _ \<Rightarrow> Error)"

text \<open>\<open>Load\<close> with a new loader object; the metadata of the graph are those of \<open>Iris_GraphMeta\<close>.\<close>

definition JSON_Load :: "json_file \<Rightarrow> string \<Rightarrow> input option list \<Rightarrow> int list \<Rightarrow> loader \<Rightarrow> loader steps" where
  "JSON_Load file path params junk s =
     proceed (graph_parts file) (s\<lparr>ld_tasks := []\<rparr>) (\<lambda>(inputs, ts).
       seq_steps (steps (load_task \<lparr>le_inputs = inputs, le_params = params\<rparr> junk) ts)
         (\<lambda>s. Some (True, s\<lparr>ld_url := Some path\<rparr>)) (s\<lparr>ld_tasks := []\<rparr>))"

section \<open>Recording\<close>

text \<open>The recorder: the tasks it holds, the host pointers and memory objects that have a name, and the tasks written so far, which the
  end of \<open>RecordFlush\<close> moves into the document.\<close>

record recorder =
  rc_tracked :: "uid list"
  rc_hosts :: "size_t list"
  rc_mems :: "uid list"
  rc_output :: "json list option"

definition JSON_new :: recorder where
  "JSON_new = \<lparr>rc_tracked = [], rc_hosts = [], rc_mems = [], rc_output = Some []\<rparr>"

definition UniqueUID :: "'a \<Rightarrow> 'a list \<Rightarrow> nat \<times> 'a list" where
  "UniqueUID x xs = (case find_index (\<lambda>y. y = x) xs of Some i \<Rightarrow> (i, xs) | None \<Rightarrow> (length xs, xs @ [x]))"

definition hostmem :: "nat \<Rightarrow> string" where "hostmem i = ''hostmem-'' @ dec i"
definition devicemem :: "nat \<Rightarrow> string" where "devicemem i = ''devicemem-'' @ dec i"

definition NameFromHostPointer :: "size_t \<Rightarrow> recorder \<Rightarrow> string \<times> recorder" where
  "NameFromHostPointer p c = (let (i, hs) = UniqueUID p (rc_hosts c) in (hostmem i, c\<lparr>rc_hosts := hs\<rparr>))"

definition NameFromDeviceMem :: "uid \<Rightarrow> recorder \<Rightarrow> string \<times> recorder" where
  "NameFromDeviceMem m c = (let (i, ms) = UniqueUID m (rc_mems c) in (devicemem i, c\<lparr>rc_mems := ms\<rparr>))"

definition json_size :: "size_t \<Rightarrow> json" where "json_size n = JInt (uint n)"

definition mode_permission :: "int \<Rightarrow> (string \<times> json) list" where
  "mode_permission md =
     (if md = iris_r then [(''permissions'', JString ''r'')]
      else if md = iris_w then [(''permissions'', JString ''w'')]
      else if md = iris_rw then [(''permissions'', JString ''rw'')] else [])"

definition record_arg :: "KernelArg \<Rightarrow> recorder \<Rightarrow> (json \<times> recorder) option" where
  "record_arg a c =
     (case arg_mem a of
        Some m \<Rightarrow>
          let (n, c) = NameFromDeviceMem (mem_uid m) c
          in Some (JObject ([(''type'', JString ''memory_object''), (''value'', JString n), (''size_bytes'', json_size (arg_mem_size a))] @
                 mode_permission (arg_mode a)), c)
      | None \<Rightarrow>
          if length (arg_value a) < unat (arg_size a) then None
          else Some (JObject [(''type'', JString ''scalar''),
                 (''value'', JString (map byte_char (take (unat (arg_size a)) (arg_value a)))),
                 (''data_size'', json_size (arg_size a))], c))"

fun record_all :: "('a \<Rightarrow> recorder \<Rightarrow> ('b \<times> recorder) option) \<Rightarrow> 'a list \<Rightarrow> recorder \<Rightarrow> ('b list \<times> recorder) option" where
  "record_all f [] c = Some ([], c)"
| "record_all f (x # xs) c = do { (y, c) \<leftarrow> f x c; (ys, c) \<leftarrow> record_all f xs c; Some (y # ys, c) }"

definition record_transfer :: "string \<Rightarrow> Command \<Rightarrow> recorder \<Rightarrow> (json list \<times> recorder) option" where
  "record_transfer kind cmd c =
     do { host \<leftarrow> cmd_host cmd; mem \<leftarrow> cmd_mem cmd; sz \<leftarrow> cmd_size cmd;
          let (hn, c) = NameFromHostPointer host c;
              (dn, c) = NameFromDeviceMem mem c
          in Some ([JObject [(kind, JObject [(''name'', JString (cstr (cmd_name cmd))), (''host_memory'', JString hn),
                 (''device_memory'', JString dn), (''offset'', json_size (cmd_off cmd ! 0)), (''size'', json_size sz)])]], c) }"

definition record_kernel :: "Command \<Rightarrow> recorder \<Rightarrow> (json list \<times> recorder) option" where
  "record_kernel cmd c =
     do { (ps, c) \<leftarrow> record_all record_arg (take (cmd_kernel_nargs cmd) (cmd_kernel_args cmd)) c;
          let ext = (\<lambda>ns. JArray (map json_size (take (cmd_dim cmd) ns)))
          in Some ([JObject [(''kernel'', JObject [(''name'', JString (cstr (cmd_name cmd))), (''global_size'', ext (cmd_gws cmd)),
                 (''local_size'', ext (cmd_lws cmd)), (''offset'', ext (cmd_off cmd)), (''parameters'', JArray ps)])]], c) }"

text \<open>Commands of other types leave no trace in the document.\<close>

definition record_command :: "Command \<Rightarrow> recorder \<Rightarrow> (json list \<times> recorder) option" where
  "record_command cmd c =
     (if cmd_type cmd = Some IRIS_CMD_H2D then record_transfer ''h2d'' cmd c
      else if cmd_type cmd = Some IRIS_CMD_D2H then record_transfer ''d2h'' cmd c
      else if cmd_type cmd = Some IRIS_CMD_KERNEL then record_kernel cmd c
      else Some ([], c))"

definition brs_policy_string :: "int \<Rightarrow> string" where
  "brs_policy_string p =
     (case map_of [(iris_ftf, ''ftf''), (iris_data, ''data''), (iris_default, ''default''), (iris_depend, ''depend''),
        (iris_sdq, ''sdq''), (iris_pending, ''pending''), (iris_profile, ''profile''), (iris_random, ''random''),
        (iris_roundrobin, ''roundrobin''), (iris_julia_policy, ''julia_policy'')] p of
        None \<Rightarrow> ''unknown''
      | Some s \<Rightarrow> s)"

definition record_target :: "Task \<Rightarrow> json option" where
  "record_target t =
     (if t_dev t \<noteq> None then Some (JInt (devno t))
      else if brs_policy_string (t_brs_policy t) = ''unknown'' then None
      else Some (JString (brs_policy_string (t_brs_policy t))))"

definition record_depends :: "tasks \<Rightarrow> Task \<Rightarrow> json list" where
  "record_depends h t =
     concat (map (\<lambda>d. case GetObject h d of None \<Rightarrow> [] | Some p \<Rightarrow> [JString (cstr (t_name p))]) (depend_uids t))"

text \<open>A task whose policy has no name is left out, after its pointers were named; no output array is a failed assertion.\<close>

definition ProcessTask :: "tasks \<Rightarrow> Task \<Rightarrow> recorder \<Rightarrow> recorder option" where
  "ProcessTask h t c =
     (if t_ncmds t = 0 then Some c
      else do { (cs, c) \<leftarrow> record_all record_command (t_cmds t) c;
                case record_target t of
                  None \<Rightarrow> Some c
                | Some target \<Rightarrow>
                    do { out \<leftarrow> rc_output c;
                         Some (c\<lparr>rc_output := Some (out @ [JObject [(''name'', JString (cstr (t_name t))),
                           (''commands'', JArray (concat cs)), (''target'', target),
                           (''depends'', JArray (record_depends h t))]])\<rparr>) } })"

definition RecordTask :: "uid \<Rightarrow> rt \<times> recorder \<Rightarrow> (rt \<times> recorder) option" where
  "RecordTask u s = (case s of (r, c) \<Rightarrow>
     do { t \<leftarrow> GetObject (r_tasks r) u;
          if t_ncmds t = 0 then Some (r, c)
          else do { r \<leftarrow> rt_at u Retain r; Some (r, c\<lparr>rc_tracked := rc_tracked c @ [u]\<rparr>) } })"

definition SCHEMA :: string where
  "SCHEMA = ''https://raw.githubusercontent.com/ORNL/iris/v2.0.0/schema/dagger.schema.json''"

definition input_names :: "recorder \<Rightarrow> string list" where
  "input_names c = map hostmem [0..<length (rc_hosts c)] @ map devicemem [0..<length (rc_mems c)]"

definition document :: "string list \<Rightarrow> json \<Rightarrow> json" where
  "document inputs ts =
     JObject [(''$schema'', JString SCHEMA),
       (''iris-graph'', JObject [(''inputs'', JArray (map JString inputs)), (''graph'', JObject [(''tasks'', ts)])])]"

definition record_document :: "rt \<Rightarrow> recorder \<Rightarrow> (json \<times> recorder) option" where
  "record_document r c =
     do { c \<leftarrow> opt_fold (\<lambda>u c. Option.bind (GetObject (r_tasks r) u) (\<lambda>t. ProcessTask (r_tasks r) t c)) (rc_tracked c) c;
          let ts = (case rc_output c of None \<Rightarrow> JNull | Some out \<Rightarrow> JArray out)
          in Some (document (input_names c) ts, c\<lparr>rc_tracked := [], rc_output := None\<rparr>) }"

definition RecordFlush :: "rt \<times> recorder \<Rightarrow> (json \<times> rt \<times> recorder) option" where
  "RecordFlush s = (case s of (r, c) \<Rightarrow>
     do { (doc, c') \<leftarrow> record_document r c;
          r \<leftarrow> opt_fold rt_Release (rev (rc_tracked c)) r;
          Some (doc, r, c') })"

end
