(* ===== verification/Iris_JSONRecord.thy ===== *)
theory Iris_JSONRecord
  imports Iris_JSON "HOL-Library.Sublist"
begin

text \<open>
  What the recorder writes: the names of pointers and memory objects are given in the order of their first use, and a name once given
  stays. So the document is a function of the tasks and of the final lists of names. The locale states this for one item and proves
  it for a list; its interpretations are the arguments of a kernel, the commands of a task and the tasks.
\<close>

section \<open>Names\<close>

definition idx :: "'a list \<Rightarrow> 'a \<Rightarrow> nat" where
  "idx xs x = (case find_index (\<lambda>y. y = x) xs of None \<Rightarrow> 0 | Some i \<Rightarrow> i)"

lemma idx_found: "find_index (\<lambda>y. y = x) xs = Some i \<Longrightarrow> idx xs x = i"
  by (simp add: idx_def)

lemma in_set_found:
  assumes "x \<in> set xs"
  obtains i where "find_index (\<lambda>y. y = x) xs = Some i"
  using assms by (cases "find_index (\<lambda>y. y = x) xs") (auto simp: find_index_None)

lemma idx_nth:
  assumes "x \<in> set xs"
  shows "idx xs x < length xs \<and> xs ! idx xs x = x"
proof -
  from assms obtain i where i: "find_index (\<lambda>y. y = x) xs = Some i" by (rule in_set_found)
  from idx_found [OF i] i [unfolded find_index_Some] show ?thesis by simp
qed

lemma idx_append:
  assumes "x \<in> set xs"
  shows "idx (xs @ ys) x = idx xs x"
proof -
  from assms obtain i where i: "find_index (\<lambda>y. y = x) xs = Some i" by (rule in_set_found)
  then have "find_index (\<lambda>y. y = x) (xs @ ys) = Some i" unfolding find_index_Some by (auto simp: nth_append)
  from idx_found [OF this] idx_found [OF i] show ?thesis by simp
qed

lemma idx_new:
  assumes "x \<notin> set xs"
  shows "idx (xs @ [x]) x = length xs"
proof -
  have "find_index (\<lambda>y. y = x) (xs @ [x]) = Some (length xs)" unfolding find_index_Some using assms by (auto simp: nth_append)
  from idx_found [OF this] show ?thesis .
qed

lemma UniqueUID_idx:
  assumes "UniqueUID x xs = (i, ys)"
  shows "prefix xs ys" "x \<in> set ys" "i = idx ys x" "prefix ys zs \<Longrightarrow> i = idx zs x \<and> x \<in> set zs"
proof -
  show p: "prefix xs ys" "x \<in> set ys" "i = idx ys x"
  proof (atomize (full), cases "x \<in> set xs")
    case True
    then obtain k where k: "find_index (\<lambda>y. y = x) xs = Some k" by (rule in_set_found)
    with True idx_found [OF k] assms show "prefix xs ys \<and> x \<in> set ys \<and> i = idx ys x" by (simp add: UniqueUID_def)
  next
    case False
    then have "find_index (\<lambda>y. y = x) xs = None" by (auto simp: find_index_None)
    with idx_new [OF False] assms show "prefix xs ys \<and> x \<in> set ys \<and> i = idx ys x" by (auto simp: UniqueUID_def)
  qed
  show "prefix ys zs \<Longrightarrow> i = idx zs x \<and> x \<in> set zs" using p(2,3) idx_append [OF p(2)] by (auto elim: prefixE)
qed

definition hname :: "recorder \<Rightarrow> size_t \<Rightarrow> string" where
  "hname c p = hostmem (idx (rc_hosts c) p)"

definition mname :: "recorder \<Rightarrow> uid \<Rightarrow> string" where
  "mname c m = devicemem (idx (rc_mems c) m)"

definition grows :: "recorder \<Rightarrow> recorder \<Rightarrow> bool" where
  "grows c c' \<longleftrightarrow> prefix (rc_hosts c) (rc_hosts c') \<and> prefix (rc_mems c) (rc_mems c')"

lemma grows_refl [simp]: "grows c c"
  by (simp add: grows_def)

lemma grows_trans [trans]: "grows a b \<Longrightarrow> grows b c \<Longrightarrow> grows a c"
  by (auto simp: grows_def intro: prefix_order.trans)

lemma host_named:
  assumes "NameFromHostPointer p c = (n, c')"
  shows "grows c c'" "rc_output c' = rc_output c" "rc_tracked c' = rc_tracked c" "grows c' d \<Longrightarrow> n = hname d p \<and> p \<in> set (rc_hosts d)"
  using assms UniqueUID_idx [of p "rc_hosts c"]
  by (auto simp: NameFromHostPointer_def grows_def hname_def Let_def split: prod.splits)

lemma mem_named:
  assumes "NameFromDeviceMem m c = (n, c')"
  shows "grows c c'" "rc_output c' = rc_output c" "rc_tracked c' = rc_tracked c" "grows c' d \<Longrightarrow> n = mname d m \<and> m \<in> set (rc_mems d)"
  using assms UniqueUID_idx [of m "rc_mems c"]
  by (auto simp: NameFromDeviceMem_def grows_def mname_def Let_def split: prod.splits)

section \<open>Lists of items\<close>

text \<open>\<open>render\<close> is what one item becomes, given the final names, and \<open>named\<close> says that those names are there.\<close>

definition records :: "('a \<Rightarrow> recorder \<Rightarrow> ('b \<times> recorder) option) \<Rightarrow> ('a \<Rightarrow> bool) \<Rightarrow> (recorder \<Rightarrow> 'a \<Rightarrow> 'b) \<Rightarrow> (recorder \<Rightarrow> 'a \<Rightarrow> bool) \<Rightarrow> bool" where
  "records f ok render named \<longleftrightarrow>
     (\<forall>x c. ok x \<longrightarrow> (\<exists>y c'. f x c = Some (y, c') \<and> grows c c' \<and> rc_output c' = rc_output c \<and> rc_tracked c' = rc_tracked c \<and>
        (\<forall>d. grows c' d \<longrightarrow> y = render d x \<and> named d x)))"

lemma recordsE:
  assumes "records f ok render named" "ok x"
  obtains y c' where "f x c = Some (y, c')" "grows c c'" "rc_output c' = rc_output c" "rc_tracked c' = rc_tracked c"
    "\<forall>d. grows c' d \<longrightarrow> y = render d x \<and> named d x"
  using assms unfolding records_def by blast

locale recording =
  fixes f :: "'a \<Rightarrow> recorder \<Rightarrow> ('b \<times> recorder) option" and ok :: "'a \<Rightarrow> bool"
    and render :: "recorder \<Rightarrow> 'a \<Rightarrow> 'b" and named :: "recorder \<Rightarrow> 'a \<Rightarrow> bool"
  assumes item: "records f ok render named"
begin

lemma items: "records (record_all f) (list_all ok) (\<lambda>d. map (render d)) (\<lambda>d. list_all (named d))"
proof -
  have "\<exists>ys c'. record_all f xs c = Some (ys, c') \<and> grows c c' \<and> rc_output c' = rc_output c \<and> rc_tracked c' = rc_tracked c \<and>
      (\<forall>d. grows c' d \<longrightarrow> ys = map (render d) xs \<and> list_all (named d) xs)" if "list_all ok xs" for xs c
    using that
  proof (induction xs arbitrary: c)
    case (Cons x xs)
    from Cons.prems have "ok x" by simp
    from item this obtain y c1 where 1: "f x c = Some (y, c1)" "grows c c1" "rc_output c1 = rc_output c"
      "rc_tracked c1 = rc_tracked c" "\<forall>d. grows c1 d \<longrightarrow> y = render d x \<and> named d x"
      by (rule recordsE [where c = c])
    from Cons.IH [of c1] Cons.prems obtain ys c2 where 2: "record_all f xs c1 = Some (ys, c2)" "grows c1 c2"
      "rc_output c2 = rc_output c1" "rc_tracked c2 = rc_tracked c1" "\<forall>d. grows c2 d \<longrightarrow> ys = map (render d) xs \<and> list_all (named d) xs"
      by auto
    have "y # ys = map (render d) (x # xs) \<and> list_all (named d) (x # xs)" if d: "grows c2 d" for d
    proof -
      from 1(5) grows_trans [OF 2(2) d] have "y = render d x \<and> named d x" by blast
      with 2(5) d show ?thesis by simp
    qed
    moreover have "grows c c2" using 1(2) 2(2) by (rule grows_trans)
    ultimately show ?case using 1(1,3,4) 2(1,3,4) by (intro exI [of _ "y # ys"] exI [of _ c2]) simp
  qed simp
  then show ?thesis by (simp add: records_def)
qed

end

section \<open>Arguments, commands and tasks\<close>

definition arg_recordable :: "(uid \<Rightarrow> BaseMemRef) \<Rightarrow> KernelArg \<Rightarrow> bool" where
  "arg_recordable mems a \<longleftrightarrow>
     (case arg_mem a of
        Some m \<Rightarrow> m = mems (mem_uid m) \<and> (arg_mode a = iris_r \<or> arg_mode a = iris_w \<or> arg_mode a = iris_rw)
      | None \<Rightarrow> 0 < unat (arg_size a) \<and> unat (arg_size a) \<le> KERNEL_ARG_VALUE_SIZE \<and> unat (arg_size a) \<le> length (arg_value a) \<and>
          take 8 (map byte_char (arg_value a)) \<noteq> ''hostmem-'' \<and> take 10 (map byte_char (arg_value a)) \<noteq> ''devicemem-'')"

definition scalar_bytes :: "KernelArg \<Rightarrow> byte list" where
  "scalar_bytes a = take (unat (arg_size a)) (arg_value a)"

definition arg_json :: "recorder \<Rightarrow> KernelArg \<Rightarrow> json" where
  "arg_json d a =
     (case arg_mem a of
        Some m \<Rightarrow> JObject ([(''type'', JString ''memory_object''), (''value'', JString (mname d (mem_uid m))),
          (''size_bytes'', json_size (arg_mem_size a))] @ mode_permission (arg_mode a))
      | None \<Rightarrow> JObject [(''type'', JString ''scalar''), (''value'', JString (map byte_char (scalar_bytes a))),
          (''data_size'', json_size (arg_size a))])"

definition arg_named :: "recorder \<Rightarrow> KernelArg \<Rightarrow> bool" where
  "arg_named d a \<longleftrightarrow> (case arg_mem a of None \<Rightarrow> True | Some m \<Rightarrow> mem_uid m \<in> set (rc_mems d))"

interpretation args: recording record_arg "arg_recordable mems" arg_json arg_named for mems
proof unfold_locales
  have "\<exists>y c'. record_arg a c = Some (y, c') \<and> grows c c' \<and> rc_output c' = rc_output c \<and> rc_tracked c' = rc_tracked c \<and>
      (\<forall>d. grows c' d \<longrightarrow> y = arg_json d a \<and> arg_named d a)" if "arg_recordable mems a" for a c
  proof (cases "arg_mem a")
    case None
    with that show ?thesis by (auto simp: arg_recordable_def record_arg_def arg_json_def arg_named_def scalar_bytes_def)
  next
    case (Some m)
    obtain n c' where n: "NameFromDeviceMem (mem_uid m) c = (n, c')" by fastforce
    from mem_named [OF n] Some n show ?thesis
      by (auto simp: record_arg_def arg_json_def arg_named_def Let_def)
  qed
  then show "records record_arg (arg_recordable mems) arg_json arg_named" by (simp add: records_def)
qed

definition small :: "size_t \<Rightarrow> bool" where "small n \<longleftrightarrow> unat n < 2 ^ 31"

definition transfer_recordable :: "Command \<Rightarrow> bool" where
  "transfer_recordable c \<longleftrightarrow> cmd_host c \<noteq> None \<and> cmd_mem c \<noteq> None \<and> cmd_size c \<noteq> None \<and> small (cmd_off c ! 0) \<and> small (the (cmd_size c))"

definition kernel_recordable :: "(uid \<Rightarrow> BaseMemRef) \<Rightarrow> Command \<Rightarrow> bool" where
  "kernel_recordable mems c \<longleftrightarrow> cmd_wf c \<and> list_all small (cmd_off c) \<and> list_all small (cmd_gws c) \<and> list_all small (cmd_lws c) \<and>
     list_all (arg_recordable mems) (take (cmd_kernel_nargs c) (cmd_kernel_args c))"

definition cmd_recordable :: "(uid \<Rightarrow> BaseMemRef) \<Rightarrow> Command \<Rightarrow> bool" where
  "cmd_recordable mems c \<longleftrightarrow> cstr (cmd_name c) = cmd_name c \<and>
     (if cmd_type c = Some IRIS_CMD_H2D \<or> cmd_type c = Some IRIS_CMD_D2H then transfer_recordable c
      else cmd_type c = Some IRIS_CMD_KERNEL \<and> kernel_recordable mems c)"

definition transfer_json :: "recorder \<Rightarrow> Command \<Rightarrow> json" where
  "transfer_json d c =
     JObject [(''name'', JString (cstr (cmd_name c))), (''host_memory'', JString (hname d (the (cmd_host c)))),
       (''device_memory'', JString (mname d (the (cmd_mem c)))), (''offset'', json_size (cmd_off c ! 0)), (''size'', json_size (the (cmd_size c)))]"

definition kernel_json :: "recorder \<Rightarrow> Command \<Rightarrow> json" where
  "kernel_json d c =
     (let ext = (\<lambda>ns. JArray (map json_size (take (cmd_dim c) ns)))
      in JObject [(''name'', JString (cstr (cmd_name c))), (''global_size'', ext (cmd_gws c)), (''local_size'', ext (cmd_lws c)),
           (''offset'', ext (cmd_off c)), (''parameters'', JArray (map (arg_json d) (take (cmd_kernel_nargs c) (cmd_kernel_args c))))])"

definition cmd_json :: "recorder \<Rightarrow> Command \<Rightarrow> json list" where
  "cmd_json d c =
     (if cmd_type c = Some IRIS_CMD_H2D then [JObject [(''h2d'', transfer_json d c)]]
      else if cmd_type c = Some IRIS_CMD_D2H then [JObject [(''d2h'', transfer_json d c)]]
      else [JObject [(''kernel'', kernel_json d c)]])"

definition cmd_named :: "recorder \<Rightarrow> Command \<Rightarrow> bool" where
  "cmd_named d c \<longleftrightarrow>
     (if cmd_type c = Some IRIS_CMD_H2D \<or> cmd_type c = Some IRIS_CMD_D2H
      then the (cmd_host c) \<in> set (rc_hosts d) \<and> the (cmd_mem c) \<in> set (rc_mems d)
      else list_all (arg_named d) (take (cmd_kernel_nargs c) (cmd_kernel_args c)))"

lemma transfer_records:
  assumes "transfer_recordable cmd"
  shows "\<exists>c'. record_transfer kind cmd c = Some ([JObject [(kind, transfer_json c' cmd)]], c') \<and> grows c c' \<and> rc_output c' = rc_output c \<and>
    rc_tracked c' = rc_tracked c \<and> (\<forall>d. grows c' d \<longrightarrow> transfer_json c' cmd = transfer_json d cmd \<and>
      the (cmd_host cmd) \<in> set (rc_hosts d) \<and> the (cmd_mem cmd) \<in> set (rc_mems d))"
proof -
  from assms obtain host mem sz where t: "cmd_host cmd = Some host" "cmd_mem cmd = Some mem" "cmd_size cmd = Some sz"
    by (auto simp: transfer_recordable_def)
  obtain hn c1 where h: "NameFromHostPointer host c = (hn, c1)" by fastforce
  obtain dn c2 where m: "NameFromDeviceMem mem c1 = (dn, c2)" by fastforce
  note hs = host_named [OF h] and ms = mem_named [OF m]
  have hn: "hn = hname d host \<and> host \<in> set (rc_hosts d)" if "grows c2 d" for d using hs(4) grows_trans [OF ms(1) that] by simp
  have dn: "dn = mname d mem \<and> mem \<in> set (rc_mems d)" if "grows c2 d" for d using ms(4) that by simp
  have "record_transfer kind cmd c = Some ([JObject [(kind, transfer_json c2 cmd)]], c2)"
    using t h m hn [of c2] dn [of c2] by (simp add: record_transfer_def transfer_json_def)
  moreover have "\<forall>d. grows c2 d \<longrightarrow> transfer_json c2 cmd = transfer_json d cmd \<and> host \<in> set (rc_hosts d) \<and> mem \<in> set (rc_mems d)"
    using hn dn grows_refl t by (metis option.sel transfer_json_def)
  ultimately show ?thesis using t hs(1-3) ms(1-3) grows_trans by (intro exI [of _ c2]) auto
qed

lemma kernel_records:
  assumes "kernel_recordable mems cmd"
  shows "\<exists>c'. record_kernel cmd c = Some ([JObject [(''kernel'', kernel_json c' cmd)]], c') \<and> grows c c' \<and> rc_output c' = rc_output c \<and>
    rc_tracked c' = rc_tracked c \<and> (\<forall>d. grows c' d \<longrightarrow> kernel_json c' cmd = kernel_json d cmd \<and>
      list_all (arg_named d) (take (cmd_kernel_nargs cmd) (cmd_kernel_args cmd)))"
proof -
  let ?as = "take (cmd_kernel_nargs cmd) (cmd_kernel_args cmd)"
  have "list_all (arg_recordable mems) ?as" using assms by (simp add: kernel_recordable_def)
  from args.items this obtain ys c' where r: "record_all record_arg ?as c = Some (ys, c')" "grows c c'" "rc_output c' = rc_output c"
    "rc_tracked c' = rc_tracked c" "\<forall>d. grows c' d \<longrightarrow> ys = map (arg_json d) ?as \<and> list_all (arg_named d) ?as"
    by (rule recordsE [where c = c])
  have e: "map (arg_json d) ?as = ys" if "grows c' d" for d using r(5) that by simp
  have "record_kernel cmd c = Some ([JObject [(''kernel'', kernel_json c' cmd)]], c')"
    using r(1) by (simp add: record_kernel_def kernel_json_def Let_def e)
  moreover have "kernel_json c' cmd = kernel_json d cmd" if "grows c' d" for d
    by (simp add: kernel_json_def Let_def e that)
  ultimately show ?thesis using r by blast
qed

interpretation cmds: recording record_command "cmd_recordable mems" cmd_json cmd_named for mems
proof unfold_locales
  have "\<exists>y c'. record_command cmd c = Some (y, c') \<and> grows c c' \<and> rc_output c' = rc_output c \<and> rc_tracked c' = rc_tracked c \<and>
      (\<forall>d. grows c' d \<longrightarrow> y = cmd_json d cmd \<and> cmd_named d cmd)" if ok: "cmd_recordable mems cmd" for cmd c
  proof (cases "cmd_type cmd = Some IRIS_CMD_KERNEL")
    case True
    with ok have "kernel_recordable mems cmd" by (auto simp: cmd_recordable_def iris_cmd_defs)
    from kernel_records [OF this, of c] True show ?thesis
      by (auto simp: record_command_def cmd_json_def cmd_named_def iris_cmd_defs)
  next
    case False
    with ok have t: "transfer_recordable cmd" "cmd_type cmd = Some IRIS_CMD_H2D \<or> cmd_type cmd = Some IRIS_CMD_D2H"
      by (auto simp: cmd_recordable_def split: if_splits)
    from t(2) transfer_records [OF t(1), of "''h2d''" c] transfer_records [OF t(1), of "''d2h''" c] show ?thesis
      by (auto simp: record_command_def cmd_json_def cmd_named_def iris_cmd_defs)
  qed
  then show "records record_command (cmd_recordable mems) cmd_json cmd_named" by (simp add: records_def)
qed

definition loadable_policies :: "int set" where
  "loadable_policies = {iris_ftf, iris_data, iris_default, iris_depend, iris_sdq, iris_profile, iris_random, iris_roundrobin}"

definition task_recordable :: "(uid \<Rightarrow> BaseMemRef) \<Rightarrow> Task \<Rightarrow> bool" where
  "task_recordable mems t \<longleftrightarrow> t_cmds t \<noteq> [] \<and> cstr (t_name t) = t_name t \<and> list_all (cmd_recordable mems) (t_cmds t) \<and>
     (if t_dev t = None then t_brs_policy t \<in> loadable_policies
      else int32_ok (devno t) \<and> devno t \<noteq> iris_custom \<and> devno t \<noteq> iris_pending)"

definition task_json :: "tasks \<Rightarrow> recorder \<Rightarrow> Task \<Rightarrow> json" where
  "task_json h d t =
     JObject [(''name'', JString (cstr (t_name t))), (''commands'', JArray (concat (map (cmd_json d) (t_cmds t)))),
       (''target'', the (record_target t)), (''depends'', JArray (record_depends h t))]"

lemma target_recordable: "task_recordable mems t \<Longrightarrow> record_target t \<noteq> None"
  by (auto simp: task_recordable_def record_target_def loadable_policies_def brs_policy_string_def iris_policy_defs split: if_splits)

lemma ProcessTask_recorded:
  assumes "task_recordable mems t" "rc_output c = Some out"
  shows "\<exists>c'. ProcessTask h t c = Some c' \<and> grows c c' \<and> rc_tracked c' = rc_tracked c \<and>
    (\<forall>d. grows c' d \<longrightarrow> rc_output c' = Some (out @ [task_json h d t]) \<and> list_all (cmd_named d) (t_cmds t))"
proof -
  have "list_all (cmd_recordable mems) (t_cmds t)" using assms(1) by (simp add: task_recordable_def)
  from cmds.items this obtain ys c1 where r: "record_all record_command (t_cmds t) c = Some (ys, c1)" "grows c c1" "rc_output c1 = rc_output c"
    "rc_tracked c1 = rc_tracked c" "\<forall>d. grows c1 d \<longrightarrow> ys = map (cmd_json d) (t_cmds t) \<and> list_all (cmd_named d) (t_cmds t)"
    by (rule recordsE [where c = c])
  from target_recordable [OF assms(1)] obtain target where t: "record_target t = Some target" by blast
  let ?c = "c1\<lparr>rc_output := Some (out @ [task_json h c1 t])\<rparr>"
  have ys: "ys = map (cmd_json d) (t_cmds t) \<and> list_all (cmd_named d) (t_cmds t)" if "grows ?c d" for d
    using r(5) that by (simp add: grows_def)
  have "ProcessTask h t c = Some ?c"
    using assms r(1,3) t ys [of c1] by (auto simp: ProcessTask_def task_recordable_def t_ncmds_def task_json_def grows_def)
  moreover have "rc_output ?c = Some (out @ [task_json h d t])" if "grows ?c d" for d
  proof -
    have "map (cmd_json c1) (t_cmds t) = map (cmd_json d) (t_cmds t)" using ys [OF that] ys [of c1] by (simp add: grows_def del: map_eq_conv)
    then have "task_json h c1 t = task_json h d t" by (simp only: task_json_def)
    then show ?thesis by simp
  qed
  ultimately show ?thesis using r ys by (intro exI [of _ ?c]) (auto simp: grows_def)
qed

definition task_named :: "recorder \<Rightarrow> Task \<Rightarrow> bool" where
  "task_named d t \<longleftrightarrow> list_all (cmd_named d) (t_cmds t)"

lemma tasks_recorded:
  assumes "\<forall>u \<in> set us. \<exists>t. GetObject h u = Some t \<and> task_recordable mems t" "rc_output c = Some out"
  shows "\<exists>c'. opt_fold (\<lambda>u c. Option.bind (GetObject h u) (\<lambda>t. ProcessTask h t c)) us c = Some c' \<and> grows c c' \<and>
    rc_tracked c' = rc_tracked c \<and> (\<forall>d. grows c' d \<longrightarrow> rc_output c' = Some (out @ map (\<lambda>u. task_json h d (the (GetObject h u))) us) \<and>
      (\<forall>u \<in> set us. task_named d (the (GetObject h u))))"
  using assms
proof (induction us arbitrary: c out)
  case (Cons u us)
  from Cons.prems(1) obtain t where t: "GetObject h u = Some t" "task_recordable mems t" by auto
  from ProcessTask_recorded [OF t(2) Cons.prems(2), of h] obtain c1 where 1: "ProcessTask h t c = Some c1" "grows c c1"
    "rc_tracked c1 = rc_tracked c" "\<forall>d. grows c1 d \<longrightarrow> rc_output c1 = Some (out @ [task_json h d t]) \<and> list_all (cmd_named d) (t_cmds t)"
    by blast
  from 1(4) have o: "rc_output c1 = Some (out @ [task_json h c1 t])" by simp
  from Cons.IH [OF _ o] Cons.prems(1) obtain c2 where
    2: "opt_fold (\<lambda>u c. Option.bind (GetObject h u) (\<lambda>t. ProcessTask h t c)) us c1 = Some c2" "grows c1 c2" "rc_tracked c2 = rc_tracked c1"
    "\<forall>d. grows c2 d \<longrightarrow> rc_output c2 = Some ((out @ [task_json h c1 t]) @ map (\<lambda>u. task_json h d (the (GetObject h u))) us) \<and>
      (\<forall>u \<in> set us. task_named d (the (GetObject h u)))"
    by auto
  have j: "task_json h d t = task_json h c1 t \<and> task_named d t" if "grows c2 d" for d
    using 1(4) o grows_trans [OF 2(2) that] by (auto simp: task_named_def)
  show ?case
    using 1 2 t(1) j grows_trans [OF 1(2) 2(2)] by (intro exI [of _ c2]) (auto simp: t(1))
qed simp

text \<open>The document of a sequence of recordable tasks.\<close>

lemma document_recorded:
  assumes "\<forall>u \<in> set (rc_tracked c). \<exists>t. GetObject (r_tasks r) u = Some t \<and> task_recordable mems t" "rc_output c = Some []"
  shows "\<exists>d. record_document r c = Some (document (input_names d)
      (JArray (map (\<lambda>u. task_json (r_tasks r) d (the (GetObject (r_tasks r) u))) (rc_tracked c))), d) \<and>
    (\<forall>u \<in> set (rc_tracked c). task_named d (the (GetObject (r_tasks r) u)))"
proof -
  from tasks_recorded [OF assms] obtain c' where
    c: "opt_fold (\<lambda>u c. Option.bind (GetObject (r_tasks r) u) (\<lambda>t. ProcessTask (r_tasks r) t c)) (rc_tracked c) c = Some c'"
    "\<forall>d. grows c' d \<longrightarrow> rc_output c' = Some ([] @ map (\<lambda>u. task_json (r_tasks r) d (the (GetObject (r_tasks r) u))) (rc_tracked c)) \<and>
      (\<forall>u \<in> set (rc_tracked c). task_named d (the (GetObject (r_tasks r) u)))" by blast
  let ?d = "c'\<lparr>rc_tracked := [], rc_output := None\<rparr>"
  have "grows c' ?d" by (simp add: grows_def)
  with c show ?thesis by (intro exI [of _ ?d]) (auto simp: record_document_def input_names_def)
qed

end
