(* ===== verification/Iris_JSONLoad.thy ===== *)
theory Iris_JSONLoad
  imports Iris_JSONRecord
begin

text \<open>
  Loading what the recorder wrote, piece by piece: names of inputs, numbers, arguments, commands. The environment is the one of a
  recorded document whose parameters are, in the order of its inputs, the host pointers and the handles of the memory objects.
\<close>

section \<open>Names of inputs\<close>

lemma dec_inject: "dec m = dec n \<longleftrightarrow> m = n"
  using atoi_digits_dec by (metis of_nat_eq_iff)

lemma nul_char: "char_of (0 :: nat) = Char False False False False False False False False"
  by (simp add: char_of_def)

lemma cstr_append: "list_all (\<lambda>c. c \<noteq> char_of (0 :: nat)) s \<Longrightarrow> cstr (s @ t) = s @ cstr t"
  by (induction s) (auto simp: cstr_def)

lemma cstr_dec: "cstr (dec n) = dec n"
proof -
  have "c \<noteq> char_of (0 :: nat)" if "c \<in> set (dec n)" for c
    using dec_digits [of n] that by (auto simp: is_digit_def)
  then show ?thesis unfolding cstr_def by (simp add: takeWhile_eq_all_conv)
qed

lemma cstr_names [simp]: "cstr (hostmem n) = hostmem n" "cstr (devicemem n) = devicemem n"
  unfolding hostmem_def devicemem_def by (subst cstr_append, simp add: char_of_def, simp only: cstr_dec)+

lemma names_inject [simp]: "hostmem m = hostmem n \<longleftrightarrow> m = n" "devicemem m = devicemem n \<longleftrightarrow> m = n"
  "hostmem m \<noteq> devicemem n" "devicemem m \<noteq> hostmem n"
  by (simp_all add: hostmem_def devicemem_def dec_inject)

lemma take_names: "take 8 (hostmem n) = ''hostmem-''" "take 10 (devicemem n) = ''devicemem-''"
  by (simp_all add: hostmem_def devicemem_def)

lemma nth_input_names:
  "i < length (rc_hosts d) \<Longrightarrow> input_names d ! i = hostmem i"
  "i < length (rc_mems d) \<Longrightarrow> input_names d ! (length (rc_hosts d) + i) = devicemem i"
  "length (input_names d) = length (rc_hosts d) + length (rc_mems d)"
  by (simp_all add: input_names_def nth_append)

lemma find_host:
  assumes "p \<in> set (rc_hosts d)"
  shows "find_index (\<lambda>i. cstr i = cstr (hname d p)) (input_names d) = Some (idx (rc_hosts d) p)"
proof -
  from idx_nth [OF assms] have i: "idx (rc_hosts d) p < length (rc_hosts d)" by simp
  then have "cstr (input_names d ! j) = cstr (hname d p) \<longleftrightarrow> j = idx (rc_hosts d) p" if "j \<le> idx (rc_hosts d) p" for j
    using that by (simp add: nth_input_names hname_def)
  with i show ?thesis unfolding find_index_Some by (auto simp: nth_input_names(3))
qed

lemma find_mem:
  assumes "m \<in> set (rc_mems d)"
  shows "find_index (\<lambda>i. cstr i = cstr (mname d m)) (input_names d) = Some (length (rc_hosts d) + idx (rc_mems d) m)"
proof -
  let ?h = "length (rc_hosts d)" let ?i = "idx (rc_mems d) m"
  from idx_nth [OF assms] have i: "?i < length (rc_mems d)" by simp
  have "cstr (input_names d ! j) = cstr (mname d m) \<longleftrightarrow> j = ?h + ?i" if j: "j \<le> ?h + ?i" for j
  proof (cases "j < ?h")
    case True
    then show ?thesis by (simp add: nth_input_names mname_def)
  next
    case False
    then obtain k where k: "j = ?h + k" by (metis le_add_diff_inverse not_less)
    with j i show ?thesis by (simp add: nth_input_names mname_def)
  qed
  with i show ?thesis unfolding find_index_Some by (auto simp: nth_input_names(3))
qed

lemma find_other:
  assumes "take 8 (cstr s) \<noteq> ''hostmem-''" "take 10 (cstr s) \<noteq> ''devicemem-''"
  shows "find_index (\<lambda>i. cstr i = cstr s) (input_names d) = None"
proof -
  have "hostmem n \<noteq> cstr s" "devicemem n \<noteq> cstr s" for n using assms take_names by metis+
  then show ?thesis unfolding find_index_None input_names_def by auto
qed

text \<open>The parameters of a replay.\<close>

definition replays :: "(uid \<Rightarrow> BaseMemRef) \<Rightarrow> recorder \<Rightarrow> input option list \<Rightarrow> bool" where
  "replays mems d params \<longleftrightarrow> length params = length (rc_hosts d) + length (rc_mems d) \<and>
     (\<forall>i < length (rc_hosts d). \<exists>p. params ! i = Some p \<and> in_addr p = rc_hosts d ! i) \<and>
     (\<forall>i < length (rc_mems d). \<exists>p. params ! (length (rc_hosts d) + i) = Some p \<and> in_mem p = Some (mems (rc_mems d ! i)))"

definition replay_env :: "recorder \<Rightarrow> input option list \<Rightarrow> load_env" where
  "replay_env d params = \<lparr>le_inputs = input_names d, le_params = params\<rparr>"

lemma input_host:
  assumes "replays mems d params" "p \<in> set (rc_hosts d)"
  shows "\<exists>i. GetParameterInput (replay_env d params) (hname d p) = Ok (Some i) \<and> in_addr i = p"
  using assms idx_nth [OF assms(2)] find_host [OF assms(2)]
  by (auto simp: GetParameterInput_def replay_env_def replays_def cell_def of_option_def)

lemma input_mem:
  assumes "replays mems d params" "m \<in> set (rc_mems d)"
  shows "\<exists>i. GetParameterInput (replay_env d params) (mname d m) = Ok (Some i) \<and> in_mem i = Some (mems m)"
  using assms idx_nth [OF assms(2)] find_mem [OF assms(2)]
  by (auto simp: GetParameterInput_def replay_env_def replays_def cell_def of_option_def)

lemma input_other:
  assumes "take 8 (cstr s) \<noteq> ''hostmem-''" "take 10 (cstr s) \<noteq> ''devicemem-''"
  shows "GetParameterInput (replay_env d params) s = Ok None"
  using find_other [OF assms] by (simp add: GetParameterInput_def replay_env_def)

section \<open>Numbers\<close>

lemma small_int: "small n \<longleftrightarrow> int32_ok (uint n)"
proof -
  have "small n \<longleftrightarrow> int (unat n) < int (2 ^ 31)" unfolding small_def of_nat_less_iff ..
  then have "small n \<longleftrightarrow> uint n < 2 ^ 31" by simp
  moreover have "- (2 ^ 31) \<le> uint n" by (rule order_trans [OF _ uint_nonnegative]) simp
  ultimately show ?thesis unfolding int32_ok_def by blast
qed

lemma load_size_small [simp]: "small n \<Longrightarrow> load_size e b (json_size n) = Ok n"
  by (simp add: load_size_def json_size_def IsInt_def small_int)

lemma load_sizes_small: "list_all small ns \<Longrightarrow> load_sizes e b (map json_size ns) = Ok ns"
  unfolding load_sizes_def
  by (induction ns) (auto simp: json_size_def IsInt_def small_int)

text \<open>A size beyond \<open>2 ^ 31\<close> is written but not read.\<close>

lemma load_size_large: "\<not> small n \<Longrightarrow> load_size e b (json_size n) = Error"
  by (simp add: load_size_def json_size_def IsInt_def small_int)

section \<open>Arguments\<close>

definition same_arg :: "KernelArg \<Rightarrow> KernelArg \<Rightarrow> bool" where
  "same_arg a b \<longleftrightarrow> arg_mem b = arg_mem a \<and>
     (case arg_mem a of
        Some m \<Rightarrow> arg_mode b = arg_mode a
      | None \<Rightarrow> arg_size b = arg_size a \<and> arg_value b = scalar_bytes a)"

lemma map_of_char_byte: "map of_char (map byte_char bs) = bs"
proof -
  have "of_char (byte_char b) = b" for b :: byte
  proof -
    have "unat b < 256" using unsigned_less [of b] by simp
    then have "(of_char (char_of (unat b)) :: nat) = unat b" by (simp add: take_bit_eq_mod)
    then have "(of_nat (of_char (char_of (unat b))) :: byte) = b" by (simp del: of_char_of)
    then show ?thesis unfolding byte_char_def of_nat_of_char .
  qed
  then show ?thesis by (induction bs) auto
qed

lemma iris_mode_neg: "iris_r \<le> 0" "iris_w \<le> 0" "iris_rw \<le> 0" "iris_r \<noteq> iris_w" "iris_r \<noteq> iris_rw" "iris_w \<noteq> iris_rw"
  by (simp_all add: iris_r_def iris_w_def iris_rw_def)

definition param_loads :: "KernelArg \<Rightarrow> KernelParam \<Rightarrow> bool" where
  "param_loads a p \<longleftrightarrow>
     (case arg_mem a of
        Some m \<Rightarrow> param_info p = arg_mode a \<and> param_info p \<le> 0 \<and> param_mem p = Some m
      | None \<Rightarrow> param_info p = uint (arg_size a) \<and> 0 < param_info p \<and> unat (arg_size a) \<le> KERNEL_ARG_VALUE_SIZE \<and>
          unat (arg_size a) \<le> length (arg_value a) \<and> param_bytes p = Some (scalar_bytes a @ [0]))"

lemma take_prefix: "prefix u v \<Longrightarrow> take n u = w \<Longrightarrow> length w = n \<Longrightarrow> take n v = w"
  by (auto elim!: prefixE)

lemma prefix_cstr: "prefix (cstr s) s"
  by (simp add: cstr_def takeWhile_is_prefix)

lemma scalar_other:
  assumes "arg_mem a = None" "arg_recordable mems a"
  shows "GetParameterInput (replay_env d params) (map byte_char (scalar_bytes a)) = Ok None"
proof (rule input_other)
  let ?s = "map byte_char (scalar_bytes a)" and ?v = "map byte_char (arg_value a)"
  have "prefix ?s ?v" by (simp add: scalar_bytes_def take_map [symmetric] take_is_prefix)
  with prefix_cstr have p: "prefix (cstr ?s) ?v" by (rule prefix_order.trans)
  from assms have n: "take 8 ?v \<noteq> ''hostmem-''" "take 10 ?v \<noteq> ''devicemem-''" by (auto simp: arg_recordable_def)
  from take_prefix [OF p, of 8 "''hostmem-''"] n(1) show "take 8 (cstr ?s) \<noteq> ''hostmem-''" by fastforce
  from take_prefix [OF p, of 10 "''devicemem-''"] n(2) show "take 10 (cstr ?s) \<noteq> ''devicemem-''" by fastforce
qed

lemma load_param_scalar:
  assumes "arg_mem a = None" "arg_recordable mems a"
  shows "\<exists>p. load_param (replay_env d params) (arg_json d a) = Ok (Some p) \<and> param_loads a p"
proof -
  from assms have a: "0 < unat (arg_size a)" "unat (arg_size a) \<le> KERNEL_ARG_VALUE_SIZE" "unat (arg_size a) \<le> length (arg_value a)"
    by (auto simp: arg_recordable_def)
  then have i: "int32_ok (uint (arg_size a))" using small_int [of "arg_size a"] by (simp add: small_def KERNEL_ARG_VALUE_SIZE_def)
  from a(1) have "int 0 < int (unat (arg_size a))" unfolding of_nat_less_iff .
  then have pos: "0 < uint (arg_size a)" by simp
  let ?p = "\<lparr>param_bytes = Some (string_bytes (map byte_char (scalar_bytes a))), param_mem = None, param_host = None,
    param_info = uint (arg_size a), param_off = None, param_range = None\<rparr>"
  have "load_param (replay_env d params) (arg_json d a) = Ok (Some ?p)"
    using assms(1) i pos
    by (simp add: load_param_def arg_json_def need_def of_option_def load_scalar_def scalar_other [OF assms] scalar_size_def json_size_def
        kernel_param_def cstr_def nul_char)
  moreover have "param_loads a ?p" using assms(1) a pos
    by (simp add: param_loads_def string_bytes_def map_of_char_byte [unfolded map_map])
  ultimately show ?thesis by blast
qed

lemma load_param_mem:
  assumes "arg_mem a = Some m" "arg_recordable mems a" "arg_named d a" "replays mems d params"
  shows "\<exists>p. load_param (replay_env d params) (arg_json d a) = Ok (Some p) \<and> param_loads a p"
proof -
  from assms have m: "mem_uid m \<in> set (rc_mems d)" "m = mems (mem_uid m)" "arg_mode a = iris_r \<or> arg_mode a = iris_w \<or> arg_mode a = iris_rw"
    by (auto simp: arg_recordable_def arg_named_def)
  from input_mem [OF assms(4) m(1)] m(2) obtain i where
    i: "GetParameterInput (replay_env d params) (mname d (mem_uid m)) = Ok (Some i)" "in_mem i = Some m" by auto
  have "\<exists>s. mode_permission (arg_mode a) = [(''permissions'', JString s)] \<and> permission_mode s = Some (arg_mode a)"
    using m(3) iris_mode_neg by (auto simp: mode_permission_def permission_mode_def cstr_def nul_char)
  then obtain s where s: "mode_permission (arg_mode a) = [(''permissions'', JString s)]" "permission_mode s = Some (arg_mode a)" by blast
  have "load_param (replay_env d params) (arg_json d a) = Ok (kernel_param (Some i) (arg_mode a))"
    using assms(1) i s by (simp add: load_param_def arg_json_def need_def of_option_def load_memory_object_def cstr_def nul_char)
  with i(2) assms(1) m(3) iris_mode_neg show ?thesis by (auto simp: kernel_param_def param_loads_def)
qed

lemma load_param_arg:
  assumes "arg_recordable mems a" "arg_named d a" "replays mems d params"
  shows "\<exists>p. load_param (replay_env d params) (arg_json d a) = Ok (Some p) \<and> param_loads a p"
  using load_param_scalar [OF _ assms(1)] load_param_mem [OF _ assms] by (cases "arg_mem a") auto

lemma load_params:
  assumes "list_all (arg_recordable mems) as" "list_all (arg_named d) as" "replays mems d params"
  shows "\<exists>ps. traverse (load_param (replay_env d params)) (map (arg_json d) as) = Ok (map Some ps) \<and> list_all2 param_loads as ps"
  using assms(1,2)
proof (induction as)
  case (Cons a as)
  then obtain ps where "traverse (load_param (replay_env d params)) (map (arg_json d) as) = Ok (map Some ps)" "list_all2 param_loads as ps" by auto
  moreover from Cons.prems load_param_arg [OF _ _ assms(3), of a] obtain p where
    "load_param (replay_env d params) (arg_json d a) = Ok (Some p)" "param_loads a p" by auto
  ultimately show ?case by (intro exI [of _ "p # ps"]) simp
qed simp

section \<open>Kernels\<close>

lemma size_mask: "unat (n :: size_t) \<le> KERNEL_ARG_VALUE_SIZE \<Longrightarrow> n AND 0xFFFF = n"
proof -
  assume n: "unat n \<le> KERNEL_ARG_VALUE_SIZE"
  have "n AND 0xFFFF = take_bit 16 n" by (simp add: take_bit_eq_mask mask_eq_exp_minus_1)
  also have "\<dots> = n" using n by (intro word_unat_eq_iff [THEN iffD2]) (simp add: unsigned_take_bit_eq take_bit_nat_eq_self KERNEL_ARG_VALUE_SIZE_def)
  finally show ?thesis .
qed

lemma CreateKernel_param_loads:
  assumes "param_loads a p" "i < length (cmd_kernel_args c)"
  shows "\<exists>c' k'. CreateKernel_param i p (c, k) = Some (c', k') \<and> same_arg a (cmd_kernel_args c' ! i) \<and>
    (\<forall>j. j \<noteq> i \<longrightarrow> cmd_kernel_args c' ! j = cmd_kernel_args c ! j) \<and> length (cmd_kernel_args c') = length (cmd_kernel_args c) \<and>
    cmd_name c' = cmd_name c"
proof (cases "arg_mem a")
  case None
  with assms(1) have "word_of_int (param_info p) AND 0xFFFF = arg_size a" by (simp add: param_loads_def size_mask)
  with None assms show ?thesis
    by (auto simp: CreateKernel_param_def param_loads_def Let_def same_arg_def scalar_bytes_def)
next
  case (Some m)
  with assms show ?thesis by (auto simp: CreateKernel_param_def param_loads_def Let_def same_arg_def)
qed

lemma CreateKernel_params_load:
  assumes "list_all2 param_loads as ps" "i + length ps \<le> length (cmd_kernel_args c)"
  shows "\<exists>c' k'. CreateKernel_params i ps (c, k) = Some (c', k') \<and> cmd_name c' = cmd_name c \<and>
    (\<forall>j < length as. same_arg (as ! j) (cmd_kernel_args c' ! (i + j))) \<and> (\<forall>j < i. cmd_kernel_args c' ! j = cmd_kernel_args c ! j)"
  using assms
proof (induction as ps arbitrary: i c k rule: list_all2_induct)
  case (Cons a as p ps)
  from Cons(4) have "i < length (cmd_kernel_args c)" by simp
  from CreateKernel_param_loads [OF Cons(1) this, of k] obtain c1 k1 where
    1: "CreateKernel_param i p (c, k) = Some (c1, k1)" "same_arg a (cmd_kernel_args c1 ! i)"
      "\<forall>j. j \<noteq> i \<longrightarrow> cmd_kernel_args c1 ! j = cmd_kernel_args c ! j" "length (cmd_kernel_args c1) = length (cmd_kernel_args c)"
      "cmd_name c1 = cmd_name c"
    by blast
  from Cons(4) 1(4) have "Suc i + length ps \<le> length (cmd_kernel_args c1)" by simp
  from Cons(3) [OF this, of k1] obtain c2 k2 where
    2: "CreateKernel_params (Suc i) ps (c1, k1) = Some (c2, k2)" "cmd_name c2 = cmd_name c1"
    "\<forall>j < length as. same_arg (as ! j) (cmd_kernel_args c2 ! (Suc i + j))" "\<forall>j < Suc i. cmd_kernel_args c2 ! j = cmd_kernel_args c1 ! j"
    by blast
  have "same_arg ((a # as) ! j) (cmd_kernel_args c2 ! (i + j))" if "j < length (a # as)" for j
    using that 1(2) 2(3,4) by (cases j) auto
  moreover have "cmd_kernel_args c2 ! j = cmd_kernel_args c ! j" if "j < i" for j using that 1(3) 2(4) by simp
  ultimately show ?case using 1(1,5) 2(1,2) by auto
qed simp

section \<open>Commands\<close>

text \<open>What a command does when it is executed, as far as the document can say it.\<close>

definition same_command :: "Command \<Rightarrow> Command \<Rightarrow> bool" where
  "same_command a b \<longleftrightarrow> cmd_type b = cmd_type a \<and> cmd_name b = cmd_name a \<and>
     (if cmd_type a = Some IRIS_CMD_KERNEL then
        cmd_dim b = cmd_dim a \<and> take (cmd_dim a) (cmd_gws b) = take (cmd_dim a) (cmd_gws a) \<and>
        take (cmd_dim a) (cmd_lws b) = take (cmd_dim a) (cmd_lws a) \<and> take (cmd_dim a) (cmd_off b) = take (cmd_dim a) (cmd_off a) \<and>
        cmd_kernel_nargs b = cmd_kernel_nargs a \<and>
        (\<forall>i < cmd_kernel_nargs a. same_arg (cmd_kernel_args a ! i) (cmd_kernel_args b ! i))
      else cmd_mem b = cmd_mem a \<and> cmd_off b ! 0 = cmd_off a ! 0 \<and> cmd_size b = cmd_size a \<and> cmd_host b = cmd_host a)"

lemma load_extent_json:
  "list_all small ns \<Longrightarrow> field j k = Ok (Some (JArray (map json_size ns))) \<Longrightarrow> load_extent e j k n = Ok (Some ns, length ns)"
  by (simp add: load_extent_def load_sizes_small)

lemma list_all_take: "list_all P xs \<Longrightarrow> list_all P (take n xs)"
  by (auto simp: list_all_iff dest: in_set_takeD)

lemma CreateKernel_load:
  assumes "cmd_wf c" "list_all2 param_loads (take (cmd_kernel_nargs c) (cmd_kernel_args c)) ps" "cmd_type c = Some IRIS_CMD_KERNEL"
  shows "\<exists>c' k'. CreateKernel task (Kernel_new ku (cmd_name c)) (cmd_dim c) (Some (take (cmd_dim c) (cmd_off c)))
      (take (cmd_dim c) (cmd_gws c)) (Some (take (cmd_dim c) (cmd_lws c))) ps = Some (c', k') \<and> same_command c c'"
proof -
  let ?n = "cmd_dim c" and ?as = "take (cmd_kernel_nargs c) (cmd_kernel_args c)" and ?k = "Kernel_new ku (cmd_name c)"
  let ?c0 = "(Command_Create task IRIS_CMD_KERNEL)\<lparr>cmd_kernel := Some (obj_uid ?k), cmd_name := kname ?k\<rparr>"
  from assms(1) have w: "length (cmd_off c) = 3" "length (cmd_gws c) = 3" "length (cmd_lws c) = 3" "?n \<le> 3"
    "cmd_kernel_nargs c \<le> length (cmd_kernel_args c)" by (auto simp: cmd_wf_def)
  define c1 where "c1 = ?c0\<lparr>cmd_dim := ?n, cmd_off := take ?n (cmd_off c) @ replicate (3 - ?n) 0,
    cmd_gws := take ?n (cmd_gws c) @ replicate (3 - ?n) 1, cmd_lws := take ?n (cmd_lws c) @ replicate (3 - ?n) 1\<rparr>"
  have n: "kernel_ndrange ?n (Some (take ?n (cmd_off c))) (take ?n (cmd_gws c)) (Some (take ?n (cmd_lws c))) ?c0 = Some c1"
    using w by (simp add: kernel_ndrange_def c1_def)
  from assms(2) w(5) have l: "length ps = cmd_kernel_nargs c" by (auto dest: list_all2_lengthD)
  define c2 where "c2 = (if length (cmd_kernel_args c1) < length ps
    then c1\<lparr>cmd_kernel_args := replicate (length ps) KernelArg_default\<rparr> else c1)\<lparr>cmd_kernel_nargs := length ps\<rparr>"
  have "0 + length ps \<le> length (cmd_kernel_args c2)" by (simp add: c2_def)
  from CreateKernel_params_load [OF assms(2) this] obtain c3 k3 where
    3: "CreateKernel_params 0 ps (c2, ?k\<lparr>ktask := Some (tr_uid task)\<rparr>) = Some (c3, k3)" "cmd_name c3 = cmd_name c2"
    "\<forall>j < length ?as. same_arg (?as ! j) (cmd_kernel_args c3 ! (0 + j))" by blast
  from 3(1) n have "CreateKernel task ?k ?n (Some (take ?n (cmd_off c))) (take ?n (cmd_gws c)) (Some (take ?n (cmd_lws c))) ps = Some (c3, k3)"
    by (simp add: CreateKernel_def Let_def c2_def)
  moreover have kn: "kname ?k = cmd_name c" by (simp add: Kernel_new_def Retainable.extend_def Kernel.fields_def Retain_def set_object_track_def)
  have "cmd_type c2 = Some IRIS_CMD_KERNEL" "cmd_dim c2 = ?n" "cmd_off c2 = cmd_off c1" "cmd_gws c2 = cmd_gws c1" "cmd_lws c2 = cmd_lws c1"
    "cmd_kernel_nargs c2 = cmd_kernel_nargs c" "cmd_name c2 = cmd_name c"
    by (simp_all add: c2_def c1_def l kn)
  then have "same_command c c3"
    using CreateKernel_params_keeps [OF 3(1)] 3(2,3) w(1-4) w(5) assms(3) by (simp add: same_command_def c1_def)
  ultimately show ?thesis by blast
qed

lemma load_kernel_json:
  assumes "cmd_recordable mems c" "cmd_named d c" "cmd_type c = Some IRIS_CMD_KERNEL" "replays mems d params"
  shows "\<exists>c' k'. load_kernel (replay_env d params) task ku (kernel_json d c) = Ok (c', k') \<and> same_command c c'"
proof -
  let ?as = "take (cmd_kernel_nargs c) (cmd_kernel_args c)" and ?n = "cmd_dim c"
  from assms(1,3) have r: "kernel_recordable mems c" "cstr (cmd_name c) = cmd_name c" by (auto simp: cmd_recordable_def iris_cmd_defs)
  from assms(2,3) have n: "list_all (arg_named d) ?as" by (simp add: cmd_named_def iris_cmd_defs)
  from r(1) have a: "list_all (arg_recordable mems) ?as" "cmd_wf c" by (auto simp: kernel_recordable_def)
  have s: "list_all small (take ?n (cmd_off c))" "list_all small (take ?n (cmd_gws c))" "list_all small (take ?n (cmd_lws c))"
    using r(1) by (auto simp: kernel_recordable_def intro: list_all_take)
  from a(2) have l: "length (take ?n (cmd_off c)) = ?n" by (simp add: cmd_wf_def)
  from load_params [OF a(1) n assms(4)] obtain ps where
    ps: "traverse (load_param (replay_env d params)) (map (arg_json d) ?as) = Ok (map Some ps)" "list_all2 param_loads ?as ps" by blast
  from CreateKernel_load [OF a(2) ps(2) assms(3), of task ku] obtain c' k' where
    c: "CreateKernel task (Kernel_new ku (cmd_name c)) ?n (Some (take ?n (cmd_off c))) (take ?n (cmd_gws c))
      (Some (take ?n (cmd_lws c))) ps = Some (c', k')" "same_command c c'" by blast
  have "load_extent (replay_env d params) (kernel_json d c) ''local_size'' m = Ok (Some (take ?n (cmd_lws c)), length (take ?n (cmd_lws c)))" for m
    by (rule load_extent_json [OF s(3)]) (simp add: kernel_json_def Let_def)
  moreover have "load_extent (replay_env d params) (kernel_json d c) ''offset'' m = Ok (Some (take ?n (cmd_off c)), length (take ?n (cmd_off c)))" for m
    by (rule load_extent_json [OF s(1)]) (simp add: kernel_json_def Let_def)
  ultimately have "load_kernel (replay_env d params) task ku (kernel_json d c) = Ok (c', k')"
    using c(1) ps(1) r(2) l load_sizes_small [OF s(2), of "replay_env d params" False]
    by (simp add: load_kernel_def need_string_def need_array_def need_def of_option_def kernel_json_def Let_def)
  with c(2) show ?thesis by blast
qed

lemma load_mem_json: "replays mems d params \<Longrightarrow> m \<in> set (rc_mems d) \<Longrightarrow> mem_uid (mems m) = m \<Longrightarrow>
  load_mem (replay_env d params) (mname d m) = Ok m"
  using input_mem [of mems d params m] by (auto simp: load_mem_def of_option_def)

lemma load_transfer_json:
  assumes "cmd_recordable mems c" "cmd_named d c" "replays mems d params" "cmd_type c = Some ty" "ty = IRIS_CMD_H2D \<or> ty = IRIS_CMD_D2H"
    "\<forall>m. mem_uid (mems m) = m"
  shows "\<exists>c'. (if ty = IRIS_CMD_H2D then load_h2d else load_d2h) (replay_env d params) task (transfer_json d c) = Ok c' \<and> same_command c c'"
proof -
  from assms(1,4,5) have t: "transfer_recordable c" "cstr (cmd_name c) = cmd_name c" by (auto simp: cmd_recordable_def)
  from t(1) obtain host mem sz where f: "cmd_host c = Some host" "cmd_mem c = Some mem" "cmd_size c = Some sz" "small (cmd_off c ! 0)" "small sz"
    by (auto simp: transfer_recordable_def)
  from assms(2,4,5) f(1,2) have n: "host \<in> set (rc_hosts d)" "mem \<in> set (rc_mems d)" by (auto simp: cmd_named_def split: if_splits)
  from input_host [OF assms(3) n(1)] obtain i where i: "GetParameterInput (replay_env d params) (hname d host) = Ok (Some i)" "in_addr i = host" by blast
  from input_mem [OF assms(3) n(2)] obtain j where j: "GetParameterInput (replay_env d params) (mname d mem) = Ok (Some j)" by blast
  note m = load_mem_json [OF assms(3) n(2)] assms(6)
  have off0: "cmd_off (Command_Create task k) = [0, 0, 0]" for k
    by (simp add: Command_Create_def Command_Set_def Command_Clear_def Let_def split: option.splits)
  note loads = need_string_def need_def of_option_def transfer_json_def load_name_def address_def
  show ?thesis
    using assms(4,5) f i j m t(2) off0
    by (auto simp: load_h2d_def load_d2h_def loads CreateH2D_def CreateD2H_def Iris_Command.linear_def exclusive_def same_command_def iris_cmd_defs)
qed

lemma load_command_json:
  assumes "cmd_recordable mems c" "cmd_named d c" "replays mems d params" "\<forall>m. mem_uid (mems m) = m"
  shows "\<exists>j c' k. cmd_json d c = [j] \<and> load_command (replay_env d params) task ku j = Ok (c', k) \<and> same_command c c'"
proof (cases "cmd_type c = Some IRIS_CMD_KERNEL")
  case True
  from load_kernel_json [OF assms(1,2) True assms(3)] obtain c' k' where
    "load_kernel (replay_env d params) task ku (kernel_json d c) = Ok (c', k')" "same_command c c'" by blast
  moreover from True have "cmd_json d c = [JObject [(''kernel'', kernel_json d c)]]" by (simp add: cmd_json_def iris_cmd_defs)
  ultimately show ?thesis by (simp add: load_command_def)
next
  case False
  with assms(1) have "cmd_type c = Some IRIS_CMD_H2D \<or> cmd_type c = Some IRIS_CMD_D2H" by (auto simp: cmd_recordable_def split: if_splits)
  then show ?thesis
    using load_transfer_json [OF assms(1-3) _ _ assms(4), of IRIS_CMD_H2D task] load_transfer_json [OF assms(1-3) _ _ assms(4), of IRIS_CMD_D2H task]
    by (auto simp: cmd_json_def load_command_def iris_cmd_defs)
qed

end
