(* ===== verification/Iris_JSONProps.thy ===== *)
theory Iris_JSONProps
  imports Iris_JSONLoad
begin

text \<open>
  A recorded document loads to the tasks that were recorded: the steps of \<open>Load\<close> on one task, the invariant of its loop over the tasks,
  and what becomes of tasks the document cannot express.
\<close>

section \<open>Steps on one task\<close>

definition tk :: "loader \<Rightarrow> uid \<Rightarrow> Task option" where
  "tk s u = GetObject (r_tasks (ld_rt s)) u"

definition works :: "uid \<Rightarrow> loader \<Rightarrow> loader \<Rightarrow> bool" where
  "works u s s' \<longleftrightarrow> r_flags (ld_rt s') = r_flags (ld_rt s) \<and> ld_graph s' = ld_graph s \<and> ld_tasks s' = ld_tasks s \<and>
     (\<forall>v. v \<noteq> u \<longrightarrow> tk s' v = tk s v) \<and> r_uid (ld_rt s) \<le> r_uid (ld_rt s')"

lemma works_refl [simp]: "works u s s"
  by (simp add: works_def)

lemma works_trans [trans]: "works u a b \<Longrightarrow> works u b c \<Longrightarrow> works u a c"
  by (auto simp: works_def)

lemma on_task_works:
  assumes "tk s u = Some t"
  shows "\<exists>s'. on_task u f s = Some s' \<and> works u s s' \<and> tk s' u = Some (f t) \<and> r_tasks (ld_rt s') = TrackObject (r_tasks (ld_rt s)) (f t) u"
  using assms by (auto simp: on_task_def rt_at_def at_object_def tk_def works_def iris_simps)

lemma registry_works:
  assumes "s' = s\<lparr>ld_rt := (ld_rt s)\<lparr>r_tasks := TrackObject (r_tasks (ld_rt s)) t' u\<rparr>\<rparr>"
  shows "works u s s' \<and> tk s' u = Some t'"
  using assms by (auto simp: works_def tk_def iris_simps)

definition target_of :: "Task \<Rightarrow> int" where
  "target_of t = (if t_dev t \<noteq> None then devno t else t_brs_policy t)"

lemma load_target_json:
  assumes "task_recordable mems t"
  shows "load_target (replay_env d params) (the (record_target t)) = Ok (target_of t) \<and> target_of t \<noteq> iris_custom \<and> target_of t \<noteq> iris_pending"
proof (cases "t_dev t")
  case (Some v)
  with assms show ?thesis by (auto simp: task_recordable_def record_target_def load_target_def IsInt_def target_of_def)
next
  case None
  with assms have p: "t_brs_policy t \<in> loadable_policies" by (simp add: task_recordable_def)
  have n: "GetParameterInput (replay_env d params) s = Ok None"
    if "s \<in> {''ftf'', ''data'', ''default'', ''depend'', ''sdq'', ''profile'', ''random'', ''roundrobin''}" for s
    using that by (intro input_other) (auto simp: cstr_def nul_char)
  from None p show ?thesis
    by (auto simp: record_target_def target_of_def loadable_policies_def brs_policy_string_def load_target_def n target_names_def
        cstr_def nul_char iris_policy_defs)
qed

lemma set_target_works:
  assumes "tk s u = Some t" "t_subtasks t = []" "\<not> t_df_scheduling t" "t_status t = IRIS_NONE" "target \<noteq> iris_custom" "target \<noteq> iris_pending"
  shows "\<exists>s'. set_target e u target s = Some (True, s') \<and> works u s s' \<and> tk s' u = Some (t\<lparr>t_brs_policy := target\<rparr>)"
proof -
  from on_task_works [OF assms(1), of "set_opt None"] obtain s1 where
    1: "on_task u (set_opt None) s = Some s1" "works u s s1" "tk s1 u = Some t" by (auto simp: set_opt_def)
  have p: "set_brs_policy1 target t = t\<lparr>t_brs_policy := target\<rparr>"
    using assms(4,6) by (auto simp: set_brs_policy1_def Let_def set_status_def iris_status_defs)
  have sp: "set_brs_policy target u (r_tasks (ld_rt s1)) = Some (TrackObject (r_tasks (ld_rt s1)) (t\<lparr>t_brs_policy := target\<rparr>) u)"
    using set_brs_policy_flat [OF 1(3) [unfolded tk_def] assms(2), of target] unfolding p if_not_P [OF assms(3)] .
  define s2 where "s2 = s1\<lparr>ld_rt := (ld_rt s1)\<lparr>r_tasks := TrackObject (r_tasks (ld_rt s1)) (t\<lparr>t_brs_policy := target\<rparr>) u\<rparr>\<rparr>"
  from 1(1) assms(5) sp have "set_target e u target s = Some (True, s2)"
    by (simp add: set_target_def proceed_def s2_def)
  moreover have w: "works u s1 s2 \<and> tk s2 u = Some (t\<lparr>t_brs_policy := target\<rparr>)" by (rule registry_works [OF s2_def])
  moreover have "works u s s2" by (rule works_trans [OF 1(2) conjunct1 [OF w]])
  ultimately show ?thesis by (intro exI [of _ s2]) (simp only: simp_thms)
qed

text \<open>The fields a command does not touch.\<close>

definition same_task :: "Task \<Rightarrow> Task \<Rightarrow> bool" where
  "same_task t t' \<longleftrightarrow> t_name t' = t_name t \<and> t_given_name t' = t_given_name t \<and> t_depends t' = t_depends t \<and>
     t_depends_max t' = t_depends_max t \<and> t_brs_policy t' = t_brs_policy t"

lemma AddCommand_same: "t_given_name t \<Longrightarrow> same_task t (AddCommand c k t) \<and> t_cmds (AddCommand c k t) = t_cmds t @ [c]"
  by (simp add: same_task_def AddCommand_def Let_def)

lemma add_command_works:
  assumes "tk s u = Some t" "t_given_name t" "cmd_recordable mems c" "cmd_named d c" "replays mems d params" "\<forall>m. mem_uid (mems m) = m"
  shows "\<exists>j s' t' c'. cmd_json d c = [j] \<and> add_command (replay_env d params) u j s = Some (True, s') \<and> works u s s' \<and> tk s' u = Some t' \<and>
    same_task t t' \<and> same_command c c' \<and> t_cmds t' = t_cmds t @ [c']"
proof -
  from load_command_json [OF assms(3-6), of "task_ref t" "r_uid (ld_rt s)"] obtain j c' k where
    j: "cmd_json d c = [j]" "load_command (replay_env d params) (task_ref t) (r_uid (ld_rt s)) j = Ok (c', k)" "same_command c c'" by blast
  define s1 where "s1 = (case k of None \<Rightarrow> s
    | Some k \<Rightarrow> s\<lparr>ld_kernels := ld_kernels s @ [k], ld_rt := (ld_rt s)\<lparr>r_uid := snd (iris_create_new_uid (r_uid (ld_rt s)))\<rparr>\<rparr>)"
  have 1: "works u s s1" "tk s1 u = Some t"
    using assms(1) by (auto simp: s1_def works_def tk_def iris_create_new_uid_def Let_def split: option.splits)
  let ?f = "AddCommand c' (case k of None \<Rightarrow> [] | Some k \<Rightarrow> kname k)"
  from on_task_works [OF 1(2), of ?f] obtain s2 where 2: "on_task u ?f s1 = Some s2" "works u s1 s2" "tk s2 u = Some (?f t)" by blast
  have "add_command (replay_env d params) u j s = Some (True, s2)"
    using assms(1) j(2) 2(1) by (simp add: add_command_def tk_def proceed_def s1_def [symmetric])
  with j 2 AddCommand_same [OF assms(2), of c' "case k of None \<Rightarrow> [] | Some k \<Rightarrow> kname k"] works_trans [OF 1(1) 2(2)] show ?thesis by blast
qed

lemma same_task_trans: "same_task a b \<Longrightarrow> same_task b c \<Longrightarrow> same_task a c"
  by (simp add: same_task_def)

lemma commands_work:
  assumes "tk s u = Some t" "t_given_name t" "list_all (cmd_recordable mems) cs" "list_all (cmd_named d) cs" "replays mems d params"
    "\<forall>m. mem_uid (mems m) = m"
  shows "\<exists>s' t' cs'. steps (add_command (replay_env d params) u) (concat (map (cmd_json d) cs)) s = Some (True, s') \<and> works u s s' \<and>
    tk s' u = Some t' \<and> same_task t t' \<and> list_all2 same_command cs cs' \<and> t_cmds t' = t_cmds t @ cs'"
  using assms(1-4)
proof (induction cs arbitrary: s t)
  case (Cons c cs)
  from Cons.prems add_command_works [OF Cons.prems(1,2) _ _ assms(5,6), of c] obtain j s1 t1 c' where
    1: "cmd_json d c = [j]" "add_command (replay_env d params) u j s = Some (True, s1)" "works u s s1" "tk s1 u = Some t1"
    "same_task t t1" "same_command c c'" "t_cmds t1 = t_cmds t @ [c']" by auto
  from 1(5) Cons.prems(2) have "t_given_name t1" by (simp add: same_task_def)
  from Cons.IH [OF 1(4) this] Cons.prems(3,4) obtain s2 t2 cs' where
    2: "steps (add_command (replay_env d params) u) (concat (map (cmd_json d) cs)) s1 = Some (True, s2)" "works u s1 s2"
    "tk s2 u = Some t2" "same_task t1 t2" "list_all2 same_command cs cs'" "t_cmds t2 = t_cmds t1 @ cs'" by auto
  from 1 2 works_trans [OF 1(3) 2(2)] same_task_trans [OF 1(5) 2(4)] show ?case
    by (intro exI [of _ s2] exI [of _ t2] exI [of _ "c' # cs'"]) simp
qed (auto simp: same_task_def)

section \<open>Dependencies\<close>

text \<open>\<open>found s name v\<close>: the dependency \<open>name\<close> means the one task \<open>v\<close>.\<close>

definition found :: "loader \<Rightarrow> string \<Rightarrow> uid \<Rightarrow> bool" where
  "found s name v \<longleftrightarrow> named_tasks s name = [v]"

lemma found_works:
  assumes "works u s s'" "tk s u = Some t" "tk s' u = Some t'" "t_name t' = t_name t" "found s name v"
  shows "found s' name v"
proof -
  have "(case tk s' w of None \<Rightarrow> False | Some t \<Rightarrow> cstr (t_name t) = cstr name) = (case tk s w of None \<Rightarrow> False | Some t \<Rightarrow> cstr (t_name t) = cstr name)" for w
    using assms(1-4) by (cases "w = u") (auto simp: works_def)
  with assms(1,5) show ?thesis by (simp add: found_def named_tasks_def works_def tk_def)
qed

definition deps_only :: "Task \<Rightarrow> Task \<Rightarrow> bool" where
  "deps_only t t' \<longleftrightarrow> t_name t' = t_name t \<and> t_given_name t' = t_given_name t \<and> t_cmds t' = t_cmds t \<and>
     t_subtasks t' = t_subtasks t \<and> t_df_scheduling t' = t_df_scheduling t \<and> t_status t' = t_status t"

lemma deps_only_trans: "deps_only a b \<Longrightarrow> deps_only b c \<Longrightarrow> deps_only a c"
  by (simp add: deps_only_def)

lemma load_depend_works:
  assumes "tk s u = Some t" "found s name v" "uid_array_ok (t_depends t, t_depends_max t)" "\<not> enable_proactive (r_flags (ld_rt s))" "v \<notin> set (depend_uids t)"
  shows "\<exists>s' t'. load_depend u (JString name) s = Some (True, s') \<and> works u s s' \<and> tk s' u = Some t' \<and> uid_array_ok (t_depends t', t_depends_max t') \<and>
    depend_uids t' = depend_uids t @ [v] \<and> deps_only t t'"
proof -
  from AddDepend_eq [OF assms(1) [unfolded tk_def] assms(3,4), of v] obtain cap where
    c: "uid_array_ok (Some (push_unique v (depend_uids t)), cap)"
    "AddDepend (r_flags (ld_rt s)) u v (r_tasks (ld_rt s)) = Some (TrackObject (r_tasks (ld_rt s))
      (t\<lparr>t_depends := Some (push_unique v (depend_uids t)), t_depends_max := cap\<rparr>) u)"
    by blast
  let ?t = "t\<lparr>t_depends := Some (push_unique v (depend_uids t)), t_depends_max := cap\<rparr>"
  define s' where "s' = s\<lparr>ld_rt := (ld_rt s)\<lparr>r_tasks := TrackObject (r_tasks (ld_rt s)) ?t u\<rparr>\<rparr>"
  have "load_depend u (JString name) s = Some (True, s')"
    by (simp only: load_depend_def json.case assms(2) [unfolded found_def] AddDepends.simps bind.bind_lunit c(2) option.map s'_def)
  moreover from c(1) have "uid_array_ok (t_depends ?t, t_depends_max ?t)" by simp
  moreover have "depend_uids ?t = depend_uids t @ [v]" using assms(5) by (simp add: push_unique_def depend_uids_def)
  moreover have "deps_only t ?t" by (simp add: deps_only_def)
  moreover have "works u s s' \<and> tk s' u = Some ?t" by (rule registry_works [OF s'_def])
  ultimately show ?thesis by (intro exI [of _ s'] exI [of _ ?t]) (simp only: simp_thms)
qed

lemma depends_work:
  assumes "tk s u = Some t" "list_all2 (found s) names vs" "uid_array_ok (t_depends t, t_depends_max t)"
    "\<not> enable_proactive (r_flags (ld_rt s))" "distinct (depend_uids t @ vs)"
  shows "\<exists>s' t'. steps (load_depend u) (map JString names) s = Some (True, s') \<and> works u s s' \<and> tk s' u = Some t' \<and>
    uid_array_ok (t_depends t', t_depends_max t') \<and> depend_uids t' = depend_uids t @ vs \<and> deps_only t t'"
  using assms
proof (induction names arbitrary: s t vs)
  case (Cons name names)
  then obtain v vs' where v: "vs = v # vs'" "found s name v" "list_all2 (found s) names vs'" by (auto simp: list_all2_Cons1)
  with Cons.prems(5) have "v \<notin> set (depend_uids t)" by auto
  from load_depend_works [OF Cons.prems(1) v(2) Cons.prems(3,4) this] obtain s1 t1 where
    1: "load_depend u (JString name) s = Some (True, s1)" "works u s s1" "tk s1 u = Some t1" "uid_array_ok (t_depends t1, t_depends_max t1)"
    "depend_uids t1 = depend_uids t @ [v]" "deps_only t t1" by blast
  from 1(6) have "t_name t1 = t_name t" by (simp add: deps_only_def)
  then have "list_all2 (found s1) names vs'"
    using v(3) found_works [OF 1(2) Cons.prems(1) 1(3)] by (auto elim: list_all2_mono)
  moreover have "\<not> enable_proactive (r_flags (ld_rt s1))" using 1(2) Cons.prems(4) by (simp add: works_def)
  moreover have "distinct (depend_uids t1 @ vs')" using 1(5) Cons.prems(5) v(1) by simp
  ultimately obtain s2 t2 where 2: "steps (load_depend u) (map JString names) s1 = Some (True, s2)" "works u s1 s2" "tk s2 u = Some t2"
    "uid_array_ok (t_depends t2, t_depends_max t2)" "depend_uids t2 = depend_uids t1 @ vs'" "deps_only t1 t2"
    using Cons.IH [OF 1(3) _ 1(4)] by blast
  with 1 v(1) works_trans [OF 1(2) 2(2)] deps_only_trans [OF 1(6) 2(6)] show ?case by (intro exI [of _ s2] exI [of _ t2]) simp
qed (auto simp: deps_only_def)

section \<open>One task\<close>

text \<open>The task of number \<open>n\<close> of the recording became the task of number \<open>n\<close> of the graph.\<close>

definition loaded_as :: "uid list \<Rightarrow> uid list \<Rightarrow> Task \<Rightarrow> Task \<Rightarrow> bool" where
  "loaded_as us ls t t' \<longleftrightarrow> t_name t' = t_name t \<and> list_all2 same_command (t_cmds t) (t_cmds t') \<and> t_brs_policy t' = target_of t \<and>
     depend_uids t' = map (\<lambda>d. ls ! idx us d) (depend_uids t)"

definition recording_ok :: "(uid \<Rightarrow> BaseMemRef) \<Rightarrow> tasks \<Rightarrow> uid list \<Rightarrow> bool" where
  "recording_ok mems h us \<longleftrightarrow>
     list_all (\<lambda>u. case GetObject h u of None \<Rightarrow> False | Some t \<Rightarrow> task_recordable mems t \<and> distinct (depend_uids t)) us \<and>
     distinct (map (\<lambda>u. t_name (the (GetObject h u))) us) \<and>
     list_all (\<lambda>i. list_all (\<lambda>d. d \<in> set (take i us)) (depend_uids (the (GetObject h (us ! i))))) [0..<length us]"

definition ld_inv :: "tasks \<Rightarrow> uid list \<Rightarrow> nat \<Rightarrow> loader \<Rightarrow> bool" where
  "ld_inv h us n s \<longleftrightarrow> \<not> enable_proactive (r_flags (ld_rt s)) \<and> (\<forall>v. tk s v \<noteq> None \<longrightarrow> v \<le> r_uid (ld_rt s)) \<and>
     (\<exists>e. tk s (gr_end (ld_graph s)) = Some e \<and> uid_array_ok (t_depends e, t_depends_max e)) \<and>
     gr_end (ld_graph s) \<notin> set (ld_tasks s) \<and> length (ld_tasks s) = n \<and> distinct (ld_tasks s) \<and>
     (\<forall>i < n. \<exists>t'. tk s (ld_tasks s ! i) = Some t' \<and> loaded_as us (ld_tasks s) (the (GetObject h (us ! i))) t')"

lemma filter_unique:
  assumes "k < length xs" "P (xs ! k)" "\<And>i. i < length xs \<Longrightarrow> i \<noteq> k \<Longrightarrow> \<not> P (xs ! i)"
  shows "filter P xs = [xs ! k]"
proof -
  have xs: "xs = take k xs @ xs ! k # drop (Suc k) xs" using assms(1) by (rule id_take_nth_drop)
  have "filter P (take k xs) = []" using assms by (auto simp: filter_empty_conv in_set_conv_nth)
  moreover have "filter P (drop (Suc k) xs) = []" using assms(1) assms(3) [of "Suc k + i" for i] by (auto simp: filter_empty_conv in_set_conv_nth)
  ultimately show ?thesis using assms(2) by (subst xs) simp
qed

lemma new_task_works:
  assumes "new_task junk s = (s', u)"
  shows "u = Suc (r_uid (ld_rt s))" "tk s' u = Some (Task_new (r_flags (ld_rt s)) u IRIS_TASK_PERM None junk)"
    "ld_tasks s' = ld_tasks s @ [u]" "ld_graph s' = ld_graph s" "r_flags (ld_rt s') = r_flags (ld_rt s)" "r_uid (ld_rt s') = u"
    "v \<noteq> u \<Longrightarrow> tk s' v = tk s v"
  using assms by (auto simp: new_task_def Task_Create_def iris_create_new_uid_def Let_def tk_def iris_simps)

definition same_content :: "Task \<Rightarrow> Task \<Rightarrow> bool" where
  "same_content t t' \<longleftrightarrow> t_name t' = t_name t \<and> t_cmds t' = t_cmds t \<and> t_brs_policy t' = t_brs_policy t \<and> t_depends t' = t_depends t"

lemma graph_add_works:
  assumes "tk s u = Some t" "tk s (gr_end (ld_graph s)) = Some e" "gr_end (ld_graph s) \<noteq> u" "uid_array_ok (t_depends e, t_depends_max e)"
    "\<not> enable_proactive (r_flags (ld_rt s))"
  shows "\<exists>s' t' e'. graph_add u s = Some (True, s') \<and> tk s' u = Some t' \<and> same_content t t' \<and>
    (\<forall>v. v \<noteq> u \<longrightarrow> v \<noteq> gr_end (ld_graph s) \<longrightarrow> tk s' v = tk s v) \<and> tk s' (gr_end (ld_graph s)) = Some e' \<and>
    uid_array_ok (t_depends e', t_depends_max e') \<and> ld_tasks s' = ld_tasks s \<and> r_flags (ld_rt s') = r_flags (ld_rt s) \<and>
    r_uid (ld_rt s') = r_uid (ld_rt s) \<and> gr_end (ld_graph s') = gr_end (ld_graph s)"
proof -
  let ?e = "gr_end (ld_graph s)" and ?r = "ld_rt s"
  obtain t1 where t1: "(if gr_retain_tasks (ld_graph s) then retain_task u ?r else Some ?r) =
      Some (?r\<lparr>r_tasks := TrackObject (r_tasks ?r) t1 u\<rparr>)" "same_content t t1"
  proof (cases "gr_retain_tasks (ld_graph s) \<and> is_release t")
    case True
    then show ?thesis using assms(1) that [of "DisableRelease (Retain t)"]
      by (simp add: retain_task_def tk_def rt_at_def at_object_def same_content_def DisableRelease_def Retain_def)
  next
    case False
    have "?r\<lparr>r_tasks := TrackObject (r_tasks ?r) t u\<rparr> = ?r" using assms(1) by (simp add: tk_def)
    with False show ?thesis using assms(1) that [of t] by (auto simp: retain_task_def tk_def same_content_def)
  qed
  let ?h = "TrackObject (r_tasks ?r) t1 u"
  have "GetObject ?h ?e = Some e" using assms(2,3) by (simp add: tk_def iris_simps)
  from AddDepend_eq [OF this assms(4,5), of u] obtain cap where
    d: "uid_array_ok (Some (push_unique u (depend_uids e)), cap)" "AddDepend (r_flags ?r) ?e u ?h =
      Some (TrackObject ?h (e\<lparr>t_depends := Some (push_unique u (depend_uids e)), t_depends_max := cap\<rparr>) ?e)" by blast
  define e' where "e' = e\<lparr>t_depends := Some (push_unique u (depend_uids e)), t_depends_max := cap\<rparr>"
  define s' where "s' = s\<lparr>ld_graph := (ld_graph s)\<lparr>gr_tasks := gr_tasks (ld_graph s) @ [u]\<rparr>, ld_rt := ?r\<lparr>r_tasks := TrackObject ?h e' ?e\<rparr>\<rparr>"
  have "graph_add u s = Some (True, s')"
    unfolding graph_add_def AddTask_def t1(1) using d(2) by (simp add: s'_def e'_def)
  moreover have "tk s' u = Some t1" "tk s' ?e = Some e'" "\<forall>v. v \<noteq> u \<longrightarrow> v \<noteq> ?e \<longrightarrow> tk s' v = tk s v"
    using assms(3) by (simp_all add: tk_def s'_def iris_simps)
  moreover have "uid_array_ok (t_depends e', t_depends_max e')" using d(1) by (simp add: e'_def)
  moreover have "ld_tasks s' = ld_tasks s" "r_flags (ld_rt s') = r_flags ?r" "r_uid (ld_rt s') = r_uid ?r" "gr_end (ld_graph s') = ?e"
    by (simp_all add: s'_def)
  ultimately show ?thesis using t1(2) by blast
qed

definition rec_task :: "tasks \<Rightarrow> uid list \<Rightarrow> nat \<Rightarrow> Task" where
  "rec_task h us i = the (GetObject h (us ! i))"

lemma recording_okD:
  assumes "recording_ok mems h us" "i < length us"
  shows "GetObject h (us ! i) = Some (rec_task h us i)" "task_recordable mems (rec_task h us i)" "distinct (depend_uids (rec_task h us i))"
    "d \<in> set (depend_uids (rec_task h us i)) \<Longrightarrow> d \<in> set (take i us)"
    "j < length us \<Longrightarrow> i \<noteq> j \<Longrightarrow> t_name (rec_task h us i) \<noteq> t_name (rec_task h us j)"
proof -
  from assms have a: "case GetObject h (us ! i) of None \<Rightarrow> False | Some t \<Rightarrow> task_recordable mems t \<and> distinct (depend_uids t)"
    by (simp add: recording_ok_def list_all_length)
  then show "GetObject h (us ! i) = Some (rec_task h us i)" "task_recordable mems (rec_task h us i)" "distinct (depend_uids (rec_task h us i))"
    by (auto simp: rec_task_def split: option.splits)
  from assms show "d \<in> set (depend_uids (rec_task h us i)) \<Longrightarrow> d \<in> set (take i us)"
    by (auto simp: recording_ok_def list_all_iff rec_task_def)
  from assms have "distinct (map (\<lambda>u. t_name (the (GetObject h u))) us)" by (simp add: recording_ok_def)
  then show "j < length us \<Longrightarrow> i \<noteq> j \<Longrightarrow> t_name (rec_task h us i) \<noteq> t_name (rec_task h us j)"
    using assms(2) by (auto simp: distinct_conv_nth rec_task_def)
qed

lemma recording_distinct: "recording_ok mems h us \<Longrightarrow> distinct us"
  by (auto simp: recording_ok_def distinct_map)

lemma ld_inv_task:
  assumes "ld_inv h us n s" "i < n"
  shows "\<exists>t'. tk s (ld_tasks s ! i) = Some t' \<and> loaded_as us (ld_tasks s) (rec_task h us i) t'"
  using assms unfolding ld_inv_def rec_task_def by blast

text \<open>A dependency of task \<open>n\<close> is the task of a smaller number.\<close>

lemma dependency_number:
  assumes "recording_ok mems h us" "n < length us" "d \<in> set (depend_uids (rec_task h us n))"
  shows "idx us d < n" "us ! idx us d = d"
proof -
  from recording_okD(4) [OF assms] obtain k where k: "k < n" "us ! k = d" using assms(2) by (auto simp: in_set_conv_nth)
  with assms(2) have "d \<in> set us" by auto
  from idx_nth [OF this] have i: "idx us d < length us" "us ! idx us d = d" by auto
  with k assms(2) nth_eq_iff_index_eq [OF recording_distinct [OF assms(1)], of "idx us d" k] show "idx us d < n" "us ! idx us d = d" by auto
qed

lemma record_depends_names:
  assumes "recording_ok mems h us" "n < length us"
  shows "record_depends h (rec_task h us n) = map JString (map (\<lambda>d. t_name (rec_task h us (idx us d))) (depend_uids (rec_task h us n)))"
proof -
  have "(case GetObject h d of None \<Rightarrow> [] | Some p \<Rightarrow> [JString (cstr (t_name p))]) = [JString (t_name (rec_task h us (idx us d)))]"
    if "d \<in> set (depend_uids (rec_task h us n))" for d
  proof -
    from dependency_number [OF assms that] assms(2) have i: "idx us d < length us" "us ! idx us d = d" by auto
    from recording_okD(1,2) [OF assms(1) i(1)] i(2) show ?thesis by (simp add: task_recordable_def)
  qed
  then show ?thesis unfolding record_depends_def by (induction "depend_uids (rec_task h us n)") (auto cong: map_cong simp: concat_map_singleton)
qed

lemma found_prior:
  assumes "recording_ok mems h us" "n < length us" "ld_inv h us n s" "new_task junk s = (s1, u)" "works u s1 s2" "tk s2 u = Some t2"
    "t_name t2 = t_name (rec_task h us n)" "k < n"
  shows "found s2 (t_name (rec_task h us k)) (ld_tasks s ! k)"
proof -
  note new = new_task_works [OF assms(4)]
  let ?ls = "ld_tasks s" and ?name = "\<lambda>i. t_name (rec_task h us i)"
  from assms(3) have l: "length ?ls = n" by (simp add: ld_inv_def)
  have c: "cstr (?name i) = ?name i" if "i < length us" for i using recording_okD(2) [OF assms(1) that] by (simp add: task_recordable_def)
  have t: "\<exists>t'. tk s2 ((?ls @ [u]) ! i) = Some t' \<and> t_name t' = ?name i" if i: "i \<le> n" for i
  proof (cases "i = n")
    case True
    with l assms(6,7) show ?thesis by (simp add: nth_append)
  next
    case False
    with i have "i < n" by simp
    from ld_inv_task [OF assms(3) this] obtain t' where t': "tk s (?ls ! i) = Some t'" "t_name t' = ?name i"
      by (auto simp: loaded_as_def)
    from assms(3) t'(1) have "?ls ! i \<le> r_uid (ld_rt s)" unfolding ld_inv_def by blast
    then have "?ls ! i \<noteq> u" using new(1) by simp
    with t' new(7) assms(5) False i l show ?thesis by (simp add: works_def nth_append)
  qed
  have "ld_tasks s2 = ?ls @ [u]" using assms(5) new(3) by (simp add: works_def)
  moreover have "filter (\<lambda>v. case tk s2 v of None \<Rightarrow> False | Some t \<Rightarrow> cstr (t_name t) = cstr (?name k)) (?ls @ [u]) = [(?ls @ [u]) ! k]"
  proof (rule filter_unique)
    show "k < length (?ls @ [u])" using assms(8) l by simp
    show "case tk s2 ((?ls @ [u]) ! k) of None \<Rightarrow> False | Some t \<Rightarrow> cstr (t_name t) = cstr (?name k)" using t [of k] assms(8) by auto
    fix i assume i: "i < length (?ls @ [u])" "i \<noteq> k"
    with l assms(2,8) have "i < length us" "k < length us" by auto
    with t [of i] i l c [of i] c [of k] recording_okD(5) [OF assms(1), of i k]
    show "\<not> (case tk s2 ((?ls @ [u]) ! i) of None \<Rightarrow> False | Some t \<Rightarrow> cstr (t_name t) = cstr (?name k))" by auto
  qed
  ultimately show ?thesis using assms(8) l by (simp add: found_def named_tasks_def tk_def nth_append)
qed

lemma stages_work:
  assumes "recording_ok mems h us" "n < length us" "ld_inv h us n s" "new_task junk s = (s1, u)" "task_named d (rec_task h us n)"
    "replays mems d params" "\<forall>m. mem_uid (mems m) = m"
  shows "\<exists>s5 t5. load_task (replay_env d params) junk (task_json h d (rec_task h us n)) s = graph_add u s5 \<and> works u s1 s5 \<and>
    tk s5 u = Some t5 \<and> loaded_as us (ld_tasks s) (rec_task h us n) t5"
proof -
  let ?t = "rec_task h us n" and ?e = "replay_env d params" and ?T = "Task_new (r_flags (ld_rt s)) u IRIS_TASK_PERM None junk"
  let ?names = "map (\<lambda>d. t_name (rec_task h us (idx us d))) (depend_uids ?t)" and ?vs = "map (\<lambda>d. ld_tasks s ! idx us d) (depend_uids ?t)"
  note new = new_task_works [OF assms(4)] and r = recording_okD [OF assms(1,2)]
  from r(2) have tr: "cstr (t_name ?t) = t_name ?t" "list_all (cmd_recordable mems) (t_cmds ?t)" by (auto simp: task_recordable_def)
  from on_task_works [OF new(2), of "set_name (t_name ?t)"] obtain s2 where
    2: "on_task u (set_name (t_name ?t)) s1 = Some s2" "works u s1 s2" "tk s2 u = Some (set_name (t_name ?t) ?T)" by blast
  have name: "load_name_of_task (task_json h d ?t) u s1 = Some (True, s2)"
    using 2(1) tr(1) by (simp add: load_name_of_task_def task_json_def need_string_def need_def of_option_def proceed_def)
  have dep0: "depend_uids (set_name (t_name ?t) ?T) = []" by (simp add: set_name_def depend_uids_def)
  have "list_all2 (found s2) ?names ?vs"
    using found_prior [OF assms(1-4) 2(2,3)] dependency_number [OF assms(1,2)] by (simp add: list_all2_conv_all_nth set_name_def)
  moreover have "distinct (depend_uids (set_name (t_name ?t) ?T) @ ?vs)"
  proof -
    from assms(3) have "distinct (ld_tasks s)" "length (ld_tasks s) = n" by (auto simp: ld_inv_def)
    then show ?thesis using r(3) dependency_number [OF assms(1,2)] dep0
      by (simp add: distinct_map inj_on_def nth_eq_iff_index_eq) metis
  qed
  moreover have "\<not> enable_proactive (r_flags (ld_rt s2))" using assms(3) new(5) 2(2) by (simp add: ld_inv_def works_def)
  moreover have "uid_array_ok (t_depends (set_name (t_name ?t) ?T), t_depends_max (set_name (t_name ?t) ?T))"
    by (simp add: uid_array_ok_def set_name_def)
  ultimately obtain s3 t3 where 3: "steps (load_depend u) (map JString ?names) s2 = Some (True, s3)" "works u s2 s3" "tk s3 u = Some t3"
    "depend_uids t3 = ?vs" "deps_only (set_name (t_name ?t) ?T) t3"
    using depends_work [OF 2(3)] dep0 by (metis append_Nil)
  have deps: "proceed (need_array (task_json h d ?t) ''depends'') s2 (\<lambda>ds. steps (load_depend u) ds s2) = Some (True, s3)"
    using 3(1) record_depends_names [OF assms(1,2)] by (simp add: task_json_def need_array_def need_def of_option_def proceed_def)
  from 3(5) have t3: "t_name t3 = t_name ?t" "t_given_name t3" "t_cmds t3 = []" "t_subtasks t3 = []" "\<not> t_df_scheduling t3" "t_status t3 = IRIS_NONE"
    by (auto simp: deps_only_def set_name_def)
  note target = load_target_json [OF r(2), of d params]
  from set_target_works [OF 3(3) t3(4-6), of "target_of ?t" ?e] target obtain s4 where
    4: "set_target ?e u (target_of ?t) s3 = Some (True, s4)" "works u s3 s4" "tk s4 u = Some (t3\<lparr>t_brs_policy := target_of ?t\<rparr>)" by blast
  have tgt: "proceed (andThen (need (task_json h d ?t) ''target'') (load_target ?e)) s3 (\<lambda>target. set_target ?e u target s3) = Some (True, s4)"
    using 4(1) target by (simp add: task_json_def need_def of_option_def proceed_def)
  have "t_given_name (t3\<lparr>t_brs_policy := target_of ?t\<rparr>)" using t3(2) by simp
  from commands_work [OF 4(3) this tr(2) assms(5) [unfolded task_named_def] assms(6,7)] obtain s5 t5 cs' where
    5: "steps (add_command ?e u) (concat (map (cmd_json d) (t_cmds ?t))) s4 = Some (True, s5)" "works u s4 s5" "tk s5 u = Some t5"
    "same_task (t3\<lparr>t_brs_policy := target_of ?t\<rparr>) t5" "list_all2 same_command (t_cmds ?t) cs'"
    "t_cmds t5 = t_cmds (t3\<lparr>t_brs_policy := target_of ?t\<rparr>) @ cs'" by blast
  have cmds: "proceed (need_array (task_json h d ?t) ''commands'') s4 (\<lambda>cs. steps (add_command ?e u) cs s4) = Some (True, s5)"
    using 5(1) by (simp add: task_json_def need_array_def need_def of_option_def proceed_def)
  have "field (task_json h d ?t) ''commands'' = Ok (Some (JArray (concat (map (cmd_json d) (t_cmds ?t)))))" by (simp add: task_json_def)
  then have "load_task ?e junk (task_json h d ?t) s = graph_add u s5"
    by (simp add: load_task_def assms(4) seq_steps_def name deps tgt cmds)
  moreover have "works u s1 s5" using 2(2) 3(2) 4(2) 5(2) works_trans by blast
  moreover have "loaded_as us (ld_tasks s) ?t t5"
    using 5(4-6) t3 3(4) by (simp add: loaded_as_def same_task_def depend_uids_def)
  ultimately show ?thesis using 5(3) by blast
qed

section \<open>All tasks\<close>

lemma loaded_as_append:
  assumes "recording_ok mems h us" "i < length us" "i \<le> length ls" "loaded_as us ls (rec_task h us i) t" "same_content t t'"
  shows "loaded_as us (ls @ [u]) (rec_task h us i) t'"
proof -
  have "(ls @ [u]) ! idx us d = ls ! idx us d" if "d \<in> set (depend_uids (rec_task h us i))" for d
    using dependency_number [OF assms(1,2) that] assms(3) by (simp add: nth_append)
  with assms(4,5) show ?thesis by (simp add: loaded_as_def same_content_def depend_uids_def cong: map_cong)
qed

lemma load_task_works:
  assumes "recording_ok mems h us" "n < length us" "ld_inv h us n s" "task_named d (rec_task h us n)"
    "replays mems d params" "\<forall>m. mem_uid (mems m) = m"
  shows "\<exists>s'. load_task (replay_env d params) junk (task_json h d (rec_task h us n)) s = Some (True, s') \<and> ld_inv h us (Suc n) s'"
proof -
  obtain s1 u where nt: "new_task junk s = (s1, u)" by fastforce
  note new = new_task_works [OF nt]
  from stages_work [OF assms(1-3) nt assms(4-6)] obtain s5 t5 where
    5: "load_task (replay_env d params) junk (task_json h d (rec_task h us n)) s = graph_add u s5" "works u s1 s5" "tk s5 u = Some t5"
    "loaded_as us (ld_tasks s) (rec_task h us n) t5" by blast
  let ?e = "gr_end (ld_graph s)"
  from assms(3) obtain e where inv: "\<not> enable_proactive (r_flags (ld_rt s))" "\<And>v. tk s v \<noteq> None \<Longrightarrow> v \<le> r_uid (ld_rt s)" "tk s ?e = Some e"
    "uid_array_ok (t_depends e, t_depends_max e)" "?e \<notin> set (ld_tasks s)" "length (ld_tasks s) = n" "distinct (ld_tasks s)"
    unfolding ld_inv_def by blast
  have eu: "?e \<noteq> u" "\<And>v. v \<in> set (ld_tasks s) \<Longrightarrow> v \<noteq> u"
  proof -
    show "?e \<noteq> u" using inv(2) [of ?e] inv(3) new(1) by auto
    fix v assume "v \<in> set (ld_tasks s)"
    then obtain i where "i < n" "v = ld_tasks s ! i" using inv(6) by (auto simp: in_set_conv_nth)
    with ld_inv_task [OF assms(3), of i] have "tk s v \<noteq> None" by auto
    then show "v \<noteq> u" using inv(2) [of v] new(1) by auto
  qed
  have s5: "gr_end (ld_graph s5) = ?e" "tk s5 ?e = Some e" "\<not> enable_proactive (r_flags (ld_rt s5))" "ld_tasks s5 = ld_tasks s @ [u]"
    "\<And>v. v \<noteq> u \<Longrightarrow> tk s5 v = tk s v" "u \<le> r_uid (ld_rt s5)"
    using 5(2) new inv(1,3) eu(1) by (simp_all add: works_def)
  from graph_add_works [OF 5(3), of e] s5(1-3) eu(1) inv(4) obtain s' t' e' where
    6: "graph_add u s5 = Some (True, s')" "tk s' u = Some t'" "same_content t5 t'" "\<And>v. v \<noteq> u \<Longrightarrow> v \<noteq> ?e \<Longrightarrow> tk s' v = tk s5 v"
    "tk s' ?e = Some e'" "uid_array_ok (t_depends e', t_depends_max e')" "ld_tasks s' = ld_tasks s5" "r_flags (ld_rt s') = r_flags (ld_rt s5)"
    "r_uid (ld_rt s') = r_uid (ld_rt s5)" "gr_end (ld_graph s') = ?e"
    by auto
  have old: "tk s' v = tk s v" if "v \<noteq> u" "v \<noteq> ?e" for v using that 6(4) s5(5) by simp
  have "\<exists>t'. tk s' (ld_tasks s' ! i) = Some t' \<and> loaded_as us (ld_tasks s') (rec_task h us i) t'" if i: "i < Suc n" for i
  proof (cases "i = n")
    case True
    with 6(2,7) s5(4) inv(6) loaded_as_append [OF assms(1,2) _ 5(4) 6(3)] show ?thesis by (simp add: nth_append)
  next
    case False
    with i have n: "i < n" by simp
    from ld_inv_task [OF assms(3) n] obtain ti where ti: "tk s (ld_tasks s ! i) = Some ti" "loaded_as us (ld_tasks s) (rec_task h us i) ti" by blast
    have "ld_tasks s ! i \<in> set (ld_tasks s)" using n inv(6) by simp
    with inv(5) have "ld_tasks s ! i \<noteq> u" "ld_tasks s ! i \<noteq> ?e" using eu(2) by metis+
    with ti(1) have "tk s' (ld_tasks s ! i) = Some ti" using old by simp
    moreover have "loaded_as us (ld_tasks s @ [u]) (rec_task h us i) ti"
      by (rule loaded_as_append [OF assms(1) _ _ ti(2)]) (use n assms(2) inv(6) in \<open>auto simp: same_content_def\<close>)
    ultimately show ?thesis using 6(7) s5(4) n inv(6) by (simp add: nth_append)
  qed
  moreover have "v \<le> r_uid (ld_rt s')" if "tk s' v \<noteq> None" for v
  proof (cases "v = u")
    case False
    then have "tk s v \<noteq> None" using that old [of v] inv(3) by (cases "v = ?e") auto
    then show ?thesis using inv(2) [of v] new(1) s5(6) 6(9) by simp
  qed (use s5(6) 6(9) in simp)
  moreover have "distinct (ld_tasks s')" "?e \<notin> set (ld_tasks s')" "length (ld_tasks s') = Suc n"
    using 6(7) s5(4) inv(5-7) eu by auto
  ultimately have "ld_inv h us (Suc n) s'"
    unfolding ld_inv_def rec_task_def [symmetric] using 6(5,6,8,10) s5(3) by auto
  with 5(1) 6(1) show ?thesis by auto
qed

lemma load_tasks_work:
  assumes "recording_ok mems h us" "\<forall>u \<in> set us. task_named d (the (GetObject h u))" "replays mems d params" "\<forall>m. mem_uid (mems m) = m"
    "ld_inv h us n s" "n \<le> length us"
  shows "\<exists>s'. steps (load_task (replay_env d params) junk) (map (\<lambda>u. task_json h d (the (GetObject h u))) (drop n us)) s = Some (True, s') \<and>
    ld_inv h us (length us) s'"
  using assms(5,6)
proof (induction "length us - n" arbitrary: n s)
  case (Suc k)
  then have n: "n < length us" by simp
  then have "us ! n \<in> set us" by simp
  with assms(2) have named: "task_named d (rec_task h us n)" by (simp add: rec_task_def)
  from load_task_works [OF assms(1) n Suc.prems(1) named assms(3,4)] obtain s1 where
    1: "load_task (replay_env d params) junk (task_json h d (rec_task h us n)) s = Some (True, s1)" "ld_inv h us (Suc n) s1" by blast
  have "k = length us - Suc n" "Suc n \<le> length us" using Suc.hyps(2) n by simp_all
  from Suc.hyps(1) [OF this(1) 1(2) this(2)] obtain s2 where
    2: "steps (load_task (replay_env d params) junk) (map (\<lambda>u. task_json h d (the (GetObject h u))) (drop (Suc n) us)) s1 = Some (True, s2)"
    "ld_inv h us (length us) s2" by blast
  have "drop n us = us ! n # drop (Suc n) us" using n by (simp add: Cons_nth_drop_Suc)
  with 1(1) 2 show ?case by (simp add: rec_task_def)
qed simp

text \<open>What a load starts from: no proactive transfers, ids below the counter, a graph with its end task.\<close>

definition ready :: "loader \<Rightarrow> bool" where
  "ready s \<longleftrightarrow> \<not> enable_proactive (r_flags (ld_rt s)) \<and> (\<forall>v. tk s v \<noteq> None \<longrightarrow> v \<le> r_uid (ld_rt s)) \<and>
     (\<exists>e. tk s (gr_end (ld_graph s)) = Some e \<and> uid_array_ok (t_depends e, t_depends_max e))"


section \<open>Failures\<close>

text \<open>Every \<open>return IRIS_ERROR\<close> counts one failure, and nothing else does.\<close>

definition counts :: "(loader \<Rightarrow> loader steps) \<Rightarrow> bool" where
  "counts f \<longleftrightarrow> (\<forall>s b s'. f s = Some (b, s') \<longrightarrow> r_nfailures (ld_rt s') = r_nfailures (ld_rt s) + (if b then 0 else 1))"

named_theorems counting

lemma counts_failed [counting]: "counts failed"
  by (simp add: counts_def failed_def)

lemma counts_done [counting]: "counts (\<lambda>s. Some (True, s))"
  by (simp add: counts_def)

lemma counts_steps [counting]:
  assumes "\<And>x. counts (f x)"
  shows "counts (steps f xs)"
proof (induction xs)
  case (Cons x xs)
  with assms [of x] show ?case
    unfolding counts_def by (auto simp: bind_eq_Some_conv split: if_splits) (metis add.right_neutral)+
qed (simp add: counts_def)

lemma counts_seq [counting]: "counts f \<Longrightarrow> counts g \<Longrightarrow> counts (seq_steps f g)"
  unfolding counts_def seq_steps_def by (auto simp: bind_eq_Some_conv split: if_splits) (metis add.right_neutral)+

lemma counts_proceed [counting]: "(\<And>x. counts (f x)) \<Longrightarrow> counts (\<lambda>s. proceed (m s) s (\<lambda>x. f x s))"
  using counts_failed unfolding counts_def proceed_def by (auto split: outcome.splits)

lemma on_task_failures: "on_task u f s = Some s' \<Longrightarrow> r_nfailures (ld_rt s') = r_nfailures (ld_rt s)"
  by (auto simp: on_task_def rt_at_def)

lemma counts_name: "counts (load_name_of_task j u)"
  unfolding load_name_of_task_def by (rule counts_proceed) (auto simp: counts_def dest: on_task_failures)

lemma counts_depend: "counts (load_depend u v)"
  by (cases v) (auto simp: counts_def load_depend_def failed_def)

lemma counts_target: "counts (set_target e u target)"
  unfolding set_target_def by (rule counts_proceed) (auto simp: counts_def bind_eq_Some_conv dest: on_task_failures)

lemma counts_command: "counts (add_command e u j)"
proof -
  have "r_nfailures (ld_rt s') = r_nfailures (ld_rt s) + (if b then 0 else 1)" if a: "add_command e u j s = Some (b, s')" for s b s'
  proof -
    from a obtain t where t: "proceed (load_command e (task_ref t) (r_uid (ld_rt s)) j) s (\<lambda>(c, krn).
         let s = (case krn of None \<Rightarrow> s
                  | Some k \<Rightarrow> s\<lparr>ld_kernels := ld_kernels s @ [k],
                      ld_rt := (ld_rt s)\<lparr>r_uid := snd (iris_create_new_uid (r_uid (ld_rt s)))\<rparr>\<rparr>)
         in map_option (Pair True) (on_task u (AddCommand c (case krn of None \<Rightarrow> [] | Some k \<Rightarrow> kname k)) s)) = Some (b, s')"
      unfolding add_command_def bind_eq_Some_conv by blast
    show ?thesis
    proof (cases "load_command e (task_ref t) (r_uid (ld_rt s)) j")
      case (Ok ck)
      obtain c krn where "ck = (c, krn)" by fastforce
      with Ok t show ?thesis by (cases krn) (auto simp: proceed_def Let_def dest: on_task_failures)
    qed (use t in \<open>auto simp: proceed_def failed_def\<close>)
  qed
  then show ?thesis by (simp add: counts_def)
qed

lemma counts_graph: "counts (graph_add u)"
proof -
  have "r_nfailures r' = r_nfailures r" if "AddTask u g r = Some (g', r')" for g g' and r r' :: rt
    using that by (auto simp: AddTask_def retain_task_def rt_at_def bind_eq_Some_conv split: if_splits)
  then show ?thesis by (auto simp: counts_def graph_add_def)
qed

lemma counts_task: "counts (load_task e junk j)"
proof -
  have "r_nfailures (ld_rt s1) = r_nfailures (ld_rt s)" if "new_task junk s = (s1, u)" for s s1 u
    using that by (auto simp: new_task_def Task_Create_def iris_create_new_uid_def Let_def)
  moreover have "counts (seq_steps (load_name_of_task j u)
       (seq_steps (\<lambda>s. proceed (need_array j ''depends'') s (\<lambda>ds. steps (load_depend u) ds s))
       (seq_steps (\<lambda>s. proceed (andThen (need j ''target'') (load_target e)) s (\<lambda>target. set_target e u target s))
       (seq_steps (\<lambda>s. proceed (need_array j ''commands'') s (\<lambda>cs. steps (add_command e u) cs s))
         (graph_add u)))))" for u
    by (intro counting counts_name counts_depend counts_target counts_command counts_graph)
  ultimately show ?thesis
    unfolding counts_def load_task_def by (auto simp: bind_eq_Some_conv split: prod.splits)
qed

text \<open>C38. A load that reports \<open>IRIS_ERROR\<close> has counted exactly one failure of the platform, and one that reports success none; whatever the
  document, the parameters and the state are.\<close>

theorem load_failures:
  assumes "JSON_Load file path params junk s = Some (b, s')"
  shows "r_nfailures (ld_rt s') = r_nfailures (ld_rt s) + (if b then 0 else 1)"
proof -
  have "counts (\<lambda>s. proceed (graph_parts file) s (\<lambda>(inputs, ts). seq_steps (steps (load_task \<lparr>le_inputs = inputs, le_params = params\<rparr> junk) ts)
      (\<lambda>s. Some (True, s\<lparr>ld_url := Some path\<rparr>)) s))"
    unfolding case_prod_unfold by (intro counting counts_task) (simp add: counts_def)
  then have "r_nfailures (ld_rt s') = r_nfailures (ld_rt (s\<lparr>ld_tasks := []\<rparr>)) + (if b then 0 else 1)"
    using assms unfolding counts_def JSON_Load_def by blast
  then show ?thesis by simp
qed

section \<open>What a document cannot express\<close>

text \<open>A task whose name another task of the document has, and on which that one depends, depends on itself: \<open>Load\<close> looks for the name
  among all tasks so far, this one included. Kernels give an unnamed task their name, so two launches of one kernel have one.\<close>

lemma push_uid_set: "push_uid d (arr, cap) = Some (arr', cap') \<Longrightarrow>
  \<exists>ds. arr' = Some ds \<and> set ds = insert d (set (case arr of None \<Rightarrow> [] | Some ds \<Rightarrow> ds))"
  by (auto simp: push_uid_def Let_def split: if_splits option.splits)

lemma AddDepend_keeps:
  assumes "AddDepend pf u d h = Some h'" "GetObject h u = Some t" "\<not> enable_proactive pf"
  shows "\<exists>t'. GetObject h' u = Some t' \<and> set (depend_uids t') = insert d (set (depend_uids t)) \<and> t_status t' = t_status t"
proof -
  from assms obtain arr cap where p: "push_uid d (t_depends t, t_depends_max t) = Some (arr, cap)"
    "h' = TrackObject h (t\<lparr>t_depends := arr, t_depends_max := cap\<rparr>) u"
    unfolding AddDepend_def bind_eq_Some_conv by (auto simp: Let_def split: if_splits)
  with push_uid_set [OF p(1)] show ?thesis by (auto simp: iris_simps depend_uids_def)
qed

lemma AddDepends_keeps: "AddDepends pf u ds h = Some h' \<Longrightarrow> GetObject h u = Some t \<Longrightarrow> \<not> enable_proactive pf \<Longrightarrow>
  \<exists>t'. GetObject h' u = Some t' \<and> set ds \<union> set (depend_uids t) \<subseteq> set (depend_uids t') \<and> t_status t' = t_status t"
proof (induction ds arbitrary: h t)
  case (Cons d ds)
  from Cons.prems(1) obtain h1 where h1: "AddDepend pf u d h = Some h1" "AddDepends pf u ds h1 = Some h'" by (auto simp: bind_eq_Some_conv)
  from AddDepend_keeps [OF h1(1) Cons.prems(2,3)] obtain t1 where
    t1: "GetObject h1 u = Some t1" "set (depend_uids t1) = insert d (set (depend_uids t))" "t_status t1 = t_status t" by blast
  from Cons.IH [OF h1(2) t1(1) Cons.prems(3)] t1(2,3) show ?case by auto
qed auto

lemma same_name_waits_for_itself:
  assumes "load_depend u (JString name) s = Some (b, s')" "tk s u = Some t" "cstr (t_name t) = cstr name" "u \<in> set (ld_tasks s)"
    "t_status t = IRIS_NONE" "\<not> enable_proactive (r_flags (ld_rt s))"
  shows "\<exists>t'. tk s' u = Some t' \<and> u \<in> set (depend_uids t') \<and> \<not> Dispatchable (r_tasks (ld_rt s')) t'"
proof -
  from assms(2-4) have u: "u \<in> set (named_tasks s name)" by (simp add: named_tasks_def tk_def)
  from assms(1) obtain h' where h': "AddDepends (r_flags (ld_rt s)) u (named_tasks s name) (r_tasks (ld_rt s)) = Some h'"
    "r_tasks (ld_rt s') = h'" by (auto simp: load_depend_def)
  from AddDepends_keeps [OF h'(1) assms(2) [unfolded tk_def] assms(6)] u assms(5) h'(2) obtain t' where
    t': "tk s' u = Some t'" "u \<in> set (depend_uids t')" "t_status t' = IRIS_NONE" by (auto simp: tk_def)
  then have "\<not> Dispatchable (r_tasks (ld_rt s')) t'"
    unfolding Dispatchable_iff tk_def by (auto simp: dep_satisfied_iff iris_status_defs intro!: bexI [of _ u])
  with t' show ?thesis by blast
qed

text \<open>An offset or a size from \<open>2 ^ 31\<close> on is recorded, but the document is refused.\<close>

lemma large_transfer_refused:
  assumes "\<not> small (the (cmd_size c)) \<or> \<not> small (cmd_off c ! 0)" "the (cmd_host c) \<in> set (rc_hosts d)" "the (cmd_mem c) \<in> set (rc_mems d)"
    "replays mems d params"
  shows "load_h2d (replay_env d params) task (transfer_json d c) = Error"
  using assms(1) input_host [OF assms(4,2)] input_mem [OF assms(4,3)]
  by (cases "small (cmd_off c ! 0)")
     (auto simp: load_h2d_def need_string_def need_def of_option_def transfer_json_def load_size_large)

text \<open>The policies the recorder names are not all among those the loader knows: these two become the default policy.\<close>

lemma policy_forgotten:
  assumes "p = iris_pending \<or> p = iris_julia_policy"
  shows "load_target (replay_env d params) (JString (brs_policy_string p)) = Ok iris_default"
proof -
  have s: "brs_policy_string p = ''pending'' \<or> brs_policy_string p = ''julia_policy''"
    using assms by (auto simp: brs_policy_string_def iris_policy_defs)
  then have "GetParameterInput (replay_env d params) (brs_policy_string p) = Ok None"
    by (intro input_other) (auto simp: cstr_def nul_char)
  with s show ?thesis by (auto simp: load_target_def target_names_def cstr_def nul_char is_digit_def)
qed

text \<open>A task without a device whose policy has no name is left out of the document, and \<open>RecordFlush\<close> does not say so.\<close>

lemma unnamed_policy_dropped:
  assumes "t_dev t = None" "brs_policy_string (t_brs_policy t) = ''unknown''" "list_all (cmd_recordable mems) (t_cmds t)"
  shows "\<exists>c'. ProcessTask h t c = Some c' \<and> rc_output c' = rc_output c"
proof (cases "t_ncmds t = 0")
  case False
  from cmds.items assms(3) obtain ys c' where "record_all record_command (t_cmds t) c = Some (ys, c')" "rc_output c' = rc_output c"
    by (rule recordsE [where c = c])
  with False assms(1,2) show ?thesis by (simp add: ProcessTask_def record_target_def)
qed (simp add: ProcessTask_def)

text \<open>The output of a recorder can be written once: \<open>RecordFlush\<close> moves it into the document, and a recording made afterwards fails an
  assertion.\<close>

lemma second_recording_fails:
  assumes "record_document r0 c0 = Some (doc, c)" "GetObject (r_tasks r) u = Some t" "task_recordable mems t"
  shows "record_document r (c\<lparr>rc_tracked := [u]\<rparr>) = None"
proof -
  from assms(1) have o: "rc_output (c\<lparr>rc_tracked := [u]\<rparr>) = None" by (auto simp: record_document_def bind_eq_Some_conv Let_def)
  from assms(3) have "list_all (cmd_recordable mems) (t_cmds t)" "t_cmds t \<noteq> []" by (auto simp: task_recordable_def)
  from cmds.items this(1) obtain ys c' where r: "record_all record_command (t_cmds t) (c\<lparr>rc_tracked := [u]\<rparr>) = Some (ys, c')"
    "rc_output c' = rc_output (c\<lparr>rc_tracked := [u]\<rparr>)"
    by (rule recordsE [where c = "c\<lparr>rc_tracked := [u]\<rparr>"])
  with o \<open>t_cmds t \<noteq> []\<close> target_recordable [OF assms(3)] have "ProcessTask (r_tasks r) t (c\<lparr>rc_tracked := [u]\<rparr>) = None"
    by (auto simp: ProcessTask_def t_ncmds_def)
  with assms(2) show ?thesis by (simp add: record_document_def)
qed

text \<open>Commands other than transfers and kernels leave no trace: a flush of a data memory object, a broadcast, a reset.\<close>

lemma other_commands_vanish:
  "cmd_type cmd \<notin> {Some IRIS_CMD_H2D, Some IRIS_CMD_D2H, Some IRIS_CMD_KERNEL} \<Longrightarrow> record_command cmd c = Some ([], c)"
  by (simp add: record_command_def)

section \<open>An example\<close>

text \<open>A transfer and a kernel that uses the memory and a scalar; the kernel depends on the transfer.\<close>

definition example_mems :: "uid \<Rightarrow> BaseMemRef" where
  "example_mems u = \<lparr>mem_uid = u, mem_handler = IRIS_MEM, mem_bytes = 64\<rparr>"

definition example_flags :: PlatformFlags where
  "example_flags = \<lparr>release_task_flag = True, platform_async = False, enable_proactive = False\<rparr>"

definition example_copy :: Task where
  "example_copy = (Task_new example_flags 11 IRIS_TASK_PERM (Some ''copy'') [0, 0, 0, 0, 0, 0])
     \<lparr>t_cmds := [(CreateH2D \<lparr>tr_uid = 11, tr_ncmds = 0, tr_name = ''copy''\<rparr> 5 0 64 4096)\<lparr>cmd_name := ''copy''\<rparr>]\<rparr>"

definition example_kernel :: Command where
  "example_kernel = (Command_Create \<lparr>tr_uid = 12, tr_ncmds = 0, tr_name = ''saxpy''\<rparr> IRIS_CMD_KERNEL)
     \<lparr>cmd_name := ''saxpy'', cmd_gws := [16, 1, 1], cmd_kernel_nargs := 2,
       cmd_kernel_args := [KernelArg_default\<lparr>arg_mem := Some (example_mems 5), arg_mode := iris_rw\<rparr>,
         KernelArg_default\<lparr>arg_size := 2, arg_value := [7, 0]\<rparr>]\<rparr>"

definition example_saxpy :: Task where
  "example_saxpy = (Task_new example_flags 12 IRIS_TASK_PERM (Some ''saxpy'') [0, 0, 0, 0, 0, 0])
     \<lparr>t_cmds := [example_kernel], t_depends := Some [11], t_brs_policy := iris_roundrobin\<rparr>"

definition example_registry :: tasks where
  "example_registry = TrackObject (TrackObject ObjectTrack_new example_copy 11) example_saxpy 12"

definition empty_rt :: "tasks \<Rightarrow> uid \<Rightarrow> rt" where
  "empty_rt h n = \<lparr>r_flags = example_flags, r_uid = n, r_tasks = h, r_queue = [], r_types = [iris_cpu], r_ready = (\<lambda>_. QueueReady_new),
     r_busy = (\<lambda>_. None), r_active = (\<lambda>_. 0), r_sem_sched = 0, r_sem_worker = (\<lambda>_. 0), r_nfailures = 0, r_device_default = 0,
     r_rr_index = 0, r_customs = (\<lambda>_. False)\<rparr>"

definition example_loader :: loader where
  "example_loader = \<lparr>ld_rt = empty_rt (TrackObject ObjectTrack_new (Task_new example_flags 2 IRIS_TASK_PERM (Some ''Graph'') [0, 0, 0, 0, 0, 0]) 2) 2,
     ld_graph = Graph_new 1 2, ld_tasks = [], ld_kernels = [], ld_url = None\<rparr>"

lemma example_recordable:
  "task_recordable example_mems example_copy" "task_recordable example_mems example_saxpy"
proof -
  show "task_recordable example_mems example_copy"
    by (simp add: task_recordable_def example_copy_def Task_new_def Retainable.extend_def Task.fields_def set_object_track_def Retainable_init_def
        cmd_recordable_def CreateH2D_def Iris_Command.linear_def exclusive_def transfer_recordable_def small_def cstr_def nul_char
        Command_Create_def Command_Set_def Command_Clear_def cmd_type_string_def iris_cmd_defs loadable_policies_def)
  have "cmd_recordable example_mems example_kernel"
    by (simp add: cmd_recordable_def kernel_recordable_def example_kernel_def cmd_wf_def small_def cstr_def nul_char arg_recordable_def
        KernelArg_default_def example_mems_def Command_Create_def Command_Set_def Command_Clear_def cmd_type_string_def iris_cmd_defs
        KERNEL_ARG_VALUE_SIZE_def)
  then show "task_recordable example_mems example_saxpy"
    by (simp add: task_recordable_def example_saxpy_def Task_new_def Retainable.extend_def Task.fields_def set_object_track_def Retainable_init_def
        cstr_def nul_char loadable_policies_def)
qed

text \<open>The parameters of a replay of the recorder's own pointers and objects.\<close>

definition replay_params :: "(uid \<Rightarrow> BaseMemRef) \<Rightarrow> recorder \<Rightarrow> input option list" where
  "replay_params mems d =
     map (\<lambda>p. Some \<lparr>in_addr = p, in_bytes = [], in_mem = None, in_host = None\<rparr>) (rc_hosts d) @
     map (\<lambda>m. Some \<lparr>in_addr = 0, in_bytes = [], in_mem = Some (mems m), in_host = None\<rparr>) (rc_mems d)"

lemma replays_params: "replays mems d (replay_params mems d)"
  by (simp add: replays_def replay_params_def nth_append)


theorem load_failures_witness:
  "\<exists>s'. JSON_Load (Parsed (Some (JObject []))) ''graph.json'' [] [] example_loader = Some (False, s') \<and> r_nfailures (ld_rt s') = 1"
proof -
  let ?s = "example_loader\<lparr>ld_rt := (ld_rt example_loader)\<lparr>r_nfailures := 1\<rparr>\<rparr>"
  have "JSON_Load (Parsed (Some (JObject []))) ''graph.json'' [] [] example_loader = Some (False, ?s)"
    by (simp add: JSON_Load_def graph_parts_def need_def of_option_def proceed_def failed_def example_loader_def empty_rt_def)
  from load_failures [OF this] this show ?thesis by (simp add: example_loader_def empty_rt_def)
qed

end
