(* ===== verification/Iris_Trace.thy ===== *)
theory Iris_Trace
  imports Iris_Profiler Iris_JSONRecord
begin

text \<open>
  Two more records of a run: the table of \<^verbatim>\<open>SchedulingHistory.cpp\<close>, a line of comma-separated fields for every command, and the chart of
  \<^verbatim>\<open>ProfilerGoogleCharts.cpp\<close>. Times are the texts \<open>ostream\<close> and \<open>%lf\<close> make of them. The table names a command the first
  time it is written, and the name stays with the command: the recorder of \<^verbatim>\<open>JSON.cpp\<close> takes it for the name of the kernel.
\<close>

section \<open>The table\<close>

text \<open>A command with what the table needs of its task and of the device the task runs on.\<close>

record logged =
  lg_cmd :: Command
  lg_start :: string
  lg_end :: string
  lg_duration :: string
  lg_task_name :: string
  lg_policy :: int
  lg_dev_name :: string
  lg_devno :: nat

definition SCHEDULING_HISTORY_HEADER :: string where
  "SCHEDULING_HISTORY_HEADER = ''taskname,type,start,end,duration,size,policy,acclname''"

definition SchedulingHistory_policy_str :: "int \<Rightarrow> string" where
  "SchedulingHistory_policy_str = policy_str"

definition comma :: string where "comma = [CHR 0x2C]"

definition history_line :: "string \<Rightarrow> string \<Rightarrow> string \<Rightarrow> string \<Rightarrow> string \<Rightarrow> size_t \<Rightarrow> logged \<Rightarrow> string" where
  "history_line name type start end duration ksize l =
     name @ comma @ type @ comma @ start @ comma @ end @ comma @ duration @ comma @ dec (unat ksize) @ comma @
     SchedulingHistory_policy_str (lg_policy l) @ comma @ lg_dev_name l @ '' '' @ dec (lg_devno l) @ nl"

definition SchedulingHistory_new :: string where
  "SchedulingHistory_new = SCHEDULING_HISTORY_HEADER @ nl"

definition cmd_ws :: "Command \<Rightarrow> size_t" where
  "cmd_ws c = cmd_gws c ! 0 * cmd_gws c ! 1 * cmd_gws c ! 2"

definition cmd_set_name :: "string \<Rightarrow> Command \<Rightarrow> Command" where
  "cmd_set_name n c = c\<lparr>cmd_name := n, cmd_given_name := True\<rparr>"

text \<open>\<open>CompleteCommand\<close>: a size that was never set is a read of uninitialised memory.\<close>

definition CompleteCommand :: "logged \<Rightarrow> string \<Rightarrow> (logged \<times> string) option" where
  "CompleteCommand l tbl =
     (let c = lg_cmd l; kernel = (cmd_type c = Some IRIS_CMD_KERNEL);
          c = (if cmd_given_name c then c else cmd_set_name (if kernel then lg_task_name l else cmd_type_name c) c)
      in map_option (\<lambda>ksize. (l\<lparr>lg_cmd := c\<rparr>,
           tbl @ history_line (cmd_name c) (cmd_type_name c) (lg_start l) (lg_end l) (lg_duration l) ksize l))
         (if kernel then Some (cmd_ws c) else cmd_size c))"

definition CompleteSpecialCommand :: "string \<Rightarrow> string \<Rightarrow> string \<Rightarrow> string \<Rightarrow> string \<Rightarrow> logged \<Rightarrow> string \<Rightarrow> string option" where
  "CompleteSpecialCommand name type time_start time_end duration l tbl =
     map_option (\<lambda>ksize. tbl @ history_line name type time_start time_end duration ksize l) (cmd_size (lg_cmd l))"

text \<open>\<open>AddKernel\<close>, \<open>AddH2D\<close>, \<open>AddD2H\<close>, \<open>AddD2D\<close> and \<open>AddD2H_H2D\<close> are one function.\<close>

definition History_Add :: "logged \<Rightarrow> string \<Rightarrow> (logged \<times> string) option" where "History_Add = CompleteCommand"

text \<open>\<open>CompleteTask\<close> of a task of the given type whose last command is \<open>l\<close>.\<close>

definition History_CompleteTask :: "nat \<Rightarrow> bool \<Rightarrow> logged option \<Rightarrow> string \<Rightarrow> (int \<times> logged option \<times> string) option" where
  "History_CompleteTask type given_name lst tbl =
     (if type = IRIS_TASK_PERM then
        Option.bind lst (\<lambda>l.
          let l = (if given_name then l\<lparr>lg_cmd := cmd_set_name (lg_task_name l) (lg_cmd l)\<rparr> else l) in
          if cmd_type (lg_cmd l) \<in> {Some IRIS_CMD_KERNEL, Some IRIS_CMD_H2D, Some IRIS_CMD_D2H}
          then map_option (\<lambda>(l, tbl). (IRIS_SUCCESS, Some l, tbl)) (History_Add l tbl)
          else Some (IRIS_ERROR, Some l, tbl))
      else Some (IRIS_SUCCESS, lst, tbl))"

text \<open>The table of a sequence of commands.\<close>

fun history_rows :: "logged list \<Rightarrow> string \<Rightarrow> (logged list \<times> string) option" where
  "history_rows [] tbl = Some ([], tbl)"
| "history_rows (l # ls) tbl =
     Option.bind (History_Add l tbl) (\<lambda>(l, tbl). map_option (\<lambda>(ls, tbl). (l # ls, tbl)) (history_rows ls tbl))"

section \<open>Reading the table\<close>

fun csv_fields :: "string \<Rightarrow> string list" where
  "csv_fields [] = [[]]"
| "csv_fields (c # cs) = (if c = CHR 0x2C then [] # csv_fields cs else (case csv_fields cs of [] \<Rightarrow> [[c]] | f # fs \<Rightarrow> (c # f) # fs))"

fun csv_rows :: "string \<Rightarrow> string list" where
  "csv_rows [] = []"
| "csv_rows (c # cs) = (if c = CHR 0x0A then [] # csv_rows cs else (case csv_rows cs of [] \<Rightarrow> [[c]] | r # rs \<Rightarrow> (c # r) # rs))"

lemma fields_last: "CHR 0x2C \<notin> set s \<Longrightarrow> csv_fields s = [s]"
  by (induction s) auto

lemma fields_comma: "CHR 0x2C \<notin> set s \<Longrightarrow> csv_fields (s @ comma @ t) = s # csv_fields t"
  by (induction s) (auto simp: comma_def)

lemma rows_line: "CHR 0x0A \<notin> set s \<Longrightarrow> csv_rows (s @ nl @ t) = s # csv_rows t"
  by (induction s) (auto simp: nl_def)

definition plain :: "string \<Rightarrow> bool" where
  "plain s \<longleftrightarrow> CHR 0x2C \<notin> set s \<and> CHR 0x0A \<notin> set s"

lemma plain_dec: "plain (dec n)"
  using dec_digits [of n] by (auto simp: plain_def is_digit_def)

lemma plain_policy: "plain (SchedulingHistory_policy_str p)"
  by (simp add: SchedulingHistory_policy_str_def policy_str_def plain_def)

definition log_size :: "logged \<Rightarrow> size_t" where
  "log_size l = (if cmd_type (lg_cmd l) = Some IRIS_CMD_KERNEL then cmd_ws (lg_cmd l) else the (cmd_size (lg_cmd l)))"

definition log_name :: "logged \<Rightarrow> string" where
  "log_name l = (if cmd_given_name (lg_cmd l) then cmd_name (lg_cmd l)
     else if cmd_type (lg_cmd l) = Some IRIS_CMD_KERNEL then lg_task_name l else cmd_type_name (lg_cmd l))"

definition log_fields :: "logged \<Rightarrow> string list" where
  "log_fields l = [log_name l, cmd_type_name (lg_cmd l), lg_start l, lg_end l, lg_duration l, dec (unat (log_size l)),
     SchedulingHistory_policy_str (lg_policy l), lg_dev_name l @ '' '' @ dec (lg_devno l)]"

definition log_ok :: "logged \<Rightarrow> bool" where
  "log_ok l \<longleftrightarrow> plain (log_name l) \<and> plain (cmd_type_name (lg_cmd l)) \<and> plain (lg_start l) \<and> plain (lg_end l) \<and> plain (lg_duration l) \<and>
     plain (lg_dev_name l) \<and> (cmd_type (lg_cmd l) = Some IRIS_CMD_KERNEL \<or> cmd_size (lg_cmd l) \<noteq> None)"

definition log_line :: "logged \<Rightarrow> string" where
  "log_line l = log_name l @ comma @ cmd_type_name (lg_cmd l) @ comma @ lg_start l @ comma @ lg_end l @ comma @ lg_duration l @ comma @
     dec (unat (log_size l)) @ comma @ SchedulingHistory_policy_str (lg_policy l) @ comma @ lg_dev_name l @ '' '' @ dec (lg_devno l)"

lemma log_line_fields:
  assumes "log_ok l"
  shows "csv_fields (log_line l) = log_fields l" "CHR 0x0A \<notin> set (log_line l)"
proof -
  note p = assms [unfolded log_ok_def plain_def] plain_dec [unfolded plain_def] plain_policy [unfolded plain_def]
  have "CHR 0x2C \<notin> set (lg_dev_name l @ '' '' @ dec (lg_devno l))" using p by simp
  then show "csv_fields (log_line l) = log_fields l"
    unfolding log_line_def log_fields_def using p by (simp add: fields_comma fields_last)
  show "CHR 0x0A \<notin> set (log_line l)" using p by (simp add: log_line_def comma_def)
qed

lemma CompleteCommand_line:
  assumes "log_ok l"
  shows "\<exists>l'. History_Add l tbl = Some (l', tbl @ log_line l @ nl) \<and> cmd_given_name (lg_cmd l') \<and> cmd_name (lg_cmd l') = log_name l"
  using assms
  by (auto simp: History_Add_def CompleteCommand_def Let_def log_ok_def history_line_def log_line_def log_name_def log_size_def cmd_set_name_def cmd_ws_def)

lemma history_rows_text:
  assumes "list_all log_ok ls"
  shows "\<exists>ls'. history_rows ls tbl = Some (ls', tbl @ concat (map (\<lambda>l. log_line l @ nl) ls))"
  using assms
proof (induction ls arbitrary: tbl)
  case (Cons l ls)
  then have "log_ok l" by simp
  from CompleteCommand_line [OF this, of tbl] obtain l' where "History_Add l tbl = Some (l', tbl @ log_line l @ nl)" by blast
  with Cons.IH [of "tbl @ log_line l @ nl"] Cons.prems show ?case by auto
qed simp

text \<open>The table of a run can be read back: split at the line ends and at the commas, it is the header and, for every command in
  order, the eight fields that were logged; provided no name holds a comma or a line end, which nothing checks.\<close>

theorem history_table:
  assumes "list_all log_ok ls"
  shows "\<exists>ls' tbl. history_rows ls SchedulingHistory_new = Some (ls', tbl) \<and>
    map csv_fields (csv_rows tbl) = csv_fields SCHEDULING_HISTORY_HEADER # map log_fields ls"
proof -
  from history_rows_text [OF assms] obtain ls' where
    h: "history_rows ls SchedulingHistory_new = Some (ls', SchedulingHistory_new @ concat (map (\<lambda>l. log_line l @ nl) ls))" by blast
  have "CHR 0x0A \<notin> set SCHEDULING_HISTORY_HEADER" by (simp add: SCHEDULING_HISTORY_HEADER_def)
  moreover have "map csv_fields (csv_rows (concat (map (\<lambda>l. log_line l @ nl) ls))) = map log_fields ls"
    using assms by (induction ls) (auto simp: rows_line log_line_fields)
  ultimately show ?thesis using h by (auto simp: SchedulingHistory_new_def rows_line)
qed

definition example_log :: "logged list" where
  "example_log =
     [\<lparr>lg_cmd = (Command_Create \<lparr>tr_uid = 3, tr_ncmds = 1, tr_name = ''t''\<rparr> IRIS_CMD_KERNEL)\<lparr>cmd_gws := [8, 4, 1]\<rparr>, lg_start = ''0.5'', lg_end = ''0.75'',
        lg_duration = ''0.25'', lg_task_name = ''saxpy'', lg_policy = iris_gpu, lg_dev_name = ''A100'', lg_devno = 0\<rparr>,
      \<lparr>lg_cmd = CreateD2H \<lparr>tr_uid = 3, tr_ncmds = 1, tr_name = ''t''\<rparr> 5 0 128 4096, lg_start = ''0.75'', lg_end = ''1'',
        lg_duration = ''0.25'', lg_task_name = ''saxpy'', lg_policy = iris_gpu, lg_dev_name = ''A100'', lg_devno = 0\<rparr>]"

theorem history_table_witness:
  "\<exists>ls' tbl. history_rows example_log SchedulingHistory_new = Some (ls', tbl) \<and>
    map csv_fields (csv_rows tbl) = csv_fields SCHEDULING_HISTORY_HEADER # map log_fields example_log"
proof -
  have "list_all log_ok example_log" by code_simp
  from history_table [OF this] show ?thesis .
qed

text \<open>A name with a comma gives a row of nine fields.\<close>

lemma comma_in_name: "length (csv_fields (log_line ((hd example_log)\<lparr>lg_task_name := ''a,b''\<rparr>))) = 9"
  by code_simp

text \<open>The table and the recorder: once a kernel was logged its command has the name of the task, and that is what a recording names as the
  kernel.\<close>

lemma logging_renames_kernel:
  assumes "cmd_type (lg_cmd l) = Some IRIS_CMD_KERNEL" "\<not> cmd_given_name (lg_cmd l)" "History_Add l tbl = Some (l', tbl')"
    "record_command (lg_cmd l') c = Some (js, c')"
  shows "\<exists>k. js = [JObject [(''kernel'', k)]] \<and> field k ''name'' = Ok (Some (JString (cstr (lg_task_name l))))"
  using assms
  by (auto simp: History_Add_def CompleteCommand_def Let_def cmd_set_name_def record_command_def record_kernel_def iris_cmd_defs bind_eq_Some_conv)

text \<open>The last command of a task that is kept is written twice: by the device that executed it and again when the worker reports the task.\<close>

lemma logged_twice:
  assumes "log_ok l" "cmd_type (lg_cmd l) = Some IRIS_CMD_KERNEL"
  shows "\<exists>l1 l2. History_Add l tbl = Some (l1, tbl @ log_line l @ nl) \<and>
    History_CompleteTask IRIS_TASK_PERM False (Some l1) (tbl @ log_line l @ nl) =
      Some (IRIS_SUCCESS, Some l2, tbl @ log_line l @ nl @ log_line l @ nl)"
  using assms
  by (auto simp: History_CompleteTask_def History_Add_def CompleteCommand_def Let_def log_ok_def history_line_def log_line_def log_name_def log_size_def
      cmd_set_name_def cmd_ws_def)

section \<open>The chart\<close>

definition sq :: string where "sq = [CHR 0x27]"

definition CHART_HEADER1 :: string where
  "CHART_HEADER1 =
     ''<script type='' @ sq @ ''text/javascript'' @ sq @ '' src='' @ sq @ ''https://www.gstatic.com/charts/loader.js'' @ sq @ ''></script>'' @ nl @
     ''<script type='' @ sq @ ''text/javascript'' @ sq @ ''>'' @ nl @
     ''google.charts.load('' @ sq @ ''current'' @ sq @ '', {packages:['' @ sq @ ''timeline'' @ sq @ '']});'' @ nl @
     ''google.charts.setOnLoadCallback(drawChart);'' @ nl @
     ''function drawChart() {'' @ nl @
     ''var container = document.getElementById('' @ sq @ ''iris'' @ sq @ '');'' @ nl @
     ''var chart = new google.visualization.Timeline(container);'' @ nl @
     ''var dataTable = new google.visualization.DataTable();'' @ nl"

definition CHART_HEADER2 :: string where
  "CHART_HEADER2 =
     ''dataTable.addColumn({ type: '' @ sq @ ''string'' @ sq @ '', id: '' @ sq @ ''Device'' @ sq @ '' });'' @ nl @
     ''dataTable.addColumn({ type: '' @ sq @ ''string'' @ sq @ '', id: '' @ sq @ ''Task'' @ sq @ '' });'' @ nl @
     ''dataTable.addColumn({ type: '' @ sq @ ''number'' @ sq @ '', id: '' @ sq @ ''Start'' @ sq @ '' });'' @ nl @
     ''dataTable.addColumn({ type: '' @ sq @ ''number'' @ sq @ '', id: '' @ sq @ ''End'' @ sq @ '' });'' @ nl @
     ''dataTable.addRows(['' @ nl"

definition CHART_FOOTER :: string where
  "CHART_FOOTER =
     '']);'' @ nl @ ''var options = {'' @ nl @ ''timeline: { colorByRowLabel: true },'' @ nl @
     ''avoidOverlappingGridLines: false'' @ nl @ ''};'' @ nl @ ''chart.draw(dataTable, options);'' @ nl @ ''}'' @ nl @ ''</script>'' @ nl @
     ''<div id='' @ sq @ ''iris'' @ sq @ '' style='' @ sq @ ''height: 100%;'' @ sq @ ''></div>'' @ nl"

text \<open>What the chart needs of a completed task: its device and, with \<open>kernel_profile\<close>, its kernel's times.\<close>

record charted =
  ch_dev :: "(string \<times> nat) option"
  ch_name :: string
  ch_policy :: int
  ch_times :: "string \<times> string"
  ch_kernel_times :: "(string \<times> string) option"

definition chart_row :: "string \<times> nat \<Rightarrow> string \<Rightarrow> int \<Rightarrow> string \<times> string \<Rightarrow> string" where
  "chart_row dev name policy tms =
     ''[ '' @ sq @ fst dev @ '' '' @ dec (snd dev) @ sq @ '', '' @ sq @ name @ '' ('' @ policy_str policy @ '')'' @ sq @ '', '' @
     fst tms @ '', '' @ snd tms @ '' ],'' @ nl"

definition chart_print :: "(byte list \<Rightarrow> nat \<Rightarrow> nat) \<Rightarrow> string \<Rightarrow> profiler \<Rightarrow> profiler option" where
  "chart_print wr s p = map_option snd (Profiler_Write wr (map of_char s) p)"

definition Chart_CompleteTask :: "(byte list \<Rightarrow> nat \<Rightarrow> nat) \<Rightarrow> bool \<Rightarrow> charted \<Rightarrow> profiler \<Rightarrow> profiler option" where
  "Chart_CompleteTask wr kernel_profile t p =
     (case (ch_dev t, if kernel_profile then ch_kernel_times t else Some (ch_times t)) of
        (Some dev, Some tms) \<Rightarrow>
          Option.bind (sprintf 1024 (chart_row dev (ch_name t) (ch_policy t) tms)) (\<lambda>bs. map_option snd (Profiler_Write wr bs p))
      | _ \<Rightarrow> Some p)"

definition Chart_Main :: "(byte list \<Rightarrow> nat \<Rightarrow> nat) \<Rightarrow> profiler \<Rightarrow> profiler option" where
  "Chart_Main wr p = Option.bind (chart_print wr CHART_HEADER1 p) (chart_print wr CHART_HEADER2)"

definition Chart_Exit :: "(byte list \<Rightarrow> nat \<Rightarrow> nat) \<Rightarrow> profiler \<Rightarrow> profiler option" where
  "Chart_Exit wr p = chart_print wr CHART_FOOTER p"

definition Chart_run :: "(byte list \<Rightarrow> nat \<Rightarrow> nat) \<Rightarrow> byte list \<Rightarrow> int \<Rightarrow> bool \<Rightarrow> charted list \<Rightarrow> byte list option" where
  "Chart_run wr g fd kernel_profile ts =
     Option.bind (Profiler_new g) (\<lambda>p.
     Option.bind (Chart_Main wr (snd (OpenFD fd p))) (\<lambda>p.
     Option.bind (opt_fold (Chart_CompleteTask wr kernel_profile) ts p) (\<lambda>p.
     map_option (\<lambda>p. pf_file (CloseFD wr p)) (Chart_Exit wr p))))"

definition chart_rows :: "bool \<Rightarrow> charted \<Rightarrow> string" where
  "chart_rows kernel_profile t =
     (case (ch_dev t, if kernel_profile then ch_kernel_times t else Some (ch_times t)) of
        (Some dev, Some tms) \<Rightarrow> chart_row dev (ch_name t) (ch_policy t) tms
      | _ \<Rightarrow> [])"

definition prof_ok :: "profiler \<Rightarrow> bool" where
  "prof_ok p \<longleftrightarrow> m_ok (pf_msg p) \<and> pf_fd p \<noteq> -1"

lemma chart_write:
  assumes "prof_ok p" "\<And>f n. n \<le> wr f n" "CHR 0x00 \<notin> set s"
  shows "\<exists>p'. Profiler_Write wr (map of_char s) p = Some (IRIS_SUCCESS, p') \<and> prof_ok p' \<and> handed p' = handed p @ map of_char s"
  using Write_ok [of p wr "map of_char s"] assms of_char_zero [of s] by (auto simp: prof_ok_def)

lemma chart_tasks:
  assumes "\<And>f n. n \<le> wr f n" "list_all (\<lambda>t. line_ok 1024 (chart_rows kp t)) ts" "prof_ok p"
  shows "\<exists>p'. opt_fold (Chart_CompleteTask wr kp) ts p = Some p' \<and> prof_ok p' \<and>
    handed p' = handed p @ map of_char (concat (map (chart_rows kp) ts))"
  using assms(2,3)
proof (induction ts arbitrary: p)
  case (Cons t ts)
  have "\<exists>p1. Chart_CompleteTask wr kp t p = Some p1 \<and> prof_ok p1 \<and> handed p1 = handed p @ map of_char (chart_rows kp t)"
  proof (cases "ch_dev t = None \<or> (if kp then ch_kernel_times t else Some (ch_times t)) = None")
    case True
    then show ?thesis using Cons.prems(2) by (auto simp: Chart_CompleteTask_def chart_rows_def split: option.splits)
  next
    case False
    then obtain dev tms where d: "ch_dev t = Some dev" "(if kp then ch_kernel_times t else Some (ch_times t)) = Some tms"
      using not_None_eq [of "ch_dev t"] not_None_eq [of "if kp then ch_kernel_times t else Some (ch_times t)"] by blast
    then have "chart_rows kp t = chart_row dev (ch_name t) (ch_policy t) tms" by (simp add: chart_rows_def)
    with Cons.prems(1) have "line_ok 1024 (chart_row dev (ch_name t) (ch_policy t) tms)" by simp
    with chart_write [where wr = wr, OF Cons.prems(2) assms(1), of "chart_row dev (ch_name t) (ch_policy t) tms"] d show ?thesis
      by (auto simp: Chart_CompleteTask_def chart_rows_def sprintf_def line_ok_def)
  qed
  then obtain p1 where p1: "Chart_CompleteTask wr kp t p = Some p1" "prof_ok p1" "handed p1 = handed p @ map of_char (chart_rows kp t)" by blast
  from Cons.IH [OF _ p1(2)] Cons.prems(1) p1(1,3) show ?case by auto
qed simp

text \<open>The file of the chart: its frame and, between header and footer, a row for every task that ran on a device (with \<open>kernel_profile\<close>, for
  every one of these that has a kernel), in the order of completion. A row has to fit into 1024 characters; a longer name
  overruns the buffer on the stack.\<close>

lemma chart_file:
  assumes "length g = MSG_BYTES" "fd \<noteq> -1" "\<And>f n. n \<le> wr f n" "list_all (\<lambda>t. line_ok 1024 (chart_rows kp t)) ts"
  shows "Chart_run wr g fd kp ts = Some (map of_char (CHART_HEADER1 @ CHART_HEADER2 @ concat (map (chart_rows kp) ts) @ CHART_FOOTER))"
proof -
  define p where "p = \<lparr>pf_fd = fd, pf_msg = \<lparr>m_buf = g, m_off = 0\<rparr>, pf_file = []\<rparr>"
  have p: "prof_ok p" "handed p = []" using assms(1,2) by (simp_all add: p_def prof_ok_def m_ok_def handed_def written_def)
  have pn: "Profiler_new g = Some q \<Longrightarrow> snd (OpenFD fd q) = p" "Profiler_new g \<noteq> None" for q
    by (auto simp: Profiler_new_def Message_new_def OpenFD_def p_def)
  have z: "CHR 0x00 \<notin> set CHART_HEADER1" "CHR 0x00 \<notin> set CHART_HEADER2" "CHR 0x00 \<notin> set CHART_FOOTER"
    by (simp_all add: CHART_HEADER1_def CHART_HEADER2_def CHART_FOOTER_def sq_def nl_def)
  from chart_write [where wr = wr, OF p(1) assms(3) z(1)] obtain p1 where
    p1: "Profiler_Write wr (map of_char CHART_HEADER1) p = Some (IRIS_SUCCESS, p1)" "prof_ok p1" "handed p1 = map of_char CHART_HEADER1" using p(2) by auto
  from chart_write [where wr = wr, OF p1(2) assms(3) z(2)] obtain p2 where
    p2: "Profiler_Write wr (map of_char CHART_HEADER2) p1 = Some (IRIS_SUCCESS, p2)" "prof_ok p2" "handed p2 = handed p1 @ map of_char CHART_HEADER2" by auto
  from chart_tasks [where wr = wr, OF assms(3,4) p2(2)] obtain p3 where
    p3: "opt_fold (Chart_CompleteTask wr kp) ts p2 = Some p3" "prof_ok p3" "handed p3 = handed p2 @ map of_char (concat (map (chart_rows kp) ts))" by metis
  from chart_write [where wr = wr, OF p3(2) assms(3) z(3)] obtain p4 where
    p4: "Profiler_Write wr (map of_char CHART_FOOTER) p3 = Some (IRIS_SUCCESS, p4)" "prof_ok p4" "handed p4 = handed p3 @ map of_char CHART_FOOTER" by auto
  have "Chart_Main wr p = Some p2" using p1(1) p2(1) by (simp add: Chart_Main_def chart_print_def)
  moreover have "Chart_Exit wr p3 = Some p4" using p4(1) by (simp add: Chart_Exit_def chart_print_def)
  moreover have "pf_file (CloseFD wr p4) = handed p4"
    using Flush_ok [of p4 wr] p4(2) assms(3) by (auto simp: CloseFD_def prof_ok_def)
  moreover obtain q where "Profiler_new g = Some q" using pn(2) by blast
  ultimately show ?thesis using pn(1) [of q] p1(3) p2(3) p3(1,3) p4(3) by (simp add: Chart_run_def)
qed

end
