(* ===== verification/Iris_Tiling.thy ===== *)
theory Iris_Tiling
  imports Iris_Float Iris_Copy
begin

text \<open>
  The tiles of \<^verbatim>\<open>Tiling1D.h\<close> and \<^verbatim>\<open>Tiling2D.h\<close>: how many there are, the memory object of each and the iterators that list them. An
  iterator walks from a start until it no longer differs from an end; the loop over it is a \<open>partial_function\<close>, and the locale
  \<open>tile_iterator\<close> states when it ends and what it lists. Arrays are lists of bytes, a pointer into one is the number of its element.
\<close>

section \<open>The number of tiles\<close>

text \<open>\<open>GET_TILE_COUNT\<close>: single precision, rounded to the nearest by adding a half and truncating.\<close>

definition GET_TILE_COUNT :: "nat \<Rightarrow> nat \<Rightarrow> nat option" where
  "GET_TILE_COUNT X S =
     map_option nat (fp_to_int32 (fp_add binary32 (fp_div binary32 (of_int_fp binary32 (int X)) (of_int_fp binary32 (int S))) (Fin (1 / 2))))"

lemma of_int_fp_exact: "n < 2 ^ 24 \<Longrightarrow> of_int_fp binary32 (int n) = Fin (of_nat n)"
  using of_rat_fp_of_int [of "int n" binary32] by (simp add: of_int_fp_def binary32_def)

lemma half_exact:
  assumes "n < 2 ^ 22"
  shows "of_rat_fp binary32 (of_nat n + 1 / 2) = Fin (of_nat n + 1 / 2)"
proof -
  have q: "rat_of_int (2 * int n + 1) * 2 powi (-1) = of_nat n + 1 / 2" by (simp add: power_int_minus field_simps)
  have e: "rnd binary32 (of_nat n + 1 / 2) = of_nat n + 1 / 2"
    using rnd_exact [of "2 * int n + 1" binary32 "-1", unfolded q] assms by (simp add: binary32_def)
  have "rat_of_nat n + 1 / 2 < 2 powi 23"
  proof -
    have "rat_of_nat n < of_nat (2 ^ 22)" using assms by (simp only: of_nat_less_iff)
    then show ?thesis by simp
  qed
  then have "ilog2 (rat_of_nat n + 1 / 2) < 23" by (intro ilog2_less) (simp_all add: add_nonneg_pos)
  then have "\<not> 128 \<le> ilog2 \<bar>rat_of_nat n + 1 / 2\<bar>" by (simp add: abs_of_nonneg)
  then show ?thesis by (simp add: of_rat_fp_def e Let_def) (simp add: binary32_def)
qed

lemma tile_count_exact:
  assumes "0 < S" "S < 2 ^ 24" "n * S < 2 ^ 24" "n < 2 ^ 22"
  shows "GET_TILE_COUNT (n * S) S = Some n"
proof -
  have "of_rat_fp binary32 (rat_of_nat n) = Fin (of_nat n)"
    using of_rat_fp_of_int [of "int n" binary32] assms(4) by (simp add: binary32_def)
  moreover have "\<lfloor>rat_of_nat n + 1 / 2\<rfloor> = int n" by linarith
  moreover have "of_int_fp binary32 (int n * int S) = Fin (of_nat (n * S))" using of_int_fp_exact [OF assms(3)] by simp
  ultimately show ?thesis
    using assms by (simp add: GET_TILE_COUNT_def of_int_fp_exact half_exact trunc_rat_def int32_ok_def)
qed

text \<open>What does not fill half a tile is in no tile, and what fills more gets a tile that is not all there.\<close>

lemma remainder_dropped: "GET_TILE_COUNT 5 4 = Some 1"
  by code_simp

lemma last_tile_overhangs: "GET_TILE_COUNT 7 4 = Some 2"
  by code_simp

section \<open>Walking over tiles\<close>

text \<open>\<open>for (; it != end; ++it) out.push_back(*it)\<close>: no result when the loop does not end or leaves the array of tiles.\<close>

partial_function (option) iterate :: "('i \<Rightarrow> bool) \<Rightarrow> ('i \<Rightarrow> 'x option) \<Rightarrow> ('i \<Rightarrow> 'i) \<Rightarrow> 'i \<Rightarrow> 'x list option" where
  "iterate going deref nxt i =
     (if going i then Option.bind (deref i) (\<lambda>x. Option.bind (iterate going deref nxt (nxt i)) (\<lambda>xs. Some (x # xs))) else Some [])"

text \<open>Every tile \<open>repeat\<close> times.\<close>

definition repeated :: "int \<Rightarrow> 'x list \<Rightarrow> 'x list" where
  "repeated n xs = concat (map (replicate (nat n)) xs)"

lemma repeated_1: "repeated 1 xs = xs"
  by (induction xs) (simp_all add: repeated_def)

text \<open>An iterator that keeps to a plan: \<open>left\<close> are the positions still to come.\<close>

locale tile_iterator =
  fixes going :: "'i \<Rightarrow> bool" and nxt :: "'i \<Rightarrow> 'i" and pos :: "'i \<Rightarrow> 'p" and left :: "'i \<Rightarrow> 'p list" and inv :: "'i \<Rightarrow> bool"
  assumes ends: "inv i \<Longrightarrow> going i \<longleftrightarrow> left i \<noteq> []"
    and step: "inv i \<Longrightarrow> going i \<Longrightarrow> inv (nxt i) \<and> left i = pos i # left (nxt i)"
begin

lemma lists:
  assumes "inv i"
  shows "iterate going (\<lambda>i. f (pos i)) nxt i = those (map f (left i))"
  using assms
proof (induction "left i" arbitrary: i)
  case Nil
  with ends show ?case by (subst iterate.simps) simp
next
  case (Cons p ps)
  then have g: "going i" using ends by auto
  from step [OF Cons.prems g] Cons.hyps(2) have n: "inv (nxt i)" "ps = left (nxt i)" "left i = pos i # left (nxt i)" by auto
  from Cons.hyps(1) [OF n(2,1)] g n(3) show ?case
    by (subst iterate.simps) (simp add: map_option_case split: option.splits)
qed

end

lemma those_map: "(\<And>x. x \<in> set xs \<Longrightarrow> f x = Some (g x)) \<Longrightarrow> those (map f xs) = Some (map g xs)"
  by (induction xs) auto

lemma those_None: "x \<in> set xs \<Longrightarrow> f x = None \<Longrightarrow> those (map f xs) = None"
  by (induction xs) (auto split: option.splits)

section \<open>The iterator of two dimensions\<close>

datatype Tile2DIteratorType = TILE2D_COL_FIRST | TILE2D_ROW_FIRST | TILE2D_RIGHT_DOWN_TREE_WISE

record iterator2 =
  i2_row :: nat
  i2_col :: nat
  i2_rows :: nat
  i2_cols :: nat
  i2_state :: nat
  i2_level :: nat
  i2_row_start :: nat
  i2_col_start :: nat
  i2_type :: Tile2DIteratorType

definition iterator2_new :: "nat \<Rightarrow> nat \<Rightarrow> nat \<Rightarrow> nat \<Rightarrow> Tile2DIteratorType \<Rightarrow> iterator2" where
  "iterator2_new row col nrows ncols type =
     \<lparr>i2_row = row, i2_col = col, i2_rows = nrows, i2_cols = ncols, i2_state = 0, i2_level = 0, i2_row_start = row, i2_col_start = col,
      i2_type = type\<rparr>"

text \<open>\<open>operator!=\<close> asks both indices to differ; the postfix operator is the same code as the prefix one.\<close>

definition iterator2_ne :: "iterator2 \<Rightarrow> iterator2 \<Rightarrow> bool" where
  "iterator2_ne a b \<longleftrightarrow> i2_row a \<noteq> i2_row b \<and> i2_col a \<noteq> i2_col b"

definition iterator2_next :: "iterator2 \<Rightarrow> iterator2" where
  "iterator2_next it =
     (case i2_type it of
        TILE2D_ROW_FIRST \<Rightarrow>
          let row = i2_row it + 1;
              col = (if row = i2_rows it then i2_col it + 1 else i2_col it);
              row = (if row = i2_rows it then i2_row_start it else row)
          in it\<lparr>i2_row := row, i2_col := col\<rparr>
      | TILE2D_RIGHT_DOWN_TREE_WISE \<Rightarrow>
          if i2_state it = 0 then
            let col = i2_col it + 1;
                state = (if col = i2_cols it then 1 else 0);
                col = (if state \<noteq> 0 then i2_level it else col);
                row = (if state \<noteq> 0 then i2_row it + 1 else i2_row it)
            in it\<lparr>i2_row := row, i2_col := col, i2_state := state\<rparr>
          else if i2_state it = 1 then
            let row = i2_row it + 1;
                state = (if row = i2_rows it then 0 else 1);
                row = (if state \<noteq> 0 then row else i2_level it + 1);
                col = (if state \<noteq> 0 then i2_col it else i2_level it + 1);
                level = (if state \<noteq> 0 then i2_level it else i2_level it + 1)
            in it\<lparr>i2_row := row, i2_col := col, i2_state := state, i2_level := level\<rparr>
          else it
      | TILE2D_COL_FIRST \<Rightarrow>
          let col = i2_col it + 1;
              row = (if col = i2_cols it then i2_row it + 1 else i2_row it);
              col = (if col = i2_cols it then i2_col_start it else col)
          in it\<lparr>i2_row := row, i2_col := col\<rparr>)"

definition iterator2_at :: "iterator2 \<Rightarrow> nat \<times> nat" where
  "iterator2_at it = (i2_row it, i2_col it)"

text \<open>The plan. Tree-wise: row and column of a diagonal tile, then of the next.\<close>

definition tree_from :: "nat \<Rightarrow> nat \<Rightarrow> nat \<Rightarrow> (nat \<times> nat) list" where
  "tree_from R C n = concat (map (\<lambda>l. map (Pair l) [l..<C] @ map (\<lambda>i. (i, l)) [Suc l..<R]) [n..<min R C])"

definition left2 :: "iterator2 \<Rightarrow> (nat \<times> nat) list" where
  "left2 it =
     (let r = i2_row it; c = i2_col it; R = i2_rows it; C = i2_cols it; l = i2_level it in
      if r < R \<and> c < C then
        case i2_type it of
          TILE2D_COL_FIRST \<Rightarrow> map (Pair r) [c..<C] @ List.product [Suc r..<R] [i2_col_start it..<C]
        | TILE2D_ROW_FIRST \<Rightarrow> map (\<lambda>i. (i, c)) [r..<R] @ map prod.swap (List.product [Suc c..<C] [i2_row_start it..<R])
        | TILE2D_RIGHT_DOWN_TREE_WISE \<Rightarrow>
            (if i2_state it = 0 then map (Pair r) [c..<C] @ map (\<lambda>i. (i, l)) [Suc l..<R] else map (\<lambda>i. (i, l)) [r..<R]) @
            tree_from R C (Suc l)
      else [])"

definition plan2 :: "iterator2 \<Rightarrow> iterator2 \<Rightarrow> bool" where
  "plan2 e it \<longleftrightarrow> i2_row e = i2_rows it \<and> i2_col e = i2_cols it \<and> i2_row it \<le> i2_rows it \<and> i2_col it \<le> i2_cols it \<and>
     (case i2_type it of
        TILE2D_COL_FIRST \<Rightarrow> i2_col it = i2_cols it \<or> i2_col_start it < i2_cols it
      | TILE2D_ROW_FIRST \<Rightarrow> i2_row it = i2_rows it \<or> i2_row_start it < i2_rows it
      | TILE2D_RIGHT_DOWN_TREE_WISE \<Rightarrow>
          (i2_state it = 0 \<and> i2_row it = i2_level it \<and> i2_level it \<le> i2_col it) \<or>
          (i2_state it = 1 \<and> i2_col it = i2_level it \<and> i2_level it < i2_cols it \<and> i2_level it < i2_row it))"

lemma upt_here: "i < n \<Longrightarrow> [i..<n] = i # [Suc i..<n]"
  by (simp add: upt_conv_Cons)

lemma tree_from_here: "l < R \<Longrightarrow> l < C \<Longrightarrow> tree_from R C l = map (Pair l) [l..<C] @ map (\<lambda>i. (i, l)) [Suc l..<R] @ tree_from R C (Suc l)"
  by (simp add: tree_from_def upt_here [of l "min R C"])

lemma tree_from_end: "R \<le> l \<or> C \<le> l \<Longrightarrow> tree_from R C l = []"
  by (auto simp: tree_from_def)

interpretation walk2: tile_iterator "\<lambda>it. iterator2_ne it e" iterator2_next iterator2_at left2 "plan2 e" for e
proof
  fix it assume p: "plan2 e it"
  have "iterator2_ne it e \<longleftrightarrow> i2_row it < i2_rows it \<and> i2_col it < i2_cols it" using p by (auto simp: plan2_def iterator2_ne_def)
  then show "iterator2_ne it e \<longleftrightarrow> left2 it \<noteq> []"
    by (auto simp: left2_def Let_def upt_here split: Tile2DIteratorType.splits)
next
  fix it assume p: "plan2 e it" and g: "iterator2_ne it e"
  have g: "i2_row it < i2_rows it" "i2_col it < i2_cols it" using p g by (auto simp: plan2_def iterator2_ne_def)
  show "plan2 e (iterator2_next it) \<and> left2 it = iterator2_at it # left2 (iterator2_next it)"
  proof (cases "i2_type it")
    case TILE2D_COL_FIRST
    then show ?thesis using p g
      by (cases "Suc (i2_col it) = i2_cols it"; cases "Suc (i2_row it) = i2_rows it")
        (auto simp: plan2_def left2_def iterator2_next_def iterator2_at_def Let_def upt_here)
  next
    case TILE2D_ROW_FIRST
    then show ?thesis using p g
      by (cases "Suc (i2_col it) = i2_cols it"; cases "Suc (i2_row it) = i2_rows it")
        (auto simp: plan2_def left2_def iterator2_next_def iterator2_at_def Let_def upt_here)
  next
    case TILE2D_RIGHT_DOWN_TREE_WISE
    then show ?thesis using p g
      by (cases "Suc (i2_col it) = i2_cols it"; cases "Suc (i2_row it) = i2_rows it"; cases "Suc (i2_level it) = i2_cols it")
        (auto simp: plan2_def left2_def iterator2_next_def iterator2_at_def Let_def upt_here tree_from_here tree_from_end)
  qed
qed

end
