(* ===== verification/Iris_Tiles.thy ===== *)
theory Iris_Tiles
  imports Iris_Tiling Iris_Defs "HOL-Library.Monad_Syntax"
begin

text \<open>
  The memory objects of tiles (the constructors of \<^verbatim>\<open>DataMem.cpp\<close> that fix sizes and offsets) and the classes \<open>Tiling1D\<close> and
  \<open>Tiling2D\<close>. A pointer into the array a tiling was made for is the number of the element it points to, \<open>None\<close> for a null
  pointer; the array is the list of its bytes. An array of memory handles is fresh after \<open>malloc\<close>: a handle that was not written and
  is used has no result.
\<close>

section \<open>Memory objects\<close>

record geometry =
  g_host :: "nat option"
  g_off :: "nat list"
  g_host_size :: "nat list"
  g_dev_size :: "nat list"
  g_elem_size :: nat
  g_dim :: nat
  g_size :: nat
  g_tile_enabled :: bool

definition overlay :: "nat list \<Rightarrow> nat list \<Rightarrow> nat list" where
  "overlay xs ys = xs @ drop (length xs) ys"

definition extent :: "nat \<Rightarrow> nat list \<Rightarrow> nat" where
  "extent elem_size ns = fold (\<lambda>n sz. sz * n) ns elem_size"

definition DataMem_plain :: "nat option \<Rightarrow> nat \<Rightarrow> geometry" where
  "DataMem_plain host sz =
     \<lparr>g_host = host, g_off = replicate DMEM_MAX_DIM 0, g_host_size = replicate DMEM_MAX_DIM 1, g_dev_size = replicate DMEM_MAX_DIM 1,
      g_elem_size = sz, g_dim = 1, g_size = sz, g_tile_enabled = False\<rparr>"

text \<open>The constructor of a tile sets \<open>tile_enabled_\<close> and then calls \<open>Init\<close>, which clears it.\<close>

definition DataMem_tile :: "nat option \<Rightarrow> nat list \<Rightarrow> nat list \<Rightarrow> nat list \<Rightarrow> nat \<Rightarrow> geometry option" where
  "DataMem_tile host off host_size dev_size elem_size =
     (if length off < DMEM_MAX_DIM then
        (let m = DataMem_plain host (extent elem_size dev_size) in
         Some (m\<lparr>g_dim := length off, g_off := overlay off (g_off m), g_dev_size := overlay dev_size (g_dev_size m),
           g_host_size := overlay host_size (g_host_size m), g_elem_size := elem_size\<rparr>))
      else None)"

definition update_host_size :: "nat list \<Rightarrow> geometry \<Rightarrow> geometry" where
  "update_host_size host_size m =
     (let m = m\<lparr>g_host_size := overlay host_size (g_host_size m)\<rparr> in
      if g_tile_enabled m then m
      else m\<lparr>g_dev_size := overlay host_size (g_dev_size m), g_size := extent (g_elem_size m) host_size\<rparr>)"

text \<open>A tile whose host array is given another size becomes as large as that array.\<close>

lemma tile_grows:
  assumes "DataMem_tile host off hs ds es = Some m" "length hs' = length off" "length ds = length off"
  shows "take (length off) (g_dev_size (update_host_size hs' m)) = hs'" "g_size (update_host_size hs' m) = extent es hs'"
  using assms by (auto simp: DataMem_tile_def update_host_size_def overlay_def Let_def DataMem_plain_def split: if_splits)

text \<open>The handle of a memory object with what the tilings set on it.\<close>

record tile_mem =
  tm_geom :: geometry
  tm_reset :: bool
  tm_usm :: bool
  tm_bc :: "(nat \<times> nat) option"

definition tile_mem_new :: "bool \<Rightarrow> bool \<Rightarrow> (nat \<times> nat) option \<Rightarrow> geometry \<Rightarrow> tile_mem" where
  "tile_mem_new reset usm bc g = \<lparr>tm_geom = g, tm_reset = reset, tm_usm = usm, tm_bc = bc\<rparr>"

text \<open>\<open>iris_data_mem_update\<close>: another host pointer, and no reset is pending.\<close>

definition DataMemUpdate :: "nat option \<Rightarrow> tile_mem \<Rightarrow> tile_mem" where
  "DataMemUpdate host m = m\<lparr>tm_geom := (tm_geom m)\<lparr>g_host := host\<rparr>, tm_reset := False\<rparr>"

text \<open>The transfer to the host by the OpenMP device: \<open>host\<close> is where the object's pointer leads to.\<close>

definition tile_MemD2H :: "nat \<Rightarrow> byte list \<Rightarrow> geometry \<Rightarrow> byte list \<Rightarrow> byte list option" where
  "tile_MemD2H elem dev g data =
     (case g_host g of
        None \<Rightarrow> None
      | Some p \<Rightarrow>
          map_option (\<lambda>host. take (p * elem) data @ host)
            (OpenMP_MemD2H dev (g_off g) (g_host_size g) (g_dev_size g) (g_elem_size g) (g_dim g) (g_size g) (drop (p * elem) data)))"

definition GET2D_INDEX :: "nat \<Rightarrow> nat \<Rightarrow> nat \<Rightarrow> nat" where
  "GET2D_INDEX i j cols = i * cols + j"

definition GET4D_INDEX :: "nat \<Rightarrow> nat \<Rightarrow> nat \<Rightarrow> nat \<Rightarrow> nat \<Rightarrow> nat \<Rightarrow> nat \<Rightarrow> nat" where
  "GET4D_INDEX i j k l n p q = i * n * p * q + j * p * q + k * q + l"

section \<open>One dimension\<close>

record iterator1 =
  i1_row :: nat
  i1_rows :: nat

definition iterator1_ne :: "iterator1 \<Rightarrow> iterator1 \<Rightarrow> bool" where "iterator1_ne a b \<longleftrightarrow> i1_row a \<noteq> i1_row b"
definition iterator1_next :: "iterator1 \<Rightarrow> iterator1" where "iterator1_next it = it\<lparr>i1_row := i1_row it + 1\<rparr>"

interpretation walk1: tile_iterator "\<lambda>it. iterator1_ne it e" iterator1_next i1_row "\<lambda>it. [i1_row it..<i1_rows it]"
  "\<lambda>it. i1_row e = i1_rows it \<and> i1_row it \<le> i1_rows it" for e
  by unfold_locales (auto simp: iterator1_ne_def iterator1_next_def upt_conv_Cons)

record Tiling1D =
  t1_data :: "nat option"
  t1_mems :: "tile_mem list option"
  t1_tiles :: "nat list"
  t1_usm :: bool
  t1_reset :: bool
  t1_row_size :: nat
  t1_row_stride :: nat
  t1_row_tile_size :: nat
  t1_row_offset :: nat
  t1_rows :: nat

definition Tiling1D_default :: Tiling1D where
  "Tiling1D_default = \<lparr>t1_data = None, t1_mems = None, t1_tiles = [], t1_usm = False, t1_reset = False, t1_row_size = 0, t1_row_stride = 0,
     t1_row_tile_size = 0, t1_row_offset = 0, t1_rows = 0\<rparr>"

definition InitCore1 :: "nat \<Rightarrow> nat option \<Rightarrow> nat \<Rightarrow> nat \<Rightarrow> bool \<Rightarrow> bool \<Rightarrow> Tiling1D" where
  "InitCore1 elem data row_size row_tile_size usm reset =
     \<lparr>t1_data = data, t1_mems = None, t1_tiles = [], t1_usm = usm, t1_reset = reset, t1_row_size = row_size, t1_row_stride = row_tile_size,
      t1_row_tile_size = row_tile_size, t1_row_offset = elem, t1_rows = 0\<rparr>"

definition AllocateTiles1 :: "Tiling1D \<Rightarrow> Tiling1D" where
  "AllocateTiles1 t = t\<lparr>t1_tiles := [0..<t1_rows t]\<rparr>"

definition AllocateIRISMem1 :: "nat \<Rightarrow> Tiling1D \<Rightarrow> Tiling1D option" where
  "AllocateIRISMem1 elem t =
     map_option (\<lambda>gs. t\<lparr>t1_mems := Some (map (tile_mem_new (t1_reset t) (t1_usm t) None) gs)\<rparr>)
       (those (map (\<lambda>i. DataMem_tile (t1_data t) [i * t1_row_tile_size t] [t1_row_size t] [t1_row_tile_size t] elem) [0..<t1_rows t]))"

text \<open>Both overloads of \<open>Init\<close>; the stride is kept and never used.\<close>

definition Tiling1D_Init :: "nat \<Rightarrow> nat option \<Rightarrow> nat \<Rightarrow> nat \<Rightarrow> nat option \<Rightarrow> bool \<Rightarrow> bool \<Rightarrow> Tiling1D option" where
  "Tiling1D_Init elem data row_size row_tile_size stride usm reset =
     Option.bind (GET_TILE_COUNT row_size row_tile_size) (\<lambda>n.
       AllocateIRISMem1 elem (AllocateTiles1 ((InitCore1 elem data row_size row_tile_size usm reset)
         \<lparr>t1_row_stride := (case stride of None \<Rightarrow> row_tile_size | Some s \<Rightarrow> s), t1_rows := n\<rparr>)))"

definition ResetNullHost1 :: "Tiling1D \<Rightarrow> Tiling1D" where
  "ResetNullHost1 t = t\<lparr>t1_mems := map_option (map (DataMemUpdate None)) (t1_mems t)\<rparr>"

definition ResetHost1 :: "nat option \<Rightarrow> Tiling1D \<Rightarrow> Tiling1D" where
  "ResetHost1 data t =
     (case t1_mems t of
        None \<Rightarrow> t
      | Some ms \<Rightarrow>
          let data = (if data = None then t1_data t else data)
          in t\<lparr>t1_data := data, t1_mems := Some (map (DataMemUpdate data) ms)\<rparr>)"

definition GetAt1 :: "Tiling1D \<Rightarrow> nat \<Rightarrow> nat option" where "GetAt1 t i = cell (t1_tiles t) i"

definition Host1 :: "Tiling1D \<Rightarrow> nat \<Rightarrow> nat option" where
  "Host1 t i = map_option (\<lambda>p. p + i * t1_row_tile_size t) (t1_data t)"

definition IRISMem1 :: "Tiling1D \<Rightarrow> nat \<Rightarrow> tile_mem option" where
  "IRISMem1 t i = Option.bind (t1_mems t) (\<lambda>ms. cell ms i)"

text \<open>\<open>items\<close> and \<open>zitems\<close> from a start. A null pointer plus an offset, which \<open>Host\<close> does not test for, is no pointer.\<close>

definition items1 :: "Tiling1D \<Rightarrow> nat \<Rightarrow> int \<Rightarrow> nat list option" where
  "items1 t start n =
     map_option (repeated n)
       (iterate (\<lambda>it. iterator1_ne it \<lparr>i1_row = t1_rows t, i1_rows = t1_rows t\<rparr>) (\<lambda>it. GetAt1 t (i1_row it)) iterator1_next
         \<lparr>i1_row = start, i1_rows = t1_rows t\<rparr>)"

lemma items1_all:
  assumes "t1_tiles t = [0..<t1_rows t]" "start \<le> t1_rows t"
  shows "items1 t start n = Some (repeated n [start..<t1_rows t])"
proof -
  have "those (map (GetAt1 t) [start..<t1_rows t]) = Some (map id [start..<t1_rows t])"
    by (rule those_map) (simp add: GetAt1_def assms(1) cell_def)
  then show ?thesis using walk1.lists [of "\<lparr>i1_row = t1_rows t, i1_rows = t1_rows t\<rparr>" "\<lparr>i1_row = start, i1_rows = t1_rows t\<rparr>" "GetAt1 t"] assms(2)
    by (simp add: items1_def)
qed

section \<open>Two dimensions\<close>

text \<open>\<open>flattened\<close>: the array is rewritten tile after tile. \<open>t2_data\<close> is the array's content, \<open>t2_flat\<close> that of the second buffer; the
  handles are an array of cells, unwritten ones are \<open>None\<close>.\<close>

record Tiling2D =
  t2_data :: "byte list option"
  t2_flat :: "byte list option"
  t2_flattened :: bool
  t2_reset :: bool
  t2_usm :: bool
  t2_bc :: bool
  t2_mems :: "tile_mem option list option"
  t2_tiles :: "(nat \<times> nat) list"
  t2_iterator_type :: Tile2DIteratorType
  t2_row_size :: nat
  t2_col_size :: nat
  t2_row_stride :: nat
  t2_col_stride :: nat
  t2_row_tile_size :: nat
  t2_col_tile_size :: nat
  t2_rows :: nat
  t2_cols :: nat
  t2_elem :: nat

definition InitCore2 :: "nat \<Rightarrow> byte list option \<Rightarrow> nat \<Rightarrow> nat \<Rightarrow> nat \<Rightarrow> nat \<Rightarrow> bool \<Rightarrow> bool \<Rightarrow> bool \<Rightarrow> bool \<Rightarrow> Tiling2D" where
  "InitCore2 elem data row_size col_size row_tile_size col_tile_size flattened bc reset usm =
     \<lparr>t2_data = data, t2_flat = None, t2_flattened = (usm \<or> flattened), t2_reset = reset, t2_usm = usm, t2_bc = bc, t2_mems = None,
      t2_tiles = [], t2_iterator_type = TILE2D_COL_FIRST, t2_row_size = row_size, t2_col_size = col_size, t2_row_stride = row_tile_size,
      t2_col_stride = col_tile_size, t2_row_tile_size = row_tile_size, t2_col_tile_size = col_tile_size, t2_rows = 0, t2_cols = 0,
      t2_elem = elem\<rparr>"

definition tile_grid :: "Tiling2D \<Rightarrow> (nat \<times> nat) list" where
  "tile_grid t = List.product [0..<t2_rows t] [0..<t2_cols t]"

text \<open>The cell of tile \<open>(i, j)\<close> is \<open>i * cols + j\<close>: the cells are written in the order of the loops.\<close>

definition AllocateTiles2 :: "Tiling2D \<Rightarrow> Tiling2D" where
  "AllocateTiles2 t = t\<lparr>t2_tiles := tile_grid t\<rparr>"

definition flat_at :: "Tiling2D \<Rightarrow> nat \<Rightarrow> nat \<Rightarrow> nat \<Rightarrow> nat" where
  "flat_at t i j k = GET4D_INDEX i j k 0 (t2_cols t) (t2_row_tile_size t) (t2_col_tile_size t)"

definition data_at :: "Tiling2D \<Rightarrow> nat \<Rightarrow> nat \<Rightarrow> nat \<Rightarrow> nat" where
  "data_at t i j k = GET2D_INDEX (i * t2_row_tile_size t + k) (j * t2_col_tile_size t + 0) (t2_col_size t)"

text \<open>Both copies go over the rows of the tiles; \<open>Flat2Tiled\<close> then writes the whole of the second buffer over the array.\<close>

definition tile_rows_copy :: "(nat \<Rightarrow> nat \<Rightarrow> nat \<Rightarrow> nat) \<Rightarrow> (nat \<Rightarrow> nat \<Rightarrow> nat \<Rightarrow> nat) \<Rightarrow> Tiling2D \<Rightarrow> byte list \<Rightarrow> byte list \<Rightarrow> byte list option" where
  "tile_rows_copy D S t src dst =
     opt_fold (\<lambda>i. opt_fold (\<lambda>j. opt_fold (\<lambda>k dst.
       memcpy dst (D i j k * t2_elem t) src (S i j k * t2_elem t) (t2_col_tile_size t * t2_elem t)) [0..<t2_row_tile_size t]) [0..<t2_cols t])
       [0..<t2_rows t] dst"

definition Flat2Tiled :: "Tiling2D \<Rightarrow> Tiling2D option" where
  "Flat2Tiled t =
     do { data \<leftarrow> t2_data t; flat \<leftarrow> t2_flat t;
          flat \<leftarrow> tile_rows_copy (flat_at t) (data_at t) t data flat;
          data \<leftarrow> memcpy data 0 flat 0 (t2_row_size t * t2_col_size t * t2_elem t);
          Some (t\<lparr>t2_flat := Some flat, t2_data := Some data\<rparr>) }"

definition Tiled2Flat :: "Tiling2D \<Rightarrow> Tiling2D option" where
  "Tiled2Flat t =
     do { data \<leftarrow> t2_data t; flat \<leftarrow> t2_flat t;
          data \<leftarrow> tile_rows_copy (data_at t) (flat_at t) t flat data;
          Some (t\<lparr>t2_data := Some data\<rparr>) }"

text \<open>\<open>junk\<close> is what \<open>malloc\<close> returns.\<close>

definition AllocateFlattenedData :: "byte list \<Rightarrow> Tiling2D \<Rightarrow> Tiling2D option" where
  "AllocateFlattenedData junk t =
     (if t2_flattened t
      then Flat2Tiled (t\<lparr>t2_flat := Some (take (t2_elem t * t2_rows t * t2_cols t * t2_row_tile_size t * t2_col_tile_size t) junk)\<rparr>)
      else Some t)"

definition tile_host :: "Tiling2D \<Rightarrow> nat \<Rightarrow> nat \<Rightarrow> nat option" where
  "tile_host t i j = map_option (\<lambda>_. if t2_flattened t then flat_at t i j 0 else 0) (t2_data t)"

definition create_tile_mem :: "Tiling2D \<Rightarrow> nat \<times> nat \<Rightarrow> tile_mem option" where
  "create_tile_mem t p = (case p of (i, j) \<Rightarrow>
     if t2_flattened t then
       Some (tile_mem_new (t2_reset t) (t2_usm t) None
         (DataMem_plain (tile_host t i j) (t2_row_tile_size t * t2_col_tile_size t * t2_elem t)))
     else
       map_option (tile_mem_new (t2_reset t) False (if t2_bc t then Some (i, j) else None))
         (DataMem_tile (tile_host t i j) [j * t2_col_tile_size t, i * t2_row_tile_size t] [t2_col_size t, t2_row_size t]
           [t2_col_tile_size t, t2_row_tile_size t] (t2_elem t)))"

text \<open>A flattened tiling without data makes no objects.\<close>

definition AllocateIRISMem2 :: "Tiling2D \<Rightarrow> Tiling2D option" where
  "AllocateIRISMem2 t =
     (if t2_flattened t \<and> t2_data t = None then Some (t\<lparr>t2_mems := Some (replicate (t2_rows t * t2_cols t) None)\<rparr>)
      else map_option (\<lambda>ms. t\<lparr>t2_mems := Some (map Some ms)\<rparr>) (those (map (create_tile_mem t) (tile_grid t))))"

text \<open>The overload without strides passes none.\<close>

definition Tiling2D_Init :: "byte list \<Rightarrow> nat \<Rightarrow> byte list option \<Rightarrow> nat \<Rightarrow> nat \<Rightarrow> nat \<Rightarrow> nat \<Rightarrow> (nat \<times> nat) option \<Rightarrow>
    bool \<Rightarrow> bool \<Rightarrow> bool \<Rightarrow> bool \<Rightarrow> Tiling2D option" where
  "Tiling2D_Init junk elem data row_size col_size row_tile_size col_tile_size strides flattened bc reset usm =
     do { n \<leftarrow> GET_TILE_COUNT row_size row_tile_size;
          m \<leftarrow> GET_TILE_COUNT col_size col_tile_size;
          t \<leftarrow> AllocateFlattenedData junk (AllocateTiles2 ((InitCore2 elem data row_size col_size row_tile_size col_tile_size flattened bc reset usm)
            \<lparr>t2_row_stride := (case strides of None \<Rightarrow> row_tile_size | Some s \<Rightarrow> fst s),
               t2_col_stride := (case strides of None \<Rightarrow> col_tile_size | Some s \<Rightarrow> snd s), t2_rows := n, t2_cols := m\<rparr>));
          AllocateIRISMem2 t }"

definition update_mems :: "(nat \<times> nat \<Rightarrow> nat option) \<Rightarrow> Tiling2D \<Rightarrow> Tiling2D option" where
  "update_mems host t =
     (case t2_mems t of
        None \<Rightarrow> Some t
      | Some ms \<Rightarrow>
          map_option (\<lambda>ms. t\<lparr>t2_mems := Some (map Some ms)\<rparr>)
            (those (map (\<lambda>p. map_option (DataMemUpdate (host p)) (Option.bind (cell ms (fst p * t2_cols t + snd p)) (\<lambda>m. m))) (tile_grid t))))"

definition ResetNullHost2 :: "Tiling2D \<Rightarrow> Tiling2D option" where
  "ResetNullHost2 = update_mems (\<lambda>_. None)"

definition ResetHost2 :: "byte list option \<Rightarrow> Tiling2D \<Rightarrow> Tiling2D option" where
  "ResetHost2 gdata t =
     (if t2_mems t = None then Some t
      else do { t \<leftarrow> (case gdata of
                        None \<Rightarrow> Some t
                      | Some d \<Rightarrow> if t2_flattened t then Flat2Tiled (t\<lparr>t2_data := Some d\<rparr>) else Some (t\<lparr>t2_data := Some d\<rparr>));
                update_mems (\<lambda>p. tile_host t (fst p) (snd p)) t })"

definition GetAt2 :: "Tiling2D \<Rightarrow> nat \<times> nat \<Rightarrow> (nat \<times> nat) option" where
  "GetAt2 t p = cell (t2_tiles t) (fst p * t2_cols t + snd p)"

definition Host2 :: "Tiling2D \<Rightarrow> nat \<Rightarrow> nat \<Rightarrow> nat option" where
  "Host2 t i j = map_option (\<lambda>_. if t2_flattened t then flat_at t i j 0 else data_at t i j 0) (t2_data t)"

definition IRISMem2 :: "Tiling2D \<Rightarrow> nat \<times> nat \<Rightarrow> tile_mem option" where
  "IRISMem2 t p = Option.bind (t2_mems t) (\<lambda>ms. Option.bind (cell ms (GET2D_INDEX (fst p) (snd p) (t2_cols t))) (\<lambda>m. m))"

definition GetSize2 :: "Tiling2D \<Rightarrow> nat" where "GetSize2 t = t2_rows t * t2_cols t"

definition begin2 :: "Tiling2D \<Rightarrow> nat \<Rightarrow> nat \<Rightarrow> Tile2DIteratorType \<Rightarrow> iterator2" where
  "begin2 t row col = iterator2_new row col (t2_rows t) (t2_cols t)"

definition end2 :: "Tiling2D \<Rightarrow> Tile2DIteratorType \<Rightarrow> iterator2" where
  "end2 t = iterator2_new (t2_rows t) (t2_cols t) (t2_rows t) (t2_cols t)"

definition items2 :: "Tiling2D \<Rightarrow> nat \<Rightarrow> nat \<Rightarrow> Tile2DIteratorType \<Rightarrow> int \<Rightarrow> (nat \<times> nat) list option" where
  "items2 t row col type n =
     map_option (repeated n)
       (iterate (\<lambda>it. iterator2_ne it (end2 t type)) (\<lambda>it. GetAt2 t (iterator2_at it)) iterator2_next (begin2 t row col type))"

section \<open>Transposition\<close>

text \<open>\<open>Transpose\<close>, on the elements of the array; an array that is not square fails the assertion.\<close>

definition swap_elements :: "nat \<Rightarrow> nat \<Rightarrow> 'a list \<Rightarrow> 'a list option" where
  "swap_elements a b xs = do { tmp \<leftarrow> cell xs a; y \<leftarrow> cell xs b; xs \<leftarrow> store xs a y; store xs b tmp }"

definition Transpose :: "nat \<Rightarrow> nat \<Rightarrow> 'a list \<Rightarrow> 'a list option" where
  "Transpose row_size col_size xs =
     (if row_size = col_size
      then opt_fold (\<lambda>i. opt_fold (\<lambda>j. swap_elements (GET2D_INDEX j i col_size) (GET2D_INDEX i j col_size)) [0..<i]) [0..<row_size] xs
      else None)"

end
