(* ===== verification/Iris_TilesProps.thy ===== *)
theory Iris_TilesProps
  imports Iris_Tiles
begin

text \<open>
  What tilings promise: every iterator lists every tile once, the copy between the two layouts is a permutation of rows, and the transfers
  of all tiles put the array together, in either layout and in any order.
\<close>

section \<open>Every tile once\<close>

lemma tree_from_tiles: "distinct (tree_from R C l) \<and> set (tree_from R C l) = {l..<R} \<times> {l..<C}"
proof (induction "min R C - l" arbitrary: l)
  case 0
  then have "R \<le> l \<or> C \<le> l" by linarith
  then show ?case by (auto simp: tree_from_end)
next
  case (Suc n)
  then have l: "l < R" "l < C" "n = min R C - Suc l" by auto
  from Suc.hyps(1) [OF l(3)] have "distinct (tree_from R C (Suc l))" "set (tree_from R C (Suc l)) = {Suc l..<R} \<times> {Suc l..<C}" by auto
  with l(1,2) show ?case by (auto simp: tree_from_here distinct_map inj_on_def image_iff)
qed

lemma left2_start:
  "distinct (left2 (iterator2_new 0 0 R C type)) \<and> set (left2 (iterator2_new 0 0 R C type)) = {..<R} \<times> {..<C}"
proof (cases "0 < R \<and> 0 < C")
  case True
  show ?thesis
  proof (cases type)
    case TILE2D_COL_FIRST
    have "map (Pair 0) [0..<C] @ List.product [Suc 0..<R] [0..<C] = List.product [0..<R] [0..<C]"
      using True by (simp add: upt_here [of 0 R])
    with True TILE2D_COL_FIRST show ?thesis
      by (auto simp: left2_def iterator2_new_def Let_def distinct_product atLeast0LessThan [symmetric])
  next
    case TILE2D_ROW_FIRST
    have "map (\<lambda>i. (i, 0)) [0..<R] @ map prod.swap (List.product [Suc 0..<C] [0..<R]) = map prod.swap (List.product [0..<C] [0..<R])"
      using True by (simp add: upt_here [of 0 C])
    with True TILE2D_ROW_FIRST show ?thesis
      by (auto simp: left2_def iterator2_new_def Let_def distinct_product distinct_map)
  next
    case TILE2D_RIGHT_DOWN_TREE_WISE
    with True tree_from_tiles [of R C 0] show ?thesis
      by (simp add: left2_def iterator2_new_def Let_def tree_from_here [of 0] atLeast0LessThan)
  qed
next
  case False
  then show ?thesis by (auto simp: left2_def iterator2_new_def Let_def)
qed

text \<open>What the two allocations leave alone.\<close>

definition same_grid :: "Tiling2D \<Rightarrow> Tiling2D \<Rightarrow> bool" where
  "same_grid t t' \<longleftrightarrow> t2_tiles t' = t2_tiles t \<and> t2_rows t' = t2_rows t \<and> t2_cols t' = t2_cols t"

lemma AllocateIRISMem2_grid: "AllocateIRISMem2 t = Some t' \<Longrightarrow> same_grid t t'"
  by (auto simp: AllocateIRISMem2_def same_grid_def split: if_splits)

lemma Flat2Tiled_grid: "Flat2Tiled t = Some t' \<Longrightarrow> same_grid t t'"
  by (auto simp: Flat2Tiled_def same_grid_def bind_eq_Some_conv)

lemma AllocateFlattenedData_grid:
  assumes "AllocateFlattenedData junk t = Some t'"
  shows "same_grid t t'"
proof (cases "t2_flattened t")
  case True
  with assms obtain f where "Flat2Tiled (t\<lparr>t2_flat := f\<rparr>) = Some t'" by (auto simp: AllocateFlattenedData_def)
  from Flat2Tiled_grid [OF this] show ?thesis by (simp add: same_grid_def)
next
  case False
  with assms show ?thesis by (simp add: AllocateFlattenedData_def same_grid_def)
qed

lemma Init_tiles:
  assumes "Tiling2D_Init junk elem data rs cs rts cts strides flattened bc reset usm = Some t"
  shows "t2_tiles t = tile_grid t" "GET_TILE_COUNT rs rts = Some (t2_rows t)" "GET_TILE_COUNT cs cts = Some (t2_cols t)"
proof -
  let ?t0 = "\<lambda>n m. (InitCore2 elem data rs cs rts cts flattened bc reset usm)\<lparr>t2_row_stride := (case strides of None \<Rightarrow> rts | Some s \<Rightarrow> fst s),
    t2_col_stride := (case strides of None \<Rightarrow> cts | Some s \<Rightarrow> snd s), t2_rows := n, t2_cols := m\<rparr>"
  from assms obtain n m t1 where t: "GET_TILE_COUNT rs rts = Some n" "GET_TILE_COUNT cs cts = Some m"
    "AllocateFlattenedData junk (AllocateTiles2 (?t0 n m)) = Some t1" "AllocateIRISMem2 t1 = Some t"
    unfolding Tiling2D_Init_def bind_eq_Some_conv by blast
  from AllocateFlattenedData_grid [OF t(3)] AllocateIRISMem2_grid [OF t(4)] t(1,2)
  show "t2_tiles t = tile_grid t" "GET_TILE_COUNT rs rts = Some (t2_rows t)" "GET_TILE_COUNT cs cts = Some (t2_cols t)"
    by (simp_all add: same_grid_def AllocateTiles2_def tile_grid_def)
qed

lemma create_tile_mem_Some: "create_tile_mem t p = Some (the (create_tile_mem t p))"
  by (simp add: create_tile_mem_def DataMem_tile_def DMEM_MAX_DIM_def Let_def split: prod.split)

lemma AllocateIRISMem2_Some:
  assumes "\<not> t2_flattened t \<or> t2_data t \<noteq> None"
  shows "AllocateIRISMem2 t = Some (t\<lparr>t2_mems := Some (map (create_tile_mem t) (tile_grid t))\<rparr>)"
proof -
  have "those (map (create_tile_mem t) (tile_grid t)) = Some (map (\<lambda>p. the (create_tile_mem t p)) (tile_grid t))"
    using create_tile_mem_Some by (rule those_map)
  moreover have "map Some (map (\<lambda>p. the (create_tile_mem t p)) (tile_grid t)) = map (create_tile_mem t) (tile_grid t)"
    using create_tile_mem_Some [symmetric] by simp
  ultimately show ?thesis using assms by (auto simp: AllocateIRISMem2_def)
qed

lemma Init_plain:
  assumes "GET_TILE_COUNT rs rts = Some n" "GET_TILE_COUNT cs cts = Some m"
  shows "\<exists>t. Tiling2D_Init junk elem data rs cs rts cts strides False bc reset False = Some t \<and> t2_rows t = n \<and> t2_cols t = m \<and>
    t2_row_size t = rs \<and> t2_col_size t = cs \<and> t2_row_tile_size t = rts \<and> t2_col_tile_size t = cts \<and> t2_data t = data \<and> t2_elem t = elem \<and>
    \<not> t2_flattened t"
  using assms by (simp add: Tiling2D_Init_def AllocateFlattenedData_def AllocateIRISMem2_Some InitCore2_def AllocateTiles2_def)

lemma grid_cell: "i < R \<Longrightarrow> j < C \<Longrightarrow> cell (List.product [0..<R] [0..<C]) (i * C + j) = Some (i, j)"
  using row_index_less [of i R j C] by (simp add: product_nth)

lemma items2_plan:
  assumes "t2_tiles t = tile_grid t" "plan2 (end2 t type) (begin2 t r c type)"
    "set (left2 (begin2 t r c type)) \<subseteq> {..<t2_rows t} \<times> {..<t2_cols t}"
  shows "items2 t r c type 1 = Some (left2 (begin2 t r c type))"
proof -
  have "those (map (GetAt2 t) (left2 (begin2 t r c type))) = Some (map id (left2 (begin2 t r c type)))"
  proof (rule those_map)
    fix p assume "p \<in> set (left2 (begin2 t r c type))"
    with assms(3) have "fst p < t2_rows t" "snd p < t2_cols t" by auto
    from grid_cell [OF this] show "GetAt2 t p = Some (id p)" by (simp add: GetAt2_def assms(1) tile_grid_def del: cell_Some)
  qed
  with walk2.lists [OF assms(2), of "GetAt2 t"] show ?thesis by (simp add: items2_def repeated_1)
qed

text \<open>C33. Whatever the sizes and the order, the list of a tiling's tiles is complete and names no tile twice; the loop that makes it
  ends and never leaves the array of tiles.\<close>

theorem tiles_visited_once:
  assumes "Tiling2D_Init junk elem data rs cs rts cts strides flattened bc reset usm = Some t"
  shows "\<exists>ts. items2 t 0 0 type 1 = Some ts \<and> distinct ts \<and> set ts = {..<t2_rows t} \<times> {..<t2_cols t}"
proof -
  have "plan2 (end2 t type) (begin2 t 0 0 type)"
    by (auto simp: plan2_def end2_def begin2_def iterator2_new_def split: Tile2DIteratorType.splits)
  with items2_plan [OF Init_tiles(1) [OF assms], of type 0 0] left2_start [of "t2_rows t" "t2_cols t" type]
  show ?thesis by (simp add: begin2_def)
qed

text \<open>The orders of a grid of two rows and three columns.\<close>

theorem tiles_visited_once_witness:
  "\<exists>t ts. Tiling2D_Init [] 4 None 4 6 2 2 None False False True False = Some t \<and> items2 t 0 0 TILE2D_RIGHT_DOWN_TREE_WISE 1 = Some ts \<and>
     distinct ts \<and> length ts = 6"
proof -
  have "GET_TILE_COUNT 4 2 = Some 2" "GET_TILE_COUNT 6 2 = Some 3" using tile_count_exact [of 2 2] tile_count_exact [of 2 3] by simp_all
  from Init_plain [OF this] obtain t where
    t: "Tiling2D_Init [] 4 None 4 6 2 2 None False False True False = Some t" "t2_rows t = 2" "t2_cols t = 3" by blast
  from tiles_visited_once [OF t(1), of TILE2D_RIGHT_DOWN_TREE_WISE] obtain ts where
    "items2 t 0 0 TILE2D_RIGHT_DOWN_TREE_WISE 1 = Some ts" "distinct ts" "set ts = {..<2} \<times> {..<3}" using t(2,3) by auto
  with t(1) distinct_card [of ts] show ?thesis by (intro exI [of _ t] exI [of _ ts]) (simp add: card_cartesian_product)
qed

text \<open>From another start the tree-wise order goes back to the columns before it.\<close>

lemma tree_from_start_repeats:
  assumes "t2_tiles t = tile_grid t" "t2_rows t = 3" "t2_cols t = 3"
  shows "items2 t 1 1 TILE2D_RIGHT_DOWN_TREE_WISE 1 = Some [(1, 1), (1, 2), (2, 0), (1, 1), (1, 2), (2, 1), (2, 2)]"
proof -
  have "List.product [0..<3] [0..<3] = [(0, 0), (0, 1), (0, 2), (1, 0), (1, 1), (1, 2), (2, 0), (2, 1), (2, 2 :: nat)]" by code_simp
  then show ?thesis using assms
    by (simp add: items2_def iterate.simps end2_def begin2_def iterator2_new_def iterator2_ne_def iterator2_next_def iterator2_at_def GetAt2_def
        tile_grid_def cell_def repeated_1 Let_def numeral_2_eq_2)
qed

section \<open>The two layouts\<close>

text \<open>Sizes the tiles fill exactly, and an array of that size. Then both layouts are sequences of rows of tiles.\<close>

definition fills :: "Tiling2D \<Rightarrow> bool" where
  "fills t \<longleftrightarrow> t2_row_size t = t2_rows t * t2_row_tile_size t \<and> t2_col_size t = t2_cols t * t2_col_tile_size t"

definition array_bytes :: "Tiling2D \<Rightarrow> nat" where
  "array_bytes t = t2_row_size t * t2_col_size t * t2_elem t"

abbreviation row_bytes :: "Tiling2D \<Rightarrow> nat" where
  "row_bytes t \<equiv> t2_col_tile_size t * t2_elem t"

definition flat_row :: "Tiling2D \<Rightarrow> nat \<times> nat \<times> nat \<Rightarrow> nat" where
  "flat_row t p = (case p of (i, j, k) \<Rightarrow> (i * t2_cols t + j) * t2_row_tile_size t + k)"

definition data_row :: "Tiling2D \<Rightarrow> nat \<times> nat \<times> nat \<Rightarrow> nat" where
  "data_row t p = (case p of (i, j, k) \<Rightarrow> (i * t2_row_tile_size t + k) * t2_cols t + j)"

definition tile_rows :: "Tiling2D \<Rightarrow> (nat \<times> nat \<times> nat) set" where
  "tile_rows t = {..<t2_rows t} \<times> {..<t2_cols t} \<times> {..<t2_row_tile_size t}"

abbreviation n_rows :: "Tiling2D \<Rightarrow> nat" where
  "n_rows t \<equiv> t2_rows t * t2_cols t * t2_row_tile_size t"

lemma flat_at_row: "flat_at t i j k = flat_row t (i, j, k) * t2_col_tile_size t"
  by (simp add: flat_at_def GET4D_INDEX_def flat_row_def algebra_simps)

lemma data_at_row: "fills t \<Longrightarrow> data_at t i j k = data_row t (i, j, k) * t2_col_tile_size t"
  by (simp add: data_at_def GET2D_INDEX_def data_row_def fills_def algebra_simps)

lemma array_rows: "fills t \<Longrightarrow> array_bytes t = n_rows t * row_bytes t"
  by (simp add: array_bytes_def fills_def algebra_simps)

text \<open>A numbering of the rows: distinct numbers below their count, and all of them.\<close>

definition numbers :: "Tiling2D \<Rightarrow> (nat \<times> nat \<times> nat \<Rightarrow> nat) \<Rightarrow> bool" where
  "numbers t f \<longleftrightarrow> inj_on f (tile_rows t) \<and> f ` tile_rows t = {..<n_rows t}"

lemma numbersI:
  assumes "inj_on f (tile_rows t)" "\<And>p. p \<in> tile_rows t \<Longrightarrow> f p < n_rows t"
  shows "numbers t f"
proof -
  have "card (f ` tile_rows t) = n_rows t" using assms(1) by (simp add: card_image tile_rows_def card_cartesian_product)
  moreover have "f ` tile_rows t \<subseteq> {..<n_rows t}" using assms(2) by auto
  ultimately show ?thesis using assms(1) card_subset_eq [of "{..<n_rows t}" "f ` tile_rows t"] by (simp add: numbers_def)
qed

lemma flat_numbers: "numbers t (flat_row t)"
proof (rule numbersI)
  show "inj_on (flat_row t) (tile_rows t)"
  proof (rule inj_onI)
    fix p q assume "p \<in> tile_rows t" "q \<in> tile_rows t" "flat_row t p = flat_row t q"
    then show "p = q" using row_index_inj [of "fst p * t2_cols t + fst (snd p)" "t2_row_tile_size t" "snd (snd p)"
        "fst q * t2_cols t + fst (snd q)" "snd (snd q)"] row_index_inj [of "fst p" "t2_cols t" "fst (snd p)" "fst q" "fst (snd q)"]
      by (auto simp: tile_rows_def flat_row_def split: prod.splits)
  qed
  show "flat_row t p < n_rows t" if "p \<in> tile_rows t" for p
    using that by (auto simp: tile_rows_def flat_row_def intro!: row_index_less)
qed

lemma data_numbers: "numbers t (data_row t)"
proof (rule numbersI)
  show "inj_on (data_row t) (tile_rows t)"
  proof (rule inj_onI)
    fix p q assume "p \<in> tile_rows t" "q \<in> tile_rows t" "data_row t p = data_row t q"
    then show "p = q" using row_index_inj [of "fst p * t2_row_tile_size t + snd (snd p)" "t2_cols t" "fst (snd p)"
        "fst q * t2_row_tile_size t + snd (snd q)" "fst (snd q)"] row_index_inj [of "fst p" "t2_row_tile_size t" "snd (snd p)" "fst q" "snd (snd q)"]
      by (auto simp: tile_rows_def data_row_def split: prod.splits)
  qed
  show "data_row t p < n_rows t" if "p \<in> tile_rows t" for p
  proof -
    have "data_row t p < t2_rows t * t2_row_tile_size t * t2_cols t"
      using that by (auto simp: tile_rows_def data_row_def intro!: row_index_less)
    then show ?thesis by (simp add: mult_ac)
  qed
qed

lemma numbered:
  assumes "numbers t f" "x < n_rows t * row_bytes t"
  shows "\<exists>p \<in> tile_rows t. \<exists>b < row_bytes t. x = f p * row_bytes t + b"
proof -
  have w: "0 < row_bytes t" using assms(2) by (cases "row_bytes t") auto
  then have "x div row_bytes t < n_rows t" using assms(2) by (simp add: div_less_iff_less_mult)
  then have "x div row_bytes t \<in> f ` tile_rows t" using assms(1) by (simp add: numbers_def)
  then obtain p where "p \<in> tile_rows t" "f p = x div row_bytes t" by force
  moreover from this(2) have "x = f p * row_bytes t + x mod row_bytes t" by (simp only: div_mult_mod_eq)
  moreover have "x mod row_bytes t < row_bytes t" using w by (rule mod_less_divisor)
  ultimately show ?thesis by blast
qed

lemma opt_fold_map: "opt_fold f (map g xs) s = opt_fold (\<lambda>x. f (g x)) xs s"
proof (induction xs arbitrary: s)
  case (Cons x xs)
  have "opt_fold f (map g xs) = opt_fold (\<lambda>x. f (g x)) xs" by (rule ext) (rule Cons)
  then show ?case by simp
qed simp

lemma rows_permuted:
  assumes "numbers t f" "numbers t g" "\<And>i j k. D i j k = f (i, j, k) * t2_col_tile_size t" "\<And>i j k. S i j k = g (i, j, k) * t2_col_tile_size t"
    "length dst = n_rows t * row_bytes t" "length src = n_rows t * row_bytes t"
  shows "\<exists>dst'. tile_rows_copy D S t src dst = Some dst' \<and> length dst' = length dst \<and>
    (\<forall>p \<in> tile_rows t. \<forall>b < row_bytes t. dst' ! (f p * row_bytes t + b) = src ! (g p * row_bytes t + b))"
proof -
  let ?w = "row_bytes t" and ?r = "\<lambda>p. (fst (fst p), snd (fst p), snd p)"
  let ?qs = "List.product (List.product [0..<t2_rows t] [0..<t2_cols t]) [0..<t2_row_tile_size t]"
  let ?ps = "map ?r ?qs"
  have ps: "set ?ps = tile_rows t" by (force simp: tile_rows_def)
  have "inj_on ?r (set ?qs)" by (auto simp: inj_on_def)
  then have dps: "distinct ?ps" by (simp add: distinct_map distinct_product)
  have fold: "tile_rows_copy D S t src dst = opt_fold (\<lambda>p dst. memcpy dst (f p * ?w) src (g p * ?w) ?w) ?ps dst"
    by (simp add: tile_rows_copy_def opt_fold_nested opt_fold_map assms(3,4) mult.assoc)
  have "\<exists>dst'. opt_fold (\<lambda>p dst. memcpy dst (f p * ?w) src (g p * ?w) ?w) ?ps dst = Some dst' \<and> length dst' = length dst \<and>
      (\<forall>p \<in> set ?ps. \<forall>b < ?w. dst' ! (f p * ?w + b) = src ! (g p * ?w + b)) \<and>
      (\<forall>k < length dst. (\<forall>p \<in> set ?ps. \<not> (f p * ?w \<le> k \<and> k < f p * ?w + ?w)) \<longrightarrow> dst' ! k = dst ! k)"
  proof (rule copy_rows_spec)
    fix p assume "p \<in> set ?ps"
    then have "p \<in> tile_rows t" by (simp only: ps)
    then have "f p < n_rows t" "g p < n_rows t" using assms(1,2) by (auto simp: numbers_def)
    then have "Suc (f p) * ?w \<le> n_rows t * ?w" "Suc (g p) * ?w \<le> n_rows t * ?w" by (blast intro: mult_le_mono1 Suc_leI)+
    then show "f p * ?w + ?w \<le> length dst \<and> g p * ?w + ?w \<le> length src" using assms(5,6) by simp
  next
    fix p q assume "p \<in> set ?ps" "q \<in> set ?ps" "p \<noteq> q"
    then have "f p \<noteq> f q" using assms(1) ps by (auto simp: numbers_def inj_on_def)
    from pitch_apart [OF this, of ?w ?w 0] show "f p * ?w + ?w \<le> f q * ?w \<or> f q * ?w + ?w \<le> f p * ?w" by simp
  qed (rule dps)
  then show ?thesis unfolding fold ps by blast
qed


definition example_tiling :: Tiling2D where
  "example_tiling = (InitCore2 1 (Some [1, 2, 3, 4, 5, 6, 7, 8]) 2 4 2 2 True False False False)\<lparr>t2_rows := 1, t2_cols := 2,
     t2_flat := Some [0, 0, 0, 0, 0, 0, 0, 0]\<rparr>"


section \<open>The transfers of all tiles\<close>

text \<open>Where element \<open>(a, b)\<close> of tile \<open>(i, j)\<close> is in the array.\<close>

definition element :: "Tiling2D \<Rightarrow> nat \<Rightarrow> nat \<Rightarrow> nat \<Rightarrow> nat \<Rightarrow> nat" where
  "element t i j a b =
     (if t2_flattened t then GET4D_INDEX i j a b (t2_cols t) (t2_row_tile_size t) (t2_col_tile_size t)
      else GET2D_INDEX (i * t2_row_tile_size t + a) (j * t2_col_tile_size t + b) (t2_col_size t))"

definition layout :: "Tiling2D \<Rightarrow> nat \<times> nat \<times> nat \<Rightarrow> nat" where
  "layout t = (if t2_flattened t then flat_row t else data_row t)"

lemma layout_numbers: "numbers t (layout t)"
  by (simp add: layout_def flat_numbers data_numbers)

lemma element_layout: "fills t \<Longrightarrow> element t i j a b = layout t (i, j, a) * t2_col_tile_size t + b"
  by (simp add: element_def layout_def GET4D_INDEX_def GET2D_INDEX_def flat_row_def data_row_def fills_def algebra_simps)

text \<open>A transfer of one tile to the host; \<open>dev p\<close> is the device's memory of tile \<open>p\<close>.\<close>

definition fetch_tile :: "Tiling2D \<Rightarrow> (nat \<times> nat \<Rightarrow> byte list) \<Rightarrow> nat \<times> nat \<Rightarrow> byte list \<Rightarrow> byte list option" where
  "fetch_tile t dev p data = Option.bind (IRISMem2 t p) (\<lambda>m. tile_MemD2H (t2_elem t) (dev p) (tm_geom m) data)"

lemma Init_mems:
  assumes "Tiling2D_Init junk elem data rs cs rts cts strides flattened bc reset usm = Some t" "t2_data t \<noteq> None"
    "i < t2_rows t" "j < t2_cols t"
  shows "IRISMem2 t (i, j) = create_tile_mem t (i, j)"
proof -
  from assms(1) obtain t1 where t1: "AllocateIRISMem2 t1 = Some t" unfolding Tiling2D_Init_def bind_eq_Some_conv by blast
  then have "t2_data t1 \<noteq> None" using assms(2) by (auto simp: AllocateIRISMem2_def split: if_splits)
  with t1 have t: "t = t1\<lparr>t2_mems := Some (map (create_tile_mem t1) (tile_grid t1))\<rparr>" by (simp add: AllocateIRISMem2_Some)
  have "i < t2_rows t1" "j < t2_cols t1" using assms(3,4) unfolding t by simp_all
  moreover have "cell (map (create_tile_mem t1) (tile_grid t1)) (i * t2_cols t1 + j) = Some (create_tile_mem t1 (i, j))"
    using grid_cell [OF calculation] by (simp add: tile_grid_def)
  moreover have "create_tile_mem t (i, j) = create_tile_mem t1 (i, j)" unfolding t by (simp add: create_tile_mem_def tile_host_def flat_at_def)
  ultimately show ?thesis by (simp add: IRISMem2_def GET2D_INDEX_def t del: cell_Some)
qed

text \<open>One tile: its rows are written, all others stay.\<close>

definition tile_written :: "Tiling2D \<Rightarrow> byte list \<Rightarrow> nat \<times> nat \<Rightarrow> byte list \<Rightarrow> byte list \<Rightarrow> bool" where
  "tile_written t dev p d d' \<longleftrightarrow> length d' = length d \<and>
     (\<forall>q \<in> tile_rows t. \<forall>b < row_bytes t. d' ! (layout t q * row_bytes t + b) =
       (if (fst q, fst (snd q)) = p then dev ! (snd (snd q) * row_bytes t + b) else d ! (layout t q * row_bytes t + b)))"

lemma same_row: "y * w \<le> x * w + b \<Longrightarrow> x * w + b < y * w + w \<Longrightarrow> b < w \<Longrightarrow> x = (y :: nat)"
  using pitch_apart [of x y w w 0] by (cases "x = y") auto

lemma MemCpy3D_two:
  "MemCpy3D dev host [x, y, 0, 0, 0, 0] [c, r, 1, 1, 1, 1] [cs, rs, 1, 1, 1, 1] es h = MemCpy3D dev host [x, y, 0] [c, r, 1] [cs, rs, 1] es h"
  by (simp add: MemCpy3D_def copy_rows_def dev_base_def host_base_def Let_def)

lemma fetch_strided:
  assumes "fills t" "\<not> t2_flattened t" "t2_data t \<noteq> None" "IRISMem2 t (i, j) = create_tile_mem t (i, j)" "length d = array_bytes t"
    "length (dev (i, j)) = t2_row_tile_size t * row_bytes t" "i < t2_rows t" "j < t2_cols t"
  shows "\<exists>d'. fetch_tile t dev (i, j) d = Some d' \<and> tile_written t (dev (i, j)) (i, j) d d'"
proof -
  let ?r = "t2_row_tile_size t" and ?c = "t2_col_tile_size t" and ?w = "row_bytes t" and ?e = "t2_elem t" and ?D = "dev (i, j)"
  let ?off = "[j * ?c, i * ?r, 0]" and ?ds = "[?c, ?r, 1]" and ?hs = "[t2_col_size t, t2_row_size t, 1]"
  have fit: "Suc i * ?r \<le> t2_row_size t" "Suc j * ?c \<le> t2_col_size t"
    using assms(1,7,8) by (auto simp: fills_def simp del: mult_Suc intro!: mult_le_mono1)
  then have ok: "tile_ok ?D d ?off ?ds ?hs ?e"
    using assms(5,6) by (simp add: tile_ok_def array_bytes_def All_less_Suc numeral_3_eq_3 mult_ac)
  have row: "host_base ?off ?hs ?e 0 y = layout t (i, j, y) * ?w" "dev_base ?ds ?e 0 y = y * ?w" for y
    using assms(1,2) by (simp_all add: host_base_eq dev_base_eq layout_def data_row_def fills_def algebra_simps)
  from MemCpy3D_D2H [OF ok] obtain d' where c: "MemCpy3D ?D d ?off ?ds ?hs ?e False = Some d'" "length d' = length d"
    "\<forall>i < ?ds ! 2. \<forall>y < ?ds ! 1. \<forall>b < ?ds ! 0 * ?e. d' ! (host_base ?off ?hs ?e i y + b) = ?D ! (dev_base ?ds ?e i y + b)"
    "\<forall>x < length d. (\<forall>i < ?ds ! 2. \<forall>y < ?ds ! 1. \<not> (host_base ?off ?hs ?e i y \<le> x \<and> x < host_base ?off ?hs ?e i y + ?ds ! 0 * ?e)) \<longrightarrow>
      d' ! x = d ! x" by blast
  have d': "MemCpy3D ?D d ?off ?ds ?hs ?e False = Some d'" "length d' = length d"
    "\<And>y b. y < ?r \<Longrightarrow> b < ?w \<Longrightarrow> d' ! (layout t (i, j, y) * ?w + b) = ?D ! (y * ?w + b)"
    "\<And>x. x < length d \<Longrightarrow> (\<forall>y < ?r. \<not> (layout t (i, j, y) * ?w \<le> x \<and> x < layout t (i, j, y) * ?w + ?w)) \<Longrightarrow> d' ! x = d ! x"
    using c(1,2) c(3) [rule_format, of 0, unfolded row] c(4) [rule_format] row(1) by simp_all
  have "fetch_tile t dev (i, j) d = Some d'"
    using assms(2-4) d'(1) MemCpy3D_two [of ?D d "j * ?c" "i * ?r" ?c ?r "t2_col_size t" "t2_row_size t" ?e False]
    by (auto simp: fetch_tile_def create_tile_mem_def DataMem_tile_def tile_mem_new_def tile_host_def tile_MemD2H_def DataMem_plain_def overlay_def
        OpenMP_MemD2H_def DMEM_MAX_DIM_def Let_def numeral_eq_Suc)
  moreover have "d' ! (layout t q * ?w + b) = (if (fst q, fst (snd q)) = (i, j) then ?D ! (snd (snd q) * ?w + b) else d ! (layout t q * ?w + b))"
    if q: "q \<in> tile_rows t" "b < ?w" for q b
  proof (cases "(fst q, fst (snd q)) = (i, j)")
    case True
    then have "q = (i, j, snd (snd q))" "snd (snd q) < ?r" using q(1) by (auto simp: tile_rows_def)
    with d'(3) [of "snd (snd q)" b] q(2) True show ?thesis by metis
  next
    case False
    have "layout t q < n_rows t" using layout_numbers [of t] q(1) by (auto simp: numbers_def)
    then have "Suc (layout t q) * ?w \<le> n_rows t * ?w" by (intro mult_le_mono1) simp
    then have "layout t q * ?w + b < length d" using q(2) assms(5) array_rows [OF assms(1)] by simp
    moreover have "\<not> (layout t (i, j, y) * ?w \<le> layout t q * ?w + b \<and> layout t q * ?w + b < layout t (i, j, y) * ?w + ?w)" if "y < ?r" for y
    proof
      assume "layout t (i, j, y) * ?w \<le> layout t q * ?w + b \<and> layout t q * ?w + b < layout t (i, j, y) * ?w + ?w"
      with same_row q(2) have "layout t q = layout t (i, j, y)" by blast
      moreover have "(i, j, y) \<in> tile_rows t" using assms(7,8) that by (simp add: tile_rows_def)
      ultimately have "q = (i, j, y)" using layout_numbers [of t] q(1) by (auto simp: numbers_def inj_on_def)
      with False show False by simp
    qed
    ultimately show ?thesis using d'(4) False by auto
  qed
  ultimately show ?thesis using d'(2) by (auto simp: tile_written_def)
qed

lemma flat_base: "flat_row t (i, j, k) = flat_row t (i, j, 0) + k"
  by (simp add: flat_row_def)

lemma fetch_linear:
  assumes "fills t" "t2_flattened t" "t2_data t \<noteq> None" "IRISMem2 t (i, j) = create_tile_mem t (i, j)" "length d = array_bytes t"
    "length (dev (i, j)) = t2_row_tile_size t * row_bytes t" "i < t2_rows t" "j < t2_cols t"
  shows "\<exists>d'. fetch_tile t dev (i, j) d = Some d' \<and> tile_written t (dev (i, j)) (i, j) d d'"
proof -
  let ?r = "t2_row_tile_size t" and ?w = "row_bytes t" and ?D = "dev (i, j)" and ?p = "flat_row t (i, j, 0)"
  define n where "n = ?p * ?w"
  define z where "z = ?r * ?w"
  have "(i * t2_cols t + j + 1) * ?r * ?w \<le> n_rows t * ?w"
    using row_index_less [OF assms(7,8)] by (intro mult_le_mono1) simp
  then have fit: "n + z \<le> length d" using assms(5) array_rows [OF assms(1)] by (simp add: n_def z_def flat_row_def algebra_simps)
  define d' where "d' = take n d @ ?D @ drop (n + z) d"
  have l: "length ?D = z" "length d' = length d" using assms(6) fit by (simp_all add: d'_def z_def)
  have h: "flat_at t i j 0 * t2_elem t = n" by (simp add: flat_at_row n_def)
  have sz: "?r * t2_col_tile_size t * t2_elem t = z" by (simp add: z_def)
  have "fetch_tile t dev (i, j) d = Some d'"
    using assms(2-4) fit l(1)
    by (auto simp: fetch_tile_def create_tile_mem_def tile_mem_new_def tile_host_def tile_MemD2H_def DataMem_plain_def sz h OpenMP_MemD2H_def
        DMEM_MAX_DIM_def memcpy_def d'_def add.commute)
  moreover have "d' ! (flat_row t q * ?w + b) = (if (fst q, fst (snd q)) = (i, j) then ?D ! (snd (snd q) * ?w + b) else d ! (flat_row t q * ?w + b))"
    if q: "q \<in> tile_rows t" "b < ?w" for q b
  proof (cases "(fst q, fst (snd q)) = (i, j)")
    case True
    then have k: "q = (i, j, snd (snd q))" "snd (snd q) < ?r" using q(1) by (auto simp: tile_rows_def)
    then have "flat_row t q * ?w + b = n + (snd (snd q) * ?w + b)" using flat_base [of t i j "snd (snd q)"] by (simp add: n_def add_mult_distrib)
    moreover have "snd (snd q) * ?w + b < z" unfolding z_def using k(2) q(2) by (rule row_index_less)
    ultimately show ?thesis using True fit l(1) by (simp add: d'_def nth_append)
  next
    case False
    obtain i' j' k where q': "q = (i', j', k)" "k < ?r" "j' < t2_cols t" using q(1) by (cases q) (auto simp: tile_rows_def)
    then have "i' * t2_cols t + j' \<noteq> i * t2_cols t + j" using False row_index_inj [of i' "t2_cols t" j' i j] assms(8) by auto
    from pitch_apart [OF this le_refl, of "?r * ?w" 0]
    have "(i' * t2_cols t + j') * (?r * ?w) + ?r * ?w \<le> n \<or> n + z \<le> (i' * t2_cols t + j') * (?r * ?w)"
      by (simp add: n_def z_def flat_row_def mult.assoc)
    moreover have "flat_row t q * ?w + b = (i' * t2_cols t + j') * (?r * ?w) + (k * ?w + b)"
      by (simp add: q'(1) flat_row_def add_mult_distrib mult.assoc)
    moreover have "k * ?w + b < ?r * ?w" using q'(2) q(2) by (rule row_index_less)
    ultimately have "flat_row t q * ?w + b < n \<or> n + z \<le> flat_row t q * ?w + b" by linarith
    then show ?thesis using False fit l(1) by (auto simp: d'_def nth_append)
  qed
  ultimately show ?thesis using l(2) assms(2) by (auto simp: tile_written_def layout_def)
qed

lemma fetch_tiles:
  assumes "fills t" "t2_data t \<noteq> None" "\<And>p. p \<in> set ts \<Longrightarrow> IRISMem2 t p = create_tile_mem t p" "length d = array_bytes t" "distinct ts"
    "\<And>p. p \<in> set ts \<Longrightarrow> length (dev p) = t2_row_tile_size t * row_bytes t" "set ts \<subseteq> {..<t2_rows t} \<times> {..<t2_cols t}"
  shows "\<exists>d'. opt_fold (fetch_tile t dev) ts d = Some d' \<and> length d' = length d \<and>
    (\<forall>q \<in> tile_rows t. \<forall>b < row_bytes t. d' ! (layout t q * row_bytes t + b) =
       (if (fst q, fst (snd q)) \<in> set ts then dev (fst q, fst (snd q)) ! (snd (snd q) * row_bytes t + b) else d ! (layout t q * row_bytes t + b)))"
  using assms(3-)
proof (induction ts arbitrary: d)
  case (Cons p ts)
  obtain i j where p: "p = (i, j)" "i < t2_rows t" "j < t2_cols t" using Cons.prems(5) by auto
  have "\<exists>d1. fetch_tile t dev (i, j) d = Some d1 \<and> tile_written t (dev (i, j)) (i, j) d d1"
    using fetch_strided [OF assms(1) _ assms(2) _ Cons.prems(2), of i j dev] fetch_linear [OF assms(1) _ assms(2) _ Cons.prems(2), of i j dev]
      Cons.prems(1,4) p by (cases "t2_flattened t") auto
  then obtain d1 where d1: "fetch_tile t dev p d = Some d1" "tile_written t (dev p) p d d1" using p(1) by blast
  have "length d1 = array_bytes t" using d1(2) Cons.prems(2) by (simp add: tile_written_def)
  with Cons.IH [of d1] Cons.prems(1,3-5) obtain d' where d': "opt_fold (fetch_tile t dev) ts d1 = Some d'" "length d' = length d1"
    "\<forall>q \<in> tile_rows t. \<forall>b < row_bytes t. d' ! (layout t q * row_bytes t + b) =
      (if (fst q, fst (snd q)) \<in> set ts then dev (fst q, fst (snd q)) ! (snd (snd q) * row_bytes t + b) else d1 ! (layout t q * row_bytes t + b))"
    by auto
  with d1 Cons.prems(3) show ?case by (auto simp: tile_written_def)
qed auto

text \<open>C32. Tiles that fill the array, each computed on some device, come together: after the transfers of all of them, in whatever order
  an iterator lists them and in either layout, every element of the array is the element the device had in its tile.\<close>

theorem tiles_assemble:
  assumes "Tiling2D_Init junk elem data rs cs rts cts strides flattened bc reset usm = Some t" "fills t" "t2_data t = Some d"
    "length d = array_bytes t" "items2 t 0 0 type 1 = Some ts" "\<forall>p \<in> set ts. length (dev p) = t2_row_tile_size t * row_bytes t"
  shows "\<exists>d'. opt_fold (fetch_tile t dev) ts d = Some d' \<and> length d' = array_bytes t \<and>
    (\<forall>i < t2_rows t. \<forall>j < t2_cols t. \<forall>a < t2_row_tile_size t. \<forall>b < t2_col_tile_size t. \<forall>k < t2_elem t.
       d' ! (element t i j a b * t2_elem t + k) = dev (i, j) ! ((a * t2_col_tile_size t + b) * t2_elem t + k))"
proof -
  have plan: "plan2 (end2 t type) (begin2 t 0 0 type)"
    by (auto simp: plan2_def end2_def begin2_def iterator2_new_def split: Tile2DIteratorType.splits)
  have ts: "distinct ts" "set ts = {..<t2_rows t} \<times> {..<t2_cols t}"
    using items2_plan [OF Init_tiles(1) [OF assms(1)] plan] left2_start [of "t2_rows t" "t2_cols t" type] assms(5) by (simp_all add: begin2_def)
  have "IRISMem2 t p = create_tile_mem t p" if "p \<in> set ts" for p
    using Init_mems [OF assms(1)] assms(3) ts(2) that by (cases p) auto
  from fetch_tiles [OF assms(2) _ this assms(4) ts(1), of dev] assms(3,6) ts(2) obtain d' where
    d': "opt_fold (fetch_tile t dev) ts d = Some d'" "length d' = length d"
    "\<And>q b. q \<in> tile_rows t \<Longrightarrow> b < row_bytes t \<Longrightarrow> d' ! (layout t q * row_bytes t + b) =
       dev (fst q, fst (snd q)) ! (snd (snd q) * row_bytes t + b)" by (auto simp: tile_rows_def)
  have "d' ! (element t i j a b * t2_elem t + k) = dev (i, j) ! ((a * t2_col_tile_size t + b) * t2_elem t + k)"
    if x: "i < t2_rows t" "j < t2_cols t" "a < t2_row_tile_size t" "b < t2_col_tile_size t" "k < t2_elem t" for i j a b k
  proof -
    have "b * t2_elem t + k < row_bytes t" using x(4,5) by (rule row_index_less)
    with d'(3) [of "(i, j, a)" "b * t2_elem t + k"] x(1-3) show ?thesis
      by (simp add: element_layout [OF assms(2)] tile_rows_def algebra_simps)
  qed
  with d'(1,2) assms(4) show ?thesis by auto
qed

theorem tiles_assemble_witness:
  "\<exists>t ts d'. Tiling2D_Init [] 1 (Some [0, 0, 0, 0, 0, 0, 0, 0]) 2 4 2 2 None False False False False = Some t \<and>
     items2 t 0 0 TILE2D_RIGHT_DOWN_TREE_WISE 1 = Some ts \<and>
     opt_fold (fetch_tile t (\<lambda>p. if p = (0, 0) then [1, 2, 3, 4] else [5, 6, 7, 8])) ts [0, 0, 0, 0, 0, 0, 0, 0] = Some d' \<and>
     d' ! 4 = 3 \<and> d' ! 7 = 8"
proof -
  let ?dev = "\<lambda>p. if p = (0 :: nat, 0 :: nat) then [1, 2, 3, 4] else [5, 6, 7, 8 :: byte]" and ?d = "[0, 0, 0, 0, 0, 0, 0, 0 :: byte]"
  have "GET_TILE_COUNT 2 2 = Some 1" "GET_TILE_COUNT 4 2 = Some 2" using tile_count_exact [of 2 1] tile_count_exact [of 2 2] by simp_all
  from Init_plain [OF this] obtain t where t: "Tiling2D_Init [] 1 (Some ?d) 2 4 2 2 None False False False False = Some t"
    "t2_rows t = 1" "t2_cols t = 2" "t2_row_size t = 2" "t2_col_size t = 4" "t2_row_tile_size t = 2" "t2_col_tile_size t = 2"
    "t2_data t = Some ?d" "t2_elem t = 1" "\<not> t2_flattened t" by blast
  have "plan2 (end2 t TILE2D_RIGHT_DOWN_TREE_WISE) (begin2 t 0 0 TILE2D_RIGHT_DOWN_TREE_WISE)"
    by (simp add: plan2_def end2_def begin2_def iterator2_new_def)
  from items2_plan [OF Init_tiles(1) [OF t(1)] this] left2_start [of "t2_rows t" "t2_cols t" TILE2D_RIGHT_DOWN_TREE_WISE]
  obtain ts where ts: "items2 t 0 0 TILE2D_RIGHT_DOWN_TREE_WISE 1 = Some ts" by (simp add: begin2_def)
  have "fills t" "length ?d = array_bytes t" "\<forall>p \<in> set ts. length (?dev p) = t2_row_tile_size t * row_bytes t"
    using t by (simp_all add: fills_def array_bytes_def)
  from tiles_assemble [OF t(1) this(1) t(8) this(2) ts this(3)] obtain d' where
    d': "opt_fold (fetch_tile t ?dev) ts ?d = Some d'"
      "\<And>i j a b k. i < t2_rows t \<Longrightarrow> j < t2_cols t \<Longrightarrow> a < t2_row_tile_size t \<Longrightarrow> b < t2_col_tile_size t \<Longrightarrow> k < t2_elem t \<Longrightarrow>
       d' ! (element t i j a b * t2_elem t + k) = ?dev (i, j) ! ((a * t2_col_tile_size t + b) * t2_elem t + k)" by blast
  have "d' ! 4 = 3" "d' ! 7 = 8"
    using d'(2) [of 0 0 1 0 0] d'(2) [of 0 1 1 1 0] t by (simp_all add: element_def GET2D_INDEX_def)
  with t(1) ts d'(1) show ?thesis by blast
qed

section \<open>Transposition\<close>

lemma swap_elements_nth:
  assumes "a < length xs" "b < length xs"
  shows "\<exists>ys. swap_elements a b xs = Some ys \<and> length ys = length xs \<and>
    (\<forall>k < length xs. ys ! k = (if k = b then xs ! a else if k = a then xs ! b else xs ! k))"
  using assms by (simp add: swap_elements_def cell_def store_def nth_list_update)

lemma transpose_pairs:
  assumes "length xs = n * n" "distinct ps" "\<forall>(i, j) \<in> set ps. j < i \<and> i < n"
  shows "\<exists>ys. opt_fold (\<lambda>p. swap_elements (GET2D_INDEX (snd p) (fst p) n) (GET2D_INDEX (fst p) (snd p) n)) ps xs = Some ys \<and>
    length ys = length xs \<and>
    (\<forall>i < n. \<forall>j < n. ys ! (i * n + j) = (if (i, j) \<in> set ps \<or> (j, i) \<in> set ps then xs ! (j * n + i) else xs ! (i * n + j)))"
  using assms
proof (induction ps arbitrary: xs)
  case (Cons p ps)
  obtain a b where p: "p = (a, b)" "b < a" "a < n" using Cons.prems(3) by auto
  have in_range: "a * n + b < n * n" "b * n + a < n * n" using p row_index_less [of a n b n] row_index_less [of b n a n] by auto
  from swap_elements_nth [of "b * n + a" xs "a * n + b"] in_range Cons.prems(1) obtain y where
    y: "swap_elements (b * n + a) (a * n + b) xs = Some y" "length y = n * n"
      "\<And>k. k < n * n \<Longrightarrow> y ! k = (if k = a * n + b then xs ! (b * n + a) else if k = b * n + a then xs ! (a * n + b) else xs ! k)" by auto
  have ij: "y ! (i * n + j) = (if (i, j) = (a, b) \<or> (j, i) = (a, b) then xs ! (j * n + i) else xs ! (i * n + j))" if "i < n" "j < n" for i j
    using y(3) [OF row_index_less [OF that]] row_index_inj [of i n j a b] row_index_inj [of i n j b a] that p(2,3) by auto
  from Cons.IH [of y] y(2) Cons.prems(2,3) obtain ys where
    ys: "opt_fold (\<lambda>p. swap_elements (GET2D_INDEX (snd p) (fst p) n) (GET2D_INDEX (fst p) (snd p) n)) ps y = Some ys" "length ys = length y"
      "\<And>i j. i < n \<Longrightarrow> j < n \<Longrightarrow>
        ys ! (i * n + j) = (if (i, j) \<in> set ps \<or> (j, i) \<in> set ps then y ! (j * n + i) else y ! (i * n + j))" by auto
  have no: "(b, a) \<notin> set ps" "(a, b) \<notin> set ps" using Cons.prems(2,3) p by auto
  have fin: "ys ! (i * n + j) = (if (i, j) \<in> set (p # ps) \<or> (j, i) \<in> set (p # ps) then xs ! (j * n + i) else xs ! (i * n + j))"
    if "i < n" "j < n" for i j
  proof (cases "(i, j) \<in> set ps \<or> (j, i) \<in> set ps")
    case True
    then have "\<not> ((j, i) = (a, b) \<or> (i, j) = (a, b))" using no by auto
    with ij [OF that(2,1)] have "y ! (j * n + i) = xs ! (j * n + i)" by presburger
    with ys(3) [OF that] True show ?thesis by (metis list.set_intros(2))
  next
    case False
    have "ys ! (i * n + j) = y ! (i * n + j)" using ys(3) [OF that] False by presburger
    moreover have "(i, j) \<in> set (p # ps) \<or> (j, i) \<in> set (p # ps) \<longleftrightarrow> (i, j) = (a, b) \<or> (j, i) = (a, b)" using False p(1) by auto
    ultimately show ?thesis using ij [OF that] by presburger
  qed
  have "swap_elements (GET2D_INDEX (snd p) (fst p) n) (GET2D_INDEX (fst p) (snd p) n) xs = Some y" using y(1) by (simp add: GET2D_INDEX_def p(1))
  then have "opt_fold (\<lambda>p. swap_elements (GET2D_INDEX (snd p) (fst p) n) (GET2D_INDEX (fst p) (snd p) n)) (p # ps) xs = Some ys"
    by (simp add: ys(1))
  moreover have "length ys = length xs" using ys(2) y(2) Cons.prems(1) by simp
  ultimately show ?case using fin by blast
qed simp

lemma pairs_below:
  "distinct (concat (map (\<lambda>i. map (Pair i) [0..<i]) [0..<n])) \<and>
   set (concat (map (\<lambda>i. map (Pair i) [0..<i]) [0..<n])) = {(i, j). j < i \<and> i < n}"
  by (induction n) (auto simp: distinct_map inj_on_def less_Suc_eq)

text \<open>\<open>Transpose\<close> exchanges rows and columns of a square array, in place, and twice it changes nothing; every other array fails
  its assertion.\<close>

theorem Transpose_spec:
  "(length xs = n * n \<longrightarrow>
     (\<exists>ys. Transpose n n xs = Some ys \<and> length ys = n * n \<and> (\<forall>i < n. \<forall>j < n. ys ! (i * n + j) = xs ! (j * n + i)) \<and>
       Transpose n n ys = Some xs)) \<and>
   (m \<noteq> n \<longrightarrow> Transpose n m xs = None)"
proof -
  define ps where "ps = concat (map (\<lambda>i. map (Pair i) [0..<i]) [0..<n])"
  have ps: "distinct ps" "set ps = {(i, j). j < i \<and> i < n}" unfolding ps_def using pairs_below [of n] by auto
  have fold: "Transpose n n xs = opt_fold (\<lambda>p. swap_elements (GET2D_INDEX (snd p) (fst p) n) (GET2D_INDEX (fst p) (snd p) n)) ps xs" for xs :: "'a list"
  proof -
    have 1: "opt_fold f (map (Pair i) js) = opt_fold (\<lambda>j. f (i, j)) js" for f :: "nat \<times> nat \<Rightarrow> 'a list \<Rightarrow> 'a list option" and i js
      by (rule ext) (simp add: opt_fold_map)
    have "opt_fold f (concat (map (\<lambda>i. map (Pair i) [0..<i]) is)) s = opt_fold (\<lambda>i. opt_fold (\<lambda>j. f (i, j)) [0..<i]) is s"
      for f :: "nat \<times> nat \<Rightarrow> 'a list \<Rightarrow> 'a list option" and "is" s
    proof (induction "is" arbitrary: s)
      case (Cons i "is")
      have "opt_fold f (concat (map (\<lambda>i. map (Pair i) [0..<i]) is)) = opt_fold (\<lambda>i. opt_fold (\<lambda>j. f (i, j)) [0..<i]) is" by (rule ext) (rule Cons)
      then show ?case by (simp add: opt_fold_append 1)
    qed simp
    from this [of _ "[0..<n]"] show ?thesis by (simp add: Transpose_def ps_def)
  qed
  have once: "\<exists>ys. Transpose n n xs = Some ys \<and> length ys = n * n \<and> (\<forall>i < n. \<forall>j < n. ys ! (i * n + j) = xs ! (j * n + i))"
    if "length xs = n * n" for xs :: "'a list"
  proof -
    have "\<forall>(i, j) \<in> set ps. j < i \<and> i < n" using ps(2) by auto
    from transpose_pairs [OF that ps(1) this, folded fold] obtain ys where ys: "Transpose n n xs = Some ys" "length ys = length xs"
      "\<forall>i < n. \<forall>j < n. ys ! (i * n + j) = (if (i, j) \<in> set ps \<or> (j, i) \<in> set ps then xs ! (j * n + i) else xs ! (i * n + j))" by blast
    have "ys ! (i * n + j) = xs ! (j * n + i)" if "i < n" "j < n" for i j
      using ys(3) that ps(2) by (cases "i = j") auto
    with ys(1,2) that show ?thesis by auto
  qed
  have twice: "Transpose n n ys = Some xs"
    if x: "length xs = n * n" "length ys = n * n" "\<forall>i < n. \<forall>j < n. ys ! (i * n + j) = xs ! (j * n + i)"
    for ys
  proof -
    from once [OF x(2)] obtain zs where zs: "Transpose n n ys = Some zs" "length zs = n * n"
      "\<forall>i < n. \<forall>j < n. zs ! (i * n + j) = ys ! (j * n + i)" by blast
    have "zs ! k = xs ! k" if "k < n * n" for k
    proof -
      have "0 < n" using that by (cases n) auto
      then have "k div n < n" "k mod n < n" using that by (simp_all add: div_less_iff_less_mult)
      note d = this
      have "zs ! (k div n * n + k mod n) = ys ! (k mod n * n + k div n)" using zs(3) d by blast
      also have "\<dots> = xs ! (k div n * n + k mod n)" using x(3) d by blast
      finally show ?thesis by (simp only: div_mult_mod_eq)
    qed
    then have "zs = xs" using zs(2) x(1) by (simp add: nth_equalityI)
    with zs(1) show ?thesis by simp
  qed
  show ?thesis
  proof (intro conjI impI)
    assume x: "length xs = n * n"
    from once [OF x] obtain ys where "Transpose n n xs = Some ys" "length ys = n * n" "\<forall>i < n. \<forall>j < n. ys ! (i * n + j) = xs ! (j * n + i)" by blast
    with twice [OF x] show "\<exists>ys. Transpose n n xs = Some ys \<and> length ys = n * n \<and> (\<forall>i < n. \<forall>j < n. ys ! (i * n + j) = xs ! (j * n + i)) \<and>
       Transpose n n ys = Some xs" by blast
  qed (simp add: Transpose_def)
qed

end
