(* ===== verification/Iris_Tiling3D.thy ===== *)
theory Iris_Tiling3D
  imports Iris_TilesProps
begin

text \<open>
  \<^verbatim>\<open>Tiling3D.h\<close>: the iterator with its six orders, the tiles of three dimensions and their memory objects, and the regions of
  \<open>EnableOuterDimensionRegions\<close> in \<^verbatim>\<open>DataMem.cpp\<close> that its second mode is built on.
\<close>

section \<open>The iterator\<close>

datatype Tile3DIteratorType = TILE3D_ZYX | TILE3D_ZXY | TILE3D_XYZ | TILE3D_XZY | TILE3D_YZX | TILE3D_YXZ

record iterator3 =
  i3_pos :: "nat \<times> nat \<times> nat"
  i3_counts :: "nat \<times> nat \<times> nat"
  i3_type :: Tile3DIteratorType

definition iterator3_ne :: "iterator3 \<Rightarrow> iterator3 \<Rightarrow> bool" where
  "iterator3_ne a b \<longleftrightarrow> (case (i3_pos a, i3_pos b) of ((z, y, x), (z', y', x')) \<Rightarrow> z \<noteq> z' \<and> y \<noteq> y' \<and> x \<noteq> x')"

text \<open>\<open>increment\<close>: the last of three indices runs fastest.\<close>

fun increment :: "nat \<times> nat \<times> nat \<Rightarrow> nat \<times> nat \<times> nat \<Rightarrow> nat \<times> nat \<times> nat" where
  "increment (z, y, x) (z_count, y_count, x_count) =
     (let x = x + 1;
          y = (if x = x_count then y + 1 else y);
          z = (if y = y_count then z + 1 else z);
          y = (if y = y_count then 0 else y);
          x = (if x = x_count then 0 else x)
      in (z, y, x))"

text \<open>The order of the arguments of \<open>increment\<close> and, for its results, back.\<close>

fun outer_first :: "Tile3DIteratorType \<Rightarrow> nat \<times> nat \<times> nat \<Rightarrow> nat \<times> nat \<times> nat" where
  "outer_first TILE3D_ZYX (z, y, x) = (z, y, x)"
| "outer_first TILE3D_ZXY (z, y, x) = (z, x, y)"
| "outer_first TILE3D_YXZ (z, y, x) = (y, x, z)"
| "outer_first TILE3D_YZX (z, y, x) = (y, z, x)"
| "outer_first TILE3D_XZY (z, y, x) = (x, z, y)"
| "outer_first TILE3D_XYZ (z, y, x) = (x, y, z)"

fun zyx :: "Tile3DIteratorType \<Rightarrow> nat \<times> nat \<times> nat \<Rightarrow> nat \<times> nat \<times> nat" where
  "zyx TILE3D_ZYX (z, y, x) = (z, y, x)"
| "zyx TILE3D_ZXY (z, x, y) = (z, y, x)"
| "zyx TILE3D_YXZ (y, x, z) = (z, y, x)"
| "zyx TILE3D_YZX (y, z, x) = (z, y, x)"
| "zyx TILE3D_XZY (x, z, y) = (z, y, x)"
| "zyx TILE3D_XYZ (x, y, z) = (z, y, x)"

definition iterator3_next :: "iterator3 \<Rightarrow> iterator3" where
  "iterator3_next it = it\<lparr>i3_pos := zyx (i3_type it) (increment (outer_first (i3_type it) (i3_pos it)) (outer_first (i3_type it) (i3_counts it)))\<rparr>"

lemma zyx_outer_first: "zyx ty (outer_first ty p) = p"
  by (cases p; cases ty) auto

lemma outer_first_zyx: "outer_first ty (zyx ty p) = p"
  by (cases p; cases ty) auto

text \<open>The plan, in the order of the loops: the rest of the line, of the plane, and the planes after it.\<close>

definition lex_from :: "nat \<times> nat \<times> nat \<Rightarrow> nat \<times> nat \<times> nat \<Rightarrow> (nat \<times> nat \<times> nat) list" where
  "lex_from p n = (case (p, n) of ((a, b, c), (A, B, C)) \<Rightarrow>
     if a < A \<and> b < B \<and> c < C then
       map (\<lambda>k. (a, b, k)) [c..<C] @ map (\<lambda>q. (a, q)) (List.product [Suc b..<B] [0..<C]) @
       List.product [Suc a..<A] (List.product [0..<B] [0..<C])
     else [])"

definition left3 :: "iterator3 \<Rightarrow> (nat \<times> nat \<times> nat) list" where
  "left3 it = map (zyx (i3_type it)) (lex_from (outer_first (i3_type it) (i3_pos it)) (outer_first (i3_type it) (i3_counts it)))"

definition inside :: "nat \<times> nat \<times> nat \<Rightarrow> nat \<times> nat \<times> nat \<Rightarrow> bool" where
  "inside p n = (case (p, n) of ((a, b, c), (A, B, C)) \<Rightarrow> (a < A \<or> a = A) \<and> (b < B \<or> b = B) \<and> (c < C \<or> c = C))"

definition plan3 :: "iterator3 \<Rightarrow> iterator3 \<Rightarrow> bool" where
  "plan3 e it \<longleftrightarrow> i3_pos e = i3_counts it \<and> inside (outer_first (i3_type it) (i3_pos it)) (outer_first (i3_type it) (i3_counts it))"

definition apart :: "nat \<times> nat \<times> nat \<Rightarrow> nat \<times> nat \<times> nat \<Rightarrow> bool" where
  "apart p n = (case (p, n) of ((a, b, c), (A, B, C)) \<Rightarrow> a \<noteq> A \<and> b \<noteq> B \<and> c \<noteq> C)"

lemma ne_apart: "iterator3_ne a b \<longleftrightarrow> apart (outer_first ty (i3_pos a)) (outer_first ty (i3_pos b))"
  by (cases "i3_pos a"; cases "i3_pos b"; cases ty) (auto simp: iterator3_ne_def apart_def)

lemma lex_step:
  assumes "inside p n"
  shows "apart p n \<longleftrightarrow> lex_from p n \<noteq> []"
    "apart p n \<Longrightarrow> inside (increment p n) n \<and> lex_from p n = p # lex_from (increment p n) n"
proof -
  obtain a b c A B C where p: "p = (a, b, c)" "n = (A, B, C)" by (cases p; cases n) auto
  show "apart p n \<longleftrightarrow> lex_from p n \<noteq> []" using assms by (auto simp: p apart_def inside_def lex_from_def upt_here)
  show "inside (increment p n) n \<and> lex_from p n = p # lex_from (increment p n) n" if "apart p n"
  proof -
    have l: "a < A" "b < B" "c < C" using assms that by (auto simp: p apart_def inside_def)
    then show ?thesis
      by (cases "Suc c = C"; cases "Suc b = B"; cases "Suc a = A") (auto simp: p inside_def lex_from_def Let_def upt_here)
  qed
qed

interpretation walk3: tile_iterator "\<lambda>it. iterator3_ne it e" iterator3_next i3_pos left3 "plan3 e" for e
proof
  fix it assume p: "plan3 e it"
  let ?o = "outer_first (i3_type it)"
  have i: "inside (?o (i3_pos it)) (?o (i3_counts it))" "i3_pos e = i3_counts it" using p by (auto simp: plan3_def)
  show "iterator3_ne it e \<longleftrightarrow> left3 it \<noteq> []"
    using lex_step(1) [OF i(1)] by (simp add: ne_apart [of it e "i3_type it"] i(2) left3_def)
  show "plan3 e (iterator3_next it) \<and> left3 it = i3_pos it # left3 (iterator3_next it)" if "iterator3_ne it e"
  proof -
    have "apart (?o (i3_pos it)) (?o (i3_counts it))" using that by (simp add: ne_apart [of it e "i3_type it"] i(2))
    from lex_step(2) [OF i(1) this] show ?thesis
      by (simp add: plan3_def iterator3_next_def left3_def outer_first_zyx zyx_outer_first i(2))
  qed
qed

section \<open>Regions\<close>

text \<open>A region of an object: one index of the outermost dimension. \<open>rg_dev_offset\<close> is where it starts in the object's device memory.\<close>

record region =
  rg_geom :: geometry
  rg_number :: nat
  rg_loff :: "nat list"
  rg_dev_offset :: nat

definition EnableOuterDimensionRegions :: "geometry \<Rightarrow> region list option" where
  "EnableOuterDimensionRegions m =
     (let d = g_dim m - 1;
          dev_size = (g_dev_size m)[d := 1];
          loff = (g_off m)[d := 0];
          dev_offset = extent 1 (take d (g_dev_size m))
      in those (map (\<lambda>i.
           map_option (\<lambda>g. \<lparr>rg_geom = g, rg_number = i, rg_loff = loff, rg_dev_offset = i * dev_offset * g_elem_size m\<rparr>)
             (DataMem_tile None (take (g_dim m) ((g_off m)[d := g_off m ! d + i])) (take (g_dim m) (g_host_size m)) (take (g_dim m) dev_size)
               (g_elem_size m))) [0..<g_dev_size m ! d]))"

text \<open>Where a region's data is on the host.\<close>

definition region_host_memory :: "region \<Rightarrow> nat" where
  "region_host_memory r =
     (let g = rg_geom r; host_row_pitch = g_elem_size g * g_host_size g ! 0; host_slice_pitch = g_host_size g ! 1 * host_row_pitch
      in g_off g ! 0 * g_elem_size g + g_off g ! 1 * host_row_pitch + g_off g ! 2 * host_slice_pitch)"

section \<open>Three dimensions\<close>

definition GET3D_INDEX :: "nat \<Rightarrow> nat \<Rightarrow> nat \<Rightarrow> nat \<Rightarrow> nat \<Rightarrow> nat" where
  "GET3D_INDEX k i j ni nj = k * ni * nj + i * nj + j"

text \<open>Arrays fresh from \<open>malloc\<close> have unwritten cells; a write outside has no result.\<close>

record Tiling3D =
  t3_data :: "nat option"
  t3_mems :: "tile_mem option list"
  t3_mems2d :: "tile_mem option list"
  t3_regions :: bool
  t3_reset :: bool
  t3_usm :: bool
  t3_flattened :: bool
  t3_tiles :: "(nat \<times> nat \<times> nat) list"
  t3_tiles2d :: "(nat \<times> nat) list"
  t3_size :: "nat \<times> nat \<times> nat"
  t3_stride :: "nat \<times> nat \<times> nat"
  t3_tile_size :: "nat \<times> nat \<times> nat"
  t3_counts :: "nat \<times> nat \<times> nat"
  t3_elem :: nat

definition AllocateTiles3 :: "Tiling3D \<Rightarrow> Tiling3D" where
  "AllocateTiles3 t = (case t3_counts t of (Z, Y, X) \<Rightarrow>
     if t3_regions t then
       t\<lparr>t3_tiles2d := map (\<lambda>k. (k, 0)) [0..<Z], t3_tiles := map (\<lambda>(k, i). (k, i, 0)) (List.product [0..<Z] [0..<Y])\<rparr>
     else t\<lparr>t3_tiles := List.product [0..<Z] (List.product [0..<Y] [0..<X])\<rparr>)"

text \<open>The object of a block of planes, of one of its regions, and of a tile. A region is given the number of its tile. The address of a
  block is computed from the data pointer without a test; a null pointer plus an offset has no result.\<close>

definition plus_ptr :: "nat option \<Rightarrow> nat \<Rightarrow> nat option option" where
  "plus_ptr p n = (case p of None \<Rightarrow> if n = 0 then Some None else None | Some a \<Rightarrow> Some (Some (a + n)))"

definition plane_mem :: "Tiling3D \<Rightarrow> nat \<Rightarrow> geometry option" where
  "plane_mem t k = (case (t3_size t, t3_tile_size t) of ((zs, ys, xs), (zt, yt, xt)) \<Rightarrow>
     Option.bind (plus_ptr (t3_data t) (GET3D_INDEX (k * zt) 0 0 ys xs)) (\<lambda>host. DataMem_tile host [0, 0] [xt, ys] [xt, ys] (t3_elem t)))"

definition region_mem :: "geometry \<Rightarrow> nat \<Rightarrow> geometry option" where
  "region_mem g i = Option.bind (EnableOuterDimensionRegions g) (\<lambda>rs. map_option rg_geom (cell rs i))"

definition block_mem :: "Tiling3D \<Rightarrow> nat \<times> nat \<times> nat \<Rightarrow> geometry option" where
  "block_mem t p = (case (p, t3_size t, t3_tile_size t) of ((k, i, j), (zs, ys, xs), (zt, yt, xt)) \<Rightarrow>
     DataMem_tile (t3_data t) [j * xt, i * yt, k * zt] [xs, ys, zs] [xt, yt, zt] (t3_elem t))"

text \<open>The cell a tile's handle is written to.\<close>

definition block_cell :: "Tiling3D \<Rightarrow> nat \<times> nat \<times> nat \<Rightarrow> nat" where
  "block_cell t p = (case (p, t3_size t, t3_tile_size t) of ((k, i, j), (zs, ys, xs), (zt, yt, xt)) \<Rightarrow>
     GET3D_INDEX (k * zt) (i * yt) (j * xt) ys xs)"

definition add_plane :: "nat \<Rightarrow> Tiling3D \<Rightarrow> Tiling3D option" where
  "add_plane k t =
     do { g \<leftarrow> plane_mem t k;
          ms \<leftarrow> store (t3_mems2d t) k (Some (tile_mem_new (t3_reset t) (t3_usm t) None g));
          Some (t\<lparr>t3_mems2d := ms\<rparr>) }"

text \<open>The regions are made before their object is told to start with a reset, and take over nothing of it.\<close>

definition add_region :: "nat \<Rightarrow> nat \<Rightarrow> Tiling3D \<Rightarrow> Tiling3D option" where
  "add_region k i t = (case t3_counts t of (Z, Y, X) \<Rightarrow>
     do { m \<leftarrow> cell (t3_mems2d t) k; m \<leftarrow> m; g \<leftarrow> region_mem (tm_geom m) i;
          ms \<leftarrow> store (t3_mems t) (GET2D_INDEX k i Y) (Some (tile_mem_new False (t3_usm t) None g));
          Some (t\<lparr>t3_mems := ms\<rparr>) })"

definition add_block :: "nat \<times> nat \<times> nat \<Rightarrow> Tiling3D \<Rightarrow> Tiling3D option" where
  "add_block p t =
     do { g \<leftarrow> block_mem t p;
          ms \<leftarrow> store (t3_mems t) (block_cell t p) (Some (tile_mem_new (t3_reset t) False None g));
          Some (t\<lparr>t3_mems := ms\<rparr>) }"

definition AllocateIRISMem3 :: "Tiling3D \<Rightarrow> Tiling3D option" where
  "AllocateIRISMem3 t = (case t3_counts t of (Z, Y, X) \<Rightarrow>
     if t3_regions t then
       opt_fold (\<lambda>k t. Option.bind (add_plane k t) (opt_fold (add_region k) [0..<Y])) [0..<Z]
         (t\<lparr>t3_mems := replicate (Z * Y) None, t3_mems2d := replicate Z None\<rparr>)
     else
       opt_fold add_block (List.product [0..<Z] (List.product [0..<Y] [0..<X])) (t\<lparr>t3_mems := replicate (Z * Y * X) None\<rparr>))"

text \<open>Both constructors; the strides are kept and never used.\<close>

definition Tiling3D_new :: "nat \<Rightarrow> nat option \<Rightarrow> nat \<times> nat \<times> nat \<Rightarrow> nat \<times> nat \<times> nat \<Rightarrow> (nat \<times> nat \<times> nat) option \<Rightarrow>
    bool \<Rightarrow> bool \<Rightarrow> bool \<Rightarrow> bool \<Rightarrow> Tiling3D option" where
  "Tiling3D_new elem data ns ts strides regions reset flattened usm = (case (ns, ts) of ((zs, ys, xs), (zt, yt, xt)) \<Rightarrow>
     do { Z \<leftarrow> GET_TILE_COUNT zs zt; Y \<leftarrow> GET_TILE_COUNT ys yt; X \<leftarrow> GET_TILE_COUNT xs xt;
          AllocateIRISMem3 (AllocateTiles3
            \<lparr>t3_data = data, t3_mems = [], t3_mems2d = [], t3_regions = regions, t3_reset = reset, t3_usm = usm, t3_flattened = (usm \<or> flattened),
             t3_tiles = [], t3_tiles2d = [], t3_size = ns, t3_stride = (case strides of None \<Rightarrow> ts | Some s \<Rightarrow> s), t3_tile_size = ts,
             t3_counts = (Z, Y, X), t3_elem = elem\<rparr>) })"

definition GetMerge :: "Tiling3D \<Rightarrow> nat \<Rightarrow> (nat \<times> nat) option" where "GetMerge t k = cell (t3_tiles2d t) k"

definition GetRegion :: "Tiling3D \<Rightarrow> nat \<Rightarrow> nat \<Rightarrow> (nat \<times> nat \<times> nat) option" where
  "GetRegion t k i = (case t3_counts t of (Z, Y, X) \<Rightarrow> cell (t3_tiles t) (GET2D_INDEX k i Y))"

definition tile_index :: "Tiling3D \<Rightarrow> nat \<times> nat \<times> nat \<Rightarrow> nat" where
  "tile_index t p = (case (p, t3_counts t) of ((k, i, j), (Z, Y, X)) \<Rightarrow> GET3D_INDEX k i j Y X)"

definition GetAt3 :: "Tiling3D \<Rightarrow> nat \<times> nat \<times> nat \<Rightarrow> (nat \<times> nat \<times> nat) option" where
  "GetAt3 t p = cell (t3_tiles t) (tile_index t p)"

definition Host3 :: "Tiling3D \<Rightarrow> nat \<times> nat \<times> nat \<Rightarrow> nat option option" where
  "Host3 t p = plus_ptr (t3_data t) (block_cell t p)"

definition IRISMem3_plane :: "Tiling3D \<Rightarrow> nat \<Rightarrow> tile_mem option" where
  "IRISMem3_plane t k = Option.bind (cell (t3_mems2d t) k) (\<lambda>m. m)"

definition IRISMem3 :: "Tiling3D \<Rightarrow> nat \<times> nat \<times> nat \<Rightarrow> tile_mem option" where
  "IRISMem3 t p = (case (p, t3_counts t) of ((k, i, j), (Z, Y, X)) \<Rightarrow>
     Option.bind (cell (t3_mems t) (if t3_regions t then GET2D_INDEX k i Y else tile_index t p)) (\<lambda>m. m))"

definition GetSize3 :: "Tiling3D \<Rightarrow> nat" where "GetSize3 t = (case t3_counts t of (Z, Y, X) \<Rightarrow> Z * Y * X)"

definition items3 :: "Tiling3D \<Rightarrow> nat \<times> nat \<times> nat \<Rightarrow> Tile3DIteratorType \<Rightarrow> int \<Rightarrow> (nat \<times> nat \<times> nat) list option" where
  "items3 t start type n =
     map_option (repeated n)
       (iterate (\<lambda>it. iterator3_ne it \<lparr>i3_pos = t3_counts t, i3_counts = t3_counts t, i3_type = type\<rparr>) (\<lambda>it. GetAt3 t (i3_pos it)) iterator3_next
         \<lparr>i3_pos = start, i3_counts = t3_counts t, i3_type = type\<rparr>)"

section \<open>What they list and what they write\<close>

lemma product_Nil: "List.product xs [] = []"
  by (induction xs) auto

lemma lex_from_all: "lex_from (0, 0, 0) (A, B, C) = List.product [0..<A] (List.product [0..<B] [0..<C])"
  by (auto simp: lex_from_def upt_here product_Nil)

lemma index_div_mod: "r < n \<Longrightarrow> (k * n + r) div n = k \<and> (k * n + r) mod n = (r :: nat)"
  by simp

lemma grid3_cell:
  assumes "k < Z" "i < Y" "j < X"
  shows "cell (List.product [0..<Z] (List.product [0..<Y] [0..<X])) (GET3D_INDEX k i j Y X) = Some (k, i, j)"
proof -
  have q: "i * X + j < Y * X" using assms(2,3) by (rule row_index_less)
  have e: "GET3D_INDEX k i j Y X = k * (Y * X) + (i * X + j)" by (simp add: GET3D_INDEX_def)
  have "GET3D_INDEX k i j Y X < Z * (Y * X)" unfolding e using assms(1) q by (rule row_index_less)
  moreover have "GET3D_INDEX k i j Y X div (Y * X) = k" "GET3D_INDEX k i j Y X mod (Y * X) = i * X + j" 
    unfolding e using index_div_mod [OF q] by blast+
  moreover have "List.product [0..<Y] [0..<X] ! (i * X + j) = (i, j)" using grid_cell [OF assms(2,3)] by simp
  ultimately show ?thesis using assms(1) q by (simp add: product_nth)
qed

text \<open>In every order every tile once.\<close>

theorem blocks_visited_once:
  assumes "t3_counts t = (Z, Y, X)" "t3_tiles t = List.product [0..<Z] (List.product [0..<Y] [0..<X])"
  shows "\<exists>ts. items3 t (0, 0, 0) type 1 = Some ts \<and> distinct ts \<and> set ts = {..<Z} \<times> {..<Y} \<times> {..<X}"
proof -
  let ?e = "\<lparr>i3_pos = t3_counts t, i3_counts = t3_counts t, i3_type = type\<rparr>"
  let ?b = "\<lparr>i3_pos = (0, 0, 0), i3_counts = t3_counts t, i3_type = type\<rparr>"
  obtain A B C where n: "outer_first type (Z, Y, X) = (A, B, C)" by (cases "outer_first type (Z, Y, X)") auto
  have z: "outer_first type (0, 0, 0) = (0, 0, 0)" by (cases type) auto
  have plan: "plan3 ?e ?b" by (auto simp: plan3_def inside_def z n assms(1))
  have l: "left3 ?b = map (zyx type) (List.product [0..<A] (List.product [0..<B] [0..<C]))"
    by (simp add: left3_def z n assms(1) lex_from_all)
  have inj: "inj (zyx type)" by (metis injI outer_first_zyx)
  have set: "set (left3 ?b) = {..<Z} \<times> {..<Y} \<times> {..<X}"
  proof -
    have "zyx type (A, B, C) = (Z, Y, X)" using n by (metis zyx_outer_first)
    then show ?thesis unfolding l by (cases type) (force simp: image_iff)+
  qed
  have "those (map (GetAt3 t) (left3 ?b)) = Some (map id (left3 ?b))"
  proof (rule those_map)
    fix p assume "p \<in> set (left3 ?b)"
    then obtain k i j where p: "p = (k, i, j)" "k < Z" "i < Y" "j < X" using set by auto
    from grid3_cell [OF p(2-4)] show "GetAt3 t p = Some (id p)" by (simp add: GetAt3_def tile_index_def assms p(1) del: cell_Some)
  qed
  with walk3.lists [OF plan, of "GetAt3 t"] have "items3 t (0, 0, 0) type 1 = Some (left3 ?b)" by (simp add: items3_def repeated_1)
  moreover have "distinct (left3 ?b)" unfolding l using inj by (simp add: distinct_map distinct_product inj_on_def inj_def)
  ultimately show ?thesis using set by blast
qed

text \<open>With regions there is an entry for a row of tiles only, but \<open>GetAt\<close> computes the place of a tile.\<close>

lemma regions_not_listed:
  assumes "t3_counts t = (Z, Y, X)" "length (t3_tiles t) = Z * Y" "0 < Z" "0 < Y" "2 \<le> X"
  shows "items3 t (0, 0, 0) type 1 = None"
proof -
  let ?e = "\<lparr>i3_pos = t3_counts t, i3_counts = t3_counts t, i3_type = type\<rparr>"
  let ?b = "\<lparr>i3_pos = (0, 0, 0), i3_counts = t3_counts t, i3_type = type\<rparr>"
  obtain A B C where n: "outer_first type (Z, Y, X) = (A, B, C)" by (cases "outer_first type (Z, Y, X)") auto
  have z: "outer_first type (0, 0, 0) = (0, 0, 0)" by (cases type) auto
  have plan: "plan3 ?e ?b" by (auto simp: plan3_def inside_def z n assms(1))
  have l: "left3 ?b = map (zyx type) (List.product [0..<A] (List.product [0..<B] [0..<C]))"
    by (simp add: left3_def z n assms(1) lex_from_all)
  have "zyx type (A, B, C) = (Z, Y, X)" using n by (metis zyx_outer_first)
  then have "(Z - 1, Y - 1, X - 1) \<in> set (left3 ?b)" unfolding l using assms(3-5) by (cases type) (force simp: image_iff)+
  moreover have "GetAt3 t (Z - 1, Y - 1, X - 1) = None"
  proof -
    have "(Z - 1) * Y + (Y - 1) + 1 = Z * Y" using assms(3,4) by (cases Z; cases Y) auto
    moreover have "m + 1 \<le> m * X + (X - 1)" for m
      using assms(5) mult_le_mono2 [of 2 X m] by linarith
    ultimately have "Z * Y \<le> ((Z - 1) * Y + (Y - 1)) * X + (X - 1)" by metis
    then show ?thesis using assms(1,2) by (simp add: GetAt3_def tile_index_def GET3D_INDEX_def algebra_simps)
  qed
  ultimately have "those (map (GetAt3 t) (left3 ?b)) = None" by (rule those_None)
  with walk3.lists [OF plan, of "GetAt3 t"] show ?thesis by (simp add: items3_def)
qed

lemma block_mem_Some: "\<exists>g. block_mem t p = Some g"
  by (auto simp: block_mem_def DataMem_tile_def DMEM_MAX_DIM_def Let_def split: prod.split)

lemma add_block_defined:
  "opt_fold add_block ps t \<noteq> None \<longleftrightarrow> (\<forall>p \<in> set ps. block_cell t p < length (t3_mems t))"
proof (induction ps arbitrary: t)
  case (Cons p ps)
  obtain g where g: "block_mem t p = Some g" using block_mem_Some by blast
  show ?case
  proof (cases "block_cell t p < length (t3_mems t)")
    case True
    let ?t = "t\<lparr>t3_mems := (t3_mems t)[block_cell t p := Some (tile_mem_new (t3_reset t) False None g)]\<rparr>"
    have "add_block p t = Some ?t" using True g by (simp add: add_block_def store_def)
    moreover have "block_cell ?t q = block_cell t q" for q by (simp add: block_cell_def)
    ultimately show ?thesis using Cons [of ?t] True by simp
  next
    case False
    then have "add_block p t = None" using g by (simp add: add_block_def store_def)
    with False show ?thesis by simp
  qed
qed simp

lemma last_block_least:
  fixes zt yt xt :: nat
  assumes "0 < Z" "0 < Y" "0 < X" "0 < zt" "0 < yt" "0 < xt"
    "\<not> ((Z = 1 \<or> zt * yt * xt = 1) \<and> (Y = 1 \<or> yt * xt = 1) \<and> (X = 1 \<or> xt = 1))"
  shows "Z * Y * X \<le> GET3D_INDEX ((Z - 1) * zt) ((Y - 1) * yt) ((X - 1) * xt) (Y * yt) (X * xt)"
proof -
  obtain z y x where n: "Z = Suc z" "Y = Suc y" "X = Suc x" using assms(1-3) by (cases Z; cases Y; cases X) auto
  have scale: "m * k \<ge> m" if "0 < k" for m k :: nat using that by simp
  have two: "m + 1 \<le> m * k" if "1 \<le> m" "2 \<le> k" for m k :: nat
    using that mult_le_mono2 [of 2 k m] by linarith
  let ?a = "z * Y * X * (zt * yt * xt)" and ?b = "y * X * (yt * xt)" and ?c = "x * xt"
  have e: "GET3D_INDEX ((Z - 1) * zt) ((Y - 1) * yt) ((X - 1) * xt) (Y * yt) (X * xt) = ?a + ?b + ?c"
  proof -
    have "Z - 1 = z" "Y - 1 = y" "X - 1 = x" by (simp_all add: n)
    then show ?thesis by (simp add: GET3D_INDEX_def mult_ac)
  qed
  have k: "0 < zt * yt * xt" "0 < yt * xt" using assms(4-6) by simp_all
  have a: "z * Y * X \<le> ?a" "1 \<le> z \<Longrightarrow> 2 \<le> zt * yt * xt \<Longrightarrow> z * Y * X + 1 \<le> ?a"
    using scale [OF k(1)] two [of "z * Y * X" "zt * yt * xt"] n by auto
  have b: "y * X \<le> ?b" "1 \<le> y \<Longrightarrow> 2 \<le> yt * xt \<Longrightarrow> y * X + 1 \<le> ?b"
    using scale [OF k(2)] two [of "y * X" "yt * xt"] n by auto
  have c: "x \<le> ?c" "1 \<le> x \<Longrightarrow> 2 \<le> xt \<Longrightarrow> x + 1 \<le> ?c"
    using scale [OF assms(6)] two [of x xt] by auto
  have "1 \<le> z \<and> 2 \<le> zt * yt * xt \<or> 1 \<le> y \<and> 2 \<le> yt * xt \<or> 1 \<le> x \<and> 2 \<le> xt"
  proof -
    have "Z \<noteq> 1 \<and> zt * yt * xt \<noteq> 1 \<or> Y \<noteq> 1 \<and> yt * xt \<noteq> 1 \<or> X \<noteq> 1 \<and> xt \<noteq> 1" using assms(7) by blast
    moreover have "2 \<le> m" if "m \<noteq> 1" "0 < m" for m :: nat using that by linarith
    moreover have "1 \<le> m" if "Suc m \<noteq> 1" for m using that by linarith
    ultimately show ?thesis using k assms(6) unfolding n by blast
  qed
  then have "z * Y * X + 1 \<le> ?a \<or> y * X + 1 \<le> ?b \<or> x + 1 \<le> ?c" using a(2) b(2) c(2) by blast
  then have "z * Y * X + y * X + x + 1 \<le> ?a + ?b + ?c" using a(1) b(1) c(1) by linarith
  moreover have "Z * Y * X = z * Y * X + y * X + x + 1" by (simp add: n algebra_simps)
  ultimately show ?thesis by (simp only: e)
qed

definition exact_count :: "nat \<Rightarrow> nat \<Rightarrow> bool" where
  "exact_count n s \<longleftrightarrow> 0 < n \<and> 0 < s \<and> s < 2 ^ 24 \<and> n * s < 2 ^ 24 \<and> n < 2 ^ 22"



end
