(* ===== verification/Iris_Regions.thy ===== *)
theory Iris_Regions
  imports Iris_Tiling3D
begin

text \<open>
  The regions of a memory object (\<^verbatim>\<open>DataMemRegion.cpp\<close>) and its transfer: region after region the device receives what the transfer
  of the whole object brings, as long as the object starts at the edge of its array in all but the outermost dimension.
\<close>

section \<open>Copies into a part of a buffer\<close>

definition embed :: "nat \<Rightarrow> byte list \<Rightarrow> byte list \<Rightarrow> byte list" where
  "embed n buf s = take n buf @ s @ drop (n + length s) buf"

lemma length_embed: "n + length s \<le> length buf \<Longrightarrow> length (embed n buf s) = length buf"
  by (simp add: embed_def)

lemma memcpy_embed:
  assumes "n + length s \<le> length buf" "d + k \<le> length s"
  shows "memcpy (embed n buf s) (n + d) src so k = map_option (embed n buf) (memcpy s d src so k)"
proof (cases "so + k \<le> length src")
  case True
  then have l: "length (take d s @ take k (drop so src) @ drop (d + k) s) = length s" using assms(2) by simp
  have "take (n + d) (embed n buf s) = take n buf @ take d s" using assms by (simp add: embed_def)
  moreover have "drop (n + d + k) (embed n buf s) = drop (d + k) s @ drop (n + length s) buf"
    using assms by (simp add: embed_def add.assoc)
  ultimately show ?thesis using assms True
    by (simp add: memcpy_def length_embed) (simp add: embed_def l [simplified])
qed (simp add: memcpy_def)

lemma opt_fold_embed:
  assumes "n + length s \<le> length buf" "\<And>p. p \<in> set ps \<Longrightarrow> D p + k \<le> length s"
  shows "opt_fold (\<lambda>p d. memcpy d (n + D p) src (S p) k) ps (embed n buf s) =
    map_option (embed n buf) (opt_fold (\<lambda>p d. memcpy d (D p) src (S p) k) ps s)"
  using assms
proof (induction ps arbitrary: s)
  case (Cons p ps)
  show ?case
  proof (cases "memcpy s (D p) src (S p) k")
    case None
    with memcpy_embed [of n s buf "D p" k src "S p"] Cons.prems show ?thesis by simp
  next
    case (Some s1)
    have "length s1 = length s" using memcpy_nth(1) [OF Some] .
    with Cons.IH [of s1] memcpy_embed [of n s buf "D p" k src "S p"] Cons.prems Some show ?thesis by simp
  qed
qed simp

lemma memcpy_drop: "h \<le> length src \<Longrightarrow> memcpy d x (drop h src) y k = memcpy d x src (h + y) k"
  by (auto simp: memcpy_def add.commute)

lemma opt_fold_length:
  "opt_fold f xs d = Some d' \<Longrightarrow> (\<And>x d d'. f x d = Some d' \<Longrightarrow> length d' = length d) \<Longrightarrow> length d' = length d"
proof (induction xs arbitrary: d)
  case (Cons x xs)
  from Cons.prems(1) obtain d1 where d1: "f x d = Some d1" "opt_fold f xs d1 = Some d'" by (auto simp: bind_eq_Some_conv)
  from Cons.IH [OF d1(2) Cons.prems(2)] Cons.prems(2) [OF d1(1)] show ?case by simp
qed simp

lemma opt_fold_same:
  fixes d :: "byte list"
  assumes "\<And>x d. x \<in> set xs \<Longrightarrow> length d = n \<Longrightarrow> f x d = g x d" "\<And>x d d'. g x d = Some d' \<Longrightarrow> length d' = length d" "length d = n"
  shows "opt_fold f xs d = opt_fold g xs d"
  using assms(1,3)
proof (induction xs arbitrary: d)
  case (Cons x xs)
  show ?case
  proof (cases "g x d")
    case (Some d1)
    with assms(2) Cons.prems(2) have "length d1 = n" by simp
    with Cons Some show ?thesis by simp
  qed (simp add: Cons.prems)
qed simp

section \<open>The transfer of a region\<close>

text \<open>\<open>InvokeDMemInDataTransfer\<close> of a region: the offset within its planes, from where the region's data begins on the host, to its part
  of the object's device memory.\<close>

definition region_MemH2D :: "byte list \<Rightarrow> region \<Rightarrow> byte list \<Rightarrow> byte list option" where
  "region_MemH2D host r dev =
     (let g = rg_geom r; n = rg_dev_offset r; h = region_host_memory r in
      if n + g_size g \<le> length dev \<and> h \<le> length host then
        map_option (embed n dev)
          (OpenMP_MemH2D (take (g_size g) (drop n dev)) (rg_loff r) (g_host_size g) (g_dev_size g) (g_elem_size g) (g_dim g) (g_size g) (drop h host))
      else None)"

text \<open>A region's copy as rows of the object.\<close>

lemma region_rows:
  assumes "n + z \<le> length dev" "h \<le> length host" "\<And>j. j < r \<Longrightarrow> j * w + w \<le> z"
  shows "map_option (embed n dev) (opt_fold (\<lambda>j d. memcpy d (j * w) (drop h host) (S j) w) [0..<r] (take z (drop n dev))) =
    opt_fold (\<lambda>j d. memcpy d (n + j * w) host (h + S j) w) [0..<r] dev"
proof -
  have e: "embed n dev (take z (drop n dev)) = dev" using assms(1) append_take_drop_id [of n dev] append_take_drop_id [of z "drop n dev"]
    by (simp add: embed_def min_def add.commute)
  have l: "length (take z (drop n dev)) = z" using assms(1) by simp
  have "opt_fold (\<lambda>j d. memcpy d (n + j * w) host (h + S j) w) [0..<r] (embed n dev (take z (drop n dev))) =
      map_option (embed n dev) (opt_fold (\<lambda>j d. memcpy d (j * w) host (h + S j) w) [0..<r] (take z (drop n dev)))"
    by (rule opt_fold_embed) (use assms l in auto)
  then show ?thesis by (simp add: e memcpy_drop [OF assms(2)])
qed

text \<open>The regions of an object of two dimensions and of one of three.\<close>

lemma regions_two:
  assumes "DataMem_tile p [x, y] [hc, hr] [c, r] es = Some m"
  shows "EnableOuterDimensionRegions m = Some (map (\<lambda>i.
    \<lparr>rg_geom = \<lparr>g_host = None, g_off = [x, y + i, 0, 0, 0, 0], g_host_size = [hc, hr, 1, 1, 1, 1], g_dev_size = [c, 1, 1, 1, 1, 1],
       g_elem_size = es, g_dim = 2, g_size = es * c, g_tile_enabled = False\<rparr>,
     rg_number = i, rg_loff = [x, 0, 0, 0, 0, 0], rg_dev_offset = i * c * es\<rparr>) [0..<r])"
  using assms
  by (auto simp: EnableOuterDimensionRegions_def DataMem_tile_def DataMem_plain_def DMEM_MAX_DIM_def overlay_def extent_def Let_def numeral_eq_Suc
      intro!: those_map)

lemma regions_three:
  assumes "DataMem_tile p [x, y, z] [hc, hr, hs] [c, r, s] es = Some m"
  shows "EnableOuterDimensionRegions m = Some (map (\<lambda>i.
    \<lparr>rg_geom = \<lparr>g_host = None, g_off = [x, y, z + i, 0, 0, 0], g_host_size = [hc, hr, hs, 1, 1, 1], g_dev_size = [c, r, 1, 1, 1, 1],
       g_elem_size = es, g_dim = 3, g_size = es * c * r, g_tile_enabled = False\<rparr>,
     rg_number = i, rg_loff = [x, y, 0, 0, 0, 0], rg_dev_offset = i * (c * r) * es\<rparr>) [0..<s])"
  using assms
  by (auto simp: EnableOuterDimensionRegions_def DataMem_tile_def DataMem_plain_def DMEM_MAX_DIM_def overlay_def extent_def Let_def numeral_eq_Suc
      intro!: those_map)

lemma MemCpy3D_three:
  "MemCpy3D dev host [x, y, z, 0, 0, 0] [c, r, n, 1, 1, 1] [hc, hr, hs, 1, 1, 1] es h = MemCpy3D dev host [x, y, z] [c, r, n] [hc, hr, hs] es h"
  by (simp add: MemCpy3D_def copy_rows_def dev_base_def host_base_def Let_def)

lemma H2D_rows:
  "MemCpy3D dev host [x, y, z] [c, r, n] [hc, hr, hs] es True =
     opt_fold (\<lambda>i. opt_fold (\<lambda>j d. memcpy d ((i * r + j) * (c * es)) host (((z + i) * hr + (y + j)) * hc * es + x * es) (c * es)) [0..<r]) [0..<n] dev"
  by (simp add: MemCpy3D_def copy_rows_def dev_base_eq host_base_eq mult_ac distrib_left distrib_right)

text \<open>Planes of \<open>r\<close> rows of \<open>w\<close> bytes, one region each.\<close>

lemma planes_fold:
  assumes "length dev = n * (r * w)" "\<And>i. i < n \<Longrightarrow> H i \<le> length host"
    "\<And>i d. i < n \<Longrightarrow> length d = n * (r * w) \<Longrightarrow> f i d =
      (if i * (r * w) + r * w \<le> length d \<and> H i \<le> length host then
         map_option (embed (i * (r * w)) d) (opt_fold (\<lambda>j d. memcpy d (j * w) (drop (H i) host) (S j) w) [0..<r] (take (r * w) (drop (i * (r * w)) d)))
       else None)"
  shows "opt_fold f [0..<n] dev = opt_fold (\<lambda>i. opt_fold (\<lambda>j d. memcpy d ((i * r + j) * w) host (H i + S j) w) [0..<r]) [0..<n] dev"
proof (rule opt_fold_same [where n = "n * (r * w)"])
  fix i and d :: "byte list" assume i: "i \<in> set [0..<n]" and d: "length d = n * (r * w)"
  have "Suc i * (r * w) \<le> n * (r * w)" using i by (intro mult_le_mono1) auto
  then have z: "i * (r * w) + r * w \<le> length d" using d by simp
  have "j * w + w \<le> r * w" if "j < r" for j using mult_le_mono1 [of "Suc j" r w] that by simp
  moreover have h: "H i \<le> length host" using assms(2) i by simp
  ultimately have "map_option (embed (i * (r * w)) d) (opt_fold (\<lambda>j d. memcpy d (j * w) (drop (H i) host) (S j) w) [0..<r] (take (r * w) (drop (i * (r * w)) d))) =
      opt_fold (\<lambda>j d. memcpy d (i * (r * w) + j * w) host (H i + S j) w) [0..<r] d"
    by (intro region_rows [OF z])
  with assms(3) [OF _ d, of i] z h i
  show "f i d = opt_fold (\<lambda>j d. memcpy d ((i * r + j) * w) host (H i + S j) w) [0..<r] d"
    by (simp add: distrib_right mult.assoc)
qed (use assms(1) in \<open>auto elim: opt_fold_length intro: memcpy_nth(1)\<close>)

lemma opt_fold_Nil: "opt_fold f [] = Some"
  by (rule ext) simp

lemma region_copy:
  "MemCpy3D dev host [0, 0, 0, 0, 0, 0] [c, r, 1, 1, 1, 1] [hc, hr, hs, 1, 1, 1] es True =
     opt_fold (\<lambda>j d. memcpy d (j * (c * es)) host (j * (hc * es)) (c * es)) [0..<r] dev"
  unfolding MemCpy3D_three H2D_rows by (simp add: mult.assoc opt_fold_Nil)

text \<open>A region of \<open>r\<close> rows from byte \<open>h\<close> of the host array.\<close>

lemma region_step:
  assumes "g_host_size g = [hc, hr, hs, 1, 1, 1]" "g_dev_size g = [c, r, 1, 1, 1, 1]" "g_elem_size g = es" "g_size g = es * (c * r)" "g_dim g = 2 \<or> g_dim g = 3"
    "rg_loff rg = [0, 0, 0, 0, 0, 0]" "rg_dev_offset rg = i * (c * r) * es" "rg_geom rg = g" "region_host_memory rg = h"
  shows "region_MemH2D host rg d =
    (if i * (r * (c * es)) + r * (c * es) \<le> length d \<and> h \<le> length host then
       map_option (embed (i * (r * (c * es))) d)
         (opt_fold (\<lambda>j d. memcpy d (j * (c * es)) (drop h host) (j * (hc * es)) (c * es)) [0..<r] (take (r * (c * es)) (drop (i * (r * (c * es))) d)))
     else None)"
  using assms
  by (simp add: region_MemH2D_def Let_def OpenMP_MemH2D_def region_copy mult_ac del: One_nat_def)

lemma fold_rows:
  "opt_fold (\<lambda>i. opt_fold (\<lambda>j d. memcpy d ((i * r + j) * (c * es)) host ((z + i) * (hr * (hc * es)) + j * (hc * es)) (c * es)) [0..<r]) [0..<n] dev =
   MemCpy3D dev host [0, 0, z] [c, r, n] [hc, hr, hs] es True"
  unfolding H2D_rows by (simp add: algebra_simps)

text \<open>C36. The regions of an object of three dimensions that begins at the edge of its array in the inner two: EnableOuterDimensionRegions
  makes one region for every plane, and transferring them one after another to their parts of the device memory is the transfer of the
  whole object; none of the copies leaves the memory of the host or of the device.\<close>

theorem regions_transfer:
  assumes "DataMem_tile p [0, 0, z] [hc, hr, hs] [c, r, n] es = Some m" "c \<le> hc" "r \<le> hr" "z + n \<le> hs"
    "length dev = es * c * r * n" "length host = es * hc * hr * hs"
  shows "\<exists>rs dev'. EnableOuterDimensionRegions m = Some rs \<and> length rs = n \<and> opt_fold (region_MemH2D host) rs dev = Some dev' \<and>
    OpenMP_MemH2D dev [0, 0, z, 0, 0, 0] [hc, hr, hs, 1, 1, 1] [c, r, n, 1, 1, 1] es 3 (es * c * r * n) host = Some dev'"
proof -
  have H: "(z + i) * (hr * (hc * es)) \<le> length host" if "i < n" for i
  proof -
    have "(z + i) * (hr * (hc * es)) \<le> hs * (hr * (hc * es))" using assms(4) that by (intro mult_le_mono1) simp
    then show ?thesis by (simp add: assms(6) mult_ac)
  qed
  let ?rg = "\<lambda>i. \<lparr>rg_geom = \<lparr>g_host = None, g_off = [0, 0, z + i, 0, 0, 0], g_host_size = [hc, hr, hs, 1, 1, 1], g_dev_size = [c, r, 1, 1, 1, 1],
       g_elem_size = es, g_dim = 3, g_size = es * c * r, g_tile_enabled = False\<rparr>,
     rg_number = i, rg_loff = [0, 0, 0, 0, 0, 0], rg_dev_offset = i * (c * r) * es\<rparr>"
  have "opt_fold (\<lambda>i. region_MemH2D host (?rg i)) [0..<n] dev =
      opt_fold (\<lambda>i. opt_fold (\<lambda>j d. memcpy d ((i * r + j) * (c * es)) host ((z + i) * (hr * (hc * es)) + j * (hc * es)) (c * es)) [0..<r]) [0..<n] dev"
  proof (rule planes_fold)
    show "region_MemH2D host (?rg i) d =
      (if i * (r * (c * es)) + r * (c * es) \<le> length d \<and> (z + i) * (hr * (hc * es)) \<le> length host then
         map_option (embed (i * (r * (c * es))) d)
           (opt_fold (\<lambda>j d. memcpy d (j * (c * es)) (drop ((z + i) * (hr * (hc * es))) host) (j * (hc * es)) (c * es)) [0..<r]
             (take (r * (c * es)) (drop (i * (r * (c * es))) d)))
       else None)" for i d
      by (rule region_step [where hc = hc and hr = hr and hs = hs and c = c and r = r and es = es])
        (simp_all add: region_host_memory_def Let_def mult_ac del: One_nat_def)
  qed (use assms(5) H in \<open>simp_all add: mult_ac\<close>)
  also have "\<dots> = MemCpy3D dev host [0, 0, z] [c, r, n] [hc, hr, hs] es True" by (rule fold_rows)
  finally have t: "opt_fold (region_MemH2D host) (map ?rg [0..<n]) dev = MemCpy3D dev host [0, 0, z] [c, r, n] [hc, hr, hs] es True"
    by (simp add: opt_fold_map o_def)
  have "tile_ok dev host [0, 0, z] [c, r, n] [hc, hr, hs] es"
    using assms by (simp add: tile_ok_def numeral_eq_Suc All_less_Suc mult_ac)
  from MemCpy3D_H2D [OF this] obtain dev' where d': "MemCpy3D dev host [0, 0, z] [c, r, n] [hc, hr, hs] es True = Some dev'" by blast
  show ?thesis
    using regions_three [OF assms(1)] t d' by (simp add: OpenMP_MemH2D_def MemCpy3D_three del: One_nat_def)
qed

theorem regions_transfer_witness:
  "\<exists>m rs. DataMem_tile (Some 0) [0, 0, 0] [2, 1, 2] [1, 1, 2] 1 = Some m \<and> EnableOuterDimensionRegions m = Some rs \<and> length rs = 2 \<and>
     opt_fold (region_MemH2D [1, 2, 3, 4]) rs [0, 0] = Some [1, 3]"
proof -
  obtain m where m: "DataMem_tile (Some 0) [0, 0, 0] [2, 1, 2] [1, 1, 2] 1 = Some m"
    by (simp add: DataMem_tile_def DataMem_plain_def DMEM_MAX_DIM_def overlay_def extent_def Let_def numeral_eq_Suc)
  have "OpenMP_MemH2D [0, 0] [0, 0, 0, 0, 0, 0] [2, 1, 2, 1, 1, 1] [1, 1, 2, 1, 1, 1] 1 3 2 [1, 2, 3, 4] = Some [1, 3]" by code_simp
  with regions_transfer [OF m, of "[0, 0]" "[1, 2, 3, 4]"] m show ?thesis by auto
qed

text \<open>The offset within the planes is counted twice, once in the host pointer of a region and once in its transfer: an object of one column
  at column 1 of two planes gets column 2 when it is transferred by regions.\<close>

lemma inner_offset_twice:
  "Option.bind (DataMem_tile (Some 0) [1, 0, 0] [3, 1, 2] [1, 1, 2] 1) (\<lambda>m. Option.bind (EnableOuterDimensionRegions m) (\<lambda>rs.
     opt_fold (region_MemH2D [10, 11, 12, 20, 21, 22]) rs [0, 0])) = Some [12, 22]"
  "OpenMP_MemH2D [0, 0] [1, 0, 0, 0, 0, 0] [3, 1, 2, 1, 1, 1] [1, 1, 2, 1, 1, 1] 1 3 2 [10, 11, 12, 20, 21, 22] = Some [11, 21]"
  by code_simp+

section \<open>The pointers of a region\<close>

text \<open>\<open>arch\<close> and \<open>arch_ptr\<close>: the region remembers for each device where its part of its parent's memory begins. \<open>parent\<close> is what the
  parent answers, which allocates its memory when it is first asked.\<close>

definition region_arch :: "nat \<Rightarrow> (nat \<Rightarrow> nat) \<Rightarrow> nat \<Rightarrow> (nat \<rightharpoonup> nat) \<Rightarrow> nat \<times> (nat \<rightharpoonup> nat)" where
  "region_arch dev_off parent dev archs =
     (case archs dev of
        Some a \<Rightarrow> (a, archs)
      | None \<Rightarrow> (let a = parent dev + dev_off in (a, archs(dev \<mapsto> a))))"

text \<open>A region keeps the address it was given first: when the parent's memory has moved, it still points into the old one.\<close>

lemma region_arch_stale:
  "archs dev = None \<Longrightarrow> region_arch n new_parent dev (snd (region_arch n parent dev archs)) = region_arch n parent dev archs"
  by (simp add: region_arch_def Let_def)

text \<open>The parts of the regions lie one behind the other in the parent's memory.\<close>

lemma regions_apart:
  assumes "DataMem_tile p [x, y, z] [hc, hr, hs] [c, r, s] es = Some m" "EnableOuterDimensionRegions m = Some rs" "i < s"
  shows "rg_dev_offset (rs ! i) + g_size (rg_geom (rs ! i)) = Suc i * (es * c * r)" "Suc i * (es * c * r) \<le> g_size m"
proof -
  show "rg_dev_offset (rs ! i) + g_size (rg_geom (rs ! i)) = Suc i * (es * c * r)"
    using assms(2,3) unfolding regions_three [OF assms(1)] by (auto simp: algebra_simps)
  have "g_size m = s * (es * c * r)" using assms(1)
    by (auto simp: DataMem_tile_def DataMem_plain_def DMEM_MAX_DIM_def overlay_def extent_def Let_def numeral_eq_Suc)
  then show "Suc i * (es * c * r) \<le> g_size m" using mult_le_mono1 [of "Suc i" s "es * c * r"] assms(3) by simp
qed

end
