(* ===== verification/Spec2Isabelle.thy ===== *)
theory Spec2Isabelle
  imports Vit_Skeleton Iris_Execute Iris_Consistency Iris_AutoDAG Iris_GraphComm Iris_API Iris_HubProps Iris_Profiler Iris_Devices
    Iris_JSONProps Iris_Trace Iris_Regions
begin

text \<open>
  A model of the IRIS task runtime (\<^verbatim>\<open>src/iris-main/src/runtime\<close>) and of the heterogeneous vision-transformer
  application that runs on it (\<^verbatim>\<open>src/iris-main/apps/hetero_vit_runtime\<close>), with the theorems that hold of it.

  \<^bold>\<open>The program.\<close> An application creates tasks, gives them commands (transfers, kernels) and dependencies, and submits them.
  \<^verbatim>\<open>Platform\<close> hands a submitted task to the queue of the \<^verbatim>\<open>Scheduler\<close> thread, which takes the first task whose dependencies are
  complete, asks a \<^verbatim>\<open>Policy\<close> for devices and puts the task into the queue of one \<^verbatim>\<open>Worker\<close> thread for each device named. A worker
  executes the task once if it can, makes data available on its \<^verbatim>\<open>Device\<close> and wakes the others. Tasks are reference counted and found
  by number in a tracking table; they delete themselves. The application of the repository submits the tasks of a generated
  table, each with nine numbers from which its own policy estimates finish times on a GPU and on an FPGA.

  \<^bold>\<open>Theories.\<close>
  \<^item> \<open>Iris_Prelude\<close>, \<open>Iris_Defs\<close>: C types, status codes, arrays, loops that can fail, constants, the locale \<open>simulation\<close>.
  \<^item> \<open>Iris_Object\<close>: \<^verbatim>\<open>Retainable\<close>, \<^verbatim>\<open>ObjectTrack\<close>; a heap of counted objects as a map from numbers, in which following a deleted
    object is \<open>None\<close>.
  \<^item> \<open>Iris_Kernel\<close>, \<open>Iris_Command\<close>, \<open>Iris_Task\<close>: the records and operations of \<^verbatim>\<open>Kernel.cpp\<close>, \<^verbatim>\<open>Command.cpp\<close>, \<^verbatim>\<open>Task.cpp\<close>.
  \<^item> \<open>Iris_Queue\<close>: \<^verbatim>\<open>QueueTask.cpp\<close>, \<^verbatim>\<open>QueueReady.cpp\<close>.
  \<^item> \<open>Iris_Float\<close>, \<open>Iris_History\<close>: binary64 numbers as rational values with rounding to nearest, and \<^verbatim>\<open>History.cpp\<close> on them.
  \<^item> \<open>Iris_Policy\<close>: the registry \<^verbatim>\<open>Policies.cpp\<close> and every built-in policy.
  \<^item> \<open>Iris_Scheduler\<close>: one round of \<^verbatim>\<open>Scheduler::Run\<close> and of \<^verbatim>\<open>Worker::Run\<close>, the latter split where the kernel runs.
  \<^item> \<open>Iris_Runtime\<close>: host, scheduler and workers as one labelled transition system: a state is the runtime with its semaphores and a
    log of starts and completions, an action is one call of the host or one due step of a thread, and any interleaving of them
    is a run. \<open>Iris_Accounting\<close>, \<open>Iris_Runtime_Steps\<close>, \<open>Iris_Runtime_Inv\<close> prove the invariant (who holds which reference, where
    a task can be, what is awake), \<open>Iris_Runtime_Props\<close> what follows: safety, exact reference counts, no lost wake-ups,
    termination of the threads and completion.
  \<^item> \<open>Iris_Program\<close>: programs of API calls against that system; \<open>Hetero_Manifest\<close>, \<open>Vit_Skeleton\<close>: the tables and \<^verbatim>\<open>main\<close> of the
    application as such a program.
  \<^item> \<open>Hetero_Cost\<close>, \<open>Hetero_Policy\<close>: \<^verbatim>\<open>hetero_cost_model.h\<close> and \<^verbatim>\<open>PolicyHeteroEFT.cpp\<close>.
  \<^item> \<open>Iris_DataMem\<close>, \<open>Iris_Execute\<close>: data memory objects with a host copy, one copy for each device and their validity flags, and the
    commands of \<^verbatim>\<open>Device.cpp\<close> on them. The abstract machine is one memory without copies; the refinement says which tasks are
    executed correctly wherever they are placed, and three theorems show commands outside that class that lose data.
  \<^item> \<open>Iris_Copy\<close>: linear and strided transfers on byte arrays (\<^verbatim>\<open>DeviceOpenMP.cpp\<close>, \<^verbatim>\<open>Utils.cpp\<close>).
  \<^item> \<open>Iris_Mem\<close>, \<open>Iris_Consistency\<close>: the older \<^verbatim>\<open>IRIS_MEM\<close> objects with their table of owners, and the resolution of a task's
    inputs by \<^verbatim>\<open>Consistency.cpp\<close>, again refined to one memory.
  \<^item> \<open>Iris_Graph\<close>: task graphs (\<^verbatim>\<open>Graph.cpp\<close> and the graph calls of \<^verbatim>\<open>Platform.cpp\<close>) on the registries, and submitted to the
    transition system of \<open>Iris_Runtime\<close>: completion, waiting, release. \<open>Iris_GraphMeta\<close>, \<open>Iris_GraphComm\<close>: what a static
    scheduler reads of a graph (\<open>GraphMetadata\<close>), the dependency matrix, the levels and the data moved between tasks; a matrix
    is a list of cells in which an access outside is \<open>None\<close>.
  \<^item> \<open>Iris_PresentTable\<close>, \<open>Iris_API\<close>: the table of mapped host addresses (\<^verbatim>\<open>PresentTable.cpp\<close>) with its contract, the locale
    \<open>address_map\<close>, and the calls of \<^verbatim>\<open>Platform.cpp\<close> that make kernels and memory objects and add commands to tasks, alone and in
    sequences. \<open>Iris_Map\<close>: \<open>std::map\<close> as a sorted list.
  \<^item> \<open>Iris_Message\<close>, \<open>Iris_Hub\<close>: the hub that counts the tasks of all programs on each device, its clients and the messages
    between them (\<^verbatim>\<open>Hub.cpp\<close>, \<^verbatim>\<open>HubClient.cpp\<close>, \<^verbatim>\<open>Message.cpp\<close>), on bytes; the locale \<open>message_field\<close> states what writing and reading a
    field has to do. \<open>Iris_HubSpec\<close>: the programs and the hub as one system of events and its specification on queues of requests;
    \<open>Iris_HubProof\<close>: the simulation; \<open>Iris_HubProps\<close>: sums, snapshots, answers and limits.
  \<^item> \<open>Iris_Profiler\<close>: the buffered output of \<^verbatim>\<open>Profiler.cpp\<close>, a loop that may not end (a \<open>partial_function\<close>), and \<^verbatim>\<open>ProfilerDOT.cpp\<close>.
  \<^item> \<open>Iris_Text\<close>, \<open>Iris_Environment\<close>, \<open>Iris_Devices\<close>: numbers and tokens of the C library, the settings of \<^verbatim>\<open>Platform.cpp\<close>, and how
    \<^verbatim>\<open>Platform::Init\<close> finds its devices through the vendor libraries, whose answers are arguments.
  \<^item> \<open>Iris_JSON\<close>: graphs as documents (\<^verbatim>\<open>JSON.cpp\<close>), the loader with a result, an error or a failed assertion on every branch, and the
    recorder. \<open>Iris_JSONRecord\<close>: what a recording contains; the locale \<open>recording\<close> states when a part of a document may be written
    before all its names are known. \<open>Iris_JSONLoad\<close>, \<open>Iris_JSONProps\<close>: loading a recording gives the recorded tasks, with proactive
    transfers off; the failures a load counts; what a document cannot express.
  \<^item> \<open>Iris_Trace\<close>: the table of \<^verbatim>\<open>SchedulingHistory.cpp\<close>, which can be read back, and the file of \<^verbatim>\<open>ProfilerGoogleCharts.cpp\<close>.
  \<^item> \<open>Iris_Tiling\<close>, \<open>Iris_Tiles\<close>, \<open>Iris_TilesProps\<close>: the tilings of \<^verbatim>\<open>Tiling1D.h\<close> and \<^verbatim>\<open>Tiling2D.h\<close>, their counts, iterators (the locale
    \<open>tile_iterator\<close> states when an iterator lists what is left), layouts and memory objects; the transfers of all tiles make up the
    array. \<open>Iris_Tiling3D\<close>: \<^verbatim>\<open>Tiling3D.h\<close>. \<open>Iris_Regions\<close>: the regions of an object (\<^verbatim>\<open>DataMem.cpp\<close>, \<^verbatim>\<open>DataMemRegion.cpp\<close>) and their
    transfer. The calls that flush a tiling (\<open>FlushAll\<close>, \<open>FlushTaskAll\<close>) are left out.
  \<^item> \<open>Iris_AutoDAG\<close>: dependencies derived from the kernels' memory arguments.

  \<^bold>\<open>Conventions.\<close> A C++ object is a record, a pointer to a counted object its number, a NULL pointer \<open>None\<close>. An operation that would
  follow a deleted object, leave an array or not return has the value \<open>None\<close>; that this does not happen is proved where it is
  claimed. \<open>size_t\<close> is a 64-bit word where its wrap-around matters and a natural number for buffer lengths. Each operation under a
  mutex is one step. What the program takes from outside (the devices, \<^verbatim>\<open>rand\<close>, the kernels' effect, a plugin policy, the memory
  allocator's content) is an argument. Loops are structural recursions or folds; the one that starts again after an erasure
  (\<open>setowner_loop\<close>) has a termination proof, the profiler's is a \<open>partial_function\<close> with a theorem for each outcome, and none uses fuel.
  The scheduler is modelled without a hub (\<open>hub_available_\<close> is false); the hub's side and the calls the scheduler would make are
  a system of their own.

  \<^bold>\<open>Not modelled.\<close> The vendor backends and loaders, asynchronous streams and events, the text of JSON documents, the event profiler, the polyhedral
  variants, shadows of data memory, calibration runs of graphs, subtask splitting by generated filters, the vendored headers: they are
  wrappers of code outside the repository, input and output, or switched off in the modelled configuration.
\<close>

end
